(* ===== verification/Prelude.thy ===== *)
theory Prelude
  imports Main "HOL-Library.Word"
begin

text \<open>
  Shared vocabulary of the development: the machine-integer types of the firmware, the
  character codes its parsers test, reading a NUL-terminated string in memory, the theorem
  collections the component theories feed, and the generic lemmas they share.

  A \<open>char\<close> of the firmware is an unsigned byte (the ABI of the RP2040 and RP2350), so a
  character is an \<open>8 word\<close> and a string in memory a list of them. A pointer into a string
  is an index; the byte at the end of the list is the terminating NUL.
\<close>

unbundle bit_operations_syntax

type_synonym u8 = "8 word"
type_synonym u16 = "16 word"
type_synonym u32 = "32 word"
type_synonym cstr = "u8 list"

named_theorems advance "parsers never move a pointer backwards"
named_theorems frame "operations leave the other fields of the state alone"

subsection \<open>Character codes\<close>

abbreviation (input) ch_tab :: u8 where "ch_tab \<equiv> 9"
abbreviation (input) ch_lf :: u8 where "ch_lf \<equiv> 10"
abbreviation (input) ch_cr :: u8 where "ch_cr \<equiv> 13"
abbreviation (input) ch_esc :: u8 where "ch_esc \<equiv> 27"
abbreviation (input) ch_space :: u8 where "ch_space \<equiv> 32"
abbreviation (input) ch_quote :: u8 where "ch_quote \<equiv> 34"
abbreviation (input) ch_percent :: u8 where "ch_percent \<equiv> 37"
abbreviation (input) ch_amp :: u8 where "ch_amp \<equiv> 38"
abbreviation (input) ch_lparen :: u8 where "ch_lparen \<equiv> 40"
abbreviation (input) ch_rparen :: u8 where "ch_rparen \<equiv> 41"
abbreviation (input) ch_star :: u8 where "ch_star \<equiv> 42"
abbreviation (input) ch_plus :: u8 where "ch_plus \<equiv> 43"
abbreviation (input) ch_comma :: u8 where "ch_comma \<equiv> 44"
abbreviation (input) ch_minus :: u8 where "ch_minus \<equiv> 45"
abbreviation (input) ch_dot :: u8 where "ch_dot \<equiv> 46"
abbreviation (input) ch_slash :: u8 where "ch_slash \<equiv> 47"
abbreviation (input) ch_0 :: u8 where "ch_0 \<equiv> 48"
abbreviation (input) ch_1 :: u8 where "ch_1 \<equiv> 49"
abbreviation (input) ch_9 :: u8 where "ch_9 \<equiv> 57"
abbreviation (input) ch_colon :: u8 where "ch_colon \<equiv> 58"
abbreviation (input) ch_semicolon :: u8 where "ch_semicolon \<equiv> 59"
abbreviation (input) ch_lt :: u8 where "ch_lt \<equiv> 60"
abbreviation (input) ch_eq :: u8 where "ch_eq \<equiv> 61"
abbreviation (input) ch_gt :: u8 where "ch_gt \<equiv> 62"
abbreviation (input) ch_at :: u8 where "ch_at \<equiv> 64"
abbreviation (input) ch_A :: u8 where "ch_A \<equiv> 65"
abbreviation (input) ch_D :: u8 where "ch_D \<equiv> 68"
abbreviation (input) ch_lbracket :: u8 where "ch_lbracket \<equiv> 91"
abbreviation (input) ch_backslash :: u8 where "ch_backslash \<equiv> 92"
abbreviation (input) ch_rbracket :: u8 where "ch_rbracket \<equiv> 93"
abbreviation (input) ch_caret :: u8 where "ch_caret \<equiv> 94"
abbreviation (input) ch_underscore :: u8 where "ch_underscore \<equiv> 95"
abbreviation (input) ch_a :: u8 where "ch_a \<equiv> 97"
abbreviation (input) ch_b :: u8 where "ch_b \<equiv> 98"
abbreviation (input) ch_d :: u8 where "ch_d \<equiv> 100"
abbreviation (input) ch_f :: u8 where "ch_f \<equiv> 102"
abbreviation (input) ch_h :: u8 where "ch_h \<equiv> 104"
abbreviation (input) ch_k :: u8 where "ch_k \<equiv> 107"
abbreviation (input) ch_m :: u8 where "ch_m \<equiv> 109"
abbreviation (input) ch_n :: u8 where "ch_n \<equiv> 110"
abbreviation (input) ch_r :: u8 where "ch_r \<equiv> 114"
abbreviation (input) ch_s :: u8 where "ch_s \<equiv> 115"
abbreviation (input) ch_u :: u8 where "ch_u \<equiv> 117"
abbreviation (input) ch_v :: u8 where "ch_v \<equiv> 118"
abbreviation (input) ch_x :: u8 where "ch_x \<equiv> 120"
abbreviation (input) ch_y :: u8 where "ch_y \<equiv> 121"
abbreviation (input) ch_z :: u8 where "ch_z \<equiv> 122"
abbreviation (input) ch_lbrace :: u8 where "ch_lbrace \<equiv> 123"
abbreviation (input) ch_bar :: u8 where "ch_bar \<equiv> 124"
abbreviation (input) ch_rbrace :: u8 where "ch_rbrace \<equiv> 125"
abbreviation (input) ch_tilde :: u8 where "ch_tilde \<equiv> 126"

subsection \<open>Strings in memory\<close>

text \<open>\<open>at s p\<close> is the C expression \<open>s[p]\<close> for a NUL-terminated \<open>s\<close>.\<close>

definition at :: "cstr \<Rightarrow> nat \<Rightarrow> u8" where
  "at s p = (if p < length s then s ! p else 0)"

lemma at_nonzero_less: "at s p \<noteq> 0 \<Longrightarrow> p < length s"
  by (auto simp: at_def split: if_splits)

lemma at_eq_less: "at s p = c \<Longrightarrow> c \<noteq> 0 \<Longrightarrow> p < length s"
  by (simp add: at_nonzero_less)

lemma at_in_set: "at s p = c \<Longrightarrow> c \<noteq> 0 \<Longrightarrow> c \<in> set s"
  by (auto simp: at_def split: if_splits)

lemma at_end [simp]: "length s \<le> p \<Longrightarrow> at s p = 0"
  by (simp add: at_def)

lemma at_append_right [simp]: "at (xs @ ys) (length xs + i) = at ys i"
  by (simp add: at_def nth_append)

lemma at_append_right0 [simp]: "at (xs @ ys) (length xs) = at ys 0"
  using at_append_right [of xs ys 0] by simp

lemma at_append_left: "i < length xs \<Longrightarrow> at (xs @ ys) i = xs ! i"
  by (simp add: at_def nth_append)

lemma at_Cons_0 [simp]: "at (x # xs) 0 = x"
  by (simp add: at_def)

lemma at_Cons_Suc [simp]: "at (x # xs) (Suc i) = at xs i"
  by (simp add: at_def)

lemma at_Nil [simp]: "at [] i = 0"
  by (simp add: at_def)

lemma at_Cons_numeral [simp]: "at (x # xs) (numeral k) = at xs (pred_numeral k)"
  by (simp add: at_def nth_Cons')

text \<open>A string literal of the source as the bytes in memory.\<close>

definition bytes :: "string \<Rightarrow> cstr" where
  "bytes s = map of_char s"

subsection \<open>Lists and words\<close>

lemma unat_and_mask: "unat ((x :: 'a::len word) AND mask n) = unat x mod 2 ^ n"
  by (simp add: unsigned_take_bit_eq flip: take_bit_eq_mask take_bit_eq_mod)

lemma ucast_of_nat_small: "d < 256 \<Longrightarrow> ucast (of_nat d :: u8) = (of_nat d :: u32)"
  by (simp add: unsigned_of_nat take_bit_nat_eq_self)

lemma ucast_of_nat_unat: "ucast (w :: 'a::len word) = (of_nat (unat w) :: 'b::len word)"
  by simp

lemma unat_of_nat_small: "n < 2 ^ LENGTH('a) \<Longrightarrow> unat (of_nat n :: 'a::len word) = n"
  by (simp add: unat_of_nat take_bit_nat_eq_self)

lemma push_or_digit:
  assumes "d < 2 ^ k"
  shows "push_bit k (x :: 'a::len word) OR of_nat d = x * 2 ^ k + of_nat d"
proof -
  have lt: "bit d n \<Longrightarrow> n < k" for n
    using assms by (metis bit_take_bit_iff take_bit_nat_eq_self)
  have "push_bit k x AND (of_nat d :: 'a word) = 0"
    by (intro bit_word_eqI) (auto simp: bit_simps dest!: lt)
  then show ?thesis
    by (simp add: disjunctive_add_eq_or [symmetric] push_bit_eq_mult)
qed

lemma take_Suc_nth: "i < length xs \<Longrightarrow> take (Suc i) xs = take i xs @ [xs ! i]"
  by (simp add: take_Suc_conv_app_nth)

subsection \<open>Shifts by a variable count\<close>

text \<open>
  C leaves a 32-bit shift by a count outside 0 to 31 undefined. The code is compiled for
  Cortex-M, whose register shifts take the low byte of the count and give 0 from 32 on.
\<close>

definition lsr32 :: "u32 \<Rightarrow> int \<Rightarrow> u32" where
  "lsr32 v s = drop_bit (nat (s mod 256)) v"

definition lsl32 :: "u32 \<Rightarrow> int \<Rightarrow> u32" where
  "lsl32 v s = push_bit (nat (s mod 256)) v"

lemma lsr32_complement: "0 \<le> u \<Longrightarrow> u \<le> 32 \<Longrightarrow> lsr32 v (32 - u) = drop_bit (32 - nat u) v"
  by (simp add: lsr32_def nat_diff_distrib)

lemma lsr32_small: "0 \<le> s \<Longrightarrow> s < 256 \<Longrightarrow> lsr32 v s = drop_bit (nat s) v"
  by (simp add: lsr32_def)

end
