(* ===== verification/World.thy ===== *)
theory World
  imports Prelude
begin

text \<open>
  The state the components share: the part of \<open>system_config\<close> they use
  (\<^verbatim>\<open>src/system_config.c\<close>), the buffered IO pins (\<^verbatim>\<open>src/pirate/bio.c\<close>), reading an analog
  channel (\<^verbatim>\<open>src/pirate/amux.c\<close>), and what the firmware sends to the hardware and to the
  terminal.

  The Pico SDK is not part of the repository. Every SDK call that changes the hardware is an
  event appended to \<open>hw\<close>, in the order of the calls; the two SDK functions that read the hardware
  are parameters of the world (\<open>gpio_in\<close>, \<open>adc_in\<close>), functions of the events so far.
  What is printed is the list \<open>term\<close> of the pieces of the \<open>printf\<close> format and its arguments; a
  colour is the escape sequence of \<open>ui_term_color_*\<close>, a message the translation of a \<open>T_\<close> key.
  The SDK functions take GPIO numbers; the pin tables are those of the Bus Pirate 5 REV10.
\<close>

subsection \<open>Events\<close>

datatype gpio_function = GPIO_FUNC_SIO | GPIO_FUNC_SPI | GPIO_FUNC_PIO | GPIO_FUNC_OTHER u8

datatype hw_event =
    GpioPut nat bool
  | GpioSetDir nat bool             \<comment> \<open>\<open>True\<close> is GPIO_OUT\<close>
  | GpioSetFunction nat gpio_function
  | GpioSetInover nat               \<comment> \<open>GPIO_OVERRIDE_NORMAL\<close>
  | GpioSetOutover nat
  | GpioSetDrive2mA nat
  | GpioPutMasked u32 u32
  | GpioSetDirMasked u32 u32
  | BusyWaitUs u32
  | BusyWaitMs u32
  | AdcLock
  | AdcUnlock
  | AdcSelect nat
  | ShiftClearSet u32 u32
  | PioInit string "nat list" u32   \<comment> \<open>program, pins, clock rate\<close>
  | PioRemoveProgram
  | PioRxEnable bool
  | PioDrainRx
  | PioTx u32                       \<comment> \<open>one word pushed to the TX FIFO of the mode's state machine\<close>
  | PioRx
  | PioDrainTx
  | PioExecRestart                  \<comment> \<open>\<open>pio_sm_exec\<close> of a jump to the wrap target\<close>
  | SpiInit u32
  | SpiDeinit
  | SpiSetFormat u8 u8 u8
  | SpiTransfer u8

datatype color =
    Col_reset | Col_info | Col_notice | Col_num_float | Col_error | Col_prompt | Col_warning | Col_grey

datatype term_event =
    TText string
  | TMsg string                     \<comment> \<open>\<open>GET_T(key)\<close>\<close>
  | TColor color
  | TInt int                        \<comment> \<open>\<open>%d\<close>, \<open>%u\<close>\<close>
  | TChar u8                        \<comment> \<open>\<open>%c\<close>\<close>
  | TStr string                     \<comment> \<open>\<open>%s\<close>\<close>

definition crlf :: string where
  "crlf = [CHR 0x0D, CHR 0x0A]"

subsection \<open>System configuration\<close>

datatype bp_pin_func =
    BP_PIN_IO | BP_PIN_MODE | BP_PIN_PWM | BP_PIN_FREQ | BP_PIN_VREF | BP_PIN_VOUT | BP_PIN_GROUND | BP_PIN_DEBUG

text \<open>\<open>HW_PINS\<close> is 10: Vout, IO0 to IO7, ground. The lists of the record have that length.\<close>

record system_config =
  sc_mode :: u8
  sc_display_format :: u32
  sc_num_bits :: u8
  sc_bit_order :: u8
  sc_pin_labels :: "string option list"
  sc_pin_func :: "bp_pin_func list"
  sc_pin_changed :: u32
  sc_aux_active :: u8
  sc_pwm_active :: u8
  sc_freq_active :: u8
  sc_error :: u8

definition sc_wf :: "system_config \<Rightarrow> bool" where
  "sc_wf c \<longleftrightarrow> length (sc_pin_labels c) = 10 \<and> length (sc_pin_func c) = 10"

text \<open>\<open>system_init\<close>, the fields of the record; the labels of pins 0 and 9 are
  \<open>ui_const_pin_states[0]\<close> and \<open>[2]\<close>.\<close>

definition system_init :: system_config where
  "system_init = \<lparr>sc_mode = 0, sc_display_format = 0, sc_num_bits = 8, sc_bit_order = 0,
     sc_pin_labels = [Some ''OFF''] @ replicate 8 None @ [Some ''GND''],
     sc_pin_func = [BP_PIN_VREF] @ replicate 8 BP_PIN_IO @ [BP_PIN_GROUND],
     sc_pin_changed = 0xFFFFFFFF, sc_aux_active = 0, sc_pwm_active = 0, sc_freq_active = 0, sc_error = 0\<rparr>"

lemma system_init_wf [simp]: "sc_wf system_init"
  by (simp add: sc_wf_def system_init_def)

definition system_pin_update_purpose_and_label ::
  "bool \<Rightarrow> nat \<Rightarrow> bp_pin_func \<Rightarrow> string option \<Rightarrow> system_config \<Rightarrow> system_config" where
  "system_pin_update_purpose_and_label enable pin func label c =
     (if sc_pin_func c ! pin = BP_PIN_DEBUG then c
      else let c' = (if enable
                     then c\<lparr>sc_pin_labels := (sc_pin_labels c)[pin := label],
                            sc_pin_func := (sc_pin_func c)[pin := func]\<rparr>
                     else c\<lparr>sc_pin_labels := (sc_pin_labels c)[pin := None],
                            sc_pin_func := (sc_pin_func c)[pin := BP_PIN_IO]\<rparr>)
           in c'\<lparr>sc_pin_changed := sc_pin_changed c' OR push_bit pin 1\<rparr>)"

definition system_bio_update_purpose_and_label ::
  "bool \<Rightarrow> nat \<Rightarrow> bp_pin_func \<Rightarrow> string option \<Rightarrow> system_config \<Rightarrow> system_config" where
  "system_bio_update_purpose_and_label enable bio_pin func label c =
     system_pin_update_purpose_and_label enable (bio_pin + 1) func label c"

text \<open>The register is one of \<open>pwm_active\<close>, \<open>freq_active\<close>, \<open>aux_active\<close>; its new value is the result.\<close>

definition system_set_active :: "system_config \<Rightarrow> bool \<Rightarrow> nat \<Rightarrow> u8 \<Rightarrow> u8" where
  "system_set_active c active bio_pin reg =
     (if sc_pin_func c ! (bio_pin + 1) = BP_PIN_DEBUG then reg
      else if active then reg OR push_bit bio_pin 1
      else reg AND NOT (push_bit bio_pin 1))"

subsection \<open>The world\<close>

text \<open>\<open>mode_config\<close> of \<^verbatim>\<open>src/mode/hwspi.c\<close>, a static variable of the SPI mode.\<close>

record spi_mode_config =
  spi_baudrate :: u32
  spi_baudrate_actual :: u32
  spi_data_bits :: u32
  spi_clock_polarity :: u32
  spi_clock_phase :: u32
  spi_cs_idle :: u32
  spi_read_with_write :: bool

text \<open>\<open>mode_config\<close> of \<^verbatim>\<open>src/mode/hw3wire.c\<close>.\<close>

record hw3wire_mode_config =
  w3_baudrate :: u32
  w3_cs_idle :: u32
  w3_read_with_write :: bool

text \<open>\<open>i2c_mode_config\<close> of \<^verbatim>\<open>src/mode/hwi2c.h\<close>.\<close>

record i2c_mode_config =
  i2c_baudrate :: u32
  i2c_data_bits :: u32
  i2c_clock_stretch :: bool
  i2c_ack_pending :: bool
  i2c_read_op :: bool
  i2c_start_sent :: bool

text \<open>The global arrays of \<^verbatim>\<open>src/pirate/amux.c\<close>: 12 channels of the multiplexer, then the current sense.\<close>

record adc_state =
  hw_adc_raw :: "u16 list"
  hw_adc_voltage :: "u32 list"
  hw_adc_avgsum_voltage :: "u32 list"
  reset_adc_average :: bool

text \<open>
  What the hardware answers is a function of the events so far: a GPIO level, an ADC reading, the
  byte of the last SPI transfer, the output level of a pad, the word in the RX FIFO of the mode's
  PIO state machine. \<open>w_spi_init\<close> is the rate \<open>spi_init\<close> of the SDK chooses. The number of
  \<open>w_pio_idle\<close> and \<open>w_pio_rx_ready\<close> counts the polls of one waiting loop: whether the state
  machine is idle, whether its RX FIFO holds a word. \<open>w_stack\<close> is what an uninitialised local
  variable holds.
\<close>

record world =
  w_config :: system_config
  w_hw :: "hw_event list"
  w_term :: "term_event list"
  w_scope_running :: bool
  w_spi :: spi_mode_config
  w_3wire :: hw3wire_mode_config
  w_2wire_baudrate :: u32
  w_gpio_in :: "hw_event list \<Rightarrow> nat \<Rightarrow> bool"
  w_adc_in :: "hw_event list \<Rightarrow> u32"
  w_bus_in :: "hw_event list \<Rightarrow> u8"
  w_outtopad :: "hw_event list \<Rightarrow> nat \<Rightarrow> bool"
  w_pio_in :: "hw_event list \<Rightarrow> u32"
  w_spi_init :: "u32 \<Rightarrow> u32"
  w_i2c :: i2c_mode_config
  w_adc :: adc_state
  w_pio_idle :: "hw_event list \<Rightarrow> nat \<Rightarrow> bool"
  w_pio_rx_ready :: "hw_event list \<Rightarrow> nat \<Rightarrow> bool"
  w_stack :: "hw_event list \<Rightarrow> u32"

text \<open>After a reset, with hardware that always answers 0; the chip select idles high.\<close>

definition world_reset :: world where
  "world_reset = \<lparr>w_config = system_init, w_hw = [], w_term = [], w_scope_running = False,
     w_spi = \<lparr>spi_baudrate = 100000, spi_baudrate_actual = 100000, spi_data_bits = 8, spi_clock_polarity = 0,
       spi_clock_phase = 0, spi_cs_idle = 1, spi_read_with_write = False\<rparr>,
     w_3wire = \<lparr>w3_baudrate = 100000, w3_cs_idle = 1, w3_read_with_write = False\<rparr>, w_2wire_baudrate = 400,
     w_gpio_in = (\<lambda>_ _. False), w_adc_in = (\<lambda>_. 0), w_bus_in = (\<lambda>_. 0), w_outtopad = (\<lambda>_ _. False),
     w_pio_in = (\<lambda>_. 0), w_spi_init = id,
     w_i2c = \<lparr>i2c_baudrate = 0, i2c_data_bits = 0, i2c_clock_stretch = False, i2c_ack_pending = False,
       i2c_read_op = False, i2c_start_sent = False\<rparr>,
     w_adc = \<lparr>hw_adc_raw = replicate 13 0, hw_adc_voltage = replicate 13 0, hw_adc_avgsum_voltage = replicate 13 0,
       reset_adc_average = True\<rparr>,
     w_pio_idle = (\<lambda>_ _. True), w_pio_rx_ready = (\<lambda>_ _. True), w_stack = (\<lambda>_. 0)\<rparr>"

definition hw_do :: "hw_event list \<Rightarrow> world \<Rightarrow> world" where
  "hw_do es w = w\<lparr>w_hw := w_hw w @ es\<rparr>"

definition term_out :: "term_event list \<Rightarrow> world \<Rightarrow> world" where
  "term_out es w = w\<lparr>w_term := w_term w @ es\<rparr>"

definition with_config :: "(system_config \<Rightarrow> system_config) \<Rightarrow> world \<Rightarrow> world" where
  "with_config f w = w\<lparr>w_config := f (w_config w)\<rparr>"

lemma world_simps [simp]:
  "w_spi (hw_do es w) = w_spi w" "w_spi (term_out ts w) = w_spi w" "w_spi (with_config f w) = w_spi w"
  "w_3wire (hw_do es w) = w_3wire w" "w_3wire (term_out ts w) = w_3wire w" "w_3wire (with_config f w) = w_3wire w"
  "w_bus_in (hw_do es w) = w_bus_in w" "w_bus_in (term_out ts w) = w_bus_in w" "w_bus_in (with_config f w) = w_bus_in w"
  "w_i2c (hw_do es w) = w_i2c w" "w_i2c (term_out ts w) = w_i2c w" "w_i2c (with_config f w) = w_i2c w"
  "w_adc (hw_do es w) = w_adc w" "w_adc (term_out ts w) = w_adc w" "w_adc (with_config f w) = w_adc w"
  "w_pio_in (hw_do es w) = w_pio_in w" "w_pio_in (term_out ts w) = w_pio_in w" "w_pio_in (with_config f w) = w_pio_in w"
  "w_pio_idle (hw_do es w) = w_pio_idle w" "w_pio_idle (term_out ts w) = w_pio_idle w"
  "w_pio_idle (with_config f w) = w_pio_idle w"
  "w_pio_rx_ready (hw_do es w) = w_pio_rx_ready w" "w_pio_rx_ready (term_out ts w) = w_pio_rx_ready w"
  "w_pio_rx_ready (with_config f w) = w_pio_rx_ready w"
  "w_config (hw_do es w) = w_config w" "w_hw (hw_do es w) = w_hw w @ es" "w_term (hw_do es w) = w_term w"
  "w_config (term_out ts w) = w_config w" "w_hw (term_out ts w) = w_hw w" "w_term (term_out ts w) = w_term w @ ts"
  "w_config (with_config f w) = f (w_config w)" "w_hw (with_config f w) = w_hw w" "w_term (with_config f w) = w_term w"
  by (simp_all add: hw_do_def term_out_def with_config_def)

lemma hw_do_append: "hw_do es (hw_do ds w) = hw_do (ds @ es) w"
  by (simp add: hw_do_def)

subsection \<open>Buffered IO\<close>

definition bio2bufiopin :: "nat list" where
  "bio2bufiopin = [8, 9, 10, 11, 12, 13, 14, 15]"

definition bio2bufdirpin :: "nat list" where
  "bio2bufdirpin = [0, 1, 2, 3, 4, 5, 6, 7]"

abbreviation (input) BUFDIR_INPUT :: bool where "BUFDIR_INPUT \<equiv> False"
abbreviation (input) BUFDIR_OUTPUT :: bool where "BUFDIR_OUTPUT \<equiv> True"
abbreviation (input) GPIO_IN :: bool where "GPIO_IN \<equiv> False"
abbreviation (input) GPIO_OUT :: bool where "GPIO_OUT \<equiv> True"

text \<open>
  The two loops of \<open>bio_init\<close>, one event list per pin. The override calls pass the mask
  \<open>1u << pin\<close>, as the code does.
\<close>

definition bio_init_io :: "system_config \<Rightarrow> nat \<Rightarrow> hw_event list" where
  "bio_init_io c i =
     (if sc_pin_func c ! (i + 1) = BP_PIN_DEBUG then []
      else [GpioSetInover (2 ^ (bio2bufiopin ! i)), GpioSetOutover (2 ^ (bio2bufiopin ! i)),
            GpioSetDrive2mA (bio2bufiopin ! i), GpioSetDir (bio2bufiopin ! i) GPIO_IN,
            GpioSetFunction (bio2bufiopin ! i) GPIO_FUNC_SIO])"

definition bio_init_dir :: "system_config \<Rightarrow> nat \<Rightarrow> hw_event list" where
  "bio_init_dir c i =
     (if sc_pin_func c ! (i + 1) = BP_PIN_DEBUG then []
      else [GpioSetInover (2 ^ (bio2bufdirpin ! i)), GpioSetOutover (2 ^ (bio2bufdirpin ! i)),
            GpioPut (bio2bufdirpin ! i) BUFDIR_INPUT, GpioSetDir (bio2bufdirpin ! i) GPIO_OUT,
            GpioSetFunction (bio2bufdirpin ! i) GPIO_FUNC_SIO])"

definition bio_init :: "world \<Rightarrow> world" where
  "bio_init w = hw_do (concat (map (bio_init_dir (w_config w)) [0..<8]))
     (hw_do (concat (map (bio_init_io (w_config w)) [0..<8])) w)"

definition bio_buf_pin_init :: "nat \<Rightarrow> world \<Rightarrow> world" where
  "bio_buf_pin_init bio = hw_do [GpioPut (bio2bufdirpin ! bio) BUFDIR_INPUT,
     GpioSetDir (bio2bufdirpin ! bio) GPIO_OUT, GpioSetFunction (bio2bufdirpin ! bio) GPIO_FUNC_SIO]"

definition bio_buf_output :: "nat \<Rightarrow> world \<Rightarrow> world" where
  "bio_buf_output bio = hw_do [GpioPut (bio2bufdirpin ! bio) BUFDIR_OUTPUT]"

definition bio_buf_input :: "nat \<Rightarrow> world \<Rightarrow> world" where
  "bio_buf_input bio = hw_do [GpioPut (bio2bufdirpin ! bio) BUFDIR_INPUT]"

definition bio_output :: "nat \<Rightarrow> world \<Rightarrow> world" where
  "bio_output bio = hw_do [GpioPut (bio2bufdirpin ! bio) BUFDIR_OUTPUT, GpioSetDir (bio2bufiopin ! bio) GPIO_OUT]"

definition bio_input :: "nat \<Rightarrow> world \<Rightarrow> world" where
  "bio_input bio = hw_do [GpioSetDir (bio2bufiopin ! bio) GPIO_IN, GpioPut (bio2bufdirpin ! bio) BUFDIR_INPUT]"

definition bio_put :: "nat \<Rightarrow> bool \<Rightarrow> world \<Rightarrow> world" where
  "bio_put bio value = hw_do [GpioPut (bio2bufiopin ! bio) value]"

definition bio_get :: "world \<Rightarrow> nat \<Rightarrow> bool" where
  "bio_get w bio = w_gpio_in w (w_hw w) (bio2bufiopin ! bio)"

definition bio_set_function :: "nat \<Rightarrow> gpio_function \<Rightarrow> world \<Rightarrow> world" where
  "bio_set_function bio function = hw_do [GpioSetFunction (bio2bufiopin ! bio) function]"

subsection \<open>Analog inputs\<close>

text \<open>The multiplexer is behind the 595 shift register; \<open>HW_ADC_MUX_GND\<close> is channel 15.\<close>

definition amux_select_input :: "nat \<Rightarrow> world \<Rightarrow> bool \<times> world" where
  "amux_select_input channel w =
     (if w_scope_running w then (False, w)
      else (True, hw_do [ShiftClearSet (push_bit 1 0xF) (push_bit 1 (of_nat channel) AND 0x1E)] w))"

definition amux_read :: "nat \<Rightarrow> world \<Rightarrow> u32 \<times> world" where
  "amux_read channel w =
     (if w_scope_running w then (0, w)
      else let w1 = hw_do [AdcLock, AdcSelect 2] w;
               w2 = snd (amux_select_input 15 w1);
               w3 = snd (amux_select_input channel w2);
               w4 = hw_do [BusyWaitUs 60] w3;
               ret = w_adc_in w4 (w_hw w4)
           in (ret, hw_do [AdcUnlock] w4))"

definition amux_read_bio :: "nat \<Rightarrow> world \<Rightarrow> u32 \<times> world" where
  "amux_read_bio bio w = (if w_scope_running w then (0, w) else amux_read (7 - bio) w)"

end
