(* ===== verification/Bytecode.thy ===== *)
theory Bytecode
  imports World
begin

text \<open>
  The bytecode of the syntax engine, \<^verbatim>\<open>src/bytecode.h\<close>, and the table of protocol handlers
  a mode supplies, \<^verbatim>\<open>src/modes.h\<close>. A \<open>const char*\<close> field is \<open>None\<close> for the null
  pointer, otherwise the text or the translation key it points to.
\<close>

record bytecode =
  bc_number_format :: u8
  bc_command :: u8
  bc_error :: u8
  bc_read_with_write :: bool
  bc_has_bits :: bool
  bc_has_repeat :: bool
  bc_error_message :: "string option"
  bc_data_message :: "string option"
  bc_bits :: u32
  bc_repeat :: u32
  bc_out_data :: u32
  bc_in_data :: u32

definition bytecode_empty :: bytecode where
  "bytecode_empty = \<lparr>bc_number_format = 0, bc_command = 0, bc_error = 0, bc_read_with_write = False,
     bc_has_bits = False, bc_has_repeat = False, bc_error_message = None, bc_data_message = None,
     bc_bits = 0, bc_repeat = 0, bc_out_data = 0, bc_in_data = 0\<rparr>"

datatype syntax_status = SSTATUS_OK | SSTATUS_ERROR

abbreviation (input) SERR_NONE :: u8 where "SERR_NONE \<equiv> 0"
abbreviation (input) SERR_DEBUG :: u8 where "SERR_DEBUG \<equiv> 1"
abbreviation (input) SERR_INFO :: u8 where "SERR_INFO \<equiv> 2"
abbreviation (input) SERR_WARN :: u8 where "SERR_WARN \<equiv> 3"
abbreviation (input) SERR_ERROR :: u8 where "SERR_ERROR \<equiv> 4"

abbreviation (input) SYN_WRITE :: u8 where "SYN_WRITE \<equiv> 0"
abbreviation (input) SYN_READ :: u8 where "SYN_READ \<equiv> 1"
abbreviation (input) SYN_START :: u8 where "SYN_START \<equiv> 2"
abbreviation (input) SYN_STOP :: u8 where "SYN_STOP \<equiv> 3"
abbreviation (input) SYN_START_ALT :: u8 where "SYN_START_ALT \<equiv> 4"
abbreviation (input) SYN_STOP_ALT :: u8 where "SYN_STOP_ALT \<equiv> 5"
abbreviation (input) SYN_TICK_CLOCK :: u8 where "SYN_TICK_CLOCK \<equiv> 6"
abbreviation (input) SYN_SET_CLK_HIGH :: u8 where "SYN_SET_CLK_HIGH \<equiv> 7"
abbreviation (input) SYN_SET_CLK_LOW :: u8 where "SYN_SET_CLK_LOW \<equiv> 8"
abbreviation (input) SYN_SET_DAT_HIGH :: u8 where "SYN_SET_DAT_HIGH \<equiv> 9"
abbreviation (input) SYN_SET_DAT_LOW :: u8 where "SYN_SET_DAT_LOW \<equiv> 10"
abbreviation (input) SYN_READ_DAT :: u8 where "SYN_READ_DAT \<equiv> 11"
abbreviation (input) SYN_DELAY_US :: u8 where "SYN_DELAY_US \<equiv> 12"
abbreviation (input) SYN_DELAY_MS :: u8 where "SYN_DELAY_MS \<equiv> 13"
abbreviation (input) SYN_AUX_OUTPUT_HIGH :: u8 where "SYN_AUX_OUTPUT_HIGH \<equiv> 14"
abbreviation (input) SYN_AUX_OUTPUT_LOW :: u8 where "SYN_AUX_OUTPUT_LOW \<equiv> 15"
abbreviation (input) SYN_AUX_INPUT :: u8 where "SYN_AUX_INPUT \<equiv> 16"
abbreviation (input) SYN_ADC :: u8 where "SYN_ADC \<equiv> 17"

text \<open>
  A protocol handler gets the slot \<open>result\<close> it fills in and, for reads, the instruction that
  follows (\<open>next\<close>). A mode is its row of the dispatch table \<open>modes\<close>: the handlers the syntax
  engine calls.
\<close>

type_synonym handler = "bytecode \<Rightarrow> bytecode option \<Rightarrow> world \<Rightarrow> bytecode \<times> world"

record mode_ops =
  protocol_start :: handler
  protocol_start_alt :: handler
  protocol_stop :: handler
  protocol_stop_alt :: handler
  protocol_write :: handler
  protocol_read :: handler
  protocol_clkh :: handler
  protocol_clkl :: handler
  protocol_dath :: handler
  protocol_datl :: handler
  protocol_tick_clock :: handler
  protocol_bitr :: handler

text \<open>What a handler may not touch: the fields the syntax engine itself works with.\<close>

definition same_instruction :: "bytecode \<Rightarrow> bytecode \<Rightarrow> bool" where
  "same_instruction a b \<longleftrightarrow> bc_command a = bc_command b \<and> bc_repeat a = bc_repeat b \<and>
     bc_bits a = bc_bits b \<and> bc_number_format a = bc_number_format b \<and>
     bc_has_bits a = bc_has_bits b \<and> bc_has_repeat a = bc_has_repeat b"

lemma same_instruction_refl [simp]: "same_instruction a a"
  by (simp add: same_instruction_def)

lemma same_instruction_sym: "same_instruction a b \<Longrightarrow> same_instruction b a"
  by (simp add: same_instruction_def)

lemma same_instruction_trans [trans]:
  "same_instruction a b \<Longrightarrow> same_instruction b c \<Longrightarrow> same_instruction a c"
  by (simp add: same_instruction_def)

lemma same_instruction_updates [simp]:
  "same_instruction (a\<lparr>bc_in_data := x\<rparr>) b = same_instruction a b"
  "same_instruction (a\<lparr>bc_out_data := x\<rparr>) b = same_instruction a b"
  "same_instruction (a\<lparr>bc_data_message := m\<rparr>) b = same_instruction a b"
  "same_instruction (a\<lparr>bc_error_message := m\<rparr>) b = same_instruction a b"
  "same_instruction (a\<lparr>bc_error := e\<rparr>) b = same_instruction a b"
  "same_instruction (a\<lparr>bc_read_with_write := f\<rparr>) b = same_instruction a b"
  by (simp_all add: same_instruction_def)

end
