(* ===== verification/Bp_Number.thy ===== *)
theory Bp_Number
  imports Prelude
begin

text \<open>
  Number parsing, \<^verbatim>\<open>src/lib/bp_number/bp_number.c\<close> and \<^verbatim>\<open>bp_number.h\<close>.

  A parser takes the string and the index its \<open>*str\<close> points to. \<open>Some (value, index)\<close> is the
  return value \<open>true\<close> with the stored value and the advanced pointer; \<open>None\<close> is \<open>false\<close>,
  where the pointer is left alone (\<open>bp_num_u32\<close> has then stored 0).
  \<open>bp_num_float\<close> is not modelled: its result is defined by the rounding of single precision
  arithmetic. The lemmas give the value every digit string parses to, the saturation of decimal
  numbers, the truncation of long hexadecimal and binary ones, and parsing as the inverse
  of printing.
\<close>

subsection \<open>Formats and character classes\<close>

datatype bp_num_format = BP_NUM_NONE | BP_NUM_HEX | BP_NUM_DEC | BP_NUM_BIN | BP_NUM_FLOAT

fun bp_num_format_code :: "bp_num_format \<Rightarrow> u8" where
  "bp_num_format_code BP_NUM_NONE = 0"
| "bp_num_format_code BP_NUM_HEX = 1"
| "bp_num_format_code BP_NUM_DEC = 2"
| "bp_num_format_code BP_NUM_BIN = 3"
| "bp_num_format_code BP_NUM_FLOAT = 4"

definition bp_num_is_hex :: "u8 \<Rightarrow> bool" where
  "bp_num_is_hex c \<longleftrightarrow>
     (ch_0 \<le> c \<and> c \<le> ch_9) \<or> (ch_a \<le> (c OR 0x20) \<and> (c OR 0x20) \<le> ch_f)"

definition bp_num_hex_val :: "u8 \<Rightarrow> u8" where
  "bp_num_hex_val c =
     (if ch_0 \<le> c \<and> c \<le> ch_9 then c - ch_0 else (c OR 0x20) - ch_a + 10)"

definition bp_num_is_dec :: "u8 \<Rightarrow> bool" where
  "bp_num_is_dec c \<longleftrightarrow> ch_0 \<le> c \<and> c \<le> ch_9"

definition bp_num_is_bin :: "u8 \<Rightarrow> bool" where
  "bp_num_is_bin c \<longleftrightarrow> c = ch_0 \<or> c = ch_1"

lemma is_digit_0 [simp]:
  "\<not> bp_num_is_hex 0" "\<not> bp_num_is_dec 0" "\<not> bp_num_is_bin 0"
  by (simp_all add: bp_num_is_hex_def bp_num_is_dec_def bp_num_is_bin_def)

lemma is_digit_less:
  "bp_num_is_hex (at s p) \<Longrightarrow> p < length s"
  "bp_num_is_dec (at s p) \<Longrightarrow> p < length s"
  "bp_num_is_bin (at s p) \<Longrightarrow> p < length s"
  by (metis at_nonzero_less is_digit_0)+

function bp_num_skip_whitespace :: "cstr \<Rightarrow> nat \<Rightarrow> nat" where
  "bp_num_skip_whitespace s p =
     (if at s p = ch_space \<or> at s p = ch_tab \<or> at s p = ch_cr \<or> at s p = ch_lf
      then bp_num_skip_whitespace s (Suc p) else p)"
  by pat_completeness auto
termination
  by (relation "measure (\<lambda>(s, p). length s - p)") (auto simp: at_def split: if_splits)

definition bp_num_at_end :: "cstr \<Rightarrow> nat \<Rightarrow> bool" where
  "bp_num_at_end s p \<longleftrightarrow> at s p = 0 \<or> at s p = ch_space \<or> at s p = ch_tab"

subsection \<open>The digit loops\<close>

function bp_num_hex_loop :: "cstr \<Rightarrow> nat \<Rightarrow> u32 \<Rightarrow> nat \<Rightarrow> nat \<times> u32 \<times> nat" where
  "bp_num_hex_loop s p v digits =
     (if bp_num_is_hex (at s p)
      then bp_num_hex_loop s (Suc p) (push_bit 4 v OR ucast (bp_num_hex_val (at s p))) (Suc digits)
      else (p, v, digits))"
  by pat_completeness auto
termination
  by (relation "measure (\<lambda>(s, p, v, d). length s - p)") (auto dest: is_digit_less)

function bp_num_bin_loop :: "cstr \<Rightarrow> nat \<Rightarrow> u32 \<Rightarrow> nat \<Rightarrow> nat \<times> u32 \<times> nat" where
  "bp_num_bin_loop s p v digits =
     (if bp_num_is_bin (at s p)
      then bp_num_bin_loop s (Suc p) (push_bit 1 v OR ucast (at s p - ch_0)) (Suc digits)
      else (p, v, digits))"
  by pat_completeness auto
termination
  by (relation "measure (\<lambda>(s, p, v, d). length s - p)") (auto dest: is_digit_less)

text \<open>One decimal digit: the value is capped where \<open>v * 10 + d\<close> would exceed 32 bits.\<close>

definition bp_num_dec_step :: "u32 \<Rightarrow> u8 \<Rightarrow> u32" where
  "bp_num_dec_step v c =
     (if 429496729 < v \<or> (v = 429496729 \<and> 5 < c - ch_0) then 0xFFFFFFFF
      else v * 10 + ucast (c - ch_0))"

function bp_num_dec_loop :: "cstr \<Rightarrow> nat \<Rightarrow> u32 \<Rightarrow> nat \<Rightarrow> nat \<times> u32 \<times> nat" where
  "bp_num_dec_loop s p v digits =
     (if bp_num_is_dec (at s p)
      then bp_num_dec_loop s (Suc p) (bp_num_dec_step v (at s p)) (Suc digits)
      else (p, v, digits))"
  by pat_completeness auto
termination
  by (relation "measure (\<lambda>(s, p, v, d). length s - p)") (auto dest: is_digit_less)

definition bp_num_hex :: "cstr \<Rightarrow> nat \<Rightarrow> (u32 \<times> nat) option" where
  "bp_num_hex s p =
     (case bp_num_hex_loop s p 0 0 of (p', v, digits) \<Rightarrow>
        if digits = 0 then None else Some (v, p'))"

definition bp_num_bin :: "cstr \<Rightarrow> nat \<Rightarrow> (u32 \<times> nat) option" where
  "bp_num_bin s p =
     (case bp_num_bin_loop s p 0 0 of (p', v, digits) \<Rightarrow>
        if digits = 0 then None else Some (v, p'))"

definition bp_num_dec :: "cstr \<Rightarrow> nat \<Rightarrow> (u32 \<times> nat) option" where
  "bp_num_dec s p =
     (case bp_num_dec_loop s p 0 0 of (p', v, digits) \<Rightarrow>
        if digits = 0 then None else Some (v, p'))"

subsection \<open>Auto-detected formats\<close>

definition bp_num_u32 :: "cstr \<Rightarrow> nat \<Rightarrow> (u32 \<times> bp_num_format \<times> nat) option" where
  "bp_num_u32 s p =
     (if at s p = ch_0 \<and> (at s (p + 1) OR 0x20) = ch_x
      then map_option (\<lambda>(v, p'). (v, BP_NUM_HEX, p')) (bp_num_hex s (p + 2))
      else if at s p = ch_0 \<and> (at s (p + 1) OR 0x20) = ch_b
      then map_option (\<lambda>(v, p'). (v, BP_NUM_BIN, p')) (bp_num_bin s (p + 2))
      else if bp_num_is_dec (at s p)
      then map_option (\<lambda>(v, p'). (v, BP_NUM_DEC, p')) (bp_num_dec s p)
      else None)"

text \<open>
  The result is the bit pattern of the \<open>int32_t\<close>. For the value \<open>-2147483648\<close> the code
  negates \<open>(int32_t)2147483648\<close>, which wraps to the same pattern on this target.
\<close>

definition bp_num_i32 :: "cstr \<Rightarrow> nat \<Rightarrow> (u32 \<times> bp_num_format \<times> nat) option" where
  "bp_num_i32 s p =
     (let negative = (at s p = ch_minus); q = (if negative then Suc p else p) in
      case bp_num_u32 s q of
        None \<Rightarrow> None
      | Some (uval, f, p') \<Rightarrow>
          if negative then (if 2147483648 < uval then None else Some (- uval, f, p'))
          else (if 2147483647 < uval then None else Some (uval, f, p')))"

declare bp_num_hex_loop.simps [simp del] bp_num_bin_loop.simps [simp del]
  bp_num_dec_loop.simps [simp del] bp_num_skip_whitespace.simps [simp del]

subsection \<open>Parsers advance, and stop at the terminator\<close>

lemma hex_loop_advance: "bp_num_hex_loop s p v d = (p', v', d') \<Longrightarrow> p' = p + (d' - d) \<and> d \<le> d' \<and> (p \<le> length s \<longrightarrow> p' \<le> length s)"
proof (induction s p v d rule: bp_num_hex_loop.induct)
  case (1 s p v d)
  show ?case
    using 1 by (cases "bp_num_is_hex (at s p)")
      (auto simp: bp_num_hex_loop.simps [of s p] dest: is_digit_less)
qed

lemma bin_loop_advance: "bp_num_bin_loop s p v d = (p', v', d') \<Longrightarrow> p' = p + (d' - d) \<and> d \<le> d' \<and> (p \<le> length s \<longrightarrow> p' \<le> length s)"
proof (induction s p v d rule: bp_num_bin_loop.induct)
  case (1 s p v d)
  show ?case
    using 1 by (cases "bp_num_is_bin (at s p)")
      (auto simp: bp_num_bin_loop.simps [of s p] dest: is_digit_less)
qed

lemma dec_loop_advance: "bp_num_dec_loop s p v d = (p', v', d') \<Longrightarrow> p' = p + (d' - d) \<and> d \<le> d' \<and> (p \<le> length s \<longrightarrow> p' \<le> length s)"
proof (induction s p v d rule: bp_num_dec_loop.induct)
  case (1 s p v d)
  show ?case
    using 1 by (cases "bp_num_is_dec (at s p)")
      (auto simp: bp_num_dec_loop.simps [of s p] dest: is_digit_less)
qed

lemma bp_num_hex_advance: "bp_num_hex s p = Some (v, p') \<Longrightarrow> p < p' \<and> (p \<le> length s \<longrightarrow> p' \<le> length s)"
  unfolding bp_num_hex_def
  by (cases "bp_num_hex_loop s p 0 0") (auto split: if_splits dest: hex_loop_advance)

lemma bp_num_bin_advance: "bp_num_bin s p = Some (v, p') \<Longrightarrow> p < p' \<and> (p \<le> length s \<longrightarrow> p' \<le> length s)"
  unfolding bp_num_bin_def
  by (cases "bp_num_bin_loop s p 0 0") (auto split: if_splits dest: bin_loop_advance)

lemma bp_num_dec_advance: "bp_num_dec s p = Some (v, p') \<Longrightarrow> p < p' \<and> (p \<le> length s \<longrightarrow> p' \<le> length s)"
  unfolding bp_num_dec_def
  by (cases "bp_num_dec_loop s p 0 0") (auto split: if_splits dest: dec_loop_advance)

lemma prefix_second_less:
  assumes "(at s (p + 1) OR 0x20) = c" and "c \<noteq> 0x20"
  shows "p + 1 < length s"
  using assms by (intro at_nonzero_less) auto

lemma bp_num_u32_advance [advance]:
  assumes "bp_num_u32 s p = Some (v, f, p')"
  shows "p < p' \<and> (p \<le> length s \<longrightarrow> p' \<le> length s)"
  using assms
  by (auto simp: bp_num_u32_def split: if_splits
      dest!: bp_num_hex_advance bp_num_bin_advance bp_num_dec_advance
      dest: prefix_second_less [of s p ch_x] prefix_second_less [of s p ch_b])

lemma bp_num_i32_advance [advance]:
  assumes "bp_num_i32 s p = Some (v, f, p')"
  shows "p < p' \<and> (p \<le> length s \<longrightarrow> p' \<le> length s)"
  using assms
  by (auto simp: bp_num_i32_def Let_def split: if_splits option.splits
      dest!: bp_num_u32_advance dest: at_nonzero_less)

lemma bp_num_u32_None_iff_dec:
  "bp_num_is_dec (at s p) \<Longrightarrow> bp_num_dec s p \<noteq> None"
  unfolding bp_num_dec_def
  by (subst bp_num_dec_loop.simps)
    (auto split: prod.splits if_splits dest!: dec_loop_advance)

subsection \<open>The value of a digit string\<close>

definition digits_value :: "nat \<Rightarrow> nat list \<Rightarrow> nat \<Rightarrow> nat" where
  "digits_value b ds a = foldl (\<lambda>x d. x * b + d) a ds"

lemma digits_value_simps [simp]:
  "digits_value b [] a = a"
  "digits_value b (d # ds) a = digits_value b ds (a * b + d)"
  by (simp_all add: digits_value_def)

lemma digits_value_append [simp]:
  "digits_value b (ds @ es) a = digits_value b es (digits_value b ds a)"
  by (simp add: digits_value_def)

lemma digits_value_mono: "a \<le> a' \<Longrightarrow> digits_value b ds a \<le> digits_value b ds a'"
  by (induction ds arbitrary: a a') (auto intro!: add_mono mult_right_mono)

lemma digits_value_ge: "0 < b \<Longrightarrow> a \<le> digits_value b ds a"
proof (induction ds arbitrary: a)
  case (Cons d ds)
  have "a \<le> a * b + d"
    using Cons.prems by (simp add: trans_le_add1)
  also have "\<dots> \<le> digits_value b ds (a * b + d)"
    using Cons by simp
  finally show ?case by simp
qed simp

lemma digits_value_sat:
  "0 < b \<Longrightarrow> min (digits_value b ds (min a m)) m = min (digits_value b ds a) m"
  using digits_value_mono [of "min a m" a b ds] digits_value_ge [of b "min a m" ds]
    digits_value_ge [of b a ds]
  by (cases "a \<le> m") (auto simp: min_def)

text \<open>The characters the firmware prints digits with.\<close>

definition dec_char :: "nat \<Rightarrow> u8" where
  "dec_char d = ch_0 + of_nat d"

definition hex_char :: "nat \<Rightarrow> u8" where
  "hex_char d = (if d < 10 then ch_0 + of_nat d else ch_A + of_nat (d - 10))"

lemma all_dec_chars:
  "\<forall>d \<in> set [0..<10]. bp_num_is_dec (dec_char d) \<and> dec_char d - ch_0 = of_nat d"
  by code_simp

lemma all_hex_chars:
  "\<forall>d \<in> set [0..<16]. bp_num_is_hex (hex_char d) \<and> bp_num_hex_val (hex_char d) = of_nat d"
  by code_simp

lemma dec_char_facts:
  assumes "d < 10"
  shows "bp_num_is_dec (dec_char d)" and "dec_char d - ch_0 = of_nat d"
  using all_dec_chars assms by auto

lemma hex_char_facts:
  assumes "d < 16"
  shows "bp_num_is_hex (hex_char d)" and "bp_num_hex_val (hex_char d) = of_nat d"
  using all_hex_chars assms by auto

lemma bp_num_dec_step_value:
  assumes "d < 10" and "n < 2 ^ 32"
  shows "bp_num_dec_step (of_nat n) (dec_char d) = of_nat (min (n * 10 + d) (2 ^ 32 - 1))"
proof -
  have n: "unat (of_nat n :: u32) = n"
    using assms by (simp add: unat_of_nat)
  have d: "unat (of_nat d :: u8) = d"
    using assms by (simp add: unat_of_nat)
  have cond: "429496729 < (of_nat n :: u32) \<or> ((of_nat n :: u32) = 429496729 \<and> 5 < (of_nat d :: u8))
      \<longleftrightarrow> 2 ^ 32 - 1 < n * 10 + d"
    using assms n d
    by (auto simp: word_less_nat_alt word_unat_eq_iff)
  show ?thesis
    unfolding bp_num_dec_step_def dec_char_facts [OF assms(1)] cond
    using assms by (auto simp: min_def ucast_of_nat_small)
qed

lemma bp_num_dec_loop_value:
  assumes "\<forall>d \<in> set ds. d < 10" and "\<not> bp_num_is_dec (at rest 0)" and "n < 2 ^ 32"
  shows "bp_num_dec_loop (pre @ map dec_char ds @ rest) (length pre) (of_nat n) k =
    (length pre + length ds, of_nat (min (digits_value 10 ds n) (2 ^ 32 - 1)), k + length ds)"
  using assms
proof (induction ds arbitrary: pre n k)
  case Nil
  then show ?case
    by (subst bp_num_dec_loop.simps) (simp add: min_def)
next
  case (Cons d ds)
  have IH: "bp_num_dec_loop ((pre @ [dec_char d]) @ map dec_char ds @ rest)
      (length (pre @ [dec_char d])) (of_nat (min (n * 10 + d) (2 ^ 32 - 1))) (Suc k) =
    (length (pre @ [dec_char d]) + length ds,
     of_nat (min (digits_value 10 ds (min (n * 10 + d) (2 ^ 32 - 1))) (2 ^ 32 - 1)), Suc k + length ds)"
    using Cons.prems by (intro Cons.IH) auto
  show ?case
    using Cons.prems IH bp_num_dec_step_value [of d n] dec_char_facts [of d]
    by (subst bp_num_dec_loop.simps) (simp add: digits_value_sat)
qed

lemma bp_num_hex_loop_value:
  assumes "\<forall>d \<in> set ds. d < 16" and "\<not> bp_num_is_hex (at rest 0)"
  shows "bp_num_hex_loop (pre @ map hex_char ds @ rest) (length pre) (of_nat n) k =
    (length pre + length ds, of_nat (digits_value 16 ds n), k + length ds)"
  using assms
proof (induction ds arbitrary: pre n k)
  case Nil
  then show ?case
    by (subst bp_num_hex_loop.simps) simp
next
  case (Cons d ds)
  have IH: "bp_num_hex_loop ((pre @ [hex_char d]) @ map hex_char ds @ rest)
      (length (pre @ [hex_char d])) (of_nat (n * 16 + d)) (Suc k) =
    (length (pre @ [hex_char d]) + length ds, of_nat (digits_value 16 ds (n * 16 + d)), Suc k + length ds)"
    using Cons.prems by (intro Cons.IH) auto
  have "push_bit 4 (of_nat n :: u32) OR ucast (of_nat d :: u8) = of_nat (n * 16 + d)"
    using Cons.prems push_or_digit [of d 4 "of_nat n :: u32"] by (simp add: ucast_of_nat_small)
  then show ?case
    using Cons.prems IH hex_char_facts [of d]
    by (subst bp_num_hex_loop.simps) simp
qed

lemma bp_num_bin_loop_value:
  assumes "\<forall>d \<in> set ds. d < 2" and "\<not> bp_num_is_bin (at rest 0)"
  shows "bp_num_bin_loop (pre @ map dec_char ds @ rest) (length pre) (of_nat n) k =
    (length pre + length ds, of_nat (digits_value 2 ds n), k + length ds)"
  using assms
proof (induction ds arbitrary: pre n k)
  case Nil
  then show ?case
    by (subst bp_num_bin_loop.simps) simp
next
  case (Cons d ds)
  have IH: "bp_num_bin_loop ((pre @ [dec_char d]) @ map dec_char ds @ rest)
      (length (pre @ [dec_char d])) (of_nat (n * 2 + d)) (Suc k) =
    (length (pre @ [dec_char d]) + length ds, of_nat (digits_value 2 ds (n * 2 + d)), Suc k + length ds)"
    using Cons.prems by (intro Cons.IH) auto
  have d: "d = 0 \<or> d = 1" and bin: "bp_num_is_bin (dec_char d)"
    using Cons.prems by (auto simp: less_2_cases_iff dec_char_def bp_num_is_bin_def)
  have "push_bit 1 (of_nat n :: u32) OR ucast (dec_char d - ch_0) = of_nat (n * 2 + d)"
    using d push_or_digit [of d 1 "of_nat n :: u32"] by (auto simp: dec_char_def)
  then show ?case
    using Cons.prems IH bin
    by (subst bp_num_bin_loop.simps) simp
qed

lemma bp_num_dec_value:
  assumes "ds \<noteq> []" and "\<forall>d \<in> set ds. d < 10" and "\<not> bp_num_is_dec (at rest 0)"
  shows "bp_num_dec (pre @ map dec_char ds @ rest) (length pre) =
    Some (of_nat (min (digits_value 10 ds 0) (2 ^ 32 - 1)), length pre + length ds)"
  using bp_num_dec_loop_value [OF assms(2,3), of 0 pre 0] assms(1)
  by (simp add: bp_num_dec_def)

lemma bp_num_hex_value:
  assumes "ds \<noteq> []" and "\<forall>d \<in> set ds. d < 16" and "\<not> bp_num_is_hex (at rest 0)"
  shows "bp_num_hex (pre @ map hex_char ds @ rest) (length pre) =
    Some (of_nat (digits_value 16 ds 0), length pre + length ds)"
  using bp_num_hex_loop_value [OF assms(2,3), of pre 0 0] assms(1)
  by (simp add: bp_num_hex_def)

lemma bp_num_bin_value:
  assumes "ds \<noteq> []" and "\<forall>d \<in> set ds. d < 2" and "\<not> bp_num_is_bin (at rest 0)"
  shows "bp_num_bin (pre @ map dec_char ds @ rest) (length pre) =
    Some (of_nat (digits_value 2 ds 0), length pre + length ds)"
  using bp_num_bin_loop_value [OF assms(2,3), of pre 0 0] assms(1)
  by (simp add: bp_num_bin_def)

subsection \<open>Printing numbers\<close>

text \<open>The digits of a number, most significant first: what \<open>%u\<close> prints.\<close>

fun digits_of :: "nat \<Rightarrow> nat \<Rightarrow> nat list" where
  "digits_of b n = (if b < 2 \<or> n < b then [n] else digits_of b (n div b) @ [n mod b])"

declare digits_of.simps [simp del]

lemma digits_of_value: "digits_value b (digits_of b n) 0 = n"
proof (induction b n rule: digits_of.induct)
  case (1 b n)
  then show ?case
    by (subst digits_of.simps) auto
qed

lemma digits_of_less: "2 \<le> b \<Longrightarrow> \<forall>d \<in> set (digits_of b n). d < b"
proof (induction b n rule: digits_of.induct)
  case (1 b n)
  then show ?case
    by (subst digits_of.simps) auto
qed

lemma digits_of_nonempty [simp]: "digits_of b n \<noteq> []"
  by (subst digits_of.simps) simp

definition dec_string :: "nat \<Rightarrow> cstr" where
  "dec_string n = map dec_char (digits_of 10 n)"

lemma hd_digits_of_pos: "2 \<le> b \<Longrightarrow> 0 < n \<Longrightarrow> 0 < hd (digits_of b n)"
proof (induction b n rule: digits_of.induct)
  case (1 b n)
  then show ?case
    by (subst digits_of.simps) (auto simp: div_greater_zero_iff)
qed

lemma digits_of_0: "2 \<le> b \<Longrightarrow> digits_of b 0 = [0]"
  by (subst digits_of.simps) simp

subsection \<open>The auto-detecting parser\<close>

lemma all_dec_chars_no_prefix:
  "\<forall>d \<in> set [0..<10]. (dec_char d OR 0x20) \<noteq> ch_x \<and> (dec_char d OR 0x20) \<noteq> ch_b \<and>
     dec_char d \<notin> {0, ch_minus, ch_space, ch_comma, ch_tab, ch_tilde, ch_lparen}"
  by code_simp

lemma dec_char_not_special:
  assumes "d < 10"
  shows "dec_char d \<noteq> 0" and "dec_char d \<noteq> ch_space" and "dec_char d \<noteq> ch_comma"
    and "dec_char d \<noteq> ch_minus" and "dec_char d \<noteq> ch_tab" and "dec_char d \<noteq> ch_tilde"
    and "dec_char d \<noteq> ch_lparen" and "(dec_char d OR 0x20) \<noteq> ch_x"
    and "(dec_char d OR 0x20) \<noteq> ch_b" and "ch_0 \<le> dec_char d" and "dec_char d \<le> ch_9"
  using assms all_dec_chars all_dec_chars_no_prefix by (auto simp: bp_num_is_dec_def)

lemma dec_string_first:
  obtains d es where "dec_string n = dec_char d # es" and "d < 10"
  using digits_of_less [of 10 n] digits_of_nonempty [of 10 n]
  by (cases "digits_of 10 n") (auto simp: dec_string_def)

text \<open>What may follow a number so that it is read as decimal.\<close>

definition ends_decimal :: "cstr \<Rightarrow> bool" where
  "ends_decimal rest \<longleftrightarrow>
     \<not> bp_num_is_dec (at rest 0) \<and> (at rest 0 OR 0x20) \<noteq> ch_x \<and> (at rest 0 OR 0x20) \<noteq> ch_b"

lemma ends_decimal_Nil [simp]: "ends_decimal []"
  by (simp add: ends_decimal_def)

lemma second_char_no_prefix:
  assumes "ds \<noteq> []" and "\<forall>d \<in> set ds. d < 10" and "ends_decimal rest"
  shows "(at (pre @ map dec_char ds @ rest) (length pre + 1) OR 0x20) \<noteq> ch_x"
    and "(at (pre @ map dec_char ds @ rest) (length pre + 1) OR 0x20) \<noteq> ch_b"
proof -
  obtain d es where ds: "ds = d # es" using assms(1) by (cases ds) auto
  have "at (pre @ map dec_char ds @ rest) (length pre + 1) = at (map dec_char es @ rest) 0"
    using at_append_right [of pre "map dec_char ds @ rest" 1] by (simp add: ds)
  then show "(at (pre @ map dec_char ds @ rest) (length pre + 1) OR 0x20) \<noteq> ch_x"
    and "(at (pre @ map dec_char ds @ rest) (length pre + 1) OR 0x20) \<noteq> ch_b"
    using assms(2,3) ds
    by (cases es; simp add: ends_decimal_def dec_char_not_special)+
qed

lemma bp_num_u32_decimal:
  assumes "ds \<noteq> []" and "\<forall>d \<in> set ds. d < 10" and "ends_decimal rest"
  shows "bp_num_u32 (pre @ map dec_char ds @ rest) (length pre) =
    Some (of_nat (min (digits_value 10 ds 0) (2 ^ 32 - 1)), BP_NUM_DEC, length pre + length ds)"
proof -
  have first: "bp_num_is_dec (at (pre @ map dec_char ds @ rest) (length pre))"
    using assms(1,2) by (cases ds) (auto simp: dec_char_facts)
  show ?thesis
    unfolding bp_num_u32_def
    using second_char_no_prefix [OF assms, of pre] first assms bp_num_dec_value [OF assms(1,2), of rest pre]
    by (simp add: ends_decimal_def)
qed

lemma bp_num_u32_dec_string:
  assumes "n < 2 ^ 32" and "ends_decimal rest"
  shows "bp_num_u32 (pre @ dec_string n @ rest) (length pre) =
    Some (of_nat n, BP_NUM_DEC, length pre + length (dec_string n))"
  using bp_num_u32_decimal [of "digits_of 10 n" rest pre] assms digits_of_less [of 10 n]
  by (simp add: dec_string_def digits_of_value min_def)

lemma bp_num_u32_hexadecimal:
  assumes "ds \<noteq> []" and "\<forall>d \<in> set ds. d < 16" and "\<not> bp_num_is_hex (at rest 0)"
  shows "bp_num_u32 (pre @ [ch_0, ch_x] @ map hex_char ds @ rest) (length pre) =
    Some (of_nat (digits_value 16 ds 0), BP_NUM_HEX, length pre + 2 + length ds)"
  using bp_num_hex_value [OF assms, of "pre @ [ch_0, ch_x]"]
    at_append_right [of pre "[ch_0, ch_x] @ map hex_char ds @ rest" 1]
  by (simp add: bp_num_u32_def)

lemma bp_num_u32_binary:
  assumes "ds \<noteq> []" and "\<forall>d \<in> set ds. d < 2" and "\<not> bp_num_is_bin (at rest 0)"
  shows "bp_num_u32 (pre @ [ch_0, ch_b] @ map dec_char ds @ rest) (length pre) =
    Some (of_nat (digits_value 2 ds 0), BP_NUM_BIN, length pre + 2 + length ds)"
  using bp_num_bin_value [OF assms, of "pre @ [ch_0, ch_b]"]
    at_append_right [of pre "[ch_0, ch_b] @ map dec_char ds @ rest" 1]
  by (simp add: bp_num_u32_def)

subsection \<open>Properties\<close>

text \<open>C13: a decimal number of any length parses to its value capped at 4294967295, and the
  pointer stops right after its last digit.\<close>

theorem bp_num_u32_saturates:
  assumes "ds \<noteq> []" and "\<forall>d \<in> set ds. d < 10" and "ends_decimal rest"
  shows "bp_num_u32 (pre @ map dec_char ds @ rest) (length pre) =
    Some (of_nat (min (digits_value 10 ds 0) (2 ^ 32 - 1)), BP_NUM_DEC, length pre + length ds)"
  using assms by (rule bp_num_u32_decimal)

theorem bp_num_u32_saturates_witness:
  "bp_num_u32 (map dec_char [4, 2, 9, 4, 9, 6, 7, 2, 9, 9] @ [ch_rbracket]) 0 =
     Some (4294967295, BP_NUM_DEC, 10)"
  using bp_num_u32_saturates [of "[4, 2, 9, 4, 9, 6, 7, 2, 9, 9]" "[ch_rbracket]" "[]"]
  by (simp add: ends_decimal_def bp_num_is_dec_def)

text \<open>The hexadecimal and the binary form parse to the value of their digits modulo
  2 to the 32, so that only the last 8 hexadecimal or 32 binary digits count.\<close>

theorem bp_num_u32_radix:
  assumes "ds \<noteq> []" and "bs \<noteq> []" and "\<forall>d \<in> set ds. d < 16" and "\<forall>d \<in> set bs. d < 2"
    and "\<not> bp_num_is_hex (at rest 0)"
  shows "bp_num_u32 (pre @ [ch_0, ch_x] @ map hex_char ds @ rest) (length pre) =
      Some (of_nat (digits_value 16 ds 0 mod 2 ^ 32), BP_NUM_HEX, length pre + 2 + length ds)
    \<and> bp_num_u32 (pre @ [ch_0, ch_b] @ map dec_char bs @ rest) (length pre) =
      Some (of_nat (digits_value 2 bs 0 mod 2 ^ 32), BP_NUM_BIN, length pre + 2 + length bs)"
proof -
  have mod: "(of_nat (n mod 2 ^ 32) :: u32) = of_nat n" for n
    by (simp add: word_unat_eq_iff unat_of_nat take_bit_eq_mod)
  have "\<not> bp_num_is_bin (at rest 0)"
    using assms(5) by (auto simp: bp_num_is_bin_def bp_num_is_hex_def)
  then show ?thesis
    unfolding mod using bp_num_u32_hexadecimal bp_num_u32_binary assms by blast
qed

theorem bp_num_u32_radix_witness:
  "bp_num_u32 ([ch_0, ch_x] @ map hex_char [1, 0, 0, 0, 0, 0, 0, 15, 15] @ []) 0 = Some (255, BP_NUM_HEX, 11)
   \<and> bp_num_u32 ([ch_0, ch_b] @ map dec_char [1, 0, 1] @ []) 0 = Some (5, BP_NUM_BIN, 5)"
  using bp_num_u32_radix [of "[1, 0, 0, 0, 0, 0, 0, 15, 15]" "[1, 0, 1]" "[]" "[]"]
  by simp

text \<open>A negative number is accepted down to -2147483648 and a positive one up to
  2147483647; the stored pattern is the two's complement of the value, anything larger is refused.\<close>

theorem bp_num_i32_exact:
  assumes "n < 2 ^ 32" and "ends_decimal rest"
  shows "bp_num_i32 (pre @ ch_minus # dec_string n @ rest) (length pre) =
      (if n \<le> 2 ^ 31 then Some (of_int (- int n), BP_NUM_DEC, length pre + 1 + length (dec_string n)) else None)
    \<and> bp_num_i32 (pre @ dec_string n @ rest) (length pre) =
      (if n < 2 ^ 31 then Some (of_int (int n), BP_NUM_DEC, length pre + length (dec_string n)) else None)"
proof -
  have neg: "bp_num_u32 (pre @ ch_minus # dec_string n @ rest) (Suc (length pre)) =
      Some (of_nat n, BP_NUM_DEC, length pre + 1 + length (dec_string n))"
    using bp_num_u32_dec_string [OF assms, of "pre @ [ch_minus]"] by simp
  obtain d es where "dec_string n = dec_char d # es" and "d < 10" by (rule dec_string_first)
  then have "at (pre @ dec_string n @ rest) (length pre) \<noteq> ch_minus"
    by (simp add: dec_char_not_special)
  then show ?thesis
    using neg bp_num_u32_dec_string [OF assms, of pre] assms(1) unat_of_nat_small [of n, where 'a=32]
    by (auto simp: bp_num_i32_def word_less_nat_alt)
qed

theorem bp_num_i32_exact_witness:
  "bp_num_i32 (ch_minus # dec_string 42 @ []) 0 = Some (0xFFFFFFD6, BP_NUM_DEC, 3)"
proof -
  have "dec_string 42 = [52, 50]" by code_simp
  then show ?thesis
    using bp_num_i32_exact [of 42 "[]" "[]"] by simp
qed

end
