(* ===== verification/Cmdreader.thy ===== *)
theory Cmdreader
  imports Bp_Number
begin

text \<open>
  The linear command-line reader, \<^verbatim>\<open>src/lib/bp_linenoise/ln_cmdreader.c\<close>: the global
  \<open>ln_cmdln\<close> with the line buffer, its length and the read position. Every function takes the
  reader and, where it moves the position, returns it. The \<open>cmdln_try_*\<close> names of the firmware
  are macros for these functions.
\<close>

record ln_cmdreader =
  ln_buf :: cstr
  ln_len :: nat
  ln_pos :: nat

definition ln_cmdln_init :: "cstr \<Rightarrow> nat \<Rightarrow> ln_cmdreader" where
  "ln_cmdln_init buf len = \<lparr>ln_buf = buf, ln_len = len, ln_pos = 0\<rparr>"

definition ln_cmdln_reset :: "ln_cmdreader \<Rightarrow> ln_cmdreader" where
  "ln_cmdln_reset r = r\<lparr>ln_pos := 0\<rparr>"

definition ln_cmdln_try_peek :: "ln_cmdreader \<Rightarrow> nat \<Rightarrow> u8 option" where
  "ln_cmdln_try_peek r offset =
     (let target = ln_pos r + offset in
      if ln_len r \<le> target then None
      else let ch = at (ln_buf r) target in
           if ch = 0 then None else Some ch)"

definition ln_cmdln_try_discard :: "ln_cmdreader \<Rightarrow> nat \<Rightarrow> ln_cmdreader" where
  "ln_cmdln_try_discard r n = r\<lparr>ln_pos := ln_pos r + n\<rparr>"

definition cmdln_try_remove :: "ln_cmdreader \<Rightarrow> (u8 \<times> ln_cmdreader) option" where
  "cmdln_try_remove r =
     map_option (\<lambda>c. (c, ln_cmdln_try_discard r 1)) (ln_cmdln_try_peek r 0)"

definition ln_cmdln_current :: "ln_cmdreader \<Rightarrow> nat" where
  "ln_cmdln_current r = (if ln_len r \<le> ln_pos r then ln_len r else ln_pos r)"

definition ln_cmdln_remaining :: "ln_cmdreader \<Rightarrow> nat" where
  "ln_cmdln_remaining r = (if ln_len r \<le> ln_pos r then 0 else ln_len r - ln_pos r)"

definition ln_cmdln_advance_to :: "ln_cmdreader \<Rightarrow> nat \<Rightarrow> ln_cmdreader" where
  "ln_cmdln_advance_to r p = (if p \<le> ln_len r then r\<lparr>ln_pos := p\<rparr> else r)"

text \<open>
  What the line editor establishes: the length is that of the NUL-terminated string.
\<close>

definition ln_wf :: "ln_cmdreader \<Rightarrow> bool" where
  "ln_wf r \<longleftrightarrow> ln_len r = length (ln_buf r)"

lemma ln_wf_init [simp]: "ln_wf (ln_cmdln_init buf (length buf))"
  by (simp add: ln_wf_def ln_cmdln_init_def)

lemma ln_advance_simps [simp]:
  "ln_buf (ln_cmdln_advance_to r p) = ln_buf r"
  "ln_len (ln_cmdln_advance_to r p) = ln_len r"
  "p \<le> ln_len r \<Longrightarrow> ln_pos (ln_cmdln_advance_to r p) = p"
  by (simp_all add: ln_cmdln_advance_to_def)

lemma ln_discard_simps [simp]:
  "ln_buf (ln_cmdln_try_discard r n) = ln_buf r"
  "ln_len (ln_cmdln_try_discard r n) = ln_len r"
  "ln_pos (ln_cmdln_try_discard r n) = ln_pos r + n"
  by (simp_all add: ln_cmdln_try_discard_def)

lemma ln_peek_less: "ln_cmdln_try_peek r i = Some c \<Longrightarrow> ln_pos r + i < ln_len r \<and> c \<noteq> 0"
  by (auto simp: ln_cmdln_try_peek_def Let_def split: if_splits)

lemma ln_current_le [simp]: "ln_cmdln_current r \<le> ln_len r"
  by (simp add: ln_cmdln_current_def)

lemma ln_current_at_pos [simp]: "ln_pos r \<le> ln_len r \<Longrightarrow> ln_cmdln_current r = ln_pos r"
  by (simp add: ln_cmdln_current_def)

text \<open>
  A reader step: the line stays, the position moves forward, and it stays inside the line if
  it was inside. All parsers of the user interface are such steps.
\<close>

definition ln_step :: "ln_cmdreader \<Rightarrow> ln_cmdreader \<Rightarrow> bool" where
  "ln_step r r' \<longleftrightarrow> ln_buf r' = ln_buf r \<and> ln_len r' = ln_len r \<and>
     (ln_pos r \<le> ln_len r \<longrightarrow> ln_pos r \<le> ln_pos r' \<and> ln_pos r' \<le> ln_len r)"

lemma ln_step_refl [simp, intro]: "ln_step r r"
  by (simp add: ln_step_def)

lemma ln_step_trans [trans]: "ln_step r r' \<Longrightarrow> ln_step r' r'' \<Longrightarrow> ln_step r r''"
  by (auto simp: ln_step_def)

lemma ln_step_advance: "ln_cmdln_current r \<le> p \<Longrightarrow> ln_step r (ln_cmdln_advance_to r p)"
  by (auto simp: ln_step_def ln_cmdln_current_def ln_cmdln_advance_to_def split: if_splits)

lemma ln_step_discard:
  "ln_cmdln_try_peek r 0 = Some c \<Longrightarrow> ln_step r (ln_cmdln_try_discard r 1)"
  by (auto simp: ln_step_def dest: ln_peek_less)

text \<open>A step that consumed something.\<close>

definition ln_progress :: "ln_cmdreader \<Rightarrow> ln_cmdreader \<Rightarrow> bool" where
  "ln_progress r r' \<longleftrightarrow> ln_step r r' \<and> ln_pos r < ln_pos r'"

lemma ln_progress_step: "ln_progress r r' \<Longrightarrow> ln_step r r'"
  by (simp add: ln_progress_def)

lemma ln_progress_trans [trans]:
  "ln_progress r r' \<Longrightarrow> ln_step r' r'' \<Longrightarrow> ln_pos r \<le> ln_len r \<Longrightarrow> ln_progress r r''"
  by (auto simp: ln_progress_def ln_step_def)

lemma ln_progress_trans2 [trans]:
  "ln_step r r' \<Longrightarrow> ln_progress r' r'' \<Longrightarrow> ln_pos r \<le> ln_len r \<Longrightarrow> ln_progress r r''"
  by (auto simp: ln_progress_def ln_step_def)

lemma ln_progress_discard:
  "ln_cmdln_try_peek r 0 = Some c \<Longrightarrow> ln_progress r (ln_cmdln_try_discard r 1)"
  unfolding ln_progress_def by (intro conjI ln_step_discard) auto

lemma ln_step_remaining:
  "ln_step r r' \<Longrightarrow> ln_pos r \<le> ln_len r \<Longrightarrow> ln_len r' - ln_pos r' \<le> ln_len r - ln_pos r"
  by (auto simp: ln_step_def)

lemma ln_progress_remaining:
  "ln_progress r r' \<Longrightarrow> ln_pos r \<le> ln_len r \<Longrightarrow> ln_len r' - ln_pos r' < ln_len r - ln_pos r"
  by (auto simp: ln_step_def ln_progress_def)

lemma ln_step_wf: "ln_step r r' \<Longrightarrow> ln_wf r \<Longrightarrow> ln_wf r'"
  by (simp add: ln_step_def ln_wf_def)

end
