(* ===== verification/Ui_Parse.thy ===== *)
theory Ui_Parse
  imports Cmdreader
begin

text \<open>
  The parsers of user input, \<^verbatim>\<open>src/ui/ui_parse.c\<close>. A parser takes the reader and returns
  its boolean result, the \<open>prompt_result\<close> it filled in, the value it stored and the reader
  after it. Where the code leaves \<open>*value\<close> alone on some path, the value so far is an argument.
  \<open>ui_parse_get_float\<close> is not modelled (single precision arithmetic).
\<close>

record prompt_result =
  pr_number_format :: u8
  pr_success :: bool
  pr_exit :: bool
  pr_no_value :: bool
  pr_default_value :: bool
  pr_error :: bool

definition empty_result :: prompt_result where
  "empty_result = \<lparr>pr_number_format = 0, pr_success = False, pr_exit = False,
     pr_no_value = False, pr_default_value = False, pr_error = False\<rparr>"

type_synonym 'v ui_parsed = "bool \<times> prompt_result \<times> 'v \<times> ln_cmdreader"

subsection \<open>Numbers\<close>

text \<open>The common shape of the three fixed-radix parsers.\<close>

definition ui_parse_radix ::
  "(cstr \<Rightarrow> nat \<Rightarrow> (u32 \<times> nat) option) \<Rightarrow> ln_cmdreader \<Rightarrow> u32 ui_parsed" where
  "ui_parse_radix parse r =
     (let result = empty_result\<lparr>pr_no_value := True\<rparr> in
      case parse (ln_buf r) (ln_cmdln_current r) of
        None \<Rightarrow> (False, result, 0, r)
      | Some (value, p) \<Rightarrow>
          (True, result\<lparr>pr_success := True, pr_no_value := False\<rparr>, value, ln_cmdln_advance_to r p))"

definition ui_parse_get_hex :: "ln_cmdreader \<Rightarrow> u32 ui_parsed" where
  "ui_parse_get_hex r = ui_parse_radix bp_num_hex r"

definition ui_parse_get_bin :: "ln_cmdreader \<Rightarrow> u32 ui_parsed" where
  "ui_parse_get_bin r = ui_parse_radix bp_num_bin r"

definition ui_parse_get_dec :: "ln_cmdreader \<Rightarrow> u32 ui_parsed" where
  "ui_parse_get_dec r = ui_parse_radix bp_num_dec r"

definition ui_parse_get_int :: "ln_cmdreader \<Rightarrow> u32 ui_parsed" where
  "ui_parse_get_int r =
     (let p = ln_cmdln_current r in
      if at (ln_buf r) p = 0 then (False, empty_result\<lparr>pr_no_value := True\<rparr>, 0, r)
      else case bp_num_u32 (ln_buf r) p of
        None \<Rightarrow> (False, empty_result\<lparr>pr_no_value := True\<rparr>, 0, r)
      | Some (value, fmt, p') \<Rightarrow>
          (True, empty_result\<lparr>pr_success := True, pr_no_value := False,
             pr_number_format := bp_num_format_code fmt\<rparr>, value, ln_cmdln_advance_to r p'))"

definition ui_parse_get_uint32 :: "ln_cmdreader \<Rightarrow> u32 \<Rightarrow> u32 ui_parsed" where
  "ui_parse_get_uint32 r value =
     (let p = ln_cmdln_current r; c = at (ln_buf r) p in
      if c = 0 then (True, empty_result\<lparr>pr_no_value := True\<rparr>, value, r)
      else if (c OR 0x20) = ch_x
      then (True, empty_result\<lparr>pr_exit := True\<rparr>, value, ln_cmdln_advance_to r (p + 1))
      else if ch_0 \<le> c \<and> c \<le> ch_9 then ui_parse_get_dec r
      else (True, empty_result\<lparr>pr_error := True\<rparr>, value, ln_cmdln_advance_to r (p + 1)))"

subsection \<open>Delimited attributes\<close>

text \<open>get trailing information for a command, for example :10 or .10\<close>

definition ui_parse_get_delimited_sequence :: "ln_cmdreader \<Rightarrow> u8 \<Rightarrow> u32 \<Rightarrow> u32 ui_parsed" where
  "ui_parse_get_delimited_sequence r delimiter value =
     (let p = ln_cmdln_current r in
      if at (ln_buf r) p = delimiter \<and> ch_0 \<le> at (ln_buf r) (p + 1) \<and> at (ln_buf r) (p + 1) \<le> ch_9
      then case ui_parse_get_int (ln_cmdln_advance_to r (p + 1)) of
             (_, result, value', r') \<Rightarrow> (True, result\<lparr>pr_success := True\<rparr>, value', r')
      else (False, empty_result\<lparr>pr_no_value := True\<rparr>, value, r))"

definition ui_parse_get_colon :: "ln_cmdreader \<Rightarrow> u32 \<Rightarrow> bool \<times> u32 \<times> ln_cmdreader" where
  "ui_parse_get_colon r value =
     (case ui_parse_get_delimited_sequence r ch_colon value of
        (_, result, value', r') \<Rightarrow> (pr_success result, value', r'))"

definition ui_parse_get_dot :: "ln_cmdreader \<Rightarrow> u32 \<Rightarrow> bool \<times> u32 \<times> ln_cmdreader" where
  "ui_parse_get_dot r value =
     (case ui_parse_get_delimited_sequence r ch_dot value of
        (_, result, value', r') \<Rightarrow> (pr_success result, value', r'))"

definition ui_parse_get_macro :: "ln_cmdreader \<Rightarrow> u32 ui_parsed" where
  "ui_parse_get_macro r =
     (case ui_parse_get_int r of
        (_, result, value, r') \<Rightarrow>
          let p = ln_cmdln_current r' in
          if at (ln_buf r') p = ch_rparen
          then (True, result\<lparr>pr_success := True\<rparr>, value, ln_cmdln_advance_to r' (p + 1))
          else (pr_success result, result\<lparr>pr_error := True\<rparr>, value, r'))"

subsection \<open>Spaces, lists of numbers, yes and no\<close>

function skip_space_comma :: "cstr \<Rightarrow> nat \<Rightarrow> nat" where
  "skip_space_comma s p =
     (if at s p = ch_space \<or> at s p = ch_comma then skip_space_comma s (Suc p) else p)"
  by pat_completeness auto
termination
  by (relation "measure (\<lambda>(s, p). length s - p)") (auto simp: at_def split: if_splits)

declare skip_space_comma.simps [simp del]

definition ui_parse_consume_whitespace :: "ln_cmdreader \<Rightarrow> ln_cmdreader" where
  "ui_parse_consume_whitespace r =
     ln_cmdln_advance_to r (skip_space_comma (ln_buf r) (ln_cmdln_current r))"

text \<open>
  The loop over \<open>attr[i]\<close>: it stops at the first value that is missing or malformed, with the
  attributes read so far stored.
\<close>

fun get_attributes_loop ::
  "nat \<Rightarrow> nat \<Rightarrow> ln_cmdreader \<Rightarrow> prompt_result \<Rightarrow> u32 list \<Rightarrow> u32 list ui_parsed" where
  "get_attributes_loop 0 i r result attr = (True, result, attr, r)"
| "get_attributes_loop (Suc n) i r result attr =
     (case ui_parse_get_uint32 (ui_parse_consume_whitespace r) (attr ! i) of
        (_, result', value, r') \<Rightarrow>
          let attr' = attr[i := value] in
          if pr_error result' \<or> pr_no_value result' then (False, result', attr', r')
          else get_attributes_loop n (Suc i) r' result' attr')"

definition ui_parse_get_attributes :: "ln_cmdreader \<Rightarrow> u32 list \<Rightarrow> nat \<Rightarrow> u32 list ui_parsed" where
  "ui_parse_get_attributes r attr len =
     get_attributes_loop len 0 r (empty_result\<lparr>pr_no_value := True\<rparr>) attr"

definition ui_parse_get_bool :: "ln_cmdreader \<Rightarrow> bool \<Rightarrow> bool ui_parsed" where
  "ui_parse_get_bool r value =
     (let p = ln_cmdln_current r; c = at (ln_buf r) p in
      if c = 0 then (True, empty_result\<lparr>pr_no_value := True\<rparr>, value, ln_cmdln_advance_to r p)
      else if (c OR 0x20) = ch_x
      then (True, empty_result\<lparr>pr_exit := True\<rparr>, value, ln_cmdln_advance_to r (p + 1))
      else if (c OR 0x20) = ch_y
      then (True, empty_result\<lparr>pr_success := True\<rparr>, True, ln_cmdln_advance_to r (p + 1))
      else if (c OR 0x20) = ch_n
      then (True, empty_result\<lparr>pr_success := True\<rparr>, False, ln_cmdln_advance_to r (p + 1))
      else (True, empty_result\<lparr>pr_error := True\<rparr>, value, ln_cmdln_advance_to r (p + 1)))"

subsection \<open>Strings and units\<close>

text \<open>
  The copy loop: \<open>n\<close> is \<open>max_size\<close>, \<open>str\<close> the characters stored so far. Bytes above the tilde
  are passed over but count as success.
\<close>

fun get_string_loop :: "nat \<Rightarrow> cstr \<Rightarrow> nat \<Rightarrow> cstr \<Rightarrow> bool \<Rightarrow> nat \<times> cstr \<times> bool" where
  "get_string_loop 0 s p str success = (p, str, success)"
| "get_string_loop (Suc n) s p str success =
     (let c = at s p in
      if c = 0 then (p, str, success)
      else if c \<le> ch_space then (p, str, success)
      else get_string_loop n s (Suc p) (if c \<le> ch_tilde then str @ [c] else str) True)"

definition ui_parse_get_string :: "ln_cmdreader \<Rightarrow> nat \<Rightarrow> cstr ui_parsed" where
  "ui_parse_get_string r max_size =
     (case get_string_loop max_size (ln_buf r) (ln_cmdln_current r) [] False of
        (p, str, success) \<Rightarrow>
          (success, empty_result\<lparr>pr_no_value := \<not> success, pr_success := success\<rparr>, str,
           ln_cmdln_advance_to r p))"

datatype freq_unit = freq_ns | freq_us | freq_ms | freq_hz | freq_khz | freq_mhz | freq_percent

fun get_units_loop :: "nat \<Rightarrow> nat \<Rightarrow> cstr \<Rightarrow> nat \<Rightarrow> cstr \<Rightarrow> nat \<times> cstr" where
  "get_units_loop 0 i s p units = (p, units)"
| "get_units_loop (Suc n) i s p units =
     (if at s p \<noteq> 0 \<and> at s p \<noteq> ch_space
      then get_units_loop n (Suc i) s (Suc p) (units[i := at s p OR 0x20])
      else (p, units))"

definition unit_of_slug :: "cstr \<Rightarrow> freq_unit option" where
  "unit_of_slug units =
     (if at units 0 = ch_n \<and> at units 1 = ch_s then Some freq_ns
      else if at units 0 = ch_u \<and> at units 1 = ch_s then Some freq_us
      else if at units 0 = ch_m \<and> at units 1 = ch_s then Some freq_ms
      else if at units 0 = ch_h \<and> at units 1 = ch_z then Some freq_hz
      else if at units 0 = ch_k \<and> at units 1 = ch_h \<and> at units 2 = ch_z then Some freq_khz
      else if at units 0 = ch_m \<and> at units 1 = ch_h \<and> at units 2 = ch_z then Some freq_mhz
      else if at units 0 = ch_percent then Some freq_percent
      else None)"

definition ui_parse_get_units :: "ln_cmdreader \<Rightarrow> nat \<Rightarrow> (cstr \<times> freq_unit option) ui_parsed" where
  "ui_parse_get_units r len =
     (let r1 = ui_parse_consume_whitespace r in
      case get_units_loop len 0 (ln_buf r1) (ln_cmdln_current r1) (replicate len 0) of
        (p, units) \<Rightarrow>
          let r2 = ln_cmdln_advance_to r1 p; units' = units[len - 1 := 0] in
          case unit_of_slug units' of
            Some u \<Rightarrow> (True, empty_result\<lparr>pr_success := True\<rparr>, (units', Some u), r2)
          | None \<Rightarrow> (False, empty_result\<lparr>pr_no_value := True\<rparr>, (units', None), r2))"

subsection \<open>Every parser is a reader step\<close>

lemma ln_step_one: "ln_step r (ln_cmdln_advance_to r (Suc (ln_cmdln_current r)))"
  by (rule ln_step_advance) simp

lemma ui_parse_get_dec_step [advance]:
  "ui_parse_get_dec r = (b, res, v, r') \<Longrightarrow> ln_step r r'"
  by (auto simp: ui_parse_get_dec_def ui_parse_radix_def Let_def split: option.splits
      intro!: ln_step_advance dest: bp_num_dec_advance)

lemma ui_parse_get_hex_step [advance]:
  "ui_parse_get_hex r = (b, res, v, r') \<Longrightarrow> ln_step r r'"
  by (auto simp: ui_parse_get_hex_def ui_parse_radix_def Let_def split: option.splits
      intro!: ln_step_advance dest: bp_num_hex_advance)

lemma ui_parse_get_bin_step [advance]:
  "ui_parse_get_bin r = (b, res, v, r') \<Longrightarrow> ln_step r r'"
  by (auto simp: ui_parse_get_bin_def ui_parse_radix_def Let_def split: option.splits
      intro!: ln_step_advance dest: bp_num_bin_advance)

lemma ui_parse_get_int_step [advance]:
  "ui_parse_get_int r = (b, res, v, r') \<Longrightarrow> ln_step r r'"
  by (auto simp: ui_parse_get_int_def Let_def split: option.splits if_splits
      intro!: ln_step_advance dest: bp_num_u32_advance)

lemma ui_parse_get_uint32_step [advance]:
  "ui_parse_get_uint32 r v0 = (b, res, v, r') \<Longrightarrow> ln_step r r'"
  by (auto simp: ui_parse_get_uint32_def Let_def split: if_splits
      intro: ln_step_one dest: ui_parse_get_dec_step)

lemma ui_parse_get_delimited_step [advance]:
  assumes "ui_parse_get_delimited_sequence r d v0 = (b, res, v, r')"
  shows "ln_step r r'"
proof (cases "at (ln_buf r) (ln_cmdln_current r) = d \<and>
    ch_0 \<le> at (ln_buf r) (ln_cmdln_current r + 1) \<and> at (ln_buf r) (ln_cmdln_current r + 1) \<le> ch_9")
  case True
  note ln_step_one [of r]
  also have "ln_step (ln_cmdln_advance_to r (Suc (ln_cmdln_current r))) r'"
    using True assms
    by (auto simp: ui_parse_get_delimited_sequence_def Let_def split: prod.splits
        dest: ui_parse_get_int_step)
  finally show ?thesis .
next
  case False
  then show ?thesis
    using assms by (auto simp: ui_parse_get_delimited_sequence_def Let_def)
qed

lemma ui_parse_get_dot_step [advance]:
  "ui_parse_get_dot r v0 = (b, v, r') \<Longrightarrow> ln_step r r'"
  by (auto simp: ui_parse_get_dot_def split: prod.splits dest: ui_parse_get_delimited_step)

lemma ui_parse_get_colon_step [advance]:
  "ui_parse_get_colon r v0 = (b, v, r') \<Longrightarrow> ln_step r r'"
  by (auto simp: ui_parse_get_colon_def split: prod.splits dest: ui_parse_get_delimited_step)

lemma skip_space_comma_ge: "p \<le> skip_space_comma s p"
proof (induction s p rule: skip_space_comma.induct)
  case (1 s p)
  then show ?case
    by (subst skip_space_comma.simps) (auto dest: Suc_leD)
qed

lemma ui_parse_consume_whitespace_step [advance]: "ln_step r (ui_parse_consume_whitespace r)"
  unfolding ui_parse_consume_whitespace_def
  by (intro ln_step_advance) (simp add: skip_space_comma_ge)

lemma skip_space_comma_run:
  assumes "\<forall>c \<in> set sep. c = ch_space \<or> c = ch_comma"
    and "at rest 0 \<noteq> ch_space" and "at rest 0 \<noteq> ch_comma"
  shows "skip_space_comma (pre @ sep @ rest) (length pre) = length pre + length sep"
  using assms
proof (induction sep arbitrary: pre)
  case Nil
  then show ?case by (subst skip_space_comma.simps) simp
next
  case (Cons c sep)
  then have "skip_space_comma ((pre @ [c]) @ sep @ rest) (length (pre @ [c])) = length (pre @ [c]) + length sep"
    by (intro Cons.IH) auto
  then show ?case
    using Cons.prems by (subst skip_space_comma.simps) auto
qed

subsection \<open>Reading printed numbers back\<close>

abbreviation ln_at :: "cstr \<Rightarrow> cstr \<Rightarrow> ln_cmdreader" where
  "ln_at pre rest \<equiv> \<lparr>ln_buf = pre @ rest, ln_len = length (pre @ rest), ln_pos = length pre\<rparr>"

lemma ln_at_advance:
  "ln_cmdln_advance_to (ln_at pre (xs @ rest)) (length pre + length xs) = ln_at (pre @ xs) rest"
  by (simp add: ln_cmdln_advance_to_def)

lemma ui_parse_get_int_dec:
  assumes "n < 2 ^ 32" and "ends_decimal rest"
  shows "ui_parse_get_int (ln_at pre (dec_string n @ rest)) =
    (True, empty_result\<lparr>pr_success := True, pr_number_format := 2\<rparr>, of_nat n, ln_at (pre @ dec_string n) rest)"
proof -
  obtain d es where "dec_string n = dec_char d # es" and "d < 10" by (rule dec_string_first)
  then have "at (pre @ dec_string n @ rest) (length pre) \<noteq> 0"
    by (simp add: dec_char_not_special)
  then show ?thesis
    using bp_num_u32_dec_string [OF assms, of pre] ln_at_advance [of pre "dec_string n" rest]
    by (simp add: ui_parse_get_int_def Let_def empty_result_def)
qed

lemma ui_parse_get_uint32_dec:
  assumes "n < 2 ^ 32" and "\<not> bp_num_is_dec (at rest 0)"
  shows "ui_parse_get_uint32 (ln_at pre (dec_string n @ rest)) v =
    (True, empty_result\<lparr>pr_success := True\<rparr>, of_nat n, ln_at (pre @ dec_string n) rest)"
proof -
  obtain d es where d: "dec_string n = dec_char d # es" "d < 10" by (rule dec_string_first)
  have "bp_num_dec (pre @ dec_string n @ rest) (length pre) = Some (of_nat n, length pre + length (dec_string n))"
    using bp_num_dec_value [of "digits_of 10 n" rest pre] assms digits_of_less [of 10 n]
    by (simp add: dec_string_def digits_of_value min_def)
  then show ?thesis
    using d dec_char_not_special [OF d(2)] ln_at_advance [of pre "dec_string n" rest]
    by (simp add: ui_parse_get_uint32_def ui_parse_get_dec_def ui_parse_radix_def Let_def empty_result_def)
qed

text \<open>A list of attributes as a user types it: each number after its run of separators.\<close>

fun attributes_text :: "(cstr \<times> nat) list \<Rightarrow> cstr" where
  "attributes_text [] = []"
| "attributes_text ((sep, n) # xs) = sep @ dec_string n @ attributes_text xs"

definition separators_ok :: "(cstr \<times> nat) list \<Rightarrow> bool" where
  "separators_ok xs \<longleftrightarrow>
     (\<forall>(sep, n) \<in> set xs. n < 2 ^ 32 \<and> sep \<noteq> [] \<and> (\<forall>c \<in> set sep. c = ch_space \<or> c = ch_comma))"

lemma attributes_text_no_digit:
  assumes "separators_ok xs" and "\<not> bp_num_is_dec (at rest 0)"
  shows "\<not> bp_num_is_dec (at (attributes_text xs @ rest) 0)"
proof (cases xs)
  case (Cons x ys)
  moreover obtain sep n where "x = (sep, n)" by (cases x)
  ultimately show ?thesis
    using assms(1) by (cases sep) (auto simp: separators_ok_def bp_num_is_dec_def)
qed (use assms in simp)

lemma get_attributes_loop_text:
  assumes "separators_ok xs" and "\<not> bp_num_is_dec (at rest 0)" and "i + length xs \<le> length attr"
  shows "\<exists>result. get_attributes_loop (length xs) i (ln_at pre (attributes_text xs @ rest)) res attr =
    (True, result, take i attr @ map (\<lambda>x. of_nat (snd x)) xs @ drop (i + length xs) attr,
     ln_at (pre @ attributes_text xs) rest)"
  using assms
proof (induction xs arbitrary: i pre res attr)
  case Nil
  then show ?case by simp
next
  case (Cons x xs)
  obtain sep n where x: "x = (sep, n)" by (cases x)
  let ?tl = "attributes_text xs @ rest"
  have ok: "separators_ok xs" "n < 2 ^ 32" "\<forall>c \<in> set sep. c = ch_space \<or> c = ch_comma"
    using Cons.prems(1) by (auto simp: separators_ok_def x)
  obtain d es where d: "dec_string n = dec_char d # es" "d < 10" by (rule dec_string_first)
  have ws: "ui_parse_consume_whitespace (ln_at pre (sep @ dec_string n @ ?tl)) = ln_at (pre @ sep) (dec_string n @ ?tl)"
    using skip_space_comma_run [OF ok(3), of "dec_string n @ ?tl" pre] d dec_char_not_special [OF d(2)]
      ln_at_advance [of pre sep "dec_string n @ ?tl"]
    by (simp add: ui_parse_consume_whitespace_def)
  have num: "ui_parse_get_uint32 (ln_at (pre @ sep) (dec_string n @ ?tl)) (attr ! i) =
      (True, empty_result\<lparr>pr_success := True\<rparr>, of_nat n, ln_at (pre @ sep @ dec_string n) ?tl)"
    using ui_parse_get_uint32_dec
      [OF ok(2) attributes_text_no_digit [OF ok(1) Cons.prems(2)], of "pre @ sep" "attr ! i"] by simp
  have "\<exists>result. get_attributes_loop (length xs) (Suc i) (ln_at (pre @ sep @ dec_string n) ?tl)
      (empty_result\<lparr>pr_success := True\<rparr>) (attr[i := of_nat n]) =
    (True, result, take (Suc i) (attr[i := of_nat n]) @ map (\<lambda>x. of_nat (snd x)) xs @ drop (Suc i + length xs) (attr[i := of_nat n]),
     ln_at ((pre @ sep @ dec_string n) @ attributes_text xs) rest)"
    using Cons.prems ok by (intro Cons.IH) auto
  moreover have "take (Suc i) (attr[i := of_nat n]) = take i attr @ [of_nat n]"
    using Cons.prems(3) by (simp add: take_Suc_nth)
  ultimately show ?case
    using ws num by (simp add: x empty_result_def)
qed

text \<open>A list of unsigned numbers typed with spaces or commas before each of them is read
  back by \<open>ui_parse_get_attributes\<close> unchanged, and the reader stops right after the last one.\<close>

theorem ui_parse_get_attributes_roundtrip:
  assumes "separators_ok xs" and "\<not> bp_num_is_dec (at rest 0)" and "length attr = length xs"
  shows "\<exists>result. ui_parse_get_attributes (ln_at pre (attributes_text xs @ rest)) attr (length xs) =
    (True, result, map (\<lambda>x. of_nat (snd x)) xs, ln_at (pre @ attributes_text xs) rest)"
  using get_attributes_loop_text [OF assms(1,2), of 0 attr pre] assms(3)
  by (simp add: ui_parse_get_attributes_def)

theorem ui_parse_get_attributes_roundtrip_witness:
  "\<exists>result. ui_parse_get_attributes
      (ln_at [ch_m] (attributes_text [([ch_space], 6), ([ch_comma, ch_space], 400)] @ []))
      [0, 0] (Suc (Suc 0)) =
    (True, result, [6, 400], ln_at ([ch_m] @ attributes_text [([ch_space], 6), ([ch_comma, ch_space], 400)]) [])"
  using ui_parse_get_attributes_roundtrip
    [of "[([ch_space], 6), ([ch_comma, ch_space], 400)]" "[]" "[0, 0]" "[ch_m]"]
  by (simp add: separators_ok_def)

end
