(* ===== verification/Ui_Format.thy ===== *)
theory Ui_Format
  imports World Bp_Number
begin

text \<open>
  Bit order and number output: \<^verbatim>\<open>src/ui/ui_format.c\<close> and \<^verbatim>\<open>src/pirate/lsb.c\<close>. The
  lemmas show that the three copies of the bit reversal agree, what they compute bit by bit, and
  that a printed number reads back as itself.
\<close>

abbreviation (input) df_auto :: "'a::len word" where "df_auto \<equiv> 0"
abbreviation (input) df_hex :: "'a::len word" where "df_hex \<equiv> 1"
abbreviation (input) df_dec :: "'a::len word" where "df_dec \<equiv> 2"
abbreviation (input) df_bin :: "'a::len word" where "df_bin \<equiv> 3"
abbreviation (input) df_ascii :: "'a::len word" where "df_ascii \<equiv> 4"

subsection \<open>Bit order\<close>

text \<open>The body of the 32-step loop: state is the result and the mask.\<close>

definition reverse_step :: "u32 \<Rightarrow> nat \<Rightarrow> u32 \<times> u32 \<Rightarrow> u32 \<times> u32" where
  "reverse_step d i = (\<lambda>(result, msk).
     (if d AND msk \<noteq> 0 then result OR push_bit i 1 else result, drop_bit 1 msk))"

definition lsb_convert :: "u32 \<Rightarrow> u8 \<Rightarrow> u32" where
  "lsb_convert d num_bits =
     (case fold (reverse_step d) [0..<32] (0, 0x80000000) of
        (result, msk) \<Rightarrow> lsr32 result (32 - uint num_bits))"

definition lsb_get :: "u32 \<Rightarrow> u8 \<Rightarrow> bool \<Rightarrow> u32" where
  "lsb_get d num_bits bit_order = (if \<not> bit_order then d else lsb_convert d num_bits)"

definition ui_format_bitorder :: "system_config \<Rightarrow> u32 \<Rightarrow> u32" where
  "ui_format_bitorder c d =
     (if sc_bit_order c = 0 then d
      else case fold (reverse_step d) [0..<32] (0, 0x80000000) of
             (result, msk) \<Rightarrow> lsr32 result (32 - uint (sc_num_bits c)))"

definition ui_format_lsb :: "u32 \<Rightarrow> u8 \<Rightarrow> u32" where
  "ui_format_lsb d num_bits =
     (case fold (reverse_step d) [0..<32] (0, 0x80000000) of
        (result, msk) \<Rightarrow> lsr32 result (32 - uint num_bits))"

definition ui_format_bitorder_manual :: "u32 \<Rightarrow> u8 \<Rightarrow> bool \<Rightarrow> u32" where
  "ui_format_bitorder_manual d num_bits bit_order =
     (if \<not> bit_order then d else ui_format_lsb d num_bits)"

lemma reverse_loop:
  "k \<le> 32 \<Longrightarrow> snd (fold (reverse_step d) [0..<k] (0, 0x80000000)) = drop_bit k 0x80000000 \<and>
    (\<forall>j. bit (fst (fold (reverse_step d) [0..<k] (0, 0x80000000))) j \<longleftrightarrow> j < k \<and> bit d (31 - j))"
proof (induction k)
  case 0
  then show ?case by simp
next
  case (Suc k)
  obtain r m where rm: "fold (reverse_step d) [0..<k] (0, 0x80000000) = (r, m)" by fastforce
  have IH: "m = drop_bit k 0x80000000" "\<And>j. bit r j \<longleftrightarrow> j < k \<and> bit d (31 - j)"
    using Suc rm by auto
  have e: "(0x80000000 :: u32) = 2 ^ 31" by simp
  have m: "m = 2 ^ (31 - k)"
    using Suc.prems unfolding IH e drop_bit_exp_eq by simp
  have "d AND m \<noteq> 0 \<longleftrightarrow> bit d (31 - k)"
    unfolding m by (simp add: and_exp_eq_0_iff_not_bit)
  then have step: "fold (reverse_step d) [0..<Suc k] (0, 0x80000000) =
      (if bit d (31 - k) then r OR push_bit k 1 else r, drop_bit 1 m)"
    by (simp add: rm reverse_step_def del: push_bit_of_1)
  have "drop_bit 1 m = drop_bit (Suc k) 0x80000000"
    unfolding IH(1) drop_bit_drop_bit by simp
  moreover have "bit (if bit d (31 - k) then r OR push_bit k 1 else r) j \<longleftrightarrow>
      j < Suc k \<and> bit d (31 - j)" for j
    using Suc.prems by (auto simp: IH(2) bit_or_iff bit_push_bit_iff bit_1_iff less_Suc_eq simp del: push_bit_of_1)
  ultimately show ?case unfolding step by simp
qed

lemma lsb_convert_bit:
  assumes "num_bits \<le> 32"
  shows "bit (lsb_convert d num_bits) j \<longleftrightarrow> j < unat num_bits \<and> bit d (unat num_bits - 1 - j)"
proof -
  obtain r m where rm: "fold (reverse_step d) [0..<32] (0, 0x80000000) = (r, m)" by fastforce
  have r: "bit r j \<longleftrightarrow> j < 32 \<and> bit d (31 - j)" for j
    using reverse_loop [of 32 d] rm by auto
  have n: "unat num_bits \<le> 32" using assms by (simp add: word_le_nat_alt)
  have "uint num_bits \<le> 32" using assms by (simp add: word_le_def)
  then have "lsr32 r (32 - uint num_bits) = drop_bit (32 - unat num_bits) r"
    using lsr32_complement [of "uint num_bits" r] by simp
  then have "lsb_convert d num_bits = drop_bit (32 - unat num_bits) r"
    unfolding lsb_convert_def rm by (rule case_prod_conv [THEN trans])
  then show ?thesis
    using n by (auto simp: bit_drop_bit_eq r)
qed

subsection \<open>Number output\<close>

text \<open>The colour for the next group of digits, and the toggled state.\<close>

definition format_get_color :: "bool \<Rightarrow> color \<times> bool" where
  "format_get_color state = (if state then Col_num_float else Col_reset, \<not> state)"

definition format_calc_nibbles :: "u8 \<Rightarrow> nat" where
  "format_calc_nibbles num_bits =
     (let nibbles = (unat num_bits + 3) div 4 in (nibbles + 1) - (nibbles + 1) mod 2)"

definition format_mask_value :: "u32 \<Rightarrow> u8 \<Rightarrow> u32" where
  "format_mask_value value num_bits =
     (if num_bits < 32 then value AND (push_bit (unat num_bits) 1 - 1) else value)"

definition ascii_hex :: "u8 list" where
  "ascii_hex = [48, 49, 50, 51, 52, 53, 54, 55, 56, 57, 65, 66, 67, 68, 69, 70]"

text \<open>The digit pairs for \<open>pos = 8 * n, 8 * (n - 1), \<dots>, 8\<close>.\<close>

fun format_hex_pairs :: "u32 \<Rightarrow> nat \<Rightarrow> bool \<Rightarrow> term_event list" where
  "format_hex_pairs value 0 color_state = []"
| "format_hex_pairs value (Suc n) color_state =
     (let pos = int (8 * Suc n); (col, color_state') = format_get_color color_state in
      [TColor col,
       TChar (ascii_hex ! unat (lsr32 value (pos - 4) AND 0x0F)),
       TChar (ascii_hex ! unat (lsr32 value (pos - 8) AND 0x0F))]
      @ format_hex_pairs value n color_state')"

definition format_print_hex :: "u32 \<Rightarrow> u8 \<Rightarrow> term_event list" where
  "format_print_hex value num_bits =
     (let total_bits = (format_calc_nibbles num_bits * 4) mod 256 in
      [TText ''0x''] @ format_hex_pairs value (total_bits div 8) True @ [TColor Col_reset])"

text \<open>The bits from \<open>i = num_bits - n\<close> on.\<close>

fun format_bin_digits :: "u32 \<Rightarrow> nat \<Rightarrow> nat \<Rightarrow> bool \<Rightarrow> term_event list" where
  "format_bin_digits value 0 nibble_pos color_state = []"
| "format_bin_digits value (Suc n) nibble_pos color_state =
     (let (col, nibble_pos', color_state') =
            (if nibble_pos = 0
             then ([TColor (fst (format_get_color color_state))], 4, snd (format_get_color color_state))
             else ([], nibble_pos, color_state))
      in col @ [TChar (ch_0 + ucast (lsr32 value (int n) AND 1))]
         @ format_bin_digits value n (nibble_pos' - 1) color_state')"

definition format_print_bin :: "u32 \<Rightarrow> u8 \<Rightarrow> term_event list" where
  "format_print_bin value num_bits =
     (let nibble_pos = (if unat num_bits mod 4 = 0 then 4 else unat num_bits mod 4) in
      [TText ''0b'', TColor Col_num_float]
      @ format_bin_digits value (unat num_bits) nibble_pos False @ [TColor Col_reset])"

definition ui_format_print_number_3 :: "u32 \<Rightarrow> u32 \<Rightarrow> u32 \<Rightarrow> term_event list" where
  "ui_format_print_number_3 value0 num_bits display_format =
     (let value = format_mask_value value0 (ucast num_bits) in
      (if display_format = df_ascii \<or> display_format = df_hex then format_print_hex value (ucast num_bits)
       else if display_format = df_dec then [TInt (uint value)]
       else if display_format = df_bin then format_print_bin value (ucast num_bits)
       else [])
      @ (if num_bits \<noteq> 8 then [TText ''.'', TInt (sint num_bits)] else []))"

subsection \<open>Reading the output as characters\<close>

definition char_code :: "char \<Rightarrow> u8" where
  "char_code c = of_nat (of_char c)"

definition int_chars :: "int \<Rightarrow> cstr" where
  "int_chars i = (if i < 0 then ch_minus # dec_string (nat (- i)) else dec_string (nat i))"

text \<open>The visible characters: escape sequences and translated messages are left out.\<close>

fun term_chars :: "term_event list \<Rightarrow> cstr" where
  "term_chars [] = []"
| "term_chars (TText s # es) = map char_code s @ term_chars es"
| "term_chars (TStr s # es) = map char_code s @ term_chars es"
| "term_chars (TInt i # es) = int_chars i @ term_chars es"
| "term_chars (TChar c # es) = c # term_chars es"
| "term_chars (TMsg k # es) = term_chars es"
| "term_chars (TColor c # es) = term_chars es"

lemma term_chars_append [simp]: "term_chars (xs @ ys) = term_chars xs @ term_chars ys"
  by (induction xs rule: term_chars.induct) simp_all

text \<open>The \<open>n\<close> low digits of a number in base \<open>b\<close>, most significant first.\<close>

fun fixed_digits :: "nat \<Rightarrow> nat \<Rightarrow> nat \<Rightarrow> nat list" where
  "fixed_digits b v 0 = []"
| "fixed_digits b v (Suc n) = (v div b ^ n) mod b # fixed_digits b v n"

lemma length_fixed_digits [simp]: "length (fixed_digits b v n) = n"
  by (induction n) auto

lemma fixed_digits_less: "0 < b \<Longrightarrow> \<forall>d \<in> set (fixed_digits b v n). d < b"
  by (induction n) auto

lemma fixed_digits_value: "digits_value b (fixed_digits b v n) a = a * b ^ n + v mod b ^ n"
proof (induction n arbitrary: a)
  case (Suc n)
  have "v mod b ^ Suc n = b ^ n * ((v div b ^ n) mod b) + v mod b ^ n"
    by (simp add: mod_mult2_eq [of v "b ^ n" b, symmetric] mult.commute)
  then show ?case
    using Suc by (simp add: algebra_simps)
qed simp

lemma all_ascii_hex: "\<forall>d \<in> set [0..<16]. ascii_hex ! d = hex_char d"
  by code_simp

lemma ascii_hex_nth: "d < 16 \<Longrightarrow> ascii_hex ! d = hex_char d"
  using all_ascii_hex by simp

lemma unat_drop_bit_and_mask: "unat (drop_bit n (v :: u32) AND mask k) = (unat v div 2 ^ n) mod 2 ^ k"
  by (simp add: unat_and_mask unat_drop_bit_eq flip: drop_bit_eq_div)

lemma unat_nibble: "unat (drop_bit n (v :: u32) AND 0x0F) = (unat v div 2 ^ n) mod 16"
  using unat_drop_bit_and_mask [of n v 4] by (simp add: mask_eq_exp_minus_1)

lemma unat_low_bit: "unat (drop_bit n (v :: u32) AND 1) = (unat v div 2 ^ n) mod 2"
  using unat_drop_bit_and_mask [of n v 1] by (simp add: mask_eq_exp_minus_1)

lemma hex_pairs_chars:
  "n \<le> 31 \<Longrightarrow> term_chars (format_hex_pairs v n st) = map hex_char (fixed_digits 16 (unat v) (2 * n))"
proof (induction v n st rule: format_hex_pairs.induct)
  case (2 v n st)
  have "lsr32 v (int (8 * Suc n) - 4) = drop_bit (8 * n + 4) v"
    "lsr32 v (int (8 * Suc n) - 8) = drop_bit (8 * n) v"
    using 2(2) by (simp_all add: lsr32_def nat_add_distrib nat_mult_distrib ac_simps)
  moreover have "(16::nat) ^ (2 * n) = 2 ^ (8 * n)" "(16::nat) ^ Suc (2 * n) = 2 ^ (8 * n + 4)"
    by (simp_all add: power_mult power_add)
  ultimately show ?case
    using 2 by (simp add: format_get_color_def Let_def unat_nibble ascii_hex_nth del: power_Suc)
qed simp

lemma lsr32_nat: "n \<le> 255 \<Longrightarrow> lsr32 v (int n) = drop_bit n v"
  by (simp add: lsr32_def)

lemma bin_digits_chars:
  "n \<le> 255 \<Longrightarrow> term_chars (format_bin_digits v n p st) = map dec_char (fixed_digits 2 (unat v) n)"
proof (induction n arbitrary: p st)
  case (Suc n)
  have "ucast (drop_bit n v AND 1) = (of_nat (unat (drop_bit n v AND 1)) :: u8)"
    by (rule ucast_of_nat_unat)
  then have "ch_0 + ucast (lsr32 v (int n) AND 1) = dec_char ((unat v div 2 ^ n) mod 2)"
    using Suc.prems lsr32_nat [of n v] by (simp only: dec_char_def unat_low_bit)
  then show ?case
    using Suc by (simp add: Let_def)
qed simp

subsection \<open>Printing with a character\<close>

text \<open>
  \<open>ui_format_print_number_2\<close>: the byte as a character first. The format \<open>(char)d\<close> is the low
  byte of the masked value; \<open>dot\<close> is a 32-bit attribute stored into the 8-bit \<open>num_bits\<close>.
\<close>

record command_attributes =
  ca_has_value :: bool
  ca_has_dot :: bool
  ca_has_colon :: bool
  ca_has_string :: bool
  ca_command :: u8
  ca_number_format :: u8
  ca_value :: u32
  ca_dot :: u32
  ca_colon :: u32

definition ui_format_print_number_2 :: "system_config \<Rightarrow> command_attributes \<Rightarrow> u32 \<Rightarrow> term_event list" where
  "ui_format_print_number_2 c attributes value =
     (let num_bits = (if ca_has_dot attributes then ucast (ca_dot attributes) else sc_num_bits c) :: u8;
          display_format = (if sc_display_format c = df_auto then ca_number_format attributes
                            else ucast (sc_display_format c)) :: u8;
          d = value AND (if num_bits < 32 then push_bit (unat num_bits) 1 - 1 else 0xFFFFFFFF);
          ch = ucast d :: u8
      in (if display_format = df_ascii \<or> ca_has_string attributes
          then if ch_space \<le> ch \<and> ch \<le> ch_tilde then [TText [CHR 0x27], TChar ch, TText [CHR 0x27, CHR 0x20]]
               else [TText [CHR 0x27, CHR 0x27, CHR 0x20, CHR 0x20]]
          else [])
         @ ui_format_print_number_3 d (ucast num_bits) (ucast display_format))"

subsection \<open>Properties\<close>

lemma format_mask_value_unat:
  "num_bits \<le> 32 \<Longrightarrow> unat (format_mask_value v num_bits) = unat v mod 2 ^ unat num_bits"
proof (cases "num_bits < 32")
  case True
  then show ?thesis
    by (simp add: format_mask_value_def unat_and_mask flip: mask_eq_exp_minus_1)
next
  case False
  assume "num_bits \<le> 32"
  then have "num_bits = 32" using False by simp
  then show ?thesis
    using unsigned_less [of v, where 'a=nat] by (simp add: format_mask_value_def)
qed

lemma format_calc_nibbles_bound:
  assumes "unat num_bits \<le> 32"
  shows "format_calc_nibbles num_bits \<le> 8"
proof -
  have "(unat num_bits + 3) div 4 \<le> 8"
    using assms by simp
  then show ?thesis
    unfolding format_calc_nibbles_def Let_def
    by (cases "(unat num_bits + 3) div 4 = 8") (simp, linarith)
qed

lemma format_calc_nibbles_even: "even (format_calc_nibbles num_bits)"
  unfolding format_calc_nibbles_def Let_def by (metis dvd_minus_mod)

lemma term_chars_print_hex:
  assumes "num_bits \<le> 32"
  shows "term_chars (format_print_hex v num_bits) =
    [ch_0, ch_x] @ map hex_char (fixed_digits 16 (unat v) (format_calc_nibbles num_bits))"
proof -
  have "unat num_bits \<le> 32" using assms by (simp add: word_le_nat_alt)
  then have n: "format_calc_nibbles num_bits \<le> 8" "even (format_calc_nibbles num_bits)"
    by (simp_all add: format_calc_nibbles_bound format_calc_nibbles_even)
  then have "(format_calc_nibbles num_bits * 4) mod 256 div 8 = format_calc_nibbles num_bits div 2"
    by auto
  with n show ?thesis
    by (auto simp: format_print_hex_def Let_def hex_pairs_chars char_code_def)
qed

lemma term_chars_print_bin:
  "term_chars (format_print_bin v num_bits) =
    [ch_0, ch_b] @ map dec_char (fixed_digits 2 (unat v) (unat num_bits))"
  using unsigned_less [of num_bits, where 'a=nat]
  by (simp add: format_print_bin_def Let_def bin_digits_chars char_code_def)

lemma fixed_digits_nonempty: "fixed_digits b v n = [] \<longleftrightarrow> n = 0"
  by (cases n) auto

lemma int_chars_uint: "int_chars (uint w) = dec_string (unat w)"
  by (simp add: int_chars_def)

text \<open>Reversing the low bits of a word twice gives the low bits back; bit by bit, the
  reversal sends bit j to bit n - 1 - j; and the three copies of the loop in the firmware
  compute the same function.\<close>

theorem lsb_convert_involution:
  assumes "num_bits \<le> 32"
  shows "lsb_convert (lsb_convert d num_bits) num_bits = take_bit (unat num_bits) d
    \<and> (\<forall>j. bit (lsb_convert d num_bits) j \<longleftrightarrow> j < unat num_bits \<and> bit d (unat num_bits - 1 - j))
    \<and> ui_format_lsb d num_bits = lsb_convert d num_bits
    \<and> (sc_num_bits c = num_bits \<and> sc_bit_order c \<noteq> 0 \<longrightarrow> ui_format_bitorder c d = lsb_convert d num_bits)"
proof -
  have "lsb_convert (lsb_convert d num_bits) num_bits = take_bit (unat num_bits) d"
    by (rule bit_word_eqI) (auto simp: lsb_convert_bit [OF assms] bit_take_bit_iff)
  moreover have "ui_format_lsb d num_bits = lsb_convert d num_bits"
    by (simp only: ui_format_lsb_def lsb_convert_def)
  moreover have "sc_num_bits c = num_bits \<and> sc_bit_order c \<noteq> 0 \<longrightarrow> ui_format_bitorder c d = lsb_convert d num_bits"
    by (auto simp only: lsb_convert_def ui_format_bitorder_def not_True_eq_False if_False)
  ultimately show ?thesis
    using lsb_convert_bit [OF assms] by blast
qed

theorem lsb_convert_involution_witness:
  "lsb_convert (lsb_convert 0x1A5 8) 8 = 0xA5"
  using lsb_convert_involution [of 8 "0x1A5"] by (simp add: take_bit_eq_mask mask_eq_exp_minus_1)

text \<open>C12: a number printed with n bits (1 to 32) in hexadecimal, decimal or binary and typed
  back in front of a bracket is parsed as the number modulo 2 to the n, with the format it was
  printed in.\<close>

theorem print_number_reads_back:
  assumes "1 \<le> num_bits" and "num_bits \<le> 32" and "(f, df) \<in> {(BP_NUM_HEX, df_hex), (BP_NUM_DEC, df_dec), (BP_NUM_BIN, df_bin)}"
  shows "\<exists>p. bp_num_u32 (term_chars (ui_format_print_number_3 v num_bits df) @ [ch_rbracket]) 0 =
    Some (of_nat (unat v mod 2 ^ unat num_bits), f, p)"
proof -
  let ?n = "ucast num_bits :: u8"
  let ?v = "unat v mod 2 ^ unat num_bits"
  let ?tail = "term_chars (if num_bits \<noteq> 8 then [TText ''.'', TInt (sint num_bits)] else []) @ [ch_rbracket]"
  have le: "unat num_bits \<le> 32" "1 \<le> unat num_bits"
    using assms(1,2) by (auto simp: word_le_nat_alt)
  have n: "unat ?n = unat num_bits" "?n \<le> 32"
    using le by (auto simp: unsigned_ucast_eq take_bit_nat_eq_self word_le_nat_alt)
  have val: "unat (format_mask_value v ?n) = ?v"
    using format_mask_value_unat [OF n(2)] n(1) by simp
  have tail: "at ?tail 0 = ch_dot \<or> at ?tail 0 = ch_rbracket"
    by (simp add: char_code_def)
  have nodigit: "\<not> bp_num_is_hex (at ?tail 0)" "\<not> bp_num_is_bin (at ?tail 0)" "ends_decimal ?tail"
    using tail by (auto simp: bp_num_is_hex_def bp_num_is_bin_def ends_decimal_def bp_num_is_dec_def)
  have lt: "?v < 2 ^ unat num_bits" by simp
  also have "\<dots> \<le> 2 ^ 32" using le by (intro power_increasing) auto
  finally have lt32: "?v < 2 ^ 32" .
  have nib: "unat num_bits \<le> 4 * format_calc_nibbles ?n" "0 < format_calc_nibbles ?n"
    using le n(1) by (auto simp: format_calc_nibbles_def Let_def)
  have "?v < 16 ^ format_calc_nibbles ?n"
    by (rule order.strict_trans2 [OF lt]) (use power_increasing [OF nib(1), of "2::nat"] in \<open>simp add: power_mult\<close>)
  then have hex: "\<exists>p. bp_num_u32 ([ch_0, ch_x] @ map hex_char (fixed_digits 16 ?v (format_calc_nibbles ?n)) @ ?tail) 0 =
      Some (of_nat ?v, BP_NUM_HEX, p)"
    using bp_num_u32_hexadecimal [OF _ fixed_digits_less [of 16] nodigit(1), of ?v "format_calc_nibbles ?n" "[]"] nib
    by (simp add: fixed_digits_value fixed_digits_nonempty)
  have bin: "\<exists>p. bp_num_u32 ([ch_0, ch_b] @ map dec_char (fixed_digits 2 ?v (unat num_bits)) @ ?tail) 0 =
      Some (of_nat ?v, BP_NUM_BIN, p)"
    using bp_num_u32_binary [OF _ fixed_digits_less [of 2] nodigit(2), of ?v "unat num_bits" "[]"] le
    by (simp add: fixed_digits_value fixed_digits_nonempty)
  have dec: "\<exists>p. bp_num_u32 (dec_string ?v @ ?tail) 0 = Some (of_nat ?v, BP_NUM_DEC, p)"
    using bp_num_u32_dec_string [OF lt32 nodigit(3), of "[]"] by simp
  have chars:
    "term_chars (ui_format_print_number_3 v num_bits df_hex) @ [ch_rbracket] =
      [ch_0, ch_x] @ map hex_char (fixed_digits 16 ?v (format_calc_nibbles ?n)) @ ?tail"
    "term_chars (ui_format_print_number_3 v num_bits df_bin) @ [ch_rbracket] =
      [ch_0, ch_b] @ map dec_char (fixed_digits 2 ?v (unat num_bits)) @ ?tail"
    "term_chars (ui_format_print_number_3 v num_bits df_dec) @ [ch_rbracket] = dec_string ?v @ ?tail"
    unfolding ui_format_print_number_3_def Let_def term_chars_append
    by (simp_all add: term_chars_print_hex [OF n(2)] term_chars_print_bin val n(1) int_chars_uint del: if_split)
  show ?thesis
    using assms(3) hex bin dec unfolding chars [symmetric] by blast
qed

theorem print_number_reads_back_witness:
  "\<exists>p. bp_num_u32 (term_chars (ui_format_print_number_3 0x1A5 12 df_hex) @ [ch_rbracket]) 0 =
    Some (0x1A5, BP_NUM_HEX, p)"
  using print_number_reads_back [of 12 BP_NUM_HEX df_hex "0x1A5"] by simp

end
