(* ===== verification/Syntax_Compile.thy ===== *)
theory Syntax_Compile
  imports Bytecode Ui_Parse Ui_Format
begin

text \<open>
  Phase one of the syntax engine, \<^verbatim>\<open>src/syntax_compile.c\<close>: the command line is translated
  to bytecode in \<open>syntax_io.out\<close>.

  One iteration of the main loop is \<open>syntax_compile_step\<close>; \<open>syntax_compile_loop\<close> iterates it
  while there is input. A write to \<open>out[out_cnt]\<close> outside of the array is
  \<open>Compile_Fault\<close>. The counter \<open>generated_in_cnt\<close> and the position are 32-bit words,
  as in the code; \<open>out_cnt\<close> never passes 1024, so it is a \<open>nat\<close>.
\<close>

abbreviation SYN_MAX_LENGTH :: nat where "SYN_MAX_LENGTH \<equiv> 1024"

record syntax_io =
  so_out :: "bytecode list"
  so_in :: "bytecode list"
  so_out_cnt :: nat
  so_in_cnt :: nat

definition io_ok :: "syntax_io \<Rightarrow> bool" where
  "io_ok io \<longleftrightarrow> length (so_out io) = SYN_MAX_LENGTH \<and> length (so_in io) = SYN_MAX_LENGTH"

definition io_reset :: syntax_io where
  "io_reset = \<lparr>so_out = replicate SYN_MAX_LENGTH bytecode_empty, so_in = replicate SYN_MAX_LENGTH bytecode_empty,
     so_out_cnt = 0, so_in_cnt = 0\<rparr>"

definition syntax_compile_commands :: "(u8 \<times> u8) list" where
  "syntax_compile_commands =
    [(ch_r, SYN_READ), (ch_lbracket, SYN_START), (ch_lbrace, SYN_START_ALT), (ch_rbracket, SYN_STOP),
     (ch_rbrace, SYN_STOP_ALT), (ch_d, SYN_DELAY_US), (ch_D, SYN_DELAY_MS), (ch_caret, SYN_TICK_CLOCK),
     (ch_slash, SYN_SET_CLK_HIGH), (ch_backslash, SYN_SET_CLK_LOW), (ch_underscore, SYN_SET_DAT_LOW),
     (ch_minus, SYN_SET_DAT_HIGH), (ch_dot, SYN_READ_DAT), (ch_a, SYN_AUX_OUTPUT_LOW),
     (ch_A, SYN_AUX_OUTPUT_HIGH), (ch_at, SYN_AUX_INPUT), (ch_v, SYN_ADC)]"

record compile_state =
  cs_reader :: ln_cmdreader
  cs_io :: syntax_io
  cs_generated :: u32
  cs_position :: u32

datatype compile_result =
    Compiled syntax_io ln_cmdreader
  | Compile_Error syntax_io ln_cmdreader "term_event list"
  | Compile_Fault

abbreviation compile_error :: "compile_state \<Rightarrow> term_event list \<Rightarrow> compile_state + compile_result" where
  "compile_error st msg \<equiv> Inr (Compile_Error (cs_io st) (cs_reader st) msg)"

definition exceeds_slots :: "term_event list" where
  "exceeds_slots = [TText ''Syntax exceeds available space ('', TInt 1024, TText '' slots)'', TText crlf]"

text \<open>Update the slot the instruction is assembled in; \<open>None\<close> is an access outside of the array.\<close>

definition update_slot :: "(bytecode \<Rightarrow> bytecode) \<Rightarrow> syntax_io \<Rightarrow> syntax_io option" where
  "update_slot f io =
     (if so_out_cnt io < length (so_out io)
      then Some (io\<lparr>so_out := (so_out io)[so_out_cnt io := f (so_out io ! so_out_cnt io)]\<rparr>)
      else None)"

subsection \<open>Attributes and slot accounting\<close>

text \<open>The label \<open>compiler_get_attributes\<close>: the bits, then the repeat count.\<close>

definition compile_bits :: "system_config \<Rightarrow> compile_state \<Rightarrow> compile_state option" where
  "compile_bits cfg st =
     (if length (so_out (cs_io st)) \<le> so_out_cnt (cs_io st) then None
      else case ui_parse_get_dot (cs_reader st) (bc_bits (so_out (cs_io st) ! so_out_cnt (cs_io st))) of
        (found, bits, r) \<Rightarrow>
          map_option (\<lambda>io. st\<lparr>cs_io := io, cs_reader := r\<rparr>)
            (update_slot (\<lambda>b. b\<lparr>bc_has_bits := found,
               bc_bits := (if found then bits else ucast (sc_num_bits cfg))\<rparr>) (cs_io st)))"

definition compile_repeat :: "compile_state \<Rightarrow> compile_state option" where
  "compile_repeat st =
     (if length (so_out (cs_io st)) \<le> so_out_cnt (cs_io st) then None
      else case ui_parse_get_colon (cs_reader st) (bc_repeat (so_out (cs_io st) ! so_out_cnt (cs_io st))) of
        (found, repeat, r) \<Rightarrow>
          map_option (\<lambda>io. st\<lparr>cs_io := io, cs_reader := r\<rparr>)
            (update_slot (\<lambda>b. b\<lparr>bc_has_repeat := found, bc_repeat := (if found then repeat else 1)\<rparr>) (cs_io st)))"

definition pin_error :: "system_config \<Rightarrow> u8 \<Rightarrow> u32 \<Rightarrow> bytecode \<Rightarrow> term_event list option" where
  "pin_error cfg c position b =
     (let pin_func = map (\<lambda>i. sc_pin_func cfg ! i) [1..<9] in
      if bc_command b < SYN_AUX_OUTPUT_HIGH then None
      else if \<not> bc_has_bits b
      then Some [TText ''Error: missing IO number for command '', TChar c, TText '' at position '',
                 TInt (sint position), TText ''. Try '', TChar c, TText ''.0'', TText crlf]
      else if 8 \<le> bc_bits b
      then Some [TColor Col_error, TText ''Error:'', TColor Col_reset, TText '' pin IO'',
                 TInt (sint (bc_bits b)), TText '' is invalid'', TText crlf]
      else if bc_command b \<noteq> SYN_ADC \<and> pin_func ! unat (bc_bits b) \<noteq> BP_PIN_IO
      then Some [TColor Col_error, TText ''Error:'', TColor Col_reset, TText '' at position '',
                 TInt (sint position), TText '' IO'', TInt (sint (bc_bits b)), TText '' is already in use'', TText crlf]
      else None)"

definition slots_of :: "bytecode \<Rightarrow> u32" where
  "slots_of b = (if bc_command b = SYN_DELAY_US \<or> bc_command b = SYN_DELAY_MS \<or> bc_command b = SYN_TICK_CLOCK
                 then 1 else bc_repeat b)"

definition compile_finish :: "system_config \<Rightarrow> u8 \<Rightarrow> compile_state \<Rightarrow> compile_state + compile_result" where
  "compile_finish cfg c st =
     (let b = so_out (cs_io st) ! so_out_cnt (cs_io st) in
      case pin_error cfg c (cs_position st) b of
        Some msg \<Rightarrow> compile_error st msg
      | None \<Rightarrow>
          let st' = st\<lparr>cs_generated := cs_generated st + slots_of b\<rparr> in
          if 1024 \<le> cs_generated st' then compile_error st' exceeds_slots
          else if SYN_MAX_LENGTH \<le> so_out_cnt (cs_io st')
          then compile_error st' [TText ''Syntax output buffer overflow (max '', TInt 1024, TText '' commands)'', TText crlf]
          else Inl (st'\<lparr>cs_io := (cs_io st')\<lparr>so_out_cnt := so_out_cnt (cs_io st') + 1\<rparr>\<rparr>))"

definition compiler_get_attributes ::
  "system_config \<Rightarrow> u8 \<Rightarrow> compile_state \<Rightarrow> compile_state + compile_result" where
  "compiler_get_attributes cfg c st =
     (case compile_bits cfg st of
        None \<Rightarrow> Inr Compile_Fault
      | Some st1 \<Rightarrow> (case compile_repeat st1 of
          None \<Rightarrow> Inr Compile_Fault
        | Some st2 \<Rightarrow> compile_finish cfg c st2))"

subsection \<open>Numbers, strings and command symbols\<close>

definition compile_number :: "system_config \<Rightarrow> u8 \<Rightarrow> compile_state \<Rightarrow> compile_state + compile_result" where
  "compile_number cfg c st =
     (case ui_parse_get_int (cs_reader st) of
        (_, result, n, r) \<Rightarrow>
          case update_slot (\<lambda>b. b\<lparr>bc_out_data := n\<rparr>) (cs_io st) of
            None \<Rightarrow> Inr Compile_Fault
          | Some io \<Rightarrow>
              let st1 = st\<lparr>cs_io := io, cs_reader := r\<rparr> in
              if pr_error result
              then compile_error st1 [TText ''Error parsing integer at position '', TInt (sint (cs_position st1)), TText crlf]
              else case update_slot (\<lambda>b. b\<lparr>bc_command := SYN_WRITE, bc_number_format := pr_number_format result\<rparr>) io of
                None \<Rightarrow> Inr Compile_Fault
              | Some io' \<Rightarrow> compiler_get_attributes cfg c (st1\<lparr>cs_io := io'\<rparr>))"

function find_quote :: "ln_cmdreader \<Rightarrow> nat \<Rightarrow> nat option" where
  "find_quote r i =
     (case ln_cmdln_try_peek r i of
        None \<Rightarrow> None
      | Some c \<Rightarrow> if c = ch_quote then Some i else find_quote r (Suc i))"
  by pat_completeness auto
termination
  by (relation "measure (\<lambda>(r, i). ln_len r - i)") (auto dest!: ln_peek_less)

declare find_quote.simps [simp del]

text \<open>The loop \<open>compile_get_string\<close>; \<open>c\<close> is the character variable, which a failing
  \<open>cmdln_try_remove\<close> leaves alone.\<close>

fun compile_get_string :: "system_config \<Rightarrow> nat \<Rightarrow> u8 \<Rightarrow> compile_state \<Rightarrow> compile_state option" where
  "compile_get_string cfg 0 c st = Some st"
| "compile_get_string cfg (Suc i) c st =
     (let (c', r) = (case cmdln_try_remove (cs_reader st) of Some x \<Rightarrow> x | None \<Rightarrow> (c, cs_reader st)) in
      case update_slot (\<lambda>b. b\<lparr>bc_command := SYN_WRITE, bc_out_data := ucast c', bc_has_repeat := False,
               bc_repeat := 1, bc_number_format := df_ascii, bc_bits := ucast (sc_num_bits cfg)\<rparr>) (cs_io st) of
        None \<Rightarrow> None
      | Some io \<Rightarrow> compile_get_string cfg i c'
          (st\<lparr>cs_reader := r, cs_io := io\<lparr>so_out_cnt := so_out_cnt io + 1\<rparr>, cs_generated := cs_generated st + 1\<rparr>))"

definition compile_string :: "system_config \<Rightarrow> compile_state \<Rightarrow> compile_state + compile_result" where
  "compile_string cfg st0 =
     (let st = st0\<lparr>cs_reader := (case cmdln_try_remove (cs_reader st0) of Some (_, r) \<Rightarrow> r | None \<Rightarrow> cs_reader st0)\<rparr> in
      case find_quote (cs_reader st) 0 of
        None \<Rightarrow> compile_error st [TText ''Error: string missing terminating '', TText [CHR 0x27, CHR 0x22, CHR 0x27]]
      | Some i \<Rightarrow>
          if SYN_MAX_LENGTH \<le> so_out_cnt (cs_io st) + i then compile_error st exceeds_slots
          else case compile_get_string cfg i ch_quote st of
            None \<Rightarrow> Inr Compile_Fault
          | Some st1 \<Rightarrow>
              let st2 = st1\<lparr>cs_reader := (case cmdln_try_remove (cs_reader st1) of Some (_, r) \<Rightarrow> r | None \<Rightarrow> cs_reader st1)\<rparr> in
              if 1024 \<le> cs_generated st2 then compile_error st2 exceeds_slots else Inl st2)"

definition compile_symbol :: "system_config \<Rightarrow> u8 \<Rightarrow> compile_state \<Rightarrow> compile_state + compile_result" where
  "compile_symbol cfg c st =
     (case map_of syntax_compile_commands c of
        None \<Rightarrow> compile_error st [TText ''Unknown syntax '', TText [CHR 0x27], TChar c, TText [CHR 0x27],
          TText '' at position '', TInt (sint (cs_position st)), TText crlf]
      | Some code \<Rightarrow>
          (case update_slot (\<lambda>b. b\<lparr>bc_command := code\<rparr>) (cs_io st) of
             None \<Rightarrow> Inr Compile_Fault
           | Some io \<Rightarrow> compiler_get_attributes cfg c
               (st\<lparr>cs_io := io, cs_reader := ln_cmdln_try_discard (cs_reader st) 1\<rparr>)))"

subsection \<open>The main loop\<close>

definition syntax_compile_step :: "system_config \<Rightarrow> u8 \<Rightarrow> compile_state \<Rightarrow> compile_state + compile_result" where
  "syntax_compile_step cfg c st0 =
     (let st = st0\<lparr>cs_position := cs_position st0 + 1\<rparr> in
      if c \<le> ch_space \<or> ch_tilde < c \<or> c = ch_gt
      then Inl (st\<lparr>cs_reader := ln_cmdln_try_discard (cs_reader st) 1\<rparr>)
      else if ch_0 \<le> c \<and> c \<le> ch_9 then compile_number cfg c st
      else if c = ch_quote then compile_string cfg st
      else compile_symbol cfg c st)"

lemma update_slot_SomeD:
  "update_slot f io = Some io' \<Longrightarrow> so_out_cnt io < length (so_out io) \<and> so_out_cnt io' = so_out_cnt io \<and>
     so_in io' = so_in io \<and> so_in_cnt io' = so_in_cnt io \<and>
     so_out io' = (so_out io)[so_out_cnt io := f (so_out io ! so_out_cnt io)]"
  by (auto simp: update_slot_def split: if_splits)

lemma update_slot_Some:
  "update_slot f io = Some io' \<Longrightarrow>
     io' = io\<lparr>so_out := (so_out io)[so_out_cnt io := f (so_out io ! so_out_cnt io)]\<rparr>"
  by (auto simp: update_slot_def split: if_splits)

lemma compile_bits_SomeD:
  assumes "compile_bits cfg st = Some st'"
  shows "ln_step (cs_reader st) (cs_reader st') \<and> cs_generated st' = cs_generated st \<and>
    cs_position st' = cs_position st \<and>
    (\<exists>found bits. update_slot (\<lambda>b. b\<lparr>bc_has_bits := found,
       bc_bits := (if found then bits else ucast (sc_num_bits cfg))\<rparr>) (cs_io st) = Some (cs_io st'))"
  using assms by (fastforce simp: compile_bits_def split: if_splits prod.splits dest: ui_parse_get_dot_step)

lemma compile_repeat_SomeD:
  assumes "compile_repeat st = Some st'"
  shows "ln_step (cs_reader st) (cs_reader st') \<and> cs_generated st' = cs_generated st \<and>
    cs_position st' = cs_position st \<and>
    (\<exists>found repeat. update_slot (\<lambda>b. b\<lparr>bc_has_repeat := found,
       bc_repeat := (if found then repeat else 1)\<rparr>) (cs_io st) = Some (cs_io st'))"
  using assms by (fastforce simp: compile_repeat_def split: if_splits prod.splits dest: ui_parse_get_colon_step)

lemma compile_finish_InlD:
  assumes "compile_finish cfg c st = Inl st'"
  shows "pin_error cfg c (cs_position st) (so_out (cs_io st) ! so_out_cnt (cs_io st)) = None \<and>
    cs_generated st' = cs_generated st + slots_of (so_out (cs_io st) ! so_out_cnt (cs_io st)) \<and>
    cs_generated st' < 1024 \<and> cs_reader st' = cs_reader st \<and>
    so_out_cnt (cs_io st) < SYN_MAX_LENGTH \<and>
    cs_io st' = (cs_io st)\<lparr>so_out_cnt := so_out_cnt (cs_io st) + 1\<rparr>"
  using assms by (auto simp: compile_finish_def Let_def split: option.splits if_splits)

text \<open>What the attributes do to the slot and the counters.\<close>

lemma compiler_get_attributes_InlD:
  assumes "compiler_get_attributes cfg c st = Inl st'"
  obtains found bits found' repeat b where
    "b = (so_out (cs_io st) ! so_out_cnt (cs_io st))\<lparr>bc_has_bits := found,
        bc_bits := (if found then bits else ucast (sc_num_bits cfg)), bc_has_repeat := found',
        bc_repeat := (if found' then repeat else 1)\<rparr>"
    and "ln_step (cs_reader st) (cs_reader st')"
    and "so_out_cnt (cs_io st) < length (so_out (cs_io st))"
    and "cs_io st' = (cs_io st)\<lparr>so_out := (so_out (cs_io st))[so_out_cnt (cs_io st) := b],
        so_out_cnt := so_out_cnt (cs_io st) + 1\<rparr>"
    and "pin_error cfg c (cs_position st) b = None"
    and "cs_generated st' = cs_generated st + slots_of b" and "cs_generated st' < 1024"
proof -
  obtain st1 st2 where st1: "compile_bits cfg st = Some st1" and st2: "compile_repeat st1 = Some st2"
    and fin: "compile_finish cfg c st2 = Inl st'"
    using assms by (auto simp: compiler_get_attributes_def split: option.splits)
  obtain found bits where b1: "update_slot (\<lambda>b. b\<lparr>bc_has_bits := found,
       bc_bits := (if found then bits else ucast (sc_num_bits cfg))\<rparr>) (cs_io st) = Some (cs_io st1)"
    using compile_bits_SomeD [OF st1] by blast
  obtain found' repeat where b2: "update_slot (\<lambda>b. b\<lparr>bc_has_repeat := found',
       bc_repeat := (if found' then repeat else 1)\<rparr>) (cs_io st1) = Some (cs_io st2)"
    using compile_repeat_SomeD [OF st2] by blast
  have lt: "so_out_cnt (cs_io st) < length (so_out (cs_io st))"
    using update_slot_SomeD [OF b1] by simp
  let ?b = "(so_out (cs_io st) ! so_out_cnt (cs_io st))\<lparr>bc_has_bits := found,
        bc_bits := (if found then bits else ucast (sc_num_bits cfg)), bc_has_repeat := found',
        bc_repeat := (if found' then repeat else 1)\<rparr>"
  have io2: "cs_io st2 = (cs_io st)\<lparr>so_out := (so_out (cs_io st))[so_out_cnt (cs_io st) := ?b]\<rparr>"
    using update_slot_Some [OF b1] update_slot_Some [OF b2] lt by simp
  have nth: "so_out (cs_io st2) ! so_out_cnt (cs_io st2) = ?b"
    using lt by (simp add: io2)
  have step: "ln_step (cs_reader st) (cs_reader st')"
    using compile_bits_SomeD [OF st1] compile_repeat_SomeD [OF st2] compile_finish_InlD [OF fin]
    by (auto intro: ln_step_trans)
  show thesis
  proof (rule that)
    show "pin_error cfg c (cs_position st) ?b = None"
      using compile_finish_InlD [OF fin] compile_bits_SomeD [OF st1] compile_repeat_SomeD [OF st2]
      unfolding nth by simp
    show "cs_io st' = (cs_io st)\<lparr>so_out := (so_out (cs_io st))[so_out_cnt (cs_io st) := ?b],
        so_out_cnt := so_out_cnt (cs_io st) + 1\<rparr>"
      using compile_finish_InlD [OF fin] by (simp add: io2)
    show "cs_generated st' = cs_generated st + slots_of ?b"
      using compile_finish_InlD [OF fin] compile_bits_SomeD [OF st1] compile_repeat_SomeD [OF st2]
      unfolding nth by simp
    show "cs_generated st' < 1024"
      using compile_finish_InlD [OF fin] by blast
  qed (use step lt in auto)
qed

lemma find_quote_bound: "find_quote r i = Some j \<Longrightarrow> ln_pos r + j < ln_len r \<and> i \<le> j"
proof (induction r i rule: find_quote.induct)
  case (1 r i)
  then show ?case
    by (subst (asm) (2) find_quote.simps)
      (auto split: option.splits if_splits dest: ln_peek_less)
qed

lemma cmdln_try_remove_step:
  "cmdln_try_remove r = Some (c, r') \<Longrightarrow> ln_progress r r' \<and> r' = ln_cmdln_try_discard r 1"
  by (auto simp: cmdln_try_remove_def intro: ln_progress_discard [unfolded One_nat_def])

lemma compile_get_string_step:
  assumes "compile_get_string cfg n c st = Some st'" and "ln_pos (cs_reader st) \<le> ln_len (cs_reader st)"
  shows "ln_step (cs_reader st) (cs_reader st') \<and> length (so_out (cs_io st')) = length (so_out (cs_io st))"
  using assms
proof (induction cfg n c st rule: compile_get_string.induct)
  case (2 cfg i c st)
  obtain c1 r1 where r1: "(case cmdln_try_remove (cs_reader st) of Some x \<Rightarrow> x | None \<Rightarrow> (c, cs_reader st)) = (c1, r1)"
    by fastforce
  have step: "ln_step (cs_reader st) r1"
    using r1 by (auto split: option.splits dest: cmdln_try_remove_step ln_progress_step)
  then have "ln_pos r1 \<le> ln_len r1"
    using 2(3) by (auto simp: ln_step_def)
  with 2 r1 step show ?case
    by (fastforce split: option.splits dest: update_slot_SomeD intro: ln_step_trans)
qed simp

text \<open>
  An iteration either consumes input, or consumes nothing and fills one more slot of the array.
\<close>

definition compile_measure :: "(compile_state \<times> compile_state) set" where
  "compile_measure = measures
     [\<lambda>st. ln_len (cs_reader st) - ln_pos (cs_reader st),
      \<lambda>st. length (so_out (cs_io st)) - so_out_cnt (cs_io st)]"

lemma wf_compile_measure: "wf compile_measure"
  by (simp add: compile_measure_def)

lemma compile_string_InlD:
  assumes "compile_string cfg st = Inl st'" and "ln_cmdln_try_peek (cs_reader st) 0 = Some c"
  shows "ln_progress (cs_reader st) (cs_reader st')"
proof -
  let ?r = "ln_cmdln_try_discard (cs_reader st) 1"
  have rem: "cmdln_try_remove (cs_reader st) = Some (c, ?r)"
    using assms(2) by (simp add: cmdln_try_remove_def)
  obtain i st1 where st1: "compile_get_string cfg i ch_quote (st\<lparr>cs_reader := ?r\<rparr>) = Some st1"
    and r': "cs_reader st' = (case cmdln_try_remove (cs_reader st1) of Some (_, r) \<Rightarrow> r | None \<Rightarrow> cs_reader st1)"
    using assms(1) rem by (auto simp: compile_string_def Let_def split: option.splits if_splits)
  have le: "ln_pos (cs_reader st) \<le> ln_len (cs_reader st)" "ln_pos ?r \<le> ln_len ?r"
    using ln_peek_less [OF assms(2)] by auto
  have "ln_progress (cs_reader st) ?r"
    by (rule ln_progress_discard [OF assms(2)])
  also have "ln_step ?r (cs_reader st1)"
    using compile_get_string_step [OF st1] le by simp
  also have "ln_step (cs_reader st1) (cs_reader st')"
    using r' by (auto split: option.splits dest: cmdln_try_remove_step ln_progress_step)
  finally show ?thesis using le by auto
qed

text \<open>The instructions a number and a command symbol compile to.\<close>

definition base_number :: "bytecode \<Rightarrow> u32 \<Rightarrow> u8 \<Rightarrow> bytecode" where
  "base_number b n f = b\<lparr>bc_out_data := n, bc_command := SYN_WRITE, bc_number_format := f\<rparr>"

lemma update_slot_twice:
  assumes "update_slot f io = Some io1" and "update_slot g io1 = Some io2"
  shows "io2 = io\<lparr>so_out := (so_out io)[so_out_cnt io := g (f (so_out io ! so_out_cnt io))]\<rparr>"
  using assms update_slot_SomeD [OF assms(1)]
  by (auto dest!: update_slot_Some)

lemma compile_number_InlD:
  assumes "compile_number cfg c st = Inl st'"
  obtains r io n f where "ln_step (cs_reader st) r"
    and "io = (cs_io st)\<lparr>so_out := (so_out (cs_io st))[so_out_cnt (cs_io st) :=
           base_number (so_out (cs_io st) ! so_out_cnt (cs_io st)) n f]\<rparr>"
    and "compiler_get_attributes cfg c (st\<lparr>cs_reader := r, cs_io := io\<rparr>) = Inl st'"
proof -
  obtain b res n r where int: "ui_parse_get_int (cs_reader st) = (b, res, n, r)"
    by (metis prod_cases4)
  obtain io1 io2 where io1: "update_slot (\<lambda>b. b\<lparr>bc_out_data := n\<rparr>) (cs_io st) = Some io1"
    and io2: "update_slot (\<lambda>b. b\<lparr>bc_command := SYN_WRITE, bc_number_format := pr_number_format res\<rparr>) io1 = Some io2"
    and att: "compiler_get_attributes cfg c (st\<lparr>cs_reader := r, cs_io := io2\<rparr>) = Inl st'"
    using assms by (auto simp: compile_number_def Let_def int split: option.splits if_splits)
  show thesis
    using ui_parse_get_int_step [OF int] update_slot_twice [OF io1 io2] att
    by (intro that [of r io2 n "pr_number_format res"]) (simp_all add: base_number_def)
qed

lemma compile_symbol_InlD:
  assumes "compile_symbol cfg c st = Inl st'"
  obtains io code where "map_of syntax_compile_commands c = Some code"
    and "io = (cs_io st)\<lparr>so_out := (so_out (cs_io st))[so_out_cnt (cs_io st) :=
           (so_out (cs_io st) ! so_out_cnt (cs_io st))\<lparr>bc_command := code\<rparr>]\<rparr>"
    and "compiler_get_attributes cfg c
           (st\<lparr>cs_io := io, cs_reader := ln_cmdln_try_discard (cs_reader st) 1\<rparr>) = Inl st'"
  using assms by (auto simp: compile_symbol_def split: option.splits dest!: update_slot_Some)

lemma syntax_compile_step_measure:
  assumes "syntax_compile_step cfg c st = Inl st'" and peek: "ln_cmdln_try_peek (cs_reader st) 0 = Some c"
  shows "(st', st) \<in> compile_measure"
proof -
  have le: "ln_pos (cs_reader st) \<le> ln_len (cs_reader st)"
    using ln_peek_less [OF peek] by simp
  have progress: "ln_progress (cs_reader st) r \<Longrightarrow> ln_step r (cs_reader st') \<Longrightarrow> ?thesis" for r
    using ln_progress_remaining [OF ln_progress_trans, OF _ _ le le] by (simp add: compile_measure_def)
  let ?st = "st\<lparr>cs_position := cs_position st + 1\<rparr>"
  consider "st' = ?st\<lparr>cs_reader := ln_cmdln_try_discard (cs_reader st) 1\<rparr>"
    | "compile_number cfg c ?st = Inl st'" | "compile_string cfg ?st = Inl st'" | "compile_symbol cfg c ?st = Inl st'"
    using assms(1) by (auto simp: syntax_compile_step_def Let_def split: if_splits)
  then show ?thesis
  proof cases
    case 1
    then show ?thesis
      using progress [OF ln_progress_discard [OF peek]] by simp
  next
    case 2
    then obtain r io n f where r: "ln_step (cs_reader st) r"
      and io: "io = (cs_io st)\<lparr>so_out := (so_out (cs_io st))[so_out_cnt (cs_io st) :=
           base_number (so_out (cs_io st) ! so_out_cnt (cs_io st)) n f]\<rparr>"
      and att: "compiler_get_attributes cfg c (?st\<lparr>cs_reader := r, cs_io := io\<rparr>) = Inl st'"
      by (rule compile_number_InlD) auto
    have "ln_step r (cs_reader st') \<and> length (so_out (cs_io st')) = length (so_out (cs_io st)) \<and>
        so_out_cnt (cs_io st) < length (so_out (cs_io st)) \<and> so_out_cnt (cs_io st') = Suc (so_out_cnt (cs_io st))"
      using att by (rule compiler_get_attributes_InlD) (simp add: io)
    then show ?thesis
      using ln_step_remaining [OF ln_step_trans, OF r _ le, of "cs_reader st'"]
      by (auto simp: compile_measure_def le_less)
  next
    case 3
    then show ?thesis
      using compile_string_InlD [OF 3, of c] peek by (intro progress) auto
  next
    case 4
    then obtain io code where att: "compiler_get_attributes cfg c
           (?st\<lparr>cs_io := io, cs_reader := ln_cmdln_try_discard (cs_reader st) 1\<rparr>) = Inl st'"
      by (rule compile_symbol_InlD) auto
    then have "ln_step (ln_cmdln_try_discard (cs_reader st) 1) (cs_reader st')"
      by (rule compiler_get_attributes_InlD) simp
    then show ?thesis
      by (rule progress [OF ln_progress_discard [OF peek]])
  qed
qed

function syntax_compile_loop :: "system_config \<Rightarrow> compile_state \<Rightarrow> compile_result" where
  "syntax_compile_loop cfg st =
     (case ln_cmdln_try_peek (cs_reader st) 0 of
        None \<Rightarrow> Compiled ((cs_io st)\<lparr>so_in_cnt := 0\<rparr>) (cs_reader st)
      | Some c \<Rightarrow> (case syntax_compile_step cfg c st of
          Inr result \<Rightarrow> result
        | Inl st' \<Rightarrow> syntax_compile_loop cfg st'))"
  by pat_completeness auto
termination
  by (relation "inv_image compile_measure snd")
    (auto simp: wf_compile_measure dest: syntax_compile_step_measure)

declare syntax_compile_loop.simps [simp del]

definition compile_start :: "ln_cmdreader \<Rightarrow> compile_state" where
  "compile_start r = \<lparr>cs_reader = r, cs_io = io_reset, cs_generated = 0, cs_position = 0\<rparr>"

definition syntax_compile :: "system_config \<Rightarrow> ln_cmdreader \<Rightarrow> compile_result" where
  "syntax_compile cfg r = syntax_compile_loop cfg (compile_start r)"

subsection \<open>What is compiled\<close>

text \<open>A well-formed instruction: the attributes and the pin checks of the compiler.\<close>

definition instr_ok :: "system_config \<Rightarrow> bytecode \<Rightarrow> bool" where
  "instr_ok cfg b \<longleftrightarrow> bc_command b \<le> SYN_ADC \<and>
     (\<not> bc_has_bits b \<longrightarrow> bc_bits b = ucast (sc_num_bits cfg)) \<and>
     (\<not> bc_has_repeat b \<longrightarrow> bc_repeat b = 1) \<and>
     (SYN_AUX_OUTPUT_HIGH \<le> bc_command b \<longrightarrow> bc_has_bits b \<and> bc_bits b < 8 \<and>
        (bc_command b \<noteq> SYN_ADC \<longrightarrow> sc_pin_func cfg ! (unat (bc_bits b) + 1) = BP_PIN_IO)) \<and>
     bc_error b = SERR_NONE \<and> bc_error_message b = None \<and> bc_data_message b = None \<and>
     bc_in_data b = 0 \<and> \<not> bc_read_with_write b"

definition io_program :: "syntax_io \<Rightarrow> bytecode list" where
  "io_program io = take (so_out_cnt io) (so_out io)"

definition compile_inv :: "system_config \<Rightarrow> compile_state \<Rightarrow> bool" where
  "compile_inv cfg st \<longleftrightarrow> io_ok (cs_io st) \<and> so_out_cnt (cs_io st) \<le> SYN_MAX_LENGTH \<and>
     so_in (cs_io st) = replicate SYN_MAX_LENGTH bytecode_empty \<and>
     drop (so_out_cnt (cs_io st)) (so_out (cs_io st)) =
       replicate (SYN_MAX_LENGTH - so_out_cnt (cs_io st)) bytecode_empty \<and>
     (\<forall>b \<in> set (io_program (cs_io st)). instr_ok cfg b) \<and>
     cs_generated st = sum_list (map slots_of (io_program (cs_io st)))"

lemma compile_inv_start: "compile_inv cfg (compile_start r)"
  by (simp add: compile_inv_def compile_start_def io_reset_def io_ok_def io_program_def)

lemma compile_inv_slot:
  assumes "compile_inv cfg st" and "so_out_cnt (cs_io st) < length (so_out (cs_io st))"
  shows "so_out (cs_io st) ! so_out_cnt (cs_io st) = bytecode_empty"
proof -
  have "so_out (cs_io st) ! so_out_cnt (cs_io st) = drop (so_out_cnt (cs_io st)) (so_out (cs_io st)) ! 0"
    using assms(2) by simp
  also have "\<dots> = bytecode_empty"
    using assms by (simp add: compile_inv_def io_ok_def)
  finally show ?thesis .
qed

lemma compile_inv_emit:
  assumes inv: "compile_inv cfg st" and lt: "so_out_cnt (cs_io st) < length (so_out (cs_io st))"
    and ok: "instr_ok cfg b"
    and io: "cs_io st' = (cs_io st)\<lparr>so_out := (so_out (cs_io st))[so_out_cnt (cs_io st) := b],
        so_out_cnt := so_out_cnt (cs_io st) + 1\<rparr>"
    and gen: "cs_generated st' = cs_generated st + slots_of b"
  shows "compile_inv cfg st' \<and> io_program (cs_io st') = io_program (cs_io st) @ [b]"
proof -
  let ?k = "so_out_cnt (cs_io st)"
  have prog: "io_program (cs_io st') = io_program (cs_io st) @ [b]"
    using lt by (simp add: io io_program_def take_Suc_nth)
  have "drop (Suc ?k) (so_out (cs_io st)) = tl (drop ?k (so_out (cs_io st)))"
    by (simp add: drop_Suc tl_drop)
  then have "drop (Suc ?k) (so_out (cs_io st)) = replicate (SYN_MAX_LENGTH - Suc ?k) bytecode_empty"
    using inv lt by (cases "SYN_MAX_LENGTH - ?k") (auto simp: compile_inv_def io_ok_def)
  then show ?thesis
    using inv lt ok prog by (auto simp: compile_inv_def io_ok_def gen) (simp_all add: io)
qed

lemma compile_inv_reader [simp]:
  "compile_inv cfg (st\<lparr>cs_reader := r\<rparr>) = compile_inv cfg st"
  "compile_inv cfg (st\<lparr>cs_position := p\<rparr>) = compile_inv cfg st"
  by (simp_all add: compile_inv_def)

lemma all_compile_commands: "\<forall>(c, code) \<in> set syntax_compile_commands. code \<le> SYN_ADC"
  by code_simp

lemma compile_command_le: "map_of syntax_compile_commands c = Some code \<Longrightarrow> code \<le> SYN_ADC"
  using all_compile_commands by (auto dest: map_of_SomeD)

lemma pin_error_None:
  assumes "pin_error cfg c p b = None" and "SYN_AUX_OUTPUT_HIGH \<le> bc_command b"
  shows "bc_has_bits b \<and> bc_bits b < 8 \<and>
    (bc_command b \<noteq> SYN_ADC \<longrightarrow> sc_pin_func cfg ! (unat (bc_bits b) + 1) = BP_PIN_IO)"
proof -
  have lt: "bc_has_bits b \<and> bc_bits b < 8"
    using assms by (auto simp: pin_error_def Let_def not_less split: if_splits)
  then have "unat (bc_bits b) < 8" by (simp add: word_less_nat_alt)
  then show ?thesis
    using assms lt by (auto simp: pin_error_def Let_def not_less nth_append split: if_splits)
qed

text \<open>The attributes turn a slot with a command into a well-formed instruction.\<close>

definition slot_ok :: "bytecode \<Rightarrow> bool" where
  "slot_ok b \<longleftrightarrow> bc_command b \<le> SYN_ADC \<and> bc_error b = SERR_NONE \<and> bc_error_message b = None \<and>
     bc_data_message b = None \<and> bc_in_data b = 0 \<and> \<not> bc_read_with_write b"

lemma slot_ok_intros:
  "slot_ok (base_number bytecode_empty n f)"
  "code \<le> SYN_ADC \<Longrightarrow> slot_ok (bytecode_empty\<lparr>bc_command := code\<rparr>)"
  by (simp_all add: slot_ok_def base_number_def bytecode_empty_def)

lemma compile_inv_attributes:
  assumes inv: "compile_inv cfg st" and att: "compiler_get_attributes cfg c st1 = Inl st'"
    and io1: "cs_io st1 = (cs_io st)\<lparr>so_out := (so_out (cs_io st))[so_out_cnt (cs_io st) := b0]\<rparr>"
    and gen1: "cs_generated st1 = cs_generated st"
    and b0: "so_out_cnt (cs_io st) < length (so_out (cs_io st)) \<Longrightarrow> slot_ok b0"
  shows "compile_inv cfg st' \<and> cs_generated st' < 1024"
proof -
  obtain found bits found' repeat b where
    b: "b = (so_out (cs_io st1) ! so_out_cnt (cs_io st1))\<lparr>bc_has_bits := found,
        bc_bits := (if found then bits else ucast (sc_num_bits cfg)), bc_has_repeat := found',
        bc_repeat := (if found' then repeat else 1)\<rparr>"
    and lt: "so_out_cnt (cs_io st1) < length (so_out (cs_io st1))"
    and io': "cs_io st' = (cs_io st1)\<lparr>so_out := (so_out (cs_io st1))[so_out_cnt (cs_io st1) := b],
        so_out_cnt := so_out_cnt (cs_io st1) + 1\<rparr>"
    and pin: "pin_error cfg c (cs_position st1) b = None"
    and gen': "cs_generated st' = cs_generated st1 + slots_of b" "cs_generated st' < 1024"
    using att by (rule compiler_get_attributes_InlD)
  have lt0: "so_out_cnt (cs_io st) < length (so_out (cs_io st))"
    using lt by (simp add: io1)
  have "so_out (cs_io st1) ! so_out_cnt (cs_io st1) = b0"
    using lt0 by (simp add: io1)
  then have "instr_ok cfg b"
    using b0 [OF lt0] pin_error_None [OF pin] by (auto simp: b instr_ok_def slot_ok_def split: if_splits)
  moreover have "cs_io st' = (cs_io st)\<lparr>so_out := (so_out (cs_io st))[so_out_cnt (cs_io st) := b],
        so_out_cnt := so_out_cnt (cs_io st) + 1\<rparr>"
    using io' by (simp add: io1)
  ultimately show ?thesis
    using compile_inv_emit [OF inv lt0, of b st'] gen' gen1 by simp
qed

lemma compile_inv_get_string:
  "compile_get_string cfg n c st = Some st' \<Longrightarrow> compile_inv cfg st \<Longrightarrow> compile_inv cfg st'"
proof (induction cfg n c st rule: compile_get_string.induct)
  case (2 cfg i c st)
  obtain c1 r1 where r1: "(case cmdln_try_remove (cs_reader st) of Some x \<Rightarrow> x | None \<Rightarrow> (c, cs_reader st)) = (c1, r1)"
    by fastforce
  let ?f = "\<lambda>b. b\<lparr>bc_command := SYN_WRITE, bc_out_data := ucast c1, bc_has_repeat := False,
               bc_repeat := 1, bc_number_format := df_ascii, bc_bits := ucast (sc_num_bits cfg)\<rparr>"
  obtain io where io: "update_slot ?f (cs_io st) = Some io"
    and rec: "compile_get_string cfg i c1 (st\<lparr>cs_reader := r1, cs_io := io\<lparr>so_out_cnt := so_out_cnt io + 1\<rparr>,
        cs_generated := cs_generated st + 1\<rparr>) = Some st'"
    using 2(2) r1 by (auto split: option.splits)
  have lt: "so_out_cnt (cs_io st) < length (so_out (cs_io st))"
    using update_slot_SomeD [OF io] by simp
  let ?b = "?f (so_out (cs_io st) ! so_out_cnt (cs_io st))"
  have "instr_ok cfg ?b" and "slots_of ?b = 1"
    using compile_inv_slot [OF 2(3) lt] by (simp_all add: instr_ok_def slots_of_def bytecode_empty_def)
  then have "compile_inv cfg (st\<lparr>cs_reader := r1, cs_io := io\<lparr>so_out_cnt := so_out_cnt io + 1\<rparr>,
        cs_generated := cs_generated st + 1\<rparr>)"
    using compile_inv_emit [OF 2(3) lt, of ?b] update_slot_Some [OF io] by simp
  then show ?case
    using 2(1) [OF r1 [symmetric] refl io] rec by simp
qed simp

lemma syntax_compile_step_inv:
  assumes step: "syntax_compile_step cfg c st = Inl st'" and inv: "compile_inv cfg st"
    and lt: "cs_generated st < 1024"
  shows "compile_inv cfg st' \<and> cs_generated st' < 1024"
proof -
  let ?st = "st\<lparr>cs_position := cs_position st + 1\<rparr>"
  have inv': "compile_inv cfg ?st" using inv by simp
  have slot: "slot_ok (base_number (so_out (cs_io st) ! so_out_cnt (cs_io st)) n f)"
    "code \<le> SYN_ADC \<Longrightarrow> slot_ok ((so_out (cs_io st) ! so_out_cnt (cs_io st))\<lparr>bc_command := code\<rparr>)"
    if "so_out_cnt (cs_io st) < length (so_out (cs_io st))" for n f code
    unfolding compile_inv_slot [OF inv that] by (rule slot_ok_intros | assumption)+
  consider "st' = ?st\<lparr>cs_reader := ln_cmdln_try_discard (cs_reader st) 1\<rparr>"
    | "compile_number cfg c ?st = Inl st'" | "compile_string cfg ?st = Inl st'" | "compile_symbol cfg c ?st = Inl st'"
    using step by (auto simp: syntax_compile_step_def Let_def split: if_splits)
  then show ?thesis
  proof cases
    case 1
    then show ?thesis using inv lt by simp
  next
    case 2
    then show ?thesis
      by (rule compile_number_InlD) (erule compile_inv_attributes [OF inv'], auto intro: slot(1))
  next
    case 3
    then show ?thesis
      using inv by (auto simp: compile_string_def Let_def not_le split: option.splits if_splits
          dest!: compile_inv_get_string)
  next
    case 4
    then show ?thesis
      by (rule compile_symbol_InlD)
        (erule compile_inv_attributes [OF inv'], auto intro: slot(2) compile_command_le)
  qed
qed

lemma compile_finish_not_Compiled: "compile_finish cfg c st \<noteq> Inr (Compiled io r)"
  by (simp add: compile_finish_def Let_def split: option.split)

lemma get_attributes_not_Compiled: "compiler_get_attributes cfg c st \<noteq> Inr (Compiled io r)"
  by (simp add: compiler_get_attributes_def compile_finish_not_Compiled split: option.split)

lemma compile_number_not_Compiled: "compile_number cfg c st \<noteq> Inr (Compiled io r)"
  by (simp add: compile_number_def Let_def get_attributes_not_Compiled split: option.split prod.split)

lemma compile_string_not_Compiled: "compile_string cfg st \<noteq> Inr (Compiled io r)"
  by (simp add: compile_string_def Let_def split: option.split)

lemma compile_symbol_not_Compiled: "compile_symbol cfg c st \<noteq> Inr (Compiled io r)"
  by (simp add: compile_symbol_def get_attributes_not_Compiled split: option.split)

lemma syntax_compile_step_not_Compiled: "syntax_compile_step cfg c st \<noteq> Inr (Compiled io r)"
  by (simp add: syntax_compile_step_def Let_def compile_number_not_Compiled compile_string_not_Compiled
      compile_symbol_not_Compiled)

lemma syntax_compile_loop_inv:
  assumes "syntax_compile_loop cfg st = Compiled io r" and "compile_inv cfg st" and "cs_generated st < 1024"
  shows "\<exists>st'. compile_inv cfg st' \<and> cs_generated st' < 1024 \<and> io = (cs_io st')\<lparr>so_in_cnt := 0\<rparr> \<and>
    r = cs_reader st' \<and> ln_cmdln_try_peek r 0 = None"
  using assms
proof (induction cfg st rule: syntax_compile_loop.induct)
  case (1 cfg st)
  show ?case
  proof (cases "ln_cmdln_try_peek (cs_reader st) 0")
    case None
    then show ?thesis
      using 1(2-4) by (intro exI [of _ st]) (auto simp: syntax_compile_loop.simps [of cfg st])
  next
    case (Some c)
    then show ?thesis
      using 1 by (auto simp: syntax_compile_loop.simps [of cfg st] syntax_compile_step_not_Compiled
          split: sum.splits dest: syntax_compile_step_inv)
  qed
qed

subsection \<open>Array accesses\<close>

lemma update_slot_None_iff: "update_slot f io = None \<longleftrightarrow> length (so_out io) \<le> so_out_cnt io"
  by (simp add: update_slot_def not_less)

lemma update_slot_in_range:
  "so_out_cnt io < length (so_out io) \<Longrightarrow> \<exists>io'. update_slot f io = Some io' \<and>
     so_out_cnt io' = so_out_cnt io \<and> length (so_out io') = length (so_out io)"
  by (simp add: update_slot_def)

lemma get_attributes_no_fault:
  assumes "so_out_cnt (cs_io st) < length (so_out (cs_io st))"
  shows "compiler_get_attributes cfg c st \<noteq> Inr Compile_Fault"
proof -
  obtain st1 where st1: "compile_bits cfg st = Some st1"
    using assms by (cases "compile_bits cfg st")
      (auto simp: compile_bits_def update_slot_None_iff split: prod.splits)
  then have "so_out_cnt (cs_io st1) < length (so_out (cs_io st1))"
    using assms by (auto dest!: compile_bits_SomeD update_slot_Some)
  then obtain st2 where "compile_repeat st1 = Some st2"
    by (cases "compile_repeat st1") (auto simp: compile_repeat_def update_slot_None_iff split: prod.splits)
  then show ?thesis
    by (simp add: st1 compiler_get_attributes_def compile_finish_def Let_def split: option.split)
qed

lemma compile_get_string_no_fault:
  "so_out_cnt (cs_io st) + n \<le> length (so_out (cs_io st)) \<Longrightarrow>
    \<exists>st'. compile_get_string cfg n c st = Some st' \<and> so_out_cnt (cs_io st') = so_out_cnt (cs_io st) + n \<and>
      cs_generated st' = cs_generated st + of_nat n \<and> length (so_out (cs_io st')) = length (so_out (cs_io st))"
proof (induction n arbitrary: c st)
  case (Suc n)
  obtain c1 r1 where r1: "(case cmdln_try_remove (cs_reader st) of Some x \<Rightarrow> x | None \<Rightarrow> (c, cs_reader st)) = (c1, r1)"
    by fastforce
  obtain io where io: "update_slot (\<lambda>b. b\<lparr>bc_command := SYN_WRITE, bc_out_data := ucast c1, bc_has_repeat := False,
               bc_repeat := 1, bc_number_format := df_ascii, bc_bits := ucast (sc_num_bits cfg)\<rparr>) (cs_io st) = Some io"
    and cnt: "so_out_cnt io = so_out_cnt (cs_io st)" "length (so_out io) = length (so_out (cs_io st))"
    using update_slot_in_range [of "cs_io st"] Suc.prems by fastforce
  let ?st = "st\<lparr>cs_reader := r1, cs_io := io\<lparr>so_out_cnt := so_out_cnt io + 1\<rparr>, cs_generated := cs_generated st + 1\<rparr>"
  have "so_out_cnt (cs_io ?st) + n \<le> length (so_out (cs_io ?st))"
    using Suc.prems cnt by simp
  from Suc.IH [OF this, of c1] show ?case
    using cnt by (auto simp: r1 io)
qed simp

lemma syntax_compile_step_no_fault:
  assumes "so_out_cnt (cs_io st) < length (so_out (cs_io st))" and "length (so_out (cs_io st)) = SYN_MAX_LENGTH"
  shows "syntax_compile_step cfg c st \<noteq> Inr Compile_Fault"
proof -
  let ?st = "st\<lparr>cs_position := cs_position st + 1\<rparr>"
  have upd: "update_slot f io = Some io' \<Longrightarrow> so_out_cnt io < length (so_out io) \<Longrightarrow>
      so_out_cnt io' < length (so_out io')" for f io io'
    using update_slot_SomeD by simp
  have num: "compile_number cfg c ?st \<noteq> Inr Compile_Fault"
    using assms(1) by (auto simp: compile_number_def Let_def update_slot_None_iff get_attributes_no_fault upd
        split: prod.splits option.splits dest: update_slot_SomeD)
  have sym: "compile_symbol cfg c ?st \<noteq> Inr Compile_Fault"
    using assms(1) by (auto simp: compile_symbol_def update_slot_None_iff get_attributes_no_fault upd
        split: option.splits)
  have str: "compile_string cfg ?st \<noteq> Inr Compile_Fault"
  proof -
    have none: "(compile_get_string cfg i c' st' = None) = False"
      if "\<not> SYN_MAX_LENGTH \<le> so_out_cnt (cs_io st) + i" and "cs_io st' = cs_io st" for i c' st'
      using compile_get_string_no_fault [of st' i cfg c'] that assms by auto
    show ?thesis
      by (auto simp: compile_string_def Let_def none split: option.splits)
  qed
  show ?thesis
    using num sym str by (simp add: syntax_compile_step_def Let_def)
qed

text \<open>Without a repeat count every instruction takes one slot.\<close>

definition one_slot_each :: "compile_state \<Rightarrow> bool" where
  "one_slot_each st \<longleftrightarrow> so_out_cnt (cs_io st) < SYN_MAX_LENGTH \<and> length (so_out (cs_io st)) = SYN_MAX_LENGTH \<and>
     cs_generated st = of_nat (so_out_cnt (cs_io st)) \<and> ch_colon \<notin> set (ln_buf (cs_reader st))"

lemma get_colon_none: "ch_colon \<notin> set (ln_buf r) \<Longrightarrow> ui_parse_get_colon r v = (False, v, r)"
  using at_in_set [of "ln_buf r" "ln_cmdln_current r" ch_colon]
  by (auto simp: ui_parse_get_colon_def ui_parse_get_delimited_sequence_def Let_def empty_result_def)

lemma of_nat_lt_1024: "n \<le> 1024 \<Longrightarrow> (of_nat n :: u32) < 1024 \<longleftrightarrow> n < 1024"
  by (simp add: word_less_nat_alt unat_of_nat take_bit_nat_eq_self)

lemma get_attributes_one_slot:
  assumes att: "compiler_get_attributes cfg c st = Inl st'" and one: "one_slot_each st"
  shows "one_slot_each st'"
proof -
  obtain st1 st2 where st1: "compile_bits cfg st = Some st1" and st2: "compile_repeat st1 = Some st2"
    and fin: "compile_finish cfg c st2 = Inl st'"
    using att by (auto simp: compiler_get_attributes_def split: option.splits)
  have r1: "ln_buf (cs_reader st1) = ln_buf (cs_reader st)"
    using compile_bits_SomeD [OF st1] by (simp add: ln_step_def)
  have io1: "so_out_cnt (cs_io st1) = so_out_cnt (cs_io st)" "length (so_out (cs_io st1)) = length (so_out (cs_io st))"
    using compile_bits_SomeD [OF st1] by (auto dest!: update_slot_Some)
  have "ch_colon \<notin> set (ln_buf (cs_reader st1))"
    using one by (simp add: r1 one_slot_each_def)
  then have st2': "cs_reader st2 = cs_reader st1"
    "update_slot (\<lambda>b. b\<lparr>bc_has_repeat := False, bc_repeat := 1\<rparr>) (cs_io st1) = Some (cs_io st2)"
    using st2 by (auto simp: compile_repeat_def get_colon_none split: if_splits)
  have io2: "so_out_cnt (cs_io st2) = so_out_cnt (cs_io st)" "length (so_out (cs_io st2)) = length (so_out (cs_io st))"
    "bc_repeat (so_out (cs_io st2) ! so_out_cnt (cs_io st)) = 1"
    using io1 update_slot_SomeD [OF st2'(2)] by simp_all
  have gen: "cs_generated st2 = cs_generated st"
    using compile_bits_SomeD [OF st1] compile_repeat_SomeD [OF st2] by simp
  have "cs_generated st' = of_nat (Suc (so_out_cnt (cs_io st)))" "cs_generated st' < 1024"
    using compile_finish_InlD [OF fin] one by (auto simp: slots_of_def io2 gen one_slot_each_def add.commute)
  moreover from this one have "Suc (so_out_cnt (cs_io st)) < SYN_MAX_LENGTH"
    using of_nat_lt_1024 [of "Suc (so_out_cnt (cs_io st))"] by (simp add: one_slot_each_def)
  ultimately show ?thesis
    using compile_finish_InlD [OF fin] one by (simp add: one_slot_each_def io2 st2' r1)
qed

lemma syntax_compile_step_one_slot:
  assumes step: "syntax_compile_step cfg c st = Inl st'" and one: "one_slot_each st"
    and peek: "ln_cmdln_try_peek (cs_reader st) 0 = Some c"
  shows "one_slot_each st'"
proof -
  let ?st = "st\<lparr>cs_position := cs_position st + 1\<rparr>"
  consider "st' = ?st\<lparr>cs_reader := ln_cmdln_try_discard (cs_reader st) 1\<rparr>"
    | "compile_number cfg c ?st = Inl st'" | "compile_string cfg ?st = Inl st'" | "compile_symbol cfg c ?st = Inl st'"
    using step by (auto simp: syntax_compile_step_def Let_def split: if_splits)
  then show ?thesis
  proof cases
    case 1
    then show ?thesis using one by (simp add: one_slot_each_def)
  next
    case 2
    then show ?thesis
      by (rule compile_number_InlD)
        (erule get_attributes_one_slot, use one in \<open>simp add: one_slot_each_def ln_step_def\<close>)
  next
    case 3
    let ?r = "ln_cmdln_try_discard (cs_reader st) 1"
    have rem: "cmdln_try_remove (cs_reader st) = Some (c, ?r)"
      using peek by (simp add: cmdln_try_remove_def)
    obtain i st1 where st1: "compile_get_string cfg i ch_quote (?st\<lparr>cs_reader := ?r\<rparr>) = Some st1"
      and lt: "so_out_cnt (cs_io st) + i < SYN_MAX_LENGTH"
      and st': "cs_io st' = cs_io st1" "cs_generated st' = cs_generated st1"
      using 3 rem by (auto simp: compile_string_def Let_def not_le split: option.splits if_splits)
    have "so_out_cnt (cs_io st1) = so_out_cnt (cs_io st) + i \<and> cs_generated st1 = cs_generated st + of_nat i \<and>
        length (so_out (cs_io st1)) = length (so_out (cs_io st))"
      using compile_get_string_no_fault [of "?st\<lparr>cs_reader := ?r\<rparr>" i cfg ch_quote] st1 lt one
      by (auto simp: one_slot_each_def)
    moreover have "ln_buf (cs_reader st') = ln_buf (cs_reader st)"
      using compile_string_InlD [OF 3, of c] peek by (simp add: ln_progress_def ln_step_def)
    ultimately show ?thesis
      using one lt by (simp add: one_slot_each_def st')
  next
    case 4
    then show ?thesis
      by (rule compile_symbol_InlD)
        (erule get_attributes_one_slot, use one in \<open>simp add: one_slot_each_def\<close>)
  qed
qed

lemma syntax_compile_loop_no_fault: "one_slot_each st \<Longrightarrow> syntax_compile_loop cfg st \<noteq> Compile_Fault"
proof (induction cfg st rule: syntax_compile_loop.induct)
  case (1 cfg st)
  have "syntax_compile_step cfg c st \<noteq> Inr Compile_Fault" for c
    using 1(2) by (intro syntax_compile_step_no_fault) (auto simp: one_slot_each_def)
  then show ?case
    using 1 by (subst syntax_compile_loop.simps)
      (auto split: option.splits sum.splits intro: syntax_compile_step_one_slot)
qed

subsection \<open>Properties\<close>

text \<open>C5: a line that compiles has been read to its end; the program fits the array, uses fewer than
  1024 result slots (counted modulo 2 to the 32, as the code does), the result slots are empty,
  and every instruction is well-formed: a known command, the mode's word size and a count of one
  where no attribute was given, and a pin command names one of the eight IO pins, which is free
  unless the command only measures it.\<close>

theorem syntax_compile_sound:
  assumes "syntax_compile cfg r = Compiled io r'"
  shows "io_ok io \<and> so_out_cnt io \<le> SYN_MAX_LENGTH \<and> so_in_cnt io = 0 \<and>
    so_in io = replicate SYN_MAX_LENGTH bytecode_empty \<and>
    (\<forall>b \<in> set (io_program io). instr_ok cfg b) \<and>
    sum_list (map slots_of (io_program io)) < 1024 \<and>
    ln_cmdln_try_peek r' 0 = None"
  using syntax_compile_loop_inv [OF assms [unfolded syntax_compile_def] compile_inv_start]
  by (auto simp: compile_start_def compile_inv_def io_ok_def io_program_def)

text \<open>A line without a colon (no repeat counts) never makes the compiler access the
  instruction array outside of its bounds, whatever else is in the line.\<close>

theorem syntax_compile_no_fault:
  assumes "ch_colon \<notin> set (ln_buf r)"
  shows "syntax_compile cfg r \<noteq> Compile_Fault"
  unfolding syntax_compile_def
  by (rule syntax_compile_loop_no_fault) (use assms in \<open>simp add: one_slot_each_def compile_start_def io_reset_def\<close>)

theorem syntax_compile_no_fault_witness:
  "syntax_compile system_init (ln_at [] [ch_lbracket, ch_0, ch_x, ch_rbracket]) \<noteq> Compile_Fault"
  using syntax_compile_no_fault [of "ln_at [] [ch_lbracket, ch_0, ch_x, ch_rbracket]" system_init] by simp

end
