(* ===== verification/Syntax_Run.thy ===== *)
theory Syntax_Run
  imports Syntax_Compile
begin

text \<open>
  Phase two of the syntax engine, \<^verbatim>\<open>src/syntax_run.c\<close>: the bytecode in \<open>syntax_io.out\<close> is
  executed and the results are collected in \<open>syntax_io.in\<close>.

  \<open>mo\<close> is \<open>modes[system_config.mode]\<close>, the handlers of the current mode. A handler gets the
  result slot and the world; an access to \<open>in[]\<close> or \<open>out[]\<close> outside of the arrays is \<open>None\<close>,
  for \<open>syntax_run\<close> as a whole \<open>Run_Fault\<close>. The check \<open>in_cnt + repeat >= SYN_MAX_LENGTH\<close> is
  an addition of 32-bit words, as in the code.
\<close>

datatype run_result = Ran syntax_status syntax_io world | Run_Fault

type_synonym run_step = "(syntax_io \<times> world) option"

definition update_in :: "(bytecode \<Rightarrow> bytecode) \<Rightarrow> syntax_io \<Rightarrow> syntax_io option" where
  "update_in f io =
     (if so_in_cnt io < length (so_in io)
      then Some (io\<lparr>so_in := (so_in io)[so_in_cnt io := f (so_in io ! so_in_cnt io)]\<rparr>)
      else None)"

definition call_handler :: "handler \<Rightarrow> bytecode option \<Rightarrow> syntax_io \<Rightarrow> world \<Rightarrow> run_step" where
  "call_handler h nxt io w =
     (if so_in_cnt io < length (so_in io)
      then case h (so_in io ! so_in_cnt io) nxt w of
             (b, w') \<Rightarrow> Some (io\<lparr>so_in := (so_in io)[so_in_cnt io := b]\<rparr>, w')
      else None)"

definition slots_error :: "syntax_io \<Rightarrow> syntax_io option" where
  "slots_error io = update_in (\<lambda>b. b\<lparr>bc_error_message := Some ''T_SYNTAX_EXCEEDS_MAX_SLOTS'', bc_error := SERR_ERROR\<rparr>) io"

subsection \<open>Handlers\<close>

text \<open>The bodies of the two repeat loops for \<open>j = repeat - n, \<dots>\<close>; \<open>first\<close> is \<open>j = 0\<close>.\<close>

definition next_slot :: "bytecode \<Rightarrow> bool \<Rightarrow> syntax_io \<Rightarrow> syntax_io option" where
  "next_slot b first io =
     (if first then Some io else update_in (\<lambda>_. b) (io\<lparr>so_in_cnt := so_in_cnt io + 1\<rparr>))"

fun run_write_loop :: "mode_ops \<Rightarrow> bytecode \<Rightarrow> nat \<Rightarrow> bool \<Rightarrow> syntax_io \<Rightarrow> world \<Rightarrow> run_step" where
  "run_write_loop mo b 0 first io w = Some (io, w)"
| "run_write_loop mo b (Suc n) first io w =
     (case next_slot b first io of
        None \<Rightarrow> None
      | Some io1 \<Rightarrow> (case call_handler (protocol_write mo) None io1 w of
          None \<Rightarrow> None
        | Some (io2, w2) \<Rightarrow> run_write_loop mo b n False io2 w2))"

definition syntax_run_write :: "mode_ops \<Rightarrow> syntax_io \<Rightarrow> nat \<Rightarrow> world \<Rightarrow> run_step" where
  "syntax_run_write mo io pos w =
     (let b = so_out io ! pos in
      if (1024 :: u32) \<le> of_nat (so_in_cnt io) + bc_repeat b then map_option (\<lambda>io'. (io', w)) (slots_error io)
      else run_write_loop mo b (unat (bc_repeat b)) True io w)"

fun run_read_loop ::
  "mode_ops \<Rightarrow> bytecode \<Rightarrow> bytecode option \<Rightarrow> nat \<Rightarrow> bool \<Rightarrow> syntax_io \<Rightarrow> world \<Rightarrow> run_step" where
  "run_read_loop mo b nxt 0 first io w = Some (io, w)"
| "run_read_loop mo b nxt (Suc n) first io w =
     (case next_slot b first io of
        None \<Rightarrow> None
      | Some io1 \<Rightarrow> (case call_handler (protocol_read mo) (if n = 0 then nxt else None) io1 w of
          None \<Rightarrow> None
        | Some (io2, w2) \<Rightarrow> run_read_loop mo b nxt n False io2 w2))"

text \<open>The bound check reads the repeat count of \<open>out[0]\<close> (\<open>io->out->repeat\<close>).\<close>

definition syntax_run_read :: "mode_ops \<Rightarrow> syntax_io \<Rightarrow> nat \<Rightarrow> world \<Rightarrow> run_step" where
  "syntax_run_read mo io pos w =
     (let b = so_out io ! pos in
      if (1024 :: u32) \<le> of_nat (so_in_cnt io) + bc_repeat (so_out io ! 0)
      then map_option (\<lambda>io'. (io', w)) (slots_error io)
      else run_read_loop mo b (if pos + 1 < so_out_cnt io then Some (so_out io ! (pos + 1)) else None)
             (unat (bc_repeat b)) True io w)"

definition syntax_run_delay_us :: "syntax_io \<Rightarrow> nat \<Rightarrow> world \<Rightarrow> run_step" where
  "syntax_run_delay_us io pos w = Some (io, hw_do [BusyWaitUs (bc_repeat (so_out io ! pos))] w)"

definition syntax_run_delay_ms :: "syntax_io \<Rightarrow> nat \<Rightarrow> world \<Rightarrow> run_step" where
  "syntax_run_delay_ms io pos w = Some (io, hw_do [BusyWaitMs (bc_repeat (so_out io ! pos))] w)"

definition syntax_run_aux_output :: "u8 \<Rightarrow> bool \<Rightarrow> world \<Rightarrow> world" where
  "syntax_run_aux_output bio direction w =
     (let w1 = bio_put (unat bio) direction (bio_output (unat bio) w);
          w2 = with_config (system_bio_update_purpose_and_label True (unat bio) BP_PIN_IO
                 (Some (if direction then ''AUXH'' else ''AUXL''))) w1
      in with_config (\<lambda>c. c\<lparr>sc_aux_active := system_set_active c True (unat bio) (sc_aux_active c)\<rparr>) w2)"

definition syntax_run_aux_output_high :: "syntax_io \<Rightarrow> nat \<Rightarrow> world \<Rightarrow> run_step" where
  "syntax_run_aux_output_high io pos w = Some (io, syntax_run_aux_output (ucast (bc_bits (so_out io ! pos))) True w)"

definition syntax_run_aux_output_low :: "syntax_io \<Rightarrow> nat \<Rightarrow> world \<Rightarrow> run_step" where
  "syntax_run_aux_output_low io pos w = Some (io, syntax_run_aux_output (ucast (bc_bits (so_out io ! pos))) False w)"

definition syntax_run_aux_input :: "syntax_io \<Rightarrow> nat \<Rightarrow> world \<Rightarrow> run_step" where
  "syntax_run_aux_input io pos w =
     (let bio = unat (ucast (bc_bits (so_out io ! pos)) :: u8); w1 = bio_input bio w in
      map_option (\<lambda>io'. (io', with_config (\<lambda>c. c\<lparr>sc_aux_active := system_set_active c False bio (sc_aux_active c)\<rparr>)
          (with_config (system_bio_update_purpose_and_label False bio BP_PIN_IO None) w1)))
        (update_in (\<lambda>b. b\<lparr>bc_in_data := of_bool (bio_get w1 bio)\<rparr>) io))"

definition syntax_run_adc :: "syntax_io \<Rightarrow> nat \<Rightarrow> world \<Rightarrow> run_step" where
  "syntax_run_adc io pos w =
     (case amux_read_bio (unat (ucast (bc_bits (so_out io ! pos)) :: u8)) w of
        (v, w') \<Rightarrow> map_option (\<lambda>io'. (io', w')) (update_in (\<lambda>b. b\<lparr>bc_in_data := v\<rparr>) io))"

fun run_repeat :: "handler \<Rightarrow> nat \<Rightarrow> syntax_io \<Rightarrow> world \<Rightarrow> run_step" where
  "run_repeat h 0 io w = Some (io, w)"
| "run_repeat h (Suc n) io w =
     (case call_handler h None io w of None \<Rightarrow> None | Some (io', w') \<Rightarrow> run_repeat h n io' w')"

definition syntax_run_tick_clock :: "mode_ops \<Rightarrow> syntax_io \<Rightarrow> nat \<Rightarrow> world \<Rightarrow> run_step" where
  "syntax_run_tick_clock mo io pos w = run_repeat (protocol_tick_clock mo) (unat (bc_repeat (so_out io ! pos))) io w"

definition syntax_run_read_dat :: "mode_ops \<Rightarrow> syntax_io \<Rightarrow> nat \<Rightarrow> world \<Rightarrow> run_step" where
  "syntax_run_read_dat mo io pos w = run_repeat (protocol_bitr mo) (unat (bc_repeat (so_out io ! pos))) io w"

text \<open>The remaining handlers call one protocol function: \<open>syntax_run_start\<close>, \<open>_start_alt\<close>, \<open>_stop\<close>,
  \<open>_stop_alt\<close>, \<open>_set_clk_high\<close>, \<open>_set_clk_low\<close>, \<open>_set_dat_high\<close>, \<open>_set_dat_low\<close>.\<close>

definition syntax_run_protocol :: "handler \<Rightarrow> syntax_io \<Rightarrow> world \<Rightarrow> run_step" where
  "syntax_run_protocol h io w = call_handler h None io w"

subsection \<open>Dispatch and the main loop\<close>

definition syntax_run_func :: "mode_ops \<Rightarrow> u8 \<Rightarrow> syntax_io \<Rightarrow> nat \<Rightarrow> world \<Rightarrow> run_step" where
  "syntax_run_func mo command io pos w =
     (if command = SYN_WRITE then syntax_run_write mo io pos w
      else if command = SYN_READ then syntax_run_read mo io pos w
      else if command = SYN_START then syntax_run_protocol (protocol_start mo) io w
      else if command = SYN_START_ALT then syntax_run_protocol (protocol_start_alt mo) io w
      else if command = SYN_STOP then syntax_run_protocol (protocol_stop mo) io w
      else if command = SYN_STOP_ALT then syntax_run_protocol (protocol_stop_alt mo) io w
      else if command = SYN_DELAY_US then syntax_run_delay_us io pos w
      else if command = SYN_DELAY_MS then syntax_run_delay_ms io pos w
      else if command = SYN_AUX_OUTPUT_HIGH then syntax_run_aux_output_high io pos w
      else if command = SYN_AUX_OUTPUT_LOW then syntax_run_aux_output_low io pos w
      else if command = SYN_AUX_INPUT then syntax_run_aux_input io pos w
      else if command = SYN_ADC then syntax_run_adc io pos w
      else if command = SYN_TICK_CLOCK then syntax_run_tick_clock mo io pos w
      else if command = SYN_SET_CLK_HIGH then syntax_run_protocol (protocol_clkh mo) io w
      else if command = SYN_SET_CLK_LOW then syntax_run_protocol (protocol_clkl mo) io w
      else if command = SYN_SET_DAT_HIGH then syntax_run_protocol (protocol_dath mo) io w
      else if command = SYN_SET_DAT_LOW then syntax_run_protocol (protocol_datl mo) io w
      else syntax_run_read_dat mo io pos w)"

text \<open>The loop from \<open>pos = out_cnt - n\<close> on.\<close>

fun syntax_run_loop :: "mode_ops \<Rightarrow> nat \<Rightarrow> nat \<Rightarrow> syntax_io \<Rightarrow> world \<Rightarrow> run_result" where
  "syntax_run_loop mo 0 pos io w = Ran SSTATUS_OK io w"
| "syntax_run_loop mo (Suc n) pos io w =
     (if length (so_out io) \<le> pos then Run_Fault
      else case update_in (\<lambda>_. so_out io ! pos) io of
        None \<Rightarrow> Run_Fault
      | Some io1 \<Rightarrow>
          let command = bc_command (so_out io1 ! pos) in
          if 18 \<le> command
          then Ran SSTATUS_ERROR io1 (term_out [TText ''Unknown internal code '', TInt (uint command), TText crlf] w)
          else case syntax_run_func mo command io1 pos w of
            None \<Rightarrow> Run_Fault
          | Some (io2, w2) \<Rightarrow>
              if SYN_MAX_LENGTH \<le> so_in_cnt io2 + 1
              then (case slots_error io2 of None \<Rightarrow> Run_Fault | Some io3 \<Rightarrow> Ran SSTATUS_OK io3 w2)
              else let io3 = io2\<lparr>so_in_cnt := so_in_cnt io2 + 1\<rparr> in
                   if SERR_ERROR \<le> bc_error (so_in io2 ! so_in_cnt io2) then Ran SSTATUS_OK io3 w2
                   else syntax_run_loop mo n (pos + 1) io3 w2)"

definition syntax_run :: "mode_ops \<Rightarrow> syntax_io \<Rightarrow> world \<Rightarrow> run_result" where
  "syntax_run mo io w =
     (if so_out_cnt io = 0 then Ran SSTATUS_ERROR io w
      else syntax_run_loop mo (so_out_cnt io) 0 (io\<lparr>so_in_cnt := 0\<rparr>) w)"

subsection \<open>The contract of a mode\<close>

text \<open>The interface between the syntax engine and a mode: a handler leaves the instruction in the
  result slot alone and only fills in data, messages and error.\<close>

definition handler_ok :: "handler \<Rightarrow> bool" where
  "handler_ok h \<longleftrightarrow> (\<forall>b nxt w. same_instruction (fst (h b nxt w)) b)"

locale protocol_mode =
  fixes mo :: mode_ops
  assumes start_ok: "handler_ok (protocol_start mo)" "handler_ok (protocol_start_alt mo)"
    and stop_ok: "handler_ok (protocol_stop mo)" "handler_ok (protocol_stop_alt mo)"
    and write_ok: "handler_ok (protocol_write mo)" and read_ok: "handler_ok (protocol_read mo)"
    and clk_ok: "handler_ok (protocol_clkh mo)" "handler_ok (protocol_clkl mo)" "handler_ok (protocol_tick_clock mo)"
    and dat_ok: "handler_ok (protocol_dath mo)" "handler_ok (protocol_datl mo)" "handler_ok (protocol_bitr mo)"

text \<open>The result slots of an instruction: writes and reads take one per repetition, at least one.\<close>

definition expand :: "bytecode \<Rightarrow> bytecode list" where
  "expand b = replicate (if bc_command b = SYN_WRITE \<or> bc_command b = SYN_READ
                         then max 1 (unat (bc_repeat b)) else 1) b"

lemma length_expand_pos [simp]: "0 < length (expand b)"
  by (simp add: expand_def less_max_iff_disj)

text \<open>
  Executing \<open>b\<close>, whose copy is in the current slot: the program stays, the earlier results stay,
  the new ones belong to \<open>b\<close>, and unless the last has an error there are as many as \<open>b\<close> asks for.
\<close>

definition run_adds :: "bytecode \<Rightarrow> syntax_io \<Rightarrow> syntax_io \<Rightarrow> bool" where
  "run_adds b io io' \<longleftrightarrow> so_out io' = so_out io \<and> so_out_cnt io' = so_out_cnt io \<and>
     length (so_in io') = length (so_in io) \<and>
     so_in_cnt io \<le> so_in_cnt io' \<and> so_in_cnt io' < so_in_cnt io + length (expand b) \<and>
     (\<forall>i < so_in_cnt io. so_in io' ! i = so_in io ! i) \<and>
     (\<forall>i. so_in_cnt io \<le> i \<and> i \<le> so_in_cnt io' \<longrightarrow> same_instruction (so_in io' ! i) b) \<and>
     (so_in_cnt io' + 1 = so_in_cnt io + length (expand b) \<or>
      SERR_ERROR \<le> bc_error (so_in io' ! so_in_cnt io'))"

lemma call_handler_SomeD:
  assumes "call_handler h nxt io w = Some (io', w')" and "handler_ok h"
  shows "so_in_cnt io < length (so_in io) \<and> (\<exists>b. io' = io\<lparr>so_in := (so_in io)[so_in_cnt io := b]\<rparr> \<and>
    same_instruction b (so_in io ! so_in_cnt io))"
  using assms unfolding call_handler_def handler_ok_def
  by (auto split: if_splits prod.splits) (metis fst_conv)

lemma call_handler_defined:
  "so_in_cnt io < length (so_in io) \<Longrightarrow> \<exists>io' w'. call_handler h nxt io w = Some (io', w')"
  by (simp add: call_handler_def split: prod.split)

text \<open>One call of a handler on the current slot.\<close>

lemma call_handler_adds:
  assumes "so_in_cnt io < length (so_in io)" and "same_instruction (so_in io ! so_in_cnt io) b" and "handler_ok h"
    and "bc_command b \<noteq> SYN_WRITE" and "bc_command b \<noteq> SYN_READ"
  shows "\<exists>io' w'. call_handler h nxt io w = Some (io', w') \<and> run_adds b io io'"
proof -
  obtain io' w' where call: "call_handler h nxt io w = Some (io', w')"
    using call_handler_defined [OF assms(1)] by blast
  obtain b' where "io' = io\<lparr>so_in := (so_in io)[so_in_cnt io := b']\<rparr>" and "same_instruction b' (so_in io ! so_in_cnt io)"
    using call_handler_SomeD [OF call assms(3)] by blast
  then have "run_adds b io io'"
    using assms by (auto simp: run_adds_def expand_def dest: same_instruction_trans)
  then show ?thesis using call by blast
qed

lemma run_repeat_adds:
  assumes "so_in_cnt io < length (so_in io)" and "same_instruction (so_in io ! so_in_cnt io) b" and "handler_ok h"
    and "bc_command b \<noteq> SYN_WRITE" and "bc_command b \<noteq> SYN_READ"
  shows "\<exists>io' w'. run_repeat h n io w = Some (io', w') \<and> run_adds b io io'"
  using assms(1,2)
proof (induction n arbitrary: io w)
  case 0
  then show ?case using assms(4,5) by (auto simp: run_adds_def expand_def)
next
  case (Suc n)
  obtain io1 w1 where call: "call_handler h None io w = Some (io1, w1)" and adds: "run_adds b io io1"
    using call_handler_adds [OF Suc.prems assms(3-5)] by blast
  have cnt: "so_in_cnt io1 = so_in_cnt io"
    using call_handler_SomeD [OF call assms(3)] by auto
  then obtain io2 w2 where "run_repeat h n io1 w1 = Some (io2, w2)" and adds2: "run_adds b io1 io2"
    using Suc.IH [of io1 w1] Suc.prems adds by (auto simp: run_adds_def)
  then show ?case
    using call adds adds2 cnt by (intro exI [of _ io2] exI [of _ w2]) (auto simp: run_adds_def)
qed

text \<open>The slots written by a repeat loop: \<open>k\<close> is the first, \<open>so_in_cnt\<close> the current one.\<close>

definition loop_inv :: "bytecode \<Rightarrow> syntax_io \<Rightarrow> syntax_io \<Rightarrow> bool" where
  "loop_inv b io0 io \<longleftrightarrow> so_out io = so_out io0 \<and> so_out_cnt io = so_out_cnt io0 \<and>
     length (so_in io) = length (so_in io0) \<and> so_in_cnt io0 \<le> so_in_cnt io \<and>
     (\<forall>i < so_in_cnt io0. so_in io ! i = so_in io0 ! i) \<and>
     (\<forall>i. so_in_cnt io0 \<le> i \<and> i \<le> so_in_cnt io \<longrightarrow> same_instruction (so_in io ! i) b)"

lemma loop_inv_call:
  assumes "loop_inv b io0 io" and "call_handler h nxt io w = Some (io', w')" and "handler_ok h"
  shows "loop_inv b io0 io' \<and> so_in_cnt io' = so_in_cnt io"
proof -
  obtain b' where io': "io' = io\<lparr>so_in := (so_in io)[so_in_cnt io := b']\<rparr>" and lt: "so_in_cnt io < length (so_in io)"
    and same: "same_instruction b' (so_in io ! so_in_cnt io)"
    using call_handler_SomeD [OF assms(2,3)] by blast
  have "same_instruction b' b"
    using assms(1) same by (auto simp: loop_inv_def intro: same_instruction_trans)
  then show ?thesis
    using assms(1) lt by (auto simp: loop_inv_def io' nth_list_update)
qed

lemma loop_inv_next:
  assumes "loop_inv b io0 io" and "so_in_cnt io + 1 < length (so_in io)"
  shows "\<exists>io'. next_slot b False io = Some io' \<and> loop_inv b io0 io' \<and> so_in_cnt io' = so_in_cnt io + 1"
  using assms by (auto simp: next_slot_def update_in_def loop_inv_def nth_list_update le_Suc_eq)

text \<open>The two repeat loops are instances of one: a call of \<open>h\<close> per slot.\<close>

lemma next_slot_first:
  assumes "loop_inv b io0 io" and "so_in_cnt io < length (so_in io)"
    and "\<not> first \<Longrightarrow> so_in_cnt io + 1 < length (so_in io)"
  shows "\<exists>io'. next_slot b first io = Some io' \<and> loop_inv b io0 io' \<and>
    so_in_cnt io' = so_in_cnt io + (if first then 0 else 1) \<and> so_in_cnt io' < length (so_in io')"
proof (cases first)
  case True
  then show ?thesis using assms by (simp add: next_slot_def)
next
  case False
  then show ?thesis
    using loop_inv_next [OF assms(1) assms(3)] assms by (auto simp: loop_inv_def)
qed

lemma run_write_loop_inv:
  assumes "handler_ok (protocol_write mo)" and "loop_inv b io0 io" and "so_in_cnt io < length (so_in io)"
    and "so_in_cnt io + n < length (so_in io) + (if first then 1 else 0)"
  shows "\<exists>io' w'. run_write_loop mo b n first io w = Some (io', w') \<and> loop_inv b io0 io' \<and>
    so_in_cnt io' = so_in_cnt io + (if first then n - 1 else n)"
  using assms(2-4)
proof (induction n arbitrary: first io w)
  case (Suc n)
  obtain io1 where io1: "next_slot b first io = Some io1" "loop_inv b io0 io1"
    "so_in_cnt io1 = so_in_cnt io + (if first then 0 else 1)" "so_in_cnt io1 < length (so_in io1)"
    using next_slot_first [of b io0 io first] Suc.prems by (auto split: if_splits)
  obtain io2 w2 where call: "call_handler (protocol_write mo) None io1 w = Some (io2, w2)"
    using call_handler_defined [OF io1(4)] by blast
  have inv2: "loop_inv b io0 io2" "so_in_cnt io2 = so_in_cnt io1"
    using loop_inv_call [OF io1(2) call assms(1)] by auto
  have len: "length (so_in io2) = length (so_in io)"
    using inv2(1) Suc.prems(1) by (simp add: loop_inv_def)
  have "\<exists>io' w'. run_write_loop mo b n False io2 w2 = Some (io', w') \<and> loop_inv b io0 io' \<and>
      so_in_cnt io' = so_in_cnt io2 + (if False then n - 1 else n)"
    using inv2 io1 len Suc.prems by (intro Suc.IH) (auto split: if_splits)
  then show ?case
    using io1 call inv2 by (auto split: if_splits)
qed simp

lemma run_read_loop_inv:
  assumes "handler_ok (protocol_read mo)" and "loop_inv b io0 io" and "so_in_cnt io < length (so_in io)"
    and "so_in_cnt io + n < length (so_in io) + (if first then 1 else 0)"
  shows "\<exists>io' w'. run_read_loop mo b nxt n first io w = Some (io', w') \<and> loop_inv b io0 io' \<and>
    so_in_cnt io' = so_in_cnt io + (if first then n - 1 else n)"
  using assms(2-4)
proof (induction n arbitrary: first io w)
  case (Suc n)
  obtain io1 where io1: "next_slot b first io = Some io1" "loop_inv b io0 io1"
    "so_in_cnt io1 = so_in_cnt io + (if first then 0 else 1)" "so_in_cnt io1 < length (so_in io1)"
    using next_slot_first [of b io0 io first] Suc.prems by (auto split: if_splits)
  obtain io2 w2 where call: "call_handler (protocol_read mo) (if n = 0 then nxt else None) io1 w = Some (io2, w2)"
    using call_handler_defined [OF io1(4)] by blast
  have inv2: "loop_inv b io0 io2" "so_in_cnt io2 = so_in_cnt io1"
    using loop_inv_call [OF io1(2) call assms(1)] by auto
  have len: "length (so_in io2) = length (so_in io)"
    using inv2(1) Suc.prems(1) by (simp add: loop_inv_def)
  have "\<exists>io' w'. run_read_loop mo b nxt n False io2 w2 = Some (io', w') \<and> loop_inv b io0 io' \<and>
      so_in_cnt io' = so_in_cnt io2 + (if False then n - 1 else n)"
    using inv2 io1 len Suc.prems by (intro Suc.IH) (auto split: if_splits)
  then show ?case
    using io1 call inv2 by (auto split: if_splits)
qed simp

lemma loop_inv_start:
  "same_instruction (so_in io ! so_in_cnt io) b \<Longrightarrow> loop_inv b io io"
  by (auto simp: loop_inv_def)

lemma loop_inv_adds:
  assumes "loop_inv b io io'" and "so_in_cnt io' + 1 = so_in_cnt io + length (expand b)"
  shows "run_adds b io io'"
  using assms by (auto simp: loop_inv_def run_adds_def)

lemma slots_error_adds:
  assumes "so_in_cnt io < length (so_in io)" and "same_instruction (so_in io ! so_in_cnt io) b"
  shows "\<exists>io'. slots_error io = Some io' \<and> run_adds b io io'"
  using assms length_expand_pos [of b]
  by (auto simp: slots_error_def update_in_def run_adds_def simp del: length_expand_pos dest: le_antisym)

lemma expand_length_rw:
  "bc_command b = SYN_WRITE \<or> bc_command b = SYN_READ \<Longrightarrow> length (expand b) = max 1 (unat (bc_repeat b))"
  by (auto simp: expand_def)

lemma no_slot_wrap:
  assumes "k + unat r < 1024"
  shows "\<not> (1024 :: u32) \<le> of_nat k + r"
proof -
  have "of_nat k + r = of_nat (k + unat r)" by simp
  moreover have "(of_nat (k + unat r) :: u32) < 1024"
    using assms of_nat_lt_1024 [of "k + unat r"] by simp
  ultimately show ?thesis by (simp add: not_le)
qed

lemma syntax_run_write_adds:
  assumes "handler_ok (protocol_write mo)" and "so_in_cnt io < length (so_in io)"
    and "same_instruction (so_in io ! so_in_cnt io) b" and "so_out io ! pos = b" and "bc_command b = SYN_WRITE"
    and "length (so_in io) = SYN_MAX_LENGTH"
  shows "so_in_cnt io + length (expand b) < SYN_MAX_LENGTH \<Longrightarrow>
    \<exists>io' w'. syntax_run_write mo io pos w = Some (io', w') \<and> run_adds b io io'"
proof -
  assume fits: "so_in_cnt io + length (expand b) < SYN_MAX_LENGTH"
  then have lt: "so_in_cnt io + unat (bc_repeat b) < SYN_MAX_LENGTH"
    using assms(5) by (simp add: expand_length_rw)
  obtain io' w' where run: "run_write_loop mo b (unat (bc_repeat b)) True io w = Some (io', w')"
    and inv: "loop_inv b io io'" "so_in_cnt io' = so_in_cnt io + (unat (bc_repeat b) - 1)"
    using run_write_loop_inv [OF assms(1) loop_inv_start [OF assms(3)] assms(2), of "unat (bc_repeat b)" True w] lt assms(6)
    by auto
  have "run_adds b io io'"
    using assms(5) inv by (intro loop_inv_adds) (auto simp: expand_length_rw)
  moreover have "\<not> (1024 :: u32) \<le> of_nat (so_in_cnt io) + bc_repeat b"
    using lt by (intro no_slot_wrap) simp
  ultimately show ?thesis
    using run by (simp add: syntax_run_write_def Let_def assms(4))
qed

lemma syntax_run_read_adds:
  assumes "handler_ok (protocol_read mo)" and "so_in_cnt io < length (so_in io)"
    and "same_instruction (so_in io ! so_in_cnt io) b" and "so_out io ! pos = b" and "bc_command b = SYN_READ"
    and "length (so_in io) = SYN_MAX_LENGTH"
  shows "so_in_cnt io + length (expand b) < SYN_MAX_LENGTH \<Longrightarrow>
    \<exists>io' w'. syntax_run_read mo io pos w = Some (io', w') \<and> run_adds b io io'"
proof -
  assume fits: "so_in_cnt io + length (expand b) < SYN_MAX_LENGTH"
  then have lt: "so_in_cnt io + unat (bc_repeat b) < SYN_MAX_LENGTH"
    using assms(5) by (simp add: expand_length_rw)
  let ?nxt = "if pos + 1 < so_out_cnt io then Some (so_out io ! (pos + 1)) else None"
  obtain io' w' where run: "run_read_loop mo b ?nxt (unat (bc_repeat b)) True io w = Some (io', w')"
    and inv: "loop_inv b io io'" "so_in_cnt io' = so_in_cnt io + (unat (bc_repeat b) - 1)"
    using run_read_loop_inv [OF assms(1) loop_inv_start [OF assms(3)] assms(2), of "unat (bc_repeat b)" True ?nxt w] lt assms(6)
    by auto
  have "run_adds b io io'"
    using assms(5) inv by (intro loop_inv_adds) (auto simp: expand_length_rw)
  then show ?thesis
    using run slots_error_adds [OF assms(2,3)] by (auto simp: syntax_run_read_def Let_def assms(4))
qed

lemma if_cases: "P (a :: 'a option) \<Longrightarrow> P b \<Longrightarrow> P (if c then a else b)"
  by simp

lemma run_adds_update:
  assumes "so_in_cnt io < length (so_in io)" and "same_instruction (so_in io ! so_in_cnt io) b"
    and "bc_command b \<noteq> SYN_WRITE" and "bc_command b \<noteq> SYN_READ"
  shows "\<exists>io'. update_in (\<lambda>x. x\<lparr>bc_in_data := v\<rparr>) io = Some io' \<and> run_adds b io io'" and "run_adds b io io"
  using assms by (auto simp: update_in_def run_adds_def expand_def dest: le_antisym)

text \<open>A transition of the run loop over one instruction, over lists: the program and the results.\<close>

definition results :: "syntax_io \<Rightarrow> bytecode list" where
  "results io = take (so_in_cnt io) (so_in io)"

context protocol_mode
begin

lemma func_adds:
  assumes "so_in_cnt io < length (so_in io)" and "so_in io ! so_in_cnt io = b" and "so_out io ! pos = b"
    and "length (so_in io) = SYN_MAX_LENGTH" and "so_in_cnt io + length (expand b) < SYN_MAX_LENGTH"
  shows "\<exists>io' w'. syntax_run_func mo (bc_command b) io pos w = Some (io', w') \<and> run_adds b io io'"
proof -
  have same: "same_instruction (so_in io ! so_in_cnt io) b" using assms(2) by simp
  consider "bc_command b = SYN_WRITE" | "bc_command b = SYN_READ"
    | "bc_command b \<noteq> SYN_WRITE" "bc_command b \<noteq> SYN_READ" by blast
  then show ?thesis
  proof cases
    case 1
    then show ?thesis
      using syntax_run_write_adds [OF write_ok assms(1) same assms(3) 1 assms(4,5)]
      by (simp add: syntax_run_func_def)
  next
    case 2
    then show ?thesis
      using syntax_run_read_adds [OF read_ok assms(1) same assms(3) 2 assms(4,5)]
      by (simp add: syntax_run_func_def)
  next
    case 3
    note call = call_handler_adds [OF assms(1) same _ 3]
    note rep = run_repeat_adds [OF assms(1) same _ 3]
    have call': "handler_ok h \<Longrightarrow> \<exists>io' w'. syntax_run_protocol h io w = Some (io', w') \<and> run_adds b io io'" for h
      unfolding syntax_run_protocol_def by (rule call)
    have simple:
      "\<exists>io' w'. syntax_run_delay_us io pos w = Some (io', w') \<and> run_adds b io io'"
      "\<exists>io' w'. syntax_run_delay_ms io pos w = Some (io', w') \<and> run_adds b io io'"
      "\<exists>io' w'. syntax_run_aux_output_high io pos w = Some (io', w') \<and> run_adds b io io'"
      "\<exists>io' w'. syntax_run_aux_output_low io pos w = Some (io', w') \<and> run_adds b io io'"
      using run_adds_update(2) [OF assms(1) same 3]
      by (simp_all add: syntax_run_delay_us_def syntax_run_delay_ms_def
          syntax_run_aux_output_high_def syntax_run_aux_output_low_def)
    have data:
      "\<exists>io' w'. syntax_run_aux_input io pos w = Some (io', w') \<and> run_adds b io io'"
      "\<exists>io' w'. syntax_run_adc io pos w = Some (io', w') \<and> run_adds b io io'"
      using run_adds_update(1) [OF assms(1) same 3]
      by (auto simp: syntax_run_aux_input_def syntax_run_adc_def Let_def split: prod.split)
    have loops:
      "\<exists>io' w'. syntax_run_tick_clock mo io pos w = Some (io', w') \<and> run_adds b io io'"
      "\<exists>io' w'. syntax_run_read_dat mo io pos w = Some (io', w') \<and> run_adds b io io'"
      unfolding syntax_run_tick_clock_def syntax_run_read_dat_def by (intro rep clk_ok dat_ok)+
    show ?thesis
      unfolding syntax_run_func_def
      unfolding eq_False [THEN iffD2, OF 3(1)] eq_False [THEN iffD2, OF 3(2)] if_False
      by (intro if_cases [where P = "\<lambda>x. \<exists>io' w'. x = Some (io', w') \<and> run_adds b io io'"]
          simple data loops call' start_ok stop_ok clk_ok dat_ok)
  qed
qed

end

definition expansion :: "bytecode list \<Rightarrow> bytecode list" where
  "expansion prog = concat (map expand prog)"

lemma expansion_append [simp]: "expansion (xs @ ys) = expansion xs @ expansion ys"
  by (simp add: expansion_def)

lemma expansion_take_Suc:
  "pos < length prog \<Longrightarrow> expansion (take (Suc pos) prog) = expansion (take pos prog) @ expand (prog ! pos)"
  by (simp add: take_Suc_nth expansion_def)

lemma expansion_take_prefix: "expansion prog = expansion (take k prog) @ expansion (drop k prog)"
  by (metis append_take_drop_id expansion_append)

text \<open>What a run leaves behind: results for a prefix of the expanded program, all of it or up to an error.\<close>

definition run_done :: "bytecode list \<Rightarrow> syntax_io \<Rightarrow> bool" where
  "run_done prog io \<longleftrightarrow> list_all2 same_instruction (results io) (take (so_in_cnt io) (expansion prog)) \<and>
     so_in_cnt io \<le> length (expansion prog) \<and>
     (so_in_cnt io = length (expansion prog) \<or>
      0 < so_in_cnt io \<and> SERR_ERROR \<le> bc_error (so_in io ! (so_in_cnt io - 1)))"

definition run_inv :: "bytecode list \<Rightarrow> nat \<Rightarrow> syntax_io \<Rightarrow> bool" where
  "run_inv prog pos io \<longleftrightarrow> io_program io = prog \<and> so_out_cnt io = length prog \<and>
     length (so_in io) = SYN_MAX_LENGTH \<and>
     so_in_cnt io = length (expansion (take pos prog)) \<and>
     list_all2 same_instruction (results io) (expansion (take pos prog))"

lemma run_inv_program:
  assumes "run_inv prog pos io" and "pos < length prog"
  shows "pos < length (so_out io)" and "so_out io ! pos = prog ! pos"
  using assms by (auto simp: run_inv_def io_program_def)

lemma results_run_adds:
  assumes adds: "run_adds b io io'" and len: "so_in_cnt io + length (expand b) < length (so_in io)"
  shows "\<exists>ys. take (so_in_cnt io' + 1) (so_in io') = results io @ ys \<and>
    list_all2 same_instruction ys (take (so_in_cnt io' + 1 - so_in_cnt io) (expand b))"
proof -
  let ?k = "so_in_cnt io" and ?m = "so_in_cnt io' + 1 - so_in_cnt io"
  let ?ys = "drop ?k (take (so_in_cnt io' + 1) (so_in io'))"
  have b: "?k \<le> so_in_cnt io'" "so_in_cnt io' < ?k + length (expand b)" "length (so_in io') = length (so_in io)"
    using adds by (auto simp: run_adds_def)
  then have m: "?k + ?m = so_in_cnt io' + 1" "?k + ?m \<le> length (so_in io')" "?m \<le> length (expand b)"
    using len by auto
  have "take ?k (so_in io') = results io"
    using adds b m(2) len by (intro nth_equalityI) (auto simp: results_def run_adds_def)
  then have "take (so_in_cnt io' + 1) (so_in io') = results io @ ?ys"
    using append_take_drop_id [of ?k "take (so_in_cnt io' + 1) (so_in io')"] b(1) by (simp add: min_absorb1)
  moreover have "list_all2 same_instruction ?ys (take ?m (expand b))"
    using adds m by (auto simp: list_all2_conv_all_nth run_adds_def expand_def)
  ultimately show ?thesis by blast
qed

definition start_slot :: "bytecode \<Rightarrow> syntax_io \<Rightarrow> syntax_io" where
  "start_slot b io = io\<lparr>so_in := (so_in io)[so_in_cnt io := b]\<rparr>"

lemma start_slot_room:
  assumes "run_inv prog pos io" and "pos < length prog" and "length (expansion prog) < SYN_MAX_LENGTH"
  shows "so_in_cnt io + length (expand (prog ! pos)) < SYN_MAX_LENGTH"
proof -
  have "expansion prog = expansion (take pos prog) @ expand (prog ! pos) @ expansion (drop (Suc pos) prog)"
    using expansion_take_prefix [of prog "Suc pos"] expansion_take_Suc [OF assms(2)] by simp
  then show ?thesis using assms by (simp add: run_inv_def)
qed

lemma start_slot_facts:
  assumes "run_inv prog pos io" and "pos < length prog" and "length (expansion prog) < SYN_MAX_LENGTH"
  shows "so_in_cnt (start_slot b io) = so_in_cnt io" "so_in_cnt io < length (so_in (start_slot b io))"
    "length (so_in (start_slot b io)) = SYN_MAX_LENGTH" "so_in (start_slot b io) ! so_in_cnt io = b"
    "so_out (start_slot b io) ! pos = prog ! pos" "so_out_cnt (start_slot b io) = so_out_cnt io"
    "results (start_slot b io) = results io" "so_out (start_slot b io) = so_out io"
proof -
  have "length (so_in io) = SYN_MAX_LENGTH" using assms(1) by (simp add: run_inv_def)
  then show "so_in_cnt (start_slot b io) = so_in_cnt io" "so_in_cnt io < length (so_in (start_slot b io))"
    "length (so_in (start_slot b io)) = SYN_MAX_LENGTH" "so_in (start_slot b io) ! so_in_cnt io = b"
    "so_out (start_slot b io) ! pos = prog ! pos" "so_out_cnt (start_slot b io) = so_out_cnt io"
    "results (start_slot b io) = results io" "so_out (start_slot b io) = so_out io"
    using start_slot_room [OF assms] run_inv_program [OF assms(1,2)] by (simp_all add: start_slot_def results_def)
qed

text \<open>One iteration of the loop, given what the handler of its instruction does.\<close>

lemma run_loop_step:
  assumes inv: "run_inv prog pos io" and pos: "pos < length prog" and fits: "length (expansion prog) < SYN_MAX_LENGTH"
    and cmd: "bc_command (prog ! pos) < 18"
    and run: "syntax_run_func mo (bc_command (prog ! pos)) (start_slot (prog ! pos) io) pos w = Some (io2, w2)"
    and adds: "run_adds (prog ! pos) (start_slot (prog ! pos) io) io2"
  defines "io3 \<equiv> io2\<lparr>so_in_cnt := so_in_cnt io2 + 1\<rparr>"
  shows "SERR_ERROR \<le> bc_error (so_in io2 ! so_in_cnt io2) \<Longrightarrow>
      syntax_run_loop mo (Suc n) pos io w = Ran SSTATUS_OK io3 w2 \<and> run_done prog io3 \<and> io_program io3 = prog"
    and "\<not> SERR_ERROR \<le> bc_error (so_in io2 ! so_in_cnt io2) \<Longrightarrow>
      syntax_run_loop mo (Suc n) pos io w = syntax_run_loop mo n (Suc pos) io3 w2 \<and> run_inv prog (Suc pos) io3"
proof -
  let ?b = "prog ! pos"
  note out = run_inv_program [OF inv pos]
  note slot = start_slot_facts [OF inv pos fits, of ?b] start_slot_room [OF inv pos fits]
  have split: "expansion prog = expansion (take pos prog) @ expand ?b @ expansion (drop (Suc pos) prog)"
    using expansion_take_prefix [of prog "Suc pos"] expansion_take_Suc [OF pos] by simp
  have cnt: "so_in_cnt io = length (expansion (take pos prog))" using inv by (simp add: run_inv_def)
  have upd: "update_in (\<lambda>_. ?b) io = Some (start_slot ?b io)"
    using slot by (simp add: update_in_def start_slot_def)
  obtain ys where ys: "take (so_in_cnt io2 + 1) (so_in io2) = results io @ ys"
    "list_all2 same_instruction ys (take (so_in_cnt io2 + 1 - so_in_cnt io) (expand ?b))"
    using results_run_adds [OF adds] slot by auto
  have bounds: "so_in_cnt io \<le> so_in_cnt io2" "so_in_cnt io2 < so_in_cnt io + length (expand ?b)"
    "so_out io2 = so_out io" "so_out_cnt io2 = so_out_cnt io" "length (so_in io2) = SYN_MAX_LENGTH"
    "so_in_cnt io2 + 1 = so_in_cnt io + length (expand ?b) \<or> SERR_ERROR \<le> bc_error (so_in io2 ! so_in_cnt io2)"
    using adds slot by (auto simp: run_adds_def)
  have res3: "list_all2 same_instruction (results io3) (expansion (take pos prog) @ take (so_in_cnt io3 - so_in_cnt io) (expand ?b))"
  proof -
    have "list_all2 same_instruction (results io @ ys)
        (expansion (take pos prog) @ take (so_in_cnt io3 - so_in_cnt io) (expand ?b))"
      using ys(2) inv by (intro list_all2_appendI) (auto simp: run_inv_def io3_def)
    then show ?thesis using ys(1) by (simp add: io3_def results_def [of "io2\<lparr>so_in_cnt := _\<rparr>"])
  qed
  have prog3: "io_program io3 = prog"
    using inv bounds by (auto simp: io3_def io_program_def run_inv_def)
  have cmd': "(18 \<le> bc_command ?b) = False" using cmd by (simp add: not_le)
  have small: "(SYN_MAX_LENGTH \<le> so_in_cnt io2 + 1) = False" using bounds slot by simp
  show "syntax_run_loop mo (Suc n) pos io w = Ran SSTATUS_OK io3 w2 \<and> run_done prog io3 \<and> io_program io3 = prog"
    if err: "SERR_ERROR \<le> bc_error (so_in io2 ! so_in_cnt io2)"
  proof -
    have "take (so_in_cnt io3) (expansion prog) = expansion (take pos prog) @ take (so_in_cnt io3 - so_in_cnt io) (expand ?b)"
      using bounds cnt by (simp add: split io3_def)
    then have "run_done prog io3"
      using res3 err bounds cnt split by (simp add: run_done_def io3_def)
    moreover have "syntax_run_loop mo (Suc n) pos io w = Ran SSTATUS_OK io3 w2"
      using out upd run slot cmd' small err by (simp add: io3_def Let_def)
    ultimately show ?thesis using prog3 by blast
  qed
  show "syntax_run_loop mo (Suc n) pos io w = syntax_run_loop mo n (Suc pos) io3 w2 \<and> run_inv prog (Suc pos) io3"
    if ok: "\<not> SERR_ERROR \<le> bc_error (so_in io2 ! so_in_cnt io2)"
  proof -
    have "so_in_cnt io3 = so_in_cnt io + length (expand ?b)"
      using bounds ok by (simp add: io3_def)
    then have "run_inv prog (Suc pos) io3"
      using res3 prog3 bounds cnt inv expansion_take_Suc [OF pos] by (simp add: run_inv_def io3_def)
    moreover have "syntax_run_loop mo (Suc n) pos io w = syntax_run_loop mo n (Suc pos) io3 w2"
      using out upd run slot cmd' small ok by (simp add: io3_def Let_def)
    ultimately show ?thesis by blast
  qed
qed

lemma run_inv_start:
  assumes "io_ok io" and "so_out_cnt io \<le> SYN_MAX_LENGTH"
  shows "run_inv (io_program io) 0 (io\<lparr>so_in_cnt := 0\<rparr>)" and "length (io_program io) = so_out_cnt io"
  using assms by (simp_all add: run_inv_def io_ok_def results_def expansion_def io_program_def)

context protocol_mode
begin

lemma run_loop_done:
  assumes inv: "run_inv prog pos io" and "pos + n = length prog"
    and cmds: "\<forall>b \<in> set prog. bc_command b < 18" and fits: "length (expansion prog) < SYN_MAX_LENGTH"
  shows "\<exists>io' w'. syntax_run_loop mo n pos io w = Ran SSTATUS_OK io' w' \<and> run_done prog io' \<and> io_program io' = prog"
  using inv \<open>pos + n = length prog\<close>
proof (induction n arbitrary: pos io w)
  case 0
  then show ?case by (simp add: run_done_def run_inv_def)
next
  case (Suc n)
  have pos: "pos < length prog" using Suc.prems by simp
  then have cmd: "bc_command (prog ! pos) < 18" using cmds by simp
  note slot = start_slot_facts [OF Suc.prems(1) pos fits, of "prog ! pos"] start_slot_room [OF Suc.prems(1) pos fits]
  obtain io2 w2 where run: "syntax_run_func mo (bc_command (prog ! pos)) (start_slot (prog ! pos) io) pos w = Some (io2, w2)"
    and adds: "run_adds (prog ! pos) (start_slot (prog ! pos) io) io2"
    using func_adds [of "start_slot (prog ! pos) io" "prog ! pos" pos w] slot by auto
  note step = run_loop_step [OF Suc.prems(1) pos fits cmd run adds, of n]
  show ?case
  proof (cases "SERR_ERROR \<le> bc_error (so_in io2 ! so_in_cnt io2)")
    case True
    then show ?thesis using step(1) by blast
  next
    case False
    then show ?thesis
      using step(2) Suc.IH [of "Suc pos" "io2\<lparr>so_in_cnt := so_in_cnt io2 + 1\<rparr>" w2] Suc.prems(2) by simp
  qed
qed

lemma run_program_done:
  assumes "io_ok io" and "0 < so_out_cnt io" and "so_out_cnt io \<le> SYN_MAX_LENGTH"
    and "\<forall>b \<in> set (io_program io). bc_command b < 18"
    and "length (expansion (io_program io)) < SYN_MAX_LENGTH"
  shows "\<exists>io' w'. syntax_run mo io w = Ran SSTATUS_OK io' w' \<and> run_done (io_program io) io' \<and>
    io_program io' = io_program io"
  using run_loop_done [OF run_inv_start(1) [OF assms(1,3)] _ assms(4,5), of "so_out_cnt io" w]
    run_inv_start(2) [OF assms(1,3)] assms(2)
  by (simp add: syntax_run_def)

end

end
