(* ===== verification/Syntax_Text.thy ===== *)
theory Syntax_Text
  imports Syntax_Compile
begin

text \<open>
  What the syntax compiler makes of a command line: the abstract syntax of a program, the text a
  user types for it, the bytecode it stands for, and the theorem that \<open>syntax_compile\<close> translates
  the one to the other.
\<close>

subsection \<open>Programs and their text\<close>

datatype syn_item =
    Sym u8 "nat option" "nat option"      \<comment> \<open>command, \<open>.bits\<close>, \<open>:repeat\<close>\<close>
  | Num nat "nat option" "nat option"
  | Str cstr

definition attr_text :: "u8 \<Rightarrow> nat option \<Rightarrow> cstr" where
  "attr_text d a = (case a of None \<Rightarrow> [] | Some n \<Rightarrow> d # dec_string n)"

fun item_text :: "syn_item \<Rightarrow> cstr" where
  "item_text (Sym c b r) = c # attr_text ch_dot b @ attr_text ch_colon r"
| "item_text (Num n b r) = dec_string n @ attr_text ch_dot b @ attr_text ch_colon r"
| "item_text (Str s) = ch_quote # s @ [ch_quote]"

definition program_text :: "syn_item list \<Rightarrow> cstr" where
  "program_text items = concat (map (\<lambda>i. item_text i @ [ch_space]) items)"

definition with_attrs :: "system_config \<Rightarrow> nat option \<Rightarrow> nat option \<Rightarrow> bytecode \<Rightarrow> bytecode" where
  "with_attrs cfg b r x = x\<lparr>
     bc_has_bits := b \<noteq> None, bc_bits := (case b of None \<Rightarrow> ucast (sc_num_bits cfg) | Some n \<Rightarrow> of_nat n),
     bc_has_repeat := r \<noteq> None, bc_repeat := (case r of None \<Rightarrow> 1 | Some n \<Rightarrow> of_nat n)\<rparr>"

definition string_code :: "system_config \<Rightarrow> u8 \<Rightarrow> bytecode" where
  "string_code cfg c = bytecode_empty\<lparr>bc_command := SYN_WRITE, bc_out_data := ucast c,
     bc_has_repeat := False, bc_repeat := 1, bc_number_format := df_ascii, bc_bits := ucast (sc_num_bits cfg)\<rparr>"

fun item_code :: "system_config \<Rightarrow> syn_item \<Rightarrow> bytecode list" where
  "item_code cfg (Sym c b r) =
     [with_attrs cfg b r (bytecode_empty\<lparr>bc_command := the (map_of syntax_compile_commands c)\<rparr>)]"
| "item_code cfg (Num n b r) = [with_attrs cfg b r (base_number bytecode_empty (of_nat n) df_dec)]"
| "item_code cfg (Str s) = map (string_code cfg) s"

definition program_code :: "system_config \<Rightarrow> syn_item list \<Rightarrow> bytecode list" where
  "program_code cfg items = concat (map (item_code cfg) items)"

definition attr_ok :: "nat option \<Rightarrow> bool" where
  "attr_ok a \<longleftrightarrow> (case a of None \<Rightarrow> True | Some n \<Rightarrow> n < 2 ^ 32)"

text \<open>The pin commands need a pin number; the pin must exist and be free (the ADC may read any).\<close>

definition pin_ok :: "system_config \<Rightarrow> u8 \<Rightarrow> nat option \<Rightarrow> bool" where
  "pin_ok cfg code b \<longleftrightarrow> SYN_AUX_OUTPUT_HIGH \<le> code \<longrightarrow>
     (case b of None \<Rightarrow> False
      | Some n \<Rightarrow> n < 8 \<and> (code \<noteq> SYN_ADC \<longrightarrow> sc_pin_func cfg ! (n + 1) = BP_PIN_IO))"

fun item_ok :: "system_config \<Rightarrow> syn_item \<Rightarrow> bool" where
  "item_ok cfg (Sym c b r) \<longleftrightarrow> attr_ok b \<and> attr_ok r \<and>
     (case map_of syntax_compile_commands c of None \<Rightarrow> False | Some code \<Rightarrow> pin_ok cfg code b)"
| "item_ok cfg (Num n b r) \<longleftrightarrow> n < 2 ^ 32 \<and> attr_ok b \<and> attr_ok r"
| "item_ok cfg (Str s) \<longleftrightarrow> (\<forall>c \<in> set s. c \<noteq> 0 \<and> c \<noteq> ch_quote)"

text \<open>Result slots an item takes.\<close>

fun item_slots :: "syn_item \<Rightarrow> nat" where
  "item_slots (Sym c b r) =
     (if the (map_of syntax_compile_commands c) \<in> {SYN_DELAY_US, SYN_DELAY_MS, SYN_TICK_CLOCK} then 1
      else case r of None \<Rightarrow> 1 | Some n \<Rightarrow> n)"
| "item_slots (Num n b r) = (case r of None \<Rightarrow> 1 | Some n \<Rightarrow> n)"
| "item_slots (Str s) = length s"

definition program_slots :: "syn_item list \<Rightarrow> nat" where
  "program_slots items = sum_list (map item_slots items)"

text \<open>The instruction buffer with a program in it, and with one more slot being filled.\<close>

definition io_slot :: "bytecode list \<Rightarrow> bytecode \<Rightarrow> syntax_io" where
  "io_slot prog b = \<lparr>so_out = prog @ b # replicate (SYN_MAX_LENGTH - Suc (length prog)) bytecode_empty,
     so_in = replicate SYN_MAX_LENGTH bytecode_empty, so_out_cnt = length prog, so_in_cnt = 0\<rparr>"

definition io_of :: "bytecode list \<Rightarrow> syntax_io" where
  "io_of prog = \<lparr>so_out = prog @ replicate (SYN_MAX_LENGTH - length prog) bytecode_empty,
     so_in = replicate SYN_MAX_LENGTH bytecode_empty, so_out_cnt = length prog, so_in_cnt = 0\<rparr>"

lemma io_of_slot: "length prog < SYN_MAX_LENGTH \<Longrightarrow> io_of prog = io_slot prog bytecode_empty"
  by (simp add: io_of_def io_slot_def Suc_diff_Suc replicate_Suc [symmetric] del: replicate.simps)

lemma io_slot_simps [simp]:
  "so_out_cnt (io_slot prog b) = length prog" "so_out (io_slot prog b) ! length prog = b"
  "length prog < SYN_MAX_LENGTH \<Longrightarrow> length (so_out (io_slot prog b)) = SYN_MAX_LENGTH"
  "so_out_cnt (io_of prog) = length prog"
  by (simp_all add: io_slot_def io_of_def)

lemma update_io_slot [simp]:
  "length prog < SYN_MAX_LENGTH \<Longrightarrow> update_slot f (io_slot prog b) = Some (io_slot prog (f b))"
  by (simp add: update_slot_def) (simp add: io_slot_def)

lemma io_slot_done: "(io_slot prog b)\<lparr>so_out_cnt := Suc (length prog)\<rparr> = io_of (prog @ [b])"
  by (simp add: io_slot_def io_of_def)

subsection \<open>Attributes\<close>

lemma ends_decimal_attr:
  assumes "at rest 0 \<in> {ch_space, ch_dot, ch_colon}"
  shows "ends_decimal rest"
  using assms by (auto simp: ends_decimal_def bp_num_is_dec_def)

lemma get_delimited_some:
  assumes "n < 2 ^ 32" and "ends_decimal rest"
  shows "\<exists>res. ui_parse_get_delimited_sequence (ln_at pre (d # dec_string n @ rest)) d v =
    (True, res\<lparr>pr_success := True\<rparr>, of_nat n, ln_at (pre @ d # dec_string n) rest)"
proof -
  obtain e es where e: "dec_string n = dec_char e # es" "e < 10" by (rule dec_string_first)
  have adv: "ln_cmdln_advance_to (ln_at pre (d # dec_string n @ rest)) (Suc (length pre)) = ln_at (pre @ [d]) (dec_string n @ rest)"
    using ln_at_advance [of pre "[d]" "dec_string n @ rest"] by simp
  have next_at: "at (pre @ d # dec_string n @ rest) (Suc (length pre)) = dec_char e"
    using at_append_right [of pre "d # dec_string n @ rest" 1] by (simp add: e)
  show ?thesis
    using ui_parse_get_int_dec [OF assms, of "pre @ [d]"] dec_char_not_special [OF e(2)] adv next_at
    by (auto simp: ui_parse_get_delimited_sequence_def Let_def ln_cmdln_advance_to_def)
qed

lemma get_delimited_none:
  "at rest 0 \<noteq> d \<Longrightarrow> ui_parse_get_delimited_sequence (ln_at pre rest) d v =
    (False, empty_result\<lparr>pr_no_value := True\<rparr>, v, ln_at pre rest)"
  by (simp add: ui_parse_get_delimited_sequence_def Let_def)

lemma get_delimited_attr:
  assumes "attr_ok a" and "at rest 0 \<in> {ch_space, ch_dot, ch_colon}" and "at rest 0 \<noteq> d"
  shows "\<exists>res. ui_parse_get_delimited_sequence (ln_at pre (attr_text d a @ rest)) d v =
    (a \<noteq> None, res\<lparr>pr_success := a \<noteq> None\<rparr>, case a of None \<Rightarrow> v | Some n \<Rightarrow> of_nat n, ln_at (pre @ attr_text d a) rest)"
proof (cases a)
  case None
  then show ?thesis
    using get_delimited_none [OF assms(3), of pre v]
    by (auto simp: attr_text_def empty_result_def intro!: exI [of _ "empty_result\<lparr>pr_no_value := True\<rparr>"])
next
  case (Some n)
  then show ?thesis
    using get_delimited_some [of n rest pre d v] assms ends_decimal_attr [OF assms(2)]
    by (simp add: attr_text_def attr_ok_def)
qed

text \<open>The state of the compiler between two instructions.\<close>

abbreviation state_at :: "cstr \<Rightarrow> cstr \<Rightarrow> syntax_io \<Rightarrow> u32 \<Rightarrow> u32 \<Rightarrow> compile_state" where
  "state_at pre rest io g pos \<equiv> \<lparr>cs_reader = ln_at pre rest, cs_io = io, cs_generated = g, cs_position = pos\<rparr>"

lemma attr_text_first: "at rest 0 = ch_space \<Longrightarrow> at (attr_text ch_colon r @ rest) 0 \<in> {ch_space, ch_colon}"
  by (cases r) (simp_all add: attr_text_def)

lemma get_attributes_slot:
  assumes len: "length prog < SYN_MAX_LENGTH"
    and dot: "\<And>v. ui_parse_get_dot rd v = (b \<noteq> None, case b of None \<Rightarrow> v | Some n \<Rightarrow> of_nat n, rd1)"
    and colon: "\<And>v. ui_parse_get_colon rd1 v = (r \<noteq> None, case r of None \<Rightarrow> v | Some n \<Rightarrow> of_nat n, rd2)"
    and pin: "pin_error cfg c pos (with_attrs cfg b r x) = None"
    and gen: "g + slots_of (with_attrs cfg b r x) < 1024"
  shows "compiler_get_attributes cfg c \<lparr>cs_reader = rd, cs_io = io_slot prog x, cs_generated = g, cs_position = pos\<rparr> =
    Inl \<lparr>cs_reader = rd2, cs_io = io_of (prog @ [with_attrs cfg b r x]),
      cs_generated = g + slots_of (with_attrs cfg b r x), cs_position = pos\<rparr>"
proof -
  let ?x1 = "x\<lparr>bc_has_bits := b \<noteq> None, bc_bits := (case b of None \<Rightarrow> ucast (sc_num_bits cfg) | Some n \<Rightarrow> of_nat n)\<rparr>"
  have "compile_bits cfg \<lparr>cs_reader = rd, cs_io = io_slot prog x, cs_generated = g, cs_position = pos\<rparr> =
      Some \<lparr>cs_reader = rd1, cs_io = io_slot prog ?x1, cs_generated = g, cs_position = pos\<rparr>"
    using len by (cases b) (simp_all add: compile_bits_def dot)
  moreover have "compile_repeat \<lparr>cs_reader = rd1, cs_io = io_slot prog ?x1, cs_generated = g, cs_position = pos\<rparr> =
      Some \<lparr>cs_reader = rd2, cs_io = io_slot prog (with_attrs cfg b r x), cs_generated = g, cs_position = pos\<rparr>"
    using len by (cases r) (simp_all add: compile_repeat_def colon with_attrs_def)
  ultimately show ?thesis
    using len pin gen by (simp add: compiler_get_attributes_def compile_finish_def Let_def not_le io_slot_done)
qed

lemma get_attributes_text:
  assumes "length prog < SYN_MAX_LENGTH" and rest: "at rest 0 = ch_space"
    and b: "attr_ok b" and r: "attr_ok r"
    and "pin_error cfg c pos (with_attrs cfg b r x) = None"
    and "g + slots_of (with_attrs cfg b r x) < 1024"
  shows "compiler_get_attributes cfg c (state_at pre (attr_text ch_dot b @ attr_text ch_colon r @ rest) (io_slot prog x) g pos) =
    Inl (state_at ((pre @ attr_text ch_dot b) @ attr_text ch_colon r) rest (io_of (prog @ [with_attrs cfg b r x]))
      (g + slots_of (with_attrs cfg b r x)) pos)"
proof (rule get_attributes_slot)
  let ?pre = "pre @ attr_text ch_dot b" and ?rest = "attr_text ch_colon r @ rest"
  have "at ?rest 0 \<in> {ch_space, ch_dot, ch_colon}" "at ?rest 0 \<noteq> ch_dot"
    using attr_text_first [OF rest, of r] by auto
  then show "ui_parse_get_dot (ln_at pre (attr_text ch_dot b @ ?rest)) v =
      (b \<noteq> None, case b of None \<Rightarrow> v | Some n \<Rightarrow> of_nat n, ln_at ?pre ?rest)" for v
    using get_delimited_attr [OF b, of ?rest ch_dot pre v] unfolding ui_parse_get_dot_def by fastforce
  have "at rest 0 \<in> {ch_space, ch_dot, ch_colon}" "at rest 0 \<noteq> ch_colon"
    using rest by auto
  then show "ui_parse_get_colon (ln_at ?pre ?rest) v =
      (r \<noteq> None, case r of None \<Rightarrow> v | Some n \<Rightarrow> of_nat n, ln_at (?pre @ attr_text ch_colon r) rest)" for v
    using get_delimited_attr [OF r, of rest ch_colon ?pre v] unfolding ui_parse_get_colon_def by fastforce
qed (use assms in auto)

lemma pin_error_with_attrs:
  assumes "pin_ok cfg (bc_command x) b" and "attr_ok b"
  shows "pin_error cfg c pos (with_attrs cfg b r x) = None"
proof (cases "SYN_AUX_OUTPUT_HIGH \<le> bc_command x")
  case True
  then obtain n where n: "b = Some n" "n < 8" "bc_command x \<noteq> SYN_ADC \<longrightarrow> sc_pin_func cfg ! (n + 1) = BP_PIN_IO"
    using assms(1) by (auto simp: pin_ok_def split: option.splits)
  have "unat (of_nat n :: u32) = n" using n(2) by (simp add: unat_of_nat_small)
  moreover from this n(2) have "\<not> 8 \<le> (of_nat n :: u32)" by (simp add: not_le word_less_nat_alt)
  moreover have "map (\<lambda>i. sc_pin_func cfg ! i) [1..<9] ! n = sc_pin_func cfg ! (n + 1)"
    using n(2) by simp
  ultimately show ?thesis
    using n by (auto simp: pin_error_def Let_def with_attrs_def simp del: upt.simps)
next
  case False
  then show ?thesis by (simp add: pin_error_def Let_def with_attrs_def not_le)
qed

lemma slots_with_attrs:
  assumes "attr_ok r"
  shows "slots_of (with_attrs cfg b r x) =
    of_nat (if bc_command x \<in> {SYN_DELAY_US, SYN_DELAY_MS, SYN_TICK_CLOCK} then 1 else case r of None \<Rightarrow> 1 | Some n \<Rightarrow> n)"
  by (auto simp: slots_of_def with_attrs_def split: option.split)

subsection \<open>Items\<close>

definition state_after :: "system_config \<Rightarrow> cstr \<Rightarrow> cstr \<Rightarrow> bytecode list \<Rightarrow> nat \<Rightarrow> u32 \<Rightarrow> compile_state" where
  "state_after cfg pre rest prog slots pos =
     \<lparr>cs_reader = ln_at pre rest, cs_io = io_of prog, cs_generated = of_nat slots, cs_position = pos\<rparr>"

lemma all_command_chars:
  "\<forall>(c, code) \<in> set syntax_compile_commands. ch_space < c \<and> c \<le> ch_tilde \<and> c \<noteq> ch_gt \<and>
     \<not> (ch_0 \<le> c \<and> c \<le> ch_9) \<and> c \<noteq> ch_quote"
  by code_simp

lemma command_char:
  assumes "map_of syntax_compile_commands c = Some code"
  shows "\<not> c \<le> ch_space" "\<not> ch_tilde < c" "c \<noteq> ch_gt" "(ch_0 \<le> c \<and> c \<le> ch_9) = False" "c \<noteq> ch_quote"
  using map_of_SomeD [OF assms] all_command_chars by (auto simp: not_le not_less)

lemma item_step_Sym:
  assumes ok: "item_ok cfg (Sym c b r)" and len: "length prog < SYN_MAX_LENGTH"
    and slots: "n + item_slots (Sym c b r) < 1024" and rest: "at rest 0 = ch_space"
  shows "syntax_compile_step cfg c (state_after cfg pre (item_text (Sym c b r) @ rest) prog n pos) =
    Inl (state_after cfg (pre @ item_text (Sym c b r)) rest (prog @ item_code cfg (Sym c b r))
      (n + item_slots (Sym c b r)) (pos + 1))"
proof -
  obtain code where code: "map_of syntax_compile_commands c = Some code" and pin: "pin_ok cfg code b"
    and attr: "attr_ok b" "attr_ok r"
    using ok by (auto split: option.splits)
  let ?x = "bytecode_empty\<lparr>bc_command := code\<rparr>"
  have slots_eq: "slots_of (with_attrs cfg b r ?x) = of_nat (item_slots (Sym c b r))"
    using slots_with_attrs [OF attr(2), of cfg b ?x] by (simp add: code)
  have gen: "of_nat n + slots_of (with_attrs cfg b r ?x) < (1024 :: u32)"
    using slots of_nat_lt_1024 [of "n + item_slots (Sym c b r)"] by (simp add: slots_eq)
  have pin': "pin_error cfg c (pos + 1) (with_attrs cfg b r ?x) = None"
    using pin_error_with_attrs [of cfg ?x b] pin attr by simp
  have "syntax_compile_step cfg c (state_after cfg pre (item_text (Sym c b r) @ rest) prog n pos) =
      compile_symbol cfg c (state_after cfg pre (item_text (Sym c b r) @ rest) prog n (pos + 1))"
    unfolding syntax_compile_step_def Let_def
    by (simp only: command_char [OF code] simp_thms if_False) (simp add: state_after_def)
  also have "\<dots> = compiler_get_attributes cfg c
      (state_at (pre @ [c]) (attr_text ch_dot b @ attr_text ch_colon r @ rest) (io_slot prog ?x) (of_nat n) (pos + 1))"
    using len by (simp add: state_after_def compile_symbol_def code io_of_slot ln_cmdln_try_discard_def)
  also have "\<dots> = Inl (state_after cfg (pre @ item_text (Sym c b r)) rest (prog @ item_code cfg (Sym c b r))
      (n + item_slots (Sym c b r)) (pos + 1))"
    using get_attributes_text [OF len rest attr pin' gen, of "pre @ [c]"]
    by (simp add: state_after_def code slots_eq del: item_slots.simps)
  finally show ?thesis .
qed

lemma item_step_Num:
  assumes ok: "item_ok cfg (Num m b r)" and len: "length prog < SYN_MAX_LENGTH"
    and slots: "n + item_slots (Num m b r) < 1024" and rest: "at rest 0 = ch_space"
    and c: "c = at (dec_string m) 0"
  shows "syntax_compile_step cfg c (state_after cfg pre (item_text (Num m b r) @ rest) prog n pos) =
    Inl (state_after cfg (pre @ item_text (Num m b r)) rest (prog @ item_code cfg (Num m b r))
      (n + item_slots (Num m b r)) (pos + 1))"
proof -
  have m: "m < 2 ^ 32" and attr: "attr_ok b" "attr_ok r" using ok by auto
  let ?x = "base_number bytecode_empty (of_nat m) df_dec" and ?tail = "attr_text ch_dot b @ attr_text ch_colon r @ rest"
  obtain d es where d: "dec_string m = dec_char d # es" "d < 10" by (rule dec_string_first)
  have digit: "\<not> c \<le> ch_space" "\<not> ch_tilde < c" "c \<noteq> ch_gt" "(ch_0 \<le> c \<and> c \<le> ch_9) = True"
    using dec_char_not_special [OF d(2)] by (auto simp: c d word_le_nat_alt word_less_nat_alt)
  have slots_eq: "slots_of (with_attrs cfg b r ?x) = of_nat (item_slots (Num m b r))"
    using slots_with_attrs [OF attr(2), of cfg b ?x] by (simp add: base_number_def)
  have gen: "of_nat n + slots_of (with_attrs cfg b r ?x) < (1024 :: u32)"
    using slots of_nat_lt_1024 [of "n + item_slots (Num m b r)"] by (simp add: slots_eq)
  have pin': "pin_error cfg c (pos + 1) (with_attrs cfg b r ?x) = None"
    using attr by (intro pin_error_with_attrs) (simp_all add: pin_ok_def base_number_def)
  have "at ?tail 0 \<in> {ch_space, ch_dot, ch_colon}"
    using attr_text_first [OF rest, of r] by (cases b) (auto simp: attr_text_def)
  then have int: "ui_parse_get_int (ln_at pre (dec_string m @ ?tail)) =
      (True, empty_result\<lparr>pr_success := True, pr_number_format := df_dec\<rparr>, of_nat m, ln_at (pre @ dec_string m) ?tail)"
    using ui_parse_get_int_dec [OF m ends_decimal_attr, of ?tail pre] by simp
  have "syntax_compile_step cfg c (state_after cfg pre (item_text (Num m b r) @ rest) prog n pos) =
      compile_number cfg c (state_at pre (dec_string m @ ?tail) (io_of prog) (of_nat n) (pos + 1))"
    unfolding syntax_compile_step_def Let_def
    by (simp only: digit simp_thms if_False if_True) (simp add: state_after_def)
  also have "\<dots> = compiler_get_attributes cfg c
      (state_at (pre @ dec_string m) ?tail (io_slot prog ?x) (of_nat n) (pos + 1))"
    unfolding compile_number_def
    using len by (simp add: int [simplified] io_of_slot base_number_def Let_def empty_result_def)
  also have "\<dots> = Inl (state_after cfg (pre @ item_text (Num m b r)) rest (prog @ item_code cfg (Num m b r))
      (n + item_slots (Num m b r)) (pos + 1))"
    using get_attributes_text [OF len rest attr pin' gen, of "pre @ dec_string m"]
    by (simp add: state_after_def slots_eq del: item_slots.simps)
  finally show ?thesis .
qed

lemma peek_ln_at: "i < length rest \<Longrightarrow> rest ! i \<noteq> 0 \<Longrightarrow> ln_cmdln_try_peek (ln_at pre rest) i = Some (rest ! i)"
  by (simp add: ln_cmdln_try_peek_def Let_def at_def nth_append)

lemma remove_ln_at: "c \<noteq> 0 \<Longrightarrow> cmdln_try_remove (ln_at pre (c # rest)) = Some (c, ln_at (pre @ [c]) rest)"
  using peek_ln_at [of 0 "c # rest" pre] by (simp add: cmdln_try_remove_def ln_cmdln_try_discard_def)

lemma find_quote_text:
  assumes "\<forall>c \<in> set s. c \<noteq> 0 \<and> c \<noteq> ch_quote" and "i \<le> length s"
  shows "find_quote (ln_at pre (s @ ch_quote # rest)) i = Some (length s)"
  using assms(2)
proof (induction "length s - i" arbitrary: i)
  case 0
  then have "i = length s" by simp
  then show ?case
    using peek_ln_at [of i "s @ ch_quote # rest" pre] by (subst find_quote.simps) simp
next
  case (Suc k)
  then have i: "i < length s" "k = length s - Suc i" by auto
  then have "s ! i \<noteq> 0 \<and> s ! i \<noteq> ch_quote" using assms(1) by simp
  then show ?case
    using peek_ln_at [of i "s @ ch_quote # rest" pre] i Suc.hyps(1) [OF i(2)]
    by (subst find_quote.simps) (simp add: nth_append)
qed

lemma compile_get_string_text:
  assumes "\<forall>c \<in> set s. c \<noteq> 0" and "length prog + length s \<le> SYN_MAX_LENGTH"
  shows "compile_get_string cfg (length s) c (state_at pre (s @ rest) (io_of prog) g pos) =
    Some (state_at (pre @ s) rest (io_of (prog @ map (string_code cfg) s)) (g + of_nat (length s)) pos)"
  using assms
proof (induction s arbitrary: c pre prog g)
  case (Cons a s)
  then have "length prog < SYN_MAX_LENGTH" "a \<noteq> 0" by auto
  moreover have "compile_get_string cfg (length s) a
      (state_at (pre @ [a]) (s @ rest) (io_of (prog @ [string_code cfg a])) (g + 1) pos) =
    Some (state_at ((pre @ [a]) @ s) rest (io_of ((prog @ [string_code cfg a]) @ map (string_code cfg) s))
      ((g + 1) + of_nat (length s)) pos)"
    using Cons.prems by (intro Cons.IH) auto
  ultimately show ?case
    using remove_ln_at [of a pre "s @ rest"]
    by (simp add: io_of_slot io_slot_done string_code_def [of cfg a] add.assoc add.commute)
qed simp

lemma item_step_Str:
  assumes ok: "item_ok cfg (Str s)" and len: "length prog + length s < SYN_MAX_LENGTH"
    and slots: "n + item_slots (Str s) < 1024"
  shows "syntax_compile_step cfg ch_quote (state_after cfg pre (item_text (Str s) @ rest) prog n pos) =
    Inl (state_after cfg (pre @ item_text (Str s)) rest (prog @ item_code cfg (Str s)) (n + item_slots (Str s)) (pos + 1))"
proof -
  have chars: "\<forall>c \<in> set s. c \<noteq> 0 \<and> c \<noteq> ch_quote" using ok by simp
  have gen: "\<not> 1024 \<le> (of_nat n + of_nat (length s) :: u32)"
    using slots of_nat_lt_1024 [of "n + length s"] by (simp add: not_le)
  have "compile_string cfg (state_at pre (ch_quote # s @ ch_quote # rest) (io_of prog) (of_nat n) (pos + 1)) =
      Inl (state_at (((pre @ [ch_quote]) @ s) @ [ch_quote]) rest (io_of (prog @ map (string_code cfg) s))
        (of_nat n + of_nat (length s)) (pos + 1))"
    unfolding compile_string_def Let_def
    using remove_ln_at [of ch_quote pre "s @ ch_quote # rest"] remove_ln_at [of ch_quote "(pre @ [ch_quote]) @ s" rest]
      find_quote_text [OF chars, of 0 "pre @ [ch_quote]" rest] len gen
      compile_get_string_text [of s prog cfg ch_quote "pre @ [ch_quote]" "ch_quote # rest" "of_nat n" "pos + 1"] chars
    by simp
  then show ?thesis
    by (simp add: syntax_compile_step_def Let_def state_after_def)
qed

subsection \<open>Whole lines\<close>

lemma state_after_peek:
  "rest \<noteq> [] \<Longrightarrow> hd rest \<noteq> 0 \<Longrightarrow> ln_cmdln_try_peek (cs_reader (state_after cfg pre rest prog n pos)) 0 = Some (hd rest)"
  using peek_ln_at [of 0 rest pre] by (simp add: state_after_def hd_conv_nth)

lemma item_text_first: "item_ok cfg i \<Longrightarrow> item_text i \<noteq> [] \<and> hd (item_text i) \<noteq> 0"
proof (cases i)
  case (Num n b r)
  obtain d es where "dec_string n = dec_char d # es" "d < 10" by (rule dec_string_first)
  then show ?thesis using Num dec_char_not_special(1) [of d] by simp
next
  case (Sym c b r)
  moreover assume "item_ok cfg i"
  ultimately obtain code where "map_of syntax_compile_commands c = Some code"
    by (auto split: option.splits)
  then show ?thesis using Sym command_char(1) [of c code] by auto
qed simp

lemma item_step:
  assumes "item_ok cfg i" and "length prog + length (item_code cfg i) < SYN_MAX_LENGTH"
    and "n + item_slots i < 1024" and "at rest 0 = ch_space"
  shows "syntax_compile_step cfg (hd (item_text i)) (state_after cfg pre (item_text i @ rest) prog n pos) =
    Inl (state_after cfg (pre @ item_text i) rest (prog @ item_code cfg i) (n + item_slots i) (pos + 1))"
proof (cases i)
  case (Sym c b r)
  then show ?thesis using item_step_Sym [of cfg c b r prog n rest pre pos] assms by simp
next
  case (Num m b r)
  have "hd (item_text i) = at (dec_string m) 0"
    using digits_of_nonempty [of 10 m] by (simp add: Num dec_string_def at_def hd_append hd_map hd_conv_nth)
  then show ?thesis using item_step_Num [of cfg m b r prog n rest "hd (item_text i)" pre pos] assms Num by simp
next
  case (Str s)
  then show ?thesis using item_step_Str [of cfg s prog n pre rest pos] assms by simp
qed

lemma space_step:
  "syntax_compile_step cfg ch_space (state_after cfg pre (ch_space # rest) prog n pos) =
    Inl (state_after cfg (pre @ [ch_space]) rest prog n (pos + 1))"
  by (simp add: syntax_compile_step_def state_after_def ln_cmdln_try_discard_def)

lemma syntax_compile_loop_step:
  assumes "ln_cmdln_try_peek (cs_reader st) 0 = Some c" and "syntax_compile_step cfg c st = Inl st'"
  shows "syntax_compile_loop cfg st = syntax_compile_loop cfg st'"
  by (subst syntax_compile_loop.simps) (simp add: assms)

lemma compile_loop_text:
  assumes "\<forall>i \<in> set items. item_ok cfg i" and "length prog + length (program_code cfg items) < SYN_MAX_LENGTH"
    and "n + program_slots items < 1024"
  shows "syntax_compile_loop cfg (state_after cfg pre (program_text items) prog n pos) =
    Compiled (io_of (prog @ program_code cfg items)) (ln_at (pre @ program_text items) [])"
  using assms
proof (induction items arbitrary: pre prog n pos)
  case Nil
  then show ?case
    by (subst syntax_compile_loop.simps)
      (simp add: state_after_def program_text_def program_code_def io_of_def ln_cmdln_try_peek_def)
next
  case (Cons i items)
  let ?rest = "program_text items"
  have line: "program_text (i # items) = item_text i @ ch_space # ?rest"
    by (simp add: program_text_def)
  have i: "item_ok cfg i" using Cons.prems(1) by simp
  have "syntax_compile_loop cfg (state_after cfg pre (item_text i @ ch_space # ?rest) prog n pos) =
      syntax_compile_loop cfg (state_after cfg (pre @ item_text i) (ch_space # ?rest) (prog @ item_code cfg i) (n + item_slots i) (pos + 1))"
  proof (rule syntax_compile_loop_step)
    show "ln_cmdln_try_peek (cs_reader (state_after cfg pre (item_text i @ ch_space # ?rest) prog n pos)) 0 =
        Some (hd (item_text i))"
      using item_text_first [OF i] state_after_peek [of "item_text i @ ch_space # ?rest"] by simp
  qed (rule item_step, use Cons.prems in \<open>auto simp: program_code_def program_slots_def\<close>)
  also have "\<dots> = syntax_compile_loop cfg (state_after cfg ((pre @ item_text i) @ [ch_space]) ?rest (prog @ item_code cfg i) (n + item_slots i) (pos + 1 + 1))"
    by (rule syntax_compile_loop_step [OF _ space_step]) (simp add: state_after_peek)
  also have "\<dots> = Compiled (io_of ((prog @ item_code cfg i) @ program_code cfg items))
      (ln_at (((pre @ item_text i) @ [ch_space]) @ ?rest) [])"
    using Cons.prems by (intro Cons.IH) (auto simp: program_code_def program_slots_def)
  finally show ?case
    by (simp add: line program_code_def)
qed

lemma syntax_compile_program:
  assumes "\<forall>i \<in> set items. item_ok cfg i" and "length (program_code cfg items) < SYN_MAX_LENGTH"
    and "program_slots items < 1024"
  shows "syntax_compile cfg (ln_at [] (program_text items)) =
    Compiled (io_of (program_code cfg items)) (ln_at (program_text items) [])"
proof -
  have "compile_start (ln_at [] (program_text items)) = state_after cfg [] (program_text items) [] 0 0"
    by (simp add: compile_start_def state_after_def io_reset_def io_of_def)
  then show ?thesis
    using compile_loop_text [of items cfg "[]" 0 "[]" 0] assms by (simp add: syntax_compile_def)
qed

text \<open>C1: a command line written from a program (command symbols, numbers and strings, with bit
  widths and repeat counts, separated by spaces) compiles to exactly the instructions it
  stands for, in order, when it fits: known symbols, attributes below 2 to the 32, existing and
  free pins, and fewer than 1024 instructions and result slots.\<close>

theorem syntax_compile_program_text:
  assumes "\<forall>i \<in> set items. item_ok cfg i" and "length (program_code cfg items) < SYN_MAX_LENGTH"
    and "program_slots items < 1024"
  shows "\<exists>io r. syntax_compile cfg (ln_at [] (program_text items)) = Compiled io r \<and>
    io_program io = program_code cfg items \<and> so_in_cnt io = 0"
  using syntax_compile_program [OF assms] by (simp add: io_program_def io_of_def)

definition sample_program :: "syn_item list" where
  "sample_program = [Sym ch_lbracket None None, Num 159 None None, Str [ch_a, ch_b], Sym ch_r (Some 8) (Some 4),
     Sym ch_A (Some 3) None, Sym ch_rbracket None None]"

lemma sample_program_ok:
  "\<forall>i \<in> set sample_program. item_ok system_init i"
  "length (program_code system_init sample_program) < SYN_MAX_LENGTH" "program_slots sample_program < 1024"
  by (simp_all add: sample_program_def program_code_def program_slots_def syntax_compile_commands_def
      attr_ok_def pin_ok_def system_init_def nth_append word_le_nat_alt)

theorem syntax_compile_program_text_witness:
  "\<exists>io r. syntax_compile system_init (ln_at [] (program_text sample_program)) = Compiled io r \<and>
    io_program io = program_code system_init sample_program \<and> so_in_cnt io = 0"
  by (rule syntax_compile_program_text [OF sample_program_ok])

theorem syntax_compile_sound_witness:
  "\<exists>io r. syntax_compile system_init (ln_at [] (program_text sample_program)) = Compiled io r \<and>
    (\<forall>b \<in> set (io_program io). instr_ok system_init b)"
  using syntax_compile_program [OF sample_program_ok]
    syntax_compile_sound [of system_init "ln_at [] (program_text sample_program)"] by fastforce

end
