(* ===== verification/Mode_Trace.thy ===== *)
theory Mode_Trace
  imports Syntax_Run Syntax_Text
begin

text \<open>
  What a program of the syntax engine does to the hardware. The contract of \<open>Syntax_Run\<close> is
  extended by what a mode promises about the bus: while it is \<open>ready\<close>, the handler of an
  instruction issues the events \<open>emit s b next\<close>, moves the mode's own state from \<open>s\<close> to
  \<open>after s b\<close>, stays ready, and reports no error of its own. From this the engine's run issues the
  events of its instructions in program order, each as often as its repeat count says. A mode
  without a state of its own (\<open>traced_mode\<close>) issues the events \<open>bus b\<close>.
\<close>

definition mode_handler :: "mode_ops \<Rightarrow> u8 \<Rightarrow> handler" where
  "mode_handler mo c =
     (if c = SYN_WRITE then protocol_write mo else if c = SYN_READ then protocol_read mo
      else if c = SYN_START then protocol_start mo else if c = SYN_START_ALT then protocol_start_alt mo
      else if c = SYN_STOP then protocol_stop mo else if c = SYN_STOP_ALT then protocol_stop_alt mo
      else if c = SYN_TICK_CLOCK then protocol_tick_clock mo
      else if c = SYN_SET_CLK_HIGH then protocol_clkh mo else if c = SYN_SET_CLK_LOW then protocol_clkl mo
      else if c = SYN_SET_DAT_HIGH then protocol_dath mo else if c = SYN_SET_DAT_LOW then protocol_datl mo
      else protocol_bitr mo)"

lemma le_13_cases:
  assumes "(c :: u8) \<le> SYN_DELAY_MS"
  shows "c \<in> {SYN_WRITE, SYN_READ, SYN_START, SYN_STOP, SYN_START_ALT, SYN_STOP_ALT, SYN_TICK_CLOCK,
      SYN_SET_CLK_HIGH, SYN_SET_CLK_LOW, SYN_SET_DAT_HIGH, SYN_SET_DAT_LOW, SYN_READ_DAT, SYN_DELAY_US, SYN_DELAY_MS}"
proof -
  have "unat c \<in> set [0..<14]" using assms by (simp add: word_le_nat_alt)
  moreover have "c = of_nat (unat c)" by simp
  ultimately have "c \<in> of_nat ` set [0..<14]" by (rule rev_image_eqI)
  then show ?thesis by (simp add: upt_conv_Cons del: set_upt)
qed

locale traced_machine = protocol_mode +
  fixes ready :: "world \<Rightarrow> bool" and state :: "world \<Rightarrow> 's"
    and emit :: "'s \<Rightarrow> bytecode \<Rightarrow> bytecode option \<Rightarrow> hw_event list" and after :: "'s \<Rightarrow> bytecode \<Rightarrow> 's"
  assumes ready_hw: "ready w \<Longrightarrow> ready (hw_do es w)" and state_hw: "state (hw_do es w) = state w"
    and handler_trace: "bc_command b \<le> SYN_READ_DAT \<Longrightarrow> ready w \<Longrightarrow>
      mode_handler mo (bc_command b) b nxt w = (b', w') \<Longrightarrow>
      ready w' \<and> w_hw w' = w_hw w @ emit (state w) b nxt \<and> state w' = after (state w) b \<and> bc_error b' = bc_error b"
    and emit_same: "same_instruction a b \<Longrightarrow> bc_command b = SYN_TICK_CLOCK \<or> bc_command b = SYN_READ_DAT \<Longrightarrow>
      emit s a nxt = emit s b nxt \<and> after s a = after s b"
begin

text \<open>The events of a row of calls for one instruction, given what each call sees as the next one.\<close>

fun emits :: "'s \<Rightarrow> bytecode \<Rightarrow> bytecode option list \<Rightarrow> hw_event list" where
  "emits s b [] = []"
| "emits s b (nxt # ns) = emit s b nxt @ emits (after s b) b ns"

fun afters :: "'s \<Rightarrow> bytecode \<Rightarrow> nat \<Rightarrow> 's" where
  "afters s b 0 = s"
| "afters s b (Suc n) = afters (after s b) b n"

text \<open>Only the last repetition of a read sees the instruction that follows.\<close>

definition read_calls :: "nat \<Rightarrow> bytecode option \<Rightarrow> bytecode option list" where
  "read_calls n nxt = (if n = 0 then [] else replicate (n - 1) None @ [nxt])"

lemma length_read_calls [simp]: "length (read_calls n nxt) = n"
  by (simp add: read_calls_def)

definition instr_calls :: "bytecode \<Rightarrow> bytecode option \<Rightarrow> bytecode option list" where
  "instr_calls b nxt =
     (if bc_command b \<in> {SYN_DELAY_US, SYN_DELAY_MS} then []
      else if bc_command b \<in> {SYN_WRITE, SYN_TICK_CLOCK, SYN_READ_DAT} then replicate (unat (bc_repeat b)) None
      else if bc_command b = SYN_READ
      then read_calls (unat (bc_repeat b)) nxt
      else [None])"

definition instr_events :: "'s \<Rightarrow> bytecode \<Rightarrow> bytecode option \<Rightarrow> hw_event list" where
  "instr_events s b nxt =
     (if bc_command b = SYN_DELAY_US then [BusyWaitUs (bc_repeat b)]
      else if bc_command b = SYN_DELAY_MS then [BusyWaitMs (bc_repeat b)]
      else emits s b (instr_calls b nxt))"

definition instr_after :: "'s \<Rightarrow> bytecode \<Rightarrow> 's" where
  "instr_after s b = afters s b (length (instr_calls b None))"

fun prog_events :: "'s \<Rightarrow> bytecode list \<Rightarrow> hw_event list" where
  "prog_events s [] = []"
| "prog_events s (b # prog) =
     instr_events s b (if prog = [] then None else Some (hd prog)) @ prog_events (instr_after s b) prog"

fun prog_after :: "'s \<Rightarrow> bytecode list \<Rightarrow> 's" where
  "prog_after s [] = s"
| "prog_after s (b # prog) = prog_after (instr_after s b) prog"

definition slot_result :: "bytecode \<Rightarrow> world \<Rightarrow> hw_event list \<Rightarrow> 's \<Rightarrow> syntax_io \<Rightarrow> world \<Rightarrow> bool" where
  "slot_result b w es s' io' w' \<longleftrightarrow> ready w' \<and> w_hw w' = w_hw w @ es \<and> state w' = s' \<and>
     bc_error (so_in io' ! so_in_cnt io') = bc_error b"

lemma call_handler_trace:
  assumes "call_handler h nxt io w = Some (io', w')" and "h = mode_handler mo (bc_command (so_in io ! so_in_cnt io))"
    and "bc_command (so_in io ! so_in_cnt io) \<le> SYN_READ_DAT" and "ready w"
  shows "slot_result (so_in io ! so_in_cnt io) w (emit (state w) (so_in io ! so_in_cnt io) nxt)
    (after (state w) (so_in io ! so_in_cnt io)) io' w'"
proof -
  let ?b = "so_in io ! so_in_cnt io"
  obtain b' w1 where h: "h ?b nxt w = (b', w1)" by fastforce
  then have "so_in_cnt io < length (so_in io)" "io' = io\<lparr>so_in := (so_in io)[so_in_cnt io := b']\<rparr>" "w' = w1"
    using assms(1) by (auto simp: call_handler_def split: if_splits)
  then show ?thesis
    using handler_trace [OF assms(3,4) h [unfolded assms(2)]] by (simp add: slot_result_def)
qed

lemma run_write_loop_trace:
  assumes "run_write_loop mo b n first io w = Some (io', w')" and "bc_command b = SYN_WRITE" and "ready w"
    and "first \<Longrightarrow> so_in io ! so_in_cnt io = b" and "bc_error (so_in io ! so_in_cnt io) = bc_error b"
  shows "slot_result b w (emits (state w) b (replicate n None)) (afters (state w) b n) io' w'"
  using assms
proof (induction n arbitrary: first io w)
  case 0
  then show ?case by (simp add: slot_result_def)
next
  case (Suc n)
  obtain io1 io2 w2 where io1: "next_slot b first io = Some io1"
    and call: "call_handler (protocol_write mo) None io1 w = Some (io2, w2)"
    and rest: "run_write_loop mo b n False io2 w2 = Some (io', w')"
    using Suc.prems(1) by (auto split: option.splits)
  have slot: "so_in io1 ! so_in_cnt io1 = b"
    using io1 Suc.prems(4) by (auto simp: next_slot_def update_in_def split: if_splits)
  have res: "slot_result b w (emit (state w) b None) (after (state w) b) io2 w2"
    using call_handler_trace [OF call] slot Suc.prems(2,3) by (simp add: mode_handler_def)
  then show ?case
    using Suc.IH [OF rest Suc.prems(2)] by (simp add: slot_result_def)
qed

lemma run_read_loop_trace:
  assumes "run_read_loop mo b nxt n first io w = Some (io', w')" and "bc_command b = SYN_READ" and "ready w"
    and "first \<Longrightarrow> so_in io ! so_in_cnt io = b" and "bc_error (so_in io ! so_in_cnt io) = bc_error b"
  shows "slot_result b w (emits (state w) b (read_calls n nxt)) (afters (state w) b n) io' w'"
  using assms
proof (induction n arbitrary: first io w)
  case 0
  then show ?case by (simp add: slot_result_def read_calls_def)
next
  case (Suc n)
  obtain io1 io2 w2 where io1: "next_slot b first io = Some io1"
    and call: "call_handler (protocol_read mo) (if n = 0 then nxt else None) io1 w = Some (io2, w2)"
    and rest: "run_read_loop mo b nxt n False io2 w2 = Some (io', w')"
    using Suc.prems(1) by (auto split: option.splits)
  have slot: "so_in io1 ! so_in_cnt io1 = b"
    using io1 Suc.prems(4) by (auto simp: next_slot_def update_in_def split: if_splits)
  have res: "slot_result b w (emit (state w) b (if n = 0 then nxt else None)) (after (state w) b) io2 w2"
    using call_handler_trace [OF call] slot Suc.prems(2,3) by (simp add: mode_handler_def)
  show ?case
    using Suc.IH [OF rest Suc.prems(2)] res by (cases n) (simp_all add: slot_result_def read_calls_def)
qed

lemma run_repeat_trace:
  assumes "run_repeat h n io w = Some (io', w')" and "h = mode_handler mo (bc_command b)" and "handler_ok h"
    and "bc_command b = SYN_TICK_CLOCK \<or> bc_command b = SYN_READ_DAT" and "ready w"
    and "same_instruction (so_in io ! so_in_cnt io) b" and "bc_error (so_in io ! so_in_cnt io) = bc_error b"
  shows "slot_result b w (emits (state w) b (replicate n None)) (afters (state w) b n) io' w'"
  using assms(1,5-7)
proof (induction n arbitrary: io w)
  case 0
  then show ?case by (simp add: slot_result_def)
next
  case (Suc n)
  obtain io1 w1 where call: "call_handler h None io w = Some (io1, w1)" and rest: "run_repeat h n io1 w1 = Some (io', w')"
    using Suc.prems(1) by (auto split: option.splits)
  have cmd: "bc_command (so_in io ! so_in_cnt io) = bc_command b"
    using Suc.prems(3) by (simp add: same_instruction_def)
  have "bc_command b \<le> SYN_READ_DAT"
    using assms(4) by auto
  then have res: "slot_result (so_in io ! so_in_cnt io) w (emit (state w) b None) (after (state w) b) io1 w1"
    using call_handler_trace [OF call] cmd assms(2) Suc.prems emit_same [OF Suc.prems(3) assms(4)] by simp
  have "same_instruction (so_in io1 ! so_in_cnt io1) b"
    using call_handler_SomeD [OF call assms(3)] Suc.prems(3) by (auto intro: same_instruction_trans)
  then show ?case
    using Suc.IH [OF rest] res Suc.prems(4) by (simp add: slot_result_def)
qed

text \<open>The check of the read handler looks at the first instruction; here it does not misfire.\<close>

definition next_of :: "syntax_io \<Rightarrow> nat \<Rightarrow> bytecode option" where
  "next_of io pos = (if pos + 1 < so_out_cnt io then Some (so_out io ! (pos + 1)) else None)"

lemma func_trace:
  assumes run: "syntax_run_func mo (bc_command b) io pos w = Some (io', w')"
    and b: "so_in io ! so_in_cnt io = b" "so_out io ! pos = b" and cmd: "bc_command b \<le> SYN_DELAY_MS"
    and rdy: "ready w" and fits: "so_in_cnt io + length (expand b) < SYN_MAX_LENGTH"
    and first: "so_in_cnt io + unat (bc_repeat (so_out io ! 0)) < SYN_MAX_LENGTH"
  shows "slot_result b w (instr_events (state w) b (next_of io pos)) (instr_after (state w) b) io' w'"
proof -
  let ?ok = "slot_result b w (instr_events (state w) b (next_of io pos)) (instr_after (state w) b) io' w'"
  have call: "syntax_run_protocol (mode_handler mo (bc_command b)) io w = Some (io', w') \<Longrightarrow>
      bc_command b \<le> SYN_READ_DAT \<Longrightarrow> slot_result b w (emit (state w) b None) (after (state w) b) io' w'"
    using call_handler_trace [of _ None io w io' w'] b(1) rdy by (simp add: syntax_run_protocol_def)
  have cmds: "bc_command b \<in> {SYN_WRITE, SYN_READ, SYN_START, SYN_STOP, SYN_START_ALT, SYN_STOP_ALT, SYN_TICK_CLOCK,
      SYN_SET_CLK_HIGH, SYN_SET_CLK_LOW, SYN_SET_DAT_HIGH, SYN_SET_DAT_LOW, SYN_READ_DAT, SYN_DELAY_US, SYN_DELAY_MS}"
    using cmd by (rule le_13_cases)
  note defs = instr_events_def instr_after_def instr_calls_def
  have wr: "bc_command b = SYN_WRITE \<Longrightarrow> ?ok"
    using run run_write_loop_trace [of b _ True io w io' w'] no_slot_wrap [of "so_in_cnt io" "bc_repeat b"] b rdy fits
    by (simp add: syntax_run_func_def syntax_run_write_def Let_def defs expand_length_rw)
  have rd: "bc_command b = SYN_READ \<Longrightarrow> ?ok"
    using run run_read_loop_trace [of b "next_of io pos" _ True io w io' w'] no_slot_wrap [OF first] b rdy
    by (simp add: syntax_run_func_def syntax_run_read_def Let_def defs next_of_def)
  have tick: "bc_command b = SYN_TICK_CLOCK \<Longrightarrow> ?ok"
    using run run_repeat_trace [of _ _ io w io' w' b] b rdy clk_ok(3)
    by (simp add: syntax_run_func_def syntax_run_tick_clock_def defs mode_handler_def)
  have bitr: "bc_command b = SYN_READ_DAT \<Longrightarrow> ?ok"
    using run run_repeat_trace [of _ _ io w io' w' b] b rdy dat_ok(3)
    by (simp add: syntax_run_func_def syntax_run_read_dat_def defs mode_handler_def)
  have delay: "bc_command b = SYN_DELAY_US \<or> bc_command b = SYN_DELAY_MS \<Longrightarrow> ?ok"
    using run b rdy ready_hw state_hw
    by (auto simp: syntax_run_func_def syntax_run_delay_us_def syntax_run_delay_ms_def defs slot_result_def)
  show ?thesis
    using cmds wr rd tick bitr delay run call
    by (elim insertE) (simp_all add: syntax_run_func_def defs mode_handler_def)
qed

lemma run_loop_trace:
  assumes inv: "run_inv prog pos io" and "pos + n = length prog"
    and cmds: "\<forall>b \<in> set prog. bc_command b \<le> SYN_DELAY_MS \<and> bc_error b = SERR_NONE"
    and fits: "length (expansion prog) + unat (bc_repeat (prog ! 0)) < SYN_MAX_LENGTH" and "ready w"
  shows "\<exists>io' w'. syntax_run_loop mo n pos io w = Ran SSTATUS_OK io' w' \<and> run_inv prog (length prog) io' \<and>
    w_hw w' = w_hw w @ prog_events (state w) (drop pos prog) \<and> ready w' \<and>
    state w' = prog_after (state w) (drop pos prog)"
  using inv \<open>pos + n = length prog\<close> \<open>ready w\<close>
proof (induction n arbitrary: pos io w)
  case 0
  then show ?case by auto
next
  case (Suc n)
  let ?b = "prog ! pos"
  have pos: "pos < length prog" and fits': "length (expansion prog) < SYN_MAX_LENGTH" using Suc.prems fits by simp_all
  have cmd: "bc_command ?b \<le> SYN_DELAY_MS" "bc_error ?b = SERR_NONE" using cmds pos by simp_all
  then have cmd': "bc_command ?b < 18" by (simp add: word_le_nat_alt word_less_nat_alt)
  note slot = start_slot_facts [OF Suc.prems(1) pos fits', of ?b] start_slot_room [OF Suc.prems(1) pos fits']
  obtain io2 w2 where run: "syntax_run_func mo (bc_command ?b) (start_slot ?b io) pos w = Some (io2, w2)"
    and adds: "run_adds ?b (start_slot ?b io) io2"
    using func_adds [of "start_slot ?b io" ?b pos w] slot by auto
  have "length (expansion prog) = length (expansion (take pos prog)) + length (expansion (drop pos prog))"
    using expansion_take_prefix [of prog pos] by simp
  then have "so_in_cnt io \<le> length (expansion prog)"
    using Suc.prems(1) by (simp add: run_inv_def)
  moreover have "so_out (start_slot ?b io) ! 0 = prog ! 0"
    using run_inv_program [OF Suc.prems(1), of] Suc.prems(1) pos by (auto simp: start_slot_def run_inv_def io_program_def)
  moreover have nxt: "next_of (start_slot ?b io) pos = (if drop (Suc pos) prog = [] then None else Some (hd (drop (Suc pos) prog)))"
    using run_inv_program [OF Suc.prems(1)] Suc.prems(1) pos
    by (auto simp: next_of_def start_slot_def run_inv_def io_program_def hd_drop_conv_nth)
  ultimately have res: "slot_result ?b w (instr_events (state w) ?b (next_of (start_slot ?b io) pos))
      (instr_after (state w) ?b) io2 w2"
    using func_trace [OF run] slot cmd Suc.prems(3) fits by auto
  then have "\<not> SERR_ERROR \<le> bc_error (so_in io2 ! so_in_cnt io2)"
    using cmd(2) by (simp add: slot_result_def)
  note step = run_loop_step(2) [OF Suc.prems(1) pos fits' cmd' run adds this, of n]
  show ?case
    using step Suc.IH [of "Suc pos" "io2\<lparr>so_in_cnt := so_in_cnt io2 + 1\<rparr>" w2] Suc.prems(2) res pos
    by (auto simp: slot_result_def nxt Cons_nth_drop_Suc [symmetric] simp del: drop_eq_Nil)
qed

lemma run_program_trace:
  assumes "io_ok io" and "0 < so_out_cnt io" and "so_out_cnt io \<le> SYN_MAX_LENGTH"
    and cmds: "\<forall>b \<in> set (io_program io). bc_command b \<le> SYN_DELAY_MS \<and> bc_error b = SERR_NONE"
    and fits: "length (expansion (io_program io)) + unat (bc_repeat (io_program io ! 0)) < SYN_MAX_LENGTH"
    and "ready w"
  shows "\<exists>io' w'. syntax_run mo io w = Ran SSTATUS_OK io' w' \<and>
    list_all2 same_instruction (results io') (expansion (io_program io)) \<and>
    w_hw w' = w_hw w @ prog_events (state w) (io_program io) \<and> ready w' \<and> state w' = prog_after (state w) (io_program io)"
  using run_loop_trace [OF run_inv_start(1) [OF assms(1,3)] _ cmds fits assms(6), of "so_out_cnt io"]
    run_inv_start(2) [OF assms(1,3)] assms(2)
  by (auto simp: syntax_run_def run_inv_def)

end

subsection \<open>Modes without a state of their own\<close>

locale traced_mode = protocol_mode +
  fixes ready :: "world \<Rightarrow> bool" and bus :: "bytecode \<Rightarrow> hw_event list"
  assumes ready_hw: "ready w \<Longrightarrow> ready (hw_do es w)"
    and handler_trace: "bc_command b \<le> SYN_READ_DAT \<Longrightarrow> ready w \<Longrightarrow>
      mode_handler mo (bc_command b) b nxt w = (b', w') \<Longrightarrow>
      ready w' \<and> w_hw w' = w_hw w @ bus b \<and> bc_error b' = bc_error b"
    and bus_same: "same_instruction a b \<Longrightarrow> bc_command b = SYN_TICK_CLOCK \<or> bc_command b = SYN_READ_DAT \<Longrightarrow>
      bus a = bus b"

sublocale traced_mode \<subseteq> machine: traced_machine mo ready "\<lambda>_. ()" "\<lambda>_ b _. bus b" "\<lambda>_ _. ()"
  by unfold_locales (use ready_hw handler_trace bus_same in auto)

context traced_mode
begin

definition instr_events :: "bytecode \<Rightarrow> hw_event list" where
  "instr_events b =
     (if bc_command b = SYN_DELAY_US then [BusyWaitUs (bc_repeat b)]
      else if bc_command b = SYN_DELAY_MS then [BusyWaitMs (bc_repeat b)]
      else if bc_command b \<in> {SYN_WRITE, SYN_READ, SYN_TICK_CLOCK, SYN_READ_DAT}
      then concat (replicate (unat (bc_repeat b)) (bus b))
      else bus b)"

lemma machine_emits: "machine.emits () b ns = concat (replicate (length ns) (bus b))"
  by (induction ns) simp_all

lemma machine_events: "machine.instr_events () b nxt = instr_events b"
  by (simp add: machine.instr_events_def instr_events_def machine.instr_calls_def machine_emits)

lemma machine_prog_events: "machine.prog_events () prog = concat (map instr_events prog)"
  by (induction prog) (simp_all add: machine_events)

lemma run_program_trace:
  assumes "io_ok io" and "0 < so_out_cnt io" and "so_out_cnt io \<le> SYN_MAX_LENGTH"
    and cmds: "\<forall>b \<in> set (io_program io). bc_command b \<le> SYN_DELAY_MS \<and> bc_error b = SERR_NONE"
    and fits: "length (expansion (io_program io)) + unat (bc_repeat (io_program io ! 0)) < SYN_MAX_LENGTH"
    and "ready w"
  shows "\<exists>io' w'. syntax_run mo io w = Ran SSTATUS_OK io' w' \<and>
    list_all2 same_instruction (results io') (expansion (io_program io)) \<and>
    w_hw w' = w_hw w @ concat (map instr_events (io_program io)) \<and> ready w'"
  using machine.run_program_trace [OF assms] unfolding machine_prog_events by blast

end

end
