(* ===== verification/Modes.thy ===== *)
theory Modes
  imports Mode_Trace
begin

text \<open>
  Protocol modes: the handlers the syntax engine calls and the setup and cleanup of HiZ
  (\<^verbatim>\<open>src/modes.c\<close>), DIO (\<^verbatim>\<open>src/mode/dio.c\<close>), SPI (\<^verbatim>\<open>src/mode/hwspi.c\<close>,
  \<^verbatim>\<open>src/pirate/hwspi.c\<close>), 2WIRE (\<^verbatim>\<open>src/mode/hw2wire.c\<close>, \<^verbatim>\<open>src/pirate/hw2wire_pio.c\<close>)
  and 3WIRE (\<^verbatim>\<open>src/mode/hw3wire.c\<close>, \<^verbatim>\<open>src/pirate/hw3wire_pio.c\<close>), and the proofs that each meets
  the engine's contract. A message is its translation key. A loop that waits for a FIFO or for
  the peripheral to be idle is not visible: the next event happens after it.
\<close>

subsection \<open>HiZ\<close>

definition nullfunc1_temp :: handler where
  "nullfunc1_temp result nxt w =
     (result, with_config (\<lambda>c. c\<lparr>sc_error := 1\<rparr>) (term_out [TMsg ''T_MODE_ERROR_NO_EFFECT'', TText crlf] w))"

definition hiz_ops :: mode_ops where
  "hiz_ops = \<lparr>protocol_start = nullfunc1_temp, protocol_start_alt = nullfunc1_temp,
     protocol_stop = nullfunc1_temp, protocol_stop_alt = nullfunc1_temp, protocol_write = nullfunc1_temp,
     protocol_read = nullfunc1_temp, protocol_clkh = nullfunc1_temp, protocol_clkl = nullfunc1_temp,
     protocol_dath = nullfunc1_temp, protocol_datl = nullfunc1_temp, protocol_tick_clock = nullfunc1_temp,
     protocol_bitr = nullfunc1_temp\<rparr>"

subsection \<open>DIO\<close>

text \<open>The loop of \<open>dio_write\<close> over the IO pins; pins in use for something else are left alone.\<close>

definition dio_write_pin :: "u32 \<Rightarrow> nat \<Rightarrow> u8 \<times> system_config \<Rightarrow> u8 \<times> system_config" where
  "dio_write_pin out_data i = (\<lambda>(msk, c).
     if sc_pin_func c ! (i + 1) \<noteq> BP_PIN_IO then (msk, c)
     else let c1 = system_bio_update_purpose_and_label True i BP_PIN_IO
                     (Some (if out_data AND push_bit i 1 \<noteq> 0 then ''AUXH'' else ''AUXL'')) c
          in (msk OR push_bit i 1, c1\<lparr>sc_aux_active := system_set_active c1 True i (sc_aux_active c1)\<rparr>))"

definition dio_write :: handler where
  "dio_write result nxt w =
     (case fold (dio_write_pin (bc_out_data result)) [0..<8] (0, w_config w) of
        (msk, c) \<Rightarrow>
          (result, hw_do [GpioPutMasked (ucast msk) 0xFF,
                          GpioPutMasked (push_bit 8 (ucast msk)) (push_bit 8 (bc_out_data result)),
                          GpioSetDirMasked (push_bit 8 (ucast msk)) 0xFF00] (with_config (\<lambda>_. c) w)))"

definition dio_read :: handler where
  "dio_read result nxt w =
     (let data = fold (\<lambda>i d. d OR push_bit i (of_bool (bio_get w i))) [0..<8] (0 :: u8)
      in (result\<lparr>bc_in_data := ucast data\<rparr>, w))"

definition dio_cleanup :: "world \<Rightarrow> world" where
  "dio_cleanup w = bio_init w"

definition dio_ops :: mode_ops where
  "dio_ops = hiz_ops\<lparr>protocol_write := dio_write, protocol_read := dio_read\<rparr>"

subsection \<open>SPI\<close>

abbreviation (input) BIO4 :: nat where "BIO4 \<equiv> 4"
abbreviation (input) M_SPI_CDI :: nat where "M_SPI_CDI \<equiv> 4"
abbreviation (input) M_SPI_CS :: nat where "M_SPI_CS \<equiv> 5"
abbreviation (input) M_SPI_CLK :: nat where "M_SPI_CLK \<equiv> 6"
abbreviation (input) M_SPI_CDO :: nat where "M_SPI_CDO \<equiv> 7"
abbreviation (input) M_SPI_SELECT :: u8 where "M_SPI_SELECT \<equiv> 0"
abbreviation (input) M_SPI_DESELECT :: u8 where "M_SPI_DESELECT \<equiv> 1"

definition hwspi_select :: "world \<Rightarrow> world" where
  "hwspi_select = bio_put M_SPI_CS False"

definition hwspi_deselect :: "world \<Rightarrow> world" where
  "hwspi_deselect = bio_put M_SPI_CS True"

definition hwspi_init :: "u8 \<Rightarrow> u8 \<Rightarrow> u8 \<Rightarrow> world \<Rightarrow> world" where
  "hwspi_init data_bits cpol cpha w =
     hwspi_deselect (bio_output M_SPI_CS (bio_set_function M_SPI_CS GPIO_FUNC_SIO
       (bio_set_function M_SPI_CDI GPIO_FUNC_SPI (bio_set_function M_SPI_CDO GPIO_FUNC_SPI
         (bio_set_function M_SPI_CLK GPIO_FUNC_SPI (hw_do [SpiSetFormat data_bits cpol cpha]
           (bio_buf_input M_SPI_CDI (bio_buf_output M_SPI_CDO (bio_buf_output M_SPI_CLK w)))))))))"

definition hwspi_deinit :: "world \<Rightarrow> world" where
  "hwspi_deinit w = bio_init (hw_do [SpiDeinit] w)"

definition hwspi_write_read :: "u8 \<Rightarrow> world \<Rightarrow> u32 \<times> world" where
  "hwspi_write_read data w = (let w1 = hw_do [SpiTransfer data] w in (ucast (w_bus_in w1 (w_hw w1)), w1))"

definition hwspi_read :: "world \<Rightarrow> u32 \<times> world" where
  "hwspi_read w = hwspi_write_read 0xFF w"

definition hwspi_write :: "u32 \<Rightarrow> world \<Rightarrow> world" where
  "hwspi_write data w = hw_do [SpiTransfer (ucast data)] w"

text \<open>\<open>count\<close> is an 8-bit counter; with 0 or more than 4 all four bytes are sent.\<close>

definition hwspi_write_32 :: "u32 \<Rightarrow> u8 \<Rightarrow> world \<Rightarrow> world" where
  "hwspi_write_32 data count w =
     (let n = (if count = 0 \<or> 4 < count then 4 else unat count)
      in fold hwspi_write (map (\<lambda>i. drop_bit (8 * (3 - i)) data) [0..<n]) w)"

definition hwspi_write_n :: "u8 list \<Rightarrow> world \<Rightarrow> world" where
  "hwspi_write_n data w = fold (\<lambda>d. hwspi_write (ucast d)) data w"

fun hwspi_read_n :: "nat \<Rightarrow> world \<Rightarrow> u8 list \<times> world" where
  "hwspi_read_n 0 w = ([], w)"
| "hwspi_read_n (Suc n) w =
     (let (d, w1) = hwspi_write_read 0xFF w; (ds, w2) = hwspi_read_n n w1 in (ucast d # ds, w2))"

definition hwspi_write_read_cs :: "u8 list \<Rightarrow> nat \<Rightarrow> world \<Rightarrow> u8 list \<times> world" where
  "hwspi_write_read_cs write_data read_count w =
     (let w1 = hwspi_write_n write_data (hwspi_select w); (ds, w2) = hwspi_read_n read_count w1
      in (ds, hwspi_deselect w2))"

definition with_spi :: "(spi_mode_config \<Rightarrow> spi_mode_config) \<Rightarrow> world \<Rightarrow> world" where
  "with_spi f w = w\<lparr>w_spi := f (w_spi w)\<rparr>"

definition spi_set_cs :: "u8 \<Rightarrow> world \<Rightarrow> world" where
  "spi_set_cs cs w =
     (if cs = M_SPI_SELECT
      then (if spi_cs_idle (w_spi w) \<noteq> 0 then hwspi_select w else hwspi_deselect w)
      else (if spi_cs_idle (w_spi w) \<noteq> 0 then hwspi_deselect w else hwspi_select w))"

definition spi_start :: handler where
  "spi_start result nxt w =
     (result\<lparr>bc_data_message := Some ''T_HWSPI_CS_SELECT''\<rparr>,
      spi_set_cs M_SPI_SELECT (with_spi (\<lambda>m. m\<lparr>spi_read_with_write := False\<rparr>) w))"

definition spi_startr :: handler where
  "spi_startr result nxt w =
     (result\<lparr>bc_data_message := Some ''T_HWSPI_CS_SELECT''\<rparr>,
      spi_set_cs M_SPI_SELECT (with_spi (\<lambda>m. m\<lparr>spi_read_with_write := True\<rparr>) w))"

definition spi_stop :: handler where
  "spi_stop result nxt w =
     (result\<lparr>bc_data_message := Some ''T_HWSPI_CS_DESELECT''\<rparr>,
      spi_set_cs M_SPI_DESELECT (with_spi (\<lambda>m. m\<lparr>spi_read_with_write := False\<rparr>) w))"

definition spi_stopr :: handler where
  "spi_stopr result nxt w =
     (result\<lparr>bc_data_message := Some ''T_HWSPI_CS_DESELECT''\<rparr>,
      spi_set_cs M_SPI_DESELECT (with_spi (\<lambda>m. m\<lparr>spi_read_with_write := False\<rparr>) w))"

definition spi_write :: handler where
  "spi_write result nxt w =
     (let temp = (if sc_bit_order (w_config w) \<noteq> 0 then ui_format_lsb (bc_out_data result) (ucast (bc_bits result))
                  else bc_out_data result);
          (v, w1) = hwspi_write_read (ucast temp) w
      in (result\<lparr>bc_in_data := v, bc_read_with_write := spi_read_with_write (w_spi w)\<rparr>, w1))"

definition spi_read :: handler where
  "spi_read result nxt w =
     (case hwspi_read w of (v, w1) \<Rightarrow>
        (result\<lparr>bc_in_data := (if sc_bit_order (w_config w) \<noteq> 0 then ui_format_lsb v (ucast (bc_bits result))
                              else ucast (ucast v :: u8))\<rparr>, w1))"

definition spi_setup_exc :: "world \<Rightarrow> u32 \<times> world" where
  "spi_setup_exc w =
     (let w1 = hw_do [SpiInit (spi_baudrate (w_spi w))] w;
          w2 = with_spi (\<lambda>m. m\<lparr>spi_read_with_write := False, spi_baudrate_actual := w_spi_init w (spi_baudrate m)\<rparr>) w1;
          w3 = hwspi_init (ucast (spi_data_bits (w_spi w))) (ucast (spi_clock_polarity (w_spi w)))
                 (ucast (spi_clock_phase (w_spi w))) w2;
          w4 = with_config (system_bio_update_purpose_and_label True M_SPI_CS BP_PIN_MODE (Some ''CS'')
                 \<circ> system_bio_update_purpose_and_label True M_SPI_CDI BP_PIN_MODE (Some ''MISO'')
                 \<circ> system_bio_update_purpose_and_label True M_SPI_CDO BP_PIN_MODE (Some ''MOSI'')
                 \<circ> system_bio_update_purpose_and_label True M_SPI_CLK BP_PIN_MODE (Some ''CLK'')) w3;
          w5 = spi_set_cs M_SPI_DESELECT w4
      in (spi_baudrate_actual (w_spi w5), w5))"

definition spi_cleanup :: "world \<Rightarrow> world" where
  "spi_cleanup w =
     with_config (system_bio_update_purpose_and_label False M_SPI_CS BP_PIN_MODE None
                 \<circ> system_bio_update_purpose_and_label False M_SPI_CDI BP_PIN_MODE None
                 \<circ> system_bio_update_purpose_and_label False M_SPI_CDO BP_PIN_MODE None
                 \<circ> system_bio_update_purpose_and_label False M_SPI_CLK BP_PIN_MODE None) (hwspi_deinit w)"

definition spi_get_speed :: "world \<Rightarrow> u32" where
  "spi_get_speed w = spi_baudrate_actual (w_spi w)"

definition spi_ops :: mode_ops where
  "spi_ops = hiz_ops\<lparr>protocol_start := spi_start, protocol_start_alt := spi_startr, protocol_stop := spi_stop,
     protocol_stop_alt := spi_stopr, protocol_write := spi_write, protocol_read := spi_read\<rparr>"

subsection \<open>The PIO instruction sequences of 2WIRE and 3WIRE\<close>

text \<open>\<open>set_scl_sda_program_instructions\<close>, the table assembled from \<^verbatim>\<open>src/pirate/hw2wire.pio\<close>.\<close>

definition set_scl_sda_program_instructions :: "u16 list" where
  "set_scl_sda_program_instructions = [0xF700, 0xF701, 0xFF00, 0xFF01]"

abbreviation (input) SC0_SD0 :: u16 where "SC0_SD0 \<equiv> set_scl_sda_program_instructions ! 0"
abbreviation (input) SC0_SD1 :: u16 where "SC0_SD1 \<equiv> set_scl_sda_program_instructions ! 1"
abbreviation (input) SC1_SD0 :: u16 where "SC1_SD0 \<equiv> set_scl_sda_program_instructions ! 2"
abbreviation (input) SC1_SD1 :: u16 where "SC1_SD1 \<equiv> set_scl_sda_program_instructions ! 3"

definition icount :: "nat \<Rightarrow> u16" where
  "icount n = push_bit 10 (of_nat n)"

definition pio_hw2wire_put_instructions :: "u16 list \<Rightarrow> world \<Rightarrow> world" where
  "pio_hw2wire_put_instructions inst = hw_do (PioRxEnable False # map (\<lambda>i. PioTx (ucast i)) inst)"

definition pio_hw2wire_put16 :: "u16 \<Rightarrow> world \<Rightarrow> world" where
  "pio_hw2wire_put16 data = hw_do [PioRxEnable False, PioTx (ucast (data AND 0xFF))]"

definition pio_hw2wire_get16 :: "world \<Rightarrow> u8 \<times> world" where
  "pio_hw2wire_get16 w =
     (let w1 = hw_do [PioRxEnable True, PioDrainRx, PioTx 0x1FF] w
      in (ucast (w_pio_in w1 (w_hw w1)), hw_do [PioRx] w1))"

definition pio_hw2wire_reset :: "world \<Rightarrow> world" where
  "pio_hw2wire_reset = pio_hw2wire_put_instructions [icount 1, SC1_SD1, SC0_SD0]"

definition pio_hw2wire_start :: "world \<Rightarrow> world" where
  "pio_hw2wire_start = pio_hw2wire_put_instructions [icount 2, SC1_SD1, SC1_SD0, SC0_SD0]"

definition pio_hw2wire_stop :: "world \<Rightarrow> world" where
  "pio_hw2wire_stop = pio_hw2wire_put_instructions [icount 2, SC0_SD0, SC1_SD0, SC1_SD1]"

definition pio_hw2wire_restart :: "world \<Rightarrow> world" where
  "pio_hw2wire_restart = pio_hw2wire_put_instructions [icount 3, SC0_SD1, SC1_SD1, SC1_SD0, SC0_SD0]"

text \<open>
  The instruction built on the fly. Bit 0 is the data pin, bit 11 the clock; a pin outside
  \<open>pin_mask\<close> keeps its state, which is read back from the pad (\<open>keep\<close>).
\<close>

definition set_mask_instruction :: "u32 \<Rightarrow> u32 \<Rightarrow> bool \<Rightarrow> bool \<Rightarrow> u16" where
  "set_mask_instruction pin_mask pin_value keep_data keep_clock =
     0xF700 OR (if (if pin_mask AND 1 \<noteq> 0 then pin_value AND 1 \<noteq> 0 else keep_data) then 1 else 0)
     OR (if (if pin_mask AND 2 \<noteq> 0 then pin_value AND 2 \<noteq> 0 else keep_clock) then push_bit 11 1 else 0)"

definition pio_hw2wire_set_mask :: "u32 \<Rightarrow> u32 \<Rightarrow> world \<Rightarrow> world" where
  "pio_hw2wire_set_mask pin_mask pin_value w =
     pio_hw2wire_put_instructions [icount 1, 0xA042,
       set_mask_instruction pin_mask pin_value (\<not> w_outtopad w (w_hw w) 0) (\<not> w_outtopad w (w_hw w) 1)] w"

definition pio_hw2wire_clock_tick :: "world \<Rightarrow> world" where
  "pio_hw2wire_clock_tick w =
     (let instruction = 0xF700 OR (if \<not> w_outtopad w (w_hw w) 0 then 1 else 0)
      in pio_hw2wire_put_instructions [icount 2, instruction, instruction OR push_bit 11 1, instruction] w)"

subsection \<open>2WIRE\<close>

abbreviation (input) M_2WIRE_SDA :: nat where "M_2WIRE_SDA \<equiv> 0"
abbreviation (input) M_2WIRE_SCL :: nat where "M_2WIRE_SCL \<equiv> 1"
abbreviation (input) M_2WIRE_RST :: nat where "M_2WIRE_RST \<equiv> 2"

definition hw2wire_setup_exc :: "world \<Rightarrow> world" where
  "hw2wire_setup_exc w =
     bio_put M_2WIRE_RST False (pio_hw2wire_reset
       (with_config (system_bio_update_purpose_and_label True M_2WIRE_RST BP_PIN_MODE (Some ''RST'')
          \<circ> system_bio_update_purpose_and_label True M_2WIRE_SCL BP_PIN_MODE (Some ''SCL'')
          \<circ> system_bio_update_purpose_and_label True M_2WIRE_SDA BP_PIN_MODE (Some ''SDA''))
         (hw_do [PioInit ''hw2wire'' [bio2bufiopin ! M_2WIRE_SDA, bio2bufiopin ! M_2WIRE_SCL,
                    bio2bufdirpin ! M_2WIRE_SDA, bio2bufdirpin ! M_2WIRE_SCL] (w_2wire_baudrate w)] w)))"

definition hw2wire_cleanup :: "world \<Rightarrow> world" where
  "hw2wire_cleanup w =
     with_config (system_bio_update_purpose_and_label False M_2WIRE_RST BP_PIN_MODE None
          \<circ> system_bio_update_purpose_and_label False M_2WIRE_SCL BP_PIN_MODE None
          \<circ> system_bio_update_purpose_and_label False M_2WIRE_SDA BP_PIN_MODE None)
       (bio_init (hw_do [PioRemoveProgram] w))"

definition hw2wire_start :: handler where
  "hw2wire_start result nxt w = (result\<lparr>bc_data_message := Some ''T_HWI2C_START''\<rparr>, pio_hw2wire_start w)"

definition hw2wire_start_alt :: handler where
  "hw2wire_start_alt result nxt w =
     (result\<lparr>bc_data_message := Some ''T_HW2WIRE_RST_HIGH''\<rparr>, bio_input M_2WIRE_RST w)"

definition hw2wire_stop :: handler where
  "hw2wire_stop result nxt w = (result\<lparr>bc_data_message := Some ''T_HWI2C_STOP''\<rparr>, pio_hw2wire_stop w)"

definition hw2wire_stop_alt :: handler where
  "hw2wire_stop_alt result nxt w =
     (result\<lparr>bc_data_message := Some ''T_HW2WIRE_RST_LOW''\<rparr>, bio_output M_2WIRE_RST w)"

definition hw2wire_write :: handler where
  "hw2wire_write result nxt w =
     (let temp = ui_format_bitorder_manual (bc_out_data result) (ucast (bc_bits result)) (sc_bit_order (w_config w) \<noteq> 0)
      in (result, pio_hw2wire_put16 (ucast temp) w))"

definition hw2wire_read :: handler where
  "hw2wire_read result nxt w =
     (case pio_hw2wire_get16 w of (temp8, w1) \<Rightarrow>
        (result\<lparr>bc_in_data := ui_format_bitorder_manual (ucast temp8) (ucast (bc_bits result)) (sc_bit_order (w_config w1) \<noteq> 0)\<rparr>, w1))"

definition hw2wire_tick_clock :: handler where
  "hw2wire_tick_clock result nxt w = (result, pio_hw2wire_clock_tick w)"

definition hw2wire_set_clk_high :: handler where
  "hw2wire_set_clk_high result nxt w = (result\<lparr>bc_out_data := 1\<rparr>, pio_hw2wire_set_mask 2 2 w)"

definition hw2wire_set_clk_low :: handler where
  "hw2wire_set_clk_low result nxt w = (result\<lparr>bc_out_data := 0\<rparr>, pio_hw2wire_set_mask 2 0 w)"

definition hw2wire_set_dat_high :: handler where
  "hw2wire_set_dat_high result nxt w = (result\<lparr>bc_out_data := 1\<rparr>, pio_hw2wire_set_mask 1 1 w)"

definition hw2wire_set_dat_low :: handler where
  "hw2wire_set_dat_low result nxt w = (result\<lparr>bc_out_data := 0\<rparr>, pio_hw2wire_set_mask 1 0 w)"

definition hw2wire_read_bit :: handler where
  "hw2wire_read_bit result nxt w = (result\<lparr>bc_in_data := of_bool (bio_get w M_2WIRE_SDA)\<rparr>, w)"

definition hw2wire_get_speed :: "world \<Rightarrow> u32" where
  "hw2wire_get_speed w = w_2wire_baudrate w * 1000"

definition hw2wire_ops :: mode_ops where
  "hw2wire_ops = \<lparr>protocol_start = hw2wire_start, protocol_start_alt = hw2wire_start_alt,
     protocol_stop = hw2wire_stop, protocol_stop_alt = hw2wire_stop_alt, protocol_write = hw2wire_write,
     protocol_read = hw2wire_read, protocol_clkh = hw2wire_set_clk_high, protocol_clkl = hw2wire_set_clk_low,
     protocol_dath = hw2wire_set_dat_high, protocol_datl = hw2wire_set_dat_low,
     protocol_tick_clock = hw2wire_tick_clock, protocol_bitr = hw2wire_read_bit\<rparr>"

subsection \<open>3WIRE\<close>

abbreviation (input) M_3WIRE_MISO :: nat where "M_3WIRE_MISO \<equiv> 4"
abbreviation (input) M_3WIRE_CS :: nat where "M_3WIRE_CS \<equiv> 5"
abbreviation (input) M_3WIRE_SCLK :: nat where "M_3WIRE_SCLK \<equiv> 6"
abbreviation (input) M_3WIRE_MOSI :: nat where "M_3WIRE_MOSI \<equiv> 7"
abbreviation (input) M_3WIRE_SELECT :: u8 where "M_3WIRE_SELECT \<equiv> 0"
abbreviation (input) M_3WIRE_DESELECT :: u8 where "M_3WIRE_DESELECT \<equiv> 1"

definition pio_hw3wire_put_instructions :: "u16 list \<Rightarrow> world \<Rightarrow> world" where
  "pio_hw3wire_put_instructions inst = hw_do (map (\<lambda>i. PioTx (ucast i)) inst)"

definition pio_hw3wire_get16 :: "u8 \<Rightarrow> world \<Rightarrow> u8 \<times> world" where
  "pio_hw3wire_get16 data w =
     (let w1 = hw_do [PioDrainRx, PioTx (ucast data)] w
      in (ucast (w_pio_in w1 (w_hw w1)), hw_do [PioRx] w1))"

definition pio_hw3wire_set_mask :: "u32 \<Rightarrow> u32 \<Rightarrow> world \<Rightarrow> world" where
  "pio_hw3wire_set_mask pin_mask pin_value w =
     pio_hw3wire_put_instructions [icount 1, 0xA042,
       set_mask_instruction pin_mask pin_value (w_outtopad w (w_hw w) 15) (w_outtopad w (w_hw w) 14)] w"

definition pio_hw3wire_clock_tick :: "world \<Rightarrow> world" where
  "pio_hw3wire_clock_tick w =
     (let instruction = 0xF700 OR (if w_outtopad w (w_hw w) 15 then 1 else 0)
      in pio_hw3wire_put_instructions [icount 2, instruction, instruction OR push_bit 11 1, instruction] w)"

definition with_3wire :: "(hw3wire_mode_config \<Rightarrow> hw3wire_mode_config) \<Rightarrow> world \<Rightarrow> world" where
  "with_3wire f w = w\<lparr>w_3wire := f (w_3wire w)\<rparr>"

definition hw3wire_set_cs :: "u8 \<Rightarrow> world \<Rightarrow> world" where
  "hw3wire_set_cs cs w =
     (if cs = M_3WIRE_SELECT then bio_put M_3WIRE_CS (w3_cs_idle (w_3wire w) = 0) w
      else bio_put M_3WIRE_CS (w3_cs_idle (w_3wire w) \<noteq> 0) w)"

definition hw3wire_setup_exc :: "world \<Rightarrow> world" where
  "hw3wire_setup_exc w =
     hw3wire_set_cs M_3WIRE_DESELECT
       (with_config (system_bio_update_purpose_and_label True M_3WIRE_CS BP_PIN_MODE (Some ''CS'')
          \<circ> system_bio_update_purpose_and_label True M_3WIRE_MISO BP_PIN_MODE (Some ''MISO'')
          \<circ> system_bio_update_purpose_and_label True M_3WIRE_SCLK BP_PIN_MODE (Some ''SCLK'')
          \<circ> system_bio_update_purpose_and_label True M_3WIRE_MOSI BP_PIN_MODE (Some ''MOSI''))
         (hw_do [PioInit ''hw3wire'' [bio2bufiopin ! M_3WIRE_MOSI, bio2bufiopin ! M_3WIRE_SCLK,
                    bio2bufiopin ! M_3WIRE_MISO] (w3_baudrate (w_3wire w))]
           (bio_output M_3WIRE_CS (bio_set_function M_3WIRE_CS GPIO_FUNC_SIO (bio_buf_input M_3WIRE_MISO
             (bio_buf_output M_3WIRE_SCLK (bio_buf_output M_3WIRE_MOSI w)))))))"

definition hw3wire_cleanup :: "world \<Rightarrow> world" where
  "hw3wire_cleanup w =
     with_config (system_bio_update_purpose_and_label False M_3WIRE_CS BP_PIN_MODE None
          \<circ> system_bio_update_purpose_and_label False M_3WIRE_MISO BP_PIN_MODE None
          \<circ> system_bio_update_purpose_and_label False M_3WIRE_SCLK BP_PIN_MODE None
          \<circ> system_bio_update_purpose_and_label False M_3WIRE_MOSI BP_PIN_MODE None)
       (bio_init (hw_do [PioRemoveProgram] w))"

definition hw3wire_start :: handler where
  "hw3wire_start result nxt w =
     (result\<lparr>bc_data_message := Some ''T_HWSPI_CS_SELECT''\<rparr>,
      hw3wire_set_cs M_3WIRE_SELECT (with_3wire (\<lambda>m. m\<lparr>w3_read_with_write := False\<rparr>) w))"

definition hw3wire_start_alt :: handler where
  "hw3wire_start_alt result nxt w =
     (result\<lparr>bc_data_message := Some ''T_HWSPI_CS_SELECT''\<rparr>,
      hw3wire_set_cs M_3WIRE_SELECT (with_3wire (\<lambda>m. m\<lparr>w3_read_with_write := True\<rparr>) w))"

definition hw3wire_stop :: handler where
  "hw3wire_stop result nxt w =
     (result\<lparr>bc_data_message := Some ''T_HWSPI_CS_DESELECT''\<rparr>,
      hw3wire_set_cs M_3WIRE_DESELECT (with_3wire (\<lambda>m. m\<lparr>w3_read_with_write := False\<rparr>) w))"

definition hw3wire_stop_alt :: handler where
  "hw3wire_stop_alt result nxt w =
     (result\<lparr>bc_data_message := Some ''T_HWSPI_CS_DESELECT''\<rparr>,
      hw3wire_set_cs M_3WIRE_DESELECT (with_3wire (\<lambda>m. m\<lparr>w3_read_with_write := False\<rparr>) w))"

text \<open>\<open>pio_hw3wire_get16((uint8_t*)&temp)\<close> replaces the low byte of \<open>temp\<close> only.\<close>

definition hw3wire_write :: handler where
  "hw3wire_write result nxt w =
     (let temp = ui_format_bitorder_manual (bc_out_data result) (ucast (bc_bits result)) (sc_bit_order (w_config w) \<noteq> 0);
          (v, w1) = pio_hw3wire_get16 (ucast temp) w
      in (result\<lparr>bc_in_data := (temp AND NOT 0xFF) OR ucast v,
                 bc_read_with_write := w3_read_with_write (w_3wire w)\<rparr>, w1))"

definition hw3wire_read :: handler where
  "hw3wire_read result nxt w =
     (case pio_hw3wire_get16 0xFF w of (v, w1) \<Rightarrow> (result\<lparr>bc_in_data := ucast v\<rparr>, w1))"

definition hw3wire_tick_clock :: handler where
  "hw3wire_tick_clock result nxt w = (result, pio_hw3wire_clock_tick w)"

definition hw3wire_set_clk_high :: handler where
  "hw3wire_set_clk_high result nxt w = (result\<lparr>bc_out_data := 1\<rparr>, pio_hw3wire_set_mask 2 2 w)"

definition hw3wire_set_clk_low :: handler where
  "hw3wire_set_clk_low result nxt w = (result\<lparr>bc_out_data := 0\<rparr>, pio_hw3wire_set_mask 2 0 w)"

definition hw3wire_set_dat_high :: handler where
  "hw3wire_set_dat_high result nxt w = (result\<lparr>bc_out_data := 1\<rparr>, pio_hw3wire_set_mask 1 1 w)"

definition hw3wire_set_dat_low :: handler where
  "hw3wire_set_dat_low result nxt w = (result\<lparr>bc_out_data := 0\<rparr>, pio_hw3wire_set_mask 1 0 w)"

definition hw3wire_read_bit :: handler where
  "hw3wire_read_bit result nxt w = (result\<lparr>bc_in_data := of_bool (bio_get w M_3WIRE_MISO)\<rparr>, w)"

definition hw3wire_get_speed :: "world \<Rightarrow> u32" where
  "hw3wire_get_speed w = w3_baudrate (w_3wire w)"

definition hw3wire_ops :: mode_ops where
  "hw3wire_ops = \<lparr>protocol_start = hw3wire_start, protocol_start_alt = hw3wire_start_alt,
     protocol_stop = hw3wire_stop, protocol_stop_alt = hw3wire_stop_alt, protocol_write = hw3wire_write,
     protocol_read = hw3wire_read, protocol_clkh = hw3wire_set_clk_high, protocol_clkl = hw3wire_set_clk_low,
     protocol_dath = hw3wire_set_dat_high, protocol_datl = hw3wire_set_dat_low,
     protocol_tick_clock = hw3wire_tick_clock, protocol_bitr = hw3wire_read_bit\<rparr>"

subsection \<open>The modes meet the engine's contract\<close>

lemma nullfunc1_temp_ok: "handler_ok nullfunc1_temp"
  by (simp add: handler_ok_def nullfunc1_temp_def)

lemma hiz_ops_sel [simp]:
  "protocol_start hiz_ops = nullfunc1_temp" "protocol_start_alt hiz_ops = nullfunc1_temp"
  "protocol_stop hiz_ops = nullfunc1_temp" "protocol_stop_alt hiz_ops = nullfunc1_temp"
  "protocol_write hiz_ops = nullfunc1_temp" "protocol_read hiz_ops = nullfunc1_temp"
  "protocol_clkh hiz_ops = nullfunc1_temp" "protocol_clkl hiz_ops = nullfunc1_temp"
  "protocol_dath hiz_ops = nullfunc1_temp" "protocol_datl hiz_ops = nullfunc1_temp"
  "protocol_tick_clock hiz_ops = nullfunc1_temp" "protocol_bitr hiz_ops = nullfunc1_temp"
  by (simp_all add: hiz_ops_def)

lemma mode_handler_hiz: "mode_handler hiz_ops c = nullfunc1_temp"
  by (simp add: mode_handler_def cong: if_cong)

interpretation hiz: traced_mode hiz_ops "\<lambda>_. True" "\<lambda>_. []"
proof unfold_locales
  fix b b' :: bytecode and nxt w w'
  assume "mode_handler hiz_ops (bc_command b) b nxt w = (b', w')"
  then show "True \<and> w_hw w' = w_hw w @ [] \<and> bc_error b' = bc_error b"
    by (auto simp: mode_handler_hiz nullfunc1_temp_def)
qed (simp_all add: nullfunc1_temp_ok)

lemma dio_handlers_ok: "handler_ok dio_write" "handler_ok dio_read"
  by (simp_all add: handler_ok_def dio_write_def dio_read_def Let_def split: prod.split)

definition dio_mask :: "bp_pin_func list \<Rightarrow> u8" where
  "dio_mask pf = fold (\<lambda>i m. if pf ! (i + 1) \<noteq> BP_PIN_IO then m else m OR push_bit i 1) [0..<8] 0"

definition dio_bus :: "bp_pin_func list \<Rightarrow> bytecode \<Rightarrow> hw_event list" where
  "dio_bus pf b =
     (if bc_command b = SYN_WRITE
      then [GpioPutMasked (ucast (dio_mask pf)) 0xFF,
            GpioPutMasked (push_bit 8 (ucast (dio_mask pf))) (push_bit 8 (bc_out_data b)),
            GpioSetDirMasked (push_bit 8 (ucast (dio_mask pf))) 0xFF00]
      else [])"

lemma dio_write_pins:
  "\<exists>c'. fold (dio_write_pin d) is (m, c) =
      (fold (\<lambda>i m. if sc_pin_func c ! (i + 1) \<noteq> BP_PIN_IO then m else m OR push_bit i 1) is m, c') \<and>
    sc_pin_func c' = sc_pin_func c"
proof (induction "is" arbitrary: m c)
  case (Cons i "is")
  obtain m1 c1 where step: "dio_write_pin d i (m, c) = (m1, c1)" by fastforce
  then have c1: "sc_pin_func c1 = sc_pin_func c"
    by (auto simp: dio_write_pin_def Let_def system_bio_update_purpose_and_label_def
        system_pin_update_purpose_and_label_def split: if_splits) (metis list_update_id)+
  have m1: "m1 = (if sc_pin_func c ! (i + 1) \<noteq> BP_PIN_IO then m else m OR push_bit i 1)"
    using step by (auto simp: dio_write_pin_def Let_def split: if_splits)
  show ?case
    using Cons.IH [of m1 c1] by (simp add: step c1 m1)
qed simp

interpretation dio: traced_mode dio_ops "\<lambda>w. sc_pin_func (w_config w) = pf" "dio_bus pf" for pf
proof unfold_locales
  fix b b' :: bytecode and nxt and w w' :: world
  assume cmd: "bc_command b \<le> SYN_READ_DAT" and ready: "sc_pin_func (w_config w) = pf"
    and run: "mode_handler dio_ops (bc_command b) b nxt w = (b', w')"
  obtain c where "fold (dio_write_pin (bc_out_data b)) [0..<8] (0, w_config w) = (dio_mask pf, c)" "sc_pin_func c = pf"
    using dio_write_pins [of "bc_out_data b" "[0..<8]" 0 "w_config w"] ready by (auto simp: dio_mask_def)
  then show "sc_pin_func (w_config w') = pf \<and> w_hw w' = w_hw w @ dio_bus pf b \<and> bc_error b' = bc_error b"
    using run ready
    by (auto simp: mode_handler_def dio_ops_def nullfunc1_temp_def dio_write_def dio_read_def dio_bus_def Let_def
        simp del: upt_rec_numeral split: if_splits)
qed (auto simp: dio_ops_def nullfunc1_temp_ok dio_handlers_ok dio_bus_def same_instruction_def)

lemma spi_handlers_ok:
  "handler_ok spi_start" "handler_ok spi_startr" "handler_ok spi_stop" "handler_ok spi_stopr"
  "handler_ok spi_write" "handler_ok spi_read"
  by (simp_all add: handler_ok_def spi_start_def spi_startr_def spi_stop_def spi_stopr_def spi_write_def
      spi_read_def Let_def split: prod.split)

text \<open>The events of the SPI bus for a bit order and an idle level of the chip select (GPIO 13).\<close>

definition spi_bus :: "bool \<Rightarrow> u32 \<Rightarrow> bytecode \<Rightarrow> hw_event list" where
  "spi_bus lsb idle b =
     (if bc_command b = SYN_START \<or> bc_command b = SYN_START_ALT then [GpioPut 13 (idle = 0)]
      else if bc_command b = SYN_STOP \<or> bc_command b = SYN_STOP_ALT then [GpioPut 13 (idle \<noteq> 0)]
      else if bc_command b = SYN_WRITE
      then [SpiTransfer (ucast (if lsb then ui_format_lsb (bc_out_data b) (ucast (bc_bits b)) else bc_out_data b))]
      else if bc_command b = SYN_READ then [SpiTransfer 0xFF]
      else [])"

definition spi_ready :: "bool \<Rightarrow> u32 \<Rightarrow> world \<Rightarrow> bool" where
  "spi_ready lsb idle w \<longleftrightarrow> (sc_bit_order (w_config w) \<noteq> 0) = lsb \<and> spi_cs_idle (w_spi w) = idle"

lemma spi_select_simps [simp]:
  "w_hw (hwspi_select w) = w_hw w @ [GpioPut 13 False]" "w_hw (hwspi_deselect w) = w_hw w @ [GpioPut 13 True]"
  "w_config (hwspi_select w) = w_config w" "w_config (hwspi_deselect w) = w_config w"
  "w_spi (hwspi_select w) = w_spi w" "w_spi (hwspi_deselect w) = w_spi w"
  by (simp_all add: hwspi_select_def hwspi_deselect_def bio_put_def bio2bufiopin_def)

interpretation spi: traced_mode spi_ops "spi_ready lsb idle" "spi_bus lsb idle" for lsb idle
proof unfold_locales
  fix b b' :: bytecode and nxt and w w' :: world
  assume cmd: "bc_command b \<le> SYN_READ_DAT" and ready: "spi_ready lsb idle w"
    and run: "mode_handler spi_ops (bc_command b) b nxt w = (b', w')"
  have cs: "w_hw (spi_set_cs x w) = w_hw w @ [GpioPut 13 ((x = M_SPI_SELECT) = (spi_cs_idle (w_spi w) = 0))]"
    "w_config (spi_set_cs x w) = w_config w" "w_spi (spi_set_cs x w) = w_spi w" for x w
    by (simp_all add: spi_set_cs_def)
  have sp: "w_hw (with_spi f w) = w_hw w" "w_config (with_spi f w) = w_config w" "w_spi (with_spi f w) = f (w_spi w)" for f w
    by (simp_all add: with_spi_def)
  show "spi_ready lsb idle w' \<and> w_hw w' = w_hw w @ spi_bus lsb idle b \<and> bc_error b' = bc_error b"
    using run ready unfolding mode_handler_def spi_ready_def spi_bus_def
    by (auto simp: spi_ops_def nullfunc1_temp_def spi_start_def spi_startr_def spi_stop_def spi_stopr_def
        spi_write_def spi_read_def hwspi_read_def hwspi_write_read_def Let_def cs sp split: if_splits)
qed (auto simp: spi_ops_def nullfunc1_temp_ok spi_handlers_ok spi_bus_def same_instruction_def spi_ready_def)

interpretation hw2wire: protocol_mode hw2wire_ops
  by unfold_locales
    (simp_all add: handler_ok_def hw2wire_ops_def hw2wire_start_def hw2wire_start_alt_def hw2wire_stop_def
      hw2wire_stop_alt_def hw2wire_write_def hw2wire_read_def hw2wire_tick_clock_def hw2wire_set_clk_high_def
      hw2wire_set_clk_low_def hw2wire_set_dat_high_def hw2wire_set_dat_low_def hw2wire_read_bit_def Let_def
      split: prod.split)

interpretation hw3wire: protocol_mode hw3wire_ops
  by unfold_locales
    (simp_all add: handler_ok_def hw3wire_ops_def hw3wire_start_def hw3wire_start_alt_def hw3wire_stop_def
      hw3wire_stop_alt_def hw3wire_write_def hw3wire_read_def hw3wire_tick_clock_def hw3wire_set_clk_high_def
      hw3wire_set_clk_low_def hw3wire_set_dat_high_def hw3wire_set_dat_low_def hw3wire_read_bit_def Let_def
      split: prod.split)

subsection \<open>Properties\<close>

text \<open>A program the engine can run to its end: it fits the result array, with the room the read
  handler's check wants.\<close>

definition runnable :: "syntax_io \<Rightarrow> bool" where
  "runnable io \<longleftrightarrow> io_ok io \<and> 0 < so_out_cnt io \<and> so_out_cnt io \<le> SYN_MAX_LENGTH \<and>
     length (expansion (io_program io)) < SYN_MAX_LENGTH"

text \<open>A program of bus instructions and delays, and the events it stands for.\<close>

definition bus_program :: "syntax_io \<Rightarrow> bool" where
  "bus_program io \<longleftrightarrow> runnable io \<and>
     (\<forall>b \<in> set (io_program io). bc_command b \<le> SYN_DELAY_MS \<and> bc_error b = SERR_NONE) \<and>
     length (expansion (io_program io)) + unat (bc_repeat (io_program io ! 0)) < SYN_MAX_LENGTH"

fun bus_events :: "(bytecode \<Rightarrow> hw_event list) \<Rightarrow> bytecode list \<Rightarrow> hw_event list" where
  "bus_events bus [] = []"
| "bus_events bus (b # prog) =
     (if bc_command b = SYN_DELAY_US then [BusyWaitUs (bc_repeat b)]
      else if bc_command b = SYN_DELAY_MS then [BusyWaitMs (bc_repeat b)]
      else if bc_command b \<in> {SYN_WRITE, SYN_READ, SYN_TICK_CLOCK, SYN_READ_DAT}
      then concat (replicate (unat (bc_repeat b)) (bus b))
      else bus b) @ bus_events bus prog"

lemma bus_events_concat:
  "bus_events bus prog = concat (map (\<lambda>b. bus_events bus [b]) prog)"
  by (induction prog) auto

lemma length_expansion_ge: "length prog \<le> length (expansion prog)"
proof (induction prog)
  case (Cons b prog)
  have "1 \<le> length (expand b)" using length_expand_pos [of b] by linarith
  then show ?case using Cons by (simp add: expansion_def)
qed simp

lemma io_program_io_of [simp]: "io_program (io_of prog) = prog"
  by (simp add: io_program_def io_of_def)

lemma bus_program_io_of:
  assumes "prog \<noteq> []" and "\<forall>b \<in> set prog. bc_command b \<le> SYN_DELAY_MS \<and> bc_error b = SERR_NONE"
    and "length (expansion prog) + unat (bc_repeat (prog ! 0)) < SYN_MAX_LENGTH"
  shows "bus_program (io_of prog)"
  using assms length_expansion_ge [of prog]
  by (auto simp: bus_program_def runnable_def io_ok_def) (auto simp: io_of_def)

text \<open>An SPI transaction: \<open>[ 159 r:3 ]\<close>.\<close>

definition transaction :: "syn_item list" where
  "transaction = [Sym ch_lbracket None None, Num 159 None None, Sym ch_r None (Some 3), Sym ch_rbracket None None]"

definition transaction_io :: syntax_io where
  "transaction_io = io_of (program_code system_init transaction)"

lemma bus_program_transaction: "bus_program transaction_io"
  unfolding transaction_io_def
  by (rule bus_program_io_of)
    (simp_all add: transaction_def program_code_def syntax_compile_commands_def with_attrs_def bytecode_empty_def
      base_number_def expansion_def expand_def system_init_def word_le_nat_alt)

lemma spi_run_trace_engine:
  assumes "bus_program io" and "spi_ready lsb idle w"
  shows "\<exists>io' w'. syntax_run spi_ops io w = Ran SSTATUS_OK io' w' \<and>
    list_all2 same_instruction (results io') (expansion (io_program io)) \<and>
    w_hw w' = w_hw w @ bus_events (spi_bus lsb idle) (io_program io)"
proof -
  have ev: "spi.instr_events lsb idle = (\<lambda>b. bus_events (spi_bus lsb idle) [b])"
    by (auto simp: fun_eq_iff spi.instr_events_def)
  show ?thesis
    using spi.run_program_trace [of io lsb idle w] assms
    unfolding ev bus_events_concat [of _ "io_program io"]
    by (auto simp: bus_program_def runnable_def)
qed

text \<open>C3: in SPI mode a program of bus instructions and delays drives the bus exactly as written: the
  chip select is switched at each start and stop to the level the idle setting asks for, every
  byte is transferred once per repetition, least significant bit first if so configured, reads
  send 0xFF, and nothing else happens.\<close>

theorem spi_run_trace:
  assumes "bus_program io" and "spi_ready lsb idle w"
  shows "\<exists>io' w'. syntax_run spi_ops io w = Ran SSTATUS_OK io' w' \<and>
    list_all2 same_instruction (results io') (expansion (io_program io)) \<and>
    w_hw w' = w_hw w @ bus_events (spi_bus lsb idle) (io_program io)"
  using spi_run_trace_engine [OF assms] .

theorem spi_run_trace_witness:
  "\<exists>io' w'. syntax_run spi_ops transaction_io world_reset = Ran SSTATUS_OK io' w' \<and>
    w_hw w' = [GpioPut 13 False, SpiTransfer 159, SpiTransfer 0xFF, SpiTransfer 0xFF, SpiTransfer 0xFF, GpioPut 13 True]"
proof -
  have "bus_events (spi_bus False 1) (io_program transaction_io) =
      [GpioPut 13 False, SpiTransfer 159, SpiTransfer 0xFF, SpiTransfer 0xFF, SpiTransfer 0xFF, GpioPut 13 True]"
    by (simp add: transaction_io_def transaction_def program_code_def syntax_compile_commands_def with_attrs_def
        bytecode_empty_def base_number_def spi_bus_def)
      (simp add: numeral_eq_Suc)
  then show ?thesis
    using spi_run_trace [OF bus_program_transaction, of False 1 world_reset]
    by (auto simp: spi_ready_def world_reset_def system_init_def)
qed

text \<open>In HiZ mode no program of bus instructions touches the hardware; apart from the delays it
  asks for, there is not a single hardware event.\<close>

theorem hiz_run_silent:
  assumes "bus_program io"
  shows "\<exists>io' w'. syntax_run hiz_ops io w = Ran SSTATUS_OK io' w' \<and>
    w_hw w' = w_hw w @ bus_events (\<lambda>_. []) (io_program io)"
proof -
  have ev: "hiz.instr_events = (\<lambda>b. bus_events (\<lambda>_. []) [b])"
    by (auto simp: fun_eq_iff hiz.instr_events_def)
  show ?thesis
    using hiz.run_program_trace [of io w] assms
    unfolding ev bus_events_concat [of _ "io_program io"]
    by (auto simp: bus_program_def runnable_def)
qed

theorem hiz_run_silent_witness:
  "\<exists>io' w'. syntax_run hiz_ops transaction_io world_reset = Ran SSTATUS_OK io' w' \<and>
    w_hw w' = w_hw world_reset @ bus_events (\<lambda>_. []) (io_program transaction_io)"
  by (rule hiz_run_silent [OF bus_program_transaction])

text \<open>C9: in DIO mode a program writes each value, as often as asked, to exactly the IO pins that are
  free at the start, with their buffers switched to output before the pins drive, and no
  instruction changes the functions of the pins.\<close>

theorem dio_run_trace:
  assumes "bus_program io"
  shows "\<exists>io' w'. syntax_run dio_ops io w = Ran SSTATUS_OK io' w' \<and>
    w_hw w' = w_hw w @ bus_events (dio_bus (sc_pin_func (w_config w))) (io_program io) \<and>
    sc_pin_func (w_config w') = sc_pin_func (w_config w)"
proof -
  let ?pf = "sc_pin_func (w_config w)"
  have ev: "dio.instr_events ?pf = (\<lambda>b. bus_events (dio_bus ?pf) [b])"
    by (auto simp: fun_eq_iff dio.instr_events_def)
  show ?thesis
    using dio.run_program_trace [of io w ?pf] assms
    unfolding ev bus_events_concat [of _ "io_program io"]
    by (auto simp: bus_program_def runnable_def)
qed

theorem dio_run_trace_witness:
  "\<exists>io' w'. syntax_run dio_ops transaction_io world_reset = Ran SSTATUS_OK io' w' \<and>
    w_hw w' = w_hw world_reset @ bus_events (dio_bus (sc_pin_func (w_config world_reset))) (io_program transaction_io) \<and>
    sc_pin_func (w_config w') = sc_pin_func (w_config world_reset)"
  by (rule dio_run_trace [OF bus_program_transaction])

end
