(* ===== verification/Bio_Safety.thy ===== *)
theory Bio_Safety
  imports Modes
begin

text \<open>
  When the buffered IO can fight its own buffers. Each IO pin sits behind a level shifter whose
  direction is a GPIO of its own; driving the pin while the shifter points inwards would set two
  outputs against each other. The state of the pads is computed from the hardware events: what the
  GPIO registers say of the direction of a pin and of the level of a buffer's pin (a pin that
  \<open>bio_set_function\<close> hands to a peripheral or to the PIO is then driven by that, which is not in
  these registers). Every function of \<^verbatim>\<open>src/pirate/bio.c\<close> that changes a pin, the DIO write, the
  auxiliary outputs and the set-up of SPI and 3WIRE are calls that may follow each other in any order,
  and the pads are looked at after every single event, not only between calls.
\<close>

record pads =
  pad_dir :: "nat \<Rightarrow> bool"
  pad_out :: "nat \<Rightarrow> bool"

fun pads_event :: "hw_event \<Rightarrow> pads \<Rightarrow> pads" where
  "pads_event (GpioPut p v) s = s\<lparr>pad_out := (pad_out s)(p := v)\<rparr>"
| "pads_event (GpioSetDir p d) s = s\<lparr>pad_dir := (pad_dir s)(p := d)\<rparr>"
| "pads_event (GpioPutMasked m v) s = s\<lparr>pad_out := (\<lambda>p. if bit m p then bit v p else pad_out s p)\<rparr>"
| "pads_event (GpioSetDirMasked m v) s = s\<lparr>pad_dir := (\<lambda>p. if bit m p then bit v p else pad_dir s p)\<rparr>"
| "pads_event _ s = s"

definition pads_after :: "pads \<Rightarrow> hw_event list \<Rightarrow> pads" where
  "pads_after s es = fold pads_event es s"

text \<open>No IO pin (8 to 15) is an output while its buffer (0 to 7) points inwards.\<close>

definition no_contention :: "pads \<Rightarrow> bool" where
  "no_contention s \<longleftrightarrow> (\<forall>i < 8. pad_dir s (8 + i) = GPIO_OUT \<longrightarrow> pad_out s i = BUFDIR_OUTPUT)"

fun always_safe :: "pads \<Rightarrow> hw_event list \<Rightarrow> bool" where
  "always_safe s [] \<longleftrightarrow> no_contention s"
| "always_safe s (e # es) \<longleftrightarrow> no_contention s \<and> always_safe (pads_event e s) es"

lemma pads_after_simps [simp]:
  "pads_after s [] = s" "pads_after s (e # es) = pads_after (pads_event e s) es"
  "pads_after s (es @ fs) = pads_after (pads_after s es) fs"
  by (simp_all add: pads_after_def)

lemma always_safe_append: "always_safe s (es @ fs) \<longleftrightarrow> always_safe s es \<and> always_safe (pads_after s es) fs"
proof (induction es arbitrary: s)
  case Nil
  then show ?case by (cases fs) auto
qed auto

lemma always_safe_end: "always_safe s es \<Longrightarrow> no_contention (pads_after s es)"
  by (induction es arbitrary: s) auto

lemma always_safe_prefix:
  "always_safe s es \<longleftrightarrow> (\<forall>k \<le> length es. no_contention (pads_after s (take k es)))"
proof (induction es arbitrary: s)
  case (Cons e es)
  have "(\<forall>k \<le> length (e # es). no_contention (pads_after s (take k (e # es)))) \<longleftrightarrow>
      no_contention s \<and> (\<forall>k \<le> length es. no_contention (pads_after (pads_event e s) (take k es)))"
    by (auto simp: take_Cons split: nat.splits)
  then show ?case using Cons by simp
qed simp

subsection \<open>The calls\<close>

datatype bio_op =
  Bio_Init | Bio_Output nat | Bio_Input nat | Bio_Put nat bool
  | Bio_Buf_Pin_Init nat | Bio_Buf_Output nat | Bio_Buf_Input nat | Bio_Set_Function nat gpio_function
  | Dio_Write bytecode "bytecode option" | Aux_Output u8 bool | Spi_Init u8 u8 u8 | Setup_3wire

fun bio_call :: "bio_op \<Rightarrow> world \<Rightarrow> world" where
  "bio_call Bio_Init w = bio_init w"
| "bio_call (Bio_Output i) w = bio_output i w"
| "bio_call (Bio_Input i) w = bio_input i w"
| "bio_call (Bio_Put i v) w = bio_put i v w"
| "bio_call (Bio_Buf_Pin_Init i) w = bio_buf_pin_init i w"
| "bio_call (Bio_Buf_Output i) w = bio_buf_output i w"
| "bio_call (Bio_Buf_Input i) w = bio_buf_input i w"
| "bio_call (Bio_Set_Function i f) w = bio_set_function i f w"
| "bio_call (Dio_Write b nxt) w = snd (dio_write b nxt w)"
| "bio_call (Aux_Output i v) w = syntax_run_aux_output i v w"
| "bio_call (Spi_Init bits cpol cpha) w = hwspi_init bits cpol cpha w"
| "bio_call Setup_3wire w = hw3wire_setup_exc w"

definition bio_calls :: "bio_op list \<Rightarrow> world \<Rightarrow> world" where
  "bio_calls ops w = fold bio_call ops w"

text \<open>The pin a call is about is one of the eight.\<close>

fun pin_in_range :: "bio_op \<Rightarrow> bool" where
  "pin_in_range (Bio_Output i) = (i < 8)"
| "pin_in_range (Bio_Input i) = (i < 8)"
| "pin_in_range (Bio_Put i v) = (i < 8)"
| "pin_in_range (Bio_Buf_Pin_Init i) = (i < 8)"
| "pin_in_range (Bio_Buf_Output i) = (i < 8)"
| "pin_in_range (Bio_Buf_Input i) = (i < 8)"
| "pin_in_range (Bio_Set_Function i f) = (i < 8)"
| "pin_in_range (Aux_Output i v) = (unat i < 8)"
| "pin_in_range _ = True"

text \<open>The buffer that a call turns inwards without looking at its pin: the two functions for the buffer
  alone, and the set-ups of SPI and 3WIRE for their input pin.\<close>

fun turns_inward :: "bio_op \<Rightarrow> nat option" where
  "turns_inward (Bio_Buf_Pin_Init i) = Some i"
| "turns_inward (Bio_Buf_Input i) = Some i"
| "turns_inward (Spi_Init bits cpol cpha) = Some M_SPI_CDI"
| "turns_inward Setup_3wire = Some M_3WIRE_MISO"
| "turns_inward _ = None"

lemma all_less_8: "(\<forall>i < (8::nat). P i) \<longleftrightarrow> P 0 \<and> P 1 \<and> P 2 \<and> P 3 \<and> P 4 \<and> P 5 \<and> P 6 \<and> P 7"
  by (simp add: numeral_eq_Suc All_less_Suc conj_ac)

lemma bio_pins:
  assumes "i < 8"
  shows "bio2bufiopin ! i = 8 + i" and "bio2bufdirpin ! i = i"
proof -
  have "i \<in> {0, 1, 2, 3, 4, 5, 6, 7}" using assms by auto
  then show "bio2bufiopin ! i = 8 + i" "bio2bufdirpin ! i = i"
    by (auto simp: bio2bufiopin_def bio2bufdirpin_def)
qed

lemma init_io_safe:
  assumes "no_contention s" and "\<forall>i \<in> set is. i < 8"
  shows "always_safe s (concat (map (bio_init_io c) is)) \<and>
    (\<forall>i \<in> set is. sc_pin_func c ! (i + 1) \<noteq> BP_PIN_DEBUG \<longrightarrow>
       \<not> pad_dir (pads_after s (concat (map (bio_init_io c) is))) (8 + i)) \<and>
    (\<forall>p. \<not> pad_dir s p \<longrightarrow> \<not> pad_dir (pads_after s (concat (map (bio_init_io c) is))) p)"
  using assms
proof (induction "is" arbitrary: s)
  case (Cons i "is")
  let ?s = "pads_after s (bio_init_io c i)"
  have i: "i < 8" using Cons.prems by simp
  have safe: "always_safe s (bio_init_io c i)"
    using Cons.prems(1) by (auto simp: bio_init_io_def bio_pins [OF i] no_contention_def)
  have here: "sc_pin_func c ! (i + 1) \<noteq> BP_PIN_DEBUG \<longrightarrow> \<not> pad_dir ?s (8 + i)" "\<forall>p. \<not> pad_dir s p \<longrightarrow> \<not> pad_dir ?s p"
    by (auto simp: bio_init_io_def bio_pins [OF i])
  show ?case
    using Cons.IH [OF always_safe_end [OF safe]] Cons.prems(2) safe here
    by (auto simp: always_safe_append)
qed simp

lemma init_dir_safe:
  assumes "no_contention s" and "\<forall>i \<in> set is. i < 8"
    and "\<forall>i \<in> set is. sc_pin_func c ! (i + 1) \<noteq> BP_PIN_DEBUG \<longrightarrow> \<not> pad_dir s (8 + i)"
  shows "always_safe s (concat (map (bio_init_dir c) is))"
  using assms
proof (induction "is" arbitrary: s)
  case (Cons i "is")
  let ?s = "pads_after s (bio_init_dir c i)"
  have i: "i < 8" using Cons.prems by simp
  have safe: "always_safe s (bio_init_dir c i)"
    using Cons.prems(1,3) i by (auto simp: bio_init_dir_def bio_pins [OF i] no_contention_def)
  have "\<forall>j < 8. pad_dir ?s (8 + j) = pad_dir s (8 + j)"
    using i by (auto simp: bio_init_dir_def bio_pins [OF i])
  then show ?case
    using Cons.IH [OF always_safe_end [OF safe]] Cons.prems(2,3) safe by (auto simp: always_safe_append)
qed simp

lemma bio_output_safe: "i < 8 \<Longrightarrow> no_contention s \<Longrightarrow>
    always_safe s [GpioPut (bio2bufdirpin ! i) BUFDIR_OUTPUT, GpioSetDir (bio2bufiopin ! i) GPIO_OUT]"
  by (auto simp: bio_pins no_contention_def)

lemma bio_put_safe: "i < 8 \<Longrightarrow> no_contention s \<Longrightarrow> always_safe s [GpioPut (bio2bufiopin ! i) v]"
  by (auto simp: bio_pins no_contention_def)

lemma dio_events_safe:
  fixes m :: u8
  assumes "no_contention s"
  shows "always_safe s [GpioPutMasked (ucast m) 0xFF, GpioPutMasked (push_bit 8 (ucast m)) d,
     GpioSetDirMasked (push_bit 8 (ucast m)) 0xFF00]"
proof -
  have ff: "bit (0xFF :: u32) i" if "i < 8" for i
    using that by (simp add: bit_mask_iff flip: mask_eq_exp_minus_1 [of 8, where 'a = u32, simplified])
  have hi: "\<not> bit (push_bit 8 (ucast m :: u32)) i" if "i < 8" for i
    using that by (simp add: bit_push_bit_iff)
  have sh: "bit (push_bit 8 (ucast m :: u32)) (8 + i) \<longleftrightarrow> bit (ucast m :: u32) i" if "i < 8" for i
    using that by (simp add: bit_push_bit_iff)
  show ?thesis
    using assms ff hi sh by (auto simp: no_contention_def)
qed

lemma bio_init_safe:
  assumes "no_contention s"
  shows "\<exists>es. w_hw (bio_init w) = w_hw w @ es \<and> always_safe s es"
proof -
  have "\<forall>i \<in> set [0..<8]. i < (8::nat)" by simp
  note io = init_io_safe [OF assms this, of "w_config w"]
  show ?thesis
    using io init_dir_safe [OF always_safe_end [OF conjunct1 [OF io]], of "[0..<8]" "w_config w"]
    by (auto simp: bio_init_def always_safe_append simp del: upt_rec_numeral)
qed

lemma hw3wire_cs_events:
  "w_hw (hw3wire_set_cs cs w) = w_hw w @ [GpioPut 13 ((cs = M_3WIRE_SELECT) = (w3_cs_idle (w_3wire w) = 0))]"
  by (simp add: hw3wire_set_cs_def bio_put_def bio2bufiopin_def)

text \<open>A call adds events that are safe unless it turns a buffer inwards whose pin is an output.\<close>

lemma bio_call_safe:
  assumes "pin_in_range op" and "no_contention s"
  shows "\<exists>es. w_hw (bio_call op w) = w_hw w @ es \<and>
    (always_safe s es \<longleftrightarrow> (\<forall>i. turns_inward op = Some i \<longrightarrow> \<not> pad_dir s (8 + i)))"
proof (cases op)
  case Bio_Init
  then show ?thesis using bio_init_safe [OF assms(2), of w] by simp
next
  case (Bio_Output i)
  then show ?thesis using bio_output_safe assms by (simp add: bio_output_def)
next
  case (Bio_Input i)
  then show ?thesis using assms by (auto simp: bio_input_def bio_pins no_contention_def)
next
  case (Bio_Put i v)
  then show ?thesis using bio_put_safe assms by (simp add: bio_put_def)
next
  case (Bio_Buf_Pin_Init i)
  then show ?thesis using assms by (auto simp: bio_buf_pin_init_def bio_pins no_contention_def)
next
  case (Bio_Buf_Output i)
  then show ?thesis using assms by (auto simp: bio_buf_output_def bio_pins no_contention_def)
next
  case (Bio_Buf_Input i)
  then show ?thesis using assms by (auto simp: bio_buf_input_def bio_pins no_contention_def)
next
  case (Bio_Set_Function i f)
  then show ?thesis using assms by (simp add: bio_set_function_def)
next
  case (Dio_Write b nxt)
  then show ?thesis
    using dio_events_safe [OF assms(2)] by (auto simp: dio_write_def split: prod.split)
next
  case (Aux_Output i v)
  then have i: "unat i < 8" using assms(1) by simp
  have "w_hw (bio_call op w) = w_hw w @ [GpioPut (bio2bufdirpin ! unat i) BUFDIR_OUTPUT, GpioSetDir (bio2bufiopin ! unat i) GPIO_OUT]
      @ [GpioPut (bio2bufiopin ! unat i) v]"
    using Aux_Output by (simp add: syntax_run_aux_output_def Let_def bio_output_def bio_put_def)
  moreover have "turns_inward op = None"
    using Aux_Output by simp
  ultimately show ?thesis
    using bio_output_safe [OF i assms(2)] bio_put_safe [OF i] always_safe_end always_safe_append by (metis option.discI)
next
  case (Spi_Init bits cpol cpha)
  then show ?thesis
    using assms(2)
    by (auto simp: hwspi_init_def hwspi_deselect_def bio_put_def bio_output_def bio_set_function_def bio_buf_input_def
        bio_buf_output_def bio2bufiopin_def bio2bufdirpin_def no_contention_def all_less_8)
next
  case Setup_3wire
  obtain v where "w_hw (hw3wire_setup_exc w) = w_hw w @ [GpioPut 7 True, GpioPut 6 True, GpioPut 4 False,
      GpioSetFunction 13 GPIO_FUNC_SIO, GpioPut 5 True, GpioSetDir 13 True,
      PioInit ''hw3wire'' [15, 14, 12] (w3_baudrate (w_3wire w)), GpioPut 13 v]"
    by (auto simp: hw3wire_cs_events hw3wire_setup_exc_def bio_output_def bio_set_function_def bio_buf_input_def bio_buf_output_def
        bio2bufiopin_def bio2bufdirpin_def)
  then show ?thesis
    using Setup_3wire assms(2) by (auto simp: no_contention_def all_less_8)
qed

lemma snoc_split: "xs @ [x] = before @ y # later \<longleftrightarrow>
    later = [] \<and> before = xs \<and> y = x \<or> (\<exists>l. later = l @ [x] \<and> xs = before @ y # l)"
  by (cases later rule: rev_cases) auto

lemma bio_calls_safe:
  assumes "w_hw w = []" and "no_contention s" and "\<forall>op \<in> set ops. pin_in_range op"
  shows "always_safe s (w_hw (bio_calls ops w)) \<longleftrightarrow>
    (\<forall>before op i later. ops = before @ op # later \<longrightarrow> turns_inward op = Some i \<longrightarrow>
       \<not> pad_dir (pads_after s (w_hw (bio_calls before w))) (8 + i))"
  using assms(3)
proof (induction ops rule: rev_induct)
  case Nil
  then show ?case using assms(1,2) by (simp add: bio_calls_def)
next
  case (snoc op ops)
  let ?w = "bio_calls ops w" and ?s = "pads_after s (w_hw (bio_calls ops w))"
  have step: "bio_calls (ops @ [op]) w = bio_call op ?w"
    by (simp add: bio_calls_def)
  show ?case
  proof (cases "always_safe s (w_hw ?w)")
    case True
    from bio_call_safe [OF _ always_safe_end [OF True], of op ?w] snoc.prems obtain es where
      "w_hw (bio_call op ?w) = w_hw ?w @ es"
      "always_safe ?s es \<longleftrightarrow> (\<forall>i. turns_inward op = Some i \<longrightarrow> \<not> pad_dir ?s (8 + i))"
      by auto
    then show ?thesis
      using True snoc unfolding step by (auto simp: always_safe_append snoc_split)
  next
    case False
    obtain es where "w_hw (bio_call op ?w) = w_hw ?w @ es"
      using bio_call_safe [OF _ assms(2), of op ?w] snoc.prems by auto
    then have "\<not> always_safe s (w_hw (bio_calls (ops @ [op]) w))"
      using False unfolding step by (simp add: always_safe_append)
    moreover obtain before x i later where "ops = before @ x # later" "turns_inward x = Some i"
      "pad_dir (pads_after s (w_hw (bio_calls before w))) (8 + i)"
      using False snoc by auto
    ultimately show ?thesis
      by (metis append.assoc append_Cons)
  qed
qed

text \<open>The set-ups are called in HiZ: right after \<open>bio_init\<close> no pin is an output (but those of the debug
  UART), so they are safe.\<close>

lemma setup_after_init:
  assumes "w_hw w = []" and "no_contention s" and "turns_inward op = Some i" and "i < 8"
    and "sc_pin_func (w_config w) ! (i + 1) \<noteq> BP_PIN_DEBUG" and "pin_in_range op"
  shows "always_safe s (w_hw (bio_calls [Bio_Init, op] w))"
proof -
  have "\<forall>i \<in> set [0..<8]. i < (8::nat)" by simp
  from init_io_safe [OF assms(2) this, of "w_config w"] assms(4,5)
  have "\<not> pad_dir (pads_after s (concat (map (bio_init_io (w_config w)) [0..<8]))) (8 + i)"
    by (auto simp del: upt_rec_numeral)
  moreover have "pad_dir (pads_after t (concat (map (bio_init_dir c) is))) (8 + i) = pad_dir t (8 + i)"
    if "\<forall>j \<in> set is. j < 8" for c t "is"
    using that by (induction "is" arbitrary: t) (auto simp: bio_init_dir_def bio_pins)
  ultimately have "\<not> pad_dir (pads_after s (w_hw (bio_init w))) (8 + i)"
    using assms(1) by (simp add: bio_init_def del: upt_rec_numeral)
  then show ?thesis
    using assms by (subst bio_calls_safe) (auto simp: bio_calls_def Cons_eq_append_conv)
qed

subsection \<open>Properties\<close>

text \<open>C7: from pads without contention, a sequence of calls of the pin functions, auxiliary outputs, DIO
  writes and set-ups, interrupted after any of its hardware events, has an IO pin driving against an
  inward-pointing buffer exactly if one of the calls turns a buffer inwards on its own
  (\<open>bio_buf_input\<close>, \<open>bio_buf_pin_init\<close>, the input pin of SPI or 3WIRE at set-up) while its pin is an output at
  that moment. In particular initialisation, direction changes, pin writes, outward buffers,
  auxiliary outputs and DIO writes never do, in any order.\<close>

theorem bio_never_fights:
  assumes "w_hw w = []" and "no_contention s" and "\<forall>op \<in> set ops. pin_in_range op"
  shows "(\<forall>k. no_contention (pads_after s (take k (w_hw (bio_calls ops w))))) \<longleftrightarrow>
    (\<forall>before op i later. ops = before @ op # later \<longrightarrow> turns_inward op = Some i \<longrightarrow>
       \<not> pad_dir (pads_after s (w_hw (bio_calls before w))) (8 + i))"
proof -
  have "(\<forall>k. no_contention (pads_after s (take k (w_hw (bio_calls ops w))))) \<longleftrightarrow> always_safe s (w_hw (bio_calls ops w))"
    unfolding always_safe_prefix by (metis nat_le_linear take_all)
  then show ?thesis
    using bio_calls_safe [OF assms] by simp
qed

text \<open>Pin 3 as an output of a program, then the set-up of 3WIRE; and what goes wrong when the buffer of
  the output is turned inwards.\<close>

definition pads_low :: pads where
  "pads_low = \<lparr>pad_dir = \<lambda>_. False, pad_out = \<lambda>_. False\<rparr>"

definition good_calls :: "bio_op list" where
  "good_calls = [Bio_Output 3, Bio_Put 3 True, Bio_Buf_Input 4, Setup_3wire, Bio_Input 3, Bio_Buf_Input 3]"

theorem bio_never_fights_witness:
  "(\<forall>k. no_contention (pads_after pads_low (take k (w_hw (bio_calls good_calls world_reset))))) \<and>
   \<not> (\<forall>k. no_contention (pads_after pads_low (take k (w_hw (bio_calls [Bio_Output 3, Bio_Buf_Input 3] world_reset)))))"
proof -
  have w: "w_hw world_reset = []" "no_contention pads_low" "\<forall>op \<in> set good_calls. pin_in_range op"
    "\<forall>op \<in> set [Bio_Output 3, Bio_Buf_Input 3]. pin_in_range op"
    by (simp_all add: world_reset_def no_contention_def pads_low_def good_calls_def)
  show ?thesis
    unfolding bio_never_fights [OF w(1-3)] bio_never_fights [OF w(1,2,4)]
    by (auto simp: good_calls_def bio_calls_def pads_low_def Cons_eq_append_conv bio_output_def bio_put_def bio_input_def
        bio_buf_input_def hw3wire_setup_exc_def hw3wire_cs_events bio_set_function_def bio_buf_output_def
        bio2bufiopin_def bio2bufdirpin_def world_reset_def intro!: exI [of _ "[Bio_Output 3]"])
qed

end
