(* ===== verification/Syntax_Post.thy ===== *)
theory Syntax_Post
  imports Syntax_Run
begin

text \<open>
  Phase three of the syntax engine, \<^verbatim>\<open>src/syntax_post.c\<close>: the results in \<open>syntax_io.in\<close>
  are printed. A handler takes the configuration, the result and the layout state \<open>info\<close>, and
  returns what it prints; \<open>info\<close> is the static variable of \<open>syntax_post\<close>.
\<close>

record output_info =
  oi_previous_command :: u8
  oi_previous_number_format :: u8
  oi_row_length :: u8
  oi_row_counter :: u8

type_synonym post_handler = "system_config \<Rightarrow> bytecode \<Rightarrow> output_info \<Rightarrow> term_event list \<times> output_info"

definition message :: "string option \<Rightarrow> term_event" where
  "message m = (case m of None \<Rightarrow> TText ''(null)'' | Some k \<Rightarrow> TMsg k)"

subsection \<open>Numbers\<close>

definition print_ascii_if_printable :: "u32 \<Rightarrow> term_event list" where
  "print_ascii_if_printable v =
     (let ch = ucast v :: u8 in
      if ch_space \<le> ch \<and> ch \<le> ch_tilde then [TText [CHR 0x27], TChar ch, TText [CHR 0x27, CHR 0x20]]
      else [TText [CHR 0x27, CHR 0x27, CHR 0x20, CHR 0x20]])"

definition postprocess_format_print_number ::
  "system_config \<Rightarrow> bytecode \<Rightarrow> u32 \<Rightarrow> bool \<Rightarrow> term_event list" where
  "postprocess_format_print_number c b v read =
     (let num_bits = ucast (bc_bits b) :: u8;
          display_format = (if \<not> read \<and> (sc_display_format c = df_auto \<or> sc_display_format c = df_ascii \<or>
                                bc_number_format b = df_ascii)
                            then bc_number_format b else ucast (sc_display_format c)) :: u8;
          d = v AND (if num_bits < 32 then push_bit (unat num_bits) 1 - 1 else 0xFFFFFFFF)
      in (if display_format = df_ascii then print_ascii_if_printable d else [])
         @ ui_format_print_number_3 d (ucast num_bits)
             (if display_format = df_ascii \<or> display_format = df_auto then df_hex else ucast display_format))"

text \<open>
  Only writes and reads get here, so the loop \<open>while (repeat--)\<close> runs once.
\<close>

definition postprocess_mode_write :: post_handler where
  "postprocess_mode_write c b info =
     (let row_length = (if bc_number_format b = df_bin \<or> sc_display_format c = df_ascii then 4 else 8);
          new_line = (bc_number_format b \<noteq> oi_previous_number_format info \<or> bc_command b \<noteq> oi_previous_command info);
          info1 = (if new_line
                   then info\<lparr>oi_row_counter := row_length, oi_row_length := row_length,
                             oi_previous_number_format := bc_number_format b\<rparr>
                   else info);
          v = (if bc_command b = SYN_READ then bc_in_data b else bc_out_data b);
          header = (if \<not> new_line then []
                    else if bc_command b = SYN_READ
                    then [TText crlf, TColor Col_info, TText ''RX:'', TColor Col_reset, TText '' '']
                    else [TText crlf, TColor Col_info, TText ''TX:'', TColor Col_reset, TText '' '']);
          number = postprocess_format_print_number c b v (bc_command b = SYN_READ);
          full_duplex = (if bc_read_with_write b
                         then [TText ''(''] @ postprocess_format_print_number c b (bc_in_data b) False @ [TText '')'']
                         else []);
          info2 = info1\<lparr>oi_row_counter := oi_row_counter info1 - 1\<rparr>;
          msg = (case bc_data_message b of Some k \<Rightarrow> [TText '' '', TMsg k, TText '' ''] | None \<Rightarrow> [TText '' ''])
      in if oi_row_counter info2 = 0
         then (header @ number @ full_duplex @ msg @ [TText crlf, TText ''    ''], info2\<lparr>oi_row_counter := row_length\<rparr>)
         else (header @ number @ full_duplex @ msg, info2))"

subsection \<open>The other instructions\<close>

definition labelled :: "color \<Rightarrow> string \<Rightarrow> term_event list \<Rightarrow> term_event list" where
  "labelled col key rest = [TText crlf, TColor col, TMsg key, TText '':'', TColor Col_reset, TText '' '',
     TColor Col_num_float] @ rest"

definition syntax_post_delay_us_ms :: post_handler where
  "syntax_post_delay_us_ms c b info =
     (labelled Col_notice ''T_MODE_DELAY'' [TInt (sint (bc_repeat b)), TColor Col_reset,
        TMsg (if bc_command b = SYN_DELAY_US then ''T_MODE_US'' else ''T_MODE_MS'')], info)"

definition syntax_post_start_stop :: post_handler where
  "syntax_post_start_stop c b info =
     (case bc_data_message b of Some k \<Rightarrow> [TText crlf, TMsg k] | None \<Rightarrow> [], info)"

definition post_pin :: "int \<Rightarrow> string \<Rightarrow> int \<Rightarrow> term_event list" where
  "post_pin pin kind v = [TText crlf, TText ''IO'', TColor Col_num_float, TInt pin, TColor Col_notice, TText '' set to'',
     TColor Col_reset, TText kind, TColor Col_num_float, TInt v, TColor Col_reset]"

definition syntax_post_aux_output_high :: post_handler where
  "syntax_post_aux_output_high c b info = (post_pin (uint (ucast (bc_bits b) :: u8)) '' OUTPUT: '' 1, info)"

definition syntax_post_aux_output_low :: post_handler where
  "syntax_post_aux_output_low c b info = (post_pin (uint (ucast (bc_bits b) :: u8)) '' OUTPUT: '' 0, info)"

definition syntax_post_aux_input :: post_handler where
  "syntax_post_aux_input c b info = (post_pin (sint (bc_bits b)) '' INPUT: '' (sint (bc_in_data b)), info)"

text \<open>The voltage is printed in volts with one decimal: the 12-bit reading of a 6.6 V range.\<close>

definition adc_mv :: "u32 \<Rightarrow> u32" where
  "adc_mv in_data = (6600 * in_data) div 4096"

definition syntax_post_adc :: post_handler where
  "syntax_post_adc c b info =
     (let mv = adc_mv (bc_in_data b) in
      ([TText crlf, TColor Col_info, TMsg ''T_MODE_ADC_VOLTAGE'', TText '' IO'', TInt (sint (bc_bits b)), TText '':'',
        TColor Col_reset, TText '' '', TColor Col_num_float, TInt (uint (mv div 1000)), TText ''.'',
        TInt (uint ((mv mod 1000) div 100)), TColor Col_reset, TText ''V''], info))"

definition syntax_post_tick_clock :: post_handler where
  "syntax_post_tick_clock c b info =
     (labelled Col_notice ''T_MODE_TICK_CLOCK'' [TInt (sint (bc_repeat b)), TColor Col_reset], info)"

definition syntax_post_set_clk_high_low :: post_handler where
  "syntax_post_set_clk_high_low c b info =
     (labelled Col_notice ''T_MODE_SET_CLK'' [TInt (sint (bc_out_data b)), TColor Col_reset], info)"

definition syntax_post_set_dat_high_low :: post_handler where
  "syntax_post_set_dat_high_low c b info =
     (labelled Col_notice ''T_MODE_SET_DAT'' [TInt (sint (bc_out_data b)), TColor Col_reset], info)"

definition syntax_post_read_dat :: post_handler where
  "syntax_post_read_dat c b info =
     (labelled Col_notice ''T_MODE_READ_DAT'' [TInt (sint (bc_in_data b)), TColor Col_reset], info)"

subsection \<open>Dispatch and the main loop\<close>

definition syntax_post_func :: "u8 \<Rightarrow> post_handler" where
  "syntax_post_func command =
     (if command = SYN_WRITE \<or> command = SYN_READ then postprocess_mode_write
      else if command = SYN_START \<or> command = SYN_START_ALT \<or> command = SYN_STOP \<or> command = SYN_STOP_ALT
      then syntax_post_start_stop
      else if command = SYN_DELAY_US \<or> command = SYN_DELAY_MS then syntax_post_delay_us_ms
      else if command = SYN_AUX_OUTPUT_HIGH then syntax_post_aux_output_high
      else if command = SYN_AUX_OUTPUT_LOW then syntax_post_aux_output_low
      else if command = SYN_AUX_INPUT then syntax_post_aux_input
      else if command = SYN_ADC then syntax_post_adc
      else if command = SYN_TICK_CLOCK then syntax_post_tick_clock
      else if command = SYN_SET_CLK_HIGH \<or> command = SYN_SET_CLK_LOW then syntax_post_set_clk_high_low
      else if command = SYN_SET_DAT_HIGH \<or> command = SYN_SET_DAT_LOW then syntax_post_set_dat_high_low
      else syntax_post_read_dat)"

definition syntax_post_one :: "system_config \<Rightarrow> bytecode \<Rightarrow> output_info \<Rightarrow> term_event list \<times> output_info" where
  "syntax_post_one c b info =
     (if 18 \<le> bc_command b
      then ([TText ''Unknown internal code '', TInt (uint (bc_command b)), TText crlf], info)
      else case syntax_post_func (bc_command b) c b info of
        (es, info1) \<Rightarrow>
          (es @ (if bc_error b \<noteq> 0 then [TText ''('', message (bc_error_message b), TText '') ''] else []),
           info1\<lparr>oi_previous_command := bc_command b\<rparr>))"

fun syntax_post_loop :: "system_config \<Rightarrow> bytecode list \<Rightarrow> output_info \<Rightarrow> term_event list \<times> output_info" where
  "syntax_post_loop c [] info = ([], info)"
| "syntax_post_loop c (b # bs) info =
     (let (es, info1) = syntax_post_one c b info; (fs, info2) = syntax_post_loop c bs info1 in (es @ fs, info2))"

definition syntax_post ::
  "system_config \<Rightarrow> syntax_io \<Rightarrow> output_info \<Rightarrow> syntax_status \<times> term_event list \<times> syntax_io \<times> output_info" where
  "syntax_post c io info =
     (if so_in_cnt io = 0 then (SSTATUS_ERROR, [], io, info)
      else case syntax_post_loop c (results io) (info\<lparr>oi_previous_command := 0xFF\<rparr>) of
        (es, info1) \<Rightarrow> (SSTATUS_OK, es @ [TText crlf], io\<lparr>so_in_cnt := 0\<rparr>, info1))"

subsection \<open>Layout\<close>

text \<open>What is to be printed for a number: in its own format or the configured one, cut to its bits, in ASCII
  format with the character in front.\<close>

definition row_len :: "system_config \<Rightarrow> u8 \<Rightarrow> nat" where
  "row_len c f = (if f = df_bin \<or> sc_display_format c = df_ascii then 4 else 8)"

definition shown_format :: "system_config \<Rightarrow> bool \<Rightarrow> u8 \<Rightarrow> u8" where
  "shown_format c read f =
     (if read then ucast (sc_display_format c)
      else if sc_display_format c = df_auto \<or> sc_display_format c = df_ascii \<or> f = df_ascii then f
      else ucast (sc_display_format c))"

definition quoted :: "u8 \<Rightarrow> term_event list" where
  "quoted ch =
     (if 32 \<le> unat ch \<and> unat ch \<le> 126 then [TText [CHR 0x27], TChar ch, TText [CHR 0x27, CHR 0x20]]
      else [TText [CHR 0x27, CHR 0x27, CHR 0x20, CHR 0x20]])"

definition number_text :: "u8 \<Rightarrow> u8 \<Rightarrow> u32 \<Rightarrow> term_event list" where
  "number_text fmt bits v =
     (let low = take_bit (unat bits) v in
      (if fmt = df_ascii then quoted (ucast low) else []) @
      ui_format_print_number_3 low (ucast bits) (if fmt = df_ascii \<or> fmt = df_auto then df_hex else ucast fmt))"

text \<open>The text of one result, and the results in rows.\<close>

definition result_text :: "system_config \<Rightarrow> bool \<Rightarrow> u8 \<Rightarrow> bytecode \<Rightarrow> term_event list" where
  "result_text c read f b =
     number_text (shown_format c read f) (ucast (bc_bits b)) (if read then bc_in_data b else bc_out_data b) @
     (if bc_read_with_write b
      then [TText ''(''] @ number_text (shown_format c False f) (ucast (bc_bits b)) (bc_in_data b) @ [TText '')''] else []) @
     (case bc_data_message b of None \<Rightarrow> [TText '' ''] | Some m \<Rightarrow> [TText '' '', TMsg m, TText '' ''])"

definition heading :: "bool \<Rightarrow> term_event list" where
  "heading read = [TText crlf, TColor Col_info, TText (if read then ''RX:'' else ''TX:''), TColor Col_reset, TText '' '']"

abbreviation row_break :: "term_event list" where
  "row_break \<equiv> [TText crlf, TText ''    '']"

function in_rows :: "nat \<Rightarrow> term_event list list \<Rightarrow> term_event list" where
  "in_rows n xs =
     (if n = 0 \<or> length xs < n then concat xs
      else concat (take n xs) @ row_break @ in_rows n (drop n xs))"
  by pat_completeness auto
termination
  by (relation "measure (\<lambda>(n, xs). length xs)") auto

declare in_rows.simps [simp del]

lemma row_len_bounds: "0 < row_len c f" "row_len c f \<le> 8"
  by (simp_all add: row_len_def)

lemma number_text_ok:
  "postprocess_format_print_number c b v read =
     number_text (shown_format c read (bc_number_format b)) (ucast (bc_bits b)) v"
proof -
  have mask: "v AND (if n < 32 then push_bit (unat n) 1 - 1 else 0xFFFFFFFF) = take_bit (unat n) v" for n :: u8
  proof (cases "n < 32")
    case True
    then show ?thesis
      by (simp add: take_bit_eq_mask mask_eq_exp_minus_1 push_bit_eq_mult)
  next
    case False
    then have "32 \<le> unat n"
      by (simp add: word_le_nat_alt not_less)
    moreover have "(0xFFFFFFFF :: u32) = - 1"
      by simp
    ultimately show ?thesis
      using False by (simp only: if_False and.right_neutral) (simp add: take_bit_word_eq_self)
  qed
  have quote: "print_ascii_if_printable d = quoted (ucast d)" for d
    by (simp add: print_ascii_if_printable_def quoted_def Let_def word_le_nat_alt)
  show ?thesis
    unfolding postprocess_format_print_number_def number_text_def shown_format_def Let_def mask quote
    by simp
qed

text \<open>Inside a run of numbers of one kind, \<open>k\<close> of them have been printed.\<close>

definition in_block :: "system_config \<Rightarrow> u8 \<Rightarrow> u8 \<Rightarrow> nat \<Rightarrow> output_info \<Rightarrow> bool" where
  "in_block c cmd f k info \<longleftrightarrow> oi_previous_command info = cmd \<and> oi_previous_number_format info = f \<and>
     oi_row_counter info = of_nat (row_len c f - k mod row_len c f)"

text \<open>One more number of the run: its text, and a break exactly when the row is full.\<close>

lemma mode_write_step:
  assumes info: "in_block c cmd f k info \<or> (k = 0 \<and> oi_previous_command info \<noteq> cmd)"
    and b: "bc_command b = cmd" "bc_number_format b = f" and cmd: "cmd = SYN_WRITE \<or> cmd = SYN_READ"
  shows "in_block c cmd f (Suc k) ((snd (postprocess_mode_write c b info))\<lparr>oi_previous_command := cmd\<rparr>)"
    and "fst (postprocess_mode_write c b info) =
      (if oi_previous_command info = cmd \<and> oi_previous_number_format info = f then [] else heading (cmd = SYN_READ)) @
      result_text c (cmd = SYN_READ) f b @ (if Suc k mod row_len c f = 0 then row_break else [])"
proof -
  let ?L = "row_len c f"
  have L: "(if f = df_bin \<or> sc_display_format c = df_ascii then 4 else 8) = (of_nat ?L :: u8)" "0 < ?L" "?L \<le> 8"
    by (simp_all add: row_len_def)
  define ctr where "ctr = (if oi_previous_command info = cmd \<and> oi_previous_number_format info = f
      then oi_row_counter info else of_nat ?L)"
  have ctr: "ctr = of_nat (?L - k mod ?L)"
    using info by (auto simp: ctr_def in_block_def)
  have mod: "k mod ?L < ?L" using L by simp
  have dec: "ctr - 1 = of_nat (?L - k mod ?L - 1)"
    unfolding ctr using mod by (simp add: of_nat_diff)
  have full: "ctr - 1 = 0 \<longleftrightarrow> Suc k mod ?L = 0"
  proof -
    have "unat (of_nat (?L - k mod ?L - 1) :: u8) = ?L - k mod ?L - 1"
      using L(3) by (intro unat_of_nat_small) simp
    then have "ctr - 1 = 0 \<longleftrightarrow> ?L - k mod ?L - 1 = 0"
      unfolding dec by (simp add: word_unat_eq_iff)
    then show ?thesis using mod by (auto simp: mod_Suc)
  qed
  have next_ctr: "(if ctr - 1 = 0 then of_nat ?L else ctr - 1) = of_nat (?L - Suc k mod ?L)"
  proof (cases "Suc k mod ?L = 0")
    case True
    then show ?thesis using full by simp
  next
    case False
    then have "Suc k mod ?L = Suc (k mod ?L)" by (simp add: mod_Suc split: if_splits)
    then show ?thesis using full False dec by simp
  qed
  have res: "oi_row_counter (snd (postprocess_mode_write c b info)) = (if ctr - 1 = 0 then of_nat ?L else ctr - 1)"
    "oi_previous_number_format (snd (postprocess_mode_write c b info)) = f"
    "fst (postprocess_mode_write c b info) =
      (if oi_previous_command info = cmd \<and> oi_previous_number_format info = f then [] else heading (cmd = SYN_READ)) @
      result_text c (cmd = SYN_READ) f b @ (if ctr - 1 = 0 then row_break else [])"
    using cmd unfolding postprocess_mode_write_def Let_def b L ctr_def number_text_ok result_text_def heading_def
    by (auto split: option.split)
  show "in_block c cmd f (Suc k) ((snd (postprocess_mode_write c b info))\<lparr>oi_previous_command := cmd\<rparr>)"
    using res next_ctr by (simp add: in_block_def)
  show "fst (postprocess_mode_write c b info) =
      (if oi_previous_command info = cmd \<and> oi_previous_number_format info = f then [] else heading (cmd = SYN_READ)) @
      result_text c (cmd = SYN_READ) f b @ (if Suc k mod row_len c f = 0 then row_break else [])"
    using res full by simp
qed

text \<open>Row by row is the same as counting.\<close>

fun counted :: "nat \<Rightarrow> nat \<Rightarrow> term_event list list \<Rightarrow> term_event list" where
  "counted n k [] = []"
| "counted n k (x # xs) = x @ (if Suc k mod n = 0 then row_break else []) @ counted n (Suc k) xs"

lemma counted_append: "counted n k (xs @ ys) = counted n k xs @ counted n (k + length xs) ys"
  by (induction xs arbitrary: k) simp_all

lemma counted_short: "k mod n + length xs < n \<Longrightarrow> counted n k xs = concat xs"
proof (induction xs arbitrary: k)
  case (Cons x xs)
  then have "Suc k mod n = Suc (k mod n)"
    by (simp add: mod_Suc)
  then show ?case
    using Cons by simp
qed simp

lemma counted_full:
  assumes "k mod n = 0" "length xs = n" "0 < n"
  shows "counted n k xs = concat xs @ row_break"
proof -
  obtain ys y where xs: "xs = ys @ [y]"
    using assms(2,3) by (cases xs rule: rev_cases) auto
  then have "Suc (k + length ys) = k + n"
    using assms(2) by simp
  then have "Suc (k + length ys) mod n = 0"
    using assms(1) by (simp only: mod_add_self2)
  moreover have "counted n k ys = concat ys"
    using assms(1,2) xs by (intro counted_short) simp
  ultimately show ?thesis
    by (simp add: xs counted_append)
qed

lemma counted_rows: "k mod n = 0 \<Longrightarrow> 0 < n \<Longrightarrow> counted n k xs = in_rows n xs"
proof (induction n xs arbitrary: k rule: in_rows.induct)
  case (1 n xs)
  show ?case
  proof (cases "length xs < n")
    case True
    then show ?thesis
      using 1(2,3) counted_short [of k n xs] by (subst in_rows.simps) simp
  next
    case False
    then have len: "length (take n xs) = n"
      by simp
    have "counted n (k + n) (drop n xs) = in_rows n (drop n xs)"
      using 1(1) [of "k + n"] 1(2,3) False by simp
    then show ?thesis
      using counted_append [of n k "take n xs" "drop n xs"] counted_full [OF 1(2) len 1(3)] len False 1(3)
      by (subst in_rows.simps) simp
  qed
qed

subsection \<open>Properties\<close>

lemma syntax_post_loop_block:
  assumes "in_block c cmd f k info \<or> (k = 0 \<and> oi_previous_command info \<noteq> cmd)"
    and cmd: "cmd = SYN_WRITE \<or> cmd = SYN_READ"
    and "\<forall>b \<in> set bs. bc_command b = cmd \<and> bc_number_format b = f \<and> bc_error b = SERR_NONE"
  shows "fst (syntax_post_loop c bs info) =
    (if bs = [] \<or> in_block c cmd f k info then [] else heading (cmd = SYN_READ)) @
    counted (row_len c f) k (map (result_text c (cmd = SYN_READ) f) bs)"
  using assms(1,3)
proof (induction bs arbitrary: k info)
  case (Cons b bs)
  have b: "bc_command b = cmd" "bc_number_format b = f" "bc_error b = 0" using Cons.prems by auto
  define out where "out = postprocess_mode_write c b info"
  have one: "syntax_post_one c b info = (fst out, (snd out)\<lparr>oi_previous_command := cmd\<rparr>)"
    using b cmd by (auto simp: syntax_post_one_def syntax_post_func_def out_def word_le_nat_alt split: prod.split)
  note step = mode_write_step [OF Cons.prems(1) b(1,2) cmd, folded out_def]
  let ?info = "(snd out)\<lparr>oi_previous_command := cmd\<rparr>"
  have "fst (syntax_post_loop c bs ?info) = counted (row_len c f) (Suc k) (map (result_text c (cmd = SYN_READ) f) bs)"
  proof -
    have "\<forall>b \<in> set bs. bc_command b = cmd \<and> bc_number_format b = f \<and> bc_error b = SERR_NONE"
      using Cons.prems(2) by simp
    from Cons.IH [OF disjI1 [OF step(1)] this] show ?thesis
      using step(1) by simp
  qed
  moreover have "fst (syntax_post_loop c (b # bs) info) = fst out @ fst (syntax_post_loop c bs ?info)"
    by (simp add: one case_prod_unfold Let_def)
  moreover have "(oi_previous_command info = cmd \<and> oi_previous_number_format info = f) = in_block c cmd f k info"
    using Cons.prems(1) by (auto simp: in_block_def)
  ultimately show ?case
    unfolding step(2) by simp
qed simp

text \<open>The visible characters of a number of one to 32 bits: all its digits in base 16 (whole bytes) or 2, behind the prefix,
  or its decimal digits; other widths than 8 bits follow behind a dot.\<close>

definition digits_text :: "u8 \<Rightarrow> u8 \<Rightarrow> nat \<Rightarrow> cstr" where
  "digits_text fmt bits v =
     (if fmt = df_hex then [ch_0, ch_x] @ map hex_char (fixed_digits 16 v (2 * ((unat bits + 7) div 8)))
      else if fmt = df_bin then [ch_0, ch_b] @ map dec_char (fixed_digits 2 v (unat bits))
      else dec_string v) @ (if bits = 8 then [] else ch_dot # dec_string (unat bits))"

lemma number_text_digits:
  assumes "1 \<le> bits" "bits \<le> 32" "fmt \<in> {df_hex, df_dec, df_bin}"
  shows "term_chars (number_text fmt bits v) = digits_text fmt bits (unat v mod 2 ^ unat bits)"
proof -
  let ?n = "ucast bits :: u32"
  have n: "ucast ?n = bits" "unat bits \<le> 32"
    using assms(2) by (simp_all add: word_le_nat_alt ucast_up_ucast_id is_up)
  have nibbles: "format_calc_nibbles bits = 2 * ((unat bits + 7) div 8)"
  proof -
    have "Suc ((unat bits + 3) div 4) = (unat bits + 7) div 4"
      by simp
    moreover have "(unat bits + 7) div 4 - (unat bits + 7) div 4 mod 2 = 2 * ((unat bits + 7) div 4 div 2)"
      by (rule minus_mod_eq_mult_div)
    ultimately show ?thesis
      by (simp add: format_calc_nibbles_def Let_def flip: div_mult2_eq)
  qed
  have "unat (take_bit (unat bits) v) = unat v mod 2 ^ unat bits"
    by (simp only: unsigned_take_bit_eq) (simp add: take_bit_eq_mod)
  then have val: "unat (format_mask_value (take_bit (unat bits) v) bits) = unat v mod 2 ^ unat bits"
    using format_mask_value_unat [OF assms(2)] by simp
  have tail: "term_chars (if ?n \<noteq> 8 then [TText ''.'', TInt (sint ?n)] else []) = (if bits = 8 then [] else ch_dot # dec_string (unat bits))"
  proof -
    have u: "unat ?n = unat bits"
      using n(2) by (simp add: unsigned_ucast_eq take_bit_nat_eq_self)
    then have "?n = 8 \<longleftrightarrow> bits = 8"
      by (simp add: word_unat_eq_iff)
    moreover have "sint ?n = int (unat bits)"
    proof -
      have "signed_take_bit 31 (int m) = int m" if "m \<le> 32" for m
        using that by (intro signed_take_bit_int_eq_self) simp_all
      from this [OF n(2)] show ?thesis
        unfolding sint_uint uint_nat u by simp
    qed
    ultimately show ?thesis
      by (simp add: int_chars_def char_code_def)
  qed
  show ?thesis
    using assms(3) unfolding number_text_def digits_text_def ui_format_print_number_3_def Let_def term_chars_append tail
    by (auto simp: term_chars_print_hex [OF assms(2)] term_chars_print_bin val n(1) int_chars_uint nibbles)
qed

text \<open>C10: the results of a run of writes, or of reads, with one number format are printed as one heading (TX or RX)
  and then all of them in order, in rows of eight (four in binary or ASCII) with a line break behind
  every full row and nowhere else. The text of a result is its value in the format it was written in (a read, or
  a configured format: in that), cut to its bits, the byte read at the same time in parentheses, and the message
  of the mode; the digits are those of the value. The pass returns normally and resets the result counter.\<close>

theorem syntax_post_rows:
  assumes "cmd = SYN_WRITE \<or> cmd = SYN_READ" and "so_in_cnt io = length (results io)" and "results io \<noteq> []"
    and "\<forall>b \<in> set (results io). bc_command b = cmd \<and> bc_number_format b = f \<and> bc_error b = SERR_NONE"
  shows "(\<exists>info'. syntax_post c io info =
      (SSTATUS_OK, heading (cmd = SYN_READ) @ in_rows (row_len c f) (map (result_text c (cmd = SYN_READ) f) (results io)) @ [TText crlf],
       io\<lparr>so_in_cnt := 0\<rparr>, info')) \<and>
    (\<forall>fmt bits v. 1 \<le> bits \<and> bits \<le> 32 \<and> fmt \<in> {df_hex, df_dec, df_bin} \<longrightarrow>
       term_chars (number_text fmt bits v) = digits_text fmt bits (unat v mod 2 ^ unat bits))"
proof (intro conjI allI impI)
  obtain es info' where loop: "syntax_post_loop c (results io) (info\<lparr>oi_previous_command := 0xFF\<rparr>) = (es, info')"
    by fastforce
  have "es = heading (cmd = SYN_READ) @ in_rows (row_len c f) (map (result_text c (cmd = SYN_READ) f) (results io))"
    using syntax_post_loop_block [of c cmd f 0 "info\<lparr>oi_previous_command := 0xFF\<rparr>" "results io"] assms loop
      counted_rows [of 0 "row_len c f"] row_len_bounds(1)
    by (auto simp: in_block_def)
  then show "\<exists>info'. syntax_post c io info =
      (SSTATUS_OK, heading (cmd = SYN_READ) @ in_rows (row_len c f) (map (result_text c (cmd = SYN_READ) f) (results io)) @ [TText crlf],
       io\<lparr>so_in_cnt := 0\<rparr>, info')"
    using assms(2,3) by (auto simp: syntax_post_def loop)
qed (simp add: number_text_digits)

text \<open>Nine bytes written, 0 to 8: a row of eight and one more.\<close>

definition post_bytes :: "bytecode list" where
  "post_bytes = map (\<lambda>i. bytecode_empty\<lparr>bc_out_data := of_nat i, bc_number_format := df_hex, bc_bits := 8\<rparr>) [0..<9]"

definition post_sample :: syntax_io where
  "post_sample = io_reset\<lparr>so_in := post_bytes @ replicate 1015 bytecode_empty, so_in_cnt := 9\<rparr>"

theorem syntax_post_rows_witness:
  "(\<exists>info'. syntax_post system_init post_sample \<lparr>oi_previous_command = 0, oi_previous_number_format = 0,
      oi_row_length = 0, oi_row_counter = 0\<rparr> =
      (SSTATUS_OK, heading False @
         concat (map (\<lambda>i. number_text df_hex 8 (of_nat i) @ [TText '' '']) [0..<8]) @ row_break @
         number_text df_hex 8 8 @ [TText '' ''] @ [TText crlf],
       post_sample\<lparr>so_in_cnt := 0\<rparr>, info')) \<and>
   term_chars (number_text df_hex 8 200) = map char_code ''0xC8''"
proof -
  have r: "results post_sample = post_bytes" "so_in_cnt post_sample = length (results post_sample)"
    by (simp_all add: post_sample_def post_bytes_def results_def)
  have "SYN_WRITE = SYN_WRITE \<or> SYN_WRITE = (SYN_READ :: u8)" "results post_sample \<noteq> []"
    "\<forall>b \<in> set (results post_sample). bc_command b = SYN_WRITE \<and> bc_number_format b = df_hex \<and> bc_error b = SERR_NONE"
    unfolding r(1) by (simp_all add: post_bytes_def bytecode_empty_def)
  note rows = syntax_post_rows [OF this(1) r(2) this(2,3), of system_init
      "\<lparr>oi_previous_command = 0, oi_previous_number_format = 0, oi_row_length = 0, oi_row_counter = 0\<rparr>"]
  have "map (result_text system_init False df_hex) post_bytes = map (\<lambda>i. number_text df_hex 8 (of_nat i) @ [TText '' '']) [0..<9]"
    by (simp add: post_bytes_def result_text_def shown_format_def system_init_def bytecode_empty_def)
  moreover have "in_rows 8 (map f [0..<9]) = concat (map f [0..<8]) @ row_break @ f 8" for f :: "nat \<Rightarrow> term_event list"
    by (subst in_rows.simps, subst in_rows.simps) (simp add: upt_conv_Cons numeral_eq_Suc)
  moreover have "row_len system_init df_hex = 8"
    by (simp add: row_len_def system_init_def)
  moreover have "digits_text df_hex 8 200 = map char_code ''0xC8''"
    by code_simp
  ultimately show ?thesis
    using rows unfolding r(1) by (simp del: upt_rec_numeral)
qed

end
