(* ===== verification/Bp_Cmd.thy ===== *)
theory Bp_Cmd
  imports Ui_Parse World
begin

text \<open>
  The argument parser of the commands, \<^verbatim>\<open>src/lib/bp_args/bp_cmd.c\<close>: the option and
  command descriptors, the scanners for flags, action verbs and positional arguments, the typed
  getters, and the constraints on values. Every query scans the line again from the command
  name. A pointer into the line is an index, a token its index and length.

  A translation key (\<open>T_\<close>) is its name, the null key the empty string.

  Floating-point values are not modelled: a constraint is on an unsigned or a signed integer or
  a choice. Interactive prompts (\<open>bp_cmd_prompt\<close>, \<open>bp_cmd_confirm\<close>) and the help
  pages are not modelled.
\<close>

subsection \<open>Descriptors\<close>

datatype bp_arg_type = BP_ARG_NONE | BP_ARG_REQUIRED | BP_ARG_OPTIONAL

record bp_val_choice =
  vc_name :: "cstr option"
  vc_alias :: "cstr option"
  vc_label :: string
  vc_value :: u32

text \<open>The tagged union: minimum, maximum and default, or the choices and the default. A signed
  value is its bit pattern.\<close>

datatype bp_val =
    BP_VAL_NONE
  | BP_VAL_UINT32 u32 u32 u32
  | BP_VAL_INT32 u32 u32 u32
  | BP_VAL_CHOICE "bp_val_choice list" u32

record bp_val_constraint =
  con_val :: bp_val
  con_prompt :: string
  con_hint :: string

record bp_command_opt =
  opt_long_name :: "cstr option"
  opt_short_name :: u8
  opt_arg_type :: bp_arg_type
  opt_arg_hint :: "cstr option"
  opt_description :: string
  opt_constraint :: "bp_val_constraint option"

record bp_command_action =
  act_action :: u32
  act_verb :: cstr
  act_description :: string

record bp_command_positional =
  pos_name :: cstr
  pos_hint :: "cstr option"
  pos_description :: string
  pos_required :: bool
  pos_constraint :: "bp_val_constraint option"

datatype 'd bp_action_delegate = Action_Delegate
  (del_verb_at: "nat \<Rightarrow> cstr option")
  (del_match: "cstr \<Rightarrow> u32 option")
  (del_def_for_verb: "(u32 \<Rightarrow> 'd option) option")

text \<open>The counts of the arrays are the lengths of the lists.\<close>

datatype bp_command_def = Bp_Command_Def
  (def_name: "cstr option")
  (def_description: string)
  (def_actions: "bp_command_action list option")
  (def_action_delegate: "bp_command_def bp_action_delegate option")
  (def_opts: "bp_command_opt list option")
  (def_positionals: "bp_command_positional list option")

subsection \<open>Tokens\<close>

function skip_ws :: "cstr \<Rightarrow> nat \<Rightarrow> nat \<Rightarrow> nat" where
  "skip_ws s e p =
     (if p < e \<and> (at s p = ch_space \<or> at s p = ch_tab \<or> at s p = ch_comma) then skip_ws s e (Suc p) else p)"
  by pat_completeness auto
termination by (relation "measure (\<lambda>(s, e, p). e - p)") auto

function skip_tok :: "cstr \<Rightarrow> nat \<Rightarrow> nat \<Rightarrow> nat" where
  "skip_tok s e p =
     (if p < e \<and> at s p \<noteq> ch_space \<and> at s p \<noteq> ch_tab \<and> at s p \<noteq> ch_comma \<and> at s p \<noteq> 0
      then skip_tok s e (Suc p) else p)"
  by pat_completeness auto
termination by (relation "measure (\<lambda>(s, e, p). e - p)") auto

declare skip_ws.simps [simp del] skip_tok.simps [simp del]

definition tok_len :: "cstr \<Rightarrow> nat \<Rightarrow> nat \<Rightarrow> nat" where
  "tok_len s e p = skip_tok s e p - p"

text \<open>The bytes of a token; \<open>memcmp\<close> and \<open>strlen\<close> compare them with a string.\<close>

definition token :: "cstr \<Rightarrow> nat \<Rightarrow> nat \<Rightarrow> cstr" where
  "token s p n = map (at s) [p..<p + n]"

definition tok_eq :: "cstr \<Rightarrow> cstr \<Rightarrow> bool" where
  "tok_eq tok str \<longleftrightarrow> tok = str"

definition tok_eq_ci :: "cstr \<Rightarrow> cstr \<Rightarrow> bool" where
  "tok_eq_ci tok str \<longleftrightarrow>
     length tok = length str \<and> list_all2 (\<lambda>a b. (a OR 0x20) = (b OR 0x20)) tok str"

definition tok_prefix_ci :: "cstr \<Rightarrow> cstr \<Rightarrow> nat \<Rightarrow> bool" where
  "tok_prefix_ci tok full full_len \<longleftrightarrow>
     length tok < full_len \<and> (\<forall>i < length tok. (tok ! i OR 0x20) = (at full i OR 0x20))"

text \<open>An option array ends at the first entry without a name.\<close>

definition opts_of :: "bp_command_def \<Rightarrow> bp_command_opt list" where
  "opts_of d = (case def_opts d of None \<Rightarrow> []
     | Some os \<Rightarrow> takeWhile (\<lambda>o'. opt_long_name o' \<noteq> None \<or> opt_short_name o' \<noteq> 0) os)"

definition find_opt_in_def :: "bp_command_def \<Rightarrow> u8 \<Rightarrow> bp_command_opt option" where
  "find_opt_in_def d c = find (\<lambda>o'. opt_short_name o' = c) (opts_of d)"

definition find_opt_by_long_name :: "bp_command_def \<Rightarrow> cstr \<Rightarrow> bp_command_opt option" where
  "find_opt_by_long_name d name = find (\<lambda>o'. opt_long_name o' = Some name) (opts_of d)"

text \<open>The lookup of a short flag: the lower-case letter first, then the character as typed.\<close>

definition short_opt :: "bp_command_def \<Rightarrow> u8 \<Rightarrow> bp_command_opt option" where
  "short_opt d c = (case find_opt_in_def d (c OR 0x20) of None \<Rightarrow> find_opt_in_def d c | Some o' \<Rightarrow> Some o')"

text \<open>The end of a long option name.\<close>

function skip_name :: "cstr \<Rightarrow> nat \<Rightarrow> nat \<Rightarrow> nat" where
  "skip_name s e p =
     (if p < e \<and> at s p \<noteq> ch_eq \<and> at s p \<noteq> ch_space \<and> at s p \<noteq> ch_tab \<and> at s p \<noteq> 0
      then skip_name s e (Suc p) else p)"
  by pat_completeness auto
termination by (relation "measure (\<lambda>(s, e, p). e - p)") auto

declare skip_name.simps [simp del]

lemma skip_le:
  "p \<le> skip_ws s e p" "p \<le> skip_tok s e p" "p \<le> skip_name s e p"
proof -
  show "p \<le> skip_ws s e p" by (induction s e p rule: skip_ws.induct) (subst skip_ws.simps, auto)
  show "p \<le> skip_tok s e p" by (induction s e p rule: skip_tok.induct) (subst skip_tok.simps, auto)
  show "p \<le> skip_name s e p" by (induction s e p rule: skip_name.induct) (subst skip_name.simps, auto)
qed

lemma skip_ws_stop: "p < e \<Longrightarrow> at s p = ch_space \<or> at s p = ch_tab \<or> at s p = ch_comma \<Longrightarrow> p < skip_ws s e p"
  by (subst skip_ws.simps) (use skip_le(1) [of "Suc p" s e] in auto)

lemma skip_ws_not_ws: "skip_ws s e p < e \<Longrightarrow>
    at s (skip_ws s e p) \<noteq> ch_space \<and> at s (skip_ws s e p) \<noteq> ch_tab \<and> at s (skip_ws s e p) \<noteq> ch_comma"
  by (induction s e p rule: skip_ws.induct) (subst (asm) (2) skip_ws.simps, subst (1 2 3) skip_ws.simps, auto)

lemma skip_ws_twice [simp]: "skip_ws s e (skip_ws s e p) = skip_ws s e p"
  using skip_ws_not_ws [of s e p] by (subst skip_ws.simps) auto

lemma skip_tok_progress:
  "p < e \<Longrightarrow> at s p \<noteq> ch_space \<Longrightarrow> at s p \<noteq> ch_tab \<Longrightarrow> at s p \<noteq> ch_comma \<Longrightarrow> at s p \<noteq> 0 \<Longrightarrow> p < skip_tok s e p"
  by (subst skip_tok.simps) (use skip_le(2) [of "Suc p" s e] in auto)

lemmas scan_moves = skip_le skip_tok_progress skip_ws_not_ws

subsection \<open>The scanners\<close>

text \<open>
  \<open>cmd_scan_flag\<close>: not found, or found with the value's token, if there is one, and the message
  printed when a required value is missing. A step of the loop handles the token at \<open>p\<close>, the
  first character of it being no separator: \<open>Inl\<close> is the result, \<open>Inr\<close> where to go on.
\<close>

datatype scan_result = Not_Found | Found "(nat \<times> nat) option" "term_event list"

text \<open>The value of a flag in the next token; \<open>p\<close> is behind the white space.\<close>

definition scan_value ::
  "cstr \<Rightarrow> nat \<Rightarrow> nat \<Rightarrow> bool \<Rightarrow> term_event list \<Rightarrow> scan_result + nat" where
  "scan_value s e p match missing =
     (if p < e \<and> at s p \<noteq> ch_minus \<and> at s p \<noteq> 0
      then (if match then Inl (Found (Some (p, tok_len s e p)) []) else Inr (p + tok_len s e p))
      else if match then Inl (Found None missing) else Inr p)"

definition is_short_flag :: "cstr \<Rightarrow> nat \<Rightarrow> nat \<Rightarrow> bool" where
  "is_short_flag s e p \<longleftrightarrow> at s p = ch_minus \<and> p + 1 < e \<and> at s (p + 1) \<noteq> ch_minus \<and>
     at s (p + 1) \<noteq> ch_space \<and> at s (p + 1) \<noteq> 0"

definition is_long_flag :: "cstr \<Rightarrow> nat \<Rightarrow> nat \<Rightarrow> bool" where
  "is_long_flag s e p \<longleftrightarrow> at s p = ch_minus \<and> p + 1 < e \<and> at s (p + 1) = ch_minus"

definition takes_value :: "bp_command_opt option \<Rightarrow> bool" where
  "takes_value x = (case x of None \<Rightarrow> False | Some o' \<Rightarrow> opt_arg_type o' \<noteq> BP_ARG_NONE)"

definition requires_argument :: "bp_command_opt option \<Rightarrow> term_event list \<Rightarrow> term_event list" where
  "requires_argument x name = (case x of None \<Rightarrow> []
     | Some o' \<Rightarrow> if opt_arg_type o' = BP_ARG_REQUIRED
                 then [TText ''option -''] @ name @ [TText '' requires an argument'', TText crlf] else [])"

definition scan_short :: "bp_command_def \<Rightarrow> u8 \<Rightarrow> cstr \<Rightarrow> nat \<Rightarrow> nat \<Rightarrow> scan_result + nat" where
  "scan_short d flag s e p =
     (let opt_char = at s (p + 1); opt = short_opt d opt_char;
          match = ((opt_char OR 0x20) = (flag OR 0x20))
      in if takes_value opt
         then scan_value s e (skip_ws s e (p + 2)) match (requires_argument opt [TChar flag])
         else if match then Inl (Found None []) else Inr (p + 2))"

definition scan_long :: "bp_command_def \<Rightarrow> u8 \<Rightarrow> cstr \<Rightarrow> nat \<Rightarrow> nat \<Rightarrow> scan_result + nat" where
  "scan_long d flag s e p =
     (let q = skip_name s e (p + 2); name = token s (p + 2) (q - (p + 2)); opt = find_opt_by_long_name d name;
          match = (case opt of None \<Rightarrow> False
             | Some o' \<Rightarrow> opt_short_name o' \<noteq> 0 \<and> (opt_short_name o' OR 0x20) = (flag OR 0x20))
      in if takes_value opt
         then (if q < e \<and> at s q = ch_eq
               then (if match then Inl (Found (Some (q + 1, tok_len s e (q + 1))) [])
                     else Inr (q + 1 + tok_len s e (q + 1)))
               else scan_value s e (skip_ws s e q) match
                      (requires_argument opt (TText ''-'' # map TChar name)))
         else (let q' = (if at s q = ch_eq then skip_tok s e q else skip_ws s e q)
               in if match then Inl (Found None []) else Inr q'))"

definition scan_flag_step :: "bp_command_def \<Rightarrow> u8 \<Rightarrow> cstr \<Rightarrow> nat \<Rightarrow> nat \<Rightarrow> scan_result + nat" where
  "scan_flag_step d flag s e p =
     (if is_short_flag s e p then scan_short d flag s e p
      else if is_long_flag s e p then scan_long d flag s e p
      else Inr (skip_tok s e p))"

lemma scan_value_moves: "scan_value s e p match missing = Inr p' \<Longrightarrow> p \<le> p'"
  by (auto simp: scan_value_def split: if_splits)

lemma scan_flag_step_moves:
  assumes "scan_flag_step d flag s e p = Inr p'" and "p < e" and "at s p \<noteq> 0"
    and "at s p \<noteq> ch_space" "at s p \<noteq> ch_tab" "at s p \<noteq> ch_comma"
  shows "p < p'"
proof (cases "is_short_flag s e p")
  case True
  have "p + 2 \<le> p'"
    using assms(1) True skip_le(1) [of "p + 2" s e]
    by (auto simp: scan_flag_step_def scan_short_def Let_def split: if_splits dest!: scan_value_moves)
  then show ?thesis by simp
next
  case short: False
  show ?thesis
  proof (cases "is_long_flag s e p")
    case True
    have "p + 2 \<le> skip_name s e (p + 2)" by (rule skip_le)
    then have "p + 2 \<le> p'"
      using assms(1) True short skip_le(1) [of "skip_name s e (p + 2)" s e] skip_le(2) [of "skip_name s e (p + 2)" s e]
      by (auto simp: scan_flag_step_def scan_long_def Let_def split: if_splits dest!: scan_value_moves)
    then show ?thesis by simp
  next
    case False
    then show ?thesis
      using assms short skip_tok_progress [of p e s] by (auto simp: scan_flag_step_def)
  qed
qed

function cmd_scan_flag_loop :: "bp_command_def \<Rightarrow> u8 \<Rightarrow> cstr \<Rightarrow> nat \<Rightarrow> nat \<Rightarrow> scan_result" where
  "cmd_scan_flag_loop d flag s e p0 =
     (let p = skip_ws s e p0
      in if \<not> p0 < e \<or> e \<le> p \<or> at s p = 0 then Not_Found
         else case scan_flag_step d flag s e p of
           Inl r \<Rightarrow> r
         | Inr p' \<Rightarrow> cmd_scan_flag_loop d flag s e p')"
  by pat_completeness auto
termination
proof (relation "measure (\<lambda>(d, flag, s, e, p). e - p)", goal_cases)
  case (2 d flag s e p0 p p')
  then have "p < p'"
    using scan_flag_step_moves [of d flag s e p p'] skip_ws_not_ws [of s e p0] by auto
  then show ?case
    using 2 skip_le(1) [of p0 s e] by auto
qed simp

declare cmd_scan_flag_loop.simps [simp del]

text \<open>Every query starts behind the command name.\<close>

definition after_command :: "ln_cmdreader \<Rightarrow> nat \<Rightarrow> nat" where
  "after_command r e = skip_tok (ln_buf r) e (skip_ws (ln_buf r) e (ln_cmdln_current r))"

definition line_end :: "ln_cmdreader \<Rightarrow> nat" where
  "line_end r = ln_cmdln_current r + ln_cmdln_remaining r"

definition cmd_scan_flag :: "bp_command_def \<Rightarrow> u8 \<Rightarrow> ln_cmdreader \<Rightarrow> scan_result" where
  "cmd_scan_flag d flag r =
     cmd_scan_flag_loop d flag (ln_buf r) (line_end r) (after_command r (line_end r))"


subsection \<open>Positional arguments\<close>

definition skip_flag_value :: "cstr \<Rightarrow> nat \<Rightarrow> nat \<Rightarrow> nat" where
  "skip_flag_value s e p =
     (let q = skip_ws s e p in if q < e \<and> at s q \<noteq> ch_minus \<and> at s q \<noteq> 0 then skip_tok s e q else q)"

text \<open>Behind a long flag that starts at \<open>p\<close>, with its value.\<close>

definition skip_long_flag :: "bp_command_def \<Rightarrow> cstr \<Rightarrow> nat \<Rightarrow> nat \<Rightarrow> nat" where
  "skip_long_flag d s e p =
     (let q = skip_name s e (p + 2); opt = find_opt_by_long_name d (token s (p + 2) (q - (p + 2)))
      in if q < e \<and> at s q = ch_eq then skip_tok s e q
         else if takes_value opt then skip_flag_value s e q else q)"

text \<open>\<open>None\<close>: the token at \<open>p\<close> is positional.\<close>

definition positional_skip :: "bp_command_def \<Rightarrow> cstr \<Rightarrow> nat \<Rightarrow> nat \<Rightarrow> nat option" where
  "positional_skip d s e p =
     (if is_short_flag s e p
      then Some (if takes_value (short_opt d (at s (p + 1))) then skip_flag_value s e (p + 2) else p + 2)
      else if is_long_flag s e p then Some (skip_long_flag d s e p)
      else None)"

lemma skip_flag_value_le: "p \<le> skip_flag_value s e p"
  using skip_le(1) [of p s e] skip_le(2) [of "skip_ws s e p" s e] by (auto simp: skip_flag_value_def Let_def)

lemma skip_long_flag_le: "p + 2 \<le> skip_long_flag d s e p"
  using skip_le(3) [of "p + 2" s e] skip_le(2) [of "skip_name s e (p + 2)" s e]
    skip_flag_value_le [of "skip_name s e (p + 2)" s e]
  by (auto simp: skip_long_flag_def Let_def)

lemma positional_skip_moves: "positional_skip d s e p = Some p' \<Longrightarrow> p < p'"
  using skip_long_flag_le [of p d s e] skip_flag_value_le [of "p + 2" s e]
  by (auto simp: positional_skip_def split: if_splits)

function positional_loop :: "bp_command_def \<Rightarrow> nat \<Rightarrow> nat \<Rightarrow> cstr \<Rightarrow> nat \<Rightarrow> nat \<Rightarrow> (nat \<times> nat) option" where
  "positional_loop d pos cur_pos s e p0 =
     (let p = skip_ws s e p0
      in if \<not> p0 < e \<or> e \<le> p \<or> at s p = 0 then None
         else case positional_skip d s e p of
           Some p' \<Rightarrow> positional_loop d pos cur_pos s e p'
         | None \<Rightarrow> if cur_pos + 1 = pos
                   then (if 0 < tok_len s e p then Some (p, tok_len s e p) else None)
                   else positional_loop d pos (cur_pos + 1) s e (skip_tok s e p))"
  by pat_completeness auto
termination
proof (relation "measure (\<lambda>(d, pos, cur_pos, s, e, p). e - p)", goal_cases)
  case (3 d pos cur_pos s e p0 p p')
  then show ?case
    using skip_le(1) [of p0 s e] positional_skip_moves [of d s e p p'] by auto
next
  case (2 d pos cur_pos s e p0 p)
  then show ?case
    using skip_le(1) [of p0 s e] skip_tok_progress [of p e s] skip_ws_not_ws [of s e p0] by auto
qed simp

declare positional_loop.simps [simp del]

definition cmd_get_positional_token :: "bp_command_def \<Rightarrow> nat \<Rightarrow> ln_cmdreader \<Rightarrow> (nat \<times> nat) option" where
  "cmd_get_positional_token d pos r =
     (let s = ln_buf r; e = line_end r; p = skip_ws s e (ln_cmdln_current r)
      in if e \<le> p \<or> at s p = 0 then None
         else if pos = 0 then (if 0 < tok_len s e p then Some (p, tok_len s e p) else None)
         else positional_loop d pos 0 s e (skip_tok s e p))"

text \<open>The string getters return the content of the buffer; \<open>maxlen\<close> is not 0.\<close>

definition bp_cmd_get_positional_string :: "bp_command_def \<Rightarrow> nat \<Rightarrow> nat \<Rightarrow> ln_cmdreader \<Rightarrow> bool \<times> cstr" where
  "bp_cmd_get_positional_string d pos maxlen r =
     (case cmd_get_positional_token d pos r of
        None \<Rightarrow> (False, [])
      | Some (tok, tlen) \<Rightarrow>
          if 0 < tlen \<and> at (ln_buf r) tok = ch_minus then (False, [])
          else (True, token (ln_buf r) tok (if tlen < maxlen - 1 then tlen else maxlen - 1)))"

definition bp_cmd_get_positional_uint32 :: "bp_command_def \<Rightarrow> nat \<Rightarrow> ln_cmdreader \<Rightarrow> u32 \<Rightarrow> bool \<times> u32" where
  "bp_cmd_get_positional_uint32 d pos r value =
     (case cmd_get_positional_token d pos r of
        None \<Rightarrow> (False, value)
      | Some (tok, tlen) \<Rightarrow>
          case bp_num_u32 (ln_buf r) tok of
            None \<Rightarrow> (False, 0)
          | Some (v, fmt, p) \<Rightarrow> (p \<le> tok + tlen, v))"

definition bp_cmd_get_positional_int32 :: "bp_command_def \<Rightarrow> nat \<Rightarrow> ln_cmdreader \<Rightarrow> u32 \<Rightarrow> bool \<times> u32" where
  "bp_cmd_get_positional_int32 d pos r value =
     (case cmd_get_positional_token d pos r of
        None \<Rightarrow> (False, value)
      | Some (tok, tlen) \<Rightarrow>
          case bp_num_i32 (ln_buf r) tok of
            None \<Rightarrow> (False, value)
          | Some (v, fmt, p) \<Rightarrow> (p \<le> tok + tlen, v))"

definition bp_cmd_get_remainder :: "ln_cmdreader \<Rightarrow> (nat \<times> nat) option" where
  "bp_cmd_get_remainder r =
     (let s = ln_buf r; e = line_end r; p = skip_ws s e (ln_cmdln_current r)
      in if e \<le> p \<or> at s p = 0 then None
         else let q = skip_ws s e (skip_tok s e p)
              in if e \<le> q \<or> at s q = 0 then None else Some (q, e - q))"

subsection \<open>Action verbs and the help flag\<close>

definition action_skip :: "bp_command_def \<Rightarrow> cstr \<Rightarrow> nat \<Rightarrow> nat \<Rightarrow> nat" where
  "action_skip d s e p =
     (if p + 1 < e \<and> at s (p + 1) \<noteq> ch_minus \<and> at s (p + 1) \<noteq> ch_space \<and> at s (p + 1) \<noteq> 0
      then (if takes_value (short_opt d (at s (p + 1))) then skip_tok s e (skip_ws s e (p + 2)) else p + 2)
      else skip_long_flag d s e p)"

definition match_action :: "bp_command_def \<Rightarrow> cstr \<Rightarrow> u32 option" where
  "match_action d tok =
     (case def_action_delegate d of
        Some del \<Rightarrow> del_match del tok
      | None \<Rightarrow> (case def_actions d of None \<Rightarrow> None
          | Some as \<Rightarrow> map_option act_action (find (\<lambda>a. tok_eq tok (act_verb a)) as)))"

function get_action_loop :: "bp_command_def \<Rightarrow> cstr \<Rightarrow> nat \<Rightarrow> nat \<Rightarrow> u32 option" where
  "get_action_loop d s e p0 =
     (let p = skip_ws s e p0
      in if \<not> p0 < e \<or> e \<le> p \<or> at s p = 0 then None
         else if at s p = ch_minus then get_action_loop d s e (action_skip d s e p)
         else case match_action d (token s p (tok_len s e p)) of
           Some action \<Rightarrow> Some action
         | None \<Rightarrow> get_action_loop d s e (p + tok_len s e p))"
  by pat_completeness auto
termination
proof (relation "measure (\<lambda>(d, s, e, p). e - p)", goal_cases)
  case (2 d s e p0 p)
  have "p + 2 \<le> action_skip d s e p"
    using skip_long_flag_le [of p d s e] skip_le(1) [of "p + 2" s e] skip_le(2) [of "skip_ws s e (p + 2)" s e]
    by (auto simp: action_skip_def)
  then show ?case using 2 skip_le(1) [of p0 s e] by auto
next
  case (3 d s e p0 p)
  then show ?case
    using skip_le(1) [of p0 s e] skip_tok_progress [of p e s] skip_ws_not_ws [of s e p0]
    by (auto simp: tok_len_def)
qed simp

declare get_action_loop.simps [simp del]

definition bp_cmd_get_action :: "bp_command_def \<Rightarrow> ln_cmdreader \<Rightarrow> u32 option" where
  "bp_cmd_get_action d r =
     (if (def_actions d = None \<or> def_actions d = Some []) \<and> def_action_delegate d = None then None
      else get_action_loop d (ln_buf r) (line_end r) (after_command r (line_end r)))"

definition help_name :: cstr where
  "help_name = [ch_minus, ch_minus, ch_h, 101, 108, 112]"

function help_flag_loop :: "cstr \<Rightarrow> nat \<Rightarrow> nat \<Rightarrow> bool" where
  "help_flag_loop s e p0 =
     (let p = skip_ws s e p0
      in if \<not> p0 < e \<or> e \<le> p \<or> at s p = 0 then False
         else if at s p = ch_minus \<and>
             (tok_len s e p = 2 \<and> (at s (p + 1) OR 0x20) = ch_h \<or>
              tok_len s e p = 6 \<and> token s p 6 = help_name) then True
         else help_flag_loop s e (skip_tok s e p))"
  by pat_completeness auto
termination
proof (relation "measure (\<lambda>(s, e, p). e - p)", goal_cases)
  case (2 s e p0 p)
  then show ?case
    using skip_le(1) [of p0 s e] skip_tok_progress [of p e s] skip_ws_not_ws [of s e p0] by auto
qed simp

declare help_flag_loop.simps [simp del]

definition bp_cmd_has_help_flag :: "ln_cmdreader \<Rightarrow> bool" where
  "bp_cmd_has_help_flag r = help_flag_loop (ln_buf r) (line_end r) (after_command r (line_end r))"

end
