(* ===== verification/Bp_Cmd_Value.thy ===== *)
theory Bp_Cmd_Value
  imports Bp_Cmd
begin

text \<open>
  Values of the arguments, \<^verbatim>\<open>src/lib/bp_args/bp_cmd.c\<close>: the typed getters of a flag and
  the constraint-aware queries \<open>bp_cmd_positional\<close> and \<open>bp_cmd_flag\<close>, which check the value and print
  the range error. What \<open>out\<close> points to is an argument and part of the result.
\<close>

subsection \<open>Typed getters of a flag\<close>

definition scan_message :: "scan_result \<Rightarrow> term_event list" where
  "scan_message x = (case x of Not_Found \<Rightarrow> [] | Found val msg \<Rightarrow> msg)"

text \<open>The value token; an empty one (\<open>--name=\<close>) counts as none.\<close>

definition scan_token :: "scan_result \<Rightarrow> (nat \<times> nat) option" where
  "scan_token x = (case x of Found (Some (val, val_len)) msg \<Rightarrow> if val_len = 0 then None else Some (val, val_len) | _ \<Rightarrow> None)"

definition bp_cmd_find_flag :: "bp_command_def \<Rightarrow> u8 \<Rightarrow> ln_cmdreader \<Rightarrow> bool \<times> term_event list" where
  "bp_cmd_find_flag d flag r = (cmd_scan_flag d flag r \<noteq> Not_Found, scan_message (cmd_scan_flag d flag r))"

definition bp_cmd_get_uint32 :: "bp_command_def \<Rightarrow> u8 \<Rightarrow> ln_cmdreader \<Rightarrow> u32 \<Rightarrow> bool \<times> u32 \<times> term_event list" where
  "bp_cmd_get_uint32 d flag r value =
     (let x = cmd_scan_flag d flag r in
      case scan_token x of
        None \<Rightarrow> (False, value, scan_message x)
      | Some (val, val_len) \<Rightarrow>
          case bp_num_u32 (ln_buf r) val of
            None \<Rightarrow> (False, 0, scan_message x)
          | Some (v, fmt, p) \<Rightarrow> (p \<le> val + val_len, v, scan_message x))"

definition bp_cmd_get_int32 :: "bp_command_def \<Rightarrow> u8 \<Rightarrow> ln_cmdreader \<Rightarrow> u32 \<Rightarrow> bool \<times> u32 \<times> term_event list" where
  "bp_cmd_get_int32 d flag r value =
     (let x = cmd_scan_flag d flag r in
      case scan_token x of
        None \<Rightarrow> (False, value, scan_message x)
      | Some (val, val_len) \<Rightarrow>
          case bp_num_i32 (ln_buf r) val of
            None \<Rightarrow> (False, value, scan_message x)
          | Some (v, fmt, p) \<Rightarrow> (p \<le> val + val_len, v, scan_message x))"

text \<open>The content of the buffer; \<open>maxlen\<close> is not 0.\<close>

definition bp_cmd_get_string :: "bp_command_def \<Rightarrow> u8 \<Rightarrow> nat \<Rightarrow> ln_cmdreader \<Rightarrow> bool \<times> cstr \<times> term_event list" where
  "bp_cmd_get_string d flag maxlen r =
     (let x = cmd_scan_flag d flag r in
      case scan_token x of
        None \<Rightarrow> (False, [], scan_message x)
      | Some (val, val_len) \<Rightarrow>
          (True, token (ln_buf r) val (if val_len < maxlen - 1 then val_len else maxlen - 1), scan_message x))"

subsection \<open>Constraints\<close>

datatype bp_cmd_status = BP_CMD_OK | BP_CMD_MISSING | BP_CMD_INVALID | BP_CMD_EXIT

definition val_check :: "bp_val_constraint option \<Rightarrow> u32 \<Rightarrow> bool" where
  "val_check c v =
     (case c of None \<Rightarrow> True
      | Some con \<Rightarrow> (case con_val con of
          BP_VAL_NONE \<Rightarrow> True
        | BP_VAL_UINT32 lo hi df \<Rightarrow> lo \<le> v \<and> v \<le> hi
        | BP_VAL_INT32 lo hi df \<Rightarrow> sint lo \<le> sint v \<and> sint v \<le> sint hi
        | BP_VAL_CHOICE choices df \<Rightarrow> v \<in> set (map vc_value choices)))"

definition name_event :: "cstr option \<Rightarrow> term_event list" where
  "name_event x = (case x of None \<Rightarrow> [TStr ''(null)''] | Some s \<Rightarrow> map TChar s)"

fun choice_names :: "bp_val_choice list \<Rightarrow> bool \<Rightarrow> term_event list" where
  "choice_names [] first = []"
| "choice_names (c # cs) first =
     (if first then [] else [TText '', '']) @ name_event (vc_name c) @ choice_names cs False"

text \<open>No caller passes units. \<open>label\<close> and \<open>out\<close> may be null.\<close>

definition val_print_range_error :: "bp_val_constraint option \<Rightarrow> cstr option \<Rightarrow> u32 option \<Rightarrow> term_event list" where
  "val_print_range_error c label out =
     (let name = (case label of None \<Rightarrow> [TText ''Value''] | Some s \<Rightarrow> map TChar s);
          range = (\<lambda>show' v lo hi. [TColor Col_warning] @ name @ [TText '' out of range''] @
            (case v of None \<Rightarrow> [] | Some x \<Rightarrow> [TText '': '', TColor Col_reset, TInt (show' x), TColor Col_warning]) @
            [TText '', expected '', TInt (show' lo), TText '' to '', TInt (show' hi), TColor Col_reset, TText crlf])
      in case c of None \<Rightarrow> []
         | Some con \<Rightarrow> (case con_val con of
             BP_VAL_NONE \<Rightarrow> []
           | BP_VAL_UINT32 lo hi df \<Rightarrow> range uint out lo hi
           | BP_VAL_INT32 lo hi df \<Rightarrow> range sint out lo hi
           | BP_VAL_CHOICE choices df \<Rightarrow>
               [TColor Col_warning] @ name @ [TText '': unknown value'', TColor Col_reset, TText crlf, TText ''  expected: '']
               @ choice_names choices True @ [TText crlf]))"

definition choice_matches :: "cstr \<Rightarrow> bp_val_choice \<Rightarrow> bool" where
  "choice_matches tok ch =
     ((case vc_name ch of None \<Rightarrow> False | Some n \<Rightarrow> tok_eq_ci tok n) \<or>
      (case vc_alias ch of None \<Rightarrow> False | Some n \<Rightarrow> tok_eq_ci tok n))"

definition val_match_choice :: "bp_val_choice list \<Rightarrow> cstr \<Rightarrow> u32 option" where
  "val_match_choice choices tok = map_option vc_value (find (choice_matches tok) choices)"

definition val_default :: "bp_val \<Rightarrow> u32 \<Rightarrow> u32" where
  "val_default v out =
     (case v of BP_VAL_NONE \<Rightarrow> out | BP_VAL_UINT32 lo hi df \<Rightarrow> df | BP_VAL_INT32 lo hi df \<Rightarrow> df
      | BP_VAL_CHOICE choices df \<Rightarrow> df)"

text \<open>The constraint of the position, 1-based; none means the type is unknown.\<close>

definition positional_constraint :: "bp_command_def \<Rightarrow> nat \<Rightarrow> bp_val_constraint option" where
  "positional_constraint d pos =
     (case def_positionals d of None \<Rightarrow> None
      | Some ps \<Rightarrow> if 0 < pos \<and> pos \<le> length ps then pos_constraint (ps ! (pos - 1)) else None)"

definition positional_name :: "bp_command_def \<Rightarrow> nat \<Rightarrow> cstr option" where
  "positional_name d pos =
     (case def_positionals d of None \<Rightarrow> None
      | Some ps \<Rightarrow> if 0 < pos \<and> pos \<le> length ps then Some (pos_name (ps ! (pos - 1))) else None)"

text \<open>A choice is matched by name or alias, then as the number of the menu entry; a token that is
  neither ends the query at once (\<open>Inr\<close>).\<close>

definition positional_choice ::
  "bp_command_def \<Rightarrow> nat \<Rightarrow> bp_val_constraint \<Rightarrow> bp_val_choice list \<Rightarrow> ln_cmdreader \<Rightarrow> u32 \<Rightarrow> (bool \<times> u32) + term_event list" where
  "positional_choice d pos c choices r out =
     (case cmd_get_positional_token d pos r of
        None \<Rightarrow> Inl (False, out)
      | Some (tok, tlen) \<Rightarrow>
          case val_match_choice choices (token (ln_buf r) tok tlen) of
            Some v \<Rightarrow> Inl (True, v)
          | None \<Rightarrow>
              case bp_num_u32 (ln_buf r) tok of
                Some (pick, fmt, p) \<Rightarrow>
                  if 1 \<le> pick \<and> unat pick \<le> length choices
                  then Inl (True, vc_value (choices ! (unat pick - 1)))
                  else Inr (val_print_range_error (Some c) (positional_name d pos) None)
              | None \<Rightarrow> Inr (val_print_range_error (Some c) (positional_name d pos) None))"

definition bp_cmd_positional ::
  "bp_command_def \<Rightarrow> nat \<Rightarrow> ln_cmdreader \<Rightarrow> u32 \<Rightarrow> bp_cmd_status \<times> u32 \<times> term_event list" where
  "bp_cmd_positional d pos r out =
     (case positional_constraint d pos of
        None \<Rightarrow> (BP_CMD_MISSING, out, [])
      | Some c \<Rightarrow>
          let parsed = (case con_val c of
                BP_VAL_NONE \<Rightarrow> Inl (False, out)
              | BP_VAL_UINT32 lo hi df \<Rightarrow> Inl (bp_cmd_get_positional_uint32 d pos r out)
              | BP_VAL_INT32 lo hi df \<Rightarrow> Inl (bp_cmd_get_positional_int32 d pos r out)
              | BP_VAL_CHOICE choices df \<Rightarrow> positional_choice d pos c choices r out)
          in case parsed of
               Inr msg \<Rightarrow> (BP_CMD_INVALID, out, msg)
             | Inl (found, v) \<Rightarrow>
                 if \<not> found then (BP_CMD_MISSING, val_default (con_val c) v, [])
                 else if val_check (Some c) v then (BP_CMD_OK, v, [])
                 else (BP_CMD_INVALID, v, val_print_range_error (Some c) (positional_name d pos) (Some v)))"

definition bp_cmd_flag ::
  "bp_command_def \<Rightarrow> u8 \<Rightarrow> ln_cmdreader \<Rightarrow> u32 \<Rightarrow> bp_cmd_status \<times> u32 \<times> term_event list" where
  "bp_cmd_flag d flag r out =
     (case find_opt_in_def d flag of
        None \<Rightarrow> (BP_CMD_MISSING, out, [])
      | Some opt \<Rightarrow>
          case opt_constraint opt of
            None \<Rightarrow> (BP_CMD_MISSING, out, [])
          | Some c \<Rightarrow>
              let parsed = (case con_val c of
                    BP_VAL_NONE \<Rightarrow> Inl (False, out, [])
                  | BP_VAL_UINT32 lo hi df \<Rightarrow> Inl (bp_cmd_get_uint32 d flag r out)
                  | BP_VAL_INT32 lo hi df \<Rightarrow> Inl (bp_cmd_get_int32 d flag r out)
                  | BP_VAL_CHOICE choices df \<Rightarrow>
                      let x = cmd_scan_flag d flag r in
                      (case scan_token x of
                         None \<Rightarrow> Inl (False, out, scan_message x)
                       | Some (val, val_len) \<Rightarrow>
                           case val_match_choice choices (token (ln_buf r) val val_len) of
                             Some v \<Rightarrow> Inl (True, v, scan_message x)
                           | None \<Rightarrow> Inr (scan_message x @ val_print_range_error (Some c) (opt_long_name opt) None)))
              in case parsed of
                   Inr msg \<Rightarrow> (BP_CMD_INVALID, out, msg)
                 | Inl (found, v, msg) \<Rightarrow>
                     if \<not> found then (BP_CMD_MISSING, val_default (con_val c) v, msg)
                     else if val_check (Some c) v then (BP_CMD_OK, v, msg)
                     else (BP_CMD_INVALID, v, msg @ val_print_range_error (Some c) (opt_long_name opt) (Some v)))"

end
