(* ===== verification/Bp_Cmd_Text.thy ===== *)
theory Bp_Cmd_Text
  imports Bp_Cmd_Value
begin

text \<open>
  What the scanners of \<^verbatim>\<open>src/lib/bp_args/bp_cmd.c\<close> find on a command line: the
  abstract arguments of a command, the text a user types for them, and the theorems that the
  queries on the text are the obvious functions of the abstract arguments, although every query
  scans the raw line.
\<close>

subsection \<open>Arguments and their text\<close>

datatype cmd_arg =
    Flag u8                \<comment> \<open>\<open>-c\<close>\<close>
  | Flag_Val u8 cstr       \<comment> \<open>\<open>-c value\<close>\<close>
  | Long cstr              \<comment> \<open>\<open>--name\<close>\<close>
  | Long_Val cstr cstr     \<comment> \<open>\<open>--name value\<close>\<close>
  | Long_Eq cstr cstr      \<comment> \<open>\<open>--name=value\<close>\<close>
  | Pos cstr

fun arg_text :: "cmd_arg \<Rightarrow> cstr" where
  "arg_text (Flag c) = [ch_minus, c]"
| "arg_text (Flag_Val c v) = ch_minus # c # ch_space # v"
| "arg_text (Long n) = ch_minus # ch_minus # n"
| "arg_text (Long_Val n v) = ch_minus # ch_minus # n @ ch_space # v"
| "arg_text (Long_Eq n v) = ch_minus # ch_minus # n @ ch_eq # v"
| "arg_text (Pos w) = w"

fun args_text :: "cmd_arg list \<Rightarrow> cstr" where
  "args_text [] = []"
| "args_text (a # as) = ch_space # arg_text a @ args_text as"

text \<open>The characters of a token, and the tokens that are not taken for a flag.\<close>

definition word_ok :: "cstr \<Rightarrow> bool" where
  "word_ok w \<longleftrightarrow> (\<forall>c \<in> set w. c \<noteq> ch_space \<and> c \<noteq> ch_tab \<and> c \<noteq> ch_comma \<and> c \<noteq> 0)"

definition plain_ok :: "cstr \<Rightarrow> bool" where
  "plain_ok w \<longleftrightarrow> word_ok w \<and> w \<noteq> [] \<and> hd w \<noteq> ch_minus"

definition name_ok :: "cstr \<Rightarrow> bool" where
  "name_ok n \<longleftrightarrow> word_ok n \<and> ch_eq \<notin> set n"

text \<open>An argument is written the way its option wants it: with a value if it takes one.\<close>

fun arg_ok :: "bp_command_def \<Rightarrow> cmd_arg \<Rightarrow> bool" where
  "arg_ok d (Flag c) \<longleftrightarrow> word_ok [c] \<and> c \<noteq> ch_minus \<and> \<not> takes_value (short_opt d c)"
| "arg_ok d (Flag_Val c v) \<longleftrightarrow> word_ok [c] \<and> c \<noteq> ch_minus \<and> plain_ok v \<and> takes_value (short_opt d c)"
| "arg_ok d (Long n) \<longleftrightarrow> name_ok n \<and> \<not> takes_value (find_opt_by_long_name d n)"
| "arg_ok d (Long_Val n v) \<longleftrightarrow> name_ok n \<and> plain_ok v \<and> takes_value (find_opt_by_long_name d n)"
| "arg_ok d (Long_Eq n v) \<longleftrightarrow> name_ok n \<and> word_ok v \<and> takes_value (find_opt_by_long_name d n)"
| "arg_ok d (Pos w) \<longleftrightarrow> plain_ok w"

definition long_matches :: "bp_command_def \<Rightarrow> u8 \<Rightarrow> cstr \<Rightarrow> bool" where
  "long_matches d flag n \<longleftrightarrow> (case find_opt_by_long_name d n of None \<Rightarrow> False
     | Some x \<Rightarrow> opt_short_name x \<noteq> 0 \<and> (opt_short_name x OR 0x20) = (flag OR 0x20))"

text \<open>Does the argument answer a query for the flag, and with which value?\<close>

fun arg_matches :: "bp_command_def \<Rightarrow> u8 \<Rightarrow> cmd_arg \<Rightarrow> bool" where
  "arg_matches d flag (Flag c) \<longleftrightarrow> (c OR 0x20) = (flag OR 0x20)"
| "arg_matches d flag (Flag_Val c v) \<longleftrightarrow> (c OR 0x20) = (flag OR 0x20)"
| "arg_matches d flag (Long n) \<longleftrightarrow> long_matches d flag n"
| "arg_matches d flag (Long_Val n v) \<longleftrightarrow> long_matches d flag n"
| "arg_matches d flag (Long_Eq n v) \<longleftrightarrow> long_matches d flag n"
| "arg_matches d flag (Pos w) \<longleftrightarrow> False"

fun arg_value :: "cmd_arg \<Rightarrow> cstr option" where
  "arg_value (Flag_Val c v) = Some v"
| "arg_value (Long_Val n v) = Some v"
| "arg_value (Long_Eq n v) = Some v"
| "arg_value _ = None"

fun positionals :: "cmd_arg list \<Rightarrow> cstr list" where
  "positionals [] = []"
| "positionals (Pos w # as) = w # positionals as"
| "positionals (_ # as) = positionals as"

subsection \<open>Skipping over text\<close>

text \<open>What follows an argument: nothing, or a space and the next one.\<close>

definition ends_word :: "cstr \<Rightarrow> bool" where
  "ends_word rest \<longleftrightarrow> rest = [] \<or> hd rest = ch_space"

lemma ends_word_args [simp]: "ends_word (args_text as)"
  by (cases as) (auto simp: ends_word_def)

lemma ends_word_at: "ends_word rest \<Longrightarrow> at (pre @ rest) (length pre) = 0 \<or> at (pre @ rest) (length pre) = ch_space"
  by (cases rest) (auto simp: ends_word_def)

lemma skip_tok_word:
  assumes "word_ok w" and "ends_word rest"
  shows "skip_tok (pre @ w @ rest) (length (pre @ w @ rest)) (length pre) = length (pre @ w)"
  using assms
proof (induction w arbitrary: pre)
  case Nil
  then show ?case using ends_word_at [of rest pre] by (subst skip_tok.simps) auto
next
  case (Cons c w)
  have "skip_tok (pre @ (c # w) @ rest) (length (pre @ (c # w) @ rest)) (length pre) =
      skip_tok (pre @ (c # w) @ rest) (length (pre @ (c # w) @ rest)) (Suc (length pre))"
    using Cons.prems by (subst skip_tok.simps) (auto simp: word_ok_def)
  also have "\<dots> = length ((pre @ [c]) @ w)"
    using Cons.IH [of "pre @ [c]"] Cons.prems by (simp add: word_ok_def)
  finally show ?case by simp
qed

lemma skip_name_word:
  assumes "name_ok w" and "ends_word rest \<or> hd rest = ch_eq"
  shows "skip_name (pre @ w @ rest) (length (pre @ w @ rest)) (length pre) = length (pre @ w)"
  using assms
proof (induction w arbitrary: pre)
  case Nil
  then show ?case by (cases rest; subst skip_name.simps) (auto simp: ends_word_def)
next
  case (Cons c w)
  have "skip_name (pre @ (c # w) @ rest) (length (pre @ (c # w) @ rest)) (length pre) =
      skip_name (pre @ (c # w) @ rest) (length (pre @ (c # w) @ rest)) (Suc (length pre))"
    using Cons.prems by (subst skip_name.simps) (auto simp: name_ok_def word_ok_def)
  also have "\<dots> = length ((pre @ [c]) @ w)"
    using Cons.IH [of "pre @ [c]"] Cons.prems by (simp add: name_ok_def word_ok_def)
  finally show ?case by simp
qed

lemma skip_ws_space:
  assumes "w \<noteq> []" and "hd w \<noteq> ch_space" "hd w \<noteq> ch_tab" "hd w \<noteq> ch_comma"
  shows "skip_ws (pre @ ch_space # w) (length (pre @ ch_space # w)) (length pre) = Suc (length pre)"
    "skip_ws (pre @ w) (length (pre @ w)) (length pre) = length pre"
proof -
  obtain c cs where w: "w = c # cs" using assms(1) by (cases w) auto
  have "at (pre @ ch_space # w) (Suc (length pre)) = c"
    using at_append_right [of pre "ch_space # w" 1] w by simp
  then show "skip_ws (pre @ ch_space # w) (length (pre @ ch_space # w)) (length pre) = Suc (length pre)"
    using assms w by (subst skip_ws.simps, subst skip_ws.simps) auto
  show "skip_ws (pre @ w) (length (pre @ w)) (length pre) = length pre"
    using assms w by (subst skip_ws.simps) auto
qed

lemma token_append: "length w = n \<Longrightarrow> token (pre @ w @ rest) (length pre) n = w"
  by (intro nth_equalityI) (auto simp: token_def at_def nth_append)


lemma at_after [simp]: "at (pre @ xs) (Suc (length pre)) = at xs 1" "at (pre @ xs) (length pre + k) = at xs k"
  using at_append_right [of pre xs 1] by auto

lemma plain_okD:
  assumes "plain_ok v"
  shows "word_ok v" "v \<noteq> []" "hd v \<noteq> ch_minus" "hd v \<noteq> ch_space" "hd v \<noteq> ch_tab" "hd v \<noteq> ch_comma" "hd v \<noteq> 0"
    "at (v @ rest) 0 = hd v"
  using assms by (cases v; auto simp: plain_ok_def word_ok_def)+

text \<open>The value of a flag in the next token.\<close>

lemma scan_value_text:
  assumes "plain_ok v" and "ends_word rest"
  shows "scan_value (pre @ ch_space # v @ rest) (length (pre @ ch_space # v @ rest))
      (skip_ws (pre @ ch_space # v @ rest) (length (pre @ ch_space # v @ rest)) (length pre)) match msg =
    (if match then Inl (Found (Some (Suc (length pre), length v)) []) else Inr (Suc (length pre) + length v))"
proof -
  note v = plain_okD [OF assms(1)]
  have ws: "skip_ws (pre @ ch_space # v @ rest) (length (pre @ ch_space # v @ rest)) (length pre) = Suc (length pre)"
    using skip_ws_space(1) [of "v @ rest" pre] v by simp
  have tok: "tok_len (pre @ ch_space # v @ rest) (length (pre @ ch_space # v @ rest)) (Suc (length pre)) = length v"
    using skip_tok_word [OF v(1) assms(2), of "pre @ [ch_space]"] by (simp add: tok_len_def)
  show ?thesis
    unfolding scan_value_def ws tok using v by simp
qed

lemma short_flag_text: "c \<noteq> ch_minus \<Longrightarrow> word_ok [c] \<Longrightarrow>
    is_short_flag (pre @ ch_minus # c # rest) (length (pre @ ch_minus # c # rest)) (length pre)"
  by (simp add: is_short_flag_def word_ok_def)

lemma long_flag_text: "is_long_flag (pre @ ch_minus # ch_minus # rest) (length (pre @ ch_minus # ch_minus # rest)) (length pre) \<and>
    \<not> is_short_flag (pre @ ch_minus # ch_minus # rest) (length (pre @ ch_minus # ch_minus # rest)) (length pre)"
  by (simp add: is_long_flag_def is_short_flag_def)

lemma plain_no_flag: "plain_ok w \<Longrightarrow>
    \<not> is_short_flag (pre @ w @ rest) e (length pre) \<and> \<not> is_long_flag (pre @ w @ rest) e (length pre)"
  using plain_okD [of w] by (auto simp: is_long_flag_def is_short_flag_def)

text \<open>The name of a long flag.\<close>

lemma long_name_text:
  assumes "name_ok n" and "ends_word rest \<or> hd rest = ch_eq"
  shows "skip_name (pre @ ch_minus # ch_minus # n @ rest) (length (pre @ ch_minus # ch_minus # n @ rest)) (length pre + 2) =
      length pre + 2 + length n"
    and "token (pre @ ch_minus # ch_minus # n @ rest) (length pre + 2) (length n) = n"
  using skip_name_word [OF assms, of "pre @ [ch_minus, ch_minus]"] token_append [of n "length n" "pre @ [ch_minus, ch_minus]" rest]
  by simp_all

text \<open>The word \<open>v\<close> is in the line at \<open>q\<close>, and ends there.\<close>

definition word_at :: "cstr \<Rightarrow> nat \<Rightarrow> cstr \<Rightarrow> bool" where
  "word_at s q v \<longleftrightarrow> (\<exists>pre rest. s = pre @ v @ rest \<and> q = length pre \<and> ends_word rest)"

lemma word_atI: "ends_word rest \<Longrightarrow> s = pre @ v @ rest \<Longrightarrow> q = length pre \<Longrightarrow> word_at s q v"
  by (auto simp: word_at_def)

lemma word_at_token: "word_at s q v \<Longrightarrow> n \<le> length v \<Longrightarrow> token s q n = take n v"
proof -
  assume "word_at s q v" "n \<le> length v"
  then obtain pre rest where "s = pre @ v @ rest" "q = length pre"
    by (auto simp: word_at_def)
  then have "s = pre @ take n v @ (drop n v @ rest)" "q = length pre"
    by (metis append.assoc append_take_drop_id)+
  then show "token s q n = take n v"
    using token_append [of "take n v" n pre "drop n v @ rest"] \<open>n \<le> length v\<close> by simp
qed

definition step_text :: "bp_command_def \<Rightarrow> u8 \<Rightarrow> cmd_arg \<Rightarrow> cstr \<Rightarrow> cstr \<Rightarrow> bool" where
  "step_text d flag a pre rest \<longleftrightarrow>
    (let s = pre @ arg_text a @ rest; e = length s in
     if arg_matches d flag a
     then \<exists>q. scan_flag_step d flag s e (length pre) = Inl (Found (map_option (\<lambda>v. (q, length v)) (arg_value a)) []) \<and>
            (\<forall>v. arg_value a = Some v \<longrightarrow> word_at s q v)
     else \<exists>p'. scan_flag_step d flag s e (length pre) = Inr p' \<and> skip_ws s e p' = skip_ws s e (length (pre @ arg_text a)))"

lemma step_text_flags:
  "arg_ok d (Flag c) \<Longrightarrow> ends_word rest \<Longrightarrow> step_text d flag (Flag c) pre rest"
  "arg_ok d (Flag_Val c v) \<Longrightarrow> ends_word rest \<Longrightarrow> step_text d flag (Flag_Val c v) pre rest"
  "arg_ok d (Pos w) \<Longrightarrow> ends_word rest \<Longrightarrow> step_text d flag (Pos w) pre rest"
proof -
  assume "arg_ok d (Flag c)" "ends_word rest"
  then show "step_text d flag (Flag c) pre rest"
    using short_flag_text [of c pre rest]
    by (auto simp: step_text_def Let_def scan_flag_step_def scan_short_def)
next
  assume ok: "arg_ok d (Flag_Val c v)" "ends_word rest"
  have "word_at (pre @ ch_minus # c # ch_space # v @ rest) (Suc (length (pre @ [ch_minus, c]))) v"
    using ok(2) by (rule word_atI [where pre = "pre @ [ch_minus, c, ch_space]"]) simp_all
  then show "step_text d flag (Flag_Val c v) pre rest"
    using ok short_flag_text [of c pre "ch_space # v @ rest"] scan_value_text [of v rest "pre @ [ch_minus, c]"]
    by (auto simp: step_text_def Let_def scan_flag_step_def scan_short_def
        intro!: exI [of _ "Suc (length (pre @ [ch_minus, c]))"])
next
  assume ok: "arg_ok d (Pos w)" "ends_word rest"
  then show "step_text d flag (Pos w) pre rest"
    using plain_no_flag [of w pre rest] skip_tok_word [of w rest pre] plain_okD(1) [of w]
    by (auto simp: step_text_def Let_def scan_flag_step_def)
qed


lemma step_text_long:
  assumes "arg_ok d (Long n)" and "ends_word rest"
  shows "step_text d flag (Long n) pre rest"
proof -
  let ?s = "pre @ ch_minus # ch_minus # n @ rest" and ?q = "length pre + 2 + length n"
  have "at ?s ?q \<noteq> ch_eq"
    using assms(2) ends_word_at [of rest "pre @ ch_minus # ch_minus # n"] by (auto simp: add.assoc)
  then show ?thesis
    using assms long_flag_text [of pre "n @ rest"] long_name_text [of n rest pre]
    by (auto simp: step_text_def Let_def scan_flag_step_def scan_long_def long_matches_def
        split: option.splits)
qed

lemma step_text_long_val:
  assumes "arg_ok d (Long_Val n v)" and "ends_word rest"
  shows "step_text d flag (Long_Val n v) pre rest"
proof -
  let ?s = "pre @ ch_minus # ch_minus # n @ ch_space # v @ rest" and ?q = "length pre + 2 + length n"
  have ok: "name_ok n" "ends_word (ch_space # v @ rest)" "plain_ok v"
    using assms(1) by (auto simp: ends_word_def)
  have pre: "pre @ ch_minus # ch_minus # n @ ch_space # v @ rest = (pre @ ch_minus # ch_minus # n) @ ch_space # v @ rest"
    by simp
  have "at ?s ?q \<noteq> ch_eq"
    using at_append_right0 [of "pre @ ch_minus # ch_minus # n" "ch_space # v @ rest"] by (simp add: add.assoc)
  moreover have "word_at ?s (Suc ?q) v"
    using assms(2) by (rule word_atI [where pre = "pre @ ch_minus # ch_minus # n @ [ch_space]"]) simp_all
  moreover have "scan_value ?s (length ?s) (skip_ws ?s (length ?s) ?q) m msg =
      (if m then Inl (Found (Some (Suc ?q, length v)) []) else Inr (Suc ?q + length v))" for m msg
    using scan_value_text [OF ok(3) assms(2), of "pre @ ch_minus # ch_minus # n" m msg] by (simp add: add.assoc)
  ultimately show ?thesis
    using assms ok long_flag_text [of pre "n @ ch_space # v @ rest"] long_name_text [of n "ch_space # v @ rest" pre]
    by (auto simp: step_text_def Let_def scan_flag_step_def scan_long_def long_matches_def
        add.assoc split: option.splits intro!: exI [of _ "Suc ?q"])
qed

lemma step_text_long_eq:
  assumes "arg_ok d (Long_Eq n v)" and "ends_word rest"
  shows "step_text d flag (Long_Eq n v) pre rest"
proof -
  let ?s = "pre @ ch_minus # ch_minus # n @ ch_eq # v @ rest" and ?q = "length pre + 2 + length n"
  have ok: "name_ok n" "word_ok v" using assms(1) by auto
  have "at ?s ?q = ch_eq"
    using at_append_right0 [of "pre @ ch_minus # ch_minus # n" "ch_eq # v @ rest"] by (simp add: add.assoc)
  moreover have "word_at ?s (Suc ?q) v"
    using assms(2) by (rule word_atI [where pre = "pre @ ch_minus # ch_minus # n @ [ch_eq]"]) simp_all
  moreover have "tok_len ?s (length ?s) (Suc ?q) = length v"
    using skip_tok_word [OF ok(2) assms(2), of "pre @ ch_minus # ch_minus # n @ [ch_eq]"]
    by (simp add: tok_len_def add.assoc)
  ultimately show ?thesis
    using assms ok long_flag_text [of pre "n @ ch_eq # v @ rest"] long_name_text [of n "ch_eq # v @ rest" pre]
    by (auto simp: step_text_def Let_def scan_flag_step_def scan_long_def long_matches_def
        add.assoc split: option.splits intro!: exI [of _ "Suc ?q"])
qed

lemma scan_step_text: "arg_ok d a \<Longrightarrow> ends_word rest \<Longrightarrow> step_text d flag a pre rest"
  by (cases a) (simp_all only: step_text_flags step_text_long step_text_long_val step_text_long_eq)

subsection \<open>The scanners on a whole line\<close>

lemma scan_loop_ws:
  "skip_ws s e p = skip_ws s e q \<Longrightarrow> cmd_scan_flag_loop d flag s e p = cmd_scan_flag_loop d flag s e q"
  using skip_le(1) [of p s e] skip_le(1) [of q s e]
  by (subst (1 2) cmd_scan_flag_loop.simps) (auto simp: Let_def)

lemma arg_text_first:
  assumes "arg_ok d a"
  shows "arg_text a \<noteq> []" "hd (arg_text a) \<noteq> ch_space" "hd (arg_text a) \<noteq> ch_tab" "hd (arg_text a) \<noteq> ch_comma"
    "hd (arg_text a) \<noteq> 0"
  using assms plain_okD by (cases a; auto)+

text \<open>The loops stop at the first character of the next argument, or at the end.\<close>

lemma line_at_arg:
  assumes "arg_ok d a"
  shows "skip_ws (pre @ args_text (a # as)) (length (pre @ args_text (a # as))) (length pre) = Suc (length pre)"
    and "Suc (length pre) < length (pre @ args_text (a # as))"
    and "at (pre @ args_text (a # as)) (Suc (length pre)) = hd (arg_text a)"
    and "hd (arg_text a) \<noteq> 0"
proof -
  note a = arg_text_first [OF assms]
  show "skip_ws (pre @ args_text (a # as)) (length (pre @ args_text (a # as))) (length pre) = Suc (length pre)"
    using skip_ws_space(1) [of "arg_text a @ args_text as" pre] a by simp
  show "Suc (length pre) < length (pre @ args_text (a # as))"
    using a(1) by simp
  show "at (pre @ args_text (a # as)) (Suc (length pre)) = hd (arg_text a)"
    using a(1) by (cases "arg_text a") auto
qed (rule arg_text_first [OF assms])

lemma skip_ws_end: "skip_ws s (length s) (length s) = length s"
  by (subst skip_ws.simps) simp

lemma scan_loop_text:
  assumes "\<forall>a \<in> set as. arg_ok d a"
  shows "case find (arg_matches d flag) as of
      None \<Rightarrow> cmd_scan_flag_loop d flag (pre @ args_text as) (length (pre @ args_text as)) (length pre) = Not_Found
    | Some a \<Rightarrow> \<exists>q. cmd_scan_flag_loop d flag (pre @ args_text as) (length (pre @ args_text as)) (length pre) =
          Found (map_option (\<lambda>v. (q, length v)) (arg_value a)) [] \<and>
        (\<forall>v. arg_value a = Some v \<longrightarrow> word_at (pre @ args_text as) q v)"
  using assms
proof (induction as arbitrary: pre)
  case Nil
  then show ?case by (subst cmd_scan_flag_loop.simps) (simp add: skip_ws_end)
next
  case (Cons a as)
  let ?s = "pre @ args_text (a # as)" and ?pre = "pre @ ch_space # arg_text a"
  have ok: "arg_ok d a" using Cons.prems by simp
  have loop: "cmd_scan_flag_loop d flag ?s (length ?s) (length pre) =
      (case scan_flag_step d flag ?s (length ?s) (Suc (length pre)) of Inl r \<Rightarrow> r
       | Inr p' \<Rightarrow> cmd_scan_flag_loop d flag ?s (length ?s) p')"
    using line_at_arg(1-3) [OF ok, of pre as] line_at_arg(4) [OF ok] by (subst cmd_scan_flag_loop.simps) (auto simp: Let_def)
  have step: "step_text d flag a (pre @ [ch_space]) (args_text as)"
    using ok by (intro scan_step_text) simp_all
  show ?case
  proof (cases "arg_matches d flag a")
    case True
    then show ?thesis using step loop by (auto simp: step_text_def Let_def)
  next
    case False
    then obtain p' where p': "scan_flag_step d flag ?s (length ?s) (Suc (length pre)) = Inr p'"
        "skip_ws ?s (length ?s) p' = skip_ws ?s (length ?s) (length ?pre)"
      using step by (auto simp: step_text_def Let_def)
    have "cmd_scan_flag_loop d flag ?s (length ?s) (length pre) =
        cmd_scan_flag_loop d flag ?s (length ?s) (length ?pre)"
      using scan_loop_ws [OF p'(2)] loop p'(1) by simp
    then show ?thesis
      using Cons.IH [of ?pre] Cons.prems False by (simp split: option.splits)
  qed
qed


text \<open>Skipping an argument, as the scanners for positional arguments and verbs do.\<close>

lemma skip_flag_value_text:
  assumes "plain_ok v" and "ends_word rest"
  shows "skip_flag_value (pre @ ch_space # v @ rest) (length (pre @ ch_space # v @ rest)) (length pre) =
      Suc (length pre) + length v"
    and "skip_tok (pre @ ch_space # v @ rest) (length (pre @ ch_space # v @ rest))
      (skip_ws (pre @ ch_space # v @ rest) (length (pre @ ch_space # v @ rest)) (length pre)) =
      Suc (length pre) + length v"
proof -
  note v = plain_okD [OF assms(1)]
  have ws: "skip_ws (pre @ ch_space # v @ rest) (length (pre @ ch_space # v @ rest)) (length pre) = Suc (length pre)"
    using skip_ws_space(1) [of "v @ rest" pre] v by simp
  have tok: "skip_tok (pre @ ch_space # v @ rest) (length (pre @ ch_space # v @ rest)) (Suc (length pre)) =
      Suc (length pre) + length v"
    using skip_tok_word [OF v(1) assms(2), of "pre @ [ch_space]"] by simp
  show "skip_flag_value (pre @ ch_space # v @ rest) (length (pre @ ch_space # v @ rest)) (length pre) =
      Suc (length pre) + length v"
    unfolding skip_flag_value_def ws tok Let_def using v by simp
  show "skip_tok (pre @ ch_space # v @ rest) (length (pre @ ch_space # v @ rest))
      (skip_ws (pre @ ch_space # v @ rest) (length (pre @ ch_space # v @ rest)) (length pre)) =
      Suc (length pre) + length v"
    unfolding ws by (rule tok)
qed

lemma skip_long_flag_text:
  "arg_ok d (Long n) \<Longrightarrow> ends_word rest \<Longrightarrow>
    skip_long_flag d (pre @ arg_text (Long n) @ rest) (length (pre @ arg_text (Long n) @ rest)) (length pre) = length (pre @ arg_text (Long n))"
  "arg_ok d (Long_Val n v) \<Longrightarrow> ends_word rest \<Longrightarrow>
    skip_long_flag d (pre @ arg_text (Long_Val n v) @ rest) (length (pre @ arg_text (Long_Val n v) @ rest)) (length pre) = length (pre @ arg_text (Long_Val n v))"
  "arg_ok d (Long_Eq n v) \<Longrightarrow> ends_word rest \<Longrightarrow>
    skip_long_flag d (pre @ arg_text (Long_Eq n v) @ rest) (length (pre @ arg_text (Long_Eq n v) @ rest)) (length pre) = length (pre @ arg_text (Long_Eq n v))"
proof -
  assume ok: "arg_ok d (Long n)" "ends_word rest"
  have "at (pre @ ch_minus # ch_minus # n @ rest) (length pre + 2 + length n) \<noteq> ch_eq"
    using ok(2) ends_word_at [of rest "pre @ ch_minus # ch_minus # n"] by (auto simp: add.assoc)
  then show "skip_long_flag d (pre @ arg_text (Long n) @ rest) (length (pre @ arg_text (Long n) @ rest)) (length pre) = length (pre @ arg_text (Long n))"
    using ok long_name_text [of n rest pre] by (simp add: skip_long_flag_def)
next
  assume ok: "arg_ok d (Long_Val n v)" "ends_word rest"
  have "at (pre @ ch_minus # ch_minus # n @ ch_space # v @ rest) (length pre + 2 + length n) \<noteq> ch_eq"
    using at_append_right0 [of "pre @ ch_minus # ch_minus # n" "ch_space # v @ rest"] by (simp add: add.assoc)
  then show "skip_long_flag d (pre @ arg_text (Long_Val n v) @ rest) (length (pre @ arg_text (Long_Val n v) @ rest)) (length pre) = length (pre @ arg_text (Long_Val n v))"
    using ok long_name_text [of n "ch_space # v @ rest" pre] skip_flag_value_text(1) [of v rest "pre @ ch_minus # ch_minus # n"]
    by (simp add: skip_long_flag_def ends_word_def add.assoc)
next
  assume ok: "arg_ok d (Long_Eq n v)" "ends_word rest"
  have eq: "at (pre @ ch_minus # ch_minus # n @ ch_eq # v @ rest) (length pre + 2 + length n) = ch_eq"
    using at_append_right0 [of "pre @ ch_minus # ch_minus # n" "ch_eq # v @ rest"] by (simp add: add.assoc)
  have "word_ok (ch_eq # v)" using ok(1) by (simp add: word_ok_def)
  then have "skip_tok (pre @ ch_minus # ch_minus # n @ ch_eq # v @ rest) (length (pre @ ch_minus # ch_minus # n @ ch_eq # v @ rest))
      (length pre + 2 + length n) = length pre + 3 + length n + length v"
    using skip_tok_word [of "ch_eq # v" rest "pre @ ch_minus # ch_minus # n"] ok(2) by (simp add: add.assoc)
  then show "skip_long_flag d (pre @ arg_text (Long_Eq n v) @ rest) (length (pre @ arg_text (Long_Eq n v) @ rest)) (length pre) = length (pre @ arg_text (Long_Eq n v))"
    using ok eq long_name_text [of n "ch_eq # v @ rest" pre] by (simp add: skip_long_flag_def)
qed

text \<open>A flag is skipped, a positional argument is not.\<close>

lemma positional_skip_text:
  assumes "arg_ok d a" and "ends_word rest"
  shows "positional_skip d (pre @ arg_text a @ rest) (length (pre @ arg_text a @ rest)) (length pre) =
    (case a of Pos w \<Rightarrow> None | _ \<Rightarrow> Some (length (pre @ arg_text a)))"
proof (cases a)
  case (Flag c)
  then show ?thesis using assms short_flag_text [of c pre rest] by (simp add: positional_skip_def)
next
  case (Flag_Val c v)
  then show ?thesis
    using assms short_flag_text [of c pre "ch_space # v @ rest"] skip_flag_value_text(1) [of v rest "pre @ [ch_minus, c]"]
    by (simp add: positional_skip_def)
next
  case (Long n)
  then show ?thesis
    using assms long_flag_text [of pre "n @ rest"] skip_long_flag_text(1) [of d n rest pre] by (simp add: positional_skip_def)
next
  case (Long_Val n v)
  then show ?thesis
    using assms long_flag_text [of pre "n @ ch_space # v @ rest"] skip_long_flag_text(2) [of d n v rest pre]
    by (simp add: positional_skip_def)
next
  case (Long_Eq n v)
  then show ?thesis
    using assms long_flag_text [of pre "n @ ch_eq # v @ rest"] skip_long_flag_text(3) [of d n v rest pre]
    by (simp add: positional_skip_def)
next
  case (Pos w)
  then show ?thesis using assms plain_no_flag [of w pre rest] by (simp add: positional_skip_def)
qed

lemma action_skip_text:
  assumes "arg_ok d a" and "ends_word rest" and "\<nexists>w. a = Pos w"
  shows "action_skip d (pre @ arg_text a @ rest) (length (pre @ arg_text a @ rest)) (length pre) = length (pre @ arg_text a)"
proof (cases a)
  case (Flag c)
  then show ?thesis using assms by (simp add: action_skip_def word_ok_def)
next
  case (Flag_Val c v)
  then show ?thesis
    using assms skip_flag_value_text(2) [of v rest "pre @ [ch_minus, c]"] by (simp add: action_skip_def word_ok_def)
next
  case (Long n)
  then show ?thesis using assms skip_long_flag_text(1) [of d n rest pre] by (simp add: action_skip_def)
next
  case (Long_Val n v)
  then show ?thesis using assms skip_long_flag_text(2) [of d n v rest pre] by (simp add: action_skip_def)
next
  case (Long_Eq n v)
  then show ?thesis using assms skip_long_flag_text(3) [of d n v rest pre] by (simp add: action_skip_def)
qed (use assms in auto)


lemma positional_loop_text:
  assumes "\<forall>a \<in> set as. arg_ok d a" and "cur < pos"
  shows "if pos - cur \<le> length (positionals as)
    then \<exists>q. positional_loop d pos cur (pre @ args_text as) (length (pre @ args_text as)) (length pre) =
        Some (q, length (positionals as ! (pos - cur - 1))) \<and>
      word_at (pre @ args_text as) q (positionals as ! (pos - cur - 1))
    else positional_loop d pos cur (pre @ args_text as) (length (pre @ args_text as)) (length pre) = None"
  using assms
proof (induction as arbitrary: pre cur)
  case Nil
  then show ?case by (subst (1 2) positional_loop.simps) (simp add: skip_ws_end)
next
  case (Cons a as)
  let ?s = "pre @ args_text (a # as)" and ?pre = "pre @ ch_space # arg_text a"
  have ok: "arg_ok d a" using Cons.prems by simp
  have skip: "positional_skip d ?s (length ?s) (Suc (length pre)) = (case a of Pos w \<Rightarrow> None | _ \<Rightarrow> Some (length ?pre))"
    using positional_skip_text [OF ok, of "args_text as" "pre @ [ch_space]"] by (simp split: cmd_arg.splits)
  have loop: "positional_loop d pos cur ?s (length ?s) (length pre) =
      (case positional_skip d ?s (length ?s) (Suc (length pre)) of
         Some p' \<Rightarrow> positional_loop d pos cur ?s (length ?s) p'
       | None \<Rightarrow> if cur + 1 = pos
           then (if 0 < tok_len ?s (length ?s) (Suc (length pre)) then Some (Suc (length pre), tok_len ?s (length ?s) (Suc (length pre))) else None)
           else positional_loop d pos (cur + 1) ?s (length ?s) (skip_tok ?s (length ?s) (Suc (length pre))))"
    using line_at_arg(1-3) [OF ok, of pre as] line_at_arg(4) [OF ok]
    by (subst positional_loop.simps) (auto simp: Let_def)
  show ?case
  proof (cases "\<exists>w. a = Pos w")
    case False
    then have "positional_loop d pos cur ?s (length ?s) (length pre) = positional_loop d pos cur ?s (length ?s) (length ?pre)"
      unfolding loop skip using False by (cases a) (simp_all only: cmd_arg.case option.case, simp)
    moreover have "positionals (a # as) = positionals as" using False by (cases a) auto
    ultimately show ?thesis using Cons.IH [of cur ?pre] Cons.prems by (simp cong: if_cong)
  next
    case True
    then obtain w where a: "a = Pos w" by blast
    have w: "word_ok w" "w \<noteq> []" using ok plain_okD [of w] by (auto simp: a)
    have tok: "skip_tok ?s (length ?s) (Suc (length pre)) = length ?pre"
      using skip_tok_word [OF w(1), of "args_text as" "pre @ [ch_space]"] by (simp add: a)
    have t: "word_at ?s (Suc (length pre)) w"
      by (rule word_atI [of "args_text as" _ "pre @ [ch_space]"]) (simp_all add: a)
    show ?thesis
    proof (cases "cur + 1 = pos")
      case True
      then show ?thesis using loop skip tok t w by (auto simp: a tok_len_def)
    next
      case False
      then have "positional_loop d pos cur ?s (length ?s) (length pre) =
          positional_loop d pos (Suc cur) ?s (length ?s) (length ?pre)"
        using loop skip tok by (simp add: a)
      moreover have "pos - cur \<le> length (positionals (a # as)) \<longleftrightarrow> pos - Suc cur \<le> length (positionals as)"
        using False Cons.prems by (simp add: a) linarith
      moreover have "positionals (a # as) ! (pos - cur - 1) = positionals as ! (pos - Suc cur - 1)"
        using False Cons.prems by (simp add: a nth_Cons')
      ultimately show ?thesis using Cons.IH [of "Suc cur" ?pre] Cons.prems False by (simp cong: if_cong)
    qed
  qed
qed

fun first_some :: "('a \<Rightarrow> 'b option) \<Rightarrow> 'a list \<Rightarrow> 'b option" where
  "first_some f [] = None"
| "first_some f (x # xs) = (case f x of None \<Rightarrow> first_some f xs | Some y \<Rightarrow> Some y)"

lemma action_loop_text:
  assumes "\<forall>a \<in> set as. arg_ok d a"
  shows "get_action_loop d (pre @ args_text as) (length (pre @ args_text as)) (length pre) =
    first_some (match_action d) (positionals as)"
  using assms
proof (induction as arbitrary: pre)
  case Nil
  then show ?case by (subst get_action_loop.simps) (simp add: skip_ws_end)
next
  case (Cons a as)
  let ?s = "pre @ args_text (a # as)" and ?pre = "pre @ ch_space # arg_text a"
  have ok: "arg_ok d a" using Cons.prems by simp
  have IH: "get_action_loop d ?s (length ?s) (length ?pre) = first_some (match_action d) (positionals as)"
    using Cons.IH [of ?pre] Cons.prems by simp
  have loop: "get_action_loop d ?s (length ?s) (length pre) =
      (if hd (arg_text a) = ch_minus then get_action_loop d ?s (length ?s) (action_skip d ?s (length ?s) (Suc (length pre)))
       else case match_action d (token ?s (Suc (length pre)) (tok_len ?s (length ?s) (Suc (length pre)))) of
         Some x \<Rightarrow> Some x
       | None \<Rightarrow> get_action_loop d ?s (length ?s) (Suc (length pre) + tok_len ?s (length ?s) (Suc (length pre))))"
    using line_at_arg(1-3) [OF ok, of pre as] line_at_arg(4) [OF ok]
    by (subst get_action_loop.simps) (auto simp: Let_def)
  show ?case
  proof (cases "\<exists>w. a = Pos w")
    case False
    have "action_skip d ?s (length ?s) (Suc (length pre)) = length ?pre"
      using action_skip_text [OF ok _ False, of "args_text as" "pre @ [ch_space]"] by simp
    moreover have "hd (arg_text a) = ch_minus" "positionals (a # as) = positionals as"
      using False by (cases a; auto)+
    ultimately show ?thesis using loop IH by simp
  next
    case True
    then obtain w where a: "a = Pos w" by blast
    have w: "word_ok w" "hd w \<noteq> ch_minus" using ok plain_okD [of w] by (auto simp: a)
    have tok: "tok_len ?s (length ?s) (Suc (length pre)) = length w"
      using skip_tok_word [OF w(1), of "args_text as" "pre @ [ch_space]"] by (simp add: a tok_len_def)
    have t: "token ?s (Suc (length pre)) (length w) = w"
      using token_append [of w "length w" "pre @ [ch_space]" "args_text as"] by (simp add: a)
    show ?thesis using loop tok t w IH by (simp add: a split: option.splits)
  qed
qed

lemma after_command_text:
  assumes "plain_ok cmd"
  shows "line_end (ln_at pre (cmd @ args_text as)) = length (pre @ cmd @ args_text as)"
    and "skip_ws (pre @ cmd @ args_text as) (length (pre @ cmd @ args_text as)) (length pre) = length pre"
    and "skip_tok (pre @ cmd @ args_text as) (length (pre @ cmd @ args_text as)) (length pre) = length (pre @ cmd)"
proof -
  note c = plain_okD [OF assms]
  show "line_end (ln_at pre (cmd @ args_text as)) = length (pre @ cmd @ args_text as)"
    by (simp add: line_end_def ln_cmdln_remaining_def)
  show "skip_ws (pre @ cmd @ args_text as) (length (pre @ cmd @ args_text as)) (length pre) = length pre"
    using skip_ws_space(2) [of "cmd @ args_text as" pre] c by simp
  show "skip_tok (pre @ cmd @ args_text as) (length (pre @ cmd @ args_text as)) (length pre) = length (pre @ cmd)"
    by (rule skip_tok_word [OF c(1)]) simp
qed

lemma after_command_text2:
  assumes "plain_ok cmd"
  shows "after_command (ln_at pre (cmd @ args_text as)) (length (pre @ cmd @ args_text as)) = length (pre @ cmd)"
  using after_command_text(2,3) [OF assms, of pre as] by (simp add: after_command_def)


lemma cmd_scan_flag_text:
  assumes "plain_ok cmd" and "\<forall>a \<in> set as. arg_ok d a"
  shows "case find (arg_matches d flag) as of
      None \<Rightarrow> cmd_scan_flag d flag (ln_at pre (cmd @ args_text as)) = Not_Found
    | Some a \<Rightarrow> \<exists>q. cmd_scan_flag d flag (ln_at pre (cmd @ args_text as)) =
          Found (map_option (\<lambda>v. (q, length v)) (arg_value a)) [] \<and>
        (\<forall>v. arg_value a = Some v \<longrightarrow> word_at (pre @ cmd @ args_text as) q v)"
  using scan_loop_text [OF assms(2), of flag "pre @ cmd"] after_command_text(1) [OF assms(1), of pre as]
    after_command_text2 [OF assms(1), of pre as]
  by (simp add: cmd_scan_flag_def split: option.splits)

lemma positional_token_text:
  assumes "plain_ok cmd" and "\<forall>a \<in> set as. arg_ok d a" and "0 < pos"
  shows "if pos \<le> length (positionals as)
    then \<exists>q. cmd_get_positional_token d pos (ln_at pre (cmd @ args_text as)) = Some (q, length (positionals as ! (pos - 1))) \<and>
      word_at (pre @ cmd @ args_text as) q (positionals as ! (pos - 1))
    else cmd_get_positional_token d pos (ln_at pre (cmd @ args_text as)) = None"
proof -
  have "cmd \<noteq> []" "hd cmd \<noteq> 0"
    using plain_okD [OF assms(1)] by auto
  then have "cmd_get_positional_token d pos (ln_at pre (cmd @ args_text as)) =
      positional_loop d pos 0 (pre @ cmd @ args_text as) (length (pre @ cmd @ args_text as)) (length (pre @ cmd))"
    using after_command_text [OF assms(1), of pre as] after_command_text2 [OF assms(1), of pre as] assms(3)
    by (cases cmd) (simp_all add: cmd_get_positional_token_def Let_def)
  then show ?thesis
    using positional_loop_text [OF assms(2,3), of "pre @ cmd"]
    by (cases "pos \<le> length (positionals as)") simp_all
qed

lemma word_at_decimal: "word_at s q (dec_string n) \<Longrightarrow> n < 2 ^ 32 \<Longrightarrow>
    bp_num_u32 s q = Some (of_nat n, BP_NUM_DEC, q + length (dec_string n))"
proof -
  assume "word_at s q (dec_string n)" and n: "n < 2 ^ 32"
  then obtain pre rest where s: "s = pre @ dec_string n @ rest" "q = length pre" "ends_word rest"
    by (auto simp: word_at_def)
  have "ends_decimal rest"
    using s(3) by (cases rest) (auto simp: ends_word_def ends_decimal_def bp_num_is_dec_def)
  then show ?thesis using bp_num_u32_dec_string [OF n, of rest pre] by (simp add: s)
qed

subsection \<open>Properties\<close>

text \<open>C14: on a command line made of a command and arguments, each written the way its option wants
  it, a flag is found exactly if one of the arguments is that flag (short in either case, or by
  its long name), and its string value is that of the first such argument, cut to the buffer.\<close>

theorem bp_cmd_get_string_text:
  assumes "plain_ok cmd" and "\<forall>a \<in> set as. arg_ok d a" and "0 < maxlen"
  shows "bp_cmd_find_flag d flag (ln_at pre (cmd @ args_text as)) = (\<exists>a \<in> set as. arg_matches d flag a, []) \<and>
    bp_cmd_get_string d flag maxlen (ln_at pre (cmd @ args_text as)) =
      (case Option.bind (find (arg_matches d flag) as) arg_value of
         None \<Rightarrow> (False, [], [])
       | Some v \<Rightarrow> if v = [] then (False, [], []) else (True, take (maxlen - 1) v, []))"
proof (cases "find (arg_matches d flag) as")
  case None
  then have "cmd_scan_flag d flag (ln_at pre (cmd @ args_text as)) = Not_Found"
    using cmd_scan_flag_text [OF assms(1,2), of flag pre] by simp
  moreover have "\<not> (\<exists>a \<in> set as. arg_matches d flag a)"
    using None by (auto simp: find_None_iff)
  ultimately show ?thesis
    using None by (simp add: bp_cmd_find_flag_def bp_cmd_get_string_def scan_message_def scan_token_def)
next
  case (Some a)
  then obtain q where q: "cmd_scan_flag d flag (ln_at pre (cmd @ args_text as)) =
      Found (map_option (\<lambda>v. (q, length v)) (arg_value a)) []"
      "\<forall>v. arg_value a = Some v \<longrightarrow> word_at (pre @ cmd @ args_text as) q v"
    using cmd_scan_flag_text [OF assms(1,2), of flag pre] by auto
  have "\<exists>a \<in> set as. arg_matches d flag a"
    using Some by (auto simp: find_Some_iff)
  moreover have "arg_value a = Some v \<Longrightarrow> token (pre @ cmd @ args_text as) q (if length v < maxlen - 1 then length v else maxlen - 1) =
      take (maxlen - 1) v" for v
    using q(2) word_at_token by (auto simp: not_less)
  ultimately show ?thesis
    using q Some
    by (cases "arg_value a")
      (auto simp: bp_cmd_find_flag_def bp_cmd_get_string_def scan_message_def scan_token_def)
qed


text \<open>C16: on such a line the query for the k-th positional argument (from 1) gives the k-th argument
  that is neither a flag nor the value of one, and the action verb is the first positional
  argument that names an action.\<close>

theorem bp_cmd_positional_text:
  assumes "plain_ok cmd" and "\<forall>a \<in> set as. arg_ok d a" and "0 < maxlen" and "0 < pos"
  shows "bp_cmd_get_positional_string d pos maxlen (ln_at pre (cmd @ args_text as)) =
      (if pos \<le> length (positionals as) then (True, take (maxlen - 1) (positionals as ! (pos - 1))) else (False, [])) \<and>
    (def_actions d \<noteq> None \<and> def_actions d \<noteq> Some [] \<or> def_action_delegate d \<noteq> None \<longrightarrow>
     bp_cmd_get_action d (ln_at pre (cmd @ args_text as)) = first_some (match_action d) (positionals as))"
proof (intro conjI impI)
  let ?s = "pre @ cmd @ args_text as" and ?r = "ln_at pre (cmd @ args_text as)"
  note after = after_command_text [OF assms(1), of pre as] after_command_text2 [OF assms(1), of pre as]
  note token = positional_token_text [OF assms(1,2,4), of pre]
  show "bp_cmd_get_positional_string d pos maxlen ?r =
      (if pos \<le> length (positionals as) then (True, take (maxlen - 1) (positionals as ! (pos - 1))) else (False, []))"
  proof (cases "pos \<le> length (positionals as)")
    case True
    let ?w = "positionals as ! (pos - 1)"
    obtain q where q: "cmd_get_positional_token d pos ?r = Some (q, length ?w)" "word_at ?s q ?w"
      using token True by auto
    have "Pos w \<in> set as" if "w \<in> set (positionals as)" for w
      using that by (induction as rule: positionals.induct) auto
    then have "Pos ?w \<in> set as" using True assms(4) by simp
    then have w: "plain_ok ?w" using assms(2) by fastforce
    obtain x y where "?s = x @ ?w @ y" "q = length x" using q(2) by (auto simp: word_at_def)
    then have "at ?s q \<noteq> ch_minus" using plain_okD [OF w] by simp
    moreover have "token ?s q (length ?w) = ?w" "maxlen - 1 \<le> length ?w \<Longrightarrow> token ?s q (maxlen - 1) = take (maxlen - 1) ?w"
      using word_at_token [OF q(2)] by auto
    ultimately show ?thesis using q(1) True by (auto simp: bp_cmd_get_positional_string_def not_less)
  next
    case False
    then show ?thesis
      using token by (simp add: bp_cmd_get_positional_string_def)
  qed
  show "bp_cmd_get_action d ?r = first_some (match_action d) (positionals as)"
    if "def_actions d \<noteq> None \<and> def_actions d \<noteq> Some [] \<or> def_action_delegate d \<noteq> None"
    using action_loop_text [OF assms(2), of "pre @ cmd"] after that by (auto simp: bp_cmd_get_action_def)
qed

text \<open>A flag whose option wants an unsigned integer, given with a decimal number, has exactly that
  number as its value if it is in the range of the option's constraint; a number out of range is
  reported as invalid with the range; without the flag the default is delivered as missing.\<close>

theorem bp_cmd_flag_uint32_text:
  assumes "plain_ok cmd" and "\<forall>a \<in> set as. arg_ok d a"
    and "find_opt_in_def d flag = Some opt" and "opt_constraint opt = Some c" and "con_val c = BP_VAL_UINT32 lo hi df"
    and "find (arg_matches d flag) as = None \<or>
      (\<exists>a. find (arg_matches d flag) as = Some a \<and> arg_value a = Some (dec_string n))"
    and "n < 2 ^ 32"
  shows "bp_cmd_flag d flag (ln_at pre (cmd @ args_text as)) out =
    (if find (arg_matches d flag) as = None then (BP_CMD_MISSING, df, [])
     else if unat lo \<le> n \<and> n \<le> unat hi then (BP_CMD_OK, of_nat n, [])
     else (BP_CMD_INVALID, of_nat n, val_print_range_error (Some c) (opt_long_name opt) (Some (of_nat n))))"
proof (cases "find (arg_matches d flag) as")
  case None
  then have "cmd_scan_flag d flag (ln_at pre (cmd @ args_text as)) = Not_Found"
    using cmd_scan_flag_text [OF assms(1,2), of flag pre] by simp
  then show ?thesis
    using None assms(3-5)
    by (simp add: bp_cmd_flag_def bp_cmd_get_uint32_def scan_message_def scan_token_def val_default_def)
next
  case (Some a)
  then have v: "arg_value a = Some (dec_string n)" using assms(6) by simp
  then obtain q where q: "cmd_scan_flag d flag (ln_at pre (cmd @ args_text as)) = Found (Some (q, length (dec_string n))) []"
      "word_at (pre @ cmd @ args_text as) q (dec_string n)"
    using cmd_scan_flag_text [OF assms(1,2), of flag pre] Some by auto
  have "dec_string n \<noteq> []" using dec_string_first [of n] by force
  moreover have "(lo \<le> of_nat n \<and> (of_nat n :: u32) \<le> hi) \<longleftrightarrow> unat lo \<le> n \<and> n \<le> unat hi"
    using assms(7) by (simp add: word_le_nat_alt unat_of_nat_small)
  ultimately show ?thesis
    using q Some assms(3-5) word_at_decimal [OF q(2) assms(7)]
    by (simp add: bp_cmd_flag_def bp_cmd_get_uint32_def scan_message_def scan_token_def val_check_def)
qed

subsection \<open>Two commands of the firmware\<close>

text \<open>The descriptors of the \<open>flash\<close> command (\<^verbatim>\<open>src/commands/spi/flash.c\<close>).\<close>

definition opt_entry ::
  "string \<Rightarrow> char \<Rightarrow> bp_arg_type \<Rightarrow> string option \<Rightarrow> string \<Rightarrow> bp_val_constraint option \<Rightarrow> bp_command_opt" where
  "opt_entry long short arg hint description constraint =
     \<lparr>opt_long_name = Some (bytes long), opt_short_name = of_char short, opt_arg_type = arg,
      opt_arg_hint = map_option bytes hint, opt_description = description, opt_constraint = constraint\<rparr>"

definition action_entry :: "u32 \<Rightarrow> string \<Rightarrow> string \<Rightarrow> bp_command_action" where
  "action_entry action verb description =
     \<lparr>act_action = action, act_verb = bytes verb, act_description = description\<rparr>"

definition flash_action_defs :: "bp_command_action list" where
  "flash_action_defs =
     [action_entry 0 ''probe'' ''T_HELP_FLASH_PROBE'', action_entry 1 ''dump'' ''T_HELP_EEPROM_DUMP'',
      action_entry 2 ''erase'' ''T_HELP_FLASH_ERASE'', action_entry 3 ''write'' ''T_HELP_FLASH_WRITE'',
      action_entry 4 ''read'' ''T_HELP_FLASH_READ'', action_entry 5 ''verify'' ''T_HELP_FLASH_VERIFY'',
      action_entry 6 ''test'' ''T_HELP_FLASH_TEST'']"

definition flash_opts :: "bp_command_opt list" where
  "flash_opts =
     [opt_entry ''file'' CHR ''f'' BP_ARG_REQUIRED (Some ''file'') ''T_HELP_FLASH_FILE_FLAG'' None,
      opt_entry ''erase'' CHR ''e'' BP_ARG_NONE None ''T_HELP_FLASH_ERASE_FLAG'' None,
      opt_entry ''verify'' CHR ''v'' BP_ARG_NONE None ''T_HELP_FLASH_VERIFY_FLAG'' None,
      opt_entry ''start'' CHR ''s'' BP_ARG_REQUIRED (Some ''addr'') ''T_HELP_EEPROM_START_FLAG'' None,
      opt_entry ''bytes'' CHR ''b'' BP_ARG_REQUIRED (Some ''count'') ''T_HELP_EEPROM_BYTES_FLAG'' None,
      opt_entry ''quiet'' CHR ''q'' BP_ARG_NONE None ''T_HELP_DISK_HEX_QUIET'' None,
      opt_entry ''nopager'' CHR ''c'' BP_ARG_NONE None ''T_HELP_DISK_HEX_PAGER_OFF'' None,
      opt_entry ''override'' CHR ''o'' BP_ARG_NONE None ''T_HELP_FLASH_OVERRIDE'' None,
      opt_entry ''yes'' CHR ''y'' BP_ARG_NONE None ''T_HELP_FLASH_YES_OVERRIDE'' None]"

definition flash_def :: bp_command_def where
  "flash_def = Bp_Command_Def (Some (bytes ''flash'')) ''T_HELP_FLASH'' (Some flash_action_defs) None (Some flash_opts) None"

text \<open>The setup options of the 3WIRE mode (\<^verbatim>\<open>src/mode/hw3wire.c\<close>).\<close>

definition hw3wire_speed_range :: bp_val_constraint where
  "hw3wire_speed_range = \<lparr>con_val = BP_VAL_UINT32 1 3900 100, con_prompt = ''T_SPEED'', con_hint = ''T_HW3WIRE_SPEED_MENU_1''\<rparr>"

definition hw3wire_csidle_choice :: bp_val_constraint where
  "hw3wire_csidle_choice =
     \<lparr>con_val = BP_VAL_CHOICE
        [\<lparr>vc_name = Some (bytes ''low''), vc_alias = None, vc_label = ''T_HWSPI_CS_IDLE_MENU_1'', vc_value = 0\<rparr>,
         \<lparr>vc_name = Some (bytes ''high''), vc_alias = None, vc_label = ''T_HWSPI_CS_IDLE_MENU_2'', vc_value = 1\<rparr>] 1,
      con_prompt = ''T_HWSPI_CS_IDLE_MENU'', con_hint = []\<rparr>"

definition hw3wire_setup_opts :: "bp_command_opt list" where
  "hw3wire_setup_opts =
     [opt_entry ''speed'' CHR ''s'' BP_ARG_REQUIRED (Some ''1-3900'') [] (Some hw3wire_speed_range),
      opt_entry ''csidle'' CHR ''c'' BP_ARG_REQUIRED (Some ''low|high'') [] (Some hw3wire_csidle_choice)]"

definition hw3wire_setup_def :: bp_command_def where
  "hw3wire_setup_def = Bp_Command_Def (Some (bytes ''3wire'')) [] None None (Some hw3wire_setup_opts) None"

lemmas command_defs = flash_def_def flash_opts_def flash_action_defs_def hw3wire_setup_def_def hw3wire_setup_opts_def
  hw3wire_speed_range_def hw3wire_csidle_choice_def opt_entry_def action_entry_def bytes_def

lemmas arg_lookups = short_opt_def find_opt_in_def_def find_opt_by_long_name_def opts_of_def takes_value_def
  plain_ok_def word_ok_def name_ok_def long_matches_def

text \<open>\<open>flash write -f rom --verify -b 16\<close>\<close>

definition flash_line :: "cmd_arg list" where
  "flash_line = [Pos (bytes ''write''), Flag_Val (of_char CHR ''f'') (bytes ''rom''), Long (bytes ''verify''),
     Flag_Val (of_char CHR ''b'') (bytes ''16'')]"

lemma flash_line_ok: "\<forall>a \<in> set flash_line. arg_ok flash_def a" "plain_ok (bytes ''flash'')"
  by (simp_all add: flash_line_def command_defs arg_lookups)

theorem bp_cmd_get_string_text_witness:
  "bp_cmd_get_string flash_def (of_char CHR ''f'') 13 (ln_at [] (bytes ''flash'' @ args_text flash_line)) =
     (True, bytes ''rom'', [])"
  using bp_cmd_get_string_text [OF flash_line_ok(2,1), of 13 "of_char CHR ''f''" "[]"]
  by (simp add: flash_line_def command_defs arg_lookups)

theorem bp_cmd_positional_text_witness:
  "bp_cmd_get_positional_string flash_def 1 13 (ln_at [] (bytes ''flash'' @ args_text flash_line)) = (True, bytes ''write'') \<and>
   bp_cmd_get_action flash_def (ln_at [] (bytes ''flash'' @ args_text flash_line)) = Some 3"
  using bp_cmd_positional_text [OF flash_line_ok(2,1), of 13 1 "[]"]
  by (simp add: flash_line_def command_defs match_action_def tok_eq_def)

theorem bp_cmd_flag_uint32_text_witness:
  "bp_cmd_flag hw3wire_setup_def (of_char CHR ''s'')
     (ln_at [] (bytes ''m'' @ args_text [Pos (bytes ''3wire''), Flag_Val (of_char CHR ''s'') (dec_string 500)])) 0 =
     (BP_CMD_OK, 500, [])"
proof -
  have "dec_string 500 = [53, 48, 48]"
    by (simp add: dec_string_def digits_of.simps dec_char_def)
  then show ?thesis
    using bp_cmd_flag_uint32_text [of "bytes ''m''" "[Pos (bytes ''3wire''), Flag_Val (of_char CHR ''s'') (dec_string 500)]"
        hw3wire_setup_def "of_char CHR ''s''" "hw3wire_setup_opts ! 0" hw3wire_speed_range 1 3900 100 500 "[]" 0]
    by (simp add: command_defs arg_lookups)
qed

end
