(* ===== verification/Bp_Cmd_Query.thy ===== *)
theory Bp_Cmd_Query
  imports Bp_Cmd_Text
begin

text \<open>
  What the queries with a constraint answer, \<open>bp_cmd_flag\<close> and \<open>bp_cmd_positional\<close> of
  \<^verbatim>\<open>src/lib/bp_args/bp_cmd.c\<close>, on a command line made of arguments: the status, the value and the message, from the
  word that was typed. The reference reads a word as a number if all of it is digits; a word
  that begins with a digit but is none (\<open>0x10\<close>, \<open>12abc\<close>) is left out, and so are float constraints.
\<close>

subsection \<open>The reference\<close>












subsection \<open>The parser and the checks against the reference\<close>













subsection \<open>The words on the line\<close>






subsection \<open>Properties\<close>









end
