(* ===== verification/Spsc_Queue.thy ===== *)
theory Spsc_Queue
  imports Prelude
begin

text \<open>
  The byte queue between the two cores (\<open>src/src/spsc_queue.h\<close>): a ring buffer with one
  producer and one consumer. First the operations as the cores call them, their refinement
  of a FIFO list and the interface \<open>byte_queue\<close> its clients rely on; then the accesses of
  the two cores to shared memory interleaved in any order.

  The buffer is the list of the bytes the caller provides. Each core sees the accesses of
  the other in program order: that is what the barriers (\<open>__dmb\<close>) of the source are for,
  and they have no other effect here.
\<close>

record spsc_queue =
  sq_head :: u32
  sq_tail :: u32
  sq_buffer :: "u8 list"
  sq_capacity :: u32
  sq_mask :: u32

text \<open>\<open>None\<close> is the failed assertion of a debug build.\<close>

definition spsc_queue_init :: "u8 list \<Rightarrow> u32 \<Rightarrow> spsc_queue option" where
  "spsc_queue_init buffer capacity =
     (if capacity AND (capacity - 1) = 0 \<and> capacity > 0
      then Some \<lparr>sq_head = 0, sq_tail = 0, sq_buffer = buffer, sq_capacity = capacity,
                 sq_mask = capacity - 1\<rparr>
      else None)"

definition spsc_queue_try_add :: "spsc_queue \<Rightarrow> u8 \<Rightarrow> spsc_queue \<times> bool" where
  "spsc_queue_try_add q data =
     (let head = sq_head q; next_head = (head + 1) AND sq_mask q
      in if next_head = sq_tail q then (q, False)
         else (q\<lparr>sq_buffer := (sq_buffer q)[unat head := data], sq_head := next_head\<rparr>, True))"

text \<open>The blocking operations spin; \<open>None\<close> is spinning for ever when nobody else acts.\<close>

partial_function (option) spsc_queue_add_blocking :: "spsc_queue \<Rightarrow> u8 \<Rightarrow> spsc_queue option" where
  "spsc_queue_add_blocking q data =
     (let (q', ok) = spsc_queue_try_add q data
      in if ok then Some q' else spsc_queue_add_blocking q' data)"

text \<open>A result that is delivered through a pointer is \<open>Some\<close> byte when the function returns true.\<close>

definition spsc_queue_try_remove :: "spsc_queue \<Rightarrow> spsc_queue \<times> u8 option" where
  "spsc_queue_try_remove q =
     (let tail = sq_tail q
      in if tail = sq_head q then (q, None)
         else (q\<lparr>sq_tail := (tail + 1) AND sq_mask q\<rparr>, Some (sq_buffer q ! unat tail)))"

partial_function (option) spsc_queue_remove_blocking :: "spsc_queue \<Rightarrow> (spsc_queue \<times> u8) option" where
  "spsc_queue_remove_blocking q =
     (case spsc_queue_try_remove q of
        (q', Some c) \<Rightarrow> Some (q', c)
      | (q', None) \<Rightarrow> spsc_queue_remove_blocking q')"

definition spsc_queue_try_peek :: "spsc_queue \<Rightarrow> u8 option" where
  "spsc_queue_try_peek q =
     (let tail = sq_tail q
      in if tail = sq_head q then None else Some (sq_buffer q ! unat tail))"

partial_function (option) spsc_queue_peek_blocking :: "spsc_queue \<Rightarrow> u8 option" where
  "spsc_queue_peek_blocking q =
     (case spsc_queue_try_peek q of
        Some c \<Rightarrow> Some c
      | None \<Rightarrow> spsc_queue_peek_blocking q)"

definition spsc_queue_level :: "spsc_queue \<Rightarrow> u32" where
  "spsc_queue_level q = (sq_head q - sq_tail q) AND sq_mask q"

definition spsc_queue_free :: "spsc_queue \<Rightarrow> u32" where
  "spsc_queue_free q = sq_capacity q - 1 - spsc_queue_level q"

definition spsc_queue_is_empty :: "spsc_queue \<Rightarrow> bool" where
  "spsc_queue_is_empty q \<longleftrightarrow> sq_head q = sq_tail q"

definition spsc_queue_flush :: "spsc_queue \<Rightarrow> spsc_queue" where
  "spsc_queue_flush q = q\<lparr>sq_tail := sq_head q\<rparr>"

definition spsc_queue_is_full :: "spsc_queue \<Rightarrow> bool" where
  "spsc_queue_is_full q \<longleftrightarrow> (sq_head q + 1) AND sq_mask q = sq_tail q"

subsection \<open>The invariant and the abstraction\<close>

definition queue_wf :: "spsc_queue \<Rightarrow> bool" where
  "queue_wf q \<longleftrightarrow>
     sq_capacity q AND (sq_capacity q - 1) = 0 \<and> 0 < sq_capacity q \<and>
     sq_mask q = sq_capacity q - 1 \<and>
     sq_head q < sq_capacity q \<and> sq_tail q < sq_capacity q \<and>
     unat (sq_capacity q) \<le> length (sq_buffer q)"

definition ring :: "u8 list \<Rightarrow> nat \<Rightarrow> nat \<Rightarrow> nat \<Rightarrow> u8 list" where
  "ring buf cap t n = map (\<lambda>i. buf ! ((t + i) mod cap)) [0..<n]"

definition distance :: "nat \<Rightarrow> nat \<Rightarrow> nat \<Rightarrow> nat" where
  "distance cap t h = (h + cap - t) mod cap"

definition queue_list :: "spsc_queue \<Rightarrow> u8 list" where
  "queue_list q =
     ring (sq_buffer q) (unat (sq_capacity q)) (unat (sq_tail q))
       (distance (unat (sq_capacity q)) (unat (sq_tail q)) (unat (sq_head q)))"

subsection \<open>Arithmetic of the ring\<close>

lemma nat_and_pred_0:
  fixes n :: nat
  assumes "n AND (n - 1) = 0" "0 < n"
  shows "\<exists>k. n = 2 ^ k"
  using assms
proof (induction n rule: less_induct)
  case (less n)
  show ?case
  proof (cases "odd n")
    case True
    then obtain m where m: "n = 2 * m + 1"
      by (metis oddE)
    have "n AND (n - 1) = 2 * m"
      unfolding m by (simp add: and_rec [of "Suc (2 * m)"])
    then have "n = 1"
      using less.prems m by simp
    then show ?thesis
      by (metis power_0)
  next
    case False
    then obtain m where m: "n = 2 * m" "0 < m"
      using less.prems(2) by (metis evenE nat_0_less_mult_iff)
    have "(2 * m - 1) div 2 = m - 1"
      using m(2) by arith
    then have "m AND (m - 1) = 0"
      using less.prems(1) unfolding m(1) by (subst (asm) and_rec) simp
    then obtain k where "m = 2 ^ k"
      using less.IH [of m] m by auto
    then have "n = 2 ^ Suc k"
      using m(1) by simp
    then show ?thesis
      by blast
  qed
qed

lemma word_power_of_two:
  fixes c :: "'a::len word"
  assumes "c AND (c - 1) = 0" "0 < c"
  obtains k where "k < LENGTH('a)" "c = 2 ^ k" "c - 1 = mask k" "unat c = 2 ^ k"
proof -
  have pos: "0 < unat c"
    using assms(2) by (simp add: unat_gt_0)
  have "unat c AND unat (c - 1) = 0"
    using assms(1) by (metis unat_0 unsigned_and_eq)
  moreover have "unat (c - 1) = unat c - 1"
    using assms(2) by (simp add: unat_minus_one word_neq_0_conv)
  ultimately obtain k where k: "unat c = 2 ^ k"
    using nat_and_pred_0 [of "unat c"] pos by auto
  have "2 ^ k < (2 ^ LENGTH('a) :: nat)"
    using k unsigned_less [of c] by metis
  then have less: "k < LENGTH('a)"
    by simp
  have c: "c = 2 ^ k"
    using arg_cong [OF k, of "of_nat :: nat \<Rightarrow> 'a word"] by simp
  show ?thesis
    using that [of k] less c k by (simp add: mask_eq_decr_exp)
qed

lemma distance_less: "0 < cap \<Longrightarrow> distance cap t h < cap"
  by (simp add: distance_def)

lemma distance_add: "t < cap \<Longrightarrow> h < cap \<Longrightarrow> (t + distance cap t h) mod cap = h"
  by (simp add: distance_def mod_add_right_eq)

lemma ring_neq:
  fixes i n cap t :: nat
  assumes "i < n" "n < cap"
  shows "(t + i) mod cap \<noteq> (t + n) mod cap"
proof
  assume "(t + i) mod cap = (t + n) mod cap"
  then have "cap dvd (t + n) - (t + i)"
    using assms by (metis add_le_cancel_left less_imp_le mod_eq_dvd_iff_nat)
  then show False
    using assms by (auto dest: dvd_imp_le)
qed

lemma ring_step_inj:
  fixes i n cap t :: nat
  assumes "(t + i) mod cap = (t + n) mod cap" "i < cap" "n < cap"
  shows "i = n"
  using ring_neq [of i n cap t] ring_neq [of n i cap t] assms by (metis linorder_neqE_nat)

lemma distance_unique: "t < cap \<Longrightarrow> n < cap \<Longrightarrow> distance cap t ((t + n) mod cap) = n"
  by (rule ring_step_inj [of t _ cap]) (auto simp: distance_add distance_less)

lemma ring_0 [simp]: "ring buf cap t 0 = []"
  by (simp add: ring_def)

lemma length_ring [simp]: "length (ring buf cap t n) = n"
  by (simp add: ring_def)

lemma ring_Suc: "ring buf cap t (Suc n) = ring buf cap t n @ [buf ! ((t + n) mod cap)]"
  by (simp add: ring_def)

lemma drop_ring: "drop k (ring buf cap t n) = ring buf cap ((t + k) mod cap) (n - k)"
proof (rule nth_equalityI)
  fix i
  assume "i < length (drop k (ring buf cap t n))"
  then have "k + i < n" "i < n - k"
    by simp_all
  then show "drop k (ring buf cap t n) ! i = ring buf cap ((t + k) mod cap) (n - k) ! i"
    by (simp add: ring_def mod_add_left_eq add.assoc)
qed simp

lemma ring_hd: "0 < n \<Longrightarrow> t < cap \<Longrightarrow> hd (ring buf cap t n) = buf ! t"
  by (simp add: ring_def hd_map)

lemma ring_update: "n < cap \<Longrightarrow> ring (buf[(t + n) mod cap := d]) cap t n = ring buf cap t n"
  by (auto simp: ring_def dest!: ring_neq [of _ n cap t])

subsection \<open>A queue as head, tail and number of bytes\<close>

text \<open>\<open>queue_view q cap t n\<close>: the queue has \<open>cap\<close> slots, its tail is at \<open>t\<close>, \<open>n\<close> bytes follow.\<close>

definition queue_view :: "spsc_queue \<Rightarrow> nat \<Rightarrow> nat \<Rightarrow> nat \<Rightarrow> bool" where
  "queue_view q cap t n \<longleftrightarrow>
     queue_wf q \<and> unat (sq_capacity q) = cap \<and> unat (sq_tail q) = t \<and> t < cap \<and> n < cap \<and>
     unat (sq_head q) = (t + n) mod cap"

lemma queue_wf_view:
  assumes "queue_wf q"
  obtains cap t n where "queue_view q cap t n"
proof -
  let ?cap = "unat (sq_capacity q)" and ?t = "unat (sq_tail q)" and ?h = "unat (sq_head q)"
  have less: "?t < ?cap" "?h < ?cap"
    using assms by (simp_all add: queue_wf_def word_less_nat_alt)
  have "queue_view q ?cap ?t (distance ?cap ?t ?h)"
    using assms less by (simp add: queue_view_def distance_add distance_less)
  then show ?thesis
    by (rule that)
qed

lemma queue_view_wf: "queue_view q cap t n \<Longrightarrow> queue_wf q"
  by (simp add: queue_view_def)

lemma queue_view_room: "queue_view q cap t n \<Longrightarrow> unat (sq_capacity q) = cap \<and> n < cap"
  by (simp add: queue_view_def)

lemma queue_view_list: "queue_view q cap t n \<Longrightarrow> queue_list q = ring (sq_buffer q) cap t n"
  by (simp add: queue_view_def queue_list_def distance_unique)

lemma queue_view_cap:
  assumes "queue_view q cap t n"
  obtains k where "k < 32" "cap = 2 ^ k" "sq_mask q = mask k" "cap \<le> length (sq_buffer q)"
proof -
  have wf: "sq_capacity q AND (sq_capacity q - 1) = 0" "0 < sq_capacity q"
    using assms by (simp_all add: queue_view_def queue_wf_def)
  obtain k where k: "k < LENGTH(32)" "sq_capacity q - 1 = mask k" "unat (sq_capacity q) = 2 ^ k"
    by (rule word_power_of_two [OF wf])
  then show ?thesis
    using that [of k] assms by (auto simp: queue_view_def queue_wf_def)
qed

lemma unat_masked:
  assumes "queue_view q cap t n"
  shows "unat ((x + 1) AND sq_mask q) = (unat x + 1) mod cap"
    and "unat ((x - y) AND sq_mask q) = (unat x + (2 ^ 32 - unat y)) mod cap"
proof -
  obtain k where k: "k < 32" "cap = 2 ^ k" "sq_mask q = mask k"
    using queue_view_cap [OF assms] by metis
  have dvd: "cap dvd 2 ^ 32"
    unfolding k(2) by (rule le_imp_power_dvd) (use k(1) in simp)
  have add: "unat (x + 1) = (unat x + 1) mod 2 ^ 32"
    by (simp add: unat_word_ariths)
  then show "unat ((x + 1) AND sq_mask q) = (unat x + 1) mod cap"
    using dvd by (simp only: k(3) unat_and_mask k(2) [symmetric]) (rule mod_mod_cancel)
  have "unat y \<le> 2 ^ 32"
    using unsigned_less [of y, where ?'a = nat] by simp
  then have "unat x + (2 ^ 32 - unat y) + unat y = unat x + 2 ^ 32"
    by simp
  then have "of_nat (unat x + (2 ^ 32 - unat y)) + of_nat (unat y) = (of_nat (unat x + 2 ^ 32) :: u32)"
    by (metis of_nat_add)
  then have "x - y = of_nat (unat x + (2 ^ 32 - unat y))"
    by (simp add: diff_eq_eq del: of_nat_add of_nat_diff) simp
  then have "unat (x - y) = unat (of_nat (unat x + (2 ^ 32 - unat y)) :: u32)"
    by (rule arg_cong)
  also have "\<dots> = (unat x + (2 ^ 32 - unat y)) mod 2 ^ 32"
    by (simp only: unat_of_nat take_bit_eq_mod) simp
  finally have "unat (x - y) = (unat x + (2 ^ 32 - unat y)) mod 2 ^ 32" .
  then show "unat ((x - y) AND sq_mask q) = (unat x + (2 ^ 32 - unat y)) mod cap"
    using dvd by (simp only: k(3) unat_and_mask k(2) [symmetric]) (rule mod_mod_cancel)
qed

lemma queue_view_full:
  assumes "queue_view q cap t n"
  shows "(sq_head q + 1) AND sq_mask q = sq_tail q \<longleftrightarrow> Suc n = cap"
proof -
  have view: "t < cap" "n < cap" "unat (sq_tail q) = t" "unat (sq_head q) = (t + n) mod cap"
    using assms by (simp_all add: queue_view_def)
  have "unat ((sq_head q + 1) AND sq_mask q) = (t + Suc n) mod cap"
    by (simp add: unat_masked(1) [OF assms] view(4) mod_Suc_eq)
  then have "(sq_head q + 1) AND sq_mask q = sq_tail q \<longleftrightarrow> (t + Suc n) mod cap = t"
    by (metis view(3) word_unat_eq_iff)
  moreover have "(t + Suc n) mod cap = t \<longleftrightarrow> Suc n = cap"
  proof (cases "Suc n = cap")
    case True
    then show ?thesis
      using view(1) mod_add_self2 [of t cap] by simp
  next
    case False
    then show ?thesis
      using ring_neq [of 0 "Suc n" cap t] view(1,2) by (auto simp del: add_Suc_right)
  qed
  ultimately show ?thesis
    by simp
qed

lemma queue_view_empty:
  assumes "queue_view q cap t n"
  shows "sq_tail q = sq_head q \<longleftrightarrow> n = 0"
proof -
  have view: "t < cap" "n < cap" "unat (sq_tail q) = t" "unat (sq_head q) = (t + n) mod cap"
    using assms by (simp_all add: queue_view_def)
  have "sq_tail q = sq_head q \<longleftrightarrow> t = (t + n) mod cap"
    using view(3,4) by (metis word_unat_eq_iff)
  then show ?thesis
    using ring_neq [of 0 n cap t] view(1,2) by auto
qed

lemma queue_view_level:
  assumes "queue_view q cap t n"
  shows "unat (spsc_queue_level q) = n"
proof -
  have view: "t < cap" "n < cap" "unat (sq_tail q) = t" "unat (sq_head q) = (t + n) mod cap"
    using assms by (simp_all add: queue_view_def)
  obtain k where k: "k < 32" "cap = 2 ^ k"
    using queue_view_cap [OF assms] by metis
  have dvd: "cap dvd 2 ^ 32"
    unfolding k(2) by (rule le_imp_power_dvd) (use k(1) in simp)
  have "t < 2 ^ 32"
    using unsigned_less [of "sq_tail q", where ?'a = nat] view(3) by simp
  then have sum: "t + n + (2 ^ 32 - t) = n + 2 ^ 32"
    by simp
  have "unat (spsc_queue_level q) = ((t + n) mod cap + (2 ^ 32 - t)) mod cap"
    unfolding spsc_queue_level_def unat_masked(2) [OF assms] view(3,4) by (rule refl)
  also have "\<dots> = (n + 2 ^ 32) mod cap"
    by (simp only: mod_add_left_eq sum)
  also have "\<dots> = n"
    using dvd view(2) by (metis add.commute mod_less mod_add_self1 dvd_def mod_mult_self4)
  finally show ?thesis .
qed

lemma queue_view_buffer:
  "queue_view q cap t n \<Longrightarrow> queue_view (q\<lparr>sq_buffer := (sq_buffer q)[i := d]\<rparr>) cap t n"
  by (simp add: queue_view_def queue_wf_def)

lemma queue_view_head:
  assumes "queue_view q cap t n" "Suc n < cap"
  shows "queue_view (q\<lparr>sq_head := (sq_head q + 1) AND sq_mask q\<rparr>) cap t (Suc n)"
proof -
  have head: "unat ((sq_head q + 1) AND sq_mask q) = (t + Suc n) mod cap"
    using assms(1) by (simp add: unat_masked(1) [OF assms(1)] queue_view_def mod_Suc_eq)
  then have "(sq_head q + 1) AND sq_mask q < sq_capacity q"
    using assms by (simp add: queue_view_def word_less_nat_alt)
  then show ?thesis
    using assms head by (simp add: queue_view_def queue_wf_def)
qed

lemma queue_view_tail:
  assumes "queue_view q cap t n" "k \<le> n" "unat x = (t + k) mod cap"
  shows "queue_view (q\<lparr>sq_tail := x\<rparr>) cap ((t + k) mod cap) (n - k)"
proof -
  have "x < sq_capacity q"
    using assms(1,3) by (simp add: queue_view_def word_less_nat_alt)
  moreover have "(t + n) mod cap = ((t + k) mod cap + (n - k)) mod cap"
    unfolding mod_add_left_eq using assms(2) by simp
  ultimately show ?thesis
    using assms by (simp add: queue_view_def queue_wf_def less_imp_diff_less)
qed

lemma queue_view_tail_Suc:
  assumes "queue_view q cap t n" "0 < n"
  shows "queue_view (q\<lparr>sq_tail := (sq_tail q + 1) AND sq_mask q\<rparr>) cap ((t + 1) mod cap) (n - 1)"
  using assms by (intro queue_view_tail) (auto simp: unat_masked(1) [OF assms(1)] queue_view_def)

subsection \<open>The operations on the list of waiting bytes\<close>

definition queue_room :: "spsc_queue \<Rightarrow> nat" where
  "queue_room q = unat (sq_capacity q) - 1"

lemma queue_list_bounded: "queue_wf q \<Longrightarrow> length (queue_list q) \<le> queue_room q"
  by (erule queue_wf_view) (auto simp: queue_view_list queue_room_def queue_view_def)

lemma init_ok:
  assumes "spsc_queue_init buf capacity = Some q" "unat capacity \<le> length buf"
  shows "queue_wf q \<and> queue_list q = [] \<and> queue_room q = unat capacity - 1"
  using assms
  by (auto simp: spsc_queue_init_def queue_wf_def queue_list_def queue_room_def distance_def
      split: if_splits)

lemma try_add_full:
  assumes "queue_wf q" "length (queue_list q) = queue_room q"
  shows "spsc_queue_try_add q d = (q, False)"
proof -
  obtain cap t n where view: "queue_view q cap t n"
    using queue_wf_view [OF assms(1)] .
  then have "Suc n = cap"
    using assms(2) by (auto simp: queue_view_list queue_room_def queue_view_def)
  then show ?thesis
    by (simp add: spsc_queue_try_add_def queue_view_full [OF view])
qed

lemma try_add_ok:
  assumes "queue_wf q" "length (queue_list q) \<noteq> queue_room q"
  shows "\<exists>q'. spsc_queue_try_add q d = (q', True) \<and> queue_wf q' \<and>
    queue_list q' = queue_list q @ [d] \<and> queue_room q' = queue_room q"
proof -
  obtain cap t n where view: "queue_view q cap t n"
    using queue_wf_view [OF assms(1)] .
  have n: "Suc n < cap"
    using view assms(2) by (auto simp: queue_view_list queue_room_def queue_view_def)
  have "cap \<le> length (sq_buffer q)"
    using queue_view_cap [OF view] by metis
  then have head: "unat (sq_head q) = (t + n) mod cap" "(t + n) mod cap < length (sq_buffer q)"
    using view n by (auto simp: queue_view_def intro: less_le_trans [OF mod_less_divisor])
  let ?q = "q\<lparr>sq_buffer := (sq_buffer q)[unat (sq_head q) := d]\<rparr>"
  let ?q' = "?q\<lparr>sq_head := (sq_head ?q + 1) AND sq_mask ?q\<rparr>"
  have view': "queue_view ?q' cap t (Suc n)"
    using view n by (intro queue_view_head queue_view_buffer)
  have "queue_list ?q' = ring (sq_buffer ?q') cap t (Suc n)"
    by (rule queue_view_list [OF view'])
  also have "\<dots> = queue_list q @ [d]"
    using n head by (simp add: queue_view_list [OF view] ring_Suc ring_update)
  finally have "queue_list ?q' = queue_list q @ [d]" .
  moreover have "spsc_queue_try_add q d = (?q', True)"
    using n by (simp add: spsc_queue_try_add_def Let_def queue_view_full [OF view])
  ultimately show ?thesis
    using view' by (auto simp: queue_room_def dest: queue_view_wf)
qed

lemma try_remove_empty: "queue_wf q \<Longrightarrow> queue_list q = [] \<Longrightarrow> spsc_queue_try_remove q = (q, None)"
  by (erule queue_wf_view)
    (auto simp: spsc_queue_try_remove_def queue_view_empty queue_view_list ring_def)

lemma try_remove_ok:
  assumes "queue_wf q" "queue_list q = c # cs"
  shows "\<exists>q'. spsc_queue_try_remove q = (q', Some c) \<and> queue_wf q' \<and>
    queue_list q' = cs \<and> queue_room q' = queue_room q"
proof -
  obtain cap t n where view: "queue_view q cap t n"
    using queue_wf_view [OF assms(1)] .
  have ring: "ring (sq_buffer q) cap t n = c # cs"
    using assms(2) by (simp add: queue_view_list [OF view])
  then have n: "0 < n"
    by (cases n) auto
  let ?q' = "q\<lparr>sq_tail := (sq_tail q + 1) AND sq_mask q\<rparr>"
  have view': "queue_view ?q' cap ((t + 1) mod cap) (n - 1)"
    by (rule queue_view_tail_Suc [OF view n])
  have "queue_list ?q' = drop 1 (c # cs)"
    by (simp only: queue_view_list [OF view'] ring [symmetric] drop_ring) simp
  moreover have "sq_buffer q ! unat (sq_tail q) = c"
    using ring_hd [of n t cap "sq_buffer q"] view n ring by (simp add: queue_view_def)
  ultimately show ?thesis
    using view' n
    by (auto simp: spsc_queue_try_remove_def queue_view_empty [OF view] queue_room_def
        dest: queue_view_wf)
qed

lemma try_peek_list:
  assumes "queue_wf q"
  shows "spsc_queue_try_peek q = (case queue_list q of [] \<Rightarrow> None | c # cs \<Rightarrow> Some c)"
proof -
  have peek: "spsc_queue_try_peek q = snd (spsc_queue_try_remove q)"
    by (simp add: spsc_queue_try_peek_def spsc_queue_try_remove_def Let_def)
  show ?thesis
    using try_remove_empty [OF assms] try_remove_ok [OF assms]
    by (cases "queue_list q") (fastforce simp: peek)+
qed

lemma level_list: "queue_wf q \<Longrightarrow> unat (spsc_queue_level q) = length (queue_list q)"
  by (erule queue_wf_view) (simp add: queue_view_level queue_view_list)

lemma is_empty_list: "queue_wf q \<Longrightarrow> spsc_queue_is_empty q \<longleftrightarrow> queue_list q = []"
  by (erule queue_wf_view)
    (auto simp: spsc_queue_is_empty_def queue_view_empty [symmetric] queue_view_list ring_def)

lemma is_full_list: "queue_wf q \<Longrightarrow> spsc_queue_is_full q \<longleftrightarrow> length (queue_list q) = queue_room q"
  by (erule queue_wf_view)
    (auto simp: spsc_queue_is_full_def queue_view_full queue_view_list queue_room_def
      dest!: queue_view_room)

lemma free_list:
  assumes "queue_wf q"
  shows "unat (spsc_queue_free q) = queue_room q - length (queue_list q)"
proof -
  have "0 < sq_capacity q"
    using assms by (simp add: queue_wf_def)
  then have one: "unat (sq_capacity q - 1) = queue_room q"
    by (simp add: queue_room_def unat_minus_one word_neq_0_conv)
  then have "spsc_queue_level q \<le> sq_capacity q - 1"
    using queue_list_bounded [OF assms] by (simp add: word_le_nat_alt level_list [OF assms])
  then show ?thesis
    by (simp add: spsc_queue_free_def unat_sub one level_list [OF assms])
qed

lemma flush_ok:
  assumes "queue_wf q"
  shows "queue_wf (spsc_queue_flush q) \<and> queue_list (spsc_queue_flush q) = [] \<and>
    queue_room (spsc_queue_flush q) = queue_room q"
  using assms
  by (simp add: queue_wf_def queue_list_def spsc_queue_flush_def queue_room_def distance_def)

subsection \<open>What the clients rely on\<close>

text \<open>
  A loop that empties a queue into a buffer of \<open>n\<close> bytes, and one that offers it byte after
  byte; the services of both transmit queues and the receivers are built from these.
\<close>

primrec drain_loop :: "('q \<Rightarrow> 'q \<times> u8 option) \<Rightarrow> nat \<Rightarrow> 'q \<Rightarrow> 'q \<times> u8 list" where
  "drain_loop try_remove 0 q = (q, [])"
| "drain_loop try_remove (Suc n) q =
     (case try_remove q of
        (q', None) \<Rightarrow> (q', [])
      | (q', Some c) \<Rightarrow> (let (q'', cs) = drain_loop try_remove n q' in (q'', c # cs)))"

primrec offer_loop :: "('q \<Rightarrow> u8 \<Rightarrow> 'q \<times> bool) \<Rightarrow> 'q \<Rightarrow> u8 list \<Rightarrow> 'q" where
  "offer_loop try_add q [] = q"
| "offer_loop try_add q (c # cs) = offer_loop try_add (fst (try_add q c)) cs"

text \<open>Calls on a queue and their answers; on a list of bytes they are those of a bounded FIFO.\<close>

datatype queue_call = Add u8 | Remove | Peek | Flush

datatype queue_answer = Added bool | Byte "u8 option" | Flushed

fun fifo_call :: "nat \<Rightarrow> u8 list \<Rightarrow> queue_call \<Rightarrow> u8 list \<times> queue_answer" where
  "fifo_call room xs (Add c) = (if length xs < room then (xs @ [c], Added True) else (xs, Added False))"
| "fifo_call room xs Remove = (case xs of [] \<Rightarrow> ([], Byte None) | c # cs \<Rightarrow> (cs, Byte (Some c)))"
| "fifo_call room xs Peek = (xs, Byte (case xs of [] \<Rightarrow> None | c # cs \<Rightarrow> Some c))"
| "fifo_call room xs Flush = ([], Flushed)"

fun perform_call :: "('q \<Rightarrow> u8 \<Rightarrow> 'q \<times> bool) \<Rightarrow> ('q \<Rightarrow> 'q \<times> u8 option) \<Rightarrow> ('q \<Rightarrow> u8 option) \<Rightarrow>
    ('q \<Rightarrow> 'q) \<Rightarrow> 'q \<Rightarrow> queue_call \<Rightarrow> 'q \<times> queue_answer" where
  "perform_call ad rm pk fl q (Add c) = map_prod id Added (ad q c)"
| "perform_call ad rm pk fl q Remove = map_prod id Byte (rm q)"
| "perform_call ad rm pk fl q Peek = (q, Byte (pk q))"
| "perform_call ad rm pk fl q Flush = (fl q, Flushed)"

primrec run_calls :: "('s \<Rightarrow> queue_call \<Rightarrow> 's \<times> queue_answer) \<Rightarrow> 's \<Rightarrow> queue_call list \<Rightarrow>
    's \<times> queue_answer list" where
  "run_calls call s [] = (s, [])"
| "run_calls call s (c # cs) =
     (let (s', a) = call s c; (s'', as) = run_calls call s' cs in (s'', a # as))"

locale byte_queue =
  fixes wf :: "'q \<Rightarrow> bool"
    and contents :: "'q \<Rightarrow> u8 list"
    and room :: "'q \<Rightarrow> nat"
    and try_add :: "'q \<Rightarrow> u8 \<Rightarrow> 'q \<times> bool"
    and try_remove :: "'q \<Rightarrow> 'q \<times> u8 option"
    and try_peek :: "'q \<Rightarrow> u8 option"
    and flush :: "'q \<Rightarrow> 'q"
  assumes bounded: "wf q \<Longrightarrow> length (contents q) \<le> room q"
    and add_full: "wf q \<Longrightarrow> length (contents q) = room q \<Longrightarrow> try_add q c = (q, False)"
    and add_ok: "wf q \<Longrightarrow> length (contents q) \<noteq> room q \<Longrightarrow>
      \<exists>q'. try_add q c = (q', True) \<and> wf q' \<and> contents q' = contents q @ [c] \<and> room q' = room q"
    and remove_empty: "wf q \<Longrightarrow> contents q = [] \<Longrightarrow> try_remove q = (q, None)"
    and remove_ok: "wf q \<Longrightarrow> contents q = c # cs \<Longrightarrow>
      \<exists>q'. try_remove q = (q', Some c) \<and> wf q' \<and> contents q' = cs \<and> room q' = room q"
    and peek: "wf q \<Longrightarrow> try_peek q = (case contents q of [] \<Rightarrow> None | c # cs \<Rightarrow> Some c)"
    and flush: "wf q \<Longrightarrow> wf (flush q) \<and> contents (flush q) = [] \<and> room (flush q) = room q"
begin

lemma drain:
  "wf q \<Longrightarrow> \<exists>q'. drain_loop try_remove n q = (q', take n (contents q)) \<and> wf q' \<and>
     contents q' = drop n (contents q) \<and> room q' = room q"
proof (induction n arbitrary: q)
  case 0
  then show ?case
    by simp
next
  case (Suc n)
  show ?case
  proof (cases "contents q")
    case Nil
    then show ?thesis
      using Suc.prems by (simp add: remove_empty)
  next
    case (Cons c cs)
    then obtain q1 where "try_remove q = (q1, Some c)" "wf q1" "contents q1 = cs" "room q1 = room q"
      using remove_ok [OF Suc.prems Cons] by blast
    then show ?thesis
      using Suc.IH [of q1] Cons by auto
  qed
qed

lemma offer:
  "wf q \<Longrightarrow> wf (offer_loop try_add q cs) \<and>
     contents (offer_loop try_add q cs) = contents q @ take (room q - length (contents q)) cs \<and>
     room (offer_loop try_add q cs) = room q"
proof (induction cs arbitrary: q)
  case Nil
  then show ?case
    by simp
next
  case (Cons c cs)
  show ?case
  proof (cases "length (contents q) = room q")
    case True
    then show ?thesis
      using Cons add_full [of q c] by simp
  next
    case False
    then obtain q1 where q1: "try_add q c = (q1, True)" "wf q1" "contents q1 = contents q @ [c]"
        "room q1 = room q"
      using add_ok [OF Cons.prems] by blast
    then show ?thesis
      using Cons.IH [of q1] bounded [OF Cons.prems] False by (simp add: take_Cons')
  qed
qed

lemma call_step:
  assumes "wf q"
  shows "let (q', a) = perform_call try_add try_remove try_peek flush q call
    in wf q' \<and> room q' = room q \<and> (contents q', a) = fifo_call (room q) (contents q) call"
proof (cases call)
  case (Add c)
  then show ?thesis
    using assms bounded [OF assms] add_full [OF assms, of c] add_ok [OF assms, of c]
    by (cases "length (contents q) = room q") auto
next
  case Remove
  then show ?thesis
    using assms remove_empty [OF assms] remove_ok [OF assms]
    by (cases "contents q") fastforce+
qed (use assms peek flush in auto)

theorem run_calls_fifo:
  assumes "wf q"
  shows "let (q', as) = run_calls (perform_call try_add try_remove try_peek flush) q calls
    in wf q' \<and> room q' = room q \<and>
      (contents q', as) = run_calls (fifo_call (room q)) (contents q) calls"
  using assms
proof (induction calls arbitrary: q)
  case Nil
  then show ?case
    by simp
next
  case (Cons call calls)
  obtain q1 a where q1: "perform_call try_add try_remove try_peek flush q call = (q1, a)"
    by fastforce
  then have "wf q1" "room q1 = room q" "fifo_call (room q) (contents q) call = (contents q1, a)"
    using call_step [OF Cons.prems, of call] by auto
  then show ?case
    using Cons.IH [of q1] q1 by (auto simp: Let_def split: prod.splits)
qed

end

interpretation spsc: byte_queue queue_wf queue_list queue_room spsc_queue_try_add
  spsc_queue_try_remove spsc_queue_try_peek spsc_queue_flush
  by unfold_locales
    (auto simp: queue_list_bounded try_add_full try_add_ok try_remove_empty try_remove_ok
      try_peek_list flush_ok)

text \<open>C23: From its initialisation on, the ring buffer answers every sequence of add, remove, peek
  and flush calls exactly as a FIFO list bounded by its capacity less one, whatever the
  capacity (a power of two) and wherever head and tail have wrapped around.\<close>

theorem spsc_queue_is_fifo:
  assumes "spsc_queue_init buf capacity = Some q" and "unat capacity \<le> length buf"
  shows "snd (run_calls (perform_call spsc_queue_try_add spsc_queue_try_remove
      spsc_queue_try_peek spsc_queue_flush) q calls)
    = snd (run_calls (fifo_call (unat capacity - 1)) [] calls)"
proof -
  have "queue_wf q" "queue_list q = []" "queue_room q = unat capacity - 1"
    using init_ok [OF assms] by simp_all
  then show ?thesis
    using spsc.run_calls_fifo [of q calls]
    by (simp add: Let_def case_prod_unfold prod_eq_iff del: One_nat_def)
qed

lemma spsc_queue_is_fifo_witness:
  "snd (run_calls (perform_call spsc_queue_try_add spsc_queue_try_remove
      spsc_queue_try_peek spsc_queue_flush)
      \<lparr>sq_head = 0, sq_tail = 0, sq_buffer = [0, 0], sq_capacity = 2, sq_mask = 1\<rparr>
      [Add 7, Add 8, Remove, Add 9, Peek])
    = [Added True, Added False, Byte (Some 7), Added True, Byte (Some 9)]"
  by (subst spsc_queue_is_fifo [of "[0, 0]" 2]) (simp_all add: spsc_queue_init_def)

subsection \<open>Blocking calls\<close>

lemma add_blocking_full:
  assumes "spsc_queue_add_blocking q d = Some q'"
  shows "\<not> (queue_wf q \<and> length (queue_list q) = queue_room q)"
proof (rule spsc_queue_add_blocking.raw_induct
    [where P = "\<lambda>q d r. \<not> (queue_wf q \<and> length (queue_list q) = queue_room q)", OF _ assms])
  fix add q d r
  assume IH: "\<And>q d r. add q d = Some r \<Longrightarrow> \<not> (queue_wf q \<and> length (queue_list q) = queue_room q)"
    and step: "(let (q', ok) = spsc_queue_try_add q d in if ok then Some q' else add q' d) = Some r"
  show "\<not> (queue_wf q \<and> length (queue_list q) = queue_room q)"
    using IH [of q d r] step try_add_full [of q d] by auto
qed

lemma remove_blocking_empty:
  assumes "spsc_queue_remove_blocking q = Some r"
  shows "\<not> (queue_wf q \<and> queue_list q = [])"
proof (rule spsc_queue_remove_blocking.raw_induct
    [where P = "\<lambda>q r. \<not> (queue_wf q \<and> queue_list q = [])", OF _ assms])
  fix rem q r
  assume IH: "\<And>q r. rem q = Some r \<Longrightarrow> \<not> (queue_wf q \<and> queue_list q = [])"
    and step: "(case spsc_queue_try_remove q of
        (q', None) \<Rightarrow> rem q' | (q', Some c) \<Rightarrow> Some (q', c)) = Some r"
  show "\<not> (queue_wf q \<and> queue_list q = [])"
    using IH [of q r] step try_remove_empty [of q] by auto
qed

lemma peek_blocking_empty:
  assumes "spsc_queue_peek_blocking q = Some r"
  shows "\<not> (queue_wf q \<and> queue_list q = [])"
proof (rule spsc_queue_peek_blocking.raw_induct
    [where P = "\<lambda>q r. \<not> (queue_wf q \<and> queue_list q = [])", OF _ assms])
  fix pk q r
  assume IH: "\<And>q r. pk q = Some r \<Longrightarrow> \<not> (queue_wf q \<and> queue_list q = [])"
    and step: "(case spsc_queue_try_peek q of None \<Rightarrow> pk q | Some c \<Rightarrow> Some c) = Some r"
  show "\<not> (queue_wf q \<and> queue_list q = [])"
    using IH [of q r] step try_peek_list [of q] by auto
qed

text \<open>C25: A blocking call returns exactly when the non-blocking one would succeed at once, with
  the same effect; on a queue nobody else serves, adding to a full queue and reading from an
  empty one never return.\<close>

theorem blocking_calls_return:
  assumes "queue_wf q"
  shows "spsc_queue_add_blocking q d =
      (if spsc_queue_is_full q then None else Some (fst (spsc_queue_try_add q d)))
    \<and> spsc_queue_remove_blocking q =
      (if spsc_queue_is_empty q then None
       else Some (apsnd the (spsc_queue_try_remove q)))
    \<and> spsc_queue_peek_blocking q =
      (if spsc_queue_is_empty q then None else Some (the (spsc_queue_try_peek q)))"
proof (intro conjI)
  show "spsc_queue_add_blocking q d =
      (if spsc_queue_is_full q then None else Some (fst (spsc_queue_try_add q d)))"
  proof (cases "length (queue_list q) = queue_room q")
    case True
    then show ?thesis
      using add_blocking_full [of q d] assms by (cases "spsc_queue_add_blocking q d") (auto simp: is_full_list)
  next
    case False
    then show ?thesis
      using try_add_ok [OF assms False, of d] assms
      by (auto simp: is_full_list spsc_queue_add_blocking.simps [of q d])
  qed
  show "spsc_queue_remove_blocking q =
      (if spsc_queue_is_empty q then None else Some (apsnd the (spsc_queue_try_remove q)))"
  proof (cases "queue_list q")
    case Nil
    then show ?thesis
      using remove_blocking_empty [of q] assms
      by (cases "spsc_queue_remove_blocking q") (auto simp: is_empty_list)
  next
    case (Cons c cs)
    then show ?thesis
      using try_remove_ok [OF assms Cons] assms
      by (auto simp: is_empty_list spsc_queue_remove_blocking.simps [of q])
  qed
  show "spsc_queue_peek_blocking q =
      (if spsc_queue_is_empty q then None else Some (the (spsc_queue_try_peek q)))"
  proof (cases "queue_list q")
    case Nil
    then show ?thesis
      using peek_blocking_empty [of q] assms
      by (cases "spsc_queue_peek_blocking q") (auto simp: is_empty_list)
  next
    case (Cons c cs)
    then show ?thesis
      using assms
      by (auto simp: is_empty_list try_peek_list spsc_queue_peek_blocking.simps [of q])
  qed
qed

lemma blocking_calls_return_witness:
  "spsc_queue_add_blocking
     \<lparr>sq_head = 1, sq_tail = 0, sq_buffer = [7, 0], sq_capacity = 2, sq_mask = 1\<rparr> 8 = None"
  by (subst conjunct1 [OF blocking_calls_return])
    (simp_all add: queue_wf_def spsc_queue_is_full_def)

end
