(* ===== verification/Spsc_Cores.thy ===== *)
theory Spsc_Cores
  imports Spsc_Queue
begin

text \<open>
  The byte queue with both cores at work (\<open>src/src/spsc_queue.h\<close>): each read and each
  write of a shared location is a step of its own, and the steps of the two cores interleave
  in any order. The local variables of a call in progress are the state of its core.
  Recorded beside the shared memory are the bytes whose add has been published and, for
  every byte taken off the queue, whether it was delivered or flushed.
\<close>

text \<open>\<open>spsc_queue_try_add\<close> after it has read the head, found room, written the byte.\<close>

datatype producer =
    P_idle
  | P_next u8 u32 u32
  | P_room u8 u32 u32
  | P_written u8 u32 u32

text \<open>
  \<open>spsc_queue_try_remove\<close> after it has read the tail, found a byte, read the byte;
  \<open>spsc_queue_try_peek\<close> after it has read the tail, found a byte; \<open>spsc_queue_flush\<close>
  after its snapshot of the head.
\<close>

datatype consumer =
    C_idle
  | C_tail u32
  | C_some u32
  | C_read u32 u8
  | C_peek u32
  | C_peek_some u32
  | C_flush u32

record cores =
  shared :: spsc_queue
  core_p :: producer
  core_c :: consumer
  produced :: "u8 list"
  consumed :: "(u8 \<times> bool) list"

inductive producer_step :: "cores \<Rightarrow> cores \<Rightarrow> bool" where
  add_load: "core_p s = P_idle \<Longrightarrow> h = sq_head (shared s) \<Longrightarrow>
    producer_step s (s\<lparr>core_p := P_next d h ((h + 1) AND sq_mask (shared s))\<rparr>)"
| add_full: "core_p s = P_next d h nx \<Longrightarrow> nx = sq_tail (shared s) \<Longrightarrow>
    producer_step s (s\<lparr>core_p := P_idle\<rparr>)"
| add_room: "core_p s = P_next d h nx \<Longrightarrow> nx \<noteq> sq_tail (shared s) \<Longrightarrow>
    producer_step s (s\<lparr>core_p := P_room d h nx\<rparr>)"
| add_write: "core_p s = P_room d h nx \<Longrightarrow>
    producer_step s (s\<lparr>core_p := P_written d h nx,
      shared := (shared s)\<lparr>sq_buffer := (sq_buffer (shared s))[unat h := d]\<rparr>\<rparr>)"
| add_publish: "core_p s = P_written d h nx \<Longrightarrow>
    producer_step s (s\<lparr>core_p := P_idle, shared := (shared s)\<lparr>sq_head := nx\<rparr>,
      produced := produced s @ [d]\<rparr>)"

inductive consumer_step :: "cores \<Rightarrow> cores \<Rightarrow> bool" where
  remove_load: "core_c s = C_idle \<Longrightarrow> t = sq_tail (shared s) \<Longrightarrow>
    consumer_step s (s\<lparr>core_c := C_tail t\<rparr>)"
| remove_empty: "core_c s = C_tail t \<Longrightarrow> t = sq_head (shared s) \<Longrightarrow>
    consumer_step s (s\<lparr>core_c := C_idle\<rparr>)"
| remove_some: "core_c s = C_tail t \<Longrightarrow> t \<noteq> sq_head (shared s) \<Longrightarrow>
    consumer_step s (s\<lparr>core_c := C_some t\<rparr>)"
| remove_read: "core_c s = C_some t \<Longrightarrow> d = sq_buffer (shared s) ! unat t \<Longrightarrow>
    consumer_step s (s\<lparr>core_c := C_read t d\<rparr>)"
| remove_publish: "core_c s = C_read t d \<Longrightarrow>
    consumer_step s (s\<lparr>core_c := C_idle, consumed := consumed s @ [(d, True)],
      shared := (shared s)\<lparr>sq_tail := (t + 1) AND sq_mask (shared s)\<rparr>\<rparr>)"
| peek_load: "core_c s = C_idle \<Longrightarrow> t = sq_tail (shared s) \<Longrightarrow>
    consumer_step s (s\<lparr>core_c := C_peek t\<rparr>)"
| peek_empty: "core_c s = C_peek t \<Longrightarrow> t = sq_head (shared s) \<Longrightarrow>
    consumer_step s (s\<lparr>core_c := C_idle\<rparr>)"
| peek_some: "core_c s = C_peek t \<Longrightarrow> t \<noteq> sq_head (shared s) \<Longrightarrow>
    consumer_step s (s\<lparr>core_c := C_peek_some t\<rparr>)"
| peek_read: "core_c s = C_peek_some t \<Longrightarrow>
    consumer_step s (s\<lparr>core_c := C_idle\<rparr>)"
| flush_load: "core_c s = C_idle \<Longrightarrow> h = sq_head (shared s) \<Longrightarrow>
    consumer_step s (s\<lparr>core_c := C_flush h\<rparr>)"
| flush_publish: "core_c s = C_flush h \<Longrightarrow>
    n = distance (unat (sq_capacity (shared s))) (unat (sq_tail (shared s))) (unat h) \<Longrightarrow>
    consumer_step s (s\<lparr>core_c := C_idle, shared := (shared s)\<lparr>sq_tail := h\<rparr>,
      consumed := consumed s @ map (\<lambda>c. (c, False)) (take n (queue_list (shared s)))\<rparr>)"

inductive_cases producer_stepE: "producer_step s s'"
inductive_cases consumer_stepE: "consumer_step s s'"

definition cores_init :: "spsc_queue \<Rightarrow> cores" where
  "cores_init q = \<lparr>shared = q, core_p = P_idle, core_c = C_idle, produced = [], consumed = []\<rparr>"

inductive cores_reach :: "spsc_queue \<Rightarrow> cores \<Rightarrow> bool" for q where
  reach_init: "cores_reach q (cores_init q)"
| reach_producer: "cores_reach q s \<Longrightarrow> producer_step s s' \<Longrightarrow> cores_reach q s'"
| reach_consumer: "cores_reach q s \<Longrightarrow> consumer_step s s' \<Longrightarrow> cores_reach q s'"

subsection \<open>Single accesses\<close>

lemma view_len:
  assumes "queue_view q cap t n"
  shows "length (queue_list q) = n" "queue_room q = cap - 1" "0 < cap"
  using assms by (simp_all add: queue_view_list queue_room_def, auto simp: queue_view_def)

lemma write_ok:
  assumes "queue_wf q" "length (queue_list q) < queue_room q"
  shows "queue_wf (q\<lparr>sq_buffer := (sq_buffer q)[unat (sq_head q) := d]\<rparr>)"
    and "queue_list (q\<lparr>sq_buffer := (sq_buffer q)[unat (sq_head q) := d]\<rparr>) = queue_list q"
    and "(sq_buffer q)[unat (sq_head q) := d] ! unat (sq_head q) = d"
proof -
  obtain cap t n where view: "queue_view q cap t n"
    using queue_wf_view [OF assms(1)] .
  have n: "Suc n < cap"
    using assms(2) view_len [OF view] by simp
  have "cap \<le> length (sq_buffer q)"
    using queue_view_cap [OF view] by metis
  then have head: "unat (sq_head q) = (t + n) mod cap" "(t + n) mod cap < length (sq_buffer q)"
    using view n by (auto simp: queue_view_def intro: less_le_trans [OF mod_less_divisor])
  note view' = queue_view_buffer [OF view, of "unat (sq_head q)" d]
  show "queue_wf (q\<lparr>sq_buffer := (sq_buffer q)[unat (sq_head q) := d]\<rparr>)"
    by (rule queue_view_wf [OF view'])
  show "queue_list (q\<lparr>sq_buffer := (sq_buffer q)[unat (sq_head q) := d]\<rparr>) = queue_list q"
    using n queue_view_list [OF view'] queue_view_list [OF view] by (simp add: head ring_update)
  show "(sq_buffer q)[unat (sq_head q) := d] ! unat (sq_head q) = d"
    using head by simp
qed

lemma publish_ok:
  assumes "queue_wf q" "length (queue_list q) < queue_room q"
  shows "queue_wf (q\<lparr>sq_head := (sq_head q + 1) AND sq_mask q\<rparr>)"
    and "queue_list (q\<lparr>sq_head := (sq_head q + 1) AND sq_mask q\<rparr>) =
      queue_list q @ [sq_buffer q ! unat (sq_head q)]"
proof -
  obtain cap t n where view: "queue_view q cap t n"
    using queue_wf_view [OF assms(1)] .
  have n: "Suc n < cap"
    using assms(2) view_len [OF view] by simp
  note view' = queue_view_head [OF view n]
  show "queue_wf (q\<lparr>sq_head := (sq_head q + 1) AND sq_mask q\<rparr>)"
    by (rule queue_view_wf [OF view'])
  show "queue_list (q\<lparr>sq_head := (sq_head q + 1) AND sq_mask q\<rparr>) =
      queue_list q @ [sq_buffer q ! unat (sq_head q)]"
    using view by (simp add: queue_view_list [OF view'] queue_view_list [OF view] ring_Suc queue_view_def)
qed

lemma skip_ok:
  assumes "queue_wf q" "k \<le> length (queue_list q)"
    "unat h = (unat (sq_tail q) + k) mod unat (sq_capacity q)"
  shows "queue_wf (q\<lparr>sq_tail := h\<rparr>)" and "queue_list (q\<lparr>sq_tail := h\<rparr>) = drop k (queue_list q)"
    and "distance (unat (sq_capacity q)) (unat (sq_tail q)) (unat h) = k"
proof -
  obtain cap t n where view: "queue_view q cap t n"
    using queue_wf_view [OF assms(1)] .
  have k: "k \<le> n" "unat h = (t + k) mod cap"
    using assms view view_len [OF view] by (simp_all add: queue_view_def)
  note view' = queue_view_tail [OF view k]
  show "queue_wf (q\<lparr>sq_tail := h\<rparr>)"
    by (rule queue_view_wf [OF view'])
  show "queue_list (q\<lparr>sq_tail := h\<rparr>) = drop k (queue_list q)"
    by (simp add: queue_view_list [OF view'] queue_view_list [OF view] drop_ring)
  show "distance (unat (sq_capacity q)) (unat (sq_tail q)) (unat h) = k"
    using view k by (auto simp: queue_view_def intro: distance_unique)
qed

lemma head_pos:
  assumes "queue_wf q"
  shows "unat (sq_head q) = (unat (sq_tail q) + length (queue_list q)) mod unat (sq_capacity q)"
proof -
  obtain cap t n where view: "queue_view q cap t n"
    using queue_wf_view [OF assms] .
  then show ?thesis
    using view_len [OF view] by (simp add: queue_view_def)
qed

lemma front:
  assumes "queue_wf q" "queue_list q \<noteq> []"
  shows "sq_buffer q ! unat (sq_tail q) = hd (queue_list q)"
  using try_peek_list [OF assms(1)] assms is_empty_list [OF assms(1)]
  by (auto simp: spsc_queue_try_peek_def spsc_queue_is_empty_def neq_Nil_conv split: if_splits)

lemma advance_ok:
  assumes "queue_wf q" "queue_list q \<noteq> []"
  shows "queue_wf (q\<lparr>sq_tail := (sq_tail q + 1) AND sq_mask q\<rparr>)"
    and "queue_list (q\<lparr>sq_tail := (sq_tail q + 1) AND sq_mask q\<rparr>) = tl (queue_list q)"
proof -
  obtain cap t n where view: "queue_view q cap t n"
    using queue_wf_view [OF assms(1)] .
  have pos: "unat ((sq_tail q + 1) AND sq_mask q) = (unat (sq_tail q) + 1) mod unat (sq_capacity q)"
    using view by (simp add: unat_masked(1) [OF view] queue_view_def)
  have "1 \<le> length (queue_list q)"
    using assms(2) by (simp add: Suc_le_eq)
  from skip_ok(1,2) [OF assms(1) this pos]
  show "queue_wf (q\<lparr>sq_tail := (sq_tail q + 1) AND sq_mask q\<rparr>)"
    and "queue_list (q\<lparr>sq_tail := (sq_tail q + 1) AND sq_mask q\<rparr>) = tl (queue_list q)"
    by (simp_all add: drop_Suc)
qed

lemma room_left:
  assumes "queue_wf q" "(sq_head q + 1) AND sq_mask q \<noteq> sq_tail q"
  shows "length (queue_list q) < queue_room q"
  using is_full_list [OF assms(1)] queue_list_bounded [OF assms(1)] assms(2)
  by (simp add: spsc_queue_is_full_def)

lemma nonempty:
  assumes "queue_wf q" "sq_tail q \<noteq> sq_head q"
  shows "queue_list q \<noteq> []"
  using is_empty_list [OF assms(1)] assms(2) by (auto simp: spsc_queue_is_empty_def)
subsection \<open>The invariant\<close>

definition producer_inv :: "spsc_queue \<Rightarrow> producer \<Rightarrow> bool" where
  "producer_inv q p =
     (case p of
        P_idle \<Rightarrow> True
      | P_next d h nx \<Rightarrow> h = sq_head q \<and> nx = (sq_head q + 1) AND sq_mask q
      | P_room d h nx \<Rightarrow> h = sq_head q \<and> nx = (sq_head q + 1) AND sq_mask q \<and>
          length (queue_list q) < queue_room q
      | P_written d h nx \<Rightarrow> h = sq_head q \<and> nx = (sq_head q + 1) AND sq_mask q \<and>
          length (queue_list q) < queue_room q \<and> sq_buffer q ! unat h = d)"

definition consumer_inv :: "spsc_queue \<Rightarrow> consumer \<Rightarrow> bool" where
  "consumer_inv q c =
     (case c of
        C_idle \<Rightarrow> True
      | C_tail t \<Rightarrow> t = sq_tail q
      | C_some t \<Rightarrow> t = sq_tail q \<and> queue_list q \<noteq> []
      | C_read t d \<Rightarrow> t = sq_tail q \<and> queue_list q \<noteq> [] \<and> hd (queue_list q) = d
      | C_peek t \<Rightarrow> t = sq_tail q
      | C_peek_some t \<Rightarrow> t = sq_tail q \<and> queue_list q \<noteq> []
      | C_flush h \<Rightarrow> \<exists>k\<le>length (queue_list q).
          unat h = (unat (sq_tail q) + k) mod unat (sq_capacity q))"

definition cores_inv :: "cores \<Rightarrow> bool" where
  "cores_inv s \<longleftrightarrow> queue_wf (shared s) \<and>
     produced s = map fst (consumed s) @ queue_list (shared s) \<and>
     producer_inv (shared s) (core_p s) \<and> consumer_inv (shared s) (core_c s)"

lemma cores_inv_init: "queue_wf q \<Longrightarrow> queue_list q = [] \<Longrightarrow> cores_inv (cores_init q)"
  by (simp add: cores_inv_def cores_init_def producer_inv_def consumer_inv_def)

lemma consumer_inv_write:
  assumes "queue_wf q" "length (queue_list q) < queue_room q" "consumer_inv q c"
  shows "consumer_inv (q\<lparr>sq_buffer := (sq_buffer q)[unat (sq_head q) := d]\<rparr>) c"
  using assms(3) by (simp add: consumer_inv_def write_ok(2) [OF assms(1,2)] split: consumer.splits)

lemma consumer_inv_publish:
  assumes "queue_wf q" "length (queue_list q) < queue_room q" "consumer_inv q c"
  shows "consumer_inv (q\<lparr>sq_head := (sq_head q + 1) AND sq_mask q\<rparr>) c"
  using assms(3)
  by (auto simp: consumer_inv_def publish_ok(2) [OF assms(1,2)] split: consumer.splits
      intro: le_SucI)

lemma producer_inv_skip:
  assumes "producer_inv q p" "length (queue_list (q\<lparr>sq_tail := t\<rparr>)) \<le> length (queue_list q)"
  shows "producer_inv (q\<lparr>sq_tail := t\<rparr>) p"
  using assms by (auto simp: producer_inv_def queue_room_def split: producer.splits)

lemma producer_preserves:
  assumes "cores_inv s" "producer_step s s'"
  shows "cores_inv s'"
  using assms(2)
proof cases
  case (add_load h d)
  then show ?thesis
    using assms(1) by (simp add: cores_inv_def producer_inv_def)
next
  case (add_full d h nx)
  then show ?thesis
    using assms(1) by (simp add: cores_inv_def producer_inv_def)
next
  case (add_room d h nx)
  then show ?thesis
    using assms(1) room_left [of "shared s"] by (simp add: cores_inv_def producer_inv_def)
next
  case (add_write d h nx)
  then have inv: "queue_wf (shared s)" "length (queue_list (shared s)) < queue_room (shared s)"
    "h = sq_head (shared s)" "nx = (sq_head (shared s) + 1) AND sq_mask (shared s)"
    "consumer_inv (shared s) (core_c s)"
    using assms(1) by (simp_all add: cores_inv_def producer_inv_def)
  show ?thesis
    using assms(1) inv(2) add_write(1) write_ok [OF inv(1,2), of d] consumer_inv_write [OF inv(1,2,5), of d]
    by (simp add: cores_inv_def producer_inv_def add_write(2) inv(3,4) queue_room_def)
next
  case (add_publish d h nx)
  then have inv: "queue_wf (shared s)" "length (queue_list (shared s)) < queue_room (shared s)"
    "h = sq_head (shared s)" "nx = (sq_head (shared s) + 1) AND sq_mask (shared s)"
    "consumer_inv (shared s) (core_c s)" "sq_buffer (shared s) ! unat (sq_head (shared s)) = d"
    using assms(1) by (auto simp: cores_inv_def producer_inv_def)
  show ?thesis
    using assms(1) publish_ok [OF inv(1,2)] consumer_inv_publish [OF inv(1,2,5)]
    by (simp add: cores_inv_def producer_inv_def add_publish(1) inv(4,6))
qed

lemma consumer_preserves:
  assumes "cores_inv s" "consumer_step s s'"
  shows "cores_inv s'"
  using assms(2)
proof cases
  case (remove_some t)
  then show ?thesis
    using assms(1) nonempty [of "shared s"] by (simp add: cores_inv_def consumer_inv_def)
next
  case (remove_read t d)
  then show ?thesis
    using assms(1) front [of "shared s"] by (simp add: cores_inv_def consumer_inv_def)
next
  case (remove_publish t d)
  then have inv: "queue_wf (shared s)" "queue_list (shared s) \<noteq> []" "t = sq_tail (shared s)"
      "hd (queue_list (shared s)) = d" "producer_inv (shared s) (core_p s)"
    using assms(1) by (simp_all add: cores_inv_def consumer_inv_def)
  have "d # tl (queue_list (shared s)) = queue_list (shared s)"
    using inv(2,4) by (metis list.collapse)
  then show ?thesis
    using assms(1) advance_ok [OF inv(1,2)] producer_inv_skip [OF inv(5)]
    by (simp add: cores_inv_def consumer_inv_def remove_publish(1) inv(3))
next
  case (peek_some t)
  then show ?thesis
    using assms(1) nonempty [of "shared s"] by (simp add: cores_inv_def consumer_inv_def)
next
  case (flush_load h)
  then show ?thesis
    using assms(1) head_pos [of "shared s"] by (auto simp: cores_inv_def consumer_inv_def)
next
  case (flush_publish h n)
  then obtain k where inv: "queue_wf (shared s)" "k \<le> length (queue_list (shared s))"
      "unat h = (unat (sq_tail (shared s)) + k) mod unat (sq_capacity (shared s))"
      "producer_inv (shared s) (core_p s)"
    using assms(1) by (auto simp: cores_inv_def consumer_inv_def)
  show ?thesis
    using assms(1) skip_ok [OF inv(1-3)] producer_inv_skip [OF inv(4), of h]
    by (simp add: cores_inv_def consumer_inv_def flush_publish(1,3) comp_def)
qed (use assms(1) in \<open>simp_all add: cores_inv_def consumer_inv_def\<close>)

lemma cores_reach_inv:
  "cores_reach q s \<Longrightarrow> queue_wf q \<Longrightarrow> queue_list q = [] \<Longrightarrow> cores_inv s"
  by (induction rule: cores_reach.induct)
    (auto intro: cores_inv_init producer_preserves consumer_preserves)

lemma producer_frame:
  "producer_step s s' \<Longrightarrow> core_c s' = core_c s \<and> consumed s' = consumed s \<and>
    sq_capacity (shared s') = sq_capacity (shared s)"
  by (erule producer_stepE) auto

lemma consumer_frame:
  "consumer_step s s' \<Longrightarrow> core_p s' = core_p s \<and> produced s' = produced s \<and>
    sq_capacity (shared s') = sq_capacity (shared s)"
  by (erule consumer_stepE) auto

lemma cores_reach_capacity: "cores_reach q s \<Longrightarrow> sq_capacity (shared s) = sq_capacity q"
  by (induction rule: cores_reach.induct)
    (auto simp: cores_init_def dest!: producer_frame consumer_frame)

lemma cores_reach_init:
  assumes "spsc_queue_init buf capacity = Some q" "unat capacity \<le> length buf" "cores_reach q s"
  shows "cores_inv s" "queue_room (shared s) = unat capacity - 1"
proof -
  have q: "queue_wf q" "queue_list q = []" "queue_room q = unat capacity - 1"
    using init_ok [OF assms(1,2)] by simp_all
  show "cores_inv s"
    by (rule cores_reach_inv [OF assms(3) q(1,2)])
  show "queue_room (shared s) = unat capacity - 1"
    using cores_reach_capacity [OF assms(3)] q(3) by (simp add: queue_room_def)
qed

text \<open>C19: However the accesses of the two cores to the shared memory interleave, the bytes that
  were added are, in order, those already removed or flushed followed by those waiting in
  the queue: none is lost, repeated or reordered, and never more than the capacity less one
  are waiting.\<close>

theorem two_cores_fifo:
  assumes "spsc_queue_init buf capacity = Some q" and "unat capacity \<le> length buf"
    and "cores_reach q s"
  shows "produced s = map fst (consumed s) @ queue_list (shared s) \<and>
    length (queue_list (shared s)) \<le> unat capacity - 1"
  using cores_reach_init [OF assms] queue_list_bounded [of "shared s"]
  by (simp add: cores_inv_def)

text \<open>C20: The two cores never touch the same byte of the buffer at the same time: the slot the
  producer is about to write is not the one the consumer is about to read, and both lie
  inside of the buffer.\<close>

theorem two_cores_disjoint:
  assumes "spsc_queue_init buf capacity = Some q" and "unat capacity \<le> length buf"
    and "cores_reach q s"
    and "core_p s = P_room d h nx" and "core_c s = C_some t \<or> core_c s = C_peek_some t"
  shows "h \<noteq> t \<and> unat h < length (sq_buffer (shared s)) \<and> unat t < length (sq_buffer (shared s))"
proof -
  have inv: "queue_wf (shared s)" "h = sq_head (shared s)" "t = sq_tail (shared s)"
      "queue_list (shared s) \<noteq> []"
    using cores_reach_init(1) [OF assms(1-3)] assms(4,5)
    by (auto simp: cores_inv_def producer_inv_def consumer_inv_def)
  then have "h \<noteq> t"
    using is_empty_list [OF inv(1)] by (auto simp: spsc_queue_is_empty_def)
  then show ?thesis
    using inv(1-3) by (auto simp: queue_wf_def word_less_nat_alt)
qed

subsection \<open>Progress\<close>

text \<open>\<open>n\<close> steps of one core, with any number of steps of the other in between.\<close>

inductive interleaved :: "('s \<Rightarrow> 's \<Rightarrow> bool) \<Rightarrow> ('s \<Rightarrow> 's \<Rightarrow> bool) \<Rightarrow> nat \<Rightarrow> 's \<Rightarrow> 's \<Rightarrow> bool"
  for mine other where
  inter_0: "interleaved mine other 0 s s"
| inter_mine: "interleaved mine other n s s' \<Longrightarrow> mine s' s'' \<Longrightarrow> interleaved mine other (Suc n) s s''"
| inter_other: "interleaved mine other n s s' \<Longrightarrow> other s' s'' \<Longrightarrow> interleaved mine other n s s''"

lemma interleaved_stages:
  assumes "interleaved mine other n s s'" "P 0 s" "n \<le> m"
    and "\<And>k s s'. P k s \<Longrightarrow> k < m \<Longrightarrow> mine s s' \<Longrightarrow> P (Suc k) s'"
    and "\<And>k s s'. P k s \<Longrightarrow> other s s' \<Longrightarrow> P k s'"
  shows "P n s'"
  using assms(1,2,3)
  by (induction rule: interleaved.induct) (auto intro: assms(4,5))

definition add_stage :: "u8 \<Rightarrow> u8 list \<Rightarrow> nat \<Rightarrow> cores \<Rightarrow> bool" where
  "add_stage d bs k s \<longleftrightarrow> cores_inv s \<and>
     (if k = 0 then (\<exists>h nx. core_p s = P_next d h nx) \<and> produced s = bs \<and>
        length (queue_list (shared s)) < queue_room (shared s)
      else if k = 1 then (\<exists>h nx. core_p s = P_room d h nx) \<and> produced s = bs
      else if k = 2 then (\<exists>h nx. core_p s = P_written d h nx) \<and> produced s = bs
      else core_p s = P_idle \<and> produced s = bs @ [d])"

definition remove_stage :: "u8 \<Rightarrow> (u8 \<times> bool) list \<Rightarrow> nat \<Rightarrow> cores \<Rightarrow> bool" where
  "remove_stage d bs k s \<longleftrightarrow> cores_inv s \<and>
     (if k = 3 then core_c s = C_idle \<and> consumed s = bs @ [(d, True)]
      else consumed s = bs \<and> queue_list (shared s) \<noteq> [] \<and> hd (queue_list (shared s)) = d \<and>
       (if k = 0 then \<exists>t. core_c s = C_tail t
        else if k = 1 then \<exists>t. core_c s = C_some t
        else \<exists>t. core_c s = C_read t d))"

lemma consumer_log: "consumer_step s s' \<Longrightarrow> \<exists>xs. consumed s' = consumed s @ xs"
  by (erule consumer_stepE) auto

lemma producer_log: "producer_step s s' \<Longrightarrow> \<exists>ds. produced s' = produced s @ ds"
  by (erule producer_stepE) auto

lemma consumer_shrinks:
  assumes "cores_inv s" "consumer_step s s'"
  shows "length (queue_list (shared s')) \<le> length (queue_list (shared s))"
proof -
  obtain xs where "consumed s' = consumed s @ xs"
    using consumer_log [OF assms(2)] ..
  then have "map fst (consumed s) @ queue_list (shared s) =
      (map fst (consumed s) @ map fst xs) @ queue_list (shared s')"
    using consumer_preserves [OF assms] assms(1) consumer_frame [OF assms(2)]
    by (simp add: cores_inv_def)
  then show ?thesis
    by simp
qed

lemma producer_appends:
  assumes "cores_inv s" "producer_step s s'"
  shows "\<exists>ds. queue_list (shared s') = queue_list (shared s) @ ds"
proof -
  obtain ds where "produced s' = produced s @ ds"
    using producer_log [OF assms(2)] ..
  then have "map fst (consumed s) @ queue_list (shared s') =
      map fst (consumed s) @ queue_list (shared s) @ ds"
    using producer_preserves [OF assms] assms(1) producer_frame [OF assms(2)]
    by (simp add: cores_inv_def)
  then show ?thesis
    by simp
qed

lemma add_stage_producer:
  assumes "add_stage d bs k s" "k < 3" "producer_step s s'"
  shows "add_stage d bs (Suc k) s'"
proof -
  have inv: "cores_inv s" "cores_inv s'"
    using assms producer_preserves by (auto simp: add_stage_def)
  have wf: "queue_wf (shared s)" "producer_inv (shared s) (core_p s)"
    using inv(1) by (simp_all add: cores_inv_def)
  have room: "length (queue_list (shared s)) < queue_room (shared s) \<Longrightarrow>
      (sq_head (shared s) + 1) AND sq_mask (shared s) \<noteq> sq_tail (shared s)"
    using is_full_list [OF wf(1)] by (auto simp: spsc_queue_is_full_def)
  consider "k = 0" | "k = 1" | "k = 2"
    using assms(2) by linarith
  then show ?thesis
    using assms(1,3) inv(2) wf(2) room
    by cases (auto simp: add_stage_def producer_inv_def elim!: producer_stepE)
qed

lemma add_stage_consumer:
  assumes "add_stage d bs k s" "consumer_step s s'"
  shows "add_stage d bs k s'"
proof -
  have inv: "cores_inv s" "cores_inv s'"
    using assms consumer_preserves by (auto simp: add_stage_def)
  have "queue_room (shared s') = queue_room (shared s)"
    using consumer_frame [OF assms(2)] by (simp add: queue_room_def)
  then show ?thesis
    using assms(1) inv(2) consumer_frame [OF assms(2)] consumer_shrinks [OF inv(1) assms(2)]
    by (auto simp: add_stage_def)
qed

lemma remove_stage_consumer:
  assumes "remove_stage d bs k s" "k < 3" "consumer_step s s'"
  shows "remove_stage d bs (Suc k) s'"
proof -
  have inv: "cores_inv s" "cores_inv s'"
    using assms consumer_preserves by (auto simp: remove_stage_def)
  have wf: "queue_wf (shared s)" "consumer_inv (shared s) (core_c s)"
    using inv(1) by (simp_all add: cores_inv_def)
  have some: "queue_list (shared s) \<noteq> [] \<Longrightarrow> sq_tail (shared s) \<noteq> sq_head (shared s)"
    using is_empty_list [OF wf(1)] by (auto simp: spsc_queue_is_empty_def)
  consider "k = 0" | "k = 1" | "k = 2"
    using assms(2) by linarith
  then show ?thesis
    using assms(1,3) inv(2) wf some front [OF wf(1)]
    by cases (auto simp: remove_stage_def consumer_inv_def elim!: consumer_stepE)
qed

lemma remove_stage_producer:
  assumes "remove_stage d bs k s" "producer_step s s'"
  shows "remove_stage d bs k s'"
proof -
  have inv: "cores_inv s" "cores_inv s'"
    using assms producer_preserves by (auto simp: remove_stage_def)
  obtain ds where "queue_list (shared s') = queue_list (shared s) @ ds"
    using producer_appends [OF inv(1) assms(2)] ..
  then show ?thesis
    using assms(1) inv(2) producer_frame [OF assms(2)] by (auto simp: remove_stage_def)
qed

lemma producer_can_step: "\<exists>s'. producer_step s s'"
proof (cases "core_p s")
  case P_idle
  then show ?thesis
    using add_load by blast
next
  case (P_next d h nx)
  then show ?thesis
    using add_full add_room by blast
next
  case (P_room d h nx)
  then show ?thesis
    using add_write by blast
next
  case (P_written d h nx)
  then show ?thesis
    using add_publish by blast
qed

lemma consumer_can_step: "\<exists>s'. consumer_step s s'"
proof (cases "core_c s")
  case C_idle
  then show ?thesis
    using remove_load by blast
next
  case (C_tail t)
  then show ?thesis
    using remove_empty remove_some by blast
next
  case (C_some t)
  then show ?thesis
    using remove_read by blast
next
  case (C_read t d)
  then show ?thesis
    using remove_publish by blast
next
  case (C_peek t)
  then show ?thesis
    using peek_empty peek_some by blast
next
  case (C_peek_some t)
  then show ?thesis
    using peek_read by blast
next
  case (C_flush h)
  then show ?thesis
    using flush_publish by blast
qed

text \<open>C22: Neither core ever waits for the other. An add that found the queue with room has
  published its byte after exactly three more steps of its own core, and a remove that found
  it non-empty has delivered the front byte after three more of its own, whatever the other
  core does meanwhile.\<close>

theorem calls_complete:
  assumes "spsc_queue_init buf capacity = Some q" and "unat capacity \<le> length buf"
    and "cores_reach q s"
  shows "(\<exists>s'. producer_step s s') \<and> (\<exists>s'. consumer_step s s') \<and>
    (core_p s = P_next d h nx \<longrightarrow> length (queue_list (shared s)) < unat capacity - 1 \<longrightarrow>
      interleaved producer_step consumer_step 3 s s' \<longrightarrow>
      core_p s' = P_idle \<and> produced s' = produced s @ [d]) \<and>
    (core_c s = C_tail t \<longrightarrow> queue_list (shared s) \<noteq> [] \<longrightarrow>
      interleaved consumer_step producer_step 3 s s' \<longrightarrow>
      core_c s' = C_idle \<and> consumed s' = consumed s @ [(hd (queue_list (shared s)), True)])"
proof (intro conjI impI producer_can_step consumer_can_step)
  note inv = cores_reach_init [OF assms]
  assume pre: "core_p s = P_next d h nx" "length (queue_list (shared s)) < unat capacity - 1"
    and run: "interleaved producer_step consumer_step 3 s s'"
  have "add_stage d (produced s) 3 s'"
    by (rule interleaved_stages [OF run])
      (use inv pre add_stage_producer add_stage_consumer in \<open>auto simp: add_stage_def [of _ _ 0]\<close>)
  then show "core_p s' = P_idle" "produced s' = produced s @ [d]"
    by (simp_all add: add_stage_def)
next
  note inv = cores_reach_init [OF assms]
  assume pre: "core_c s = C_tail t" "queue_list (shared s) \<noteq> []"
    and run: "interleaved consumer_step producer_step 3 s s'"
  have "remove_stage (hd (queue_list (shared s))) (consumed s) 3 s'"
    by (rule interleaved_stages [OF run])
      (use inv pre remove_stage_producer remove_stage_consumer in \<open>auto simp: remove_stage_def [of _ _ 0]\<close>)
  then show "core_c s' = C_idle" "consumed s' = consumed s @ [(hd (queue_list (shared s)), True)]"
    by (simp_all add: remove_stage_def)
qed

subsection \<open>A run\<close>

text \<open>A queue of four slots: one byte is added, a second add has found room, and a remove has
  found the first byte.\<close>

definition demo :: "u8 list \<Rightarrow> u32 \<Rightarrow> producer \<Rightarrow> consumer \<Rightarrow> u8 list \<Rightarrow> cores" where
  "demo buf h p c ds =
     \<lparr>shared = \<lparr>sq_head = h, sq_tail = 0, sq_buffer = buf, sq_capacity = 4, sq_mask = 3\<rparr>,
      core_p = p, core_c = c, produced = ds, consumed = []\<rparr>"

lemma demo_init: "spsc_queue_init [0, 0, 0, 0] 4 = Some (shared (demo [0, 0, 0, 0] 0 P_idle C_idle []))"
  by (simp add: spsc_queue_init_def demo_def)

lemma demo_start:
  "cores_reach (shared (demo [0, 0, 0, 0] 0 P_idle C_idle [])) (demo [0, 0, 0, 0] 0 (P_next 7 0 1) C_idle [])"
proof (rule reach_producer [OF reach_init])
  show "producer_step (cores_init (shared (demo [0, 0, 0, 0] 0 P_idle C_idle [])))
      (demo [0, 0, 0, 0] 0 (P_next 7 0 1) C_idle [])"
    using add_load [of "demo [0, 0, 0, 0] 0 P_idle C_idle []" 0 7] by (simp add: demo_def cores_init_def)
qed

lemma demo_add:
  "interleaved producer_step consumer_step 3 (demo [0, 0, 0, 0] 0 (P_next 7 0 1) C_idle [])
     (demo [7, 0, 0, 0] 1 P_idle C_idle [7])"
proof -
  have a: "producer_step (demo [0, 0, 0, 0] 0 (P_next 7 0 1) C_idle []) (demo [0, 0, 0, 0] 0 (P_room 7 0 1) C_idle [])"
    using add_room [of "demo [0, 0, 0, 0] 0 (P_next 7 0 1) C_idle []" 7 0 1] by (simp add: demo_def)
  have b: "producer_step (demo [0, 0, 0, 0] 0 (P_room 7 0 1) C_idle [])
      (demo [7, 0, 0, 0] 0 (P_written 7 0 1) C_idle [])"
    using add_write [of "demo [0, 0, 0, 0] 0 (P_room 7 0 1) C_idle []" 7 0 1] by (simp add: demo_def)
  have c: "producer_step (demo [7, 0, 0, 0] 0 (P_written 7 0 1) C_idle []) (demo [7, 0, 0, 0] 1 P_idle C_idle [7])"
    using add_publish [of "demo [7, 0, 0, 0] 0 (P_written 7 0 1) C_idle []" 7 0 1] by (simp add: demo_def)
  show ?thesis
    using inter_mine [where mine = producer_step and other = consumer_step, OF _ c]
      inter_mine [where mine = producer_step and other = consumer_step, OF _ b]
      inter_mine [where mine = producer_step and other = consumer_step, OF inter_0 a]
    by (simp add: numeral_3_eq_3)
qed

lemma cores_reach_interleaved:
  "interleaved producer_step consumer_step n s s' \<Longrightarrow> cores_reach q s \<Longrightarrow> cores_reach q s'"
  by (induction rule: interleaved.induct) (auto intro: reach_producer reach_consumer)

lemma demo_race:
  "cores_reach (shared (demo [0, 0, 0, 0] 0 P_idle C_idle [])) (demo [7, 0, 0, 0] 1 (P_room 8 1 2) (C_some 0) [7])"
proof -
  have r: "cores_reach (shared (demo [0, 0, 0, 0] 0 P_idle C_idle [])) (demo [7, 0, 0, 0] 1 P_idle C_idle [7])"
    by (rule cores_reach_interleaved [OF demo_add demo_start])
  have a: "producer_step (demo [7, 0, 0, 0] 1 P_idle C_idle [7]) (demo [7, 0, 0, 0] 1 (P_next 8 1 2) C_idle [7])"
    using add_load [of "demo [7, 0, 0, 0] 1 P_idle C_idle [7]" 1 8] by (simp add: demo_def)
  have b: "producer_step (demo [7, 0, 0, 0] 1 (P_next 8 1 2) C_idle [7]) (demo [7, 0, 0, 0] 1 (P_room 8 1 2) C_idle [7])"
    using add_room [of "demo [7, 0, 0, 0] 1 (P_next 8 1 2) C_idle [7]" 8 1 2] by (simp add: demo_def)
  have c: "consumer_step (demo [7, 0, 0, 0] 1 (P_room 8 1 2) C_idle [7]) (demo [7, 0, 0, 0] 1 (P_room 8 1 2) (C_tail 0) [7])"
    using remove_load [of "demo [7, 0, 0, 0] 1 (P_room 8 1 2) C_idle [7]" 0] by (simp add: demo_def)
  have d: "consumer_step (demo [7, 0, 0, 0] 1 (P_room 8 1 2) (C_tail 0) [7]) (demo [7, 0, 0, 0] 1 (P_room 8 1 2) (C_some 0) [7])"
    using remove_some [of "demo [7, 0, 0, 0] 1 (P_room 8 1 2) (C_tail 0) [7]" 0] by (simp add: demo_def)
  show ?thesis
    by (rule reach_consumer [OF reach_consumer [OF reach_producer [OF reach_producer [OF r a] b] c] d])
qed

lemma two_cores_fifo_witness:
  "produced (demo [7, 0, 0, 0] 1 (P_room 8 1 2) (C_some 0) [7]) =
     [] @ queue_list (shared (demo [7, 0, 0, 0] 1 (P_room 8 1 2) (C_some 0) [7]))"
  using two_cores_fifo [OF demo_init _ demo_race] by (simp add: demo_def)

lemma two_cores_disjoint_witness:
  "(1 :: u32) \<noteq> 0 \<and> unat (1 :: u32) < length (sq_buffer (shared (demo [7, 0, 0, 0] 1 (P_room 8 1 2) (C_some 0) [7])))"
  using two_cores_disjoint [OF demo_init _ demo_race, of 8 1 2 0] by (simp add: demo_def)

lemma calls_complete_witness:
  "produced (demo [7, 0, 0, 0] 1 P_idle C_idle [7]) = produced (demo [0, 0, 0, 0] 0 (P_next 7 0 1) C_idle []) @ [7]"
  using calls_complete [OF demo_init _ demo_start, of 7 0 1 "demo [7, 0, 0, 0] 1 P_idle C_idle [7]"] demo_add
  by (simp add: demo_def queue_list_def distance_def)

end
