(* ===== verification/Usb_Queues.thy ===== *)
theory Usb_Queues
  imports Spsc_Queue
begin

text \<open>
  The terminal's receive and transmit paths (\<open>src/src/usb_rx.c\<close>, \<open>src/src/usb_tx.c\<close>): four
  byte queues, the receivers that fill them from the UART and from RTT, and the service
  that drains the transmit queue to USB and the UART and slips the toolbar text in between.

  The calls of TinyUSB and of the UART driver are events in \<open>us_events\<close>; what they report
  (space in the endpoint, a host connected, received bytes) are arguments. A function that
  stops on an assertion, indexes outside of the toolbar buffer or spins for ever does not
  return \<open>Done\<close>.
\<close>

datatype usb_event =
    Cdc_write u8 "u8 list"
  | Cdc_flush u8
  | Tud_task
  | Uart_putc u8

datatype 'a outcome = Done 'a | Assert_failed | Out_of_bounds | Spins

record usb =
  us_core :: u32
  us_initialized :: bool
  us_usb_enable :: bool
  us_uart_enable :: bool
  us_rts :: bool
  rx_fifo :: spsc_queue
  bin_rx_fifo :: spsc_queue
  last_character :: int
  tx_fifo :: spsc_queue
  bin_tx_fifo :: spsc_queue
  tx_tb_buf :: "u8 list"
  tx_tb_buf_cnt :: u16
  tx_tb_buf_index :: u16
  tx_tb_buf_ready :: bool
  tx_state :: u8
  delay_count :: u8
  us_events :: "usb_event list"

definition bp_assert_core0 :: "usb \<Rightarrow> bool" where
  "bp_assert_core0 w \<longleftrightarrow> us_core w = 0 \<or> \<not> us_initialized w"

definition bp_assert_core1 :: "usb \<Rightarrow> bool" where
  "bp_assert_core1 w \<longleftrightarrow> us_core w = 1 \<or> \<not> us_initialized w"

definition usb_emit :: "usb_event list \<Rightarrow> usb \<Rightarrow> usb" where
  "usb_emit es w = w\<lparr>us_events := us_events w @ es\<rparr>"

definition on_core0 :: "usb \<Rightarrow> 'a outcome \<Rightarrow> 'a outcome" where
  "on_core0 w r = (if bp_assert_core0 w then r else Assert_failed)"

definition on_core1 :: "usb \<Rightarrow> 'a outcome \<Rightarrow> 'a outcome" where
  "on_core1 w r = (if bp_assert_core1 w then r else Assert_failed)"

definition spinning :: "'a option \<Rightarrow> ('a \<Rightarrow> 'b) \<Rightarrow> 'b outcome" where
  "spinning r f = (case r of None \<Rightarrow> Spins | Some x \<Rightarrow> Done (f x))"

subsection \<open>Receiving\<close>

definition rx_buffer_length :: u32 where
  "rx_buffer_length = push_bit 7 1"

definition rx_fifo_init :: "usb \<Rightarrow> usb option" where
  "rx_fifo_init w =
     (case (spsc_queue_init (replicate 128 0) rx_buffer_length,
            spsc_queue_init (replicate 128 0) rx_buffer_length) of
        (Some q, Some q') \<Rightarrow> Some (w\<lparr>rx_fifo := q, bin_rx_fifo := q'\<rparr>)
      | _ \<Rightarrow> None)"

text \<open>The bytes are those the UART has received when the interrupt is taken.\<close>

definition rx_uart_irq_handler :: "u8 list \<Rightarrow> usb \<Rightarrow> usb outcome" where
  "rx_uart_irq_handler cs w =
     on_core1 w (Done (w\<lparr>rx_fifo := offer_loop spsc_queue_try_add (rx_fifo w) cs\<rparr>))"

text \<open>\<open>SEGGER_RTT_GetKey\<close> takes the next waiting key and is -1 without one.\<close>

definition rtt_get_key :: "u8 list \<Rightarrow> int \<times> u8 list" where
  "rtt_get_key keys = (case keys of [] \<Rightarrow> (-1, []) | k # ks \<Rightarrow> (uint k, ks))"

function rtt_loop :: "spsc_queue \<Rightarrow> int \<Rightarrow> u8 list \<Rightarrow> spsc_queue \<times> int \<times> u8 list" where
  "rtt_loop q current keys =
     (if current \<ge> 0
      then (let (q', ok) = spsc_queue_try_add q (word_of_int current)
            in if \<not> ok then (q', current, keys)
               else let (next_key, keys') = rtt_get_key keys in rtt_loop q' next_key keys')
      else (q, -1, keys))"
  by pat_completeness auto

termination
  by (relation "measure (\<lambda>(q, c, ks). length ks + (if c \<ge> 0 then 1 else 0))")
    (auto simp: rtt_get_key_def split: list.splits)

definition rx_from_rtt_terminal :: "u8 list \<Rightarrow> usb \<Rightarrow> (usb \<times> u8 list) outcome" where
  "rx_from_rtt_terminal keys w =
     on_core1 w
      (let (current, keys1) =
             (if last_character w \<ge> 0 then (last_character w, keys) else rtt_get_key keys);
           (q, lc, keys2) = rtt_loop (rx_fifo w) current keys1
       in Done (w\<lparr>rx_fifo := q, last_character := lc\<rparr>, keys2))"

definition tud_cdc_line_state_cb :: "bool \<Rightarrow> usb \<Rightarrow> usb" where
  "tud_cdc_line_state_cb rts w = w\<lparr>us_rts := rts\<rparr>"

definition rx_fifo_add :: "u8 \<Rightarrow> usb \<Rightarrow> usb outcome" where
  "rx_fifo_add c w =
     on_core1 w (spinning (spsc_queue_add_blocking (rx_fifo w) c) (\<lambda>q. w\<lparr>rx_fifo := q\<rparr>))"

definition rx_fifo_get_blocking :: "usb \<Rightarrow> (usb \<times> u8) outcome" where
  "rx_fifo_get_blocking w =
     on_core0 w (spinning (spsc_queue_remove_blocking (rx_fifo w)) (\<lambda>(q, c). (w\<lparr>rx_fifo := q\<rparr>, c)))"

definition rx_fifo_try_get :: "usb \<Rightarrow> usb \<times> u8 option" where
  "rx_fifo_try_get w = (let (q, c) = spsc_queue_try_remove (rx_fifo w) in (w\<lparr>rx_fifo := q\<rparr>, c))"

definition rx_fifo_peek_blocking :: "usb \<Rightarrow> u8 outcome" where
  "rx_fifo_peek_blocking w = on_core0 w (spinning (spsc_queue_peek_blocking (rx_fifo w)) id)"

definition rx_fifo_try_peek :: "usb \<Rightarrow> u8 option" where
  "rx_fifo_try_peek w = spsc_queue_try_peek (rx_fifo w)"

definition bin_rx_fifo_add :: "u8 \<Rightarrow> usb \<Rightarrow> usb outcome" where
  "bin_rx_fifo_add c w =
     on_core1 w (spinning (spsc_queue_add_blocking (bin_rx_fifo w) c) (\<lambda>q. w\<lparr>bin_rx_fifo := q\<rparr>))"

definition bin_rx_fifo_get_blocking :: "usb \<Rightarrow> (usb \<times> u8) outcome" where
  "bin_rx_fifo_get_blocking w =
     on_core0 w
      (spinning (spsc_queue_remove_blocking (bin_rx_fifo w)) (\<lambda>(q, c). (w\<lparr>bin_rx_fifo := q\<rparr>, c)))"

definition bin_rx_fifo_available_bytes :: "usb \<Rightarrow> u16" where
  "bin_rx_fifo_available_bytes w = ucast (spsc_queue_level (bin_rx_fifo w))"

definition bin_rx_fifo_try_get :: "usb \<Rightarrow> usb \<times> u8 option" where
  "bin_rx_fifo_try_get w =
     (let (q, c) = spsc_queue_try_remove (bin_rx_fifo w) in (w\<lparr>bin_rx_fifo := q\<rparr>, c))"

subsection \<open>Transmitting\<close>

definition tx_buffer_length :: u32 where
  "tx_buffer_length = push_bit 10 1"

definition tx_fifo_init :: "usb \<Rightarrow> usb option" where
  "tx_fifo_init w =
     (case (spsc_queue_init (replicate 1024 0) tx_buffer_length,
            spsc_queue_init (replicate 1024 0) tx_buffer_length) of
        (Some q, Some q') \<Rightarrow> Some (w\<lparr>tx_fifo := q, bin_tx_fifo := q'\<rparr>)
      | _ \<Rightarrow> None)"

definition tx_tb_start :: "u32 \<Rightarrow> usb \<Rightarrow> usb outcome" where
  "tx_tb_start len w =
     on_core1 w
      (if len \<le> 1024 then Done (w\<lparr>tx_tb_buf_cnt := ucast len, tx_tb_buf_ready := True\<rparr>)
       else Assert_failed)"

abbreviation (input) TX_IDLE :: u8 where "TX_IDLE \<equiv> 0"
abbreviation (input) TX_TOOLBAR_DELAY :: u8 where "TX_TOOLBAR_DELAY \<equiv> 1"
abbreviation (input) TX_TOOLBAR_TX :: u8 where "TX_TOOLBAR_TX \<equiv> 2"

text \<open>Sending one block: USB first, then byte by byte to the UART.\<close>

definition terminal_write :: "u8 list \<Rightarrow> usb \<Rightarrow> usb" where
  "terminal_write cs w =
     (let w1 = (if us_usb_enable w
                then usb_emit ([Cdc_write 0 cs, Cdc_flush 0] @ (if us_uart_enable w then [Tud_task] else [])) w
                else w)
      in if us_uart_enable w then usb_emit (map Uart_putc cs) w1 else w1)"

definition service_idle :: "bool \<Rightarrow> usb \<Rightarrow> usb" where
  "service_idle connected w =
     (if spsc_queue_level (tx_fifo w) \<noteq> 0
      then if \<not> connected then w\<lparr>tx_fifo := spsc_queue_flush (tx_fifo w)\<rparr>
           else let (q, cs) = drain_loop spsc_queue_try_remove 64 (tx_fifo w)
                in terminal_write cs (w\<lparr>tx_fifo := q\<rparr>)
      else if tx_tb_buf_ready w then w\<lparr>tx_state := TX_TOOLBAR_DELAY, tx_tb_buf_index := 0\<rparr>
      else w)"

definition service_delay :: "usb \<Rightarrow> usb" where
  "service_delay w =
     (if spsc_queue_level (tx_fifo w) \<noteq> 0 then w\<lparr>delay_count := 0, tx_state := TX_IDLE\<rparr>
      else let w1 = w\<lparr>delay_count := delay_count w + 1\<rparr>
           in if delay_count w1 \<ge> 3 then w1\<lparr>delay_count := 0, tx_state := TX_TOOLBAR_TX\<rparr> else w1)"

definition service_toolbar :: "usb \<Rightarrow> usb outcome" where
  "service_toolbar w =
     (let remaining = tx_tb_buf_cnt w - tx_tb_buf_index w;
          chunk = (if remaining > 64 then 64 else ucast remaining) :: u8;
          i = unat (tx_tb_buf_index w); n = unat chunk
      in if i + n > length (tx_tb_buf w) then Out_of_bounds
         else let w1 = terminal_write (take n (drop i (tx_tb_buf w))) w;
                  w2 = w1\<lparr>tx_tb_buf_index := tx_tb_buf_index w1 + ucast chunk\<rparr>
              in Done (if tx_tb_buf_index w2 \<ge> tx_tb_buf_cnt w2
                       then w2\<lparr>tx_tb_buf_ready := False, tx_state := TX_IDLE\<rparr> else w2))"

text \<open>\<open>available\<close> is \<open>tud_cdc_n_write_available(0)\<close>, \<open>connected\<close> is \<open>tud_cdc_n_connected(0)\<close>.\<close>

definition tx_fifo_service :: "u32 \<Rightarrow> bool \<Rightarrow> usb \<Rightarrow> usb outcome" where
  "tx_fifo_service available connected w =
     on_core1 w
      (if us_usb_enable w \<and> available < 64 then Done w
       else if tx_state w = TX_IDLE then Done (service_idle connected w)
       else if tx_state w = TX_TOOLBAR_DELAY then Done (service_delay w)
       else if tx_state w = TX_TOOLBAR_TX then service_toolbar w
       else Done (terminal_write [] (w\<lparr>tx_state := TX_IDLE\<rparr>)))"

definition tx_fifo_put :: "u8 \<Rightarrow> usb \<Rightarrow> usb outcome" where
  "tx_fifo_put c w =
     on_core0 w (spinning (spsc_queue_add_blocking (tx_fifo w) c) (\<lambda>q. w\<lparr>tx_fifo := q\<rparr>))"

definition tx_fifo_try_put :: "u8 \<Rightarrow> usb \<Rightarrow> usb outcome" where
  "tx_fifo_try_put c w = on_core0 w (Done (w\<lparr>tx_fifo := fst (spsc_queue_try_add (tx_fifo w) c)\<rparr>))"

primrec write_loop :: "spsc_queue \<Rightarrow> u8 list \<Rightarrow> spsc_queue option" where
  "write_loop q [] = Some q"
| "write_loop q (c # cs) =
     (case spsc_queue_add_blocking q c of None \<Rightarrow> None | Some q' \<Rightarrow> write_loop q' cs)"

definition tx_fifo_write :: "u8 list \<Rightarrow> usb \<Rightarrow> usb outcome" where
  "tx_fifo_write buf w = on_core0 w (spinning (write_loop (tx_fifo w) buf) (\<lambda>q. w\<lparr>tx_fifo := q\<rparr>))"

text \<open>Waiting for a queue that only the other core drains.\<close>

definition tx_fifo_wait_drain :: "usb \<Rightarrow> usb outcome" where
  "tx_fifo_wait_drain w = on_core0 w (if spsc_queue_is_empty (tx_fifo w) then Done w else Spins)"

definition bin_tx_fifo_put :: "u8 \<Rightarrow> usb \<Rightarrow> usb outcome" where
  "bin_tx_fifo_put c w =
     on_core0 w (spinning (spsc_queue_add_blocking (bin_tx_fifo w) c) (\<lambda>q. w\<lparr>bin_tx_fifo := q\<rparr>))"

definition bin_tx_fifo_try_put :: "u8 \<Rightarrow> usb \<Rightarrow> (usb \<times> bool) outcome" where
  "bin_tx_fifo_try_put c w =
     on_core0 w
      (let (q, ok) = spsc_queue_try_add (bin_tx_fifo w) c in Done (w\<lparr>bin_tx_fifo := q\<rparr>, ok))"

definition bin_tx_fifo_try_get :: "usb \<Rightarrow> (usb \<times> u8 option) outcome" where
  "bin_tx_fifo_try_get w =
     on_core1 w
      (let (q, c) = spsc_queue_try_remove (bin_tx_fifo w) in Done (w\<lparr>bin_tx_fifo := q\<rparr>, c))"

definition bin_tx_fifo_service :: "u32 \<Rightarrow> usb \<Rightarrow> usb outcome" where
  "bin_tx_fifo_service available w =
     on_core1 w
      (if available < 64 then Done w
       else let (q, cs) = (if spsc_queue_level (bin_tx_fifo w) \<noteq> 0
                           then drain_loop spsc_queue_try_remove 64 (bin_tx_fifo w)
                           else (bin_tx_fifo w, []))
            in Done (usb_emit [Cdc_write 1 cs, Cdc_flush 1] (w\<lparr>bin_tx_fifo := q\<rparr>)))"

definition bin_tx_not_empty :: "usb \<Rightarrow> bool" where
  "bin_tx_not_empty w \<longleftrightarrow> \<not> spsc_queue_is_empty (bin_tx_fifo w)"

end
