(* ===== verification/Usb_Stream.thy ===== *)
theory Usb_Stream
  imports Usb_Queues
begin

text \<open>
  What the terminal's receive and transmit paths guarantee: no key from RTT is lost, no
  access is out of bounds, and the bytes on the wire are the printed bytes in order with
  each toolbar rendering in one piece between them.
\<close>

subsection \<open>Receiving\<close>

definition rtt_pending :: "usb \<Rightarrow> u8 list" where
  "rtt_pending w = (if last_character w \<ge> 0 then [word_of_int (last_character w)] else [])"

lemma rtt_loop_keeps:
  assumes "queue_wf q" "current < 0 \<Longrightarrow> current = -1"
    "rtt_loop q current keys = (q', lc, keys')"
  shows "queue_wf q' \<and> queue_room q' = queue_room q \<and>
    queue_list q' @ (if lc \<ge> 0 then [word_of_int lc] else []) @ keys' =
      queue_list q @ (if current \<ge> 0 then [word_of_int current] else []) @ keys \<and>
    (lc \<ge> 0 \<longrightarrow> length (queue_list q') = queue_room q') \<and> (current \<ge> 0 \<longrightarrow> lc < 0 \<longrightarrow> keys' = [])"
  using assms
proof (induction q current keys arbitrary: q' lc keys' rule: rtt_loop.induct)
  case (1 q current keys)
  show ?case
  proof (cases "current \<ge> 0")
    case False
    then show ?thesis
      using 1(2,4) by simp
  next
    case True
    show ?thesis
    proof (cases "length (queue_list q) = queue_room q")
      case full: True
      then show ?thesis
        using 1(2,4) True by (simp add: try_add_full)
    next
      case False
      obtain q1 where q1: "spsc_queue_try_add q (word_of_int current) = (q1, True)" "queue_wf q1"
          "queue_list q1 = queue_list q @ [word_of_int current]" "queue_room q1 = queue_room q"
        using try_add_ok [OF 1(2) False, of "word_of_int current"] by auto
      obtain k ks where k: "rtt_get_key keys = (k, ks)"
        by fastforce
      then have key: "k < 0 \<Longrightarrow> k = -1"
        by (auto simp: rtt_get_key_def split: list.splits)
      have loop: "rtt_loop q1 k ks = (q', lc, keys')"
        using 1(4) True by (simp add: q1(1) k)
      show ?thesis
        using 1(1) [OF True q1(1) [symmetric] refl _ k [symmetric] refl q1(2) key loop] True q1(3,4) k
          loop
        by (auto simp: rtt_get_key_def split: list.splits)
    qed
  qed
qed
text \<open>Receiving from RTT never loses a key: whatever did not fit the queue is kept, one
  byte in the static variable and the rest with RTT, and the next call goes on where this one
  stopped. The call only leaves keys behind when the queue is full.\<close>

theorem rx_from_rtt_keeps_keys:
  assumes "queue_wf (rx_fifo w)" and "bp_assert_core1 w"
  shows "\<exists>w' keys'. rx_from_rtt_terminal keys w = Done (w', keys') \<and> queue_wf (rx_fifo w') \<and>
    queue_list (rx_fifo w') @ rtt_pending w' @ keys' = queue_list (rx_fifo w) @ rtt_pending w @ keys \<and>
    (rtt_pending w' @ keys' = [] \<or> length (queue_list (rx_fifo w')) = queue_room (rx_fifo w'))"
proof -
  define start where "start = (if last_character w \<ge> 0 then (last_character w, keys) else rtt_get_key keys)"
  obtain current keys1 where start1: "start = (current, keys1)"
    by fastforce
  obtain q lc keys2 where loop: "rtt_loop (rx_fifo w) current keys1 = (q, lc, keys2)"
    by (metis prod_cases3)
  have neg: "current < 0 \<Longrightarrow> current = -1"
    using start1 by (auto simp: start_def rtt_get_key_def split: list.splits if_splits)
  have all: "(if current \<ge> 0 then [word_of_int current] else []) @ keys1 = rtt_pending w @ keys"
    using start1 by (auto simp: start_def rtt_pending_def rtt_get_key_def split: list.splits if_splits)
  have nokey: "current < 0 \<Longrightarrow> keys1 = []"
    using start1 by (auto simp: start_def rtt_get_key_def split: list.splits if_splits)
  have r: "rx_from_rtt_terminal keys w = Done (w\<lparr>rx_fifo := q, last_character := lc\<rparr>, keys2)"
    using assms(2) start1 loop
    by (simp add: rx_from_rtt_terminal_def on_core1_def start_def [symmetric])
  have neg_keys: "current < 0 \<Longrightarrow> keys2 = [] \<and> lc < 0"
    using loop nokey by auto
  show ?thesis
    unfolding r using rtt_loop_keeps [OF assms(1) neg loop] all neg_keys
    by (auto simp: rtt_pending_def not_le)
qed

text \<open>The static variables at power-up, before the queues are set up.\<close>

definition spsc_reset :: spsc_queue where
  "spsc_reset = \<lparr>sq_head = 0, sq_tail = 0, sq_buffer = [], sq_capacity = 0, sq_mask = 0\<rparr>"

definition usb_reset :: "bool \<Rightarrow> bool \<Rightarrow> usb" where
  "usb_reset usb_on uart_on =
     \<lparr>us_core = 0, us_initialized = True, us_usb_enable = usb_on, us_uart_enable = uart_on,
      us_rts = False, rx_fifo = spsc_reset, bin_rx_fifo = spsc_reset, last_character = -1,
      tx_fifo = spsc_reset, bin_tx_fifo = spsc_reset, tx_tb_buf = replicate 1024 0,
      tx_tb_buf_cnt = 0, tx_tb_buf_index = 0, tx_tb_buf_ready = False, tx_state = 0,
      delay_count = 0, us_events = []\<rparr>"

definition rtt_demo :: usb where
  "rtt_demo = usb_reset True False
     \<lparr>us_core := 1, rx_fifo := \<lparr>sq_head = 0, sq_tail = 0, sq_buffer = [0, 0], sq_capacity = 2, sq_mask = 1\<rparr>\<rparr>"

lemma rx_from_rtt_keeps_keys_witness:
  "\<exists>w' keys'. rx_from_rtt_terminal [8, 9] rtt_demo = Done (w', keys') \<and>
     queue_list (rx_fifo w') @ rtt_pending w' @ keys' = [8, 9]"
proof -
  have "queue_wf (rx_fifo rtt_demo)" "bp_assert_core1 rtt_demo"
    by (simp_all add: rtt_demo_def queue_wf_def bp_assert_core1_def)
  moreover have "queue_list (rx_fifo rtt_demo) = []" "rtt_pending rtt_demo = []"
    by (simp_all add: rtt_demo_def queue_list_def distance_def rtt_pending_def usb_reset_def)
  ultimately show ?thesis
    using rx_from_rtt_keeps_keys [of rtt_demo "[8, 9]"] by auto
qed

subsection \<open>Transmitting\<close>

text \<open>The bytes on the USB terminal and on the UART.\<close>

fun usb_bytes :: "usb_event \<Rightarrow> u8 list" where
  "usb_bytes (Cdc_write itf cs) = (if itf = 0 then cs else [])"
| "usb_bytes _ = []"

fun uart_bytes :: "usb_event \<Rightarrow> u8 list" where
  "uart_bytes (Uart_putc c) = [c]"
| "uart_bytes _ = []"

definition usb_out :: "usb \<Rightarrow> u8 list" where
  "usb_out w = concat (map usb_bytes (us_events w))"

definition uart_out :: "usb \<Rightarrow> u8 list" where
  "uart_out w = concat (map uart_bytes (us_events w))"

lemma usb_bytes_putc [simp]: "concat (map (usb_bytes \<circ> Uart_putc) cs) = []"
  by (induction cs) auto

lemma uart_bytes_putc [simp]: "concat (map (uart_bytes \<circ> Uart_putc) cs) = cs"
  by (induction cs) auto

lemma terminal_write_out:
  "usb_out (terminal_write cs w) = usb_out w @ (if us_usb_enable w then cs else [])"
  "uart_out (terminal_write cs w) = uart_out w @ (if us_uart_enable w then cs else [])"
  by (simp_all add: terminal_write_def usb_emit_def usb_out_def uart_out_def Let_def)

lemma terminal_write_frame [frame]:
  "us_core (terminal_write cs w) = us_core w" "us_initialized (terminal_write cs w) = us_initialized w"
  "us_usb_enable (terminal_write cs w) = us_usb_enable w"
  "us_uart_enable (terminal_write cs w) = us_uart_enable w"
  "tx_fifo (terminal_write cs w) = tx_fifo w" "tx_tb_buf (terminal_write cs w) = tx_tb_buf w"
  "tx_tb_buf_cnt (terminal_write cs w) = tx_tb_buf_cnt w"
  "tx_tb_buf_index (terminal_write cs w) = tx_tb_buf_index w"
  "tx_tb_buf_ready (terminal_write cs w) = tx_tb_buf_ready w"
  "tx_state (terminal_write cs w) = tx_state w" "delay_count (terminal_write cs w) = delay_count w"
  by (simp_all add: terminal_write_def usb_emit_def Let_def)

text \<open>What the wire has carried, block by block.\<close>

datatype block = Sent "u8 list" | Discarded "u8 list" | Toolbar "u8 list"

fun taken :: "block \<Rightarrow> u8 list" where
  "taken (Sent cs) = cs"
| "taken (Discarded cs) = cs"
| "taken (Toolbar cs) = []"

fun shown :: "block \<Rightarrow> u8 list" where
  "shown (Sent cs) = cs"
| "shown (Discarded cs) = []"
| "shown (Toolbar cs) = cs"

fun rendering :: "block \<Rightarrow> u8 list list" where
  "rendering (Toolbar cs) = [cs]"
| "rendering _ = []"

text \<open>The toolbar bytes of the rendering in progress that are already on the wire, and the
  rendering that is waiting or in progress.\<close>

definition tb_partial :: "usb \<Rightarrow> u8 list" where
  "tb_partial w = (if tx_state w = 2 then take (unat (tx_tb_buf_index w)) (tx_tb_buf w) else [])"

definition tb_waiting :: "usb \<Rightarrow> u8 list list" where
  "tb_waiting w = (if tx_tb_buf_ready w then [take (unat (tx_tb_buf_cnt w)) (tx_tb_buf w)] else [])"

definition tx_wf :: "usb \<Rightarrow> bool" where
  "tx_wf w \<longleftrightarrow> queue_wf (tx_fifo w) \<and> length (tx_tb_buf w) = 1024 \<and> tx_tb_buf_cnt w \<le> 1024 \<and>
     tx_state w \<le> 2 \<and> delay_count w < 3 \<and> (tx_state w \<noteq> 0 \<longrightarrow> tx_tb_buf_ready w) \<and>
     (tx_state w = 1 \<longrightarrow> tx_tb_buf_index w = 0) \<and> (tx_state w \<noteq> 1 \<longrightarrow> delay_count w = 0) \<and>
     (tx_state w = 2 \<longrightarrow> tx_tb_buf_index w \<le> tx_tb_buf_cnt w)"

text \<open>The history of the transmitter: the bytes written by core 0, the toolbars rendered by
  core 1 while none is waiting, and the calls of the service, in any order. The log has one entry for
  each call of the service: whether a host was connected in that call, and the bytes that left the
  queue in it.\<close>

definition left_queue :: "usb \<Rightarrow> usb \<Rightarrow> u8 list" where
  "left_queue w w' = take (length (queue_list (tx_fifo w)) - length (queue_list (tx_fifo w'))) (queue_list (tx_fifo w))"

inductive tx_history :: "usb \<Rightarrow> u8 list \<Rightarrow> u8 list list \<Rightarrow> (bool \<times> u8 list) list \<Rightarrow> usb \<Rightarrow> bool" for w0 where
  tx_start: "tx_history w0 [] [] [] w0"
| tx_write: "tx_history w0 ps ts log w \<Longrightarrow> tx_fifo_write cs (w\<lparr>us_core := 0\<rparr>) = Done w' \<Longrightarrow>
    tx_history w0 (ps @ cs) ts log w'"
| tx_render: "tx_history w0 ps ts log w \<Longrightarrow> \<not> tx_tb_buf_ready w \<Longrightarrow> length buf = 1024 \<Longrightarrow>
    tx_tb_start len (w\<lparr>us_core := 1, tx_tb_buf := buf\<rparr>) = Done w' \<Longrightarrow>
    tx_history w0 ps (ts @ [take (unat len) buf]) log w'"
| tx_service: "tx_history w0 ps ts log w \<Longrightarrow>
    tx_fifo_service available connected (w\<lparr>us_core := 1\<rparr>) = Done w' \<Longrightarrow>
    tx_history w0 ps ts (log @ [(connected, left_queue w w')]) w'"

definition tx_reach :: "usb \<Rightarrow> u8 list \<Rightarrow> u8 list list \<Rightarrow> usb \<Rightarrow> bool" where
  "tx_reach w0 ps ts w \<longleftrightarrow> (\<exists>log. tx_history w0 ps ts log w)"

text \<open>The blocks of printed bytes, and the block that an entry of the log stands for.\<close>

fun printed :: "block \<Rightarrow> bool" where
  "printed (Toolbar cs) = False"
| "printed _ = True"

fun block_of :: "bool \<times> u8 list \<Rightarrow> block" where
  "block_of (connected, cs) = (if connected then Sent cs else Discarded cs)"

abbreviation served :: "bool \<Rightarrow> u8 list \<Rightarrow> block list" where
  "served connected cs \<equiv> map block_of (filter (\<lambda>e. snd e \<noteq> []) [(connected, cs)])"

definition tx_story :: "u8 list \<Rightarrow> u8 list list \<Rightarrow> usb \<Rightarrow> block list \<Rightarrow> bool" where
  "tx_story ps ts w bs \<longleftrightarrow>
     ps = concat (map taken bs) @ queue_list (tx_fifo w) \<and>
     ts = concat (map rendering bs) @ tb_waiting w \<and>
     (us_usb_enable w \<longrightarrow> usb_out w = concat (map shown bs) @ tb_partial w) \<and>
     (us_uart_enable w \<longrightarrow> uart_out w = concat (map shown bs) @ tb_partial w)"

lemma add_blocking_ok:
  assumes "queue_wf q" "spsc_queue_add_blocking q c = Some q'"
  shows "queue_wf q' \<and> queue_list q' = queue_list q @ [c] \<and> queue_room q' = queue_room q"
proof -
  have "length (queue_list q) \<noteq> queue_room q"
    using add_blocking_full [OF assms(2)] assms(1) by simp
  then obtain q1 where "spsc_queue_try_add q c = (q1, True)" "queue_wf q1"
      "queue_list q1 = queue_list q @ [c]" "queue_room q1 = queue_room q"
    using try_add_ok [OF assms(1)] by blast
  then show ?thesis
    using assms(2) by (simp add: spsc_queue_add_blocking.simps [of q c])
qed

lemma write_loop_ok:
  "queue_wf q \<Longrightarrow> write_loop q cs = Some q' \<Longrightarrow>
     queue_wf q' \<and> queue_list q' = queue_list q @ cs \<and> queue_room q' = queue_room q"
proof (induction cs arbitrary: q)
  case (Cons c cs)
  then obtain q1 where q1: "spsc_queue_add_blocking q c = Some q1" "write_loop q1 cs = Some q'"
    by (auto split: option.splits)
  show ?case
    using add_blocking_ok [OF Cons.prems(1) q1(1)] Cons.IH [OF _ q1(2)] by simp
qed simp

lemma tx_wf_core [simp]: "tx_wf (w\<lparr>us_core := k\<rparr>) = tx_wf w"
  by (simp add: tx_wf_def)

lemma left_queue_core [simp]: "left_queue (w\<lparr>us_core := k\<rparr>) w' = left_queue w w'"
  by (simp add: left_queue_def)

lemma left_queue_same: "tx_fifo w' = tx_fifo w \<Longrightarrow> left_queue w w' = []"
  by (simp add: left_queue_def)

lemma tx_story_core [simp]: "tx_story ps ts (w\<lparr>us_core := k\<rparr>) bs = tx_story ps ts w bs"
  by (simp add: tx_story_def tb_partial_def tb_waiting_def usb_out_def uart_out_def)

lemma idle_ok:
  assumes "tx_wf w" "tx_story ps ts w bs" "tx_state w = 0" "w' = service_idle connected w"
  shows "tx_wf w' \<and> (\<exists>bs'. tx_story ps ts w' bs' \<and> filter printed bs' = filter printed bs @ served connected (left_queue w w'))"
proof -
  have wf: "queue_wf (tx_fifo w)"
    using assms(1) by (simp add: tx_wf_def)
  show ?thesis
  proof (cases "spsc_queue_level (tx_fifo w) \<noteq> 0")
    case bytes: True
    then have some: "queue_list (tx_fifo w) \<noteq> []"
      using level_list [OF wf] by (auto simp: unat_eq_zero)
    show ?thesis
    proof (cases connected)
      case False
      then have w': "w' = w\<lparr>tx_fifo := spsc_queue_flush (tx_fifo w)\<rparr>"
        using assms(4) bytes by (simp add: service_idle_def)
      have "tx_story ps ts w' (bs @ [Discarded (queue_list (tx_fifo w))])"
        using assms(2,3) flush_ok [OF wf] unfolding w'
        by (simp add: tx_story_def tb_partial_def tb_waiting_def usb_out_def uart_out_def)
      moreover have "served connected (left_queue w w') = [Discarded (queue_list (tx_fifo w))]"
        using flush_ok [OF wf] some False unfolding w' by (simp add: left_queue_def)
      ultimately show ?thesis
        using assms(1) flush_ok [OF wf] unfolding w'
        by (intro conjI exI [of _ "bs @ [Discarded (queue_list (tx_fifo w))]"]) (auto simp: tx_wf_def)
    next
      case True
      obtain q where q: "drain_loop spsc_queue_try_remove 64 (tx_fifo w) = (q, take 64 (queue_list (tx_fifo w)))"
          "queue_wf q" "queue_list q = drop 64 (queue_list (tx_fifo w))"
        using spsc.drain [OF wf, of 64] by blast
      then have w': "w' = terminal_write (take 64 (queue_list (tx_fifo w))) (w\<lparr>tx_fifo := q\<rparr>)"
        using assms(4) bytes True by (simp add: service_idle_def)
      have "tx_story ps ts w' (bs @ [Sent (take 64 (queue_list (tx_fifo w)))])"
        using assms(2,3) q(3) unfolding w'
        by (simp add: tx_story_def tb_partial_def tb_waiting_def terminal_write_out frame)
          (simp add: usb_out_def uart_out_def)
      moreover have "served connected (left_queue w w') = [Sent (take 64 (queue_list (tx_fifo w)))]"
      proof -
        have taken: "take (length xs - length (drop 64 xs)) xs = take 64 xs" for xs :: "u8 list"
          by (cases "length xs \<le> 64") simp_all
        have "tx_fifo w' = q"
          by (simp add: w' frame)
        then have "left_queue w w' = take 64 (queue_list (tx_fifo w))"
          unfolding left_queue_def by (simp only: q(3) taken)
        then show ?thesis
          using some True by simp
      qed
      ultimately show ?thesis
        using assms(1) q(2) unfolding w'
        by (intro conjI exI [of _ "bs @ [Sent (take 64 (queue_list (tx_fifo w)))]"]) (auto simp: tx_wf_def frame)
    qed
  next
    case False
    show ?thesis
    proof (cases "tx_tb_buf_ready w")
      case True
      then have w': "w' = w\<lparr>tx_state := 1, tx_tb_buf_index := 0\<rparr>"
        using assms(4) False by (simp add: service_idle_def)
      have "tx_story ps ts w' bs"
        using assms(2,3) unfolding w'
        by (simp add: tx_story_def tb_partial_def tb_waiting_def usb_out_def uart_out_def)
      then show ?thesis
        using assms(1) True unfolding w'
        by (intro conjI exI [of _ bs]) (auto simp: tx_wf_def word_le_nat_alt left_queue_same)
    next
      case not_ready: False
      then have "w' = w"
        using assms(4) False by (simp add: service_idle_def)
      then show ?thesis
        using assms(1,2) by (intro conjI exI [of _ bs]) (simp_all add: left_queue_same)
    qed
  qed
qed

lemma u8_le_2: "(d :: u8) \<le> 2 \<Longrightarrow> d = 0 \<or> d = 1 \<or> d = 2"
  by (simp add: word_le_nat_alt word_unat_eq_iff) arith

lemma delay_ok:
  assumes "tx_wf w" "tx_story ps ts w bs" "tx_state w = 1" "w' = service_delay w"
  shows "tx_wf w' \<and> tx_story ps ts w' bs \<and> left_queue w w' = []"
proof -
  have ready: "tx_tb_buf_ready w" "tx_tb_buf_index w = 0"
    using assms(1,3) by (simp_all add: tx_wf_def)
  have "tx_story ps ts w' bs"
    using assms(2,3) ready unfolding assms(4) service_delay_def
    by (simp add: Let_def tx_story_def tb_partial_def tb_waiting_def usb_out_def uart_out_def)
  moreover have "tx_wf w'"
    using assms(1,3) ready unfolding assms(4) service_delay_def
    by (auto simp: Let_def tx_wf_def not_le)
  moreover have "left_queue w w' = []"
    unfolding assms(4) service_delay_def by (intro left_queue_same) (simp add: Let_def)
  ultimately show ?thesis
    by blast
qed

lemma toolbar_chunk:
  fixes cnt index :: u16
  assumes "index \<le> cnt"
  defines "chunk \<equiv> (if cnt - index > 64 then 64 else ucast (cnt - index)) :: u8"
  shows "unat index + unat chunk \<le> unat cnt" "unat chunk \<le> 64"
    "unat (index + ucast chunk) = unat index + unat chunk"
    "unat chunk = min 64 (unat cnt - unat index)"
proof -
  have diff: "unat (cnt - index) = unat cnt - unat index"
    using assms(1) by (simp add: unat_sub)
  show len: "unat chunk = min 64 (unat cnt - unat index)"
  proof (cases "cnt - index > 64")
    case True
    then show ?thesis
      using diff by (simp add: chunk_def word_less_nat_alt)
  next
    case False
    then have "unat cnt - unat index \<le> 64"
      using diff by (simp add: word_less_nat_alt)
    then show ?thesis
      using False diff
      by (simp add: chunk_def unsigned_ucast_eq take_bit_nat_eq_self)
  qed
  then show "unat index + unat chunk \<le> unat cnt" "unat chunk \<le> 64"
    using assms(1) by (simp_all add: word_le_nat_alt)
  then have sum: "unat index + unat chunk < 2 ^ 16"
    using unsigned_less [of cnt, where ?'a = nat] by simp
  moreover have small: "unat (ucast chunk :: u16) = unat chunk"
    using sum by (simp add: unsigned_ucast_eq take_bit_nat_eq_self)
  ultimately show "unat (index + ucast chunk) = unat index + unat chunk"
    by (simp add: unat_word_ariths small take_bit_nat_eq_self)
qed

lemma toolbar_ok:
  assumes "tx_wf w" "tx_story ps ts w bs" "tx_state w = 2"
  shows "\<exists>w'. service_toolbar w = Done w' \<and> tx_wf w' \<and> left_queue w w' = [] \<and>
    (\<exists>bs'. tx_story ps ts w' bs' \<and> filter printed bs' = filter printed bs)"
proof -
  define chunk :: u8 where "chunk = (if tx_tb_buf_cnt w - tx_tb_buf_index w > 64 then 64
    else ucast (tx_tb_buf_cnt w - tx_tb_buf_index w))"
  define i n where "i = unat (tx_tb_buf_index w)" and "n = unat chunk"
  have wf: "tx_tb_buf_index w \<le> tx_tb_buf_cnt w" "tx_tb_buf_cnt w \<le> 1024" "length (tx_tb_buf w) = 1024"
      "tx_tb_buf_ready w"
    using assms(1,3) by (simp_all add: tx_wf_def)
  note chunk = toolbar_chunk [OF wf(1), folded chunk_def, folded i_def n_def]
  have cnt: "unat (tx_tb_buf_cnt w) \<le> 1024"
    using wf(2) by (simp add: word_le_nat_alt)
  define w1 where "w1 = (terminal_write (take n (drop i (tx_tb_buf w))) w)
    \<lparr>tx_tb_buf_index := tx_tb_buf_index w + ucast chunk\<rparr>"
  have index: "unat (tx_tb_buf_index w1) = i + n"
    by (simp add: w1_def chunk(3))
  have w1: "tx_tb_buf w1 = tx_tb_buf w" "tx_tb_buf_cnt w1 = tx_tb_buf_cnt w" "tx_state w1 = 2"
      "tx_fifo w1 = tx_fifo w" "tx_tb_buf_ready w1" "us_usb_enable w1 = us_usb_enable w"
      "us_uart_enable w1 = us_uart_enable w" "delay_count w1 = delay_count w"
    using assms(3) wf(4) by (simp_all add: w1_def frame)
  have out: "usb_out w1 = usb_out w @ (if us_usb_enable w then take n (drop i (tx_tb_buf w)) else [])"
      "uart_out w1 = uart_out w @ (if us_uart_enable w then take n (drop i (tx_tb_buf w)) else [])"
    using terminal_write_out [of "take n (drop i (tx_tb_buf w))" w]
    by (simp_all add: w1_def usb_out_def uart_out_def)
  have partial: "take i (tx_tb_buf w) @ take n (drop i (tx_tb_buf w)) = take (i + n) (tx_tb_buf w)"
    by (simp add: take_add)
  define w' where "w' = (if tx_tb_buf_index w1 \<ge> tx_tb_buf_cnt w1
    then w1\<lparr>tx_tb_buf_ready := False, tx_state := 0\<rparr> else w1)"
  have "service_toolbar w = Done w'"
    using cnt chunk(1) wf(3)
    by (simp add: service_toolbar_def Let_def chunk_def [symmetric] i_def [symmetric] n_def [symmetric]
        w'_def w1_def frame not_less)
  moreover have "tx_wf w'"
    using assms(1,3) w1 index chunk(1) unfolding w'_def
    by (auto simp: tx_wf_def word_le_nat_alt)
  moreover have "left_queue w w' = []"
    using w1(4) by (intro left_queue_same) (simp add: w'_def)
  moreover have "\<exists>bs'. tx_story ps ts w' bs' \<and> filter printed bs' = filter printed bs"
  proof (cases "tx_tb_buf_index w1 \<ge> tx_tb_buf_cnt w1")
    case True
    then have "i + n = unat (tx_tb_buf_cnt w)"
      using index chunk(1) w1(2) by (simp add: word_le_nat_alt)
    then have "tx_story ps ts w' (bs @ [Toolbar (take (unat (tx_tb_buf_cnt w)) (tx_tb_buf w))])"
      using assms(2,3) True out partial w1 wf(4)
      by (auto simp: w'_def tx_story_def tb_partial_def tb_waiting_def usb_out_def uart_out_def i_def [symmetric])
    then show ?thesis
      by (intro exI [of _ "bs @ [Toolbar (take (unat (tx_tb_buf_cnt w)) (tx_tb_buf w))]"]) simp
  next
    case False
    then have "tx_story ps ts w' bs"
      using assms(2,3) out partial w1 wf(4) index
      by (auto simp: w'_def tx_story_def tb_partial_def tb_waiting_def i_def [symmetric])
    then show ?thesis
      by blast
  qed
  ultimately show ?thesis
    by blast
qed

lemma service_ok:
  assumes "tx_wf w" "tx_story ps ts w bs" "us_core w = 1"
  shows "\<exists>w'. tx_fifo_service available connected w = Done w' \<and> tx_wf w' \<and>
    (\<exists>bs'. tx_story ps ts w' bs' \<and> filter printed bs' = filter printed bs @ served connected (left_queue w w'))"
proof -
  have core: "bp_assert_core1 w"
    using assms(3) by (simp add: bp_assert_core1_def)
  have "tx_state w \<le> 2"
    using assms(1) by (simp add: tx_wf_def)
  then consider "us_usb_enable w \<and> available < 64" | "\<not> (us_usb_enable w \<and> available < 64)" "tx_state w = 0"
    | "\<not> (us_usb_enable w \<and> available < 64)" "tx_state w = 1"
    | "\<not> (us_usb_enable w \<and> available < 64)" "tx_state w = 2"
    using u8_le_2 by blast
  then show ?thesis
  proof cases
    case 1
    then show ?thesis
      using assms(1,2) core by (auto simp: tx_fifo_service_def on_core1_def left_queue_same intro!: exI [of _ bs])
  next
    case 2
    then show ?thesis
      using idle_ok [OF assms(1,2) 2(2) refl] core by (auto simp: tx_fifo_service_def on_core1_def)
  next
    case 3
    then show ?thesis
      using delay_ok [OF assms(1,2) 3(2) refl] core by (auto simp: tx_fifo_service_def on_core1_def)
  next
    case 4
    then show ?thesis
      using toolbar_ok [OF assms(1,2) 4(2)] core by (auto simp: tx_fifo_service_def on_core1_def)
  qed
qed

definition usb_start :: "bool \<Rightarrow> bool \<Rightarrow> usb" where
  "usb_start usb_on uart_on = the (tx_fifo_init (usb_reset usb_on uart_on))"

lemma tx_queue_init:
  "spsc_queue_init (replicate 1024 0) tx_buffer_length =
     Some \<lparr>sq_head = 0, sq_tail = 0, sq_buffer = replicate 1024 0, sq_capacity = 1024, sq_mask = 1023\<rparr>"
  by (simp add: spsc_queue_init_def tx_buffer_length_def)

lemma tx_start_ok: "tx_wf (usb_start u v)" "tx_story [] [] (usb_start u v) []"
  by (simp_all add: usb_start_def tx_fifo_init_def tx_queue_init usb_reset_def tx_wf_def queue_wf_def
      tx_story_def queue_list_def distance_def tb_waiting_def tb_partial_def usb_out_def uart_out_def)

lemma write_story:
  assumes "tx_wf w" "tx_story ps ts w bs" "tx_fifo_write cs (w\<lparr>us_core := 0\<rparr>) = Done w'"
  shows "tx_wf w' \<and> tx_story (ps @ cs) ts w' bs"
proof -
  obtain q where q: "write_loop (tx_fifo w) cs = Some q" "w' = w\<lparr>us_core := 0, tx_fifo := q\<rparr>"
    using assms(3)
    by (auto simp: tx_fifo_write_def on_core0_def bp_assert_core0_def spinning_def split: option.splits)
  have "queue_wf (tx_fifo w)"
    using assms(1) by (simp add: tx_wf_def)
  from write_loop_ok [OF this q(1)] show ?thesis
    using assms(1,2) unfolding q(2)
    by (simp add: tx_wf_def tx_story_def tb_waiting_def tb_partial_def usb_out_def uart_out_def)
qed

lemma render_story:
  assumes "tx_wf w" "tx_story ps ts w bs" "\<not> tx_tb_buf_ready w" "length buf = 1024"
    "tx_tb_start len (w\<lparr>us_core := 1, tx_tb_buf := buf\<rparr>) = Done w'"
  shows "tx_wf w' \<and> tx_story ps (ts @ [take (unat len) buf]) w' bs"
proof -
  have len: "len \<le> 1024"
    and w': "w' = w\<lparr>us_core := 1, tx_tb_buf := buf, tx_tb_buf_cnt := ucast len, tx_tb_buf_ready := True\<rparr>"
    using assms(5) by (simp_all add: tx_tb_start_def on_core1_def bp_assert_core1_def split: if_splits)
  have state: "tx_state w = 0"
    using assms(1,3) by (auto simp: tx_wf_def)
  have cnt: "unat (ucast len :: u16) = unat len"
    using len by (simp add: unsigned_ucast_eq word_le_nat_alt take_bit_nat_eq_self)
  then show ?thesis
    using assms(1-4) len state unfolding w'
    by (simp add: tx_wf_def tx_story_def tb_waiting_def tb_partial_def usb_out_def uart_out_def
        word_le_nat_alt)
qed

lemma tx_history_ok:
  "tx_history (usb_start u v) ps ts log w \<Longrightarrow>
    tx_wf w \<and> (\<exists>bs. tx_story ps ts w bs \<and> filter printed bs = map block_of (filter (\<lambda>e. snd e \<noteq> []) log))"
proof (induction rule: tx_history.induct)
  case tx_start
  then show ?case
    using tx_start_ok by (intro conjI exI [of _ "[]"]) simp_all
next
  case (tx_write ps ts log w cs w')
  then show ?case
    using write_story by blast
next
  case (tx_render ps ts log w buf len w')
  then show ?case
    using render_story by blast
next
  case (tx_service ps ts log w available connected w')
  then obtain bs where bs: "tx_wf (w\<lparr>us_core := 1\<rparr>)" "tx_story ps ts (w\<lparr>us_core := 1\<rparr>) bs"
    "filter printed bs = map block_of (filter (\<lambda>e. snd e \<noteq> []) log)"
    by auto
  then obtain bs' where "tx_wf w'" "tx_story ps ts w' bs'" "filter printed bs' = filter printed bs @ served connected (left_queue w w')"
    using service_ok [OF bs(1,2), of available connected] tx_service(2) by auto
  then show ?case
    using bs(3) by (intro conjI exI [of _ bs']) simp_all
qed

lemma tx_reach_ok: "tx_reach (usb_start u v) ps ts w \<Longrightarrow> tx_wf w \<and> (\<exists>bs. tx_story ps ts w bs)"
  unfolding tx_reach_def using tx_history_ok by blast

lemma tx_history_config:
  "tx_history w0 ps ts log w \<Longrightarrow> us_usb_enable w = us_usb_enable w0 \<and> us_uart_enable w = us_uart_enable w0"
proof (induction rule: tx_history.induct)
  case (tx_write ps ts log w cs w')
  then show ?case
    by (auto simp: tx_fifo_write_def on_core0_def spinning_def split: option.splits if_splits)
next
  case (tx_render ps ts log w buf len w')
  then show ?case
    by (auto simp: tx_tb_start_def on_core1_def split: if_splits)
next
  case (tx_service ps ts log w available connected w')
  then show ?case
    by (auto simp: tx_fifo_service_def on_core1_def service_idle_def service_delay_def
        service_toolbar_def Let_def frame split: if_splits prod.splits)
qed auto

lemma tx_reach_config:
  "tx_reach w0 ps ts w \<Longrightarrow> us_usb_enable w = us_usb_enable w0 \<and> us_uart_enable w = us_uart_enable w0"
  using tx_history_config by (auto simp: tx_reach_def)

text \<open>C26: What the terminal shows is made of blocks: printed bytes, in the order they were
  printed, and whole toolbar renderings, in the order they were made. A toolbar never cuts
  into another and no printed byte lands inside of one. The blocks of printed bytes are exactly what
  the calls of the service took from the queue, one call after the other: those of a call with a host connected are
  shown, those of a call with no host are discarded, and no other byte is missing; what is not out yet is still in the queue, or
  is the rendering in progress. This holds for every interleaving of prints, toolbar updates
  and service calls, on USB and on the UART.\<close>

theorem terminal_stream_blocks:
  assumes "tx_history (usb_start u v) ps ts log w"
  shows "\<exists>bs. ps = concat (map taken bs) @ queue_list (tx_fifo w) \<and>
     ts = concat (map rendering bs) @ tb_waiting w \<and>
     filter printed bs = map block_of (filter (\<lambda>e. snd e \<noteq> []) log) \<and>
     (u \<longrightarrow> usb_out w = concat (map shown bs) @ tb_partial w) \<and>
     (v \<longrightarrow> uart_out w = concat (map shown bs) @ tb_partial w)"
proof -
  have "us_usb_enable w = u" "us_uart_enable w = v"
    using tx_history_config [OF assms]
    by (simp_all add: usb_start_def tx_fifo_init_def tx_queue_init usb_reset_def)
  then show ?thesis
    using tx_history_ok [OF assms] by (auto simp: tx_story_def)
qed

text \<open>C28: The transmit service never reads outside of the toolbar buffer and never stops on an
  assertion on its core, whatever was printed and rendered before, and its state machine stays
  in its three states.\<close>

theorem tx_service_safe:
  assumes "tx_reach (usb_start u v) ps ts w"
  shows "\<exists>w'. tx_fifo_service available connected (w\<lparr>us_core := 1\<rparr>) = Done w' \<and>
     tx_state w' \<le> 2 \<and> delay_count w' < 3 \<and> (tx_state w' = 2 \<longrightarrow> tx_tb_buf_index w' \<le> tx_tb_buf_cnt w')"
proof -
  obtain bs where "tx_wf (w\<lparr>us_core := 1\<rparr>)" "tx_story ps ts (w\<lparr>us_core := 1\<rparr>) bs"
    using tx_reach_ok [OF assms] by auto
  then show ?thesis
    using service_ok [of "w\<lparr>us_core := 1\<rparr>" ps ts bs available connected] by (auto simp: tx_wf_def)
qed

subsection \<open>The toolbar gets out\<close>

text \<open>The service calls a waiting rendering still needs, and the part of it not yet out.\<close>

definition chunks :: "nat \<Rightarrow> nat" where
  "chunks m = max 1 ((m + 63) div 64)"

definition tx_due :: "usb \<Rightarrow> nat" where
  "tx_due w =
     (let cnt = unat (tx_tb_buf_cnt w)
      in if \<not> tx_tb_buf_ready w then 0
         else if tx_state w = 2 then chunks (cnt - unat (tx_tb_buf_index w))
         else if tx_state w = 1 then 3 - unat (delay_count w) + chunks cnt
         else 4 + chunks cnt)"

definition tb_rest :: "usb \<Rightarrow> u8 list" where
  "tb_rest w = (if tx_tb_buf_ready w
     then drop (length (tb_partial w)) (take (unat (tx_tb_buf_cnt w)) (tx_tb_buf w)) else [])"

primrec services :: "nat \<Rightarrow> u32 \<Rightarrow> bool \<Rightarrow> usb \<Rightarrow> usb outcome" where
  "services 0 available connected w = Done w"
| "services (Suc n) available connected w =
     (case tx_fifo_service available connected w of
        Done w' \<Rightarrow> services n available connected w'
      | e \<Rightarrow> e)"

lemma chunks_step: "64 < m \<Longrightarrow> chunks (m - 64) = chunks m - 1"
  unfolding chunks_def by arith

lemma chunks_one: "m \<le> 64 \<Longrightarrow> chunks m = 1"
  unfolding chunks_def by arith

lemma tx_due_le: "tx_wf w \<Longrightarrow> tx_due w \<le> 20"
  by (auto simp: tx_due_def chunks_def tx_wf_def word_le_nat_alt Let_def)

lemma take_drop_take:
  assumes "i + n \<le> c"
  shows "take n (drop i xs) @ drop (i + n) (take c xs) = drop i (take c xs)"
proof -
  have "take n (drop i (take c xs)) = take n (drop i xs)"
    using assms by (simp add: drop_take min_def)
  moreover have "drop (i + n) (take c xs) = drop n (drop i (take c xs))"
    by (simp add: add.commute)
  ultimately show ?thesis
    by (metis append_take_drop_id)
qed

lemma toolbar_due:
  assumes "tx_wf w" "tx_state w = 2" "service_toolbar w = Done w'"
  shows "tx_due w' = tx_due w - 1 \<and> tx_fifo w' = tx_fifo w \<and> us_core w' = us_core w \<and>
    us_usb_enable w' = us_usb_enable w \<and>
    (us_usb_enable w \<longrightarrow> usb_out w' @ tb_rest w' = usb_out w @ tb_rest w)"
proof -
  define chunk :: u8 where "chunk = (if tx_tb_buf_cnt w - tx_tb_buf_index w > 64 then 64
    else ucast (tx_tb_buf_cnt w - tx_tb_buf_index w))"
  define i n where "i = unat (tx_tb_buf_index w)" and "n = unat chunk"
  define cnt where "cnt = unat (tx_tb_buf_cnt w)"
  have wf: "tx_tb_buf_index w \<le> tx_tb_buf_cnt w" "cnt \<le> 1024" "length (tx_tb_buf w) = 1024"
      "tx_tb_buf_ready w"
    using assms(1,2) by (simp_all add: tx_wf_def cnt_def word_le_nat_alt)
  note chunk = toolbar_chunk [OF wf(1), folded chunk_def, folded i_def n_def cnt_def]
  define w1 where "w1 = (terminal_write (take n (drop i (tx_tb_buf w))) w)
    \<lparr>tx_tb_buf_index := tx_tb_buf_index w + ucast chunk\<rparr>"
  have w1: "tx_tb_buf w1 = tx_tb_buf w" "tx_tb_buf_cnt w1 = tx_tb_buf_cnt w" "tx_state w1 = 2"
      "tx_fifo w1 = tx_fifo w" "tx_tb_buf_ready w1" "us_usb_enable w1 = us_usb_enable w"
      "us_core w1 = us_core w" "unat (tx_tb_buf_index w1) = i + n"
    using assms(2) wf(4) by (simp_all add: w1_def frame chunk(3))
  have out: "usb_out w1 = usb_out w @ (if us_usb_enable w then take n (drop i (tx_tb_buf w)) else [])"
    using terminal_write_out(1) [of "take n (drop i (tx_tb_buf w))" w]
    by (simp add: w1_def usb_out_def)
  have w': "w' = (if tx_tb_buf_index w1 \<ge> tx_tb_buf_cnt w1
      then w1\<lparr>tx_tb_buf_ready := False, tx_state := 0\<rparr> else w1)"
    using assms(3) chunk(1) wf(2,3)
    by (simp add: service_toolbar_def Let_def chunk_def [symmetric] i_def [symmetric] n_def [symmetric]
        w1_def frame not_less cong: if_cong)
  have rest: "tb_rest w = drop i (take cnt (tx_tb_buf w))"
    using assms(2) wf chunk(1)
    by (simp add: tb_rest_def tb_partial_def i_def [symmetric] cnt_def [symmetric])
  have due: "tx_due w = chunks (cnt - i)"
    using assms(2) wf(4) by (simp add: tx_due_def i_def cnt_def)
  show ?thesis
  proof (cases "cnt \<le> i + n")
    case True
    then have eq: "i + n = cnt"
      using chunk(1) by simp
    then have m: "cnt - i \<le> 64"
      using chunk(4) by arith
    have w1': "w' = w1\<lparr>tx_tb_buf_ready := False, tx_state := 0\<rparr>"
      using True w1 by (simp add: w' word_le_nat_alt cnt_def)
    have "take n (drop i (tx_tb_buf w)) = drop i (take cnt (tx_tb_buf w))"
      by (simp add: drop_take flip: eq)
    then show ?thesis
      using w1 out rest due chunks_one [OF m]
      by (simp add: w1' tx_due_def tb_rest_def) (simp add: usb_out_def)
  next
    case False
    then have n: "n = 64" "64 < cnt - i"
      using chunk(4) by arith+
    have w1': "w' = w1"
      using False w1 by (simp add: w' word_le_nat_alt cnt_def)
    have "take n (drop i (tx_tb_buf w)) @ drop (i + n) (take cnt (tx_tb_buf w)) = drop i (take cnt (tx_tb_buf w))"
      using False by (intro take_drop_take) simp
    moreover have "tb_rest w1 = drop (i + n) (take cnt (tx_tb_buf w))"
      using w1 wf False by (simp add: tb_rest_def tb_partial_def cnt_def [symmetric])
    moreover have "tx_due w1 = chunks (cnt - i) - 1"
      using w1 n chunks_step [OF n(2)] by (simp add: tx_due_def cnt_def [symmetric])
    ultimately show ?thesis
      using w1 out rest due by (simp add: w1')
  qed
qed

lemma service_due:
  assumes "tx_wf w" "\<exists>bs. tx_story ps ts w bs" "queue_list (tx_fifo w) = []" "us_core w = 1" "64 \<le> available"
  shows "\<exists>w'. tx_fifo_service available connected w = Done w' \<and> tx_wf w' \<and>
    (\<exists>bs. tx_story ps ts w' bs) \<and> queue_list (tx_fifo w') = [] \<and> us_core w' = 1 \<and> us_usb_enable w' = us_usb_enable w \<and>
    tx_due w' = tx_due w - 1 \<and>
    (us_usb_enable w \<longrightarrow> usb_out w' @ tb_rest w' = usb_out w @ tb_rest w)"
proof -
  have wf: "queue_wf (tx_fifo w)" "tx_state w \<le> 2"
    using assms(1) by (simp_all add: tx_wf_def)
  have level: "spsc_queue_level (tx_fifo w) = 0"
    using level_list [OF wf(1)] assms(3) by (simp add: unat_eq_zero)
  have not_full: "(available < 64) = False"
    using assms(5) by (simp add: not_less)
  obtain w' where w': "tx_fifo_service available connected w = Done w'" "tx_wf w'"
      "\<exists>bs. tx_story ps ts w' bs"
    using service_ok [OF assms(1) _ assms(4)] assms(2) by blast
  show ?thesis
  proof (cases "tx_state w = 2")
    case True
    have "service_toolbar w = Done w'"
      using w'(1) True assms(4) not_full by (simp add: tx_fifo_service_def on_core1_def bp_assert_core1_def)
    then show ?thesis
      using w' toolbar_due [OF assms(1) True, of w'] assms(3,4) by simp
  next
    case False
    then consider "tx_state w = 0" | "tx_state w = 1"
      using u8_le_2 [OF wf(2)] by blast
    then show ?thesis
    proof cases
      case 1
      then have "w' = service_idle connected w"
        using w'(1) assms(4) not_full by (auto simp: tx_fifo_service_def on_core1_def bp_assert_core1_def)
      then have "w' = (if tx_tb_buf_ready w then w\<lparr>tx_state := 1, tx_tb_buf_index := 0\<rparr> else w)"
        using level by (simp add: service_idle_def)
      then show ?thesis
        using w' 1 assms(1,3,4)
        by (auto simp: tx_due_def tb_rest_def tb_partial_def Let_def usb_out_def tx_wf_def)
    next
      case 2
      then have "w' = service_delay w"
        using w'(1) assms(4) not_full by (auto simp: tx_fifo_service_def on_core1_def bp_assert_core1_def)
      moreover have d: "delay_count w = 0 \<or> delay_count w = 1 \<or> delay_count w = 2"
        using assms(1) by (intro u8_le_2) (auto simp: tx_wf_def word_le_nat_alt word_less_nat_alt)
      moreover have "((3 :: u8) \<le> 1) = False"
        by (simp add: word_le_nat_alt)
      ultimately show ?thesis
        using w' 2 assms(1,3,4) level
        by (auto simp: service_delay_def Let_def tx_due_def tb_rest_def tb_partial_def usb_out_def tx_wf_def)
    qed
  qed
qed

lemma services_due:
  "tx_wf w \<Longrightarrow> \<exists>bs. tx_story ps ts w bs \<Longrightarrow> queue_list (tx_fifo w) = [] \<Longrightarrow> us_core w = 1 \<Longrightarrow> 64 \<le> available \<Longrightarrow>
    \<exists>w'. services n available connected w = Done w' \<and> tx_wf w' \<and>
      us_usb_enable w' = us_usb_enable w \<and> tx_due w' = tx_due w - n \<and>
      (us_usb_enable w \<longrightarrow> usb_out w' @ tb_rest w' = usb_out w @ tb_rest w)"
proof (induction n arbitrary: w)
  case (Suc n)
  obtain w1 where w1: "tx_fifo_service available connected w = Done w1" "tx_wf w1"
      "\<exists>bs. tx_story ps ts w1 bs" "queue_list (tx_fifo w1) = []" "us_core w1 = 1" "us_usb_enable w1 = us_usb_enable w"
      "tx_due w1 = tx_due w - 1" "us_usb_enable w \<longrightarrow> usb_out w1 @ tb_rest w1 = usb_out w @ tb_rest w"
    using service_due [OF Suc.prems] by blast
  show ?case
    using Suc.IH [OF w1(2-5) Suc.prems(5)] w1 by auto
qed simp

text \<open>C27: A toolbar that is waiting does get out: once printing pauses, at most 20 calls of the
  service (one to notice it, three empty checks, sixteen chunks of 64 bytes) put exactly the
  rest of it on the USB terminal and leave the transmitter idle.\<close>

theorem toolbar_gets_out:
  assumes "tx_reach (usb_start True v) ps ts w" and "queue_list (tx_fifo w) = []"
    and "us_core w = 1" and "64 \<le> available"
  shows "\<exists>w'. services 20 available connected w = Done w' \<and> \<not> tx_tb_buf_ready w' \<and>
    tx_state w' = 0 \<and> usb_out w' = usb_out w @ tb_rest w"
proof -
  have wf: "tx_wf w" "\<exists>bs. tx_story ps ts w bs" "us_usb_enable w"
    using tx_reach_ok [OF assms(1)] tx_reach_config [OF assms(1)]
    by (simp_all add: usb_start_def tx_fifo_init_def tx_queue_init usb_reset_def)
  obtain w' where w': "services 20 available connected w = Done w'" "tx_wf w'"
      "tx_due w' = 0" "usb_out w' @ tb_rest w' = usb_out w @ tb_rest w"
    using services_due [OF wf(1,2) assms(2-4), of 20 connected] tx_due_le [OF wf(1)] wf(3) by auto
  have "\<not> tx_tb_buf_ready w'"
    using w'(3) by (auto simp: tx_due_def chunks_def Let_def split: if_splits)
  then show ?thesis
    using w' by (auto simp: tx_wf_def tb_rest_def)
qed

text \<open>With the USB terminal disabled and the UART terminal enabled, printed bytes are
  thrown away whenever no USB host is connected, though the UART could have shown them.\<close>

theorem uart_terminal_needs_usb_host:
  assumes "tx_reach (usb_start False True) ps ts w" and "tx_state w = 0"
    and "queue_list (tx_fifo w) \<noteq> []"
  shows "\<exists>w'. tx_fifo_service available False (w\<lparr>us_core := 1\<rparr>) = Done w' \<and>
    queue_list (tx_fifo w') = [] \<and> uart_out w' = uart_out w"
proof -
  have wf: "queue_wf (tx_fifo w)" "\<not> us_usb_enable w"
    using tx_reach_ok [OF assms(1)] tx_reach_config [OF assms(1)]
    by (simp_all add: tx_wf_def usb_start_def tx_fifo_init_def tx_queue_init usb_reset_def)
  have "spsc_queue_level (tx_fifo w) \<noteq> 0"
    using level_list [OF wf(1)] assms(3) by auto
  then show ?thesis
    using wf assms(2) flush_ok [OF wf(1)]
    by (simp add: tx_fifo_service_def on_core1_def bp_assert_core1_def service_idle_def uart_out_def)
qed

subsection \<open>A run\<close>

text \<open>Core 0 prints one byte.\<close>

lemma print_one:
  "\<exists>w. tx_history (usb_start u v) [7] [] [] w \<and> tx_state w = 0 \<and> queue_list (tx_fifo w) = [7]"
proof -
  have wf: "tx_wf (usb_start u v)" "queue_wf (tx_fifo (usb_start u v))"
      "queue_list (tx_fifo (usb_start u v)) = []" "queue_room (tx_fifo (usb_start u v)) = 1023"
      "tx_state (usb_start u v) = 0"
    using tx_start_ok(1) [of u v]
    by (simp_all add: usb_start_def tx_fifo_init_def tx_queue_init tx_wf_def queue_list_def
        distance_def queue_room_def usb_reset_def)
  have "length (queue_list (tx_fifo (usb_start u v))) \<noteq> queue_room (tx_fifo (usb_start u v))"
    by (simp add: wf(3,4))
  from try_add_ok [OF wf(2) this, of 7] obtain q
    where q: "spsc_queue_try_add (tx_fifo (usb_start u v)) 7 = (q, True)" "queue_list q = [7]"
    by (auto simp: wf(3))
  let ?w = "(usb_start u v)\<lparr>us_core := 0, tx_fifo := q\<rparr>"
  have "spsc_queue_add_blocking (tx_fifo (usb_start u v)) 7 = Some q"
    by (subst spsc_queue_add_blocking.simps) (simp add: q(1))
  then have "tx_fifo_write [7] ((usb_start u v)\<lparr>us_core := 0\<rparr>) = Done ?w"
    by (simp add: tx_fifo_write_def on_core0_def bp_assert_core0_def spinning_def)
  from tx_write [OF tx_start this] have "tx_history (usb_start u v) [7] [] [] ?w"
    by simp
  then show ?thesis
    using q(2) wf(5) by (intro exI [of _ ?w]) simp
qed

lemma print_one_reach:
  "\<exists>w. tx_reach (usb_start u v) [7] [] w \<and> tx_state w = 0 \<and> queue_list (tx_fifo w) = [7]"
  using print_one [of u v] by (auto simp: tx_reach_def)

text \<open>Core 1 serves it, with or without a host.\<close>

lemma serve_one:
  "\<exists>w. tx_history (usb_start u v) [7] [] [(connected, [7])] w \<and> tx_state w = 0 \<and> queue_list (tx_fifo w) = []"
proof -
  obtain w where w: "tx_history (usb_start u v) [7] [] [] w" "tx_state w = 0" "queue_list (tx_fifo w) = [7]"
    using print_one by blast
  have wf: "queue_wf (tx_fifo w)"
    using tx_history_ok [OF w(1)] by (simp add: tx_wf_def)
  have level: "spsc_queue_level (tx_fifo w) \<noteq> 0"
    using level_list [OF wf] w(3) by auto
  define w' where "w' = service_idle connected (w\<lparr>us_core := 1\<rparr>)"
  obtain q where q: "drain_loop spsc_queue_try_remove 64 (tx_fifo w) = (q, [7])" "queue_list q = []"
    using spsc.drain [OF wf, of 64] w(3) by auto
  have w': "queue_list (tx_fifo w') = []" "tx_state w' = 0"
    using level w(2) q flush_ok [OF wf] by (auto simp: w'_def service_idle_def frame)
  have "tx_fifo_service 64 connected (w\<lparr>us_core := 1\<rparr>) = Done w'"
    using w(2) by (simp add: tx_fifo_service_def on_core1_def bp_assert_core1_def w'_def)
  from tx_service [OF w(1) this] show ?thesis
    using w' w(3) by (auto simp: left_queue_def)
qed

lemma terminal_stream_blocks_witness:
  "(\<exists>w. tx_history (usb_start True True) [7] [] [(True, [7])] w \<and> usb_out w = [7] \<and> uart_out w = [7]) \<and>
   (\<exists>w. tx_history (usb_start True True) [7] [] [(False, [7])] w \<and> usb_out w = [] \<and> uart_out w = [])"
proof -
  have "usb_out w = shown (block_of (c, [7])) \<and> uart_out w = shown (block_of (c, [7]))"
    if w: "tx_history (usb_start True True) [7] [] [(c, [7])] w" "tx_state w = 0" for w c
  proof -
    obtain bs where bs: "[] = concat (map rendering bs)" "filter printed bs = [block_of (c, [7])]"
      "usb_out w = concat (map shown bs)" "uart_out w = concat (map shown bs)"
      using terminal_stream_blocks [OF w(1)] w(2) by (auto simp: tb_partial_def)
    have "rendering b = [] \<Longrightarrow> printed b" for b
      by (cases b) simp_all
    then have "\<forall>b \<in> set bs. printed b"
      using bs(1) by simp
    then have "bs = [block_of (c, [7])]"
      using bs(2) by (simp add: filter_id_conv [THEN iffD2])
    then show ?thesis
      using bs(3,4) by simp
  qed
  then show ?thesis
    using serve_one [of True True True] serve_one [of True True False] by fastforce
qed

lemma tx_service_safe_witness:
  "\<exists>w w'. tx_reach (usb_start True False) [7] [] w \<and> tx_fifo_service 64 True (w\<lparr>us_core := 1\<rparr>) = Done w'"
  using print_one_reach [of True False] tx_service_safe [of True False "[7]" "[]" _ 64 True] by blast

lemma uart_terminal_needs_usb_host_witness:
  "\<exists>w w'. tx_reach (usb_start False True) [7] [] w \<and>
     tx_fifo_service 64 False (w\<lparr>us_core := 1\<rparr>) = Done w' \<and>
     queue_list (tx_fifo w') = [] \<and> uart_out w' = uart_out w"
  using print_one_reach [of False True] uart_terminal_needs_usb_host [of "[7]" "[]" _ 64] by fastforce

text \<open>Core 1 renders a toolbar of 1024 bytes and its service is called.\<close>

lemma toolbar_gets_out_witness:
  "\<exists>w w'. tx_tb_buf_ready w \<and> services 20 64 True w = Done w' \<and> usb_out w' = replicate 1024 1"
proof -
  let ?w = "(usb_start True False)\<lparr>us_core := 1, tx_tb_buf := replicate 1024 1, tx_tb_buf_cnt := 1024,
    tx_tb_buf_ready := True\<rparr>"
  have start: "\<not> tx_tb_buf_ready (usb_start True False)" "queue_list (tx_fifo (usb_start True False)) = []"
      "usb_out (usb_start True False) = []" "tx_state (usb_start True False) = 0"
    by (simp_all add: usb_start_def tx_fifo_init_def tx_queue_init usb_reset_def queue_list_def
        distance_def usb_out_def)
  have "tx_tb_start 1024 ((usb_start True False)\<lparr>us_core := 1, tx_tb_buf := replicate 1024 1\<rparr>) = Done ?w"
    by (simp add: tx_tb_start_def on_core1_def bp_assert_core1_def)
  from tx_render [OF tx_start start(1) _ this]
  have reach: "tx_reach (usb_start True False) [] [replicate 1024 1] ?w"
    by (auto simp: tx_reach_def)
  have "tb_rest ?w = replicate 1024 1" "usb_out ?w = []"
    using start(3,4) by (simp_all add: tb_rest_def tb_partial_def usb_out_def)
  then obtain w' where "services 20 64 True ?w = Done w'" "usb_out w' = replicate 1024 1"
    using toolbar_gets_out [OF reach, of 64 True] start(2) by auto
  then show ?thesis
    by (intro exI [of _ ?w] exI [of _ w']) simp
qed

end
