(* ===== verification/Ln_Utf8.thy ===== *)
theory Ln_Utf8
  imports Prelude "HOL-Library.Monad_Syntax"
begin

text \<open>
  The UTF-8 support of the line editor, \<^verbatim>\<open>src/lib/bp_linenoise/linenoise.c\<close>: decoding forward and backward,
  grapheme clusters, display widths. A function takes the memory the text lies in and an index;
  \<open>None\<close> is a read outside of that memory. The second part is the view of a text as a list of
  characters: on characters that neither extend others nor pair up, every function of the first part
  works character by character.
\<close>

subsection \<open>Decoding\<close>

definition byte_at :: "u8 list \<Rightarrow> nat \<Rightarrow> u8 option" where
  "byte_at s i = (if i < length s then Some (s ! i) else None)"

definition utf8ByteLen :: "u8 \<Rightarrow> nat" where
  "utf8ByteLen c =
     (if c AND 0x80 = 0 then 1
      else if c AND 0xE0 = 0xC0 then 2
      else if c AND 0xF0 = 0xE0 then 3
      else if c AND 0xF8 = 0xF0 then 4
      else 1)"

definition utf8DecodeChar :: "u8 list \<Rightarrow> nat \<Rightarrow> (u32 \<times> nat) option" where
  "utf8DecodeChar s i = do {
     p \<leftarrow> byte_at s i;
     if p AND 0x80 = 0 then Some (ucast p, 1)
     else if p AND 0xE0 = 0xC0 then do {
       p1 \<leftarrow> byte_at s (i + 1);
       Some (push_bit 6 (ucast (p AND 0x1F)) OR ucast (p1 AND 0x3F), 2) }
     else if p AND 0xF0 = 0xE0 then do {
       p1 \<leftarrow> byte_at s (i + 1);
       p2 \<leftarrow> byte_at s (i + 2);
       Some (push_bit 12 (ucast (p AND 0x0F)) OR push_bit 6 (ucast (p1 AND 0x3F)) OR ucast (p2 AND 0x3F), 3) }
     else if p AND 0xF8 = 0xF0 then do {
       p1 \<leftarrow> byte_at s (i + 1);
       p2 \<leftarrow> byte_at s (i + 2);
       p3 \<leftarrow> byte_at s (i + 3);
       Some (push_bit 18 (ucast (p AND 0x07)) OR push_bit 12 (ucast (p1 AND 0x3F)) OR
         push_bit 6 (ucast (p2 AND 0x3F)) OR ucast (p3 AND 0x3F), 4) }
     else Some (ucast p, 1) }"

definition isVariationSelector :: "u32 \<Rightarrow> bool" where
  "isVariationSelector cp \<longleftrightarrow> cp = 0xFE0E \<or> cp = 0xFE0F"

definition isSkinToneModifier :: "u32 \<Rightarrow> bool" where
  "isSkinToneModifier cp \<longleftrightarrow> 0x1F3FB \<le> cp \<and> cp \<le> 0x1F3FF"

definition isZWJ :: "u32 \<Rightarrow> bool" where
  "isZWJ cp \<longleftrightarrow> cp = 0x200D"

definition isRegionalIndicator :: "u32 \<Rightarrow> bool" where
  "isRegionalIndicator cp \<longleftrightarrow> 0x1F1E6 \<le> cp \<and> cp \<le> 0x1F1FF"

definition isCombiningMark :: "u32 \<Rightarrow> bool" where
  "isCombiningMark cp \<longleftrightarrow>
     0x0300 \<le> cp \<and> cp \<le> 0x036F \<or> 0x1AB0 \<le> cp \<and> cp \<le> 0x1AFF \<or> 0x1DC0 \<le> cp \<and> cp \<le> 0x1DFF \<or>
     0x20D0 \<le> cp \<and> cp \<le> 0x20FF \<or> 0xFE20 \<le> cp \<and> cp \<le> 0xFE2F"

definition isGraphemeExtend :: "u32 \<Rightarrow> bool" where
  "isGraphemeExtend cp \<longleftrightarrow> isVariationSelector cp \<or> isSkinToneModifier cp \<or> isZWJ cp \<or> isCombiningMark cp"

text \<open>The start of the character that ends at \<open>pos\<close>: the loop goes back over continuation bytes,
  four bytes at most. The second argument is the index before the decrement.\<close>

primrec scan_prev :: "u8 list \<Rightarrow> nat \<Rightarrow> nat \<Rightarrow> nat option" where
  "scan_prev buf pos 0 = None"
| "scan_prev buf pos (Suc i) =
     (if 0 < i \<and> pos - i < 4 then do {
        c \<leftarrow> byte_at buf i;
        if c AND 0xC0 = 0x80 then scan_prev buf pos i else Some i }
      else Some i)"

definition utf8DecodePrev :: "u8 list \<Rightarrow> nat \<Rightarrow> (u32 \<times> nat) option" where
  "utf8DecodePrev buf pos =
     (if pos = 0 then Some (0, 0)
      else do {
        i \<leftarrow> scan_prev buf pos pos;
        (cp, _) \<leftarrow> utf8DecodeChar buf i;
        Some (cp, pos - i) })"

subsection \<open>Grapheme clusters\<close>

function prev_cluster :: "u8 list \<Rightarrow> u32 \<Rightarrow> nat \<Rightarrow> nat \<Rightarrow> nat option" where
  "prev_cluster buf cp len_so_far curpos =
     (if curpos = 0 then Some len_so_far
      else case utf8DecodePrev buf curpos of None \<Rightarrow> None | Some (prevcp, prevlen) \<Rightarrow>
        if prevlen = 0 then Some len_so_far
        else if isZWJ prevcp then
          (case utf8DecodePrev buf (curpos - prevlen) of None \<Rightarrow> None | Some (prevcp2, prevlen2) \<Rightarrow>
             if prevlen2 = 0 then Some (len_so_far + prevlen)
             else prev_cluster buf prevcp2 (len_so_far + prevlen + prevlen2) (curpos - prevlen - prevlen2))
        else if isGraphemeExtend cp then prev_cluster buf prevcp (len_so_far + prevlen) (curpos - prevlen)
        else if isRegionalIndicator cp \<and> isRegionalIndicator prevcp then Some (len_so_far + prevlen)
        else Some len_so_far)"
  by pat_completeness auto
termination
  by (relation "measure (\<lambda>(buf, cp, n, curpos). curpos)") auto

declare prev_cluster.simps [simp del]

definition utf8PrevCharLen :: "u8 list \<Rightarrow> nat \<Rightarrow> nat option" where
  "utf8PrevCharLen buf pos =
     (if pos = 0 then Some 0
      else case utf8DecodePrev buf pos of None \<Rightarrow> None | Some (cp, cplen) \<Rightarrow>
        if cplen = 0 then Some 0 else prev_cluster buf cp cplen (pos - cplen))"

lemma decode_length: "utf8DecodeChar s i = Some (cp, n) \<Longrightarrow> 1 \<le> n \<and> n \<le> 4 \<and> i + n \<le> length s"
  by (auto simp: utf8DecodeChar_def byte_at_def Option.bind_eq_Some_conv split: if_splits)

function next_cluster :: "u8 list \<Rightarrow> nat \<Rightarrow> bool \<Rightarrow> nat \<Rightarrow> nat \<Rightarrow> nat option" where
  "next_cluster buf len isRI len_so_far curpos =
     (if len \<le> curpos then Some len_so_far
      else case utf8DecodeChar buf curpos of None \<Rightarrow> None | Some (nextcp, nextlen) \<Rightarrow>
        if isZWJ nextcp \<and> curpos + nextlen < len then
          (case utf8DecodeChar buf (curpos + nextlen) of None \<Rightarrow> None | Some (_, nextlen2) \<Rightarrow>
             next_cluster buf len isRI (len_so_far + nextlen + nextlen2) (curpos + nextlen + nextlen2))
        else if isGraphemeExtend nextcp then next_cluster buf len isRI (len_so_far + nextlen) (curpos + nextlen)
        else if isRI \<and> isRegionalIndicator nextcp then next_cluster buf len False (len_so_far + nextlen) (curpos + nextlen)
        else Some len_so_far)"
  by pat_completeness auto
termination
  by (relation "measure (\<lambda>(buf, len, isRI, n, curpos). len - curpos)") (auto dest: decode_length)

declare next_cluster.simps [simp del]

definition utf8NextCharLen :: "u8 list \<Rightarrow> nat \<Rightarrow> nat \<Rightarrow> nat option" where
  "utf8NextCharLen buf pos len =
     (if len \<le> pos then Some 0
      else case utf8DecodeChar buf pos of None \<Rightarrow> None | Some (cp, cplen) \<Rightarrow>
        next_cluster buf len (isRegionalIndicator cp) cplen (pos + cplen))"

subsection \<open>Widths\<close>

definition utf8CharWidth :: "u32 \<Rightarrow> nat" where
  "utf8CharWidth cp =
     (if cp < 32 \<or> 0x7F \<le> cp \<and> cp < 0xA0 then 0
      else if isCombiningMark cp then 0
      else if isVariationSelector cp then 0
      else if isSkinToneModifier cp then 0
      else if isZWJ cp then 0
      else if 0x1100 \<le> cp \<and>
        (cp \<le> 0x115F \<or> cp = 0x2329 \<or> cp = 0x232A \<or> 0x231A \<le> cp \<and> cp \<le> 0x231B \<or>
         0x23E9 \<le> cp \<and> cp \<le> 0x23F3 \<or> 0x23F8 \<le> cp \<and> cp \<le> 0x23FA \<or> 0x25AA \<le> cp \<and> cp \<le> 0x25AB \<or>
         0x25B6 \<le> cp \<and> cp \<le> 0x25C0 \<or> 0x25FB \<le> cp \<and> cp \<le> 0x25FE \<or> 0x2600 \<le> cp \<and> cp \<le> 0x26FF \<or>
         0x2700 \<le> cp \<and> cp \<le> 0x27BF \<or> 0x2934 \<le> cp \<and> cp \<le> 0x2935 \<or> 0x2B05 \<le> cp \<and> cp \<le> 0x2B07 \<or>
         0x2B1B \<le> cp \<and> cp \<le> 0x2B1C \<or> cp = 0x2B50 \<or> cp = 0x2B55 \<or>
         0x2E80 \<le> cp \<and> cp \<le> 0xA4CF \<and> cp \<noteq> 0x303F \<or> 0xAC00 \<le> cp \<and> cp \<le> 0xD7A3 \<or>
         0xF900 \<le> cp \<and> cp \<le> 0xFAFF \<or> 0xFE10 \<le> cp \<and> cp \<le> 0xFE1F \<or> 0xFE30 \<le> cp \<and> cp \<le> 0xFE6F \<or>
         0xFF00 \<le> cp \<and> cp \<le> 0xFF60 \<or> 0xFFE0 \<le> cp \<and> cp \<le> 0xFFE6 \<or> 0x1F1E6 \<le> cp \<and> cp \<le> 0x1F1FF \<or>
         0x1F300 \<le> cp \<and> cp \<le> 0x1F64F \<or> 0x1F680 \<le> cp \<and> cp \<le> 0x1F6FF \<or> 0x1F900 \<le> cp \<and> cp \<le> 0x1F9FF \<or>
         0x1FA00 \<le> cp \<and> cp \<le> 0x1FAFF \<or> 0x20000 \<le> cp \<and> cp \<le> 0x2FFFF)
      then 2
      else 1)"

text \<open>The loop over the parameters of a control sequence, and the step over its final byte.\<close>

function skip_csi :: "u8 list \<Rightarrow> nat \<Rightarrow> nat \<Rightarrow> nat option" where
  "skip_csi s len i =
     (if i < len then
        (case byte_at s i of None \<Rightarrow> None | Some c \<Rightarrow> if c < 0x40 then skip_csi s len (i + 1) else Some (i + 1))
      else Some i)"
  by pat_completeness auto
termination
  by (relation "measure (\<lambda>(s, len, i). len - i)") auto

declare skip_csi.simps [simp del]

lemma skip_csi_forward: "skip_csi s len i = Some j \<Longrightarrow> i \<le> j"
  by (induction s len i rule: skip_csi.induct)
    (subst (asm) (2) skip_csi.simps, auto split: if_splits option.splits)

definition str_width_escape :: "u8 list \<Rightarrow> nat \<Rightarrow> nat \<Rightarrow> nat option" where
  "str_width_escape s len i = do {
     c \<leftarrow> byte_at s (i + 1);
     if c = ch_lbracket then skip_csi s len (i + 2) else Some (i + 2) }"

lemma str_width_escape_forward: "str_width_escape s len i = Some j \<Longrightarrow> i < j"
  by (auto simp: str_width_escape_def Option.bind_eq_Some_conv split: if_splits dest: skip_csi_forward)

function str_width :: "u8 list \<Rightarrow> nat \<Rightarrow> bool \<Rightarrow> nat \<Rightarrow> nat \<Rightarrow> nat option" where
  "str_width s len after_zwj width i =
     (if len \<le> i then Some width
      else case byte_at s i of None \<Rightarrow> None | Some c \<Rightarrow>
        if c = ch_esc \<and> i + 1 < len then
          (case str_width_escape s len i of None \<Rightarrow> None | Some j \<Rightarrow> str_width s len after_zwj width j)
        else
          (case utf8DecodeChar s i of None \<Rightarrow> None | Some (cp, clen) \<Rightarrow>
             str_width s len (isZWJ cp) (if after_zwj then width else width + utf8CharWidth cp) (i + clen)))"
  by pat_completeness auto
termination
  by (relation "measure (\<lambda>(s, len, z, w, i). len - i)") (auto dest: decode_length str_width_escape_forward)

declare str_width.simps [simp del]

definition utf8StrWidth :: "u8 list \<Rightarrow> nat \<Rightarrow> nat \<Rightarrow> nat option" where
  "utf8StrWidth s off len = str_width (drop off s) len False 0 0"

definition utf8SingleCharWidth :: "u8 list \<Rightarrow> nat \<Rightarrow> nat \<Rightarrow> nat option" where
  "utf8SingleCharWidth s off len =
     (if len = 0 then Some 0 else map_option (\<lambda>(cp, _). utf8CharWidth cp) (utf8DecodeChar s off))"

subsection \<open>How far the functions reach\<close>

lemma next_cluster_ge: "next_cluster buf len ri n i = Some m \<Longrightarrow> n \<le> m"
proof (induction buf len ri n i rule: next_cluster.induct)
  case (1 buf len ri n i)
  from 1(4) [unfolded next_cluster.simps [of buf len ri n i]] 1(1-3) show ?case
    by (fastforce split: if_splits option.splits)
qed

lemma next_char_pos:
  assumes "utf8NextCharLen buf pos len = Some n" "pos < len"
  shows "1 \<le> n" "pos < length buf"
  using assms by (auto simp: utf8NextCharLen_def split: option.splits dest!: decode_length next_cluster_ge)

lemma scan_prev_less: "scan_prev buf pos n = Some i \<Longrightarrow> i < n"
  by (induction n) (auto simp: Option.bind_eq_Some_conv less_Suc_eq split: if_splits)

lemma decode_prev_le:
  assumes "utf8DecodePrev buf pos = Some (cp, n)"
  shows "n \<le> pos" "0 < pos \<longrightarrow> 1 \<le> n"
  using assms by (auto simp: utf8DecodePrev_def Option.bind_eq_Some_conv split: if_splits dest!: scan_prev_less)

lemma prev_cluster_le: "prev_cluster buf cp n pos = Some m \<Longrightarrow> n \<le> m \<and> m \<le> n + pos"
proof (induction buf cp n pos rule: prev_cluster.induct)
  case (1 buf cp n pos)
  from 1(3) [unfolded prev_cluster.simps [of buf cp n pos]] 1(1-2) show ?case
    by (fastforce split: if_splits option.splits dest!: decode_prev_le(1))
qed

lemma prev_char_le:
  assumes "utf8PrevCharLen buf pos = Some n"
  shows "n \<le> pos" "0 < pos \<longrightarrow> 1 \<le> n"
proof -
  have "n \<le> pos \<and> (0 < pos \<longrightarrow> 1 \<le> n)"
  proof (cases "pos = 0")
    case False
    then obtain cp k where d: "utf8DecodePrev buf pos = Some (cp, k)"
      using assms by (auto simp: utf8PrevCharLen_def split: option.splits)
    then have "prev_cluster buf cp k (pos - k) = Some n" "k \<le> pos" "1 \<le> k"
      using assms decode_prev_le [OF d] False by (simp_all add: utf8PrevCharLen_def split: if_splits)
    then show ?thesis
      using prev_cluster_le [of buf cp k "pos - k" n] by simp
  qed (use assms in \<open>simp add: utf8PrevCharLen_def\<close>)
  then show "n \<le> pos" "0 < pos \<longrightarrow> 1 \<le> n"
    by simp_all
qed

subsection \<open>Text as a list of characters\<close>

definition utf8_char :: "u8 list \<Rightarrow> bool" where
  "utf8_char c \<longleftrightarrow> c \<noteq> [] \<and> length c = utf8ByteLen (hd c) \<and> hd c AND 0xF8 \<noteq> 0xF8 \<and> hd c AND 0xC0 \<noteq> 0x80 \<and>
     (\<forall>b \<in> set (tl c). b AND 0xC0 = 0x80)"

definition code_point :: "u8 list \<Rightarrow> u32" where
  "code_point c = (case utf8DecodeChar c 0 of Some (cp, _) \<Rightarrow> cp | None \<Rightarrow> 0)"

text \<open>A character that stands alone: it extends nothing, joins nothing, and is no half of a flag.\<close>

definition plain_char :: "u8 list \<Rightarrow> bool" where
  "plain_char c \<longleftrightarrow> utf8_char c \<and> hd c \<noteq> 0 \<and> hd c \<noteq> ch_esc \<and>
     \<not> isGraphemeExtend (code_point c) \<and> \<not> isRegionalIndicator (code_point c)"

abbreviation char_width :: "u8 list \<Rightarrow> nat" where
  "char_width c \<equiv> utf8CharWidth (code_point c)"

definition text_width :: "u8 list list \<Rightarrow> nat" where
  "text_width cs = sum_list (map char_width cs)"

lemma text_width_simps [simp]:
  "text_width [] = 0" "text_width (c # cs) = char_width c + text_width cs" "text_width (cs @ ds) = text_width cs + text_width ds"
  by (simp_all add: text_width_def)

lemma byte_at_append [simp]: "byte_at (pre @ s) (length pre + i) = byte_at s i"
  by (simp add: byte_at_def nth_append)

lemma decode_shift: "utf8DecodeChar (pre @ s) (length pre) = utf8DecodeChar s 0"
  using byte_at_append [of pre s 0] by (simp only: utf8DecodeChar_def byte_at_append add_0_right add_0)

lemma utf8ByteLen_le: "1 \<le> utf8ByteLen c" "utf8ByteLen c \<le> 4"
  by (simp_all add: utf8ByteLen_def)

lemma utf8_char_length: "utf8_char c \<Longrightarrow> 1 \<le> length c \<and> length c \<le> 4"
  using utf8ByteLen_le by (auto simp: utf8_char_def)

lemma all_bits: "(\<forall>n < 8. P n) \<longleftrightarrow> P 0 \<and> P 1 \<and> P 2 \<and> P 3 \<and> P 4 \<and> P 5 \<and> P 6 \<and> P (7 :: nat)"
  by (simp add: numeral_eq_Suc All_less_Suc conj_ac)

lemma byte_eq_iff: "a = b \<longleftrightarrow> (\<forall>n < 8. bit a n = bit b n)" for a b :: u8
  by (auto intro: bit_word_eqI)

lemma byte_bits:
  fixes b :: u8
  shows "b AND 0x80 = 0 \<longleftrightarrow> \<not> bit b 7"
    and "b AND 0xC0 = 0x80 \<longleftrightarrow> bit b 7 \<and> \<not> bit b 6"
    and "b AND 0xE0 = 0xC0 \<longleftrightarrow> bit b 7 \<and> bit b 6 \<and> \<not> bit b 5"
    and "b AND 0xF0 = 0xE0 \<longleftrightarrow> bit b 7 \<and> bit b 6 \<and> bit b 5 \<and> \<not> bit b 4"
    and "b AND 0xF8 = 0xF0 \<longleftrightarrow> bit b 7 \<and> bit b 6 \<and> bit b 5 \<and> bit b 4 \<and> \<not> bit b 3"
    and "b AND 0xF8 = 0xF8 \<longleftrightarrow> bit b 7 \<and> bit b 6 \<and> bit b 5 \<and> bit b 4 \<and> bit b 3"
  by (simp_all add: byte_eq_iff all_bits bit_and_iff) auto

lemma utf8_char_cases:
  assumes "utf8_char c"
  obtains b where "c = [b]" "b AND 0x80 = 0"
  | b c1 where "c = [b, c1]" "b AND 0x80 \<noteq> 0" "b AND 0xE0 = 0xC0"
  | b c1 c2 where "c = [b, c1, c2]" "b AND 0x80 \<noteq> 0" "b AND 0xE0 \<noteq> 0xC0" "b AND 0xF0 = 0xE0"
  | b c1 c2 c3 where "c = [b, c1, c2, c3]" "b AND 0x80 \<noteq> 0" "b AND 0xE0 \<noteq> 0xC0" "b AND 0xF0 \<noteq> 0xE0" "b AND 0xF8 = 0xF0"
proof -
  have lead: "b AND 0x80 = 0 \<or> b AND 0xE0 = 0xC0 \<or> b AND 0xF0 = 0xE0 \<or> b AND 0xF8 = 0xF0"
    if "b AND 0xF8 \<noteq> 0xF8" "b AND 0xC0 \<noteq> 0x80" for b :: u8
    using that by (auto simp: byte_bits)
  obtain b bs where c: "c = b # bs"
    using assms by (cases c) (auto simp: utf8_char_def)
  have n: "Suc (length bs) = utf8ByteLen b" and "b AND 0xF8 \<noteq> 0xF8" "b AND 0xC0 \<noteq> 0x80"
    using assms by (simp_all add: utf8_char_def c)
  then show thesis
    using lead [of b] n that c
    by (auto simp: utf8ByteLen_def length_Suc_conv numeral_eq_Suc split: if_splits)
qed

lemma decode_whole: "utf8_char c \<Longrightarrow> utf8DecodeChar (c @ s) 0 = Some (code_point c, length c)"
  by (erule utf8_char_cases) (simp_all add: code_point_def utf8DecodeChar_def byte_at_def)

lemma decode_at: "utf8_char c \<Longrightarrow> utf8DecodeChar (pre @ c @ post) (length pre) = Some (code_point c, length c)"
  by (simp add: decode_shift decode_whole)

lemma scan_back:
  assumes "\<forall>b \<in> set bs. b AND 0xC0 = 0x80" "length bs < 4" "x AND 0xC0 \<noteq> 0x80"
  shows "n \<le> length bs \<Longrightarrow> scan_prev (pre @ x # bs @ post) (length pre + Suc (length bs)) (length pre + Suc n) = Some (length pre)"
proof (induction n)
  case 0
  have "(pre @ x # bs @ post) ! length pre = x"
    by simp
  then show ?case
    using assms(3) by (simp add: byte_at_def)
next
  case (Suc n)
  have "(pre @ x # bs @ post) ! (length pre + Suc n) = bs ! n"
    using Suc.prems by (simp add: nth_append)
  moreover have "bs ! n AND 0xC0 = 0x80"
    using assms(1) Suc.prems by simp
  ultimately show ?case
    using Suc assms(2) by (simp add: byte_at_def)
qed

lemma decode_prev_at:
  assumes "utf8_char c"
  shows "utf8DecodePrev (pre @ c @ post) (length pre + length c) = Some (code_point c, length c)"
proof -
  obtain x bs where c: "c = x # bs"
    using assms by (cases c) (auto simp: utf8_char_def)
  have "scan_prev (pre @ c @ post) (length pre + length c) (length pre + length c) = Some (length pre)"
  proof -
    have "\<forall>b \<in> set bs. b AND 0xC0 = 0x80" "length bs < 4" "x AND 0xC0 \<noteq> 0x80"
      using assms utf8_char_length [OF assms] by (auto simp: c utf8_char_def)
    from scan_back [OF this order_refl, of pre post] show ?thesis
      by (simp add: c del: scan_prev.simps)
  qed
  then show ?thesis
    using decode_at [OF assms, of pre post] by (simp add: utf8DecodePrev_def c del: scan_prev.simps)
qed

text \<open>A character alone is its own cluster, seen from either side.\<close>

lemma not_extend_zwj: "\<not> isGraphemeExtend cp \<Longrightarrow> \<not> isZWJ cp"
  by (simp add: isGraphemeExtend_def)

lemma prev_plain:
  assumes "plain_char c" "\<forall>d \<in> set ds. plain_char d"
  shows "utf8PrevCharLen (concat ds @ c @ post) (length (concat ds) + length c) = Some (length c)"
proof -
  have c: "utf8_char c" "c \<noteq> []" "\<not> isGraphemeExtend (code_point c)" "\<not> isRegionalIndicator (code_point c)"
    using assms(1) by (auto simp: plain_char_def utf8_char_def)
  have "prev_cluster (concat ds @ c @ post) (code_point c) (length c) (length (concat ds)) = Some (length c)"
  proof (cases ds rule: rev_cases)
    case Nil
    then show ?thesis
      by (simp add: prev_cluster.simps)
  next
    case (snoc es d)
    then have d: "utf8_char d" "d \<noteq> []" "\<not> isGraphemeExtend (code_point d)"
      using assms(2) by (auto simp: plain_char_def utf8_char_def)
    show ?thesis
      using c d not_extend_zwj decode_prev_at [OF d(1), of "concat es" "c @ post"]
      by (subst prev_cluster.simps) (simp add: snoc)
  qed
  then show ?thesis
    using c decode_prev_at [OF c(1), of "concat ds" post] by (simp add: utf8PrevCharLen_def)
qed

lemma next_plain:
  assumes "plain_char c" "\<forall>d \<in> set ds. plain_char d"
  shows "utf8NextCharLen (pre @ c @ concat ds @ post) (length pre) (length pre + length c + length (concat ds)) = Some (length c)"
proof -
  have c: "utf8_char c" "c \<noteq> []" "\<not> isRegionalIndicator (code_point c)"
    using assms(1) by (auto simp: plain_char_def utf8_char_def)
  have "next_cluster (pre @ c @ concat ds @ post) (length pre + length c + length (concat ds)) False (length c)
      (length pre + length c) = Some (length c)"
  proof (cases ds)
    case Nil
    then show ?thesis
      by (simp add: next_cluster.simps)
  next
    case (Cons d es)
    then have d: "utf8_char d" "d \<noteq> []" "\<not> isGraphemeExtend (code_point d)"
      using assms(2) by (auto simp: plain_char_def utf8_char_def)
    show ?thesis
      using d not_extend_zwj decode_at [OF d(1), of "pre @ c" "concat es @ post"]
      by (subst next_cluster.simps) (simp add: Cons)
  qed
  then show ?thesis
    using c decode_at [OF c(1), of pre "concat ds @ post"] by (simp add: utf8NextCharLen_def)
qed

lemma str_width_plain:
  "\<forall>c \<in> set cs. plain_char c \<Longrightarrow>
    str_width (pre @ concat cs @ post) (length pre + length (concat cs)) False w (length pre) = Some (w + text_width cs)"
proof (induction cs arbitrary: pre w)
  case Nil
  then show ?case
    by (simp add: str_width.simps)
next
  case (Cons c cs)
  have c: "utf8_char c" "c \<noteq> []" "hd c \<noteq> ch_esc" "\<not> isZWJ (code_point c)"
    using Cons.prems by (auto simp: plain_char_def utf8_char_def isGraphemeExtend_def)
  have hd: "byte_at (pre @ concat (c # cs) @ post) (length pre) = Some (hd c)"
    using c(2) by (cases c) (simp_all add: byte_at_def)
  show ?case
    using Cons.IH [of "pre @ c" "w + char_width c"] Cons.prems c hd decode_at [OF c(1), of pre "concat cs @ post"]
    by (subst str_width.simps) (simp add: add.assoc)
qed

lemma width_plain:
  assumes "\<forall>c \<in> set cs. plain_char c"
  shows "utf8StrWidth (pre @ concat cs @ post) (length pre) (length (concat cs)) = Some (text_width cs)"
  using str_width_plain [OF assms, of "[]" post 0] by (simp add: utf8StrWidth_def)

lemma single_width_plain:
  assumes "plain_char c"
  shows "utf8SingleCharWidth (pre @ c @ post) (length pre) (length c) = Some (char_width c)"
  using assms by (auto simp: utf8SingleCharWidth_def decode_at plain_char_def utf8_char_def)

subsection \<open>Encoding\<close>

text \<open>The encoding of a code point, as the standard defines it.\<close>

definition utf8_encode :: "u32 \<Rightarrow> u8 list" where
  "utf8_encode cp =
     (if cp < 0x80 then [ucast cp]
      else if cp < 0x800 then [0xC0 OR ucast (drop_bit 6 cp), 0x80 OR ucast (cp AND 0x3F)]
      else if cp < 0x10000 then
        [0xE0 OR ucast (drop_bit 12 cp), 0x80 OR ucast (drop_bit 6 cp AND 0x3F), 0x80 OR ucast (cp AND 0x3F)]
      else
        [0xF0 OR ucast (drop_bit 18 cp), 0x80 OR ucast (drop_bit 12 cp AND 0x3F),
         0x80 OR ucast (drop_bit 6 cp AND 0x3F), 0x80 OR ucast (cp AND 0x3F)])"

lemma bit_below:
  fixes cp :: u32
  assumes "unat cp < 2 ^ k" "bit cp n"
  shows "n < k"
proof -
  have "bit (take_bit k (unat cp)) n"
    using assms by (simp add: take_bit_nat_eq_self bit_unsigned_iff)
  then show ?thesis
    by (simp add: bit_take_bit_iff)
qed

lemma lead_bits:
  "n < 6 \<Longrightarrow> \<not> bit (0x80 :: u8) n" "n < 5 \<Longrightarrow> \<not> bit (0xC0 :: u8) n"
  "n < 4 \<Longrightarrow> \<not> bit (0xE0 :: u8) n" "n < 3 \<Longrightarrow> \<not> bit (0xF0 :: u8) n"
  "n < 6 \<Longrightarrow> \<not> bit (0x80 :: int) n" "n < 5 \<Longrightarrow> \<not> bit (0xC0 :: int) n"
  "n < 4 \<Longrightarrow> \<not> bit (0xE0 :: int) n" "n < 3 \<Longrightarrow> \<not> bit (0xF0 :: int) n"
  by (auto simp: numeral_eq_Suc less_Suc_eq)

lemma masks: "(0x3F :: u32) = mask 6" "(0x3F :: u8) = mask 6" "(0x1F :: u8) = mask 5" "(0x0F :: u8) = mask 4" "(0x07 :: u8) = mask 3"
  by (simp_all add: mask_eq_exp_minus_1)

lemma payloads:
  fixes x :: u32
  shows "ucast ((0x80 OR ucast (x AND 0x3F) :: u8) AND 0x3F) = x AND mask 6"
    and "ucast ((0xC0 OR ucast x :: u8) AND 0x1F) = x AND mask 5"
    and "ucast ((0xE0 OR ucast x :: u8) AND 0x0F) = x AND mask 4"
    and "ucast ((0xF0 OR ucast x :: u8) AND 0x07) = x AND mask 3"
  unfolding masks by (rule bit_word_eqI; auto simp: bit_simps lead_bits)+


lemma encoded_2:
  fixes cp :: u32
  assumes "unat cp < 2 ^ 11"
  shows "push_bit 6 (drop_bit 6 cp AND mask 5) OR (cp AND mask 6) = cp"
proof (rule bit_word_eqI)
  fix n :: nat
  consider "n < 6" | "6 \<le> n" by linarith
  then show "bit (push_bit 6 (drop_bit 6 cp AND mask 5) OR (cp AND mask 6)) n = bit cp n"
    using bit_below [OF assms, of n] bit_imp_le_length [of cp n] by cases (auto simp: bit_simps)
qed

lemma encoded_3:
  fixes cp :: u32
  assumes "unat cp < 2 ^ 16"
  shows "push_bit 12 (drop_bit 12 cp AND mask 4) OR push_bit 6 (drop_bit 6 cp AND mask 6) OR (cp AND mask 6) = cp"
proof (rule bit_word_eqI)
  fix n :: nat
  consider "n < 6" | "6 \<le> n" "n < 12" | "12 \<le> n" by linarith
  then show "bit (push_bit 12 (drop_bit 12 cp AND mask 4) OR push_bit 6 (drop_bit 6 cp AND mask 6) OR (cp AND mask 6)) n = bit cp n"
    using bit_below [OF assms, of n] bit_imp_le_length [of cp n] by cases (auto simp: bit_simps)
qed

lemma encoded_4:
  fixes cp :: u32
  assumes "unat cp < 2 ^ 21"
  shows "push_bit 18 (drop_bit 18 cp AND mask 3) OR push_bit 12 (drop_bit 12 cp AND mask 6) OR
    push_bit 6 (drop_bit 6 cp AND mask 6) OR (cp AND mask 6) = cp"
proof (rule bit_word_eqI)
  fix n :: nat
  consider "n < 6" | "6 \<le> n" "n < 12" | "12 \<le> n" "n < 18" | "18 \<le> n" by linarith
  then show "bit (push_bit 18 (drop_bit 18 cp AND mask 3) OR push_bit 12 (drop_bit 12 cp AND mask 6) OR
      push_bit 6 (drop_bit 6 cp AND mask 6) OR (cp AND mask 6)) n = bit cp n"
    using bit_below [OF assms, of n] bit_imp_le_length [of cp n] by cases (auto simp: bit_simps)
qed

lemma unat_bounds:
  fixes cp :: u32
  shows "cp < 0x80 \<longleftrightarrow> unat cp < 2 ^ 7" "cp < 0x800 \<longleftrightarrow> unat cp < 2 ^ 11" "cp < 0x10000 \<longleftrightarrow> unat cp < 2 ^ 16"
    "cp < 0x200000 \<longleftrightarrow> unat cp < 2 ^ 21"
  by (simp_all add: word_less_nat_alt)

lemma lead_byte_bits:
  "bit (0x80 :: u8) 7" "\<not> bit (0x80 :: u8) 6" "bit (0xC0 :: u8) 7" "bit (0xC0 :: u8) 6" "\<not> bit (0xC0 :: u8) 5" "\<not> bit (0x3F :: u32) 6"
  "bit (0xE0 :: u8) 7" "bit (0xE0 :: u8) 6" "bit (0xE0 :: u8) 5" "\<not> bit (0xE0 :: u8) 4"
  "bit (0xF0 :: u8) 7" "bit (0xF0 :: u8) 6" "bit (0xF0 :: u8) 5" "bit (0xF0 :: u8) 4" "\<not> bit (0xF0 :: u8) 3"
  by simp_all

lemma encode_char:
  assumes "cp < 0x200000"
  shows "utf8_char (utf8_encode cp)"
proof -
  note below = bit_below [of cp]
  consider "cp < 0x80" | "\<not> cp < 0x80" "cp < 0x800" | "\<not> cp < 0x80" "\<not> cp < 0x800" "cp < 0x10000" | "\<not> cp < 0x80" "\<not> cp < 0x800" "\<not> cp < 0x10000"
    by blast
  then show ?thesis
  proof cases
    case 1
    then have "\<not> bit cp 7"
      using below [of 7 7] by (auto simp: unat_bounds)
    then show ?thesis
      using 1 by (simp add: utf8_encode_def utf8_char_def utf8ByteLen_def byte_bits bit_unsigned_iff)
  next
    case 2
    then have "\<not> bit cp 11"
      using below [of 11 11] by (auto simp: unat_bounds)
    then show ?thesis
      using 2 by (simp add: utf8_encode_def utf8_char_def utf8ByteLen_def byte_bits bit_or_iff bit_and_iff bit_unsigned_iff bit_drop_bit_eq)
  next
    case 3
    then have "\<not> bit cp 16"
      using below [of 16 16] by (auto simp: unat_bounds)
    then show ?thesis
      using 3 by (simp add: utf8_encode_def utf8_char_def utf8ByteLen_def byte_bits bit_or_iff bit_and_iff bit_unsigned_iff bit_drop_bit_eq)
  next
    case 4
    then have "\<not> bit cp 21"
      using below [of 21 21] assms by (auto simp: unat_bounds)
    then show ?thesis
      using 4 by (simp add: utf8_encode_def utf8_char_def utf8ByteLen_def byte_bits bit_or_iff bit_and_iff bit_unsigned_iff bit_drop_bit_eq)
  qed
qed

lemma encode_code_point:
  assumes "cp < 0x200000"
  shows "code_point (utf8_encode cp) = cp"
proof -
  note below = bit_below [of cp]
  note decoding = code_point_def utf8_encode_def utf8DecodeChar_def byte_at_def
  note tests = byte_bits bit_or_iff bit_and_iff bit_unsigned_iff bit_drop_bit_eq
  consider "cp < 0x80" | "\<not> cp < 0x80" "cp < 0x800" | "\<not> cp < 0x80" "\<not> cp < 0x800" "cp < 0x10000" | "\<not> cp < 0x80" "\<not> cp < 0x800" "\<not> cp < 0x10000"
    by blast
  then show ?thesis
  proof cases
    case 1
    then have "ucast (ucast cp :: u8) = cp"
      using below [of 7] by (intro bit_word_eqI) (fastforce simp: unat_bounds bit_unsigned_iff)
    moreover have "\<not> bit cp 7"
      using 1 below [of 7 7] by (auto simp: unat_bounds)
    ultimately show ?thesis
      using 1 by (simp add: decoding tests)
  next
    case 2
    then have "\<not> bit cp 11"
      using below [of 11 11] by (auto simp: unat_bounds)
    then show ?thesis
      using 2 encoded_2 [of cp] by (simp add: decoding tests payloads unat_bounds)
  next
    case 3
    then have "\<not> bit cp 16"
      using below [of 16 16] by (auto simp: unat_bounds)
    then show ?thesis
      using 3 encoded_3 [of cp] by (simp add: decoding tests payloads unat_bounds)
  next
    case 4
    then have "\<not> bit cp 21"
      using below [of 21 21] assms by (auto simp: unat_bounds)
    then show ?thesis
      using 4 assms encoded_4 [of cp] by (simp add: decoding tests payloads unat_bounds)
  qed
qed

text \<open>C31: A code point encoded as the standard says is decoded to itself at any place of a text, forward and
  backward, with the length of its encoding.\<close>

theorem utf8_decode_encode:
  assumes "cp < 0x200000"
  shows "utf8DecodeChar (pre @ utf8_encode cp @ post) (length pre) = Some (cp, length (utf8_encode cp)) \<and>
    utf8DecodePrev (pre @ utf8_encode cp @ post) (length pre + length (utf8_encode cp)) = Some (cp, length (utf8_encode cp))"
  using decode_at [OF encode_char [OF assms]] decode_prev_at [OF encode_char [OF assms]] encode_code_point [OF assms] by simp

theorem utf8_decode_encode_witness:
  "utf8DecodeChar [0x61, 0xF0, 0x9F, 0x98, 0x80, 0x62] 1 = Some (0x1F600, 4) \<and> utf8DecodePrev [0x61, 0xF0, 0x9F, 0x98, 0x80, 0x62] 5 = Some (0x1F600, 4)"
proof -
  have enc: "utf8_encode 0x1F600 = [0xF0, 0x9F, 0x98, 0x80]" and small: "(0x1F600 :: u32) < 0x200000"
    by code_simp+
  have at: "length [0x61 :: u8] = 1" "1 + 4 = (5 :: nat)" "length [0xF0, 0x9F, 0x98, 0x80 :: u8] = 4"
    by simp_all
  show ?thesis
    using utf8_decode_encode [OF small, of "[0x61]" "[0x62]"] unfolding enc at append.simps .
qed

end
