(* ===== verification/Ln_History.thy ===== *)
theory Ln_History
  imports Prelude "HOL-Library.Monad_Syntax" "HOL-Library.Sublist"
begin

text \<open>
  The history of the line editor, \<^verbatim>\<open>src/lib/bp_linenoise/linenoise.c\<close> as built for the firmware: the entries are
  packed one after another, each with its NUL, in a buffer of 1024 bytes; a ring of 8 descriptors has the place of each.
  \<open>None\<close> is an access outside of an array. The newest entry is the line being edited while an edit is under way.
  The second part shows that the ring is a list of lines: the newest eight, as far back as the buffer holds them.
\<close>

subsection \<open>Memory\<close>

definition put_bytes :: "nat \<Rightarrow> u8 list \<Rightarrow> u8 list \<Rightarrow> u8 list option" where
  "put_bytes off xs b = (if off + length xs \<le> length b then Some (take off b @ xs @ drop (off + length xs) b) else None)"

definition get_bytes :: "nat \<Rightarrow> nat \<Rightarrow> u8 list \<Rightarrow> u8 list option" where
  "get_bytes off n b = (if off + n \<le> length b then Some (take n (drop off b)) else None)"

definition move_bytes :: "nat \<Rightarrow> nat \<Rightarrow> nat \<Rightarrow> u8 list \<Rightarrow> u8 list option" where
  "move_bytes dest src n b = do { xs \<leftarrow> get_bytes src n b; put_bytes dest xs b }"

text \<open>The string at the start of an array, and what \<open>strncpy\<close> leaves in an array for a string shorter or longer than its count.\<close>

definition c_string :: "u8 list \<Rightarrow> cstr" where
  "c_string b = takeWhile (\<lambda>c. c \<noteq> 0) b"

definition strncpy_bytes :: "cstr \<Rightarrow> nat \<Rightarrow> u8 list" where
  "strncpy_bytes s n = take n (s @ replicate n 0)"

subsection \<open>The ring\<close>

abbreviation "BP_LINENOISE_MAX_LINE \<equiv> 256 :: nat"
abbreviation "BP_LINENOISE_HISTORY_MAX \<equiv> 8 :: nat"
abbreviation "BP_LINENOISE_HISTORY_BUF_SIZE \<equiv> 1024 :: nat"

record hist_entry =
  he_offset :: nat
  he_len :: nat

record ln_history =
  history_buf :: "u8 list"
  buf_used :: nat
  history_ring :: "hist_entry list"
  ring_head :: nat
  history_len :: nat

definition history_init :: ln_history where
  "history_init = \<lparr>history_buf = replicate BP_LINENOISE_HISTORY_BUF_SIZE 0, buf_used = 0,
     history_ring = replicate BP_LINENOISE_HISTORY_MAX \<lparr>he_offset = 0, he_len = 0\<rparr>, ring_head = 0, history_len = 0\<rparr>"

definition ring_index :: "ln_history \<Rightarrow> nat \<Rightarrow> nat" where
  "ring_index h i = (ring_head h + i) mod BP_LINENOISE_HISTORY_MAX"

definition hist_at :: "ln_history \<Rightarrow> nat \<Rightarrow> hist_entry" where
  "hist_at h i = history_ring h ! ring_index h i"

text \<open>Moving the live data to the front; the offsets are 16-bit values.\<close>

definition slide_entry :: "nat \<Rightarrow> ln_history \<Rightarrow> hist_entry list \<Rightarrow> nat \<Rightarrow> hist_entry list" where
  "slide_entry first_off h ring i =
     (let ri = ring_index h i in ring[ri := (ring ! ri)\<lparr>he_offset := (he_offset (ring ! ri) + 65536 - first_off) mod 65536\<rparr>])"

definition slide_offsets :: "nat \<Rightarrow> ln_history \<Rightarrow> hist_entry list" where
  "slide_offsets first_off h = foldl (slide_entry first_off h) (history_ring h) [0..<history_len h]"

definition slide :: "ln_history \<Rightarrow> ln_history option" where
  "slide h = (let first_off = he_offset (hist_at h 0) in
     if buf_used h < first_off then None
     else do {
       buf \<leftarrow> move_bytes 0 first_off (buf_used h - first_off) (history_buf h);
       Some (h\<lparr>history_buf := buf, history_ring := slide_offsets first_off h, buf_used := buf_used h - first_off\<rparr>) })"

definition evict_oldest :: "ln_history \<Rightarrow> ln_history" where
  "evict_oldest h = h\<lparr>ring_head := (ring_head h + 1) mod BP_LINENOISE_HISTORY_MAX, history_len := history_len h - 1\<rparr>"

lemma slide_len: "slide h = Some h' \<Longrightarrow> history_len h' = history_len h"
  by (auto simp: slide_def Let_def Option.bind_eq_Some_conv split: if_splits)

function evict_until_fits :: "nat \<Rightarrow> ln_history \<Rightarrow> ln_history option" where
  "evict_until_fits needed h =
     (if 0 < history_len h \<and> BP_LINENOISE_HISTORY_BUF_SIZE < buf_used h + needed then
        let h1 = evict_oldest h in
        (case (if 0 < history_len h1 then slide h1 else Some (h1\<lparr>buf_used := 0\<rparr>)) of
           None \<Rightarrow> None
         | Some h2 \<Rightarrow> evict_until_fits needed h2)
      else Some h)"
  by pat_completeness auto
termination
  by (relation "measure (\<lambda>(needed, h). history_len h)")
    (auto simp: evict_oldest_def split: if_splits dest!: slide_len)

declare evict_until_fits.simps [simp del]

definition make_room :: "nat \<Rightarrow> ln_history \<Rightarrow> ln_history option" where
  "make_room needed h =
     (if BP_LINENOISE_HISTORY_BUF_SIZE < buf_used h + needed then do {
        h1 \<leftarrow> (if 0 < history_len h then (if 0 < he_offset (hist_at h 0) then slide h else Some h) else Some (h\<lparr>buf_used := 0\<rparr>));
        evict_until_fits needed h1 }
      else Some h)"

definition is_newest :: "cstr \<Rightarrow> ln_history \<Rightarrow> bool option" where
  "is_newest line h =
     (if 0 < history_len h then
        let newest = hist_at h (history_len h - 1); slen = length line in
        if he_len newest = slen then map_option (\<lambda>s. s = line) (get_bytes (he_offset newest) slen (history_buf h))
        else Some False
      else Some False)"

definition append_entry :: "cstr \<Rightarrow> ln_history \<Rightarrow> ln_history option" where
  "append_entry line h = do {
     buf \<leftarrow> put_bytes (buf_used h) (line @ [0]) (history_buf h);
     Some (h\<lparr>history_buf := buf,
       history_ring := (history_ring h)[ring_index h (history_len h) := \<lparr>he_offset = buf_used h, he_len = length line\<rparr>],
       buf_used := buf_used h + (length line + 1), history_len := history_len h + 1\<rparr>) }"

definition linenoiseHistoryAdd :: "cstr \<Rightarrow> ln_history \<Rightarrow> (bool \<times> ln_history) option" where
  "linenoiseHistoryAdd text h =
     (let line = take BP_LINENOISE_MAX_LINE text in do {
        same \<leftarrow> is_newest line h;
        if same then Some (False, h)
        else do {
          h2 \<leftarrow> make_room (length line + 1) (if BP_LINENOISE_HISTORY_MAX \<le> history_len h then evict_oldest h else h);
          h3 \<leftarrow> append_entry line h2;
          Some (True, h3) } })"

definition linenoiseHistoryClear :: "ln_history \<Rightarrow> ln_history" where
  "linenoiseHistoryClear h = h\<lparr>history_len := 0, ring_head := 0, buf_used := 0\<rparr>"

text \<open>What the keys Enter and Ctrl-D do: the entry of the edited line is taken away. The counter of the code goes below zero
  when there is none; a session always has one.\<close>

definition history_drop :: "ln_history \<Rightarrow> ln_history option" where
  "history_drop h =
     (if history_len h = 0 then None
      else let n = history_len h - 1 in
        Some (h\<lparr>history_len := n, buf_used := (if 0 < n then he_offset (hist_at h (n - 1)) + he_len (hist_at h (n - 1)) + 1 else 0)\<rparr>))"

text \<open>The two halves of \<open>linenoiseEditHistoryNext\<close> that touch the history.\<close>

definition history_save :: "cstr \<Rightarrow> ln_history \<Rightarrow> ln_history option" where
  "history_save text h =
     (let ri = ring_index h (history_len h - 1); newest = history_ring h ! ri;
          line = take BP_LINENOISE_MAX_LINE text; new_end = he_offset newest + length line + 1 in
      if new_end \<le> BP_LINENOISE_HISTORY_BUF_SIZE then do {
        buf \<leftarrow> put_bytes (he_offset newest) (line @ [0]) (history_buf h);
        Some (h\<lparr>history_buf := buf, history_ring := (history_ring h)[ri := newest\<lparr>he_len := length line\<rparr>], buf_used := new_end\<rparr>) }
      else Some h)"

definition history_text :: "nat \<Rightarrow> ln_history \<Rightarrow> cstr" where
  "history_text i h = c_string (drop (he_offset (hist_at h i)) (history_buf h))"

subsection \<open>The lines behind the ring\<close>

definition live :: "ln_history \<Rightarrow> hist_entry list" where
  "live h = map (hist_at h) [0..<history_len h]"

text \<open>\<open>laid b off entries lines stop\<close>: the entries describe the lines, packed from \<open>off\<close> to \<open>stop\<close>.\<close>

fun laid :: "u8 list \<Rightarrow> nat \<Rightarrow> hist_entry list \<Rightarrow> cstr list \<Rightarrow> nat \<Rightarrow> bool" where
  "laid b off [] [] stop = (off = stop)"
| "laid b off (en # ens) (s # ss) stop =
     (he_offset en = off \<and> he_len en = length s \<and> take (length s + 1) (drop off b) = s @ [0] \<and> 0 \<notin> set s \<and>
      laid b (off + length s + 1) ens ss stop)"
| "laid b off _ _ stop = False"

definition lines_size :: "cstr list \<Rightarrow> nat" where
  "lines_size ss = sum_list (map (\<lambda>s. length s + 1) ss)"

lemma lines_size_simps [simp]:
  "lines_size [] = 0" "lines_size (s # ss) = length s + 1 + lines_size ss" "lines_size (ss @ ts) = lines_size ss + lines_size ts"
  by (simp_all add: lines_size_def)

definition history_holds :: "ln_history \<Rightarrow> cstr list \<Rightarrow> bool" where
  "history_holds h ss \<longleftrightarrow>
     length (history_buf h) = BP_LINENOISE_HISTORY_BUF_SIZE \<and> length (history_ring h) = BP_LINENOISE_HISTORY_MAX \<and>
     ring_head h < BP_LINENOISE_HISTORY_MAX \<and> history_len h = length ss \<and> length ss \<le> BP_LINENOISE_HISTORY_MAX \<and>
     buf_used h \<le> BP_LINENOISE_HISTORY_BUF_SIZE \<and> (\<exists>off. laid (history_buf h) off (live h) ss (buf_used h))"

text \<open>The reference: a line is not added twice in a row; the oldest lines go when there are eight, and when the
  lines do not fit the buffer.\<close>

fun keep_fitting :: "nat \<Rightarrow> cstr list \<Rightarrow> cstr list" where
  "keep_fitting needed [] = []"
| "keep_fitting needed (s # ss) =
     (if BP_LINENOISE_HISTORY_BUF_SIZE < lines_size (s # ss) + needed then keep_fitting needed ss else s # ss)"

definition history_add :: "cstr \<Rightarrow> cstr list \<Rightarrow> cstr list" where
  "history_add line ss =
     (if ss \<noteq> [] \<and> last ss = line then ss
      else keep_fitting (length line + 1) (if BP_LINENOISE_HISTORY_MAX \<le> length ss then tl ss else ss) @ [line])"

lemma laid_length: "laid b off ens ss stop \<Longrightarrow> length ens = length ss \<and> stop = off + lines_size ss"
  by (induction b off ens ss stop rule: laid.induct) auto

lemma laid_append:
  "length ens = length ss \<Longrightarrow> laid b off (ens @ [en]) (ss @ [s]) stop \<longleftrightarrow>
    (\<exists>mid. laid b off ens ss mid \<and> laid b mid [en] [s] stop)"
proof (induction ens ss arbitrary: off rule: list_induct2)
  case (Cons en' ens s' ss)
  then show ?case
    by auto
qed simp

text \<open>Only the bytes up to the end matter.\<close>

lemma laid_cong:
  assumes "take stop b = take stop b'"
  shows "laid b off ens ss stop \<Longrightarrow> laid b' off ens ss stop"
  using assms
proof (induction b off ens ss stop rule: laid.induct)
  case (2 b off en ens s ss stop)
  have "off + length s + 1 \<le> stop"
    using 2(2) laid_length by fastforce
  then have "take (length s + 1) (drop off b) = take (length s + 1) (drop off (take stop b))"
    by (simp add: drop_take take_take min_def)
  also have "\<dots> = take (length s + 1) (drop off b')"
    using 2(3) \<open>off + length s + 1 \<le> stop\<close> by (simp add: drop_take take_take min_def)
  finally show ?case
    using 2 by simp
qed auto

text \<open>The whole block moved.\<close>

lemma laid_move:
  assumes "laid b off ens ss stop" "stop \<le> length b" "k \<le> off"
  shows "laid (take (stop - k) (drop k b) @ r) (off - k) (map (\<lambda>en. en\<lparr>he_offset := he_offset en - k\<rparr>) ens) ss (stop - k)"
  using assms
proof (induction b off ens ss stop rule: laid.induct)
  case (2 b off en ens s ss stop)
  have le: "off + length s + 1 \<le> stop"
    using 2(2) laid_length by fastforce
  have "take (length s + 1) (drop (off - k) (take (stop - k) (drop k b) @ r)) = take (length s + 1) (drop off b)"
    using le 2(3,4) by (auto simp: drop_take take_take min_def)
  moreover have "off + length s + 1 - k = off - k + length s + 1"
    using 2(4) by simp
  ultimately show ?case
    using 2(1) 2(2-4) by (simp only: laid.simps list.map hist_entry.simps) auto
qed auto

subsection \<open>The ring and the list of live entries\<close>

lemma ring_index_less [simp]: "ring_index h i < 8"
  by (simp add: ring_index_def)

lemma ring_index_inj:
  assumes "ring_index h i = ring_index h j" "i < 8" "j < 8"
  shows "i = j"
proof -
  define a where "a = ring_head h mod 8"
  have "(a + i) mod 8 = (a + j) mod 8" "a < 8"
    using assms(1) by (simp_all add: ring_index_def a_def mod_simps)
  moreover have "(a + n) mod 8 = (if a + n < 8 then a + n else a + n - 8)" if "n < 8" for n
    using \<open>a < 8\<close> that by (simp add: mod_if)
  ultimately show ?thesis
    using assms(2,3) by (auto split: if_splits)
qed

lemma live_nth: "i < history_len h \<Longrightarrow> live h ! i = hist_at h i"
  by (simp add: live_def)

lemma live_length [simp]: "length (live h) = history_len h"
  by (simp add: live_def)

lemma live_evict: "history_len h \<noteq> 0 \<Longrightarrow> live (evict_oldest h) = tl (live h)"
proof (rule nth_equalityI)
  fix i assume "history_len h \<noteq> 0" "i < length (live (evict_oldest h))"
  moreover have "((ring_head h + 1) mod 8 + i) mod 8 = (ring_head h + Suc i) mod 8"
    by (simp add: mod_simps)
  ultimately show "live (evict_oldest h) ! i = tl (live h) ! i"
    by (simp add: live_nth nth_tl evict_oldest_def hist_at_def ring_index_def)
qed (simp add: evict_oldest_def)

lemma live_take: "history_len h' = n \<Longrightarrow> n \<le> history_len h \<Longrightarrow> history_ring h' = history_ring h \<Longrightarrow> ring_head h' = ring_head h \<Longrightarrow>
    live h' = take n (live h)"
  by (rule nth_equalityI) (simp_all add: live_nth hist_at_def ring_index_def)

lemma live_append:
  assumes "history_len h < 8" "length (history_ring h) = 8"
  shows "live (h\<lparr>history_buf := b, history_ring := (history_ring h)[ring_index h (history_len h) := en], buf_used := u,
    history_len := history_len h + 1\<rparr>) = live h @ [en]"
proof (rule nth_equalityI)
  fix i assume "i < length (live (h\<lparr>history_buf := b, history_ring := (history_ring h)[ring_index h (history_len h) := en], buf_used := u,
    history_len := history_len h + 1\<rparr>))"
  then have "i < history_len h + 1"
    by simp
  moreover have "ring_index h (history_len h) \<noteq> ring_index h i" if "i < history_len h"
    using ring_index_inj [of h "history_len h" i] that assms(1) by auto
  ultimately show "live (h\<lparr>history_buf := b, history_ring := (history_ring h)[ring_index h (history_len h) := en], buf_used := u,
    history_len := history_len h + 1\<rparr>) ! i = (live h @ [en]) ! i"
    using assms(2) by (auto simp: live_nth nth_append hist_at_def ring_index_def less_Suc_eq)
qed simp

lemma live_last:
  assumes "history_len h = Suc n" "n < 8" "length (history_ring h) = 8"
  shows "live (h\<lparr>history_buf := b, history_ring := (history_ring h)[ring_index h n := en], buf_used := u\<rparr>) = butlast (live h) @ [en]"
proof (rule nth_equalityI)
  fix i assume "i < length (live (h\<lparr>history_buf := b, history_ring := (history_ring h)[ring_index h n := en], buf_used := u\<rparr>))"
  then have "i < Suc n"
    using assms(1) by simp
  moreover have "ring_index h n \<noteq> ring_index h i" if "i < n"
    using ring_index_inj [of h n i] that assms(2) by auto
  ultimately show "live (h\<lparr>history_buf := b, history_ring := (history_ring h)[ring_index h n := en], buf_used := u\<rparr>) ! i = (butlast (live h) @ [en]) ! i"
    using assms by (auto simp: live_nth nth_append nth_butlast hist_at_def ring_index_def less_Suc_eq)
qed (simp add: assms(1))

lemma slide_offsets_nth:
  assumes "length (history_ring h) = 8" "history_len h \<le> 8"
  shows "n \<le> history_len h \<Longrightarrow>
    (let r = foldl (slide_entry k h) (history_ring h) [0..<n] in
     length r = 8 \<and> (\<forall>i < history_len h. r ! ring_index h i =
       (if i < n then (hist_at h i)\<lparr>he_offset := (he_offset (hist_at h i) + 65536 - k) mod 65536\<rparr> else hist_at h i)))"
proof (induction n)
  case 0
  then show ?case
    using assms by (simp add: hist_at_def)
next
  case (Suc n)
  have neq: "ring_index h n \<noteq> ring_index h i" if "i < history_len h" "i \<noteq> n" for i
    using ring_index_inj [of h n i] that assms(2) Suc.prems by auto
  define r where "r = foldl (slide_entry k h) (history_ring h) [0..<n]"
  have IH: "length r = 8" "\<And>i. i < history_len h \<Longrightarrow> r ! ring_index h i =
      (if i < n then (hist_at h i)\<lparr>he_offset := (he_offset (hist_at h i) + 65536 - k) mod 65536\<rparr> else hist_at h i)"
    using Suc by (simp_all add: r_def Let_def)
  have n: "n < history_len h"
    using Suc.prems by simp
  define en where "en = (r ! ring_index h n)\<lparr>he_offset := (he_offset (r ! ring_index h n) + 65536 - k) mod 65536\<rparr>"
  have en: "en = (hist_at h n)\<lparr>he_offset := (he_offset (hist_at h n) + 65536 - k) mod 65536\<rparr>"
    using IH(2) [OF n] by (simp add: en_def)
  have "r[ring_index h n := en] ! ring_index h i =
      (if i < Suc n then (hist_at h i)\<lparr>he_offset := (he_offset (hist_at h i) + 65536 - k) mod 65536\<rparr> else hist_at h i)"
    if "i < history_len h" for i
    using IH(1) IH(2) [OF that] neq [OF that] en by (cases "i = n") auto
  moreover have "slide_entry k h r n = r[ring_index h n := en]"
    by (simp add: slide_entry_def Let_def en_def)
  ultimately show ?case
    using IH(1) by (simp add: r_def [symmetric])
qed

lemma live_slide:
  assumes "length (history_ring h) = 8" "history_len h \<le> 8" "\<forall>en \<in> set (live h). k \<le> he_offset en \<and> he_offset en < 65536"
  shows "live (h\<lparr>history_buf := b, history_ring := slide_offsets k h, buf_used := u\<rparr>) =
      map (\<lambda>en. en\<lparr>he_offset := he_offset en - k\<rparr>) (live h)" (is ?live)
    and "length (slide_offsets k h) = 8" (is ?length)
proof -
  note r = slide_offsets_nth [OF assms(1,2) order_refl, of k, folded slide_offsets_def, unfolded Let_def]
  show ?length
    using r by simp
  show ?live
  proof (rule nth_equalityI)
    fix i assume "i < length (live (h\<lparr>history_buf := b, history_ring := slide_offsets k h, buf_used := u\<rparr>))"
    then have i: "i < history_len h"
      by simp
    then have le: "k \<le> he_offset (hist_at h i)" "he_offset (hist_at h i) < 65536"
      using assms(3) by (auto simp: live_def)
    have shift: "he_offset (hist_at h i) + 65536 - k = he_offset (hist_at h i) - k + 65536"
      using le by simp
    have "(he_offset (hist_at h i) + 65536 - k) mod 65536 = he_offset (hist_at h i) - k"
      unfolding shift mod_add_self2 using le by simp
    moreover have "slide_offsets k h ! ring_index h i = (hist_at h i)\<lparr>he_offset := (he_offset (hist_at h i) + 65536 - k) mod 65536\<rparr>"
      using r i by simp
    ultimately show "live (h\<lparr>history_buf := b, history_ring := slide_offsets k h, buf_used := u\<rparr>) ! i =
        map (\<lambda>en. en\<lparr>he_offset := he_offset en - k\<rparr>) (live h) ! i"
      using i by (simp add: live_nth hist_at_def [of "h\<lparr>history_buf := b, history_ring := slide_offsets k h, buf_used := u\<rparr>"] ring_index_def)
  qed simp
qed

subsection \<open>Every operation keeps the correspondence\<close>

lemma history_init_holds: "history_holds history_init []"
  by (simp add: history_holds_def history_init_def live_def)

lemma clear_holds: "history_holds h ss \<Longrightarrow> history_holds (linenoiseHistoryClear h) []"
  by (simp add: history_holds_def linenoiseHistoryClear_def live_def)

lemma laid_nth:
  "laid b off ens ss stop \<Longrightarrow> i < length ss \<Longrightarrow>
    he_len (ens ! i) = length (ss ! i) \<and> take (length (ss ! i) + 1) (drop (he_offset (ens ! i)) b) = ss ! i @ [0] \<and> 0 \<notin> set (ss ! i) \<and>
    he_offset (ens ! i) = off + lines_size (take i ss) \<and> he_offset (ens ! i) + length (ss ! i) + 1 \<le> stop"
proof (induction b off ens ss stop arbitrary: i rule: laid.induct)
  case (2 b off en ens s ss stop)
  then have le: "off + length s + 1 \<le> stop" and l: "laid b (off + length s + 1) ens ss stop"
    using laid_length by fastforce+
  show ?case
  proof (cases i)
    case 0
    then show ?thesis
      using 2(2) le by simp
  next
    case (Suc j)
    then have "j < length ss"
      using 2(3) by simp
    note 2(1) [OF l this]
    then show ?thesis
      using Suc by (elim conjE) simp
  qed
qed auto

lemma holds_entry:
  assumes "history_holds h ss" "i < length ss"
  shows "he_len (hist_at h i) = length (ss ! i)"
    and "take (length (ss ! i) + 1) (drop (he_offset (hist_at h i)) (history_buf h)) = ss ! i @ [0]"
    and "0 \<notin> set (ss ! i)"
    and "he_offset (hist_at h i) + length (ss ! i) + 1 \<le> buf_used h"
  using assms laid_nth [of "history_buf h" _ "live h" ss "buf_used h" i] live_nth [of i h]
  by (auto simp: history_holds_def)

lemma evict_holds:
  assumes "history_holds h (s # ss)"
  shows "history_holds (evict_oldest h) ss" "buf_used (evict_oldest h) = buf_used h"
proof -
  obtain off where l: "laid (history_buf h) off (live h) (s # ss) (buf_used h)" and n: "history_len h = Suc (length ss)"
    using assms by (auto simp: history_holds_def)
  have "live (evict_oldest h) = tl (live h)"
    using n by (intro live_evict) simp
  moreover have "laid (history_buf h) (off + length s + 1) (tl (live h)) ss (buf_used h)"
    using l by (cases "live h") simp_all
  ultimately show "history_holds (evict_oldest h) ss"
    using assms n by (auto simp: history_holds_def evict_oldest_def)
qed (simp add: evict_oldest_def)

lemma slide_holds:
  assumes "history_holds h ss" "ss \<noteq> []"
  shows "\<exists>h'. slide h = Some h' \<and> history_holds h' ss \<and> buf_used h' = lines_size ss"
proof -
  obtain off where l: "laid (history_buf h) off (live h) ss (buf_used h)"
    using assms(1) by (auto simp: history_holds_def)
  have sizes: "length (history_buf h) = 1024" "length (history_ring h) = 8" "history_len h = length ss" "length ss \<le> 8" "buf_used h \<le> 1024"
    using assms(1) by (simp_all add: history_holds_def)
  have stop: "buf_used h = off + lines_size ss"
    using laid_length [OF l] by simp
  have first: "he_offset (hist_at h 0) = off"
    using laid_nth [OF l, of 0] live_nth [of 0 h] assms(2) sizes(3) by simp
  have offsets: "\<forall>en \<in> set (live h). off \<le> he_offset en \<and> he_offset en < 65536"
    using laid_nth [OF l] sizes(3,5) by (fastforce simp: in_set_conv_nth)
  define b where "b = take (buf_used h - off) (drop off (history_buf h)) @ drop (buf_used h - off) (history_buf h)"
  define h' where "h' = h\<lparr>history_buf := b, history_ring := slide_offsets off h, buf_used := buf_used h - off\<rparr>"
  have "slide h = Some h'"
    using sizes stop by (simp add: slide_def first Let_def move_bytes_def get_bytes_def put_bytes_def h'_def b_def)
  moreover have "laid b 0 (live h') ss (buf_used h - off)"
    using laid_move [OF l _ order_refl, of "drop (buf_used h - off) (history_buf h)"] sizes(1,5)
      live_slide(1) [OF sizes(2) _ offsets] sizes(3,4) by (simp add: h'_def b_def)
  then have "history_holds h' ss"
    using assms(1) sizes stop live_slide(2) [OF sizes(2) _ offsets] by (auto simp: history_holds_def h'_def b_def)
  ultimately show ?thesis
    using stop by (simp add: h'_def)
qed

lemma evict_until_fits_holds:
  "history_holds h ss \<Longrightarrow> buf_used h = lines_size ss \<Longrightarrow> needed \<le> 1024 \<Longrightarrow>
    \<exists>h'. evict_until_fits needed h = Some h' \<and> history_holds h' (keep_fitting needed ss) \<and> buf_used h' + needed \<le> 1024"
proof (induction ss arbitrary: h)
  case Nil
  then show ?case
    by (subst evict_until_fits.simps) (simp add: history_holds_def)
next
  case (Cons s ss)
  have n: "history_len h = Suc (length ss)"
    using Cons.prems(1) by (simp add: history_holds_def)
  show ?case
  proof (cases "1024 < buf_used h + needed")
    case True
    have "history_len (evict_oldest h) = length ss"
      using n by (simp add: evict_oldest_def)
    have "\<exists>h2. (if 0 < history_len (evict_oldest h) then slide (evict_oldest h) else Some ((evict_oldest h)\<lparr>buf_used := 0\<rparr>)) = Some h2 \<and>
        history_holds h2 ss \<and> buf_used h2 = lines_size ss"
    proof (cases "ss = []")
      case True
      then show ?thesis
        using evict_holds(1) [OF Cons.prems(1)] \<open>history_len (evict_oldest h) = length ss\<close>
        by (auto simp: history_holds_def live_def)
    next
      case False
      then show ?thesis
        using slide_holds [OF evict_holds(1) [OF Cons.prems(1)]] \<open>history_len (evict_oldest h) = length ss\<close> by simp
    qed
    then obtain h2 where h2: "(if 0 < history_len (evict_oldest h) then slide (evict_oldest h) else Some ((evict_oldest h)\<lparr>buf_used := 0\<rparr>)) = Some h2"
        "history_holds h2 ss" "buf_used h2 = lines_size ss"
      by blast
    have "evict_until_fits needed h = evict_until_fits needed h2"
      using True n by (subst evict_until_fits.simps) (simp add: Let_def h2(1))
    moreover have "keep_fitting needed (s # ss) = keep_fitting needed ss"
      using True Cons.prems(2) by simp
    ultimately show ?thesis
      using Cons.IH [OF h2(2,3) Cons.prems(3)] by simp
  next
    case False
    then show ?thesis
      using Cons.prems by (subst evict_until_fits.simps) simp
  qed
qed

lemma fitting_small: "lines_size ss + needed \<le> 1024 \<Longrightarrow> keep_fitting needed ss = ss"
  by (cases ss) simp_all

lemma keep_fitting_length: "length (keep_fitting needed ss) \<le> length ss"
  by (induction ss) simp_all

lemma make_room_holds:
  assumes "history_holds h ss" "needed \<le> 1024"
  shows "\<exists>h'. make_room needed h = Some h' \<and> history_holds h' (keep_fitting needed ss) \<and> buf_used h' + needed \<le> 1024"
proof (cases "1024 < buf_used h + needed")
  case True
  obtain off where l: "laid (history_buf h) off (live h) ss (buf_used h)" and n: "history_len h = length ss"
    using assms(1) by (auto simp: history_holds_def)
  have "\<exists>h1. (if 0 < history_len h then (if 0 < he_offset (hist_at h 0) then slide h else Some h) else Some (h\<lparr>buf_used := 0\<rparr>)) = Some h1 \<and>
      history_holds h1 ss \<and> buf_used h1 = lines_size ss"
  proof -
    consider "ss = []" | "ss \<noteq> []" "0 < he_offset (hist_at h 0)" | "ss \<noteq> []" "he_offset (hist_at h 0) = 0"
      by auto
    then show ?thesis
    proof cases
      case 1
      then show ?thesis
        using assms(1) n by (auto simp: history_holds_def live_def)
    next
      case 2
      then show ?thesis
        using slide_holds [OF assms(1)] n by simp
    next
      case 3
      then have "off = 0"
        using laid_nth [OF l, of 0] live_nth [of 0 h] n by simp
      then show ?thesis
        using 3 n assms(1) laid_length [OF l] by simp
    qed
  qed
  then obtain h1 where h1: "(if 0 < history_len h then (if 0 < he_offset (hist_at h 0) then slide h else Some h) else Some (h\<lparr>buf_used := 0\<rparr>)) = Some h1"
      "history_holds h1 ss" "buf_used h1 = lines_size ss"
    by blast
  then show ?thesis
    using evict_until_fits_holds [OF h1(2,3) assms(2)] True by (simp add: make_room_def)
next
  case False
  moreover obtain off where "laid (history_buf h) off (live h) ss (buf_used h)"
    using assms(1) by (auto simp: history_holds_def)
  ultimately have "keep_fitting needed ss = ss"
    using laid_length by (intro fitting_small) fastforce
  then show ?thesis
    using False assms(1) by (simp add: make_room_def)
qed

lemma append_holds:
  assumes "history_holds h ss" "length ss < 8" "buf_used h + (length line + 1) \<le> 1024" "0 \<notin> set line"
  shows "\<exists>h'. append_entry line h = Some h' \<and> history_holds h' (ss @ [line])"
proof -
  obtain off where l: "laid (history_buf h) off (live h) ss (buf_used h)"
    using assms(1) by (auto simp: history_holds_def)
  have sizes: "length (history_buf h) = 1024" "length (history_ring h) = 8" "history_len h = length ss"
    using assms(1) by (simp_all add: history_holds_def)
  define b where "b = take (buf_used h) (history_buf h) @ (line @ [0]) @ drop (buf_used h + (length line + 1)) (history_buf h)"
  define en where "en = \<lparr>he_offset = buf_used h, he_len = length line\<rparr>"
  define h' where "h' = h\<lparr>history_buf := b, history_ring := (history_ring h)[ring_index h (history_len h) := en],
    buf_used := buf_used h + (length line + 1), history_len := history_len h + 1\<rparr>"
  have "append_entry line h = Some h'"
    using assms(3) sizes(1) by (simp add: append_entry_def put_bytes_def h'_def b_def en_def)
  moreover have "take (buf_used h) b = take (buf_used h) (history_buf h)"
    using assms(3) sizes(1) by (simp add: b_def)
  then have "laid b off (live h) ss (buf_used h)"
    using laid_cong [OF _ l] by metis
  moreover have "laid b (buf_used h) [en] [line] (buf_used h + (length line + 1))"
    using assms(3,4) sizes(1) by (simp add: b_def en_def)
  moreover have "live h' = live h @ [en]"
    using assms(2) sizes unfolding h'_def by (intro live_append) simp_all
  ultimately have "history_holds h' (ss @ [line])"
    using assms sizes laid_append [of "live h" ss b off en line] by (auto simp: history_holds_def h'_def b_def)
  then show ?thesis
    using \<open>append_entry line h = Some h'\<close> by blast
qed

lemma newest_holds:
  assumes "history_holds h ss"
  shows "is_newest line h = Some (ss \<noteq> [] \<and> last ss = line)"
proof (cases "ss = []")
  case True
  then show ?thesis
    using assms by (simp add: is_newest_def history_holds_def)
next
  case False
  then have i: "length ss - 1 < length ss" and n: "history_len h = length ss" and b: "length (history_buf h) = 1024" "buf_used h \<le> 1024"
    using assms by (simp_all add: history_holds_def)
  have "ss ! (length ss - 1) = last ss"
    using False by (simp add: last_conv_nth)
  note e = holds_entry [OF assms i, unfolded this]
  have "take (length (last ss)) (drop (he_offset (hist_at h (length ss - 1))) (history_buf h)) = last ss"
    using arg_cong [OF e(2), of "take (length (last ss))"] by (simp add: min_def)
  moreover have "he_offset (hist_at h (length ss - 1)) + length (last ss) \<le> length (history_buf h)"
    using e(4) b by simp
  ultimately have "get_bytes (he_offset (hist_at h (length ss - 1))) (length (last ss)) (history_buf h) = Some (last ss)"
    by (simp add: get_bytes_def)
  then show ?thesis
    using False n e(1) by (cases "length line = length (last ss)") (simp_all add: is_newest_def Let_def, blast)
qed

lemma add_holds:
  assumes "history_holds h ss" "length line \<le> 256" "0 \<notin> set line"
  shows "\<exists>h'. linenoiseHistoryAdd line h = Some (\<not> (ss \<noteq> [] \<and> last ss = line), h') \<and> history_holds h' (history_add line ss)"
proof (cases "ss \<noteq> [] \<and> last ss = line")
  case True
  then show ?thesis
    using assms newest_holds [OF assms(1), of line] by (simp add: linenoiseHistoryAdd_def history_add_def Let_def)
next
  case False
  have n: "history_len h = length ss" "length ss \<le> 8"
    using assms(1) by (simp_all add: history_holds_def)
  let ?ss = "if 8 \<le> length ss then tl ss else ss"
  have h1: "history_holds (if 8 \<le> history_len h then evict_oldest h else h) ?ss"
  proof (cases ss)
    case (Cons s ts)
    then show ?thesis
      using assms(1) n evict_holds(1) [of h s ts] by auto
  qed (use assms(1) n in simp)
  obtain h2 where h2: "make_room (length line + 1) (if 8 \<le> history_len h then evict_oldest h else h) = Some h2"
      "history_holds h2 (keep_fitting (length line + 1) ?ss)" "buf_used h2 + (length line + 1) \<le> 1024"
    using make_room_holds [OF h1, of "length line + 1"] assms(2) by auto
  have "length (keep_fitting (length line + 1) ?ss) < 8"
    using keep_fitting_length [of "length line + 1" ?ss] n(2) by (auto split: if_splits)
  from append_holds [OF h2(2) this h2(3) assms(3)] obtain h3 where
    "append_entry line h2 = Some h3" "history_holds h3 (keep_fitting (length line + 1) ?ss @ [line])"
    by blast
  moreover have "history_add line ss = keep_fitting (length line + 1) ?ss @ [line]"
    using False by (auto simp: history_add_def)
  moreover have "is_newest line h = Some False"
    using newest_holds [OF assms(1), of line] False by simp
  ultimately show ?thesis
    using False assms(2) h2(1) unfolding linenoiseHistoryAdd_def Let_def by (intro exI [of _ h3]) simp
qed

text \<open>The newest entry split off.\<close>

lemma holds_newest:
  assumes "history_holds h ss" "ss \<noteq> []"
  obtains off where "laid (history_buf h) off (butlast (live h)) (butlast ss) (he_offset (hist_at h (length ss - 1)))"
    and "buf_used h = he_offset (hist_at h (length ss - 1)) + length (last ss) + 1"
    and "length ss = 1 \<or> he_offset (hist_at h (length ss - 2)) + he_len (hist_at h (length ss - 2)) + 1 = he_offset (hist_at h (length ss - 1))"
proof -
  obtain off where l: "laid (history_buf h) off (live h) ss (buf_used h)" and n: "history_len h = length ss"
    using assms(1) by (auto simp: history_holds_def)
  have ne: "live h \<noteq> []"
    using n assms(2) by (metis length_0_conv live_length)
  have last: "last (live h) = hist_at h (length ss - 1)"
    using n assms(2) ne live_nth [of "length ss - 1" h] by (simp add: last_conv_nth)
  have "laid (history_buf h) off (butlast (live h) @ [last (live h)]) (butlast ss @ [last ss]) (buf_used h)"
    using l assms(2) ne by simp
  then obtain mid where m: "laid (history_buf h) off (butlast (live h)) (butlast ss) mid"
      "laid (history_buf h) mid [last (live h)] [last ss] (buf_used h)"
    using n by (subst (asm) laid_append) auto
  have "length ss = 1 \<or> he_offset (hist_at h (length ss - 2)) + he_len (hist_at h (length ss - 2)) + 1 = he_offset (hist_at h (length ss - 1))"
  proof (cases "length ss = 1")
    case False
    then obtain k where k: "length ss = Suc (Suc k)"
      using assms(2) by (cases "length ss"; cases "length ss - 1") auto
    have "lines_size (take (Suc k) ss) = lines_size (take k ss) + (length (ss ! k) + 1)"
      using k by (simp add: take_Suc_nth)
    then show ?thesis
      using laid_nth [OF l, of k] laid_nth [OF l, of "Suc k"] live_nth [of k h] live_nth [of "Suc k" h] n k by simp
  qed simp
  then show thesis
    using m last by (intro that [of off]) auto
qed

lemma drop_holds:
  assumes "history_holds h ss" "ss \<noteq> []"
  shows "\<exists>h'. history_drop h = Some h' \<and> history_holds h' (butlast ss)"
proof -
  have n: "history_len h = length ss"
    using assms(1) by (simp add: history_holds_def)
  obtain off where o: "laid (history_buf h) off (butlast (live h)) (butlast ss) (he_offset (hist_at h (length ss - 1)))"
    "buf_used h = he_offset (hist_at h (length ss - 1)) + length (last ss) + 1"
    "length ss = 1 \<or> he_offset (hist_at h (length ss - 2)) + he_len (hist_at h (length ss - 2)) + 1 = he_offset (hist_at h (length ss - 1))"
    using holds_newest [OF assms] by blast
  define h' where "h' = h\<lparr>history_len := length ss - 1,
    buf_used := (if length ss = 1 then 0 else he_offset (hist_at h (length ss - 1)))\<rparr>"
  have "history_drop h = Some h'"
    using n assms(2) o(3) by (cases ss rule: rev_cases)
      (auto simp: history_drop_def Let_def h'_def numeral_2_eq_2 not_less_eq_eq)
  moreover have "live h' = butlast (live h)"
    using n by (subst live_take [of h' "length ss - 1" h]) (simp_all add: h'_def butlast_conv_take)
  moreover have "\<exists>off. laid (history_buf h) off (butlast (live h)) (butlast ss) (buf_used h')"
  proof (cases "length ss = 1")
    case True
    then have "butlast ss = []" "butlast (live h) = []"
      using n by (simp_all add: butlast_conv_take)
    then show ?thesis
      by auto
  next
    case False
    then show ?thesis
      using o(1) by (auto simp: h'_def)
  qed
  ultimately show ?thesis
    using assms n o(2) by (auto simp: history_holds_def h'_def)
qed

lemma save_holds:
  assumes "history_holds h ss" "ss \<noteq> []" "length line \<le> 256" "0 \<notin> set line"
  shows "\<exists>h'. history_save line h = Some h' \<and>
    history_holds h' (if buf_used h + length line \<le> 1024 + length (last ss) then butlast ss @ [line] else ss)"
proof -
  have n: "history_len h = length ss"
    using assms(1) by (simp add: history_holds_def)
  obtain off where o: "laid (history_buf h) off (butlast (live h)) (butlast ss) (he_offset (hist_at h (length ss - 1)))"
    "buf_used h = he_offset (hist_at h (length ss - 1)) + length (last ss) + 1"
    using holds_newest [OF assms(1,2)] by blast
  have sizes: "length (history_buf h) = 1024" "length (history_ring h) = 8" "length ss \<le> 8"
    using assms(1) by (simp_all add: history_holds_def)
  obtain k where k: "length ss = Suc k"
    using assms(2) by (cases ss) auto
  let ?newest = "hist_at h k"
  show ?thesis
  proof (cases "buf_used h + length line \<le> 1024 + length (last ss)")
    case True
    then have fits: "he_offset ?newest + length line + 1 \<le> 1024"
      using o(2) k by simp
    define b where "b = take (he_offset ?newest) (history_buf h) @ (line @ [0]) @ drop (he_offset ?newest + (length line + 1)) (history_buf h)"
    define en where "en = ?newest\<lparr>he_len := length line\<rparr>"
    define h' where "h' = h\<lparr>history_buf := b, history_ring := (history_ring h)[ring_index h k := en],
      buf_used := he_offset ?newest + length line + 1\<rparr>"
    have "history_save line h = Some h'"
      using fits sizes(1) assms(3) k n
      by (simp add: history_save_def Let_def put_bytes_def h'_def b_def en_def hist_at_def)
    moreover have "take (he_offset ?newest) b = take (he_offset ?newest) (history_buf h)"
      using fits sizes(1) by (simp add: b_def)
    then have "laid b off (butlast (live h)) (butlast ss) (he_offset ?newest)"
      using laid_cong [OF _ o(1)] k by simp
    moreover have "laid b (he_offset ?newest) [en] [line] (he_offset ?newest + length line + 1)"
      using fits sizes(1) assms(4) by (simp add: b_def en_def)
    moreover have "live h' = butlast (live h) @ [en]"
      using sizes k n unfolding h'_def by (intro live_last) simp_all
    ultimately have "history_holds h' (butlast ss @ [line])"
      using assms(1) sizes n k fits laid_append [of "butlast (live h)" "butlast ss" b off en line "he_offset ?newest + length line + 1"]
      by (auto simp: history_holds_def h'_def b_def)
    then show ?thesis
      using True \<open>history_save line h = Some h'\<close> by auto
  next
    case False
    then have "1024 < he_offset ?newest + length line + 1"
      using o(2) k by simp
    then have "history_save line h = Some h"
      using k n assms(3) by (simp add: history_save_def Let_def hist_at_def)
    then show ?thesis
      using False assms(1) by auto
  qed
qed

lemma text_holds:
  assumes "history_holds h ss" "i < length ss"
  shows "history_text i h = ss ! i"
proof -
  note e = holds_entry [OF assms]
  obtain r where "drop (he_offset (hist_at h i)) (history_buf h) = ss ! i @ 0 # r"
    by (metis e(2) append_take_drop_id append.assoc append_Cons append_Nil)
  moreover have "takeWhile (\<lambda>c. c \<noteq> 0) (ss ! i @ 0 # r) = ss ! i" for r
    using e(3) by (subst takeWhile_append2) auto
  ultimately show ?thesis
    by (simp add: history_text_def c_string_def)
qed

subsection \<open>What the line editor needs of a history\<close>

text \<open>The newest line is the one being edited; the lines before it are old lines. Old lines may be forgotten, the oldest first.\<close>

definition line_ok :: "cstr \<Rightarrow> bool" where
  "line_ok line \<longleftrightarrow> 0 \<notin> set line \<and> length line \<le> BP_LINENOISE_MAX_LINE"

locale line_history =
  fixes holds :: "'h \<Rightarrow> cstr list \<Rightarrow> bool"
    and add :: "cstr \<Rightarrow> 'h \<Rightarrow> (bool \<times> 'h) option"
    and take_away :: "'h \<Rightarrow> 'h option"
    and save :: "cstr \<Rightarrow> 'h \<Rightarrow> 'h option"
    and line_at :: "nat \<Rightarrow> 'h \<Rightarrow> cstr"
    and size_of :: "'h \<Rightarrow> nat"
  assumes adds: "holds h ss \<Longrightarrow> line_ok line \<Longrightarrow> \<exists>r h'. add line h = Some (r, h') \<and> holds h' (history_add line ss)"
    and takes_away: "holds h ss \<Longrightarrow> ss \<noteq> [] \<Longrightarrow> \<exists>h'. take_away h = Some h' \<and> holds h' (butlast ss)"
    and saves: "holds h ss \<Longrightarrow> ss \<noteq> [] \<Longrightarrow> line_ok line \<Longrightarrow>
      \<exists>h' cur. save line h = Some h' \<and> holds h' (butlast ss @ [cur]) \<and> cur \<in> {line, last ss}"
    and shows_line: "holds h ss \<Longrightarrow> i < length ss \<Longrightarrow> line_at i h = ss ! i"
    and counts: "holds h ss \<Longrightarrow> size_of h = length ss"
    and keeps_lines_ok: "holds h ss \<Longrightarrow> s \<in> set ss \<Longrightarrow> 0 \<notin> set s"
begin

lemma keep_fitting_suffix: "suffix (keep_fitting needed ss) ss"
  by (induction ss) (auto simp: suffix_Cons)

lemma forget_suffix: "suffix (keep_fitting needed (if b then tl ss else ss)) ss"
  using keep_fitting_suffix [of needed "tl ss"] keep_fitting_suffix [of needed ss]
  by (cases ss) (auto simp: suffix_Cons)

lemma keep_fitting_last:
  assumes "ss \<noteq> []" "length (last ss) + 1 + needed \<le> 1024"
  shows "keep_fitting needed ss \<noteq> [] \<and> last (keep_fitting needed ss) = last ss"
  using assms by (induction ss) (auto split: if_splits)

text \<open>A session starts with an empty line; the line entered last is then just before it.\<close>

lemma session_lines:
  assumes "holds h ss" "[] \<notin> set ss" "\<forall>s \<in> set ss. length s \<le> 256"
  shows "\<exists>r h' old. add [] h = Some (r, h') \<and> holds h' (old @ [[]]) \<and> suffix old ss \<and> (ss \<noteq> [] \<longrightarrow> old \<noteq> [] \<and> last old = last ss)"
proof -
  let ?ss = "if 8 \<le> length ss then tl ss else ss"
  have "\<not> (ss \<noteq> [] \<and> last ss = [])"
    using assms(2) last_in_set by metis
  then have split: "history_add [] ss = keep_fitting 1 ?ss @ [[]]"
    unfolding history_add_def by (simp only: if_False) simp
  have "suffix (keep_fitting 1 ?ss) ss"
    by (rule forget_suffix)
  moreover have "keep_fitting 1 ?ss \<noteq> [] \<and> last (keep_fitting 1 ?ss) = last ss" if "ss \<noteq> []"
  proof -
    have "?ss \<noteq> [] \<and> last ?ss = last ss"
      using that by (cases ss) auto
    moreover have "length (last ss) \<le> 256"
      using assms(3) that by simp
    ultimately show ?thesis
      using keep_fitting_last [of ?ss 1] by simp
  qed
  ultimately show ?thesis
    using adds [OF assms(1), of "[]"] split by (fastforce simp: line_ok_def)
qed

text \<open>Entering a line: the edited entry is taken away and the line added, unless it repeats the one before or is empty.\<close>

lemma entered_line:
  assumes "holds h (old @ [cur])" "line_ok line" "line \<noteq> []"
  shows "\<exists>h1 r h2 ss. take_away h = Some h1 \<and> add line h1 = Some (r, h2) \<and> holds h2 (ss @ [line]) \<and>
    (suffix ss old \<or> ss @ [line] = old)"
proof -
  obtain h1 where h1: "take_away h = Some h1" "holds h1 old"
    using takes_away [OF assms(1)] by auto
  obtain r h2 where h2: "add line h1 = Some (r, h2)" "holds h2 (history_add line old)"
    using adds [OF h1(2) assms(2)] by blast
  let ?ss = "if 8 \<le> length old then tl old else old"
  show ?thesis
  proof (cases "old \<noteq> [] \<and> last old = line")
    case True
    then have "history_add line old = butlast old @ [line]"
      using append_butlast_last_id [of old] by (simp add: history_add_def)
    moreover have "butlast old @ [line] = old"
      using True append_butlast_last_id [of old] by simp
    ultimately show ?thesis
      using h1 h2 by metis
  next
    case False
    then have "history_add line old = keep_fitting (length line + 1) ?ss @ [line]"
      unfolding history_add_def by (simp only: if_False)
    moreover have "suffix (keep_fitting (length line + 1) ?ss) old"
      by (rule forget_suffix)
    ultimately show ?thesis
      using h1 h2 by metis
  qed
qed

end

interpretation ring: line_history history_holds linenoiseHistoryAdd history_drop history_save history_text history_len
proof unfold_locales
  show "\<exists>r h'. linenoiseHistoryAdd line h = Some (r, h') \<and> history_holds h' (history_add line ss)"
    if "history_holds h ss" "line_ok line" for h ss line
    using add_holds [OF that(1), of line] that(2) unfolding line_ok_def by metis
  show "\<exists>h'. history_drop h = Some h' \<and> history_holds h' (butlast ss)" if "history_holds h ss" "ss \<noteq> []" for h ss
    using drop_holds [OF that] .
  show "\<exists>h' cur. history_save line h = Some h' \<and> history_holds h' (butlast ss @ [cur]) \<and> cur \<in> {line, last ss}"
    if hold: "history_holds h ss" "ss \<noteq> []" "line_ok line" for h ss line
  proof -
    obtain h' where h': "history_save line h = Some h'"
      "history_holds h' (if buf_used h + length line \<le> 1024 + length (last ss) then butlast ss @ [line] else ss)"
      using save_holds [OF hold(1,2), of line] hold(3) unfolding line_ok_def by metis
    have "ss = butlast ss @ [last ss]"
      using hold(2) by simp
    then show ?thesis
      using h' by (cases "buf_used h + length line \<le> 1024 + length (last ss)") (simp, metis insertCI)+
  qed
  show "history_text i h = ss ! i" if "history_holds h ss" "i < length ss" for h ss i
    using text_holds [OF that] .
  show "history_len h = length ss" if "history_holds h ss" for h ss
    using that by (simp add: history_holds_def)
  show "0 \<notin> set s" if "history_holds h ss" "s \<in> set ss" for h ss s
    using that holds_entry(3) by (metis in_set_conv_nth)
qed

subsection \<open>Properties\<close>

text \<open>C8: The ring of the history is a list of lines, whatever was done with it before. Adding a line puts it at the end unless it
  repeats the newest line; lines are forgotten, oldest first, only when there are eight or when the buffer of 1024 bytes cannot hold them
  all. Taking the newest line away, replacing it, and reading any line do what they do to the list; the newest line keeps its old text
  when the new one does not fit. No access is outside of the arrays.
\<close>

theorem history_is_list:
  assumes "history_holds h ss" "line_ok line"
  shows "(\<exists>h'. linenoiseHistoryAdd line h = Some (\<not> (ss \<noteq> [] \<and> last ss = line), h') \<and> history_holds h' (history_add line ss)) \<and>
    (if ss = [] then history_drop h = None else \<exists>h'. history_drop h = Some h' \<and> history_holds h' (butlast ss)) \<and>
    (ss \<noteq> [] \<longrightarrow> (\<exists>h'. history_save line h = Some h' \<and>
      history_holds h' (if buf_used h + length line \<le> 1024 + length (last ss) then butlast ss @ [line] else ss))) \<and>
    history_len h = length ss \<and> (\<forall>i < length ss. history_text i h = ss ! i)"
proof -
  have line: "length line \<le> 256" "0 \<notin> set line"
    using assms(2) by (simp_all add: line_ok_def)
  have n: "history_len h = length ss"
    using assms(1) by (simp add: history_holds_def)
  show ?thesis
    using add_holds [OF assms(1) line] drop_holds [OF assms(1)] save_holds [OF assms(1) _ line] text_holds [OF assms(1)] n
    by (cases "ss = []") (simp_all add: history_drop_def)
qed

theorem history_is_list_witness:
  "\<exists>h' h''. linenoiseHistoryAdd [0x69] history_init = Some (True, h') \<and> linenoiseHistoryAdd [0x69] h' = Some (False, h'') \<and>
     history_holds h'' [[0x69]] \<and> history_text 0 h' = [0x69]"
proof -
  have ok: "line_ok [0x69]"
    by (simp add: line_ok_def)
  obtain h' where h': "linenoiseHistoryAdd [0x69] history_init = Some (True, h')" "history_holds h' [[0x69]]"
    using history_is_list [OF history_init_holds ok] by (auto simp: history_add_def)
  then show ?thesis
    using history_is_list [OF h'(2) ok] by (auto simp: history_add_def)
qed

end
