(* ===== verification/Ln_Refresh.thy ===== *)
theory Ln_Refresh
  imports Ln_Utf8 Ln_History
begin

text \<open>
  The state of the line editor and the drawing of the line, \<^verbatim>\<open>src/lib/bp_linenoise/linenoise.c\<close>: the prompt and the part of
  the line that fits the terminal, the hint behind it, the cursor. The build has one line and no mask mode (nothing sets the variables
  of the other modes). \<open>None\<close> is an access outside of an array, or a loop that makes no progress and never ends. Sizes wrap
  at 32 bits.
\<close>

subsection \<open>State\<close>

record ln_state =
  in_completion :: bool
  completion_idx :: nat
  edit_buf :: "u8 list"
  simple_mode :: bool
  tab_empty :: bool
  buflen :: nat
  prompt :: cstr
  plen :: nat
  edit_pos :: nat
  oldpos :: nat
  edit_len :: nat
  cols :: nat
  oldrows :: nat
  oldrpos :: int
  history_index :: int

text \<open>A hint: its colour, whether it is bold, its text.\<close>

type_synonym hint_fun = "cstr \<Rightarrow> (int \<times> int \<times> cstr) option"

definition size_sub :: "nat \<Rightarrow> nat \<Rightarrow> nat" where
  "size_sub a b = (if b \<le> a then a - b else 2 ^ 32 + a - b)"

lemma size_sub_le [simp]: "b \<le> a \<Longrightarrow> size_sub a b = a - b"
  by (simp add: size_sub_def)

subsection \<open>The append buffer\<close>

definition abAppend :: "u8 list \<Rightarrow> u8 list \<Rightarrow> u8 list" where
  "abAppend ab s = (if BP_LINENOISE_MAX_LINE * 2 < length ab + length s then ab else ab @ s)"

lemma abAppend_Nil [simp]: "abAppend ab [] = ab"
  by (simp add: abAppend_def)

fun nat_bytes :: "nat \<Rightarrow> u8 list" where
  "nat_bytes n = (if n < 10 then [of_nat (48 + n)] else nat_bytes (n div 10) @ [of_nat (48 + n mod 10)])"

declare nat_bytes.simps [simp del]

definition int_bytes :: "int \<Rightarrow> u8 list" where
  "int_bytes i = (if i < 0 then ch_minus # nat_bytes (nat (- i)) else nat_bytes (nat i))"

definition as_int :: "nat \<Rightarrow> int" where
  "as_int n = (let m = n mod 2 ^ 32 in if m < 2 ^ 31 then int m else int m - 2 ^ 32)"

definition csi :: "u8 list \<Rightarrow> u8 list" where
  "csi s = ch_esc # ch_lbracket # s"

subsection \<open>Hints\<close>

text \<open>The part of a hint that fits a width.\<close>

function hint_fit :: "u8 list \<Rightarrow> nat \<Rightarrow> nat \<Rightarrow> nat \<Rightarrow> nat \<Rightarrow> nat option" where
  "hint_fit hint hintlen hintmaxwidth i w =
     (if i < hintlen then
        (case utf8NextCharLen hint i hintlen of None \<Rightarrow> None | Some clen \<Rightarrow>
           (case utf8SingleCharWidth hint i clen of None \<Rightarrow> None | Some cwidth \<Rightarrow>
              if hintmaxwidth < w + cwidth then Some i
              else hint_fit hint hintlen hintmaxwidth (i + clen) (w + cwidth)))
      else Some i)"
  by pat_completeness auto
termination
  by (relation "measure (\<lambda>(hint, hintlen, m, i, w). hintlen - i)") (auto dest: next_char_pos)

declare hint_fit.simps [simp del]

definition refreshShowHints :: "hint_fun option \<Rightarrow> ln_state \<Rightarrow> nat \<Rightarrow> u8 list \<Rightarrow> u8 list option" where
  "refreshShowHints hintsCallback l pwidth ab = do {
     bufwidth \<leftarrow> utf8StrWidth (edit_buf l) 0 (edit_len l);
     case hintsCallback of None \<Rightarrow> Some ab | Some callback \<Rightarrow>
       if pwidth + bufwidth < cols l then
         (case callback (c_string (edit_buf l)) of None \<Rightarrow> Some ab | Some (color, bold, hint) \<Rightarrow> do {
            hintwidth \<leftarrow> utf8StrWidth (hint @ [0]) 0 (length hint);
            let hintmaxwidth = cols l - (pwidth + bufwidth);
            hintlen \<leftarrow> (if hintmaxwidth < hintwidth then hint_fit (hint @ [0]) (length hint) hintmaxwidth 0 0 else Some (length hint));
            shown \<leftarrow> get_bytes 0 hintlen (hint @ [0]);
            let color = (if bold = 1 \<and> color = - 1 then 37 else color);
            let coloured = (color \<noteq> - 1 \<or> bold \<noteq> 0);
            let ab = abAppend ab (if coloured then csi (int_bytes bold @ [ch_semicolon] @ int_bytes color @ [ch_semicolon, 52, 57, ch_m]) else []);
            let ab = abAppend ab shown;
            Some (if coloured then abAppend ab (csi [ch_0, ch_m]) else ab) })
       else Some ab }"

subsection \<open>Scrolling\<close>

text \<open>The window on the line: the offset of its start in the buffer, its length, the cursor in it, and the columns of both.\<close>

record window =
  win_off :: nat
  win_len :: nat
  win_pos :: nat
  win_poscol :: nat
  win_lencol :: nat

function trim_left :: "u8 list \<Rightarrow> nat \<Rightarrow> nat \<Rightarrow> window \<Rightarrow> window option" where
  "trim_left b pwidth columns v =
     (if columns \<le> (pwidth + win_poscol v) mod 2 ^ 32 then
        (case utf8NextCharLen (drop (win_off v) b) 0 (win_len v) of None \<Rightarrow> None | Some clen \<Rightarrow>
           if clen = 0 then None
           else (case utf8SingleCharWidth (drop (win_off v) b) 0 clen of None \<Rightarrow> None | Some cwidth \<Rightarrow>
             trim_left b pwidth columns
               \<lparr>win_off = win_off v + clen, win_len = size_sub (win_len v) clen, win_pos = size_sub (win_pos v) clen,
                win_poscol = size_sub (win_poscol v) cwidth, win_lencol = size_sub (win_lencol v) cwidth\<rparr>))
      else Some v)"
  by pat_completeness auto
termination
proof (relation "measure (\<lambda>(b, p, c, v). length b - win_off v)", simp, clarsimp)
  fix b v clen
  assume n: "utf8NextCharLen (drop (win_off v) b) 0 (win_len v) = Some clen" "0 < clen"
  then have "0 < win_len v"
    by (auto simp: utf8NextCharLen_def split: if_splits)
  then show "length b - (win_off v + clen) < length b - win_off v"
    using next_char_pos [OF n(1)] n(2) by simp
qed

declare trim_left.simps [simp del]

function trim_right :: "u8 list \<Rightarrow> nat \<Rightarrow> nat \<Rightarrow> window \<Rightarrow> window option" where
  "trim_right b pwidth columns v =
     (if columns < (pwidth + win_lencol v) mod 2 ^ 32 then
        (case utf8PrevCharLen (drop (win_off v) b) (win_len v) of None \<Rightarrow> None | Some clen \<Rightarrow>
           if clen = 0 then None
           else (case utf8SingleCharWidth (drop (win_off v) b) (win_len v - clen) clen of None \<Rightarrow> None | Some cwidth \<Rightarrow>
             trim_right b pwidth columns (v\<lparr>win_len := win_len v - clen, win_lencol := size_sub (win_lencol v) cwidth\<rparr>)))
      else Some v)"
  by pat_completeness auto
termination
proof (relation "measure (\<lambda>(b, p, c, v). win_len v)", simp, clarsimp)
  fix b v clen
  assume "utf8PrevCharLen (drop (win_off v) b) (win_len v) = Some clen" "0 < clen"
  then show "win_len v - clen < win_len v"
    using prev_char_le by fastforce
qed

declare trim_right.simps [simp del]

text \<open>\<open>write\<close> is the flag \<open>REFRESH_WRITE\<close>; the result is what is written to the terminal.\<close>

definition refreshSingleLine :: "hint_fun option \<Rightarrow> bool \<Rightarrow> ln_state \<Rightarrow> u8 list option" where
  "refreshSingleLine hintsCallback write l = do {
     pwidth \<leftarrow> utf8StrWidth (prompt l @ [0]) 0 (plen l);
     poscol \<leftarrow> utf8StrWidth (edit_buf l) 0 (edit_pos l);
     lencol \<leftarrow> utf8StrWidth (edit_buf l) 0 (edit_len l);
     v \<leftarrow> trim_left (edit_buf l) pwidth (cols l)
       \<lparr>win_off = 0, win_len = edit_len l, win_pos = edit_pos l, win_poscol = poscol, win_lencol = lencol\<rparr>;
     v \<leftarrow> trim_right (edit_buf l) pwidth (cols l) v;
     let ab = abAppend [] [ch_cr];
     ab \<leftarrow> (if write then do {
         ptext \<leftarrow> get_bytes 0 (plen l) (prompt l @ [0]);
         shown \<leftarrow> get_bytes (win_off v) (win_len v) (edit_buf l);
         refreshShowHints hintsCallback l pwidth (abAppend (abAppend ab ptext) shown) }
       else Some ab);
     let ab = abAppend ab (csi [ch_0, 75]);
     Some (if write then abAppend ab (ch_cr # csi (int_bytes (as_int (win_poscol v + pwidth)) @ [67])) else ab) }"

subsection \<open>What is shown of a text\<close>

text \<open>The reference: characters leave the window on the left until the cursor fits, then on the right until the rest fits.\<close>

fun scroll :: "nat \<Rightarrow> nat \<Rightarrow> u8 list list \<Rightarrow> u8 list list" where
  "scroll pwidth columns [] = []"
| "scroll pwidth columns (c # cs) =
     (if columns \<le> pwidth + text_width (c # cs) then scroll pwidth columns cs else c # cs)"

function crop :: "nat \<Rightarrow> nat \<Rightarrow> u8 list list \<Rightarrow> u8 list list" where
  "crop pwidth columns cs =
     (if cs \<noteq> [] \<and> columns < pwidth + text_width cs then crop pwidth columns (butlast cs) else cs)"
  by pat_completeness auto
termination
  by (relation "measure (\<lambda>(p, c, cs). length cs)") auto

declare crop.simps [simp del]

lemma scroll_fits: "pwidth < columns \<Longrightarrow> pwidth + text_width (scroll pwidth columns cs) < columns"
  by (induction cs) simp_all

lemma scroll_suffix: "suffix (scroll pwidth columns cs) cs"
  by (induction cs) (auto simp: suffix_Cons)

lemma scroll_length: "length (concat (scroll pwidth columns cs)) \<le> length (concat cs)"
  by (induction cs) simp_all

lemma crop_fits: "pwidth \<le> columns \<Longrightarrow> pwidth + text_width (crop pwidth columns cs) \<le> columns"
  by (induction pwidth columns cs rule: crop.induct) (subst crop.simps, simp)

lemma crop_keeps: "pwidth + text_width xs \<le> columns \<Longrightarrow> \<exists>zs. crop pwidth columns (xs @ ys) = xs @ zs \<and> prefix zs ys"
proof (induction ys rule: rev_induct)
  case Nil
  then show ?case
    by (subst crop.simps) simp
next
  case (snoc y ys)
  then show ?case
    by (subst crop.simps) (auto simp: butlast_append prefix_def)
qed

lemma trim_left_plain:
  assumes "\<forall>c \<in> set (bs @ as). plain_char c" "pwidth < columns" "pwidth + text_width (bs @ as) < 2 ^ 32"
  shows "trim_left (pre @ concat bs @ concat as @ post) pwidth columns
      \<lparr>win_off = length pre, win_len = length (concat bs) + length (concat as), win_pos = length (concat bs),
       win_poscol = text_width bs, win_lencol = text_width (bs @ as)\<rparr> =
    Some (let s = scroll pwidth columns bs in
      \<lparr>win_off = length pre + (length (concat bs) - length (concat s)), win_len = length (concat s) + length (concat as),
       win_pos = length (concat s), win_poscol = text_width s, win_lencol = text_width (s @ as)\<rparr>)"
  using assms
proof (induction bs arbitrary: pre)
  case Nil
  then show ?case
    by (subst trim_left.simps) simp
next
  case (Cons c bs)
  let ?b = "pre @ concat (c # bs) @ concat as @ post"
  have c: "plain_char c" "c \<noteq> []" and rest: "\<forall>d \<in> set (bs @ as). plain_char d"
    using Cons.prems(1) by (auto simp: plain_char_def utf8_char_def)
  have small: "pwidth + text_width (c # bs) < 2 ^ 32"
    using Cons.prems(3) by simp
  show ?case
  proof (cases "columns \<le> pwidth + text_width (c # bs)")
    case True
    have n: "utf8NextCharLen (c @ concat bs @ concat as @ post) 0 (length c + (length (concat bs) + length (concat as))) = Some (length c)"
      using next_plain [OF c(1) rest, of "[]" post] by simp
    have w: "utf8SingleCharWidth (c @ concat bs @ concat as @ post) 0 (length c) = Some (char_width c)"
      using single_width_plain [OF c(1), of "[]" "concat bs @ concat as @ post"] by simp
    have "length (concat (scroll pwidth columns bs)) \<le> length (concat bs)"
      by (rule scroll_length)
    then show ?thesis
      using Cons.IH [of "pre @ c"] Cons.prems rest True c(2) n w small
      by (subst trim_left.simps) (simp add: add.assoc Let_def)
  next
    case False
    then show ?thesis
      using small by (subst trim_left.simps) simp
  qed
qed

lemma trim_right_plain:
  assumes "\<forall>c \<in> set cs. plain_char c" "pwidth \<le> columns" "pwidth + text_width cs < 2 ^ 32"
  shows "trim_right (pre @ concat cs @ post) pwidth columns
      \<lparr>win_off = length pre, win_len = length (concat cs), win_pos = p, win_poscol = pc, win_lencol = text_width cs\<rparr> =
    Some (let s = crop pwidth columns cs in
      \<lparr>win_off = length pre, win_len = length (concat s), win_pos = p, win_poscol = pc, win_lencol = text_width s\<rparr>)"
  using assms
proof (induction cs arbitrary: post rule: rev_induct)
  case Nil
  then show ?case
    by (subst trim_right.simps, subst crop.simps) simp
next
  case (snoc c cs)
  have c: "plain_char c" "c \<noteq> []" and rest: "\<forall>d \<in> set cs. plain_char d"
    using snoc.prems(1) by (auto simp: plain_char_def utf8_char_def)
  show ?case
  proof (cases "columns < pwidth + text_width (cs @ [c])")
    case True
    have n: "utf8PrevCharLen (concat cs @ c @ post) (length (concat cs) + length c) = Some (length c)"
      by (rule prev_plain [OF c(1) rest])
    have w: "utf8SingleCharWidth (concat cs @ c @ post) (length (concat cs)) (length c) = Some (char_width c)"
      by (rule single_width_plain [OF c(1)])
    have "crop pwidth columns (cs @ [c]) = crop pwidth columns cs"
      using True by (subst crop.simps) simp
    then show ?thesis
      using snoc.IH [of "c @ post"] snoc.prems rest True c(2) n w
      by (subst trim_right.simps) simp
  next
    case False
    moreover have "crop pwidth columns (cs @ [c]) = cs @ [c]"
      using False by (subst crop.simps) simp
    ultimately show ?thesis
      using snoc.prems(3) by (subst trim_right.simps) simp
  qed
qed

text \<open>The characters of a hint that fit a number of columns.\<close>

fun fitting :: "nat \<Rightarrow> u8 list list \<Rightarrow> u8 list list" where
  "fitting m [] = []"
| "fitting m (c # cs) = (if char_width c \<le> m then c # fitting (m - char_width c) cs else [])"

lemma fitting_width: "text_width (fitting m cs) \<le> m"
  by (induction m cs rule: fitting.induct) auto

lemma fitting_prefix: "prefix (fitting m cs) cs"
  by (induction m cs rule: fitting.induct) auto

lemma fitting_all: "text_width cs \<le> m \<Longrightarrow> fitting m cs = cs"
  by (induction m cs rule: fitting.induct) auto

lemma hint_fit_plain:
  "\<forall>c \<in> set (pre @ cs). plain_char c \<Longrightarrow> w \<le> m \<Longrightarrow>
    hint_fit (concat (pre @ cs) @ [0]) (length (concat (pre @ cs))) m (length (concat pre)) w =
      Some (length (concat (pre @ fitting (m - w) cs)))"
proof (induction cs arbitrary: pre w)
  case Nil
  then show ?case
    by (subst hint_fit.simps) simp
next
  case (Cons c cs)
  have c: "plain_char c" "0 < length c" and rest: "\<forall>d \<in> set cs. plain_char d"
    using Cons.prems(1) by (auto simp: plain_char_def utf8_char_def)
  have n: "utf8NextCharLen (concat (pre @ c # cs) @ [0]) (length (concat pre)) (length (concat (pre @ c # cs))) = Some (length c)"
    using next_plain [OF c(1) rest, of "concat pre" "[0]"] by (simp add: add.assoc)
  have cw: "utf8SingleCharWidth (concat (pre @ c # cs) @ [0]) (length (concat pre)) (length c) = Some (char_width c)"
    using single_width_plain [OF c(1), of "concat pre" "concat cs @ [0]"] by simp
  show ?case
  proof (cases "m < w + char_width c")
    case True
    then have "hint_fit (concat (pre @ c # cs) @ [0]) (length (concat (pre @ c # cs))) m (length (concat pre)) w = Some (length (concat pre))"
      using n cw c(2) by (subst hint_fit.simps) simp
    moreover have "fitting (m - w) (c # cs) = []"
      using True Cons.prems(2) by simp
    ultimately show ?thesis
      by simp
  next
    case False
    have "hint_fit (concat (pre @ c # cs) @ [0]) (length (concat (pre @ c # cs))) m (length (concat pre)) w =
        hint_fit (concat ((pre @ [c]) @ cs) @ [0]) (length (concat ((pre @ [c]) @ cs))) m (length (concat (pre @ [c]))) (w + char_width c)"
      using n cw c(2) False by (subst hint_fit.simps) simp
    also have "\<dots> = Some (length (concat ((pre @ [c]) @ fitting (m - (w + char_width c)) cs)))"
      using Cons.prems(1) False by (intro Cons.IH) auto
    finally show ?thesis
      using False by simp
  qed
qed

text \<open>A hint callback that shows text of such characters.\<close>

definition hints_plain :: "hint_fun option \<Rightarrow> bool" where
  "hints_plain cb \<longleftrightarrow> (\<forall>f line color bold hint. cb = Some f \<longrightarrow> f line = Some (color, bold, hint) \<longrightarrow>
     (\<exists>cs. hint = concat cs \<and> (\<forall>c \<in> set cs. plain_char c)))"

text \<open>The line holds the text: the characters before and after the cursor, and the NUL.\<close>

definition shows_text :: "ln_state \<Rightarrow> u8 list list \<Rightarrow> u8 list list \<Rightarrow> bool" where
  "shows_text l bs as \<longleftrightarrow> (\<exists>post. edit_buf l = concat bs @ concat as @ 0 # post) \<and>
     edit_pos l = length (concat bs) \<and> edit_len l = length (concat bs) + length (concat as) \<and> (\<forall>c \<in> set (bs @ as). plain_char c)"

text \<open>The hint for a line, as characters: none, or its colour, whether it is bold, and its text.\<close>

definition hint_is :: "hint_fun option \<Rightarrow> cstr \<Rightarrow> (int \<times> int \<times> u8 list list) option \<Rightarrow> bool" where
  "hint_is cb line h \<longleftrightarrow>
     (case h of None \<Rightarrow> cb = None \<or> the cb line = None
      | Some (color, bold, cs) \<Rightarrow> cb \<noteq> None \<and> the cb line = Some (color, bold, concat cs) \<and> (\<forall>c \<in> set cs. plain_char c))"

text \<open>What is drawn of it in the columns that are left: the characters that fit, in their colour.\<close>

definition hint_drawn :: "nat \<Rightarrow> (int \<times> int \<times> u8 list list) option \<Rightarrow> u8 list list" where
  "hint_drawn room h =
     (case h of None \<Rightarrow> []
      | Some (color, bold, cs) \<Rightarrow>
          if room = 0 then []
          else if bold = 0 \<and> color = - 1 then [concat (fitting room cs)]
          else [csi (int_bytes bold @ [ch_semicolon] @ int_bytes (if bold = 1 \<and> color = - 1 then 37 else color) @ [ch_semicolon, 52, 57, ch_m]),
                concat (fitting room cs), csi [ch_0, ch_m]])"

definition hint_width :: "nat \<Rightarrow> (int \<times> int \<times> u8 list list) option \<Rightarrow> nat" where
  "hint_width room h = (case h of None \<Rightarrow> 0 | Some (color, bold, cs) \<Rightarrow> if room = 0 then 0 else text_width (fitting room cs))"

lemma hint_width_room: "hint_width room h \<le> room"
  using fitting_width by (auto simp: hint_width_def split: option.split)

lemma hints_plain_is: "hints_plain cb \<Longrightarrow> \<exists>h. hint_is cb line h"
proof (cases "cb = None \<or> the cb line = None")
  case True
  then show ?thesis
    by (intro exI [of _ None]) (simp add: hint_is_def)
next
  assume plain: "hints_plain cb"
  case False
  then obtain f color bold hint where f: "cb = Some f" "f line = Some (color, bold, hint)"
    by auto
  then obtain cs where "hint = concat cs" "\<forall>c \<in> set cs. plain_char c"
    using plain unfolding hints_plain_def by metis
  then show ?thesis
    using f by (intro exI [of _ "Some (color, bold, cs)"]) (simp add: hint_is_def)
qed

lemma hints_shown:
  assumes "hint_is cb (c_string (edit_buf l)) h" "shows_text l bs as"
  shows "refreshShowHints cb l pwidth ab =
    Some (foldl abAppend ab (hint_drawn (cols l - (pwidth + text_width (bs @ as))) h))"
proof -
  obtain post where b: "edit_buf l = concat (bs @ as) @ 0 # post" "edit_len l = length (concat (bs @ as))" "\<forall>c \<in> set (bs @ as). plain_char c"
    using assms(2) by (auto simp: shows_text_def)
  have width: "utf8StrWidth (edit_buf l) 0 (edit_len l) = Some (text_width (bs @ as))"
    using width_plain [OF b(3), of "[]" "0 # post"] by (simp add: b(1,2))
  let ?room = "cols l - (pwidth + text_width (bs @ as))"
  show ?thesis
  proof (cases "h = None \<or> ?room = 0")
    case True
    then show ?thesis
      using assms(1) by (auto simp: refreshShowHints_def width hint_is_def hint_drawn_def split: option.splits)
  next
    case False
    then obtain color bold cs where h: "h = Some (color, bold, cs)" and room: "pwidth + text_width (bs @ as) < cols l"
      by auto
    then obtain f where f: "cb = Some f" "f (c_string (edit_buf l)) = Some (color, bold, concat cs)" and cs: "\<forall>c \<in> set cs. plain_char c"
      using assms(1) by (auto simp: hint_is_def)
    have "utf8StrWidth (concat cs @ [0]) 0 (length (concat cs)) = Some (text_width cs)"
      using width_plain [OF cs, of "[]" "[0]"] by simp
    moreover have "(if ?room < text_width cs then hint_fit (concat cs @ [0]) (length (concat cs)) ?room 0 0 else Some (length (concat cs))) =
        Some (length (concat (fitting ?room cs)))"
      using hint_fit_plain [of "[]" cs 0 ?room] cs fitting_all [of cs ?room] by auto
    moreover have "get_bytes 0 (length (concat (fitting ?room cs))) (concat cs @ [0]) = Some (concat (fitting ?room cs))"
    proof -
      have "get_bytes 0 (length (concat xs)) (concat cs @ [0]) = Some (concat xs)" if "prefix xs cs" for xs
        using that by (auto simp: get_bytes_def prefix_def)
      from this [OF fitting_prefix] show ?thesis .
    qed
    ultimately have r: "refreshShowHints cb l pwidth ab =
        (let color = (if bold = 1 \<and> color = - 1 then 37 else color); coloured = (color \<noteq> - 1 \<or> bold \<noteq> 0);
           ab = abAppend ab (if coloured then csi (int_bytes bold @ [ch_semicolon] @ int_bytes color @ [ch_semicolon, 52, 57, ch_m]) else []);
           ab = abAppend ab (concat (fitting ?room cs))
         in Some (if coloured then abAppend ab (csi [ch_0, ch_m]) else ab))"
      using room by (simp only: refreshShowHints_def width f Option.bind.simps option.case prod.case if_True Let_def)
    show ?thesis
      using room unfolding r h hint_drawn_def Let_def
      by (cases "bold = 0"; cases "bold = 1"; cases "color = - 1") simp_all
  qed
qed

lemma drawing_plain:
  assumes "shows_text l bs as" "hint_is cb (c_string (edit_buf l)) h" "plen l = length (prompt l)"
    and "utf8StrWidth (prompt l @ [0]) 0 (plen l) = Some pwidth" "pwidth < cols l" "pwidth + text_width (bs @ as) < 2 ^ 31"
  defines "left \<equiv> scroll pwidth (cols l) bs" and "room \<equiv> cols l - (pwidth + text_width (bs @ as))"
  shows "\<exists>vis rest. as = vis @ rest \<and> crop pwidth (cols l) (left @ as) = left @ vis \<and>
    pwidth + text_width (left @ vis) \<le> cols l \<and> pwidth + text_width left < cols l \<and>
    (room = 0 \<longrightarrow> hint_drawn room h = []) \<and> pwidth + text_width (bs @ as) + hint_width room h \<le> max (cols l) (pwidth + text_width (bs @ as)) \<and>
    refreshSingleLine cb True l = Some (foldl abAppend []
      ([[ch_cr], prompt l, concat (left @ vis)] @ hint_drawn room h @
       [csi [ch_0, 75], ch_cr # csi (int_bytes (int (pwidth + text_width left)) @ [67])])) \<and>
    refreshSingleLine cb False l = Some ([ch_cr] @ csi [ch_0, 75])"
proof -
  obtain post where b: "edit_buf l = concat bs @ concat as @ 0 # post" "edit_pos l = length (concat bs)"
    "edit_len l = length (concat bs) + length (concat as)" and plain: "\<forall>c \<in> set (bs @ as). plain_char c"
    using assms(1) by (auto simp: shows_text_def)
  let ?s = left
  obtain gone where gone: "bs = gone @ ?s"
    using scroll_suffix [of pwidth "cols l" bs] by (auto simp: suffix_def left_def)
  obtain vis where vis: "crop pwidth (cols l) (?s @ as) = ?s @ vis" "prefix vis as"
    using crop_keeps [of pwidth ?s "cols l" as] scroll_fits [OF assms(5), of bs] by (auto simp: left_def)
  then obtain rest where rest: "as = vis @ rest"
    by (auto simp: prefix_def)
  have width: "text_width (?s @ as) \<le> text_width (bs @ as)"
    using arg_cong [OF gone, of text_width] by simp
  have w1: "utf8StrWidth (edit_buf l) 0 (edit_pos l) = Some (text_width bs)"
    using width_plain [of bs "[]" "concat as @ 0 # post"] plain by (simp add: b)
  have w2: "utf8StrWidth (edit_buf l) 0 (edit_len l) = Some (text_width (bs @ as))"
    using width_plain [OF plain, of "[]" "0 # post"] by (simp add: b)
  define v where "v = \<lparr>win_off = length (concat gone), win_len = length (concat ?s) + length (concat as), win_pos = length (concat ?s),
    win_poscol = text_width ?s, win_lencol = text_width (?s @ as)\<rparr>"
  define v' where "v' = v\<lparr>win_len := length (concat (?s @ vis)), win_lencol := text_width (?s @ vis)\<rparr>"
  have "length (concat bs) - length (concat ?s) = length (concat gone)"
    using arg_cong [OF gone, of "\<lambda>x. length (concat x)"] by simp
  then have left: "trim_left (edit_buf l) pwidth (cols l)
      \<lparr>win_off = 0, win_len = edit_len l, win_pos = edit_pos l, win_poscol = text_width bs, win_lencol = text_width (bs @ as)\<rparr> = Some v"
    using trim_left_plain [OF plain assms(5), of "[]" "0 # post"] assms(6) by (simp add: b v_def Let_def flip: left_def)
  have "\<forall>c \<in> set (?s @ as). plain_char c"
    using plain gone by (metis Un_iff set_append)
  moreover have "edit_buf l = concat gone @ concat (?s @ as) @ 0 # post"
    using arg_cong [OF gone, of concat] by (simp add: b)
  ultimately have right: "trim_right (edit_buf l) pwidth (cols l) v = Some v'"
    using trim_right_plain [of "?s @ as" pwidth "cols l" "concat gone" "0 # post"] assms(5,6) width vis(1)
    by (simp add: v_def v'_def)
  have shown: "get_bytes (win_off v') (win_len v') (edit_buf l) = Some (concat (?s @ vis))"
    using \<open>edit_buf l = concat gone @ concat (?s @ as) @ 0 # post\<close> rest by (simp add: get_bytes_def v'_def v_def)
  have h: "refreshShowHints cb l pwidth (abAppend (abAppend (abAppend [] [ch_cr]) (prompt l)) (concat (?s @ vis))) =
      Some (foldl abAppend (abAppend (abAppend (abAppend [] [ch_cr]) (prompt l)) (concat (?s @ vis))) (hint_drawn room h))"
    using hints_shown [OF assms(2,1), of pwidth] by (simp only: room_def)
  have col: "as_int (win_poscol v' + pwidth) = int (pwidth + text_width ?s)"
    using assms(6) width by (simp add: as_int_def Let_def v'_def v_def)
  have p: "get_bytes 0 (plen l) (prompt l @ [0]) = Some (prompt l)"
    using assms(3) by (simp add: get_bytes_def)
  have "refreshSingleLine cb True l = Some (foldl abAppend []
      ([[ch_cr], prompt l, concat (?s @ vis)] @ hint_drawn room h @ [csi [ch_0, 75], ch_cr # csi (int_bytes (int (pwidth + text_width ?s)) @ [67])]))"
    by (simp only: refreshSingleLine_def assms(4) w1 w2 left right p shown h col Option.bind.simps if_True Let_def foldl.simps foldl_append)
  moreover have "refreshSingleLine cb False l = Some ([ch_cr] @ csi [ch_0, 75])"
    by (simp add: refreshSingleLine_def assms(4) w1 w2 left [simplified] right Let_def abAppend_def csi_def)
  moreover have "pwidth + text_width (bs @ as) + hint_width room h \<le> max (cols l) (pwidth + text_width (bs @ as))"
    using hint_width_room [of room h] by (auto simp: room_def)
  moreover have "room = 0 \<longrightarrow> hint_drawn room h = []"
    by (simp add: hint_drawn_def split: option.split)
  ultimately show ?thesis
    using vis(1) rest scroll_fits [OF assms(5), of bs] crop_fits [of pwidth "cols l" "?s @ as"] assms(5)
    by (intro exI [of _ vis] exI [of _ rest] conjI) (simp_all add: left_def)
qed

text \<open>C24: Drawing the line always ends, and stays inside of the terminal: what is written is the prompt, a window of the text, the
  hint, and the moves of the cursor, and nothing else. The window begins where the cursor first fits and ends where the rest no
  longer does; it is not wider than what the prompt leaves, and the cursor is inside of it. The hint is drawn only if there are
  columns left behind the whole text, in its colour, and cut to the characters that fit these columns; if it fits it is not cut.
\<close>

theorem drawing_fits:
  assumes "shows_text l bs as" "hint_is cb (c_string (edit_buf l)) h" "plen l = length (prompt l)"
    and "utf8StrWidth (prompt l @ [0]) 0 (plen l) = Some pwidth" "pwidth < cols l" "pwidth + text_width (bs @ as) < 2 ^ 31"
  defines "left \<equiv> scroll pwidth (cols l) bs" and "room \<equiv> cols l - (pwidth + text_width (bs @ as))"
  shows "\<exists>vis rest. as = vis @ rest \<and> crop pwidth (cols l) (left @ as) = left @ vis \<and>
    pwidth + text_width (left @ vis) \<le> cols l \<and> pwidth + text_width left < cols l \<and>
    (room = 0 \<longrightarrow> hint_drawn room h = []) \<and> pwidth + text_width (bs @ as) + hint_width room h \<le> max (cols l) (pwidth + text_width (bs @ as)) \<and>
    refreshSingleLine cb True l = Some (foldl abAppend []
      ([[ch_cr], prompt l, concat (left @ vis)] @ hint_drawn room h @
       [csi [ch_0, 75], ch_cr # csi (int_bytes (int (pwidth + text_width left)) @ [67])])) \<and>
    refreshSingleLine cb False l = Some ([ch_cr] @ csi [ch_0, 75])"
  unfolding left_def room_def by (rule drawing_plain [OF assms(1-6)])

text \<open>Four letters in a terminal of five columns, with a prompt of two: the last two are seen. In a terminal of eight columns all are
  seen, and of a hint of three letters in colour 33 the first two.\<close>

definition demo_line :: ln_state where
  "demo_line = \<lparr>in_completion = False, completion_idx = 0, edit_buf = [0x61, 0x62, 0x63, 0x64, 0], simple_mode = False, tab_empty = False,
     buflen = 4, prompt = [62, 32], plen = 2, edit_pos = 4, oldpos = 0, edit_len = 4, cols = 5, oldrows = 0, oldrpos = 0, history_index = 0\<rparr>"

definition demo_hints :: hint_fun where
  "demo_hints line = Some (33, 0, [0x78, 0x79, 0x7a])"

theorem drawing_fits_witness:
  "refreshSingleLine None True demo_line =
     Some (foldl abAppend [] [[ch_cr], [62, 32], [0x63, 0x64], csi [ch_0, 75], ch_cr # csi (int_bytes 4 @ [67])]) \<and>
   refreshSingleLine (Some demo_hints) True (demo_line\<lparr>cols := 8\<rparr>) =
     Some (foldl abAppend [] [[ch_cr], [62, 32], [0x61, 0x62, 0x63, 0x64],
       csi (int_bytes 0 @ [ch_semicolon] @ int_bytes 33 @ [ch_semicolon, 52, 57, ch_m]), [0x78, 0x79], csi [ch_0, ch_m],
       csi [ch_0, 75], ch_cr # csi (int_bytes 6 @ [67])])"
proof -
  let ?bs = "[[0x61], [0x62], [0x63], [0x64]] :: u8 list list" and ?hs = "[[0x78], [0x79], [0x7a]] :: u8 list list"
    and ?wide = "demo_line\<lparr>cols := 8\<rparr>"
  have l: "prompt demo_line = [62, 32]" "cols demo_line = 5" "prompt ?wide = [62, 32]" "cols ?wide = 8"
    by (simp_all add: demo_line_def)
  have plain: "\<forall>c \<in> set (?bs @ ?hs). plain_char c"
    by code_simp
  then have t: "shows_text demo_line ?bs []" "shows_text ?wide ?bs []"
    by (simp_all add: shows_text_def demo_line_def)
  have h: "hint_is None (c_string (edit_buf demo_line)) None" "hint_is (Some demo_hints) (c_string (edit_buf ?wide)) (Some (33, 0, ?hs))"
    using plain by (simp_all add: hint_is_def demo_hints_def)
  have w: "utf8StrWidth (prompt demo_line @ [0]) 0 (plen demo_line) = Some 2" "utf8StrWidth (prompt ?wide @ [0]) 0 (plen ?wide) = Some 2"
    "plen demo_line = length (prompt demo_line)" "plen ?wide = length (prompt ?wide)"
    "scroll 2 5 ?bs = [[0x63], [0x64]]" "scroll 2 8 ?bs = ?bs" "text_width (?bs @ []) = 4" "text_width [[0x63], [0x64 :: u8]] = 2"
    "hint_drawn 2 (Some (33, 0, ?hs)) =
      [csi (int_bytes 0 @ [ch_semicolon] @ int_bytes 33 @ [ch_semicolon, 52, 57, ch_m]), [0x78, 0x79], csi [ch_0, ch_m]]"
    by code_simp+
  have small: "2 < cols demo_line" "2 < cols ?wide" "2 + text_width (?bs @ []) < 2 ^ 31"
    by (simp_all only: w(7) l) simp_all
  have room: "int (2 + 2) = 4" "int (2 + 4) = 6" "5 - (2 + 4) = (0 :: nat)" "8 - (2 + 4) = (2 :: nat)"
    by simp_all
  have "hint_drawn x None = []" for x
    by (simp add: hint_drawn_def)
  moreover have tw: "text_width ?bs = 4"
    using w(7) by simp
  ultimately show ?thesis
    using drawing_fits [OF t(1) h(1) w(3,1) small(1,3)] drawing_fits [OF t(2) h(2) w(4,2) small(2,3)]
    unfolding l w(5-9) room tw by auto
qed

end
