(* ===== verification/Vt100_Keys.thy ===== *)
theory Vt100_Keys
  imports Prelude
begin

text \<open>
  The key decoder of the terminal programs, \<^verbatim>\<open>src/lib/vt100_keys/vt100_keys.c\<close>: the tables that map an escape
  sequence to a key, the reader with its pushed-back key, and the reader of the toolbar. The bytes that wait to be
  read are a list. A blocking read of an empty list waits for ever: the result is \<open>None\<close>.
\<close>

definition VT100_KEY_ESC :: int where "VT100_KEY_ESC = 0x1b"
definition VT100_KEY_UP :: int where "VT100_KEY_UP = 0x100"
definition VT100_KEY_DOWN :: int where "VT100_KEY_DOWN = 0x101"
definition VT100_KEY_RIGHT :: int where "VT100_KEY_RIGHT = 0x102"
definition VT100_KEY_LEFT :: int where "VT100_KEY_LEFT = 0x103"
definition VT100_KEY_HOME :: int where "VT100_KEY_HOME = 0x104"
definition VT100_KEY_END :: int where "VT100_KEY_END = 0x105"
definition VT100_KEY_DELETE :: int where "VT100_KEY_DELETE = 0x106"
definition VT100_KEY_INSERT :: int where "VT100_KEY_INSERT = 0x107"
definition VT100_KEY_PAGEUP :: int where "VT100_KEY_PAGEUP = 0x108"
definition VT100_KEY_PAGEDOWN :: int where "VT100_KEY_PAGEDOWN = 0x109"

text \<open>The function keys \<open>VT100_KEY_F1\<close> to \<open>VT100_KEY_F12\<close>.\<close>

definition VT100_KEY_F :: "nat \<Rightarrow> int" where "VT100_KEY_F n = 0x10F + int n"

lemmas vt100_keys = VT100_KEY_ESC_def VT100_KEY_UP_def VT100_KEY_DOWN_def VT100_KEY_RIGHT_def VT100_KEY_LEFT_def
  VT100_KEY_HOME_def VT100_KEY_END_def VT100_KEY_DELETE_def VT100_KEY_INSERT_def VT100_KEY_PAGEUP_def
  VT100_KEY_PAGEDOWN_def VT100_KEY_F_def

definition decode_csi_tilde_1 :: "int \<Rightarrow> int" where
  "decode_csi_tilde_1 n =
     (if n = 1 then VT100_KEY_HOME
      else if n = 2 then VT100_KEY_INSERT
      else if n = 3 then VT100_KEY_DELETE
      else if n = 4 then VT100_KEY_END
      else if n = 5 then VT100_KEY_PAGEUP
      else if n = 6 then VT100_KEY_PAGEDOWN
      else if n = 7 then VT100_KEY_HOME
      else if n = 8 then VT100_KEY_END
      else VT100_KEY_ESC)"

definition decode_csi_tilde_2 :: "int \<Rightarrow> int" where
  "decode_csi_tilde_2 code =
     (if code = 11 then VT100_KEY_F 1
      else if code = 12 then VT100_KEY_F 2
      else if code = 13 then VT100_KEY_F 3
      else if code = 14 then VT100_KEY_F 4
      else if code = 15 then VT100_KEY_F 5
      else if code = 17 then VT100_KEY_F 6
      else if code = 18 then VT100_KEY_F 7
      else if code = 19 then VT100_KEY_F 8
      else if code = 20 then VT100_KEY_F 9
      else if code = 21 then VT100_KEY_F 10
      else if code = 23 then VT100_KEY_F 11
      else if code = 24 then VT100_KEY_F 12
      else VT100_KEY_ESC)"

definition is_digit :: "u8 \<Rightarrow> bool" where
  "is_digit c \<longleftrightarrow> ch_0 \<le> c \<and> c \<le> ch_9"

definition digit :: "u8 \<Rightarrow> int" where
  "digit c = uint c - 48"

text \<open>The valid bytes of the sequence are the argument; its length is the number \<open>len\<close> of the code.\<close>

definition vt100_key_decode_csi :: "u8 list \<Rightarrow> int" where
  "vt100_key_decode_csi seq =
     (if length seq < 2 then VT100_KEY_ESC
      else if seq ! 0 = ch_lbracket \<and> ch_A \<le> seq ! 1 \<and> seq ! 1 \<le> 90 then
        (if seq ! 1 = 65 then VT100_KEY_UP
         else if seq ! 1 = 66 then VT100_KEY_DOWN
         else if seq ! 1 = 67 then VT100_KEY_RIGHT
         else if seq ! 1 = 68 then VT100_KEY_LEFT
         else if seq ! 1 = 72 then VT100_KEY_HOME
         else if seq ! 1 = 70 then VT100_KEY_END
         else VT100_KEY_ESC)
      else if seq ! 0 = ch_lbracket \<and> is_digit (seq ! 1) \<and> 3 \<le> length seq \<and> seq ! 2 = ch_tilde then decode_csi_tilde_1 (digit (seq ! 1))
      else if seq ! 0 = ch_lbracket \<and> is_digit (seq ! 1) \<and> 4 \<le> length seq \<and> is_digit (seq ! 2) \<and> seq ! 3 = ch_tilde then
        decode_csi_tilde_2 (digit (seq ! 1) * 10 + digit (seq ! 2))
      else if seq ! 0 = 79 then
        (if seq ! 1 = 72 then VT100_KEY_HOME
         else if seq ! 1 = 70 then VT100_KEY_END
         else if seq ! 1 = 80 then VT100_KEY_F 1
         else if seq ! 1 = 81 then VT100_KEY_F 2
         else if seq ! 1 = 82 then VT100_KEY_F 3
         else if seq ! 1 = 83 then VT100_KEY_F 4
         else VT100_KEY_ESC)
      else VT100_KEY_ESC)"

text \<open>The bytes a reader takes after ESC, as far as they are there: two, a third after a digit, a fourth after another.\<close>

definition numeric_csi :: "u8 list \<Rightarrow> bool" where
  "numeric_csi seq \<longleftrightarrow> seq ! 0 = ch_lbracket \<and> is_digit (seq ! 1)"

definition csi_bytes :: "u8 list \<Rightarrow> u8 list" where
  "csi_bytes inp =
     (if length inp < 2 then inp
      else if \<not> numeric_csi inp then take 2 inp
      else if length inp < 3 \<or> \<not> is_digit (inp ! 2) then take 3 inp
      else take 4 inp)"

text \<open>The reader: the state is the pushed-back key (negative for none); \<open>try\<close> tells whether there is a non-blocking read.
  Without one the reader waits for the bytes of a sequence.\<close>

record vt100_key_state =
  has_try :: bool
  pushback :: int

definition vt100_key_init :: "bool \<Rightarrow> vt100_key_state" where
  "vt100_key_init has = \<lparr>has_try = has, pushback = - 1\<rparr>"

definition vt100_key_unget :: "int \<Rightarrow> vt100_key_state \<Rightarrow> vt100_key_state" where
  "vt100_key_unget key s = s\<lparr>pushback := key\<rparr>"

text \<open>\<open>try_read\<close>: a byte, no byte, or waiting for ever.\<close>

definition try_read :: "vt100_key_state \<Rightarrow> u8 list \<Rightarrow> (u8 list \<times> u8 list) option" where
  "try_read s inp =
     (case inp of c # rest \<Rightarrow> Some ([c], rest)
      | [] \<Rightarrow> if has_try s then Some ([], []) else None)"

definition vt100_key_read :: "vt100_key_state \<Rightarrow> u8 list \<Rightarrow> (int \<times> vt100_key_state \<times> u8 list) option" where
  "vt100_key_read s inp =
     (if 0 \<le> pushback s then Some (pushback s, s\<lparr>pushback := - 1\<rparr>, inp)
      else case inp of [] \<Rightarrow> None | c # inp1 \<Rightarrow>
        if c \<noteq> ch_esc then Some (uint c, s, inp1)
        else case try_read s inp1 of None \<Rightarrow> None | Some (b0, inp2) \<Rightarrow>
          if b0 = [] then Some (VT100_KEY_ESC, s, inp2)
          else case try_read s inp2 of None \<Rightarrow> None | Some (b1, inp3) \<Rightarrow>
            if b1 = [] then Some (VT100_KEY_ESC, s, inp3)
            else if numeric_csi (b0 @ b1) then
              (case try_read s inp3 of None \<Rightarrow> None | Some (b2, inp4) \<Rightarrow>
                 if b2 \<noteq> [] \<and> is_digit (hd b2) then
                   (case try_read s inp4 of None \<Rightarrow> None | Some (b3, inp5) \<Rightarrow>
                      Some (vt100_key_decode_csi (b0 @ b1 @ b2 @ b3), s, inp5))
                 else Some (vt100_key_decode_csi (b0 @ b1 @ b2), s, inp4))
            else Some (vt100_key_decode_csi (b0 @ b1), s, inp3))"

text \<open>The toolbar has taken the first byte; the rest is what waits in the receive queue, and it never waits for more.\<close>

definition vt100_key_read_rx_fifo :: "u8 \<Rightarrow> u8 list \<Rightarrow> int \<times> u8 list" where
  "vt100_key_read_rx_fifo first_byte inp =
     (if first_byte \<noteq> ch_esc then (uint first_byte, inp)
      else let seq = csi_bytes inp in
        (if 2 \<le> length seq then vt100_key_decode_csi seq else VT100_KEY_ESC, drop (length seq) inp))"

subsection \<open>A sequence is read as a whole\<close>

definition csi_complete :: "u8 list \<Rightarrow> bool" where
  "csi_complete seq \<longleftrightarrow> 2 \<le> length seq \<and> length seq = (if numeric_csi seq then if is_digit (seq ! 2) then 4 else 3 else 2)"

lemma complete_cases:
  assumes "csi_complete seq"
  obtains a b where "seq = [a, b]" "\<not> numeric_csi [a, b]"
  | a b c where "seq = [a, b, c]" "numeric_csi [a, b]" "\<not> is_digit c"
  | a b c d where "seq = [a, b, c, d]" "numeric_csi [a, b]" "is_digit c"
  using assms
  by (cases seq rule: list.exhaust; auto simp: csi_complete_def numeric_csi_def length_Suc_conv numeral_eq_Suc split: if_splits)

lemma csi_bytes_complete: "csi_complete seq \<Longrightarrow> csi_bytes (seq @ rest) = seq"
  by (erule complete_cases) (auto simp: csi_bytes_def numeric_csi_def)

lemma read_complete:
  assumes "csi_complete seq" "pushback s < 0"
  shows "vt100_key_read s (ch_esc # seq @ rest) = Some (vt100_key_decode_csi seq, s, rest)"
  using assms(1) by (rule complete_cases) (use assms(2) in \<open>simp_all add: vt100_key_read_def try_read_def\<close>)

text \<open>The sequences a terminal sends for its keys.\<close>

definition key_sequences :: "(u8 list \<times> int) list" where
  "key_sequences =
     [([91, 65], VT100_KEY_UP), ([91, 66], VT100_KEY_DOWN), ([91, 67], VT100_KEY_RIGHT), ([91, 68], VT100_KEY_LEFT),
      ([91, 72], VT100_KEY_HOME), ([91, 70], VT100_KEY_END), ([79, 72], VT100_KEY_HOME), ([79, 70], VT100_KEY_END),
      ([91, 49, 126], VT100_KEY_HOME), ([91, 50, 126], VT100_KEY_INSERT), ([91, 51, 126], VT100_KEY_DELETE), ([91, 52, 126], VT100_KEY_END),
      ([91, 53, 126], VT100_KEY_PAGEUP), ([91, 54, 126], VT100_KEY_PAGEDOWN), ([91, 55, 126], VT100_KEY_HOME), ([91, 56, 126], VT100_KEY_END),
      ([79, 80], VT100_KEY_F 1), ([79, 81], VT100_KEY_F 2), ([79, 82], VT100_KEY_F 3), ([79, 83], VT100_KEY_F 4),
      ([91, 49, 49, 126], VT100_KEY_F 1), ([91, 49, 50, 126], VT100_KEY_F 2), ([91, 49, 51, 126], VT100_KEY_F 3), ([91, 49, 52, 126], VT100_KEY_F 4),
      ([91, 49, 53, 126], VT100_KEY_F 5), ([91, 49, 55, 126], VT100_KEY_F 6), ([91, 49, 56, 126], VT100_KEY_F 7), ([91, 49, 57, 126], VT100_KEY_F 8),
      ([91, 50, 48, 126], VT100_KEY_F 9), ([91, 50, 49, 126], VT100_KEY_F 10), ([91, 50, 51, 126], VT100_KEY_F 11), ([91, 50, 52, 126], VT100_KEY_F 12)]"

lemma key_sequences_decode: "\<forall>(seq, key) \<in> set key_sequences. csi_complete seq \<and> vt100_key_decode_csi seq = key"
  by (simp add: key_sequences_def csi_complete_def numeric_csi_def is_digit_def digit_def vt100_key_decode_csi_def
      decode_csi_tilde_1_def decode_csi_tilde_2_def)

text \<open>Every key of the terminal is recognised from any of its escape sequences, by the blocking reader with or without a
  non-blocking read and by the reader of the toolbar, and exactly the bytes of the sequence are taken; every other byte is its own key.\<close>

theorem keys_are_read:
  assumes "(seq, key) \<in> set key_sequences" "pushback s < 0" "c \<noteq> ch_esc"
  shows "vt100_key_read s (ch_esc # seq @ rest) = Some (key, s, rest) \<and> vt100_key_read_rx_fifo ch_esc (seq @ rest) = (key, rest) \<and>
    vt100_key_read s (c # rest) = Some (uint c, s, rest) \<and> vt100_key_read_rx_fifo c rest = (uint c, rest) \<and>
    (0 \<le> k \<longrightarrow> vt100_key_read (vt100_key_unget k s) rest = Some (k, s\<lparr>pushback := - 1\<rparr>, rest))"
proof -
  have seq: "csi_complete seq" "vt100_key_decode_csi seq = key"
    using key_sequences_decode assms(1) by auto
  then have "2 \<le> length seq"
    by (simp add: csi_complete_def)
  then show ?thesis
    using seq assms(2,3) read_complete [OF seq(1) assms(2), of rest] csi_bytes_complete [OF seq(1), of rest]
    by (simp add: vt100_key_read_rx_fifo_def vt100_key_read_def vt100_key_unget_def Let_def)
qed

theorem keys_are_read_witness:
  "vt100_key_read (vt100_key_init True) [ch_esc, 91, 51, 126, 120] = Some (VT100_KEY_DELETE, vt100_key_init True, [120])"
proof -
  have "([91, 51, 126], VT100_KEY_DELETE) \<in> set key_sequences" "pushback (vt100_key_init True) < 0" "ch_x \<noteq> ch_esc"
    by (simp_all add: key_sequences_def vt100_key_init_def)
  from keys_are_read [OF this, of "[120]" 0] show ?thesis
    by simp
qed

end
