(* ===== verification/Ln_Edit.thy ===== *)
theory Ln_Edit
  imports Ln_Refresh Vt100_Keys
begin

text \<open>
  The line editor itself, \<^verbatim>\<open>src/lib/bp_linenoise/linenoise.c\<close>: the editing functions, completion, and the function that takes
  one key. An editing function returns the new state and what it writes to the terminal; \<open>None\<close> is an access outside of an
  array (or a redraw that never ends). The completion and hint callbacks are arguments, as they are in the code.
\<close>

subsection \<open>Editing\<close>

definition refreshLine :: "hint_fun option \<Rightarrow> ln_state \<Rightarrow> (ln_state \<times> u8 list) option" where
  "refreshLine hs l = (if simple_mode l then Some (l, []) else map_option (\<lambda>out. (l, out)) (refreshSingleLine hs True l))"

definition set_byte :: "nat \<Rightarrow> u8 \<Rightarrow> u8 list \<Rightarrow> u8 list option" where
  "set_byte i c b = put_bytes i [c] b"

definition linenoiseEditInsert :: "hint_fun option \<Rightarrow> u8 list \<Rightarrow> ln_state \<Rightarrow> (ln_state \<times> u8 list) option" where
  "linenoiseEditInsert hs c l =
     (if edit_len l + length c \<le> buflen l then
        if simple_mode l then do {
          b \<leftarrow> (if edit_pos l < edit_len l then move_bytes (edit_pos l + length c) (edit_pos l) (edit_len l - edit_pos l) (edit_buf l)
               else Some (edit_buf l));
          b \<leftarrow> put_bytes (edit_pos l) c b;
          b \<leftarrow> set_byte (edit_len l + length c) 0 b;
          Some (l\<lparr>edit_buf := b, edit_pos := edit_pos l + length c, edit_len := edit_len l + length c\<rparr>, c) }
        else if edit_len l = edit_pos l then do {
          b \<leftarrow> put_bytes (edit_pos l) c (edit_buf l);
          b \<leftarrow> set_byte (edit_len l + length c) 0 b;
          let l = l\<lparr>edit_buf := b, edit_pos := edit_pos l + length c, edit_len := edit_len l + length c\<rparr>;
          pwidth \<leftarrow> utf8StrWidth (prompt l @ [0]) 0 (plen l);
          width \<leftarrow> utf8StrWidth (edit_buf l) 0 (edit_len l);
          if pwidth + width < cols l \<and> hs = None then Some (l, c) else refreshLine hs l }
        else do {
          b \<leftarrow> move_bytes (edit_pos l + length c) (edit_pos l) (size_sub (edit_len l) (edit_pos l)) (edit_buf l);
          b \<leftarrow> put_bytes (edit_pos l) c b;
          b \<leftarrow> set_byte (edit_len l + length c) 0 b;
          refreshLine hs (l\<lparr>edit_buf := b, edit_len := edit_len l + length c, edit_pos := edit_pos l + length c\<rparr>) }
      else Some (l, []))"

definition linenoiseEditMoveLeft :: "hint_fun option \<Rightarrow> ln_state \<Rightarrow> (ln_state \<times> u8 list) option" where
  "linenoiseEditMoveLeft hs l =
     (if 0 < edit_pos l then do {
        n \<leftarrow> utf8PrevCharLen (edit_buf l) (edit_pos l);
        refreshLine hs (l\<lparr>edit_pos := edit_pos l - n\<rparr>) }
      else Some (l, []))"

definition linenoiseEditMoveRight :: "hint_fun option \<Rightarrow> ln_state \<Rightarrow> (ln_state \<times> u8 list) option" where
  "linenoiseEditMoveRight hs l =
     (if edit_pos l \<noteq> edit_len l then do {
        n \<leftarrow> utf8NextCharLen (edit_buf l) (edit_pos l) (edit_len l);
        refreshLine hs (l\<lparr>edit_pos := edit_pos l + n\<rparr>) }
      else Some (l, []))"

definition linenoiseEditMoveHome :: "hint_fun option \<Rightarrow> ln_state \<Rightarrow> (ln_state \<times> u8 list) option" where
  "linenoiseEditMoveHome hs l = (if edit_pos l \<noteq> 0 then refreshLine hs (l\<lparr>edit_pos := 0\<rparr>) else Some (l, []))"

definition linenoiseEditMoveEnd :: "hint_fun option \<Rightarrow> ln_state \<Rightarrow> (ln_state \<times> u8 list) option" where
  "linenoiseEditMoveEnd hs l = (if edit_pos l \<noteq> edit_len l then refreshLine hs (l\<lparr>edit_pos := edit_len l\<rparr>) else Some (l, []))"

definition linenoiseEditDelete :: "hint_fun option \<Rightarrow> ln_state \<Rightarrow> (ln_state \<times> u8 list) option" where
  "linenoiseEditDelete hs l =
     (if 0 < edit_len l \<and> edit_pos l < edit_len l then do {
        clen \<leftarrow> utf8NextCharLen (edit_buf l) (edit_pos l) (edit_len l);
        b \<leftarrow> move_bytes (edit_pos l) (edit_pos l + clen) (size_sub (edit_len l - edit_pos l) clen) (edit_buf l);
        b \<leftarrow> set_byte (size_sub (edit_len l) clen) 0 b;
        refreshLine hs (l\<lparr>edit_buf := b, edit_len := size_sub (edit_len l) clen\<rparr>) }
      else Some (l, []))"

definition linenoiseEditBackspace :: "hint_fun option \<Rightarrow> ln_state \<Rightarrow> (ln_state \<times> u8 list) option" where
  "linenoiseEditBackspace hs l =
     (if 0 < edit_pos l \<and> 0 < edit_len l then do {
        clen \<leftarrow> utf8PrevCharLen (edit_buf l) (edit_pos l);
        b \<leftarrow> move_bytes (edit_pos l - clen) (edit_pos l) (size_sub (edit_len l) (edit_pos l)) (edit_buf l);
        b \<leftarrow> set_byte (size_sub (edit_len l) clen) 0 b;
        refreshLine hs (l\<lparr>edit_buf := b, edit_pos := edit_pos l - clen, edit_len := size_sub (edit_len l) clen\<rparr>) }
      else Some (l, []))"

text \<open>The backspace of the simple mode takes one byte.\<close>

definition simple_backspace :: "ln_state \<Rightarrow> (ln_state \<times> u8 list) option" where
  "simple_backspace l =
     (if 0 < edit_pos l \<and> 0 < edit_len l then do {
        b \<leftarrow> move_bytes (edit_pos l - 1) (edit_pos l) (size_sub (edit_len l) (edit_pos l)) (edit_buf l);
        b \<leftarrow> set_byte (edit_len l - 1) 0 b;
        Some (l\<lparr>edit_buf := b, edit_pos := edit_pos l - 1, edit_len := edit_len l - 1\<rparr>, [8, ch_space, 8]) }
      else Some (l, []))"

text \<open>The two loops of \<open>linenoiseEditDeletePrevWord\<close>: back over spaces, back over anything else.\<close>

function back_over :: "bool \<Rightarrow> u8 list \<Rightarrow> nat \<Rightarrow> nat option" where
  "back_over spaces buf pos =
     (if pos = 0 then Some 0
      else case byte_at buf (pos - 1) of None \<Rightarrow> None | Some c \<Rightarrow>
        if (c = ch_space) = spaces then
          (case utf8PrevCharLen buf pos of None \<Rightarrow> None | Some n \<Rightarrow> back_over spaces buf (pos - n))
        else Some pos)"
  by pat_completeness auto
termination
  by (relation "measure (\<lambda>(s, b, pos). pos)") (auto dest!: prev_char_le(2))

declare back_over.simps [simp del]

definition linenoiseEditDeletePrevWord :: "hint_fun option \<Rightarrow> ln_state \<Rightarrow> (ln_state \<times> u8 list) option" where
  "linenoiseEditDeletePrevWord hs l = do {
     pos \<leftarrow> back_over True (edit_buf l) (edit_pos l);
     pos \<leftarrow> back_over False (edit_buf l) pos;
     let diff = edit_pos l - pos;
     b \<leftarrow> move_bytes pos (edit_pos l) (size_sub (edit_len l) (edit_pos l) + 1) (edit_buf l);
     refreshLine hs (l\<lparr>edit_buf := b, edit_pos := pos, edit_len := size_sub (edit_len l) diff\<rparr>) }"

text \<open>Ctrl-T: the characters around the cursor change places, through an array of 32 bytes.\<close>

definition swap_chars :: "hint_fun option \<Rightarrow> ln_state \<Rightarrow> (ln_state \<times> u8 list) option" where
  "swap_chars hs l =
     (if 0 < edit_pos l \<and> edit_pos l < edit_len l then do {
        prevlen \<leftarrow> utf8PrevCharLen (edit_buf l) (edit_pos l);
        currlen \<leftarrow> utf8NextCharLen (edit_buf l) (edit_pos l) (edit_len l);
        let prevstart = edit_pos l - prevlen;
        tmp \<leftarrow> get_bytes (edit_pos l) currlen (edit_buf l);
        if 32 < currlen then None
        else do {
          b \<leftarrow> move_bytes (prevstart + currlen) prevstart prevlen (edit_buf l);
          b \<leftarrow> put_bytes prevstart tmp b;
          refreshLine hs (l\<lparr>edit_buf := b, edit_pos := (if edit_pos l + currlen \<le> edit_len l then edit_pos l + currlen else edit_pos l)\<rparr>) } }
      else Some (l, []))"

definition kill_line :: "hint_fun option \<Rightarrow> ln_state \<Rightarrow> (ln_state \<times> u8 list) option" where
  "kill_line hs l = do {
     b \<leftarrow> set_byte 0 0 (edit_buf l);
     refreshLine hs (l\<lparr>edit_buf := b, edit_pos := 0, edit_len := 0\<rparr>) }"

definition kill_right :: "hint_fun option \<Rightarrow> ln_state \<Rightarrow> (ln_state \<times> u8 list) option" where
  "kill_right hs l = do {
     b \<leftarrow> set_byte (edit_pos l) 0 (edit_buf l);
     refreshLine hs (l\<lparr>edit_buf := b, edit_len := edit_pos l\<rparr>) }"

definition clear_screen :: "hint_fun option \<Rightarrow> ln_state \<Rightarrow> (ln_state \<times> u8 list) option" where
  "clear_screen hs l = map_option (\<lambda>(l, out). (l, csi [72] @ csi [50, 74] @ out)) (refreshLine hs l)"

definition LINENOISE_HISTORY_NEXT :: int where "LINENOISE_HISTORY_NEXT = 0"
definition LINENOISE_HISTORY_PREV :: int where "LINENOISE_HISTORY_PREV = 1"

definition linenoiseEditHistoryNext :: "hint_fun option \<Rightarrow> int \<Rightarrow> ln_state \<times> ln_history \<Rightarrow> ((ln_state \<times> ln_history) \<times> u8 list) option" where
  "linenoiseEditHistoryNext hs dir = (\<lambda>(l, h).
     if 1 < history_len h then do {
       h \<leftarrow> (if history_index l = 0 then history_save (c_string (edit_buf l)) h else Some h);
       let l = l\<lparr>history_index := history_index l + (if dir = LINENOISE_HISTORY_PREV then 1 else - 1)\<rparr>;
       if history_index l < 0 then Some ((l\<lparr>history_index := 0\<rparr>, h), [])
       else if int (history_len h) \<le> history_index l then Some ((l\<lparr>history_index := int (history_len h) - 1\<rparr>, h), [])
       else do {
         b \<leftarrow> put_bytes 0 (strncpy_bytes (history_text (history_len h - 1 - nat (history_index l)) h) (buflen l)) (edit_buf l);
         b \<leftarrow> set_byte (buflen l - 1) 0 b;
         (l, out) \<leftarrow> refreshLine hs (l\<lparr>edit_buf := b, edit_pos := length (c_string b), edit_len := length (c_string b)\<rparr>);
         Some ((l, h), out) } }
     else Some ((l, h), []))"

subsection \<open>The editor\<close>

text \<open>The editor with the bytes that wait to be read and what has been written to the terminal.\<close>

record ln_editor =
  ed_line :: ln_state
  ed_history :: ln_history
  ed_input :: "u8 list"
  ed_output :: "u8 list"

record ln_callbacks =
  cb_completion :: "(cstr \<Rightarrow> cstr list) option"
  cb_hints :: "hint_fun option"

abbreviation "BP_LINENOISE_COMPLETIONS_MAX \<equiv> 8 :: nat"

definition ed_write :: "u8 list \<Rightarrow> ln_editor \<Rightarrow> ln_editor" where
  "ed_write out e = e\<lparr>ed_output := ed_output e @ out\<rparr>"

text \<open>An editing function applied to the line of the editor.\<close>

definition on_line :: "(ln_state \<Rightarrow> (ln_state \<times> u8 list) option) \<Rightarrow> ln_editor \<Rightarrow> ln_editor option" where
  "on_line f e = map_option (\<lambda>(l, out). ed_write out (e\<lparr>ed_line := l\<rparr>)) (f (ed_line e))"

definition on_history :: "(ln_state \<times> ln_history \<Rightarrow> ((ln_state \<times> ln_history) \<times> u8 list) option) \<Rightarrow> ln_editor \<Rightarrow> ln_editor option" where
  "on_history f e = map_option (\<lambda>((l, h), out). ed_write out (e\<lparr>ed_line := l, ed_history := h\<rparr>)) (f (ed_line e, ed_history e))"

subsection \<open>Completion\<close>

definition linenoiseAddCompletion :: "cstr list \<Rightarrow> cstr \<Rightarrow> cstr list" where
  "linenoiseAddCompletion lc s = (if length lc < BP_LINENOISE_COMPLETIONS_MAX then lc @ [s] else lc)"

definition completions :: "(cstr \<Rightarrow> cstr list) \<Rightarrow> u8 list \<Rightarrow> cstr list" where
  "completions callback buf = foldl linenoiseAddCompletion [] (callback (c_string buf))"

definition refreshLineWithCompletion :: "hint_fun option \<Rightarrow> cstr list \<Rightarrow> bool \<Rightarrow> ln_state \<Rightarrow> (ln_state \<times> u8 list) option" where
  "refreshLineWithCompletion hs lc write ls =
     (if completion_idx ls < length lc then do {
        saved_buf \<leftarrow> get_bytes 0 (edit_len ls + 1) (edit_buf ls);
        b \<leftarrow> put_bytes 0 (strncpy_bytes (lc ! completion_idx ls) (buflen ls)) (edit_buf ls);
        b \<leftarrow> set_byte (buflen ls) 0 b;
        out \<leftarrow> refreshSingleLine hs write (ls\<lparr>edit_buf := b, edit_pos := length (c_string b), edit_len := length (c_string b)\<rparr>);
        b \<leftarrow> put_bytes 0 saved_buf b;
        Some (ls\<lparr>edit_buf := b\<rparr>, out) }
      else map_option (\<lambda>out. (ls, out)) (refreshSingleLine hs write ls))"

text \<open>The result is the key that is left to process, 0 for none.\<close>

definition completeLine :: "hint_fun option \<Rightarrow> (cstr \<Rightarrow> cstr list) \<Rightarrow> u8 \<Rightarrow> ln_editor \<Rightarrow> (u8 \<times> ln_editor) option" where
  "completeLine hs callback keypressed e =
     (let ls = ed_line e; lc = completions callback (edit_buf ls) in
      if lc = [] then Some (keypressed, ed_write [7] (e\<lparr>ed_line := ls\<lparr>in_completion := False\<rparr>\<rparr>))
      else do {
        (c, e) \<leftarrow>
          (if keypressed = 9 then
             (if \<not> in_completion ls then Some (0, e\<lparr>ed_line := ls\<lparr>in_completion := True, completion_idx := 0\<rparr>\<rparr>)
              else let idx = (completion_idx ls + 1) mod (length lc + 1) in
                Some (0, ed_write (if idx = length lc then [7] else []) (e\<lparr>ed_line := ls\<lparr>completion_idx := idx\<rparr>\<rparr>)))
           else if keypressed = 27 then do {
             e \<leftarrow> (if completion_idx ls < length lc then on_line (refreshLine hs) e else Some e);
             Some (0, e\<lparr>ed_line := (ed_line e)\<lparr>in_completion := False\<rparr>\<rparr>) }
           else if completion_idx ls < length lc then do {
             let s = lc ! completion_idx ls;
             b \<leftarrow> put_bytes 0 (take (buflen ls - 1) s @ [0]) (edit_buf ls);
             Some (keypressed, e\<lparr>ed_line := ls\<lparr>edit_buf := b, edit_pos := length s, edit_len := length s, in_completion := False\<rparr>\<rparr>) }
           else Some (keypressed, e\<lparr>ed_line := ls\<lparr>in_completion := False\<rparr>\<rparr>));
        e \<leftarrow> (if in_completion (ed_line e) \<and> completion_idx (ed_line e) < length lc
             then on_line (refreshLineWithCompletion hs lc True) e else on_line (refreshLine hs) e);
        Some (c, e) })"

subsection \<open>Keys\<close>

datatype errno = EAGAIN | ENOENT | errno_0

datatype feed_result = EditMore | EditLine | EditNull errno

text \<open>A blocking read of bytes that never come waits for ever.\<close>

datatype fed = Waiting | Fault | Fed feed_result ln_editor

definition fed_more :: "ln_editor option \<Rightarrow> fed" where
  "fed_more r = (case r of None \<Rightarrow> Fault | Some e \<Rightarrow> Fed EditMore e)"

text \<open>The bytes of a sequence after ESC: all of them must come.\<close>

definition read_csi :: "u8 list \<Rightarrow> u8 list option" where
  "read_csi inp = (let seq = csi_bytes inp in if csi_complete seq then Some seq else None)"

definition key_enter :: "hint_fun option \<Rightarrow> ln_editor \<Rightarrow> fed" where
  "key_enter hs e =
     (case history_drop (ed_history e) of None \<Rightarrow> Fault | Some h \<Rightarrow>
        let e = e\<lparr>ed_history := h\<rparr> in
        if hs = None then Fed EditLine e
        else (case on_line (refreshLine None) e of None \<Rightarrow> Fault | Some e \<Rightarrow> Fed EditLine e))"

definition key_ctrl_d :: "hint_fun option \<Rightarrow> ln_editor \<Rightarrow> fed" where
  "key_ctrl_d hs e =
     (if 0 < edit_len (ed_line e) then
        fed_more (if simple_mode (ed_line e) then Some e else on_line (linenoiseEditDelete hs) e)
      else case history_drop (ed_history e) of None \<Rightarrow> Fault | Some h \<Rightarrow> Fed (EditNull ENOENT) (e\<lparr>ed_history := h\<rparr>))"

definition key_escape :: "hint_fun option \<Rightarrow> ln_editor \<Rightarrow> fed" where
  "key_escape hs e =
     (case read_csi (ed_input e) of None \<Rightarrow> Waiting | Some seq \<Rightarrow>
        let e = e\<lparr>ed_input := drop (length seq) (ed_input e)\<rparr>; key = vt100_key_decode_csi seq in
        fed_more
          (if simple_mode (ed_line e) then Some e
           else if key = VT100_KEY_UP then on_history (linenoiseEditHistoryNext hs LINENOISE_HISTORY_PREV) e
           else if key = VT100_KEY_DOWN then on_history (linenoiseEditHistoryNext hs LINENOISE_HISTORY_NEXT) e
           else if key = VT100_KEY_RIGHT then on_line (linenoiseEditMoveRight hs) e
           else if key = VT100_KEY_LEFT then on_line (linenoiseEditMoveLeft hs) e
           else if key = VT100_KEY_HOME then on_line (linenoiseEditMoveHome hs) e
           else if key = VT100_KEY_END then on_line (linenoiseEditMoveEnd hs) e
           else if key = VT100_KEY_DELETE then on_line (linenoiseEditDelete hs) e
           else Some e))"

definition key_char :: "hint_fun option \<Rightarrow> u8 \<Rightarrow> ln_editor \<Rightarrow> fed" where
  "key_char hs c e =
     (let more = utf8ByteLen c - 1 in
      if length (ed_input e) < more then Waiting
      else fed_more (on_line (linenoiseEditInsert hs (c # take more (ed_input e))) (e\<lparr>ed_input := drop more (ed_input e)\<rparr>)))"

text \<open>The keys that do nothing in the simple mode.\<close>

definition editing_key :: "hint_fun option \<Rightarrow> u8 \<Rightarrow> ln_editor \<Rightarrow> ln_editor option" where
  "editing_key hs c =
     (if c = 20 then on_line (swap_chars hs)
      else if c = 6 then on_line (linenoiseEditMoveRight hs)
      else if c = 16 then on_history (linenoiseEditHistoryNext hs LINENOISE_HISTORY_PREV)
      else if c = 14 then on_history (linenoiseEditHistoryNext hs LINENOISE_HISTORY_NEXT)
      else if c = 21 then on_line (kill_line hs)
      else if c = 11 then on_line (kill_right hs)
      else if c = 1 then on_line (linenoiseEditMoveHome hs)
      else if c = 5 then on_line (linenoiseEditMoveEnd hs)
      else if c = 12 then on_line (clear_screen hs)
      else on_line (linenoiseEditDeletePrevWord hs))"

definition feed_key :: "hint_fun option \<Rightarrow> u8 \<Rightarrow> ln_editor \<Rightarrow> fed" where
  "feed_key hs c e =
     (if c = 13 then key_enter hs e
      else if c = 3 then Fed (EditNull EAGAIN) e
      else if c = 127 \<or> c = 8 then fed_more (on_line (if simple_mode (ed_line e) then simple_backspace else linenoiseEditBackspace hs) e)
      else if c = 4 then key_ctrl_d hs e
      else if c = 2 then Fed (EditNull errno_0) e
      else if c = 27 then key_escape hs e
      else if c = 9 then Fed EditMore e
      else if c \<in> {20, 6, 16, 14, 21, 11, 1, 5, 12, 23} then fed_more (if simple_mode (ed_line e) then Some e else editing_key hs c e)
      else key_char hs c e)"

definition linenoiseEditFeed :: "ln_callbacks \<Rightarrow> ln_editor \<Rightarrow> fed" where
  "linenoiseEditFeed cb e =
     (case ed_input e of [] \<Rightarrow> Fed EditMore e
      | c # inp \<Rightarrow>
        let e = e\<lparr>ed_input := inp\<rparr> in
        case cb_completion cb of
          Some callback \<Rightarrow>
            if (in_completion (ed_line e) \<or> c = 9) \<and> \<not> simple_mode (ed_line e) then
              (case completeLine (cb_hints cb) callback c e of None \<Rightarrow> Fault | Some (c, e) \<Rightarrow>
                 if c = 0 then Fed EditMore e else feed_key (cb_hints cb) c e)
            else feed_key (cb_hints cb) c e
        | None \<Rightarrow> feed_key (cb_hints cb) c e)"

subsection \<open>Sessions\<close>

datatype linenoiseResult = LN_CONTINUE | LN_ENTER | LN_CTRL_C | LN_CTRL_D | LN_REFRESH | LN_TAB_EMPTY

definition linenoiseSetCallbacks :: "nat \<Rightarrow> ln_state" where
  "linenoiseSetCallbacks columns =
     \<lparr>in_completion = False, completion_idx = 0, edit_buf = replicate (BP_LINENOISE_MAX_LINE + 1) 0, simple_mode = False, tab_empty = False,
      buflen = BP_LINENOISE_MAX_LINE, prompt = [], plen = 0, edit_pos = 0, oldpos = 0, edit_len = 0, cols = columns, oldrows = 0,
      oldrpos = 0, history_index = 0\<rparr>"

definition linenoiseSetSimpleMode :: "bool \<Rightarrow> ln_state \<Rightarrow> ln_state" where
  "linenoiseSetSimpleMode enable l = l\<lparr>simple_mode := enable\<rparr>"

definition linenoiseSetCols :: "nat \<Rightarrow> ln_state \<Rightarrow> ln_state" where
  "linenoiseSetCols n l = l\<lparr>cols := n\<rparr>"

definition linenoiseStartEdit :: "cstr \<Rightarrow> ln_editor \<Rightarrow> ln_editor option" where
  "linenoiseStartEdit text e = do {
     let l = ed_line e;
     b \<leftarrow> set_byte 0 0 (edit_buf l);
     (_, h) \<leftarrow> linenoiseHistoryAdd [] (ed_history e);
     Some (ed_write text (e\<lparr>ed_line := l\<lparr>prompt := text, plen := length text, edit_pos := 0, edit_len := 0, edit_buf := b,
       history_index := 0, in_completion := False, oldrows := 0, oldrpos := 1\<rparr>, ed_history := h\<rparr>)) }"

definition linenoiseEditStop :: "ln_editor \<Rightarrow> ln_editor option" where
  "linenoiseEditStop e =
     map_option (\<lambda>b. ed_write [10] (e\<lparr>ed_line := (ed_line e)\<lparr>edit_buf := b\<rparr>\<rparr>)) (set_byte (edit_len (ed_line e)) 0 (edit_buf (ed_line e)))"

definition linenoiseHide :: "hint_fun option \<Rightarrow> ln_editor \<Rightarrow> ln_editor option" where
  "linenoiseHide hs e = map_option (\<lambda>out. ed_write out e) (refreshSingleLine hs False (ed_line e))"

definition linenoiseShow :: "ln_callbacks \<Rightarrow> ln_editor \<Rightarrow> ln_editor option" where
  "linenoiseShow cb e =
     (case cb_completion cb of
        Some callback \<Rightarrow>
          if in_completion (ed_line e) then
            on_line (refreshLineWithCompletion (cb_hints cb) (completions callback (edit_buf (ed_line e))) True) e
          else map_option (\<lambda>out. ed_write out e) (refreshSingleLine (cb_hints cb) True (ed_line e))
      | None \<Rightarrow>
          if in_completion (ed_line e) then None
          else map_option (\<lambda>out. ed_write out e) (refreshSingleLine (cb_hints cb) True (ed_line e)))"

datatype fed_to = Waits | Faults | Gives linenoiseResult ln_editor

definition linenoiseEditFeedResult :: "ln_callbacks \<Rightarrow> ln_editor \<Rightarrow> fed_to" where
  "linenoiseEditFeedResult cb e =
     (case linenoiseEditFeed cb e of
        Waiting \<Rightarrow> Waits
      | Fault \<Rightarrow> Faults
      | Fed EditMore e \<Rightarrow> Gives LN_CONTINUE e
      | Fed EditLine e \<Rightarrow> Gives LN_ENTER e
      | Fed (EditNull EAGAIN) e \<Rightarrow> Gives LN_CTRL_C e
      | Fed (EditNull errno_0) e \<Rightarrow> Gives LN_REFRESH e
      | Fed (EditNull ENOENT) e \<Rightarrow> Gives LN_CTRL_D e)"

end
