(* ===== verification/Ln_Text.thy ===== *)
theory Ln_Text
  imports Ln_Edit
begin

text \<open>
  What the line editor promises. Its abstract state is a text buffer: the characters before the cursor and the characters
  after it. For text of characters that stand alone, every editing key does to the line what the operation does to the text
  buffer, and redraws it.
\<close>

subsection \<open>Moving bytes\<close>

lemma move_up:
  assumes "length (pre @ mid) + k \<le> length (pre @ mid @ rest)"
  shows "\<exists>gap r. move_bytes (length pre + k) (length pre) (length mid) (pre @ mid @ rest) = Some (pre @ gap @ mid @ r) \<and>
    length gap = k \<and> length r + k = length rest"
  using assms by (intro exI [of _ "take k (mid @ rest)"] exI [of _ "drop (k + length mid) (mid @ rest)"])
    (simp add: move_bytes_def get_bytes_def put_bytes_def add.assoc)

lemma move_down:
  "\<exists>r. move_bytes (length pre) (length pre + length gap) (length mid) (pre @ gap @ mid @ rest) = Some (pre @ mid @ r) \<and>
    length r = length gap + length rest"
  by (intro exI [of _ "drop (length mid) (gap @ mid @ rest)"]) (simp add: move_bytes_def get_bytes_def put_bytes_def)

lemma put_at: "length xs = length ys \<Longrightarrow> put_bytes (length pre) xs (pre @ ys @ post) = Some (pre @ xs @ post)"
  by (simp add: put_bytes_def)

lemma get_at: "get_bytes (length pre) (length xs) (pre @ xs @ post) = Some xs"
  by (simp add: get_bytes_def)

lemma set_zero: "n = length pre \<Longrightarrow> r \<noteq> [] \<Longrightarrow> set_byte n 0 (pre @ r) = Some (pre @ 0 # tl r)"
  by (cases r) (simp_all add: set_byte_def put_bytes_def)

subsection \<open>The text buffer\<close>

type_synonym text_buffer = "u8 list list \<times> u8 list list"

datatype edit_key =
    Typed "u8 list" | Move_left | Move_right | Move_home | Move_end | Delete_right | Delete_left | Delete_word
  | Swap_chars | Kill_line | Kill_right | Redraw

definition text_bytes :: "text_buffer \<Rightarrow> u8 list" where
  "text_bytes t = concat (fst t @ snd t)"

definition delete_word :: "u8 list list \<Rightarrow> u8 list list" where
  "delete_word bs = rev (dropWhile (\<lambda>c. c \<noteq> [ch_space]) (dropWhile (\<lambda>c. c = [ch_space]) (rev bs)))"

fun edit_text :: "edit_key \<Rightarrow> text_buffer \<Rightarrow> text_buffer" where
  "edit_text (Typed c) (bs, as) =
     (if length (text_bytes (bs, as)) + length c \<le> BP_LINENOISE_MAX_LINE then (bs @ [c], as) else (bs, as))"
| "edit_text Move_left (bs, as) = (if bs = [] then (bs, as) else (butlast bs, last bs # as))"
| "edit_text Move_right (bs, as) = (if as = [] then (bs, as) else (bs @ [hd as], tl as))"
| "edit_text Move_home (bs, as) = ([], bs @ as)"
| "edit_text Move_end (bs, as) = (bs @ as, [])"
| "edit_text Delete_right (bs, as) = (bs, tl as)"
| "edit_text Delete_left (bs, as) = (butlast bs, as)"
| "edit_text Delete_word (bs, as) = (delete_word bs, as)"
| "edit_text Swap_chars (bs, as) = (if bs = [] \<or> as = [] then (bs, as) else (butlast bs @ [hd as, last bs], tl as))"
| "edit_text Kill_line (bs, as) = ([], [])"
| "edit_text Kill_right (bs, as) = (bs, [])"
| "edit_text Redraw (bs, as) = (bs, as)"

subsection \<open>The line holds the text\<close>

text \<open>A line being edited, on a terminal wider than the prompt.\<close>

definition line_ready :: "hint_fun option \<Rightarrow> ln_state \<Rightarrow> bool" where
  "line_ready hs l \<longleftrightarrow> \<not> simple_mode l \<and> \<not> in_completion l \<and> buflen l = BP_LINENOISE_MAX_LINE \<and>
     length (edit_buf l) = BP_LINENOISE_MAX_LINE + 1 \<and> hints_plain hs \<and> plen l = length (prompt l) \<and> cols l \<le> 65536 \<and>
     (\<exists>pwidth. utf8StrWidth (prompt l @ [0]) 0 (plen l) = Some pwidth \<and> pwidth < cols l)"

definition line_text :: "hint_fun option \<Rightarrow> ln_state \<Rightarrow> text_buffer \<Rightarrow> bool" where
  "line_text hs l t \<longleftrightarrow> line_ready hs l \<and> shows_text l (fst t) (snd t)"

lemma char_width_le: "char_width c \<le> 2"
  by (simp add: utf8CharWidth_def)

lemma text_width_le: "\<forall>c \<in> set cs. plain_char c \<Longrightarrow> text_width cs \<le> 2 * length (concat cs)"
proof (induction cs)
  case (Cons c cs)
  then have "1 \<le> length c"
    using utf8_char_length by (auto simp: plain_char_def)
  then show ?case
    using Cons char_width_le [of c] by simp
qed simp

lemma refresh_text:
  assumes "line_text hs l t"
  shows "\<exists>out. refreshLine hs l = Some (l, out)"
proof -
  obtain pwidth where p: "utf8StrWidth (prompt l @ [0]) 0 (plen l) = Some pwidth" "pwidth < cols l" "cols l \<le> 65536"
    and l: "plen l = length (prompt l)" "hints_plain hs" "\<not> simple_mode l" "length (edit_buf l) = 257"
    and t: "shows_text l (fst t) (snd t)"
    using assms by (auto simp: line_text_def line_ready_def)
  have "text_width (fst t @ snd t) \<le> 2 * length (concat (fst t @ snd t))"
    using t by (intro text_width_le) (auto simp: shows_text_def)
  also have "\<dots> \<le> 514"
    using t l(4) by (auto simp: shows_text_def)
  finally have small: "pwidth + text_width (fst t @ snd t) < 2 ^ 31"
    using p by simp
  obtain h where "hint_is hs (c_string (edit_buf l)) h"
    using hints_plain_is [OF l(2)] by blast
  from drawing_plain [OF t this l(1) p(1,2) small] obtain out where "refreshSingleLine hs True l = Some out"
    by blast
  then show ?thesis
    using l(3) by (simp add: refreshLine_def)
qed

text \<open>A change of the buffer and the cursor, followed by a redraw.\<close>

definition edits_to :: "hint_fun option \<Rightarrow> ln_state \<Rightarrow> text_buffer \<Rightarrow> (ln_state \<times> u8 list) option \<Rightarrow> bool" where
  "edits_to hs l t r \<longleftrightarrow> (\<exists>l' out. r = Some (l', out) \<and> line_text hs l' t \<and> history_index l' = history_index l \<and> cols l' = cols l)"

lemma edits_refresh:
  assumes "line_text hs l' t" "history_index l' = history_index l" "cols l' = cols l"
  shows "edits_to hs l t (refreshLine hs l')"
  using refresh_text [OF assms(1)] assms by (auto simp: edits_to_def)

lemma edits_none: "line_text hs l t \<Longrightarrow> edits_to hs l t (Some (l, []))"
  by (simp add: edits_to_def)

text \<open>The state as its parts.\<close>

lemma line_textE:
  assumes "line_text hs l (bs, as)"
  obtains post where "edit_buf l = concat bs @ concat as @ 0 # post" "edit_pos l = length (concat bs)"
    "edit_len l = length (concat bs) + length (concat as)" "\<forall>c \<in> set bs. plain_char c" "\<forall>c \<in> set as. plain_char c" "line_ready hs l"
    "length (concat bs) + length (concat as) + length post = 256"
  using assms by (auto simp: line_text_def shows_text_def line_ready_def)

lemma line_textI:
  assumes "line_ready hs l" "\<not> simple_mode l'" "\<not> in_completion l'" "buflen l' = buflen l" "prompt l' = prompt l" "plen l' = plen l" "cols l' = cols l"
    and "edit_buf l' = concat bs @ concat as @ 0 # post" "length (edit_buf l') = 257"
    and "edit_pos l' = length (concat bs)" "edit_len l' = length (concat bs) + length (concat as)"
    and "\<forall>c \<in> set bs. plain_char c" "\<forall>c \<in> set as. plain_char c"
  shows "line_text hs l' (bs, as)"
  using assms by (auto simp: line_text_def line_ready_def shows_text_def)

lemma ready_modes: "line_ready hs l \<Longrightarrow> \<not> simple_mode l \<and> \<not> in_completion l"
  by (simp add: line_ready_def)

lemma plain_nonempty: "plain_char c \<Longrightarrow> c \<noteq> []"
  by (auto simp: plain_char_def utf8_char_def)

subsection \<open>The editing functions on the text\<close>

lemma edit_move_home:
  assumes "line_text hs l (bs, as)"
  shows "edits_to hs l (edit_text Move_home (bs, as)) (linenoiseEditMoveHome hs l)"
proof -
  obtain post where t: "edit_buf l = concat bs @ concat as @ 0 # post" "edit_pos l = length (concat bs)"
    "edit_len l = length (concat bs) + length (concat as)" "\<forall>c \<in> set bs. plain_char c" "\<forall>c \<in> set as. plain_char c" "line_ready hs l"
    "length (concat bs) + length (concat as) + length post = 256"
    by (rule line_textE [OF assms])
  show ?thesis
  proof (cases "bs = []")
    case True
    then show ?thesis
      using assms t by (auto simp: linenoiseEditMoveHome_def intro: edits_none)
  next
    case False
    have "0 < length (concat bs)"
      using False t(4) plain_nonempty by (cases bs) auto
    moreover have "line_text hs (l\<lparr>edit_pos := 0\<rparr>) ([], bs @ as)"
      using t ready_modes [OF t(6)] by (intro line_textI [OF t(6)]) auto
    ultimately show ?thesis
      using t(2) by (auto simp: linenoiseEditMoveHome_def intro!: edits_refresh)
  qed
qed

lemma concat_empty_plain: "\<forall>c \<in> set cs. plain_char c \<Longrightarrow> concat cs = [] \<longleftrightarrow> cs = []"
  using plain_nonempty by (cases cs) auto

lemma edit_move_end:
  assumes "line_text hs l (bs, as)"
  shows "edits_to hs l (edit_text Move_end (bs, as)) (linenoiseEditMoveEnd hs l)"
proof -
  obtain post where t: "edit_buf l = concat bs @ concat as @ 0 # post" "edit_pos l = length (concat bs)"
    "edit_len l = length (concat bs) + length (concat as)" "\<forall>c \<in> set bs. plain_char c" "\<forall>c \<in> set as. plain_char c" "line_ready hs l"
    "length (concat bs) + length (concat as) + length post = 256"
    by (rule line_textE [OF assms])
  show ?thesis
  proof (cases "as = []")
    case True
    then show ?thesis
      using assms t by (auto simp: linenoiseEditMoveEnd_def intro: edits_none)
  next
    case False
    have "line_text hs (l\<lparr>edit_pos := edit_len l\<rparr>) (bs @ as, [])"
      using t ready_modes [OF t(6)] by (intro line_textI [OF t(6)]) auto
    then show ?thesis
      using t False concat_empty_plain by (auto simp: linenoiseEditMoveEnd_def intro!: edits_refresh)
  qed
qed

lemma edit_move_left:
  assumes "line_text hs l (bs, as)"
  shows "edits_to hs l (edit_text Move_left (bs, as)) (linenoiseEditMoveLeft hs l)"
proof -
  obtain post where t: "edit_buf l = concat bs @ concat as @ 0 # post" "edit_pos l = length (concat bs)"
    "edit_len l = length (concat bs) + length (concat as)" "\<forall>c \<in> set bs. plain_char c" "\<forall>c \<in> set as. plain_char c" "line_ready hs l"
    "length (concat bs) + length (concat as) + length post = 256"
    by (rule line_textE [OF assms])
  show ?thesis
  proof (cases bs rule: rev_cases)
    case Nil
    then show ?thesis
      using assms t by (auto simp: linenoiseEditMoveLeft_def intro: edits_none)
  next
    case (snoc cs c)
    have n: "utf8PrevCharLen (edit_buf l) (edit_pos l) = Some (length c)"
      using prev_plain [of c cs "concat as @ 0 # post"] t(4) by (simp add: t(1,2) snoc)
    have "line_text hs (l\<lparr>edit_pos := edit_pos l - length c\<rparr>) (cs, c # as)"
      using t ready_modes [OF t(6)] by (intro line_textI [OF t(6)]) (auto simp: snoc)
    moreover have "0 < edit_pos l"
      using t(2,4) plain_nonempty by (auto simp: snoc)
    ultimately show ?thesis
      using n by (auto simp: linenoiseEditMoveLeft_def snoc intro!: edits_refresh)
  qed
qed

lemma edit_move_right:
  assumes "line_text hs l (bs, as)"
  shows "edits_to hs l (edit_text Move_right (bs, as)) (linenoiseEditMoveRight hs l)"
proof -
  obtain post where t: "edit_buf l = concat bs @ concat as @ 0 # post" "edit_pos l = length (concat bs)"
    "edit_len l = length (concat bs) + length (concat as)" "\<forall>c \<in> set bs. plain_char c" "\<forall>c \<in> set as. plain_char c" "line_ready hs l"
    "length (concat bs) + length (concat as) + length post = 256"
    by (rule line_textE [OF assms])
  show ?thesis
  proof (cases as)
    case Nil
    then show ?thesis
      using assms t by (auto simp: linenoiseEditMoveRight_def intro: edits_none)
  next
    case (Cons c cs)
    have n: "utf8NextCharLen (edit_buf l) (edit_pos l) (edit_len l) = Some (length c)"
      using next_plain [of c cs "concat bs" "0 # post"] t(5) by (simp add: t(1-3) Cons add.assoc)
    have "line_text hs (l\<lparr>edit_pos := edit_pos l + length c\<rparr>) (bs @ [c], cs)"
      using t ready_modes [OF t(6)] by (intro line_textI [OF t(6)]) (auto simp: Cons)
    moreover have "edit_pos l \<noteq> edit_len l"
      using t(2,3,5) plain_nonempty by (auto simp: Cons)
    ultimately show ?thesis
      using n by (auto simp: linenoiseEditMoveRight_def Cons intro!: edits_refresh)
  qed
qed

lemma edit_delete:
  assumes "line_text hs l (bs, as)"
  shows "edits_to hs l (edit_text Delete_right (bs, as)) (linenoiseEditDelete hs l)"
proof -
  obtain post where t: "edit_buf l = concat bs @ concat as @ 0 # post" "edit_pos l = length (concat bs)"
    "edit_len l = length (concat bs) + length (concat as)" "\<forall>c \<in> set bs. plain_char c" "\<forall>c \<in> set as. plain_char c" "line_ready hs l"
    "length (concat bs) + length (concat as) + length post = 256"
    by (rule line_textE [OF assms])
  show ?thesis
  proof (cases as)
    case Nil
    then show ?thesis
      using assms t by (auto simp: linenoiseEditDelete_def intro: edits_none)
  next
    case (Cons c cs)
    have n: "utf8NextCharLen (edit_buf l) (edit_pos l) (edit_len l) = Some (length c)"
      using next_plain [of c cs "concat bs" "0 # post"] t(5) by (simp add: t(1-3) Cons add.assoc)
    obtain r where m: "move_bytes (length (concat bs)) (length (concat bs) + length c) (length (concat cs)) (concat bs @ c @ concat cs @ 0 # post) =
        Some (concat bs @ concat cs @ r)" "length r = length c + length (0 # post)"
      using move_down [of "concat bs" c "concat cs" "0 # post"] by blast
    have z: "set_byte (length (concat bs @ concat cs)) 0 ((concat bs @ concat cs) @ r) = Some ((concat bs @ concat cs) @ 0 # tl r)"
      using m(2) by (intro set_zero) auto
    have "line_text hs (l\<lparr>edit_buf := (concat bs @ concat cs) @ 0 # tl r, edit_len := size_sub (edit_len l) (length c)\<rparr>) (bs, cs)"
      using t m(2) ready_modes [OF t(6)] by (intro line_textI [OF t(6)]) (auto simp: Cons)
    moreover have "0 < length c"
      using t(5) plain_nonempty by (auto simp: Cons)
    ultimately show ?thesis
      using n m(1) z t(1-3) by (simp add: linenoiseEditDelete_def Cons edits_refresh)
  qed
qed

lemma edit_backspace:
  assumes "line_text hs l (bs, as)"
  shows "edits_to hs l (edit_text Delete_left (bs, as)) (linenoiseEditBackspace hs l)"
proof -
  obtain post where t: "edit_buf l = concat bs @ concat as @ 0 # post" "edit_pos l = length (concat bs)"
    "edit_len l = length (concat bs) + length (concat as)" "\<forall>c \<in> set bs. plain_char c" "\<forall>c \<in> set as. plain_char c" "line_ready hs l"
    "length (concat bs) + length (concat as) + length post = 256"
    by (rule line_textE [OF assms])
  show ?thesis
  proof (cases bs rule: rev_cases)
    case Nil
    then show ?thesis
      using assms t by (auto simp: linenoiseEditBackspace_def intro: edits_none)
  next
    case (snoc cs c)
    have n: "utf8PrevCharLen (edit_buf l) (edit_pos l) = Some (length c)"
      using prev_plain [of c cs "concat as @ 0 # post"] t(4) by (simp add: t(1,2) snoc)
    obtain r where m: "move_bytes (length (concat cs)) (length (concat cs) + length c) (length (concat as)) (concat cs @ c @ concat as @ 0 # post) =
        Some (concat cs @ concat as @ r)" "length r = length c + length (0 # post)"
      using move_down [of "concat cs" c "concat as" "0 # post"] by blast
    have z: "set_byte (length (concat cs @ concat as)) 0 ((concat cs @ concat as) @ r) = Some ((concat cs @ concat as) @ 0 # tl r)"
      using m(2) by (intro set_zero) auto
    have "line_text hs (l\<lparr>edit_buf := (concat cs @ concat as) @ 0 # tl r, edit_pos := edit_pos l - length c,
        edit_len := size_sub (edit_len l) (length c)\<rparr>) (cs, as)"
      using t m(2) ready_modes [OF t(6)] by (intro line_textI [OF t(6)]) (auto simp: snoc)
    moreover have "0 < length c"
      using t(4) plain_nonempty by (auto simp: snoc)
    ultimately show ?thesis
      using n m(1) z t(1-3) by (simp add: linenoiseEditBackspace_def snoc edits_refresh)
  qed
qed

lemma edit_typed:
  assumes "line_text hs l (bs, as)" "plain_char c"
  shows "edits_to hs l (edit_text (Typed c) (bs, as)) (linenoiseEditInsert hs c l)"
proof -
  obtain post where t: "edit_buf l = concat bs @ concat as @ 0 # post" "edit_pos l = length (concat bs)"
    "edit_len l = length (concat bs) + length (concat as)" "\<forall>c \<in> set bs. plain_char c" "\<forall>c \<in> set as. plain_char c" "line_ready hs l"
    "length (concat bs) + length (concat as) + length post = 256"
    by (rule line_textE [OF assms(1)])
  have ready: "\<not> simple_mode l" "buflen l = 256"
    using t(6) by (simp_all add: line_ready_def)
  obtain pwidth where p: "utf8StrWidth (prompt l @ [0]) 0 (plen l) = Some pwidth" "pwidth < cols l"
    using t(6) by (auto simp: line_ready_def)
  show ?thesis
  proof (cases "edit_len l + length c \<le> 256")
    case False
    then show ?thesis
      using assms(1) ready t(3) by (simp add: linenoiseEditInsert_def text_bytes_def edits_none)
  next
    case True
    obtain gap r where m: "move_bytes (length (concat bs) + length c) (length (concat bs)) (length (concat as)) (concat bs @ concat as @ 0 # post) =
        Some (concat bs @ gap @ concat as @ r)" "length gap = length c" "length r + length c = length (0 # post)"
      using move_up [of "concat bs" "concat as" "length c" "0 # post"] True t(3,7) by auto
    have "r \<noteq> []"
      using m(3) True t(3,7) by auto
    define b where "b = (concat bs @ c @ concat as) @ 0 # tl r"
    have put: "put_bytes (length (concat bs)) c (concat bs @ gap @ concat as @ r) = Some ((concat bs @ c @ concat as) @ r)"
      using put_at [of c gap "concat bs" "concat as @ r"] m(2) by simp
    have zero: "set_byte (edit_len l + length c) 0 ((concat bs @ c @ concat as) @ r) = Some b"
      unfolding b_def using \<open>r \<noteq> []\<close> t(3) by (intro set_zero) auto
    define l' where "l' = l\<lparr>edit_buf := b, edit_pos := edit_pos l + length c, edit_len := edit_len l + length c\<rparr>"
    have new: "line_text hs l' (bs @ [c], as)"
      using t m \<open>r \<noteq> []\<close> assms(2) ready_modes [OF t(6)] unfolding l'_def b_def
      by (intro line_textI [OF t(6)]) (auto simp: Suc_diff_Suc)
    have same: "history_index l' = history_index l" "cols l' = cols l"
      by (simp_all add: l'_def)
    show ?thesis
    proof (cases "as = []")
      case True
      have m': "concat bs @ gap @ concat as @ r = concat bs @ concat as @ 0 # post"
        using m(1,3) True by (auto simp: move_bytes_def get_bytes_def put_bytes_def split: if_splits)
      have put': "put_bytes (length (concat bs)) c (edit_buf l) = Some ((concat bs @ c @ concat as) @ r)"
        using put m' t(1) by simp
      have widths: "utf8StrWidth (edit_buf l') 0 (edit_len l') = Some (text_width (bs @ [c]))"
        using width_plain [of "bs @ [c]" "[]" "0 # tl r"] t(3,4) assms(2) True by (simp add: l'_def b_def)
      have "linenoiseEditInsert hs c l =
          (if pwidth + text_width (bs @ [c]) < cols l' \<and> hs = None then Some (l', c) else refreshLine hs l')"
        using \<open>edit_len l + length c \<le> 256\<close> ready True t(2,3) put' zero p(1) widths
        by (simp add: linenoiseEditInsert_def Let_def l'_def)
      then have "edits_to hs l (bs @ [c], as) (linenoiseEditInsert hs c l)"
        using edits_refresh [OF new same] new same by (auto simp: edits_to_def)
      then show ?thesis
        using \<open>edit_len l + length c \<le> 256\<close> t(3) by (simp add: text_bytes_def)
    next
      case False
      then have "edit_len l \<noteq> edit_pos l"
        using t concat_empty_plain by auto
      then have "linenoiseEditInsert hs c l = refreshLine hs (l\<lparr>edit_buf := b, edit_len := edit_len l + length c, edit_pos := edit_pos l + length c\<rparr>)"
        using \<open>edit_len l + length c \<le> 256\<close> ready t(1-3) m(1) put zero by (auto simp: linenoiseEditInsert_def)
      moreover have "l\<lparr>edit_buf := b, edit_len := edit_len l + length c, edit_pos := edit_pos l + length c\<rparr> = l'"
        unfolding l'_def by (cases l) simp
      ultimately show ?thesis
        using edits_refresh [OF new same] \<open>edit_len l + length c \<le> 256\<close> t(3) by (simp add: text_bytes_def)
    qed
  qed
qed

lemma edit_kill_line:
  assumes "line_text hs l (bs, as)"
  shows "edits_to hs l (edit_text Kill_line (bs, as)) (kill_line hs l)"
proof -
  obtain post where t: "edit_buf l = concat bs @ concat as @ 0 # post" "line_ready hs l"
    "length (concat bs) + length (concat as) + length post = 256"
    by (rule line_textE [OF assms])
  have "set_byte 0 0 ([] @ edit_buf l) = Some ([] @ 0 # tl (edit_buf l))"
    using t by (intro set_zero) auto
  moreover have "line_text hs (l\<lparr>edit_buf := 0 # tl (edit_buf l), edit_pos := 0, edit_len := 0\<rparr>) ([], [])"
    using t ready_modes [OF t(2)] by (intro line_textI [OF t(2)]) auto
  ultimately show ?thesis
    by (simp add: kill_line_def edits_refresh)
qed

lemma edit_kill_right:
  assumes "line_text hs l (bs, as)"
  shows "edits_to hs l (edit_text Kill_right (bs, as)) (kill_right hs l)"
proof -
  obtain post where t: "edit_buf l = concat bs @ concat as @ 0 # post" "edit_pos l = length (concat bs)"
    "edit_len l = length (concat bs) + length (concat as)" "\<forall>c \<in> set bs. plain_char c" "\<forall>c \<in> set as. plain_char c" "line_ready hs l"
    "length (concat bs) + length (concat as) + length post = 256"
    by (rule line_textE [OF assms])
  have "set_byte (edit_pos l) 0 (concat bs @ concat as @ 0 # post) = Some (concat bs @ 0 # tl (concat as @ 0 # post))"
    using t(2) by (intro set_zero) auto
  moreover have "line_text hs (l\<lparr>edit_buf := concat bs @ 0 # tl (concat as @ 0 # post), edit_len := edit_pos l\<rparr>) (bs, [])"
    using t ready_modes [OF t(6)] by (intro line_textI [OF t(6)]) auto
  ultimately show ?thesis
    using t(1) by (simp add: kill_right_def edits_refresh)
qed

lemma edit_swap:
  assumes "line_text hs l (bs, as)"
  shows "edits_to hs l (edit_text Swap_chars (bs, as)) (swap_chars hs l)"
proof -
  obtain post where t: "edit_buf l = concat bs @ concat as @ 0 # post" "edit_pos l = length (concat bs)"
    "edit_len l = length (concat bs) + length (concat as)" "\<forall>c \<in> set bs. plain_char c" "\<forall>c \<in> set as. plain_char c" "line_ready hs l"
    "length (concat bs) + length (concat as) + length post = 256"
    by (rule line_textE [OF assms])
  show ?thesis
  proof (cases "bs = [] \<or> as = []")
    case True
    then show ?thesis
      using assms t by (auto simp: swap_chars_def intro: edits_none)
  next
    case False
    then obtain ls p c rs where cs: "bs = ls @ [p]" "as = c # rs"
      by (metis append_butlast_last_id list.exhaust)
    have pc: "plain_char p" "plain_char c" "0 < length p" "0 < length c"
      using t(4,5) plain_nonempty by (auto simp: cs)
    have n1: "utf8PrevCharLen (edit_buf l) (edit_pos l) = Some (length p)"
      using prev_plain [of p ls "concat as @ 0 # post"] t(4) by (simp add: t(1,2) cs)
    have n2: "utf8NextCharLen (edit_buf l) (edit_pos l) (edit_len l) = Some (length c)"
      using next_plain [of c rs "concat bs" "0 # post"] t(5) by (simp add: t(1-3) cs add.assoc)
    have small: "length c \<le> 4"
      using pc(2) utf8_char_length by (auto simp: plain_char_def)
    have tmp: "get_bytes (length (concat ls) + length p) (length c) (concat ls @ p @ c @ concat rs @ 0 # post) = Some c"
      using get_at [of "concat ls @ p" c "concat rs @ 0 # post"] by simp
    obtain gap where gap: "move_bytes (length (concat ls) + length c) (length (concat ls)) (length p) (concat ls @ p @ c @ concat rs @ 0 # post) =
        Some (concat ls @ gap @ p @ concat rs @ 0 # post)" "length gap = length c"
      by (rule that [of "take (length c) (p @ c)"]) (simp_all add: move_bytes_def get_bytes_def put_bytes_def)
    have put: "put_bytes (length (concat ls)) c (concat ls @ gap @ p @ concat rs @ 0 # post) = Some (concat ls @ c @ p @ concat rs @ 0 # post)"
      using gap(2) by (intro put_at) simp
    have "line_text hs (l\<lparr>edit_buf := concat ls @ c @ p @ concat rs @ 0 # post, edit_pos := edit_pos l + length c\<rparr>) (ls @ [c, p], rs)"
      using t ready_modes [OF t(6)] pc(1,2) by (intro line_textI [OF t(6)]) (auto simp: cs)
    moreover have "0 < edit_pos l" "edit_pos l < edit_len l" "edit_pos l + length c \<le> edit_len l"
      using t(2,3) pc(3,4) by (simp_all add: cs)
    ultimately show ?thesis
      using n1 n2 tmp gap(1) put small t(1,2) by (simp add: swap_chars_def Let_def cs edits_refresh)
  qed
qed

lemma last_space: "utf8_char c \<Longrightarrow> last c = ch_space \<longleftrightarrow> c = [ch_space]"
proof (cases c)
  case (Cons b bs)
  assume "utf8_char c"
  then have "last c AND 0xC0 = 0x80" if "bs \<noteq> []"
    using that by (auto simp: utf8_char_def Cons)
  then show ?thesis
    by (cases "bs = []") (auto simp: Cons)
qed (simp add: utf8_char_def)

lemma back_over_plain:
  "\<forall>c \<in> set bs. plain_char c \<Longrightarrow> back_over sp (concat bs @ rest) (length (concat bs)) =
    Some (length (concat (rev (dropWhile (\<lambda>c. (c = [ch_space]) = sp) (rev bs)))))"
proof (induction bs arbitrary: rest rule: rev_induct)
  case Nil
  then show ?case
    by (subst back_over.simps) simp
next
  case (snoc c cs)
  have c: "plain_char c" "utf8_char c" "c \<noteq> []" and cs: "\<forall>d \<in> set cs. plain_char d"
    using snoc.prems by (auto simp: plain_char_def utf8_char_def)
  have last: "byte_at (concat cs @ c @ rest) (length (concat cs) + length c - 1) = Some (last c)"
    using c(3) by (cases c rule: rev_cases) (simp_all add: byte_at_def nth_append)
  have prev: "utf8PrevCharLen (concat cs @ c @ rest) (length (concat cs) + length c) = Some (length c)"
    by (rule prev_plain [OF c(1) cs])
  show ?case
  proof (cases "(c = [ch_space]) = sp")
    case True
    then show ?thesis
      using snoc.IH [OF cs, of "c @ rest"] last prev c(3) last_space [OF c(2)]
      by (subst back_over.simps) simp
  next
    case False
    then show ?thesis
      using last c(3) last_space [OF c(2)] by (subst back_over.simps) simp
  qed
qed

lemma dropWhile_prefix: "\<exists>gone. bs = rev (dropWhile P (rev bs)) @ gone"
  by (metis rev_append rev_rev_ident takeWhile_dropWhile_id)

lemma edit_delete_word:
  assumes "line_text hs l (bs, as)"
  shows "edits_to hs l (edit_text Delete_word (bs, as)) (linenoiseEditDeletePrevWord hs l)"
proof -
  obtain post where t: "edit_buf l = concat bs @ concat as @ 0 # post" "edit_pos l = length (concat bs)"
    "edit_len l = length (concat bs) + length (concat as)" "\<forall>c \<in> set bs. plain_char c" "\<forall>c \<in> set as. plain_char c" "line_ready hs l"
    "length (concat bs) + length (concat as) + length post = 256"
    by (rule line_textE [OF assms])
  define cs where "cs = rev (dropWhile (\<lambda>c. c = [ch_space]) (rev bs))"
  obtain g1 where g1: "bs = cs @ g1"
    unfolding cs_def using dropWhile_prefix by blast
  obtain g2 where g2: "cs = delete_word bs @ g2"
    unfolding cs_def delete_word_def using dropWhile_prefix [of cs "\<lambda>c. c \<noteq> [ch_space]", unfolded cs_def] by auto
  have plain: "\<forall>c \<in> set cs. plain_char c" "\<forall>c \<in> set (delete_word bs). plain_char c"
    using t(4) arg_cong [OF g1, of set] arg_cong [OF g2, of set] by auto
  have b1: "back_over True (edit_buf l) (edit_pos l) = Some (length (concat cs))"
    using back_over_plain [OF t(4), of True "concat as @ 0 # post"] by (simp add: t(1,2) cs_def)
  have b2: "back_over False (edit_buf l) (length (concat cs)) = Some (length (concat (delete_word bs)))"
    using back_over_plain [OF plain(1), of False "concat g1 @ concat as @ 0 # post"] arg_cong [OF g1, of concat]
    by (simp add: t(1) delete_word_def cs_def)
  have whole: "concat bs = concat (delete_word bs) @ concat (g2 @ g1)"
    using arg_cong [OF g1, of concat] arg_cong [OF g2, of concat] by simp
  obtain r where m: "move_bytes (length (concat (delete_word bs))) (length (concat bs)) (length (concat as @ [0])) (edit_buf l) =
      Some (concat (delete_word bs) @ (concat as @ [0]) @ r)" "length r = length (concat (g2 @ g1)) + length post"
    using move_down [of "concat (delete_word bs)" "concat (g2 @ g1)" "concat as @ [0]" post] t(1) whole by auto
  have "line_text hs (l\<lparr>edit_buf := concat (delete_word bs) @ concat as @ 0 # r, edit_pos := length (concat (delete_word bs)),
      edit_len := size_sub (edit_len l) (edit_pos l - length (concat (delete_word bs)))\<rparr>) (delete_word bs, as)"
    using t(2,3,5,7) plain(2) m(2) arg_cong [OF whole, of length] ready_modes [OF t(6)] by (intro line_textI [OF t(6)]) auto
  then show ?thesis
    using b1 b2 m(1) t(2,3) by (simp add: linenoiseEditDeletePrevWord_def Let_def edits_refresh)
qed

text \<open>Every operation of the text buffer, by the function that implements it.\<close>

lemmas edit_operations = edit_typed edit_move_left edit_move_right edit_move_home edit_move_end edit_delete edit_backspace
  edit_delete_word edit_swap edit_kill_line edit_kill_right

end
