(* ===== verification/Ln_Keys.thy ===== *)
theory Ln_Keys
  imports Ln_Text
begin

text \<open>
  The keys of the line editor: every key that edits the line is an operation of the text buffer, and a line of keys typed
  up to Enter is the text that these operations build. Up and down bring lines of the history back, and for the
  prompts the simple mode keeps its line inside of its buffer whatever comes in.
\<close>

subsection \<open>Keys\<close>

text \<open>The bytes a terminal sends for an editing key.\<close>

definition control_keys :: "u8 set" where
  "control_keys = {13, 3, 127, 8, 4, 2, 27, 9, 20, 6, 16, 14, 21, 11, 1, 5, 12, 23}"

fun key_input :: "edit_key \<Rightarrow> u8 list \<Rightarrow> bool" where
  "key_input (Typed c) inp \<longleftrightarrow> inp = c \<and> plain_char c \<and> hd c \<notin> control_keys"
| "key_input Move_left inp \<longleftrightarrow> (\<exists>seq. inp = ch_esc # seq \<and> (seq, VT100_KEY_LEFT) \<in> set key_sequences)"
| "key_input Move_right inp \<longleftrightarrow> inp = [6] \<or> (\<exists>seq. inp = ch_esc # seq \<and> (seq, VT100_KEY_RIGHT) \<in> set key_sequences)"
| "key_input Move_home inp \<longleftrightarrow> inp = [1] \<or> (\<exists>seq. inp = ch_esc # seq \<and> (seq, VT100_KEY_HOME) \<in> set key_sequences)"
| "key_input Move_end inp \<longleftrightarrow> inp = [5] \<or> (\<exists>seq. inp = ch_esc # seq \<and> (seq, VT100_KEY_END) \<in> set key_sequences)"
| "key_input Delete_right inp \<longleftrightarrow> (\<exists>seq. inp = ch_esc # seq \<and> (seq, VT100_KEY_DELETE) \<in> set key_sequences)"
| "key_input Delete_left inp \<longleftrightarrow> inp = [127] \<or> inp = [8]"
| "key_input Delete_word inp \<longleftrightarrow> inp = [23]"
| "key_input Swap_chars inp \<longleftrightarrow> inp = [20]"
| "key_input Kill_line inp \<longleftrightarrow> inp = [21]"
| "key_input Kill_right inp \<longleftrightarrow> inp = [11]"
| "key_input Redraw inp \<longleftrightarrow> inp = [12]"

text \<open>The editor between two keys.\<close>

definition editing :: "ln_callbacks \<Rightarrow> ln_editor \<Rightarrow> text_buffer \<Rightarrow> u8 list \<Rightarrow> bool" where
  "editing cb e t inp \<longleftrightarrow> line_text (cb_hints cb) (ed_line e) t \<and> ed_input e = inp"

lemma on_line_edits:
  assumes "edits_to hs (ed_line e) t (f (ed_line e))"
  shows "\<exists>e'. on_line f e = Some e' \<and> line_text hs (ed_line e') t \<and> history_index (ed_line e') = history_index (ed_line e) \<and>
    cols (ed_line e') = cols (ed_line e) \<and> ed_input e' = ed_input e \<and> ed_history e' = ed_history e"
  using assms by (auto simp: edits_to_def on_line_def ed_write_def)

lemma sequence_read:
  assumes "(seq, key) \<in> set key_sequences"
  shows "read_csi (seq @ rest) = Some seq" "vt100_key_decode_csi seq = key"
  using key_sequences_decode assms csi_bytes_complete by (auto simp: read_csi_def Let_def)

lemma feed_plain:
  assumes "ed_input e = c # inp" "\<not> in_completion (ed_line e)" "c \<noteq> 9"
  shows "linenoiseEditFeed cb e = feed_key (cb_hints cb) c (e\<lparr>ed_input := inp\<rparr>)"
  using assms by (simp add: linenoiseEditFeed_def Let_def split: option.splits)

lemma edit_redraw:
  assumes "line_text hs l (bs, as)"
  shows "edits_to hs l (edit_text Redraw (bs, as)) (clear_screen hs l)"
  using refresh_text [OF assms] assms by (auto simp: clear_screen_def edits_to_def)

lemma key_sequence_fed:
  assumes "(seq, key) \<in> set key_sequences" "ed_input e = ch_esc # seq @ rest" "\<not> in_completion (ed_line e)" "\<not> simple_mode (ed_line e)"
    and "(key = VT100_KEY_RIGHT \<and> f = linenoiseEditMoveRight hs) \<or> (key = VT100_KEY_LEFT \<and> f = linenoiseEditMoveLeft hs) \<or>
      (key = VT100_KEY_HOME \<and> f = linenoiseEditMoveHome hs) \<or> (key = VT100_KEY_END \<and> f = linenoiseEditMoveEnd hs) \<or>
      (key = VT100_KEY_DELETE \<and> f = linenoiseEditDelete hs)"
    and "hs = cb_hints cb"
  shows "linenoiseEditFeed cb e = fed_more (on_line f (e\<lparr>ed_input := rest\<rparr>))"
proof -
  have "linenoiseEditFeed cb e = key_escape hs (e\<lparr>ed_input := seq @ rest\<rparr>)"
    using feed_plain [OF assms(2,3), of cb] unfolding assms(6) by (simp add: feed_key_def)
  also have "\<dots> = fed_more (on_line f (e\<lparr>ed_input := rest\<rparr>))"
    using assms(5) by (elim disjE conjE) (simp_all add: key_escape_def Let_def sequence_read [OF assms(1)] assms(4) vt100_keys)
  finally show ?thesis .
qed

lemma control_key_fed:
  assumes "ed_input e = c # rest" "\<not> in_completion (ed_line e)" "\<not> simple_mode (ed_line e)" "hs = cb_hints cb"
    and "(c, f) \<in> {(6, linenoiseEditMoveRight hs), (1, linenoiseEditMoveHome hs), (5, linenoiseEditMoveEnd hs), (127, linenoiseEditBackspace hs),
      (8, linenoiseEditBackspace hs), (23, linenoiseEditDeletePrevWord hs), (20, swap_chars hs), (21, kill_line hs), (11, kill_right hs),
      (12, clear_screen hs)}"
  shows "linenoiseEditFeed cb e = fed_more (on_line f (e\<lparr>ed_input := rest\<rparr>))"
  using assms(1-4) assms(5) by (subst feed_plain [OF assms(1,2)]) (auto simp: feed_key_def editing_key_def)

lemma typed_fed:
  assumes "ed_input e = c @ rest" "\<not> in_completion (ed_line e)" "plain_char c" "hd c \<notin> control_keys"
  shows "linenoiseEditFeed cb e = fed_more (on_line (linenoiseEditInsert (cb_hints cb) c) (e\<lparr>ed_input := rest\<rparr>))"
proof -
  obtain b bs where c: "c = b # bs"
    using assms(3) plain_nonempty by (cases c) auto
  have "utf8ByteLen b = length c"
    using assms(3) by (simp add: plain_char_def utf8_char_def c)
  moreover have "linenoiseEditFeed cb e = feed_key (cb_hints cb) b (e\<lparr>ed_input := bs @ rest\<rparr>)"
    using assms(1,2,4) by (intro feed_plain) (auto simp: c control_keys_def)
  ultimately show ?thesis
    using assms(4) by (simp add: feed_key_def key_char_def Let_def c control_keys_def)
qed

text \<open>One key: the function that implements its operation is called on the line.\<close>

lemma key_fed:
  assumes "key_input k inp" "ed_input e = inp @ rest" "line_text (cb_hints cb) (ed_line e) (bs, as)"
  shows "\<exists>f. linenoiseEditFeed cb e = fed_more (on_line f (e\<lparr>ed_input := rest\<rparr>)) \<and>
    edits_to (cb_hints cb) (ed_line e) (edit_text k (bs, as)) (f (ed_line e))"
proof -
  have m: "\<not> in_completion (ed_line e)" "\<not> simple_mode (ed_line e)"
    using assms(3) ready_modes by (auto simp: line_text_def)
  show ?thesis
  proof (cases k)
    case (Typed c)
    then show ?thesis
      using typed_fed [of e c rest cb] edit_typed [OF assms(3), of c] assms(1,2) m by auto
  next
    case Move_left
    then show ?thesis
      using key_sequence_fed [of _ VT100_KEY_LEFT e rest "linenoiseEditMoveLeft (cb_hints cb)"] edit_move_left [OF assms(3)] assms(1,2) m by auto
  next
    case Move_right
    then show ?thesis
      using key_sequence_fed [of _ VT100_KEY_RIGHT e rest "linenoiseEditMoveRight (cb_hints cb)"] edit_move_right [OF assms(3)]
        control_key_fed [of e 6 rest "cb_hints cb"] assms(1,2) m by (cases "inp = [6]") auto
  next
    case Move_home
    then show ?thesis
      using key_sequence_fed [of _ VT100_KEY_HOME e rest "linenoiseEditMoveHome (cb_hints cb)"] edit_move_home [OF assms(3)]
        control_key_fed [of e 1 rest "cb_hints cb"] assms(1,2) m by (cases "inp = [1]") auto
  next
    case Move_end
    then show ?thesis
      using key_sequence_fed [of _ VT100_KEY_END e rest "linenoiseEditMoveEnd (cb_hints cb)"] edit_move_end [OF assms(3)]
        control_key_fed [of e 5 rest "cb_hints cb"] assms(1,2) m by (cases "inp = [5]") auto
  next
    case Delete_right
    then show ?thesis
      using key_sequence_fed [of _ VT100_KEY_DELETE e rest "linenoiseEditDelete (cb_hints cb)"] edit_delete [OF assms(3)] assms(1,2) m by auto
  next
    case Delete_left
    then show ?thesis
      using edit_backspace [OF assms(3)] control_key_fed [of e 127 rest "cb_hints cb"] control_key_fed [of e 8 rest "cb_hints cb"] assms(1,2) m
      by (cases "inp = [8]") auto
  next
    case Delete_word
    then show ?thesis
      using edit_delete_word [OF assms(3)] control_key_fed [of e 23 rest "cb_hints cb"] assms(1,2) m by auto
  next
    case Swap_chars
    then show ?thesis
      using edit_swap [OF assms(3)] control_key_fed [of e 20 rest "cb_hints cb"] assms(1,2) m by auto
  next
    case Kill_line
    then show ?thesis
      using edit_kill_line [OF assms(3)] control_key_fed [of e 21 rest "cb_hints cb"] assms(1,2) m by auto
  next
    case Kill_right
    then show ?thesis
      using edit_kill_right [OF assms(3)] control_key_fed [of e 11 rest "cb_hints cb"] assms(1,2) m by auto
  next
    case Redraw
    then show ?thesis
      using edit_redraw [OF assms(3)] control_key_fed [of e 12 rest "cb_hints cb"] assms(1,2) m by auto
  qed
qed

lemma key_step:
  assumes "editing cb e t (inp @ rest)" "key_input k inp"
  shows "\<exists>e'. linenoiseEditFeedResult cb e = Gives LN_CONTINUE e' \<and> editing cb e' (edit_text k t) rest \<and> ed_history e' = ed_history e \<and>
    history_index (ed_line e') = history_index (ed_line e) \<and> cols (ed_line e') = cols (ed_line e)"
proof -
  obtain bs as where t: "t = (bs, as)"
    by (cases t)
  have l: "line_text (cb_hints cb) (ed_line e) (bs, as)" "ed_input e = inp @ rest"
    using assms(1) by (simp_all add: editing_def t)
  obtain f where f: "linenoiseEditFeed cb e = fed_more (on_line f (e\<lparr>ed_input := rest\<rparr>))"
    "edits_to (cb_hints cb) (ed_line e) (edit_text k (bs, as)) (f (ed_line e))"
    using key_fed [OF assms(2) l(2,1)] by blast
  have "edits_to (cb_hints cb) (ed_line (e\<lparr>ed_input := rest\<rparr>)) (edit_text k (bs, as)) (f (ed_line (e\<lparr>ed_input := rest\<rparr>)))"
    using f(2) by simp
  from on_line_edits [of "cb_hints cb" "e\<lparr>ed_input := rest\<rparr>" "edit_text k (bs, as)" f, OF this] show ?thesis
    using f(1) by (auto simp: linenoiseEditFeedResult_def fed_more_def editing_def t)
qed

subsection \<open>A line typed\<close>

text \<open>Calls of the editor one after another, as its callers make them: until one returns something else than \<open>LN_CONTINUE\<close>.\<close>

fun feed_calls :: "nat \<Rightarrow> ln_callbacks \<Rightarrow> ln_editor \<Rightarrow> fed_to" where
  "feed_calls 0 cb e = Gives LN_CONTINUE e"
| "feed_calls (Suc n) cb e =
     (case linenoiseEditFeedResult cb e of
        Gives r e' \<Rightarrow> if r = LN_CONTINUE then feed_calls n cb e' else Gives r e'
      | Waits \<Rightarrow> Waits
      | Faults \<Rightarrow> Faults)"

lemma feed_calls_add: "feed_calls m cb e = Gives LN_CONTINUE e' \<Longrightarrow> feed_calls (m + n) cb e = feed_calls n cb e'"
  by (induction m arbitrary: e) (auto split: fed_to.splits if_splits)

lemma keys_typed:
  assumes "list_all2 key_input ks inps" "editing cb e t (concat inps @ rest)"
  shows "\<exists>e'. feed_calls (length ks) cb e = Gives LN_CONTINUE e' \<and> editing cb e' (fold edit_text ks t) rest \<and> ed_history e' = ed_history e"
  using assms
proof (induction ks inps arbitrary: e t rule: list_all2_induct)
  case (Cons k ks inp inps)
  obtain e1 where e1: "linenoiseEditFeedResult cb e = Gives LN_CONTINUE e1" "editing cb e1 (edit_text k t) (concat inps @ rest)"
    "ed_history e1 = ed_history e"
    using key_step [OF _ Cons.hyps(1), of cb e t "concat inps @ rest"] Cons.prems by auto
  show ?case
    using Cons.IH [OF e1(2)] e1(1,3) by auto
qed simp

lemma line_text_no_hints: "line_text hs l t \<Longrightarrow> line_text None l t"
  by (auto simp: line_text_def line_ready_def hints_plain_def)

text \<open>Enter: the line is drawn once more without the hint, if there are hints.\<close>

lemma enter_fed:
  assumes "editing cb e t (13 # rest)" "history_drop (ed_history e) = Some h"
  shows "\<exists>e'. linenoiseEditFeedResult cb e = Gives LN_ENTER e' \<and> line_text None (ed_line e') t \<and> ed_history e' = h \<and> ed_input e' = rest \<and>
    cols (ed_line e') = cols (ed_line e)"
proof -
  have l: "line_text (cb_hints cb) (ed_line e) t" "ed_input e = 13 # rest"
    using assms(1) by (simp_all add: editing_def)
  have fed: "linenoiseEditFeed cb e = key_enter (cb_hints cb) (e\<lparr>ed_input := rest\<rparr>)"
    using feed_plain [OF l(2), of cb] l(1) by (simp add: line_text_def line_ready_def feed_key_def)
  obtain out where "refreshLine None (ed_line e) = Some (ed_line e, out)"
    using refresh_text [OF line_text_no_hints [OF l(1)]] by blast
  then show ?thesis
    using line_text_no_hints [OF l(1)] assms(2)
    by (simp add: linenoiseEditFeedResult_def fed key_enter_def Let_def on_line_def ed_write_def)
qed

lemma plain_no_zero: "plain_char c \<Longrightarrow> 0 \<notin> set c"
  by (cases c) (auto simp: plain_char_def utf8_char_def)

lemma text_in_buffer:
  assumes "line_text hs l t"
  shows "c_string (edit_buf l) = text_bytes t" "edit_len l = length (text_bytes t)" "line_ok (text_bytes t)"
proof -
  obtain bs as where t: "t = (bs, as)"
    by (cases t)
  have l: "line_text hs l (bs, as)"
    using assms by (simp only: t)
  obtain post where b: "edit_buf l = concat bs @ concat as @ 0 # post"
    "edit_len l = length (concat bs) + length (concat as)" "\<forall>c \<in> set bs. plain_char c" "\<forall>c \<in> set as. plain_char c"
    "length (concat bs) + length (concat as) + length post = 256"
    by (rule line_textE [OF l])
  have "\<forall>c \<in> set (concat bs @ concat as). c \<noteq> 0"
    using b(3,4) plain_no_zero by fastforce
  then show "c_string (edit_buf l) = text_bytes t" "line_ok (text_bytes t)"
    using b(1,5) takeWhile_append2 [of "concat bs @ concat as" "\<lambda>c. c \<noteq> 0" "0 # post"]
    by (auto simp: c_string_def text_bytes_def t line_ok_def)
  show "edit_len l = length (text_bytes t)"
    by (simp add: b(2) text_bytes_def t)
qed

lemma line_entered:
  assumes "list_all2 key_input ks inps" "editing cb e t (concat inps @ 13 # rest)" "history_holds (ed_history e) (old @ [cur])"
  shows "\<exists>e'. feed_calls (length ks + 1) cb e = Gives LN_ENTER e' \<and> line_text None (ed_line e') (fold edit_text ks t) \<and>
    ed_input e' = rest \<and> history_holds (ed_history e') old"
proof -
  obtain e1 where e1: "feed_calls (length ks) cb e = Gives LN_CONTINUE e1" "editing cb e1 (fold edit_text ks t) (13 # rest)"
    "ed_history e1 = ed_history e"
    using keys_typed [OF assms(1,2)] by blast
  obtain h where h: "history_drop (ed_history e) = Some h" "history_holds h old"
    using ring.takes_away [OF assms(3)] by auto
  from enter_fed [OF e1(2), unfolded e1(3), OF h(1)] show ?thesis
    using feed_calls_add [OF e1(1), of 1] h(2) by auto
qed

subsection \<open>Old lines\<close>

definition is_text :: "u8 list \<Rightarrow> bool" where
  "is_text s \<longleftrightarrow> (\<exists>cs. s = concat cs \<and> (\<forall>c \<in> set cs. plain_char c))"

text \<open>The line number \<open>i\<close> of the browsing: the typed one, then the old ones backwards.\<close>

definition line_shown :: "cstr list \<Rightarrow> cstr \<Rightarrow> nat \<Rightarrow> cstr" where
  "line_shown old typed i = (if i = 0 then typed else old ! (length old - i))"

definition browse_key :: "nat \<Rightarrow> bool \<Rightarrow> nat \<Rightarrow> nat" where
  "browse_key n up i = (if up then min n (i + 1) else i - 1)"

definition browsing :: "hint_fun option \<Rightarrow> ln_state \<times> ln_history \<Rightarrow> cstr list \<Rightarrow> cstr \<Rightarrow> nat \<Rightarrow> bool" where
  "browsing hs = (\<lambda>(l, h) old typed i.
     (\<exists>t. line_text hs l t \<and> text_bytes t = line_shown old typed i) \<and> history_index l = int i \<and> i \<le> length old \<and>
     (\<exists>cur. history_holds h (old @ [cur]) \<and> buf_used h + length typed \<le> 1024 + length cur \<and> (0 < i \<longrightarrow> cur = typed)))"

lemma strncpy_short:
  assumes "length s < 256" "length b = 257"
  shows "\<exists>b1. put_bytes 0 (strncpy_bytes s 256) b = Some b1 \<and> set_byte 255 0 b1 = Some (s @ 0 # (replicate (255 - length s) 0 @ drop 256 b))"
proof -
  have copy: "strncpy_bytes s 256 = s @ replicate (256 - length s) 0"
    using assms(1) by (simp add: strncpy_bytes_def)
  also have "\<dots> = s @ replicate (255 - length s) 0 @ [0]"
    using assms(1) by (simp add: replicate_append_same flip: replicate_Suc)
  finally have "put_bytes 0 (strncpy_bytes s 256) b = Some ((s @ replicate (255 - length s) 0) @ [0] @ drop 256 b)"
    using assms by (simp add: put_bytes_def)
  moreover have "set_byte 255 0 ((s @ replicate (255 - length s) 0) @ [0] @ drop 256 b) =
      Some ((s @ replicate (255 - length s) 0) @ [0] @ drop 256 b)"
    using put_at [of "[0]" "[0]" "s @ replicate (255 - length s) 0" "drop 256 b"] assms(1) by (simp add: set_byte_def)
  moreover have "(s @ replicate (255 - length s) 0) @ [0] @ drop 256 b = s @ 0 # (replicate (255 - length s) 0 @ drop 256 b)"
    using replicate_append_same [of "255 - length s" "0 :: u8"] by simp
  ultimately show ?thesis
    by simp
qed

lemma recalled:
  assumes "line_ready hs l" "is_text s" "length s < 256"
  shows "\<exists>b1 b l' out. put_bytes 0 (strncpy_bytes s (buflen l)) (edit_buf l) = Some b1 \<and> set_byte (buflen l - 1) 0 b1 = Some b \<and>
    l' = l\<lparr>edit_buf := b, edit_pos := length (c_string b), edit_len := length (c_string b)\<rparr> \<and>
    refreshLine hs l' = Some (l', out) \<and> (\<exists>t. line_text hs l' t \<and> text_bytes t = s)"
proof -
  have l: "length (edit_buf l) = 257" "buflen l = 256"
    using assms(1) by (simp_all add: line_ready_def)
  obtain cs where cs: "s = concat cs" "\<forall>c \<in> set cs. plain_char c"
    using assms(2) by (auto simp: is_text_def)
  define b where "b = s @ 0 # (replicate (255 - length s) 0 @ drop 256 (edit_buf l))"
  obtain b1 where b1: "put_bytes 0 (strncpy_bytes s 256) (edit_buf l) = Some b1" "set_byte 255 0 b1 = Some b"
    using strncpy_short [OF assms(3) l(1)] by (auto simp: b_def)
  have "\<forall>c \<in> set s. c \<noteq> 0"
    using cs plain_no_zero by fastforce
  then have str: "c_string b = s"
    using takeWhile_append2 [of s "\<lambda>c. c \<noteq> 0"] by (simp add: c_string_def b_def)
  define l' where "l' = l\<lparr>edit_buf := b, edit_pos := length (c_string b), edit_len := length (c_string b)\<rparr>"
  have t: "line_text hs l' (cs, [])"
    using cs ready_modes [OF assms(1)] l assms(3) str
    by (intro line_textI [OF assms(1), where post = "replicate (255 - length s) 0 @ drop 256 (edit_buf l)"]) (auto simp: l'_def b_def)
  have "\<exists>t. line_text hs l' t \<and> text_bytes t = s"
    using t cs(1) by (intro exI [of _ "(cs, [])"]) (simp add: text_bytes_def)
  then show ?thesis
    using b1 refresh_text [OF t] l(2) unfolding l'_def by auto
qed

lemma typed_saved:
  assumes "browsing hs (l, h) old typed i" "line_ok typed"
  shows "\<exists>h1. (if history_index l = 0 then history_save (c_string (edit_buf l)) h else Some h) = Some h1 \<and>
    history_holds h1 (old @ [typed])"
proof -
  obtain t cur where b: "line_text hs l t" "text_bytes t = line_shown old typed i" "history_index l = int i"
    "history_holds h (old @ [cur])" "buf_used h + length typed \<le> 1024 + length cur" "0 < i \<longrightarrow> cur = typed"
    using assms(1) by (auto simp: browsing_def)
  show ?thesis
  proof (cases "i = 0")
    case True
    then have "c_string (edit_buf l) = typed"
      using text_in_buffer(1) [OF b(1)] b(2) by (simp add: line_shown_def)
    then show ?thesis
      using save_holds [OF b(4), of typed] b(3,5) True assms(2) by (simp add: line_ok_def)
  next
    case False
    then show ?thesis
      using b(3,4,6) by auto
  qed
qed

lemma browsing_saved:
  assumes "history_holds h (old @ [typed])" "line_text hs l t" "text_bytes t = line_shown old typed i" "history_index l = int i" "i \<le> length old"
  shows "browsing hs (l, h) old typed i"
proof -
  have "buf_used h + length typed \<le> 1024 + length typed"
    using assms(1) by (simp add: history_holds_def)
  then show ?thesis
    using assms by (simp only: browsing_def prod.case) blast
qed

lemma history_next:
  assumes b: "browsing hs (l, h) old typed i" and typed: "line_ok typed"
    and texts: "\<forall>s \<in> set (typed # old). is_text s \<and> length s < 256"
    and dir: "dir = (if up then LINENOISE_HISTORY_PREV else LINENOISE_HISTORY_NEXT)"
  shows "\<exists>l' h' out. linenoiseEditHistoryNext hs dir (l, h) = Some ((l', h'), out) \<and> browsing hs (l', h') old typed (browse_key (length old) up i)"
proof -
  obtain t cur where t: "line_text hs l t" "text_bytes t = line_shown old typed i" "history_index l = int i" "i \<le> length old"
    "history_holds h (old @ [cur])"
    using b by (auto simp: browsing_def)
  have n: "history_len h = length old + 1"
    using t(5) by (simp add: history_holds_def)
  show ?thesis
  proof (cases "old = []")
    case True
    then show ?thesis
      using n b t(4) by (simp add: linenoiseEditHistoryNext_def browse_key_def)
  next
    case False
    obtain h1 where h1: "(if history_index l = 0 then history_save (c_string (edit_buf l)) h else Some h) = Some h1"
      "history_holds h1 (old @ [typed])"
      using typed_saved [OF b typed] by blast
    have n1: "history_len h1 = length old + 1"
      using h1(2) by (simp add: history_holds_def)
    let ?j = "int i + (if dir = LINENOISE_HISTORY_PREV then 1 else - 1)"
    have step: "?j = (if up then int i + 1 else int i - 1)"
      by (simp add: dir LINENOISE_HISTORY_PREV_def LINENOISE_HISTORY_NEXT_def)
    have stay: "browsing hs (l\<lparr>history_index := int i\<rparr>, h1) old typed i"
      using t by (intro browsing_saved [OF h1(2), of _ _ t]) (auto simp: line_text_def line_ready_def shows_text_def)
    consider (low) "?j < 0" | (high) "int (length old) < ?j" | (line) k where "?j = int k" "k \<le> length old"
      using t(4) False by (metis linorder_not_le nonneg_int_cases of_nat_le_iff)
    then show ?thesis
    proof cases
      case low
      then have "i = 0" "browse_key (length old) up i = i"
        using step by (auto simp: browse_key_def split: if_splits)
      then show ?thesis
        using n h1(1) low stay t(3) False by (simp add: linenoiseEditHistoryNext_def Let_def)
    next
      case high
      then have "i = length old" "browse_key (length old) up i = i"
        using step t(4) by (auto simp: browse_key_def split: if_splits)
      then show ?thesis
        using n n1 h1(1) high stay t(3) False by (simp add: linenoiseEditHistoryNext_def Let_def)
    next
      case line
      then have k: "browse_key (length old) up i = k" "length old - k < length (old @ [typed])"
        using step False t(4) by (auto simp: browse_key_def split: if_splits)
      have shown: "history_text (length old - k) h1 = line_shown old typed k"
        using text_holds [OF h1(2) k(2)] line(2) False by (cases "k = 0") (simp_all add: line_shown_def nth_append)
      have "line_shown old typed k \<in> set (typed # old)"
        using line(2) False by (auto simp: line_shown_def)
      then have ok: "is_text (line_shown old typed k)" "length (line_shown old typed k) < 256"
        using texts by auto
      have "line_ready hs (l\<lparr>history_index := int k\<rparr>)"
        using t(1) by (auto simp: line_text_def line_ready_def)
      from recalled [OF this ok] show ?thesis
        using n n1 h1 line t(3) shown k(1) browsing_saved [OF h1(2)] False
        by (auto simp: linenoiseEditHistoryNext_def Let_def)
    qed
  qed
qed

text \<open>The keys of the history: Ctrl-P and Ctrl-N, or the arrows.\<close>

definition history_key :: "bool \<Rightarrow> u8 list \<Rightarrow> bool" where
  "history_key up inp \<longleftrightarrow> inp = [if up then 16 else 14] \<or>
     (\<exists>seq. inp = ch_esc # seq \<and> (seq, if up then VT100_KEY_UP else VT100_KEY_DOWN) \<in> set key_sequences)"

abbreviation history_dir :: "bool \<Rightarrow> int" where
  "history_dir up \<equiv> (if up then LINENOISE_HISTORY_PREV else LINENOISE_HISTORY_NEXT)"

lemma history_key_fed:
  assumes "history_key up inp" "ed_input e = inp @ rest" "\<not> in_completion (ed_line e)" "\<not> simple_mode (ed_line e)"
  shows "linenoiseEditFeed cb e = fed_more (on_history (linenoiseEditHistoryNext (cb_hints cb) (history_dir up)) (e\<lparr>ed_input := rest\<rparr>))"
  using assms(1) unfolding history_key_def
proof (elim disjE exE conjE)
  assume c: "inp = [if up then 16 else 14]"
  have "linenoiseEditFeed cb e = feed_key (cb_hints cb) (if up then 16 else 14) (e\<lparr>ed_input := rest\<rparr>)"
    using assms(2,3) by (intro feed_plain) (simp_all add: c)
  then show ?thesis
    using assms(4) by (simp add: feed_key_def editing_key_def)
next
  fix seq
  assume s: "inp = ch_esc # seq" "(seq, if up then VT100_KEY_UP else VT100_KEY_DOWN) \<in> set key_sequences"
  have "linenoiseEditFeed cb e = key_escape (cb_hints cb) (e\<lparr>ed_input := seq @ rest\<rparr>)"
    using feed_plain [of e ch_esc "seq @ rest" cb] assms(2,3) by (simp add: s(1) feed_key_def)
  then show ?thesis
    using assms(4) sequence_read [OF s(2)] by (simp add: key_escape_def Let_def vt100_keys)
qed

lemma history_key_step:
  assumes "history_key up inp" "ed_input e = inp @ rest" "browsing (cb_hints cb) (ed_line e, ed_history e) old typed i"
    and "line_ok typed" "\<forall>s \<in> set (typed # old). is_text s \<and> length s < 256"
  shows "\<exists>e'. linenoiseEditFeedResult cb e = Gives LN_CONTINUE e' \<and> ed_input e' = rest \<and>
    browsing (cb_hints cb) (ed_line e', ed_history e') old typed (browse_key (length old) up i)"
proof -
  have m: "\<not> in_completion (ed_line e)" "\<not> simple_mode (ed_line e)"
    using assms(3) ready_modes by (auto simp: browsing_def line_text_def)
  show ?thesis
    using history_next [OF assms(3-5) refl, of up] history_key_fed [OF assms(1,2) m, of cb]
    by (auto simp: linenoiseEditFeedResult_def fed_more_def on_history_def ed_write_def)
qed

lemma history_keys:
  assumes "list_all2 history_key ups inps" "ed_input e = concat inps @ rest" "browsing (cb_hints cb) (ed_line e, ed_history e) old typed i"
    and "line_ok typed" "\<forall>s \<in> set (typed # old). is_text s \<and> length s < 256"
  shows "\<exists>e'. feed_calls (length ups) cb e = Gives LN_CONTINUE e' \<and> ed_input e' = rest \<and>
    browsing (cb_hints cb) (ed_line e', ed_history e') old typed (fold (browse_key (length old)) ups i)"
  using assms(1-3)
proof (induction ups inps arbitrary: e i rule: list_all2_induct)
  case (Cons up ups inp inps)
  obtain e1 where e1: "linenoiseEditFeedResult cb e = Gives LN_CONTINUE e1" "ed_input e1 = concat inps @ rest"
    "browsing (cb_hints cb) (ed_line e1, ed_history e1) old typed (browse_key (length old) up i)"
    using history_key_step [OF Cons.hyps(1) _ Cons.prems(2) assms(4,5), of "concat inps @ rest"] Cons.prems(1) by auto
  show ?case
    using Cons.IH [OF e1(2,3)] e1(1) by auto
qed simp

lemma text_bytes_text: "line_text hs l t \<Longrightarrow> is_text (text_bytes t)"
  by (auto simp: is_text_def line_text_def shows_text_def text_bytes_def intro!: exI [of _ "fst t @ snd t"])

lemma session_browsing:
  assumes "line_text hs l t" "history_index l = 0" "history_holds h (old @ [cur])" "buf_used h + length (text_bytes t) \<le> 1024 + length cur"
  shows "browsing hs (l, h) old (text_bytes t) 0"
  using assms by (auto simp: browsing_def line_shown_def simp del: split_paired_Ex)

subsection \<open>The simple mode\<close>

text \<open>The prompts use the simple mode: the cursor stays at the end of the line.\<close>

definition simple_ok :: "ln_state \<Rightarrow> bool" where
  "simple_ok l \<longleftrightarrow> simple_mode l \<and> buflen l = BP_LINENOISE_MAX_LINE \<and> length (edit_buf l) = BP_LINENOISE_MAX_LINE + 1 \<and>
     edit_pos l = edit_len l \<and> edit_len l \<le> BP_LINENOISE_MAX_LINE \<and> edit_buf l ! edit_len l = 0"

definition simple_line :: "ln_state \<Rightarrow> u8 list" where
  "simple_line l = take (edit_len l) (edit_buf l)"

lemma simple_okE:
  assumes "simple_ok l"
  obtains line post where "edit_buf l = line @ 0 # post" "edit_pos l = length line" "edit_len l = length line" "simple_line l = line"
    "length line + length post = 256" "buflen l = 256" "simple_mode l"
proof -
  have l: "simple_mode l" "buflen l = 256" "length (edit_buf l) = 257" "edit_pos l = edit_len l" "edit_len l \<le> 256" "edit_buf l ! edit_len l = 0"
    using assms by (simp_all add: simple_ok_def)
  have "edit_buf l = simple_line l @ 0 # drop (edit_len l + 1) (edit_buf l)"
    using l(3,5,6) id_take_nth_drop [of "edit_len l" "edit_buf l"] by (simp add: simple_line_def)
  moreover have "length (simple_line l) = edit_len l"
    using l(3,5) by (simp add: simple_line_def)
  ultimately show ?thesis
    using l by (intro that [of "simple_line l" "drop (edit_len l + 1) (edit_buf l)"]) simp_all
qed

lemma simple_okI:
  assumes "edit_buf l = line @ 0 # post" "edit_pos l = length line" "edit_len l = length line"
    "length line + length post = 256" "buflen l = 256" "simple_mode l"
  shows "simple_ok l" "simple_line l = line"
  using assms by (simp_all add: simple_ok_def simple_line_def)

text \<open>One step: the line as it was, one character more, or one byte less.\<close>

definition simple_step :: "ln_state \<Rightarrow> u8 list set \<Rightarrow> (ln_state \<times> u8 list) option \<Rightarrow> bool" where
  "simple_step l lines r \<longleftrightarrow> (\<exists>l' out. r = Some (l', out) \<and> simple_ok l' \<and> simple_line l' \<in> lines)"

lemma simple_insert:
  assumes "simple_ok l"
  shows "simple_step l {simple_line l, simple_line l @ c} (linenoiseEditInsert hs c l)"
proof -
  obtain line post where l: "edit_buf l = line @ 0 # post" "edit_pos l = length line" "edit_len l = length line" "simple_line l = line"
    "length line + length post = 256" "buflen l = 256" "simple_mode l"
    by (rule simple_okE [OF assms])
  show ?thesis
  proof (cases "length line + length c \<le> 256")
    case True
    define rest where "rest = drop (length c) (0 # post)"
    have "put_bytes (length line) c (edit_buf l) = Some (line @ c @ rest)"
      using True l(1,5) by (simp add: put_bytes_def rest_def)
    moreover have "rest \<noteq> []" "length rest = 257 - (length line + length c)"
      using True l(5) by (simp_all add: rest_def)
    then have "set_byte (length line + length c) 0 (line @ c @ rest) = Some ((line @ c) @ 0 # tl rest)"
      using set_zero [of _ "line @ c" rest] by simp
    ultimately have "linenoiseEditInsert hs c l =
        Some (l\<lparr>edit_buf := (line @ c) @ 0 # tl rest, edit_pos := length (line @ c), edit_len := length (line @ c)\<rparr>, c)" (is "_ = Some (?l, c)")
      using True l by (simp add: linenoiseEditInsert_def)
    moreover have "simple_ok ?l" "simple_line ?l = line @ c"
      using l True \<open>length rest = _\<close> by (intro simple_okI [where line = "line @ c" and post = "tl rest"]; simp)+
    ultimately show ?thesis
      using l(4) by (simp add: simple_step_def)
  next
    case False
    then show ?thesis
      using assms l by (simp add: linenoiseEditInsert_def simple_step_def)
  qed
qed

lemma simple_backspaced:
  assumes "simple_ok l"
  shows "simple_step l {butlast (simple_line l)} (simple_backspace l)"
proof -
  obtain line post where l: "edit_buf l = line @ 0 # post" "edit_pos l = length line" "edit_len l = length line" "simple_line l = line"
    "length line + length post = 256" "buflen l = 256" "simple_mode l"
    by (rule simple_okE [OF assms])
  show ?thesis
  proof (cases line rule: rev_cases)
    case Nil
    then show ?thesis
      using assms l by (simp add: simple_backspace_def simple_step_def)
  next
    case (snoc xs x)
    have "move_bytes (length xs) (length line) 0 (edit_buf l) = Some (edit_buf l)"
      using l(1) by (simp add: move_bytes_def get_bytes_def put_bytes_def snoc)
    moreover have "set_byte (length xs) 0 (edit_buf l) = Some (xs @ 0 # 0 # post)"
      using set_zero [of "length xs" xs "x # 0 # post"] l(1) by (simp add: snoc)
    ultimately have "simple_backspace l = Some (l\<lparr>edit_buf := xs @ 0 # 0 # post, edit_pos := length xs, edit_len := length xs\<rparr>, [8, ch_space, 8])"
        (is "_ = Some (?l, _)")
      using l(2,3) by (simp add: simple_backspace_def snoc size_sub_def)
    moreover have "simple_ok ?l" "simple_line ?l = xs"
      using l by (intro simple_okI [where line = xs and post = "0 # post"]; simp add: snoc)+
    ultimately show ?thesis
      using l(4) by (simp add: simple_step_def snoc)
  qed
qed

text \<open>What a call of the editor gives back in the simple mode.\<close>

definition simple_fed :: "u8 list \<Rightarrow> u8 list \<Rightarrow> cstr list \<Rightarrow> cstr \<Rightarrow> fed \<Rightarrow> bool" where
  "simple_fed line inp old cur r \<longleftrightarrow>
     (case r of
        Waiting \<Rightarrow> True
      | Fault \<Rightarrow> False
      | Fed fr e' \<Rightarrow> simple_ok (ed_line e') \<and>
          history_holds (ed_history e') (if fr = EditLine \<or> fr = EditNull ENOENT then old else old @ [cur]) \<and>
          (simple_line (ed_line e') \<in> {line, butlast line} \<or> (\<exists>c rest. inp = c @ rest \<and> simple_line (ed_line e') = line @ c)))"

lemma simple_fed_line:
  assumes "simple_step (ed_line e) {line, butlast line, line @ c} (f (ed_line e))" "inp = c @ rest" "history_holds (ed_history e) (old @ [cur])"
  shows "simple_fed line inp old cur (fed_more (on_line f e))"
  using assms by (auto simp: simple_step_def simple_fed_def fed_more_def on_line_def ed_write_def)

lemma simple_fed_same:
  assumes "simple_ok (ed_line e)" "history_holds (ed_history e) (old @ [cur])" "line = simple_line (ed_line e)"
    and "fr \<in> {EditMore, EditNull EAGAIN, EditNull errno_0}"
  shows "simple_fed line inp old cur (Fed fr e)"
  using assms by (auto simp: simple_fed_def)

lemma simple_fed_end:
  assumes "simple_ok (ed_line e)" "history_holds (ed_history e) (old @ [cur])" "line = simple_line (ed_line e)"
  shows "\<exists>h. history_drop (ed_history e) = Some h \<and>
    (\<forall>inp out. simple_fed line inp old cur (Fed EditLine (ed_write out (e\<lparr>ed_history := h\<rparr>)))) \<and>
    (\<forall>inp. simple_fed line inp old cur (Fed (EditNull ENOENT) (e\<lparr>ed_history := h\<rparr>)))"
  using ring.takes_away [OF assms(2)] assms(1,3) by (auto simp: simple_fed_def ed_write_def)

lemma simple_escape:
  assumes "simple_ok (ed_line e)" "history_holds (ed_history e) (old @ [cur])" "line = simple_line (ed_line e)"
  shows "simple_fed line inp old cur (key_escape hs e)"
proof (cases "read_csi (ed_input e)")
  case None
  then show ?thesis
    by (simp add: key_escape_def simple_fed_def)
next
  case (Some seq)
  have "simple_mode (ed_line e)"
    using assms(1) by (simp add: simple_ok_def)
  then show ?thesis
    using Some assms by (simp add: key_escape_def Let_def fed_more_def simple_fed_def)
qed

lemma simple_char:
  assumes "simple_ok (ed_line e)" "history_holds (ed_history e) (old @ [cur])" "line = simple_line (ed_line e)"
  shows "simple_fed line (c # ed_input e) old cur (key_char hs c e)"
proof -
  let ?n = "utf8ByteLen c - 1"
  let ?e = "e\<lparr>ed_input := drop ?n (ed_input e)\<rparr>"
  have "simple_step (ed_line ?e) {line, butlast line, line @ (c # take ?n (ed_input e))}
      (linenoiseEditInsert hs (c # take ?n (ed_input e)) (ed_line ?e))"
    using simple_insert [OF assms(1), of "c # take ?n (ed_input e)" hs] assms(3) by (auto simp: simple_step_def)
  then have "simple_fed line (c # ed_input e) old cur (fed_more (on_line (linenoiseEditInsert hs (c # take ?n (ed_input e))) ?e))"
    by (rule simple_fed_line [where f = "linenoiseEditInsert hs (c # take ?n (ed_input e))" and e = ?e and rest = "drop ?n (ed_input e)"])
      (use assms(2) in simp_all)
  then show ?thesis
    by (simp add: key_char_def Let_def) (simp add: simple_fed_def)
qed

lemma simple_key:
  assumes "simple_ok (ed_line e)" "history_holds (ed_history e) (old @ [cur])" "line = simple_line (ed_line e)"
  shows "simple_fed line (c # ed_input e) old cur (feed_key hs c e)"
proof -
  have m: "simple_mode (ed_line e)"
    using assms(1) by (simp add: simple_ok_def)
  obtain h where h: "history_drop (ed_history e) = Some h"
    "\<forall>inp out. simple_fed line inp old cur (Fed EditLine (ed_write out (e\<lparr>ed_history := h\<rparr>)))"
    "\<forall>inp. simple_fed line inp old cur (Fed (EditNull ENOENT) (e\<lparr>ed_history := h\<rparr>))"
    using simple_fed_end [OF assms] by blast
  have enter: "key_enter hs e = Fed EditLine (ed_write [] (e\<lparr>ed_history := h\<rparr>))"
    using m h(1) by (simp add: key_enter_def Let_def on_line_def refreshLine_def ed_write_def)
  have same: "simple_fed line inp old cur (Fed fr e)" if "fr \<in> {EditMore, EditNull EAGAIN, EditNull errno_0}" for fr inp
    by (rule simple_fed_same [OF assms that])
  have "simple_step (ed_line e) {line, butlast line, line @ []} (simple_backspace (ed_line e))"
    using simple_backspaced [OF assms(1)] assms(3) by (auto simp: simple_step_def)
  then have erase: "simple_fed line inp old cur (fed_more (on_line simple_backspace e))" for inp
    by (rule simple_fed_line [where f = simple_backspace and e = e and c = "[]"]) (use assms(2) in simp_all)
  have eof: "simple_fed line inp old cur (key_ctrl_d hs e)" for inp
    using same [of EditMore] h(1,3) m by (simp add: key_ctrl_d_def fed_more_def)
  show ?thesis
    using enter h(2) same erase eof simple_escape [OF assms] simple_char [OF assms] m
    by (simp add: feed_key_def fed_more_def)
qed

lemma simple_mode_fed:
  assumes "simple_ok (ed_line e)" "history_holds (ed_history e) (old @ [cur])"
  shows "simple_fed (simple_line (ed_line e)) (ed_input e) old cur (linenoiseEditFeed cb e)"
proof (cases "ed_input e")
  case Nil
  then show ?thesis
    using simple_fed_same [OF assms refl] by (simp add: linenoiseEditFeed_def)
next
  case (Cons c inp)
  have "simple_mode (ed_line e)"
    using assms(1) by (simp add: simple_ok_def)
  then have "linenoiseEditFeed cb e = feed_key (cb_hints cb) c (e\<lparr>ed_input := inp\<rparr>)"
    by (simp add: linenoiseEditFeed_def Cons Let_def split: option.split)
  then show ?thesis
    using simple_key [of "e\<lparr>ed_input := inp\<rparr>" old cur] assms Cons by simp
qed

subsection \<open>The start of an edit\<close>

text \<open>A line between two edits, and a prompt that leaves room on the terminal.\<close>

definition line_buffer :: "ln_state \<Rightarrow> bool" where
  "line_buffer l \<longleftrightarrow> buflen l = BP_LINENOISE_MAX_LINE \<and> length (edit_buf l) = BP_LINENOISE_MAX_LINE + 1"

definition idle_line :: "ln_state \<Rightarrow> bool" where
  "idle_line l \<longleftrightarrow> line_buffer l \<and> cols l \<le> 65536"

definition prompt_fits :: "cstr \<Rightarrow> nat \<Rightarrow> bool" where
  "prompt_fits text columns \<longleftrightarrow> (\<exists>pwidth. utf8StrWidth (text @ [0]) 0 (length text) = Some pwidth \<and> pwidth < columns)"

lemma idle_init: "columns \<le> 65536 \<Longrightarrow> idle_line (linenoiseSetCallbacks columns)"
  by (simp add: idle_line_def line_buffer_def linenoiseSetCallbacks_def)

lemma started:
  assumes "line_buffer (ed_line e)" "history_holds (ed_history e) ss"
  shows "\<exists>e' old. linenoiseStartEdit text e = Some e' \<and> history_holds (ed_history e') (old @ [[]]) \<and> history_add [] ss = old @ [[]] \<and>
    ed_input e' = ed_input e \<and> simple_mode (ed_line e') = simple_mode (ed_line e) \<and> line_buffer (ed_line e') \<and> prompt (ed_line e') = text \<and>
    plen (ed_line e') = length text \<and> \<not> in_completion (ed_line e') \<and> history_index (ed_line e') = 0 \<and> cols (ed_line e') = cols (ed_line e) \<and>
    edit_pos (ed_line e') = 0 \<and> edit_len (ed_line e') = 0 \<and> edit_buf (ed_line e') ! 0 = 0"
proof -
  obtain h r where h: "linenoiseHistoryAdd [] (ed_history e) = Some (r, h)" "history_holds h (history_add [] ss)"
    using add_holds [OF assms(2), of "[]"] by auto
  have "\<exists>old. history_add [] ss = old @ [[]]"
    by (cases ss rule: rev_cases) (auto simp: history_add_def)
  moreover have "set_byte 0 0 (edit_buf (ed_line e)) = Some (0 # drop 1 (edit_buf (ed_line e)))"
    using assms(1) by (simp add: set_byte_def put_bytes_def line_buffer_def)
  ultimately show ?thesis
    using h assms(1) by (auto simp: linenoiseStartEdit_def Let_def ed_write_def line_buffer_def)
qed

lemma starts_editing:
  assumes "idle_line (ed_line e)" "\<not> simple_mode (ed_line e)" "history_holds (ed_history e) ss" "prompt_fits text (cols (ed_line e))"
    and "hints_plain (cb_hints cb)"
  shows "\<exists>e' old. linenoiseStartEdit text e = Some e' \<and> history_holds (ed_history e') (old @ [[]]) \<and> history_add [] ss = old @ [[]] \<and>
    editing cb e' ([], []) (ed_input e) \<and> history_index (ed_line e') = 0"
proof -
  obtain e' old where e: "linenoiseStartEdit text e = Some e'" "history_holds (ed_history e') (old @ [[]])" "history_add [] ss = old @ [[]]"
    "ed_input e' = ed_input e" "simple_mode (ed_line e') = simple_mode (ed_line e)" "line_buffer (ed_line e')" "prompt (ed_line e') = text"
    "plen (ed_line e') = length text" "\<not> in_completion (ed_line e')" "history_index (ed_line e') = 0" "cols (ed_line e') = cols (ed_line e)"
    "edit_pos (ed_line e') = 0" "edit_len (ed_line e') = 0" "edit_buf (ed_line e') ! 0 = 0"
    using started [OF _ assms(3), of "text"] assms(1) by (auto simp: idle_line_def line_buffer_def)
  obtain pwidth where w: "utf8StrWidth (text @ [0]) 0 (length text) = Some pwidth" "pwidth < cols (ed_line e)"
    using assms(4) by (auto simp: prompt_fits_def)
  have ready: "line_ready (cb_hints cb) (ed_line e')"
    unfolding line_ready_def using e assms(1,2,5) w by (simp add: idle_line_def line_buffer_def)
  obtain b bs where "edit_buf (ed_line e') = b # bs"
    using e(6) by (cases "edit_buf (ed_line e')") (simp_all add: idle_line_def line_buffer_def)
  then have "line_text (cb_hints cb) (ed_line e') ([], [])"
    using e(5,6,9,12-14) assms(2) by (intro line_textI [OF ready, where post = bs]) (simp_all add: idle_line_def line_buffer_def)
  then show ?thesis
    using e by (auto simp: editing_def)
qed

lemma text_idle: "line_text hs l t \<Longrightarrow> idle_line l \<and> \<not> simple_mode l"
  by (simp add: line_text_def line_ready_def idle_line_def line_buffer_def)

subsection \<open>Properties\<close>

text \<open>C6: A line typed up to Enter is the text that its keys build in a text buffer: the cursor between characters that are
  inserted, deleted, exchanged, removed by word, to the end of the line or altogether, as Unicode characters of any length, up
  to 256 bytes. Each key takes one call of the editor and Enter one more; the old lines of the history are as they were.
\<close>

theorem typed_line:
  assumes "list_all2 key_input ks inps" "editing cb e t (concat inps @ 13 # rest)" "history_holds (ed_history e) (old @ [cur])"
  shows "\<exists>e'. feed_calls (length ks + 1) cb e = Gives LN_ENTER e' \<and>
    c_string (edit_buf (ed_line e')) = text_bytes (fold edit_text ks t) \<and>
    edit_len (ed_line e') = length (text_bytes (fold edit_text ks t)) \<and> ed_input e' = rest \<and> history_holds (ed_history e') old"
  using line_entered [OF assms] text_in_buffer by blast

definition demo_editor :: "ln_history \<Rightarrow> u8 list \<Rightarrow> ln_editor" where
  "demo_editor h inp = \<lparr>ed_line = linenoiseSetCallbacks 80, ed_history = h, ed_input = inp, ed_output = []\<rparr>"

abbreviation "no_callbacks \<equiv> \<lparr>cb_completion = None, cb_hints = None\<rparr>"

lemma demo_starts:
  assumes "history_holds h ss"
  shows "\<exists>e old. linenoiseStartEdit [72, 105, 90, 62, 32] (demo_editor h inp) = Some e \<and> editing no_callbacks e ([], []) inp \<and>
     history_holds (ed_history e) (old @ [[]]) \<and> history_add [] ss = old @ [[]] \<and> history_index (ed_line e) = 0"
proof -
  have "utf8StrWidth ([72, 105, 90, 62, 32] @ [0]) 0 (length [72, 105, 90, 62, 32 :: u8]) = Some 5"
    by code_simp
  then have "prompt_fits [72, 105, 90, 62, 32] 80"
    unfolding prompt_fits_def by (intro exI [of _ 5] conjI) simp_all
  then show ?thesis
    using starts_editing [of "demo_editor h inp" ss "[72, 105, 90, 62, 32]" no_callbacks] idle_init [of 80] assms
    by (auto simp: demo_editor_def linenoiseSetCallbacks_def hints_plain_def)
qed

text \<open>The letters a and b, the left arrow, the letter c.\<close>

theorem typed_line_witness:
  "\<exists>e e'. linenoiseStartEdit [72, 105, 90, 62, 32] (demo_editor history_init [0x61, 0x62, 27, 91, 68, 0x63, 13]) = Some e \<and>
     feed_calls 5 no_callbacks e = Gives LN_ENTER e' \<and> c_string (edit_buf (ed_line e')) = [0x61, 0x63, 0x62]"
proof -
  let ?ks = "[Typed [0x61], Typed [0x62], Move_left, Typed [0x63]]" and ?inps = "[[0x61], [0x62], [27, 91, 68], [0x63]] :: u8 list list"
  obtain e where e: "linenoiseStartEdit [72, 105, 90, 62, 32] (demo_editor history_init (concat ?inps @ [13])) = Some e"
    "editing no_callbacks e ([], []) (concat ?inps @ [13])" "history_holds (ed_history e) ([] @ [[]])"
    using demo_starts [OF history_init_holds, of "concat ?inps @ [13]"] by (auto simp: history_add_def)
  have plain: "plain_char [0x61]" "plain_char [0x62]" "plain_char [0x63]"
    by code_simp+
  have "(\<exists>seq. [27, 91, 68] = ch_esc # seq \<and> (seq, VT100_KEY_LEFT) \<in> set key_sequences)"
    by (intro exI [of _ "[91, 68]"]) code_simp
  then have "list_all2 key_input ?ks ?inps"
    using plain by (simp add: control_keys_def)
  note run = typed_line [OF this e(2,3)]
  have n: "length ?ks + 1 = 5" "text_bytes (fold edit_text ?ks ([], [])) = [0x61, 0x63, 0x62]"
    by code_simp+
  show ?thesis
    using run [unfolded n] e(1) by auto
qed

text \<open>C15: The keys up and down go through the old lines: each up shows the line before, the oldest one stays; each down goes back,
  and at the end of the way back stands the text that was typed before, when the history buffer had room to keep it. The
  old lines stay as they were, and the line shown can be edited and entered like a typed one.
\<close>

theorem old_lines_come_back:
  assumes "editing cb e t (concat inps @ rest)" "list_all2 history_key ups inps" "history_holds (ed_history e) (old @ [cur])"
    and "history_index (ed_line e) = 0" "buf_used (ed_history e) + length (text_bytes t) \<le> 1024 + length cur"
    and "\<forall>s \<in> set (text_bytes t # old). is_text s \<and> length s < 256"
  shows "\<exists>e' t' cur'. feed_calls (length ups) cb e = Gives LN_CONTINUE e' \<and> editing cb e' t' rest \<and>
    text_bytes t' = line_shown old (text_bytes t) (fold (browse_key (length old)) ups 0) \<and> history_holds (ed_history e') (old @ [cur'])"
proof -
  have l: "line_text (cb_hints cb) (ed_line e) t" "ed_input e = concat inps @ rest"
    using assms(1) by (simp_all add: editing_def)
  from history_keys [OF assms(2) l(2) session_browsing [OF l(1) assms(4,3,5)] text_in_buffer(3) [OF l(1)] assms(6)]
  obtain e' where "feed_calls (length ups) cb e = Gives LN_CONTINUE e'" "ed_input e' = rest"
    "browsing (cb_hints cb) (ed_line e', ed_history e') old (text_bytes t) (fold (browse_key (length old)) ups 0)"
    by blast
  then show ?thesis
    by (simp only: browsing_def prod.case editing_def) blast
qed

text \<open>After the line i was entered, Ctrl-P brings it back, Ctrl-N leaves the empty line again.\<close>

theorem old_lines_come_back_witness:
  "\<exists>h e e'. linenoiseHistoryAdd [0x69] history_init = Some (True, h) \<and> linenoiseStartEdit [72, 105, 90, 62, 32] (demo_editor h [16]) = Some e \<and>
     feed_calls 1 no_callbacks e = Gives LN_CONTINUE e' \<and> c_string (edit_buf (ed_line e')) = [0x69]"
proof -
  obtain h where h: "linenoiseHistoryAdd [0x69] history_init = Some (True, h)" "history_holds h [[0x69]]"
    using add_holds [OF history_init_holds, of "[0x69]"] by (auto simp: history_add_def)
  obtain e where e: "linenoiseStartEdit [72, 105, 90, 62, 32] (demo_editor h [16]) = Some e" "editing no_callbacks e ([], []) (concat [[16]] @ [])"
    "history_holds (ed_history e) ([[0x69]] @ [[]])" "history_index (ed_line e) = 0"
    using demo_starts [OF h(2), of "[16]"] by (auto simp: history_add_def)
  have "plain_char [0x69]"
    by code_simp
  then have "is_text [0x69]"
    unfolding is_text_def by (intro exI [of _ "[[0x69]]"]) simp
  then have texts: "\<forall>s \<in> set (text_bytes ([], []) # [[0x69]]). is_text s \<and> length s < 256"
    by (auto simp: text_bytes_def is_text_def intro: exI [of _ "[]"])
  have "buf_used (ed_history e) + length (text_bytes ([], [])) \<le> 1024 + length ([] :: u8 list)"
    using e(3) by (simp add: history_holds_def text_bytes_def)
  moreover have "list_all2 history_key [True] [[16]]"
    by (simp add: history_key_def)
  ultimately obtain e' t' where e': "feed_calls (length [True]) no_callbacks e = Gives LN_CONTINUE e'" "editing no_callbacks e' t' []"
    "text_bytes t' = line_shown [[0x69]] (text_bytes ([], [])) (fold (browse_key (length [[0x69 :: u8]])) [True] 0)"
    using old_lines_come_back [OF e(2) _ e(3,4) _ texts] by blast
  have "c_string (edit_buf (ed_line e')) = [0x69]"
    using text_in_buffer(1) e'(2,3) by (fastforce simp: editing_def line_shown_def browse_key_def)
  then show ?thesis
    using h(1) e(1) e'(1) by auto
qed

text \<open>C11: In the simple mode, which the prompts use, the line stays well formed whatever bytes come in: the cursor is at the
  end, the NUL is in its place, nothing outside of the buffer is touched. A call leaves the line, takes its last byte away or
  adds bytes that were typed; Enter and Ctrl-D take the entry of the edit from the history, no other key changes it.
\<close>

theorem simple_mode_type:
  assumes "simple_ok (ed_line e)" "history_holds (ed_history e) (old @ [cur])"
  shows "case linenoiseEditFeedResult cb e of
      Waits \<Rightarrow> True
    | Faults \<Rightarrow> False
    | Gives r e' \<Rightarrow> simple_ok (ed_line e') \<and>
        history_holds (ed_history e') (if r = LN_ENTER \<or> r = LN_CTRL_D then old else old @ [cur]) \<and>
        (simple_line (ed_line e') \<in> {simple_line (ed_line e), butlast (simple_line (ed_line e))} \<or>
         (\<exists>c rest. ed_input e = c @ rest \<and> simple_line (ed_line e') = simple_line (ed_line e) @ c))"
  using simple_mode_fed [OF assms, of cb]
  by (auto simp: simple_fed_def linenoiseEditFeedResult_def split: fed.splits feed_result.splits errno.splits)

theorem simple_mode_type_witness:
  "\<exists>h. linenoiseHistoryAdd [] history_init = Some (True, h) \<and>
     (case linenoiseEditFeedResult no_callbacks ((demo_editor h [0xC3, 0xA9])\<lparr>ed_line := linenoiseSetSimpleMode True (linenoiseSetCallbacks 80)\<rparr>) of
        Gives r e' \<Rightarrow> simple_ok (ed_line e') | Waits \<Rightarrow> True | Faults \<Rightarrow> False)"
proof -
  obtain h where h: "linenoiseHistoryAdd [] history_init = Some (True, h)" "history_holds h ([] @ [[]])"
    using add_holds [OF history_init_holds, of "[]"] by (auto simp: history_add_def)
  let ?e = "(demo_editor h [0xC3, 0xA9])\<lparr>ed_line := linenoiseSetSimpleMode True (linenoiseSetCallbacks 80)\<rparr>"
  have e: "simple_ok (ed_line ?e)" "history_holds (ed_history ?e) ([] @ [[]])"
    using h(2) by (simp_all add: simple_ok_def linenoiseSetSimpleMode_def linenoiseSetCallbacks_def demo_editor_def)
  show ?thesis
    using simple_mode_type [OF e, of no_callbacks] h(1)
    by (cases "linenoiseEditFeedResult no_callbacks ?e") auto
qed

end
