(* ===== verification/Ui_Line.thy ===== *)
theory Ui_Line
  imports Ln_Keys World Cmdreader
begin

text \<open>
  The line editor in the terminal, \<^verbatim>\<open>src/ui/ui_term_linenoise.c\<close>: the command line with its history and the prompts
  in the simple mode, both on the bytes that come from the terminal, the reader of the line entered, and the injection of
  a line by macros and scripts. The callbacks of the editor are those that \<open>bp_cmd_linenoise_init\<close> installs, an argument
  here. The reader is given the string of the buffer, up to its first NUL.
\<close>

subsection \<open>The two lines\<close>

text \<open>\<open>main_line\<close> is \<open>ln_state\<close>, \<open>prompt_line\<close> is \<open>ln_prompt_state\<close>; the history and the queues are shared.\<close>

record ui_lines =
  main_line :: ln_state
  ln_initialized :: bool
  prompt_line :: ln_state
  ln_prompt_initialized :: bool
  line_history :: ln_history
  rx_bytes :: "u8 list"
  screen :: "term_event list"
  cmdln :: ln_cmdreader

definition typed_out :: "u8 list \<Rightarrow> term_event list" where
  "typed_out out = (if out = [] then [] else [TStr (map (\<lambda>c. char_of (unat c)) out)])"

definition editor_of :: "ln_state \<Rightarrow> ui_lines \<Rightarrow> ln_editor" where
  "editor_of l t = \<lparr>ed_line = l, ed_history = line_history t, ed_input = rx_bytes t, ed_output = []\<rparr>"

definition editor_done :: "ln_editor \<Rightarrow> ui_lines \<Rightarrow> ui_lines" where
  "editor_done e t = t\<lparr>line_history := ed_history e, rx_bytes := ed_input e, screen := screen t @ typed_out (ed_output e)\<rparr>"

definition main_editor :: "ui_lines \<Rightarrow> ln_editor" where
  "main_editor t = editor_of (main_line t) t"

definition set_main :: "ln_editor \<Rightarrow> ui_lines \<Rightarrow> ui_lines" where
  "set_main e t = (editor_done e t)\<lparr>main_line := ed_line e\<rparr>"

definition prompt_editor :: "ui_lines \<Rightarrow> ln_editor" where
  "prompt_editor t = editor_of (prompt_line t) t"

definition set_prompt :: "ln_editor \<Rightarrow> ui_lines \<Rightarrow> ui_lines" where
  "set_prompt e t = (editor_done e t)\<lparr>prompt_line := ed_line e\<rparr>"

text \<open>What a call returns; it can also wait for the rest of a key, or touch what is outside of an array.\<close>

datatype 'a lines_result = Lines_Wait | Lines_Fault | Lines 'a ui_lines

definition lines_opt :: "'a \<Rightarrow> ui_lines option \<Rightarrow> 'a lines_result" where
  "lines_opt a r = (case r of None \<Rightarrow> Lines_Fault | Some t \<Rightarrow> Lines a t)"

text \<open>\<open>ln_cmdln_init(l.buf, l.len)\<close>\<close>

definition read_line :: "ln_state \<Rightarrow> ui_lines \<Rightarrow> ui_lines" where
  "read_line l t = t\<lparr>cmdln := ln_cmdln_init (c_string (edit_buf l)) (edit_len l)\<rparr>"

subsection \<open>The command line\<close>

definition ui_term_linenoise_init :: "nat \<Rightarrow> ui_lines \<Rightarrow> ui_lines" where
  "ui_term_linenoise_init columns t = t\<lparr>main_line := linenoiseSetCallbacks columns, ln_initialized := True\<rparr>"

definition ui_term_linenoise_set_cols :: "nat \<Rightarrow> ui_lines \<Rightarrow> ui_lines" where
  "ui_term_linenoise_set_cols columns t = (if ln_initialized t then t\<lparr>main_line := linenoiseSetCols columns (main_line t)\<rparr> else t)"

definition ui_term_linenoise_start :: "cstr \<Rightarrow> ui_lines \<Rightarrow> ui_lines option" where
  "ui_term_linenoise_start text t =
     (let t = (if ln_initialized t then t else ui_term_linenoise_init 80 t)
      in map_option (\<lambda>e. set_main e t) (linenoiseStartEdit text (main_editor t)))"

definition main_stop :: "ui_lines \<Rightarrow> ui_lines option" where
  "main_stop t = map_option (\<lambda>e. set_main e t) (linenoiseEditStop (main_editor t))"

text \<open>The case \<open>LN_ENTER\<close>.\<close>

definition main_entered :: "ui_lines \<Rightarrow> ui_lines option" where
  "main_entered t = do {
     t \<leftarrow> main_stop t;
     let t = read_line (main_line t) t;
     if 0 < edit_len (main_line t) then do {
       (_, h) \<leftarrow> linenoiseHistoryAdd (c_string (edit_buf (main_line t))) (line_history t);
       Some (t\<lparr>line_history := h\<rparr>) }
     else Some t }"

definition ui_term_linenoise_feed :: "ln_callbacks \<Rightarrow> ui_lines \<Rightarrow> nat lines_result" where
  "ui_term_linenoise_feed cb t =
     (case linenoiseEditFeedResult cb (main_editor t) of
        Waits \<Rightarrow> Lines_Wait
      | Faults \<Rightarrow> Lines_Fault
      | Gives r e \<Rightarrow>
          let t = set_main e t in
          (case r of
             LN_CONTINUE \<Rightarrow> Lines 0 t
           | LN_ENTER \<Rightarrow> lines_opt 0xff (main_entered t)
           | LN_CTRL_C \<Rightarrow> lines_opt 0xfe (main_stop t)
           | LN_CTRL_D \<Rightarrow> lines_opt 0xfe (main_stop t)
           | LN_REFRESH \<Rightarrow> Lines 0xfd t
           | LN_TAB_EMPTY \<Rightarrow> Lines 0xfb t))"

definition ui_term_linenoise_get_line :: "ui_lines \<Rightarrow> cstr" where
  "ui_term_linenoise_get_line t = c_string (edit_buf (main_line t))"

definition ui_term_linenoise_get_len :: "ui_lines \<Rightarrow> nat" where
  "ui_term_linenoise_get_len t = edit_len (main_line t)"

definition ui_term_linenoise_clear_history :: "ui_lines \<Rightarrow> ui_lines" where
  "ui_term_linenoise_clear_history t = t\<lparr>line_history := linenoiseHistoryClear (line_history t)\<rparr>"

definition ui_term_linenoise_inject_string :: "cstr \<Rightarrow> ui_lines \<Rightarrow> (bool \<times> ui_lines) option" where
  "ui_term_linenoise_inject_string str t =
     (let t = (if ln_initialized t then t else ui_term_linenoise_init 80 t);
          slen = (if BP_LINENOISE_MAX_LINE < length str then BP_LINENOISE_MAX_LINE else length str)
      in do {
        b \<leftarrow> put_bytes 0 (take slen str) (edit_buf (main_line t));
        b \<leftarrow> set_byte slen 0 b;
        let l = (main_line t)\<lparr>edit_buf := b, edit_len := slen, edit_pos := slen\<rparr>;
        Some (slen = length str, read_line l (t\<lparr>main_line := l\<rparr>)) })"

subsection \<open>The prompts\<close>

definition ui_prompt_linenoise_init :: "nat \<Rightarrow> ui_lines \<Rightarrow> ui_lines" where
  "ui_prompt_linenoise_init columns t =
     (if ln_prompt_initialized t then t
      else t\<lparr>prompt_line := linenoiseSetSimpleMode True (linenoiseSetCallbacks columns), ln_prompt_initialized := True\<rparr>)"

text \<open>No prompt is the empty one. \<open>columns\<close> is \<open>system_config.terminal_ansi_columns\<close>.\<close>

definition ui_prompt_linenoise_start :: "nat \<Rightarrow> cstr option \<Rightarrow> ui_lines \<Rightarrow> ui_lines option" where
  "ui_prompt_linenoise_start columns text t =
     (let t = ui_prompt_linenoise_init columns t
      in map_option (\<lambda>e. set_prompt e t) (linenoiseStartEdit (case text of None \<Rightarrow> [] | Some s \<Rightarrow> s) (prompt_editor t)))"

definition prompt_stop :: "ui_lines \<Rightarrow> ui_lines option" where
  "prompt_stop t = map_option (\<lambda>e. set_prompt e t) (linenoiseEditStop (prompt_editor t))"

definition prompt_entered :: "ui_lines \<Rightarrow> ui_lines option" where
  "prompt_entered t = map_option (\<lambda>t. read_line (prompt_line t) t) (prompt_stop t)"

definition ui_prompt_linenoise_feed :: "ln_callbacks \<Rightarrow> ui_lines \<Rightarrow> nat lines_result" where
  "ui_prompt_linenoise_feed cb t =
     (case linenoiseEditFeedResult cb (prompt_editor t) of
        Waits \<Rightarrow> Lines_Wait
      | Faults \<Rightarrow> Lines_Fault
      | Gives r e \<Rightarrow>
          let t = set_prompt e t in
          (case r of
             LN_CONTINUE \<Rightarrow> Lines 0 t
           | LN_ENTER \<Rightarrow> lines_opt 0xff (prompt_entered t)
           | LN_CTRL_C \<Rightarrow> lines_opt 0xfe (prompt_stop t)
           | LN_CTRL_D \<Rightarrow> lines_opt 0xfe (prompt_stop t)
           | LN_REFRESH \<Rightarrow> Lines 1 t
           | LN_TAB_EMPTY \<Rightarrow> Lines 1 t))"

text \<open>
  The blocking loop. Its turns are numbered: \<open>error n\<close> is \<open>system_config.error\<close> as the turn \<open>n\<close> finds it, set by
  the other core or an interrupt. A loop that goes on for ever is \<open>None\<close>.
\<close>

partial_function (option) prompt_loop :: "ln_callbacks \<Rightarrow> (nat \<Rightarrow> bool) \<Rightarrow> nat \<Rightarrow> ui_lines \<Rightarrow> bool lines_result option" where
  "prompt_loop cb error n t =
     (if error n then Some (lines_opt False (prompt_stop t))
      else case linenoiseEditFeedResult cb (prompt_editor t) of
        Waits \<Rightarrow> Some Lines_Wait
      | Faults \<Rightarrow> Some Lines_Fault
      | Gives r e \<Rightarrow>
          (if r = LN_ENTER then Some (lines_opt True (prompt_entered (set_prompt e t)))
           else if r = LN_CTRL_C \<or> r = LN_CTRL_D then Some (lines_opt False (prompt_stop (set_prompt e t)))
           else prompt_loop cb error (Suc n) (set_prompt e t)))"

definition ui_prompt_linenoise_input :: "ln_callbacks \<Rightarrow> (nat \<Rightarrow> bool) \<Rightarrow> nat \<Rightarrow> cstr option \<Rightarrow> ui_lines \<Rightarrow> bool lines_result option" where
  "ui_prompt_linenoise_input cb error columns text t =
     (case ui_prompt_linenoise_start columns text t of
        None \<Rightarrow> Some Lines_Fault
      | Some t \<Rightarrow> prompt_loop cb error 0 t)"

subsection \<open>A command line\<close>

lemma main_editor_set [simp]: "main_editor (set_main e t) = e\<lparr>ed_output := []\<rparr>"
  by (simp add: main_editor_def set_main_def editor_of_def editor_done_def)

lemma prompt_editor_set [simp]: "prompt_editor (set_prompt e t) = e\<lparr>ed_output := []\<rparr>"
  by (simp add: prompt_editor_def set_prompt_def editor_of_def editor_done_def)

lemma set_fields [simp]:
  "main_line (set_main e t) = ed_line e" "line_history (set_main e t) = ed_history e" "rx_bytes (set_main e t) = ed_input e"
  "prompt_line (set_prompt e t) = ed_line e" "line_history (set_prompt e t) = ed_history e" "rx_bytes (set_prompt e t) = ed_input e"
  "prompt_line (set_main e t) = prompt_line t" "main_line (set_prompt e t) = main_line t"
  "ln_initialized (set_main e t) = ln_initialized t" "ln_prompt_initialized (set_prompt e t) = ln_prompt_initialized t"
  by (simp_all add: set_main_def set_prompt_def editor_done_def)

lemma editor_fields [simp]:
  "ed_line (main_editor t) = main_line t" "ed_history (main_editor t) = line_history t" "ed_input (main_editor t) = rx_bytes t"
  "ed_line (prompt_editor t) = prompt_line t" "ed_history (prompt_editor t) = line_history t" "ed_input (prompt_editor t) = rx_bytes t"
  by (simp_all add: main_editor_def prompt_editor_def editor_of_def)

lemma editing_output [simp]: "editing cb (e\<lparr>ed_output := out\<rparr>) t inp = editing cb e t inp"
  by (simp add: editing_def)

text \<open>The calls that the main loop makes, until one returns something else than 0.\<close>

fun line_feeds :: "nat \<Rightarrow> ln_callbacks \<Rightarrow> ui_lines \<Rightarrow> nat lines_result" where
  "line_feeds 0 cb t = Lines 0 t"
| "line_feeds (Suc n) cb t =
     (case ui_term_linenoise_feed cb t of
        Lines c t' \<Rightarrow> if c = 0 then line_feeds n cb t' else Lines c t'
      | r \<Rightarrow> r)"

lemma line_feeds_add: "line_feeds m cb t = Lines 0 t' \<Longrightarrow> line_feeds (m + n) cb t = line_feeds n cb t'"
  by (induction m arbitrary: t) (auto split: lines_result.splits if_splits)

lemma main_key_step:
  assumes "editing cb (main_editor t) tb (inp @ rest)" "key_input k inp"
  shows "\<exists>t'. ui_term_linenoise_feed cb t = Lines 0 t' \<and> editing cb (main_editor t') (edit_text k tb) rest \<and>
    line_history t' = line_history t \<and> ln_initialized t' = ln_initialized t \<and> cols (main_line t') = cols (main_line t)"
proof -
  obtain e1 where e1: "linenoiseEditFeedResult cb (main_editor t) = Gives LN_CONTINUE e1" "editing cb e1 (edit_text k tb) rest"
    "ed_history e1 = line_history t" "cols (ed_line e1) = cols (main_line t)"
    using key_step [OF assms] by auto
  then show ?thesis
    by (intro exI [of _ "set_main e1 t"]) (simp add: ui_term_linenoise_feed_def)
qed

lemma main_keys_typed:
  assumes "list_all2 key_input ks inps" "editing cb (main_editor t) tb (concat inps @ rest)"
  shows "\<exists>t'. line_feeds (length ks) cb t = Lines 0 t' \<and> editing cb (main_editor t') (fold edit_text ks tb) rest \<and>
    line_history t' = line_history t \<and> ln_initialized t' = ln_initialized t \<and> cols (main_line t') = cols (main_line t)"
  using assms
proof (induction ks inps arbitrary: t tb rule: list_all2_induct)
  case (Cons k ks inp inps)
  obtain t1 where t1: "ui_term_linenoise_feed cb t = Lines 0 t1" "editing cb (main_editor t1) (edit_text k tb) (concat inps @ rest)"
    "line_history t1 = line_history t" "ln_initialized t1 = ln_initialized t" "cols (main_line t1) = cols (main_line t)"
    using main_key_step [OF _ Cons.hyps(1), of cb t tb "concat inps @ rest"] Cons.prems by auto
  show ?case
    using Cons.IH [OF t1(2)] t1(1,3-5) by auto
qed simp

lemma stop_line:
  assumes "line_text hs (ed_line e) tb"
  shows "\<exists>e'. linenoiseEditStop e = Some e' \<and> c_string (edit_buf (ed_line e')) = text_bytes tb \<and>
    edit_len (ed_line e') = length (text_bytes tb) \<and> idle_line (ed_line e') \<and> \<not> simple_mode (ed_line e') \<and>
    cols (ed_line e') = cols (ed_line e) \<and> ed_history e' = ed_history e \<and> ed_input e' = ed_input e"
proof -
  obtain bs as where tb: "tb = (bs, as)"
    by (cases tb)
  have l: "line_text hs (ed_line e) (bs, as)"
    using assms by (simp only: tb)
  obtain post where b: "edit_buf (ed_line e) = concat bs @ concat as @ 0 # post"
    "edit_len (ed_line e) = length (concat bs) + length (concat as)"
    by (rule line_textE [OF l])
  have "set_byte (edit_len (ed_line e)) 0 (edit_buf (ed_line e)) = Some (edit_buf (ed_line e))"
    using set_zero [of "edit_len (ed_line e)" "concat bs @ concat as" "0 # post"] by (simp add: b)
  then show ?thesis
    using text_in_buffer [OF assms] text_idle [OF assms]
    by (simp add: linenoiseEditStop_def ed_write_def idle_line_def line_buffer_def)
qed

text \<open>The terminal between two lines, with the lines of the history.\<close>

definition lines_idle :: "ui_lines \<Rightarrow> cstr list \<Rightarrow> bool" where
  "lines_idle t ss \<longleftrightarrow> ln_initialized t \<and> idle_line (main_line t) \<and> \<not> simple_mode (main_line t) \<and> history_holds (line_history t) ss"

lemma main_line_entered:
  assumes "editing cb (main_editor t) tb (13 # rest)" "history_holds (line_history t) (old @ [cur])" "ln_initialized t"
  shows "\<exists>t'. ui_term_linenoise_feed cb t = Lines 0xff t' \<and>
    cmdln t' = ln_cmdln_init (text_bytes tb) (length (text_bytes tb)) \<and> rx_bytes t' = rest \<and>
    lines_idle t' (if text_bytes tb = [] then old else history_add (text_bytes tb) old) \<and> cols (main_line t') = cols (main_line t)"
proof -
  obtain h where h: "history_drop (line_history t) = Some h" "history_holds h old"
    using ring.takes_away [OF assms(2)] by auto
  obtain e1 where e1: "linenoiseEditFeedResult cb (main_editor t) = Gives LN_ENTER e1" "line_text None (ed_line e1) tb"
    "ed_history e1 = h" "ed_input e1 = rest" "cols (ed_line e1) = cols (main_line t)"
    using enter_fed [OF assms(1), of h] h(1) by auto
  obtain e2 where e2: "linenoiseEditStop (e1\<lparr>ed_output := []\<rparr>) = Some e2" "c_string (edit_buf (ed_line e2)) = text_bytes tb"
    "edit_len (ed_line e2) = length (text_bytes tb)" "idle_line (ed_line e2)" "\<not> simple_mode (ed_line e2)"
    "cols (ed_line e2) = cols (main_line t)" "ed_history e2 = h" "ed_input e2 = rest"
    using stop_line [of None "e1\<lparr>ed_output := []\<rparr>" tb] e1 by auto
  have stop: "main_stop (set_main e1 t) = Some (set_main e2 (set_main e1 t))"
    by (simp add: main_stop_def e2(1))
  obtain r h' where add: "linenoiseHistoryAdd (text_bytes tb) h = Some (r, h')" "history_holds h' (history_add (text_bytes tb) old)"
    using add_holds [OF h(2)] text_in_buffer(3) [OF e1(2)] unfolding line_ok_def by metis
  show ?thesis
    using e1(1) e2 stop add h(2) assms(3)
    by (simp add: ui_term_linenoise_feed_def main_entered_def read_line_def lines_opt_def Let_def lines_idle_def)
qed

lemma main_starts:
  assumes "lines_idle t ss" "prompt_fits text (cols (main_line t))" "hints_plain (cb_hints cb)"
  shows "\<exists>t' old. ui_term_linenoise_start text t = Some t' \<and> editing cb (main_editor t') ([], []) (rx_bytes t) \<and>
    history_holds (line_history t') (old @ [[]]) \<and> history_add [] ss = old @ [[]] \<and> ln_initialized t' \<and>
    cols (main_line t') = cols (main_line t)"
proof -
  have t: "ln_initialized t" "idle_line (ed_line (main_editor t))" "\<not> simple_mode (ed_line (main_editor t))"
    "history_holds (ed_history (main_editor t)) ss" "prompt_fits text (cols (ed_line (main_editor t)))"
    using assms(1,2) by (simp_all add: lines_idle_def)
  have "cols (ed_line e') = cols (main_line t)" if "linenoiseStartEdit text (main_editor t) = Some e'" for e'
    using started [OF _ t(4), of "text"] that t(2) by (auto simp: idle_line_def)
  then show ?thesis
    using starts_editing [OF t(2-5) assms(3)] t(1) by (auto simp: ui_term_linenoise_start_def)
qed

lemma command_line_steps:
  assumes "lines_idle t ss" "prompt_fits text (cols (main_line t))" "hints_plain (cb_hints cb)"
    and "list_all2 key_input ks inps" "rx_bytes t = concat inps @ 13 # rest" "line = text_bytes (fold edit_text ks ([], []))"
  shows "\<exists>t0 t' old. ui_term_linenoise_start text t = Some t0 \<and> line_feeds (length ks + 1) cb t0 = Lines 0xff t' \<and>
    cmdln t' = ln_cmdln_init line (length line) \<and> rx_bytes t' = rest \<and> history_add [] ss = old @ [[]] \<and>
    lines_idle t' (if line = [] then old else history_add line old) \<and> prompt_fits text (cols (main_line t'))"
proof -
  obtain t0 old where t0: "ui_term_linenoise_start text t = Some t0" "editing cb (main_editor t0) ([], []) (concat inps @ 13 # rest)"
    "history_holds (line_history t0) (old @ [[]])" "history_add [] ss = old @ [[]]" "ln_initialized t0" "cols (main_line t0) = cols (main_line t)"
    using main_starts [OF assms(1-3)] assms(5) by auto
  obtain t1 where t1: "line_feeds (length ks) cb t0 = Lines 0 t1" "editing cb (main_editor t1) (fold edit_text ks ([], [])) (13 # rest)"
    "line_history t1 = line_history t0" "ln_initialized t1" "cols (main_line t1) = cols (main_line t)"
    using main_keys_typed [OF assms(4) t0(2)] t0(5,6) by auto
  obtain t' where "ui_term_linenoise_feed cb t1 = Lines 0xff t'" "cmdln t' = ln_cmdln_init line (length line)" "rx_bytes t' = rest"
    "lines_idle t' (if line = [] then old else history_add line old)" "cols (main_line t') = cols (main_line t)"
    using main_line_entered [OF t1(2) _ t1(4), of old "[]"] t0(3) t1(3,5) assms(6) by auto
  then show ?thesis
    using t0(1,4) line_feeds_add [OF t1(1), of 1] assms(2) by auto
qed

subsection \<open>A prompt\<close>

text \<open>What is typed at a prompt: a character, or the key that takes a byte back.\<close>

datatype prompt_key = Put "u8 list" | Erase

fun prompt_key_input :: "prompt_key \<Rightarrow> u8 list \<Rightarrow> bool" where
  "prompt_key_input (Put c) inp \<longleftrightarrow> inp = c \<and> c \<noteq> [] \<and> length c = utf8ByteLen (hd c) \<and> hd c \<notin> control_keys \<and> 0 \<notin> set c"
| "prompt_key_input Erase inp \<longleftrightarrow> inp = [127] \<or> inp = [8]"

fun prompt_edit :: "prompt_key \<Rightarrow> u8 list \<Rightarrow> u8 list" where
  "prompt_edit (Put c) line = (if length line + length c \<le> BP_LINENOISE_MAX_LINE then line @ c else line)"
| "prompt_edit Erase line = butlast line"

definition prompting :: "ln_editor \<Rightarrow> u8 list \<Rightarrow> u8 list \<Rightarrow> bool" where
  "prompting e line inp \<longleftrightarrow> simple_ok (ed_line e) \<and> simple_line (ed_line e) = line \<and> 0 \<notin> set line \<and> ed_input e = inp"

lemma simple_feed_plain:
  assumes "simple_mode (ed_line e)" "ed_input e = c # inp"
  shows "linenoiseEditFeed cb e = feed_key (cb_hints cb) c (e\<lparr>ed_input := inp\<rparr>)"
  using assms by (simp add: linenoiseEditFeed_def Let_def split: option.split)

lemma on_line_simple:
  assumes "simple_step (ed_line e) {line} (f (ed_line e))" "0 \<notin> set line"
  shows "\<exists>e'. on_line f e = Some e' \<and> prompting e' line (ed_input e) \<and> ed_history e' = ed_history e"
  using assms by (auto simp: simple_step_def on_line_def ed_write_def prompting_def)

lemma simple_insert_exact:
  assumes "simple_ok l"
  shows "simple_step l {prompt_edit (Put c) (simple_line l)} (linenoiseEditInsert hs c l)"
proof -
  obtain line post where l: "edit_buf l = line @ 0 # post" "edit_pos l = length line" "edit_len l = length line" "simple_line l = line"
    "length line + length post = 256" "buflen l = 256" "simple_mode l"
    by (rule simple_okE [OF assms])
  obtain l' out where l': "linenoiseEditInsert hs c l = Some (l', out)" "simple_ok l'" "simple_line l' \<in> {line, line @ c}"
    using simple_insert [OF assms, of c hs] l(4) by (auto simp: simple_step_def)
  have "edit_len l' = length line + (if length line + length c \<le> 256 then length c else 0)"
    using l'(1) l by (auto simp: linenoiseEditInsert_def Option.bind_eq_Some_conv split: if_splits)
  moreover have "length (simple_line l') = edit_len l'"
    using l'(2) by (auto simp: simple_ok_def simple_line_def)
  ultimately have "simple_line l' = prompt_edit (Put c) line"
    using l'(3) by (auto split: if_splits)
  then show ?thesis
    using l'(1,2) l(4) by (simp add: simple_step_def)
qed

lemma prompt_key_step:
  assumes "prompt_key_input k inp" "prompting e line (inp @ rest)"
  shows "\<exists>e'. linenoiseEditFeedResult cb e = Gives LN_CONTINUE e' \<and> prompting e' (prompt_edit k line) rest \<and> ed_history e' = ed_history e"
proof -
  have e: "simple_ok (ed_line e)" "simple_mode (ed_line e)" "simple_line (ed_line e) = line" "0 \<notin> set line" "ed_input e = inp @ rest"
    using assms(2) by (auto simp: prompting_def simple_ok_def)
  have "\<exists>f. linenoiseEditFeed cb e = fed_more (on_line f (e\<lparr>ed_input := rest\<rparr>)) \<and> simple_step (ed_line e) {prompt_edit k line} (f (ed_line e))"
  proof (cases k)
    case (Put c)
    then obtain b bs where c: "inp = b # bs" "c = b # bs" "utf8ByteLen b = Suc (length bs)" "b \<notin> control_keys"
      using assms(1) by (cases c) auto
    then have "linenoiseEditFeed cb e = fed_more (on_line (linenoiseEditInsert (cb_hints cb) c) (e\<lparr>ed_input := rest\<rparr>))"
      using simple_feed_plain [OF e(2), of b "bs @ rest" cb] e(5) by (simp add: feed_key_def key_char_def Let_def control_keys_def)
    then show ?thesis
      using simple_insert_exact [OF e(1), of c "cb_hints cb"] e(3) Put by blast
  next
    case Erase
    then have "linenoiseEditFeed cb e = fed_more (on_line simple_backspace (e\<lparr>ed_input := rest\<rparr>))"
      using simple_feed_plain [OF e(2), of _ rest cb] e(2,5) assms(1) by (auto simp: feed_key_def)
    then show ?thesis
      using simple_backspaced [OF e(1)] e(3) Erase by auto
  qed
  then obtain f where f: "linenoiseEditFeed cb e = fed_more (on_line f (e\<lparr>ed_input := rest\<rparr>))"
    "simple_step (ed_line (e\<lparr>ed_input := rest\<rparr>)) {prompt_edit k line} (f (ed_line (e\<lparr>ed_input := rest\<rparr>)))"
    by auto
  have "0 \<notin> set (prompt_edit k line)"
    using assms(1) e(4) by (cases k) (auto dest: in_set_butlastD)
  from on_line_simple [of "e\<lparr>ed_input := rest\<rparr>" "prompt_edit k line" f, OF f(2) this] show ?thesis
    using f(1) by (auto simp: linenoiseEditFeedResult_def fed_more_def)
qed

lemma prompting_output [simp]: "prompting (e\<lparr>ed_output := out\<rparr>) line inp = prompting e line inp"
  by (simp add: prompting_def)

lemma prompt_entered_fed:
  assumes "prompting e line (13 # rest)" "history_drop (ed_history e) = Some h"
  shows "\<exists>e'. linenoiseEditFeedResult cb e = Gives LN_ENTER e' \<and> prompting e' line rest \<and> ed_history e' = h"
proof -
  have e: "simple_mode (ed_line e)" "ed_input e = 13 # rest"
    using assms(1) by (simp_all add: prompting_def simple_ok_def)
  have "linenoiseEditFeed cb e = key_enter (cb_hints cb) (e\<lparr>ed_input := rest\<rparr>)"
    using simple_feed_plain [OF e, of cb] by (simp add: feed_key_def)
  then show ?thesis
    using assms e(1)
    by (cases "cb_hints cb")
      (auto simp: linenoiseEditFeedResult_def key_enter_def Let_def on_line_def refreshLine_def ed_write_def prompting_def)
qed

lemma stop_prompt:
  assumes "prompting e line inp"
  shows "\<exists>e'. linenoiseEditStop e = Some e' \<and> prompting e' line inp \<and> c_string (edit_buf (ed_line e')) = line \<and>
    edit_len (ed_line e') = length line \<and> ed_history e' = ed_history e"
proof -
  have ok: "simple_ok (ed_line e)"
    using assms by (simp add: prompting_def)
  obtain post where l: "edit_buf (ed_line e) = line @ 0 # post" "edit_len (ed_line e) = length line"
    using assms by (metis ok prompting_def simple_okE)
  have "c_string (line @ 0 # post) = line"
    unfolding c_string_def using assms by (subst takeWhile_append2) (auto simp: prompting_def)
  then show ?thesis
    using assms l set_zero [of _ line "0 # post"] by (simp add: linenoiseEditStop_def ed_write_def prompting_def simple_ok_def simple_line_def)
qed

text \<open>The prompts between two questions.\<close>

definition prompts_idle :: "ui_lines \<Rightarrow> cstr list \<Rightarrow> bool" where
  "prompts_idle t ss \<longleftrightarrow> (ln_prompt_initialized t \<longrightarrow> simple_mode (prompt_line t) \<and> line_buffer (prompt_line t)) \<and>
     history_holds (line_history t) ss"

lemma prompting_idle: "prompting e line inp \<Longrightarrow> simple_mode (ed_line e) \<and> line_buffer (ed_line e)"
  by (simp add: prompting_def simple_ok_def line_buffer_def)

lemma prompt_loop_enters:
  assumes "list_all2 prompt_key_input ks inps" "prompting (prompt_editor t) line (concat inps @ 13 # rest)"
    and "history_holds (line_history t) (old @ [cur])" "\<forall>m \<le> n + length ks. \<not> error m"
  shows "\<exists>t'. prompt_loop cb error n t = Some (Lines True t') \<and>
    cmdln t' = ln_cmdln_init (fold prompt_edit ks line) (length (fold prompt_edit ks line)) \<and>
    prompting (prompt_editor t') (fold prompt_edit ks line) rest \<and> history_holds (line_history t') old \<and>
    ln_prompt_initialized t' = ln_prompt_initialized t"
  using assms
proof (induction ks inps arbitrary: t line n rule: list_all2_induct)
  case Nil
  obtain h where h: "history_drop (line_history t) = Some h" "history_holds h old"
    using ring.takes_away [OF Nil(2)] by auto
  obtain e1 where e1: "linenoiseEditFeedResult cb (prompt_editor t) = Gives LN_ENTER e1" "prompting e1 line rest" "ed_history e1 = h"
    using prompt_entered_fed [of "prompt_editor t" line rest h cb] Nil(1) h(1) by auto
  obtain e2 where e2: "linenoiseEditStop (e1\<lparr>ed_output := []\<rparr>) = Some e2" "prompting e2 line rest"
    "c_string (edit_buf (ed_line e2)) = line" "edit_len (ed_line e2) = length line" "ed_history e2 = h"
    using stop_prompt [of "e1\<lparr>ed_output := []\<rparr>" line rest] e1(2,3) by auto
  have "prompt_entered (set_prompt e1 t) = Some (read_line (ed_line e2) (set_prompt e2 (set_prompt e1 t)))"
    by (simp add: prompt_entered_def prompt_stop_def e2(1))
  then show ?case
    using e1(1) e2 h(2) Nil(3)
    by (subst prompt_loop.simps) (simp add: lines_opt_def read_line_def prompt_editor_def editor_of_def prompting_def)
next
  case (Cons k ks inp inps)
  obtain e1 where e1: "linenoiseEditFeedResult cb (prompt_editor t) = Gives LN_CONTINUE e1"
    "prompting e1 (prompt_edit k line) (concat inps @ 13 # rest)" "ed_history e1 = line_history t"
    using prompt_key_step [OF Cons.hyps(1), of "prompt_editor t" line "concat inps @ 13 # rest"] Cons.prems(1) by auto
  have "\<forall>m \<le> Suc n + length ks. \<not> error m" "\<not> error n"
    using Cons.prems(3) by auto
  then show ?case
    using Cons.IH [of "set_prompt e1 t" "prompt_edit k line" "Suc n"] e1 Cons.prems(2)
    by (subst prompt_loop.simps) simp
qed

lemma prompt_initialized:
  assumes "prompts_idle t ss"
  shows "prompts_idle (ui_prompt_linenoise_init columns t) ss \<and> ln_prompt_initialized (ui_prompt_linenoise_init columns t) \<and>
    rx_bytes (ui_prompt_linenoise_init columns t) = rx_bytes t"
  using assms
  by (simp add: prompts_idle_def ui_prompt_linenoise_init_def linenoiseSetSimpleMode_def linenoiseSetCallbacks_def line_buffer_def)

lemma prompt_starts:
  assumes "prompts_idle t ss"
  shows "\<exists>t' old. ui_prompt_linenoise_start columns text t = Some t' \<and> prompting (prompt_editor t') [] (rx_bytes t) \<and>
    history_holds (line_history t') (old @ [[]]) \<and> history_add [] ss = old @ [[]] \<and> ln_prompt_initialized t'"
proof -
  let ?t = "ui_prompt_linenoise_init columns t" and ?text = "case text of None \<Rightarrow> [] | Some s \<Rightarrow> s"
  have t: "line_buffer (ed_line (prompt_editor ?t))" "history_holds (ed_history (prompt_editor ?t)) ss" "simple_mode (prompt_line ?t)"
    "rx_bytes ?t = rx_bytes t" "ln_prompt_initialized ?t"
    using prompt_initialized [OF assms, of columns] by (simp_all add: prompts_idle_def)
  show ?thesis
    using started [OF t(1,2), of ?text] t(3-5)
    by (fastforce simp: ui_prompt_linenoise_start_def Let_def prompting_def simple_ok_def simple_line_def line_buffer_def)
qed

lemma prompt_input_steps:
  assumes "prompts_idle t ss" "list_all2 prompt_key_input ks inps" "rx_bytes t = concat inps @ 13 # rest"
    and "\<forall>m \<le> length ks. \<not> error m" "line = fold prompt_edit ks []"
  shows "\<exists>t' old. ui_prompt_linenoise_input cb error columns text t = Some (Lines True t') \<and> cmdln t' = ln_cmdln_init line (length line) \<and>
    rx_bytes t' = rest \<and> history_add [] ss = old @ [[]] \<and> prompts_idle t' old"
proof -
  obtain t0 old where t0: "ui_prompt_linenoise_start columns text t = Some t0" "prompting (prompt_editor t0) [] (concat inps @ 13 # rest)"
    "history_holds (line_history t0) (old @ [[]])" "history_add [] ss = old @ [[]]" "ln_prompt_initialized t0"
    using prompt_starts [OF assms(1)] assms(3) by metis
  obtain t' where t': "prompt_loop cb error 0 t0 = Some (Lines True t')" "cmdln t' = ln_cmdln_init line (length line)"
    "prompting (prompt_editor t') line rest" "history_holds (line_history t') old"
    using prompt_loop_enters [OF assms(2) t0(2,3), of 0 error cb] assms(4,5) by auto
  have "prompts_idle t' old" "rx_bytes t' = rest"
    using t'(3,4) prompting_idle [OF t'(3)] by (simp_all add: prompts_idle_def prompting_def)
  then show ?thesis
    using t0(1,4) t'(1,2) by (auto simp: ui_prompt_linenoise_input_def)
qed

subsection \<open>Injection\<close>

lemma inject_steps:
  assumes "line_buffer (main_line t)" "ln_initialized t" "0 \<notin> set str"
  shows "\<exists>t'. ui_term_linenoise_inject_string str t = Some (length str \<le> 256, t') \<and>
    cmdln t' = ln_cmdln_init (take 256 str) (length (take 256 str)) \<and> line_buffer (main_line t') \<and> line_history t' = line_history t \<and>
    rx_bytes t' = rx_bytes t \<and> screen t' = screen t"
proof -
  define s where "s = take 256 str"
  have l: "length (edit_buf (main_line t)) = 257" "buflen (main_line t) = 256" "length s \<le> 256"
    using assms(1) by (simp_all add: line_buffer_def s_def)
  have n: "(if 256 < length str then 256 else length str) = length s" "take (length s) str = s"
    by (auto simp: s_def min_def)
  have "set_byte (length s) 0 (s @ drop (length s) (edit_buf (main_line t))) =
      Some (s @ 0 # tl (drop (length s) (edit_buf (main_line t))))"
    using l by (intro set_zero) auto
  moreover have "c_string (s @ 0 # r) = s" for r
    unfolding c_string_def using assms(3) by (subst takeWhile_append2) (auto simp: s_def dest: in_set_takeD)
  moreover have "length s = length str \<longleftrightarrow> length str \<le> 256"
    by (auto simp: s_def)
  ultimately show ?thesis
    using assms(2) l n unfolding s_def [symmetric]
    by (simp add: ui_term_linenoise_inject_string_def Let_def put_bytes_def read_line_def line_buffer_def)
qed

subsection \<open>Properties\<close>

text \<open>C21: A command line, from the prompt to the reader: the keys of a line and Enter come in, the prompt is started and the main loop calls the
  editor once for each key. All calls return 0, the last one 0xff; then the reader of the command processor stands at the start of
  exactly the text that the keys build, and the history has the line unless it is empty or repeats the line before. The terminal
  is ready for the next prompt.
\<close>

theorem command_line_entered:
  assumes "lines_idle t ss" "prompt_fits text (cols (main_line t))" "hints_plain (cb_hints cb)"
    and "list_all2 key_input ks inps" "rx_bytes t = concat inps @ 13 # rest" "line = text_bytes (fold edit_text ks ([], []))"
  shows "\<exists>t0 t' old. ui_term_linenoise_start text t = Some t0 \<and> line_feeds (length ks + 1) cb t0 = Lines 0xff t' \<and>
    cmdln t' = ln_cmdln_init line (length line) \<and> rx_bytes t' = rest \<and> history_add [] ss = old @ [[]] \<and>
    lines_idle t' (if line = [] then old else history_add line old) \<and> prompt_fits text (cols (main_line t'))"
  by (rule command_line_steps [OF assms])

definition demo_lines :: "u8 list \<Rightarrow> ui_lines" where
  "demo_lines inp = ui_term_linenoise_init 80 \<lparr>main_line = linenoiseSetCallbacks 0, ln_initialized = False, prompt_line = linenoiseSetCallbacks 0,
     ln_prompt_initialized = False, line_history = history_init, rx_bytes = inp, screen = [], cmdln = ln_cmdln_init [] 0\<rparr>"

lemma demo_lines_idle: "lines_idle (demo_lines inp) []" "prompts_idle (demo_lines inp) []" "rx_bytes (demo_lines inp) = inp"
    "prompt_fits [62, 32] (cols (main_line (demo_lines inp)))"
proof -
  show "lines_idle (demo_lines inp) []" "prompts_idle (demo_lines inp) []" "rx_bytes (demo_lines inp) = inp"
    using idle_init [of 80] history_init_holds
    by (simp_all add: lines_idle_def prompts_idle_def demo_lines_def ui_term_linenoise_init_def linenoiseSetCallbacks_def)
  have "utf8StrWidth ([62, 32] @ [0]) 0 (length [62, 32 :: u8]) = Some 2"
    by code_simp
  then show "prompt_fits [62, 32] (cols (main_line (demo_lines inp)))"
    unfolding prompt_fits_def
    by (intro exI [of _ 2] conjI) (simp_all add: demo_lines_def ui_term_linenoise_init_def linenoiseSetCallbacks_def)
qed

text \<open>The keys v, backspace and i.\<close>

theorem command_line_entered_witness:
  "\<exists>t0 t'. ui_term_linenoise_start [62, 32] (demo_lines [0x76, 8, 0x69, 13]) = Some t0 \<and>
     line_feeds 4 no_callbacks t0 = Lines 0xff t' \<and> cmdln t' = ln_cmdln_init [0x69] 1"
proof -
  let ?ks = "[Typed [0x76], Delete_left, Typed [0x69]]" and ?inps = "[[0x76], [8], [0x69]] :: u8 list list"
  have plain: "plain_char [0x76]" "plain_char [0x69]"
    by code_simp+
  then have keys: "list_all2 key_input ?ks ?inps"
    by (simp add: control_keys_def)
  have inp: "rx_bytes (demo_lines [0x76, 8, 0x69, 13]) = concat ?inps @ 13 # []"
    by (simp add: demo_lines_idle(3))
  have line: "[0x69] = text_bytes (fold edit_text ?ks ([], []))"
    by code_simp
  have n: "length ?ks + 1 = 4" "length [0x69 :: u8] = 1"
    by simp_all
  have "hints_plain (cb_hints no_callbacks)"
    by (simp add: hints_plain_def)
  from command_line_entered [OF demo_lines_idle(1,4) this keys inp line] show ?thesis
    unfolding n by blast
qed

text \<open>A question at a prompt is answered: whatever is typed at the prompt and taken back again, the call returns true at Enter, when
  no error stops it before, with the reader at the start of the bytes that are left, and the history as before.
\<close>

theorem prompt_line_entered:
  assumes "prompts_idle t ss" "list_all2 prompt_key_input ks inps" "rx_bytes t = concat inps @ 13 # rest"
    and "\<forall>m \<le> length ks. \<not> error m" "line = fold prompt_edit ks []"
  shows "\<exists>t' old. ui_prompt_linenoise_input cb error columns text t = Some (Lines True t') \<and> cmdln t' = ln_cmdln_init line (length line) \<and>
    rx_bytes t' = rest \<and> history_add [] ss = old @ [[]] \<and> prompts_idle t' old"
  by (rule prompt_input_steps [OF assms])

theorem prompt_line_entered_witness:
  "\<exists>t'. ui_prompt_linenoise_input no_callbacks (\<lambda>n. False) 80 None (demo_lines [0x35, 127, 0x37, 13]) = Some (Lines True t') \<and>
     cmdln t' = ln_cmdln_init [0x37] 1"
proof -
  let ?ks = "[Put [0x35], Erase, Put [0x37]]" and ?inps = "[[0x35], [127], [0x37]] :: u8 list list"
  have one: "utf8ByteLen 0x35 = 1" "utf8ByteLen 0x37 = 1"
    by code_simp+
  then have keys: "list_all2 prompt_key_input ?ks ?inps"
    by (simp add: control_keys_def)
  have line: "[0x37] = fold prompt_edit ?ks []"
    by code_simp
  have "rx_bytes (demo_lines [0x35, 127, 0x37, 13]) = concat ?inps @ 13 # []"
    by (simp add: demo_lines_idle(3))
  from prompt_line_entered [OF demo_lines_idle(2) keys this _ line, of "\<lambda>n. False" no_callbacks 80 None] show ?thesis
    by auto
qed

end
