(* ===== verification/Ui_Prompt.thy ===== *)
theory Ui_Prompt
  imports Ui_Line Ui_Parse
begin

text \<open>
  The prompts of the menus, \<^verbatim>\<open>src/ui/ui_prompt.c\<close>: ordered lists, numbers in a range, the question for the terminal
  mode, and the wait for a key. A menu has functions that print it, print its prompt and check a value; they are
  fields, as in the code, and the prompts of the code are among them. The printers print only. A loop that never
  ends is \<open>None\<close>. \<open>ui_prompt_float_units\<close> is not modelled (single precision arithmetic).
\<close>

subsection \<open>Menus\<close>

record ui_menu =
  um_description :: string
  um_menu_items :: "string list"
  um_prompt_text :: string
  um_minval :: u32
  um_maxval :: u32
  um_defval :: u32
  um_allow_prompt_text :: bool
  um_allow_prompt_defval :: bool
  um_allow_defval :: bool
  um_allow_exit :: bool

record ui_prompt = ui_menu +
  um_menu_print :: "ui_menu \<Rightarrow> bool \<times> term_event list"
  um_menu_prompt :: "ui_menu \<Rightarrow> bool \<times> term_event list"
  um_menu_validate :: "ui_menu \<Rightarrow> u32 \<Rightarrow> bool"

definition show_events :: "term_event list \<Rightarrow> ui_lines \<Rightarrow> ui_lines" where
  "show_events es t = t\<lparr>screen := screen t @ es\<rparr>"

definition ui_prompt_invalid_option :: "ui_lines \<Rightarrow> ui_lines" where
  "ui_prompt_invalid_option = show_events [TChar 7, TText crlf, TColor Col_error, TText ''Error:'', TColor Col_reset,
     TText '' '', TMsg ''T_MODE_INVALID_OPTION'', TText crlf]"

definition ui_prompt_validate_int :: "ui_menu \<Rightarrow> u32 \<Rightarrow> bool" where
  "ui_prompt_validate_int menu v \<longleftrightarrow> um_minval menu \<le> v \<and> v \<le> um_maxval menu"

definition ui_prompt_menu_ordered_list :: "ui_menu \<Rightarrow> bool \<times> term_event list" where
  "ui_prompt_menu_ordered_list menu =
     (True, concat (map (\<lambda>i. [TText '' '', TInt (int (i + 1)), TText ''. '', TColor Col_info, TMsg (um_menu_items menu ! i),
        TStr (if unat (um_defval menu) = i + 1 then ''*'' else ''''), TColor Col_reset, TText crlf]) [0..<length (um_menu_items menu)]))"

definition ui_prompt_prompt_ordered_list :: "ui_menu \<Rightarrow> bool \<times> term_event list" where
  "ui_prompt_prompt_ordered_list menu =
     (True, [TColor Col_prompt] @ (if um_allow_prompt_text menu then [TMsg (um_prompt_text menu)] else []) @
        (if um_allow_defval menu \<and> um_allow_prompt_defval menu
         then [TText '' ('', TColor Col_reset, TInt (sint (um_defval menu)), TColor Col_prompt, TText '')''] else []) @
        [TText '' >'', TColor Col_reset, TText [CHR '' '', CHR 0x03]])"

definition ui_prompt_validate_ordered_list :: "ui_menu \<Rightarrow> u32 \<Rightarrow> bool" where
  "ui_prompt_validate_ordered_list menu v \<longleftrightarrow> 1 \<le> v \<and> unat v \<le> length (um_menu_items menu)"

subsection \<open>Input\<close>

definition ui_prompt_user_input :: "ln_callbacks \<Rightarrow> (nat \<Rightarrow> bool) \<Rightarrow> nat \<Rightarrow> ui_lines \<Rightarrow> bool lines_result option" where
  "ui_prompt_user_input cb error columns t =
     map_option (\<lambda>r. case r of
         Lines ok t \<Rightarrow> if ok then Lines True (t\<lparr>cmdln := ui_parse_consume_whitespace (cmdln t)\<rparr>) else Lines False t
       | _ \<Rightarrow> r)
       (ui_prompt_linenoise_input cb error columns (Some []) t)"

definition ui_prompt_vt100_mode_start :: "nat \<Rightarrow> cstr \<Rightarrow> ui_lines \<Rightarrow> ui_lines option" where
  "ui_prompt_vt100_mode_start columns text = ui_prompt_linenoise_start columns (Some text)"

text \<open>\<open>*value\<close> is only written once the line is complete.\<close>

definition ui_prompt_vt100_mode_feed :: "ln_callbacks \<Rightarrow> u32 \<Rightarrow> ui_lines \<Rightarrow> (bool \<times> u32) lines_result" where
  "ui_prompt_vt100_mode_feed cb v t =
     (case ui_prompt_linenoise_feed cb t of
        Lines_Wait \<Rightarrow> Lines_Wait
      | Lines_Fault \<Rightarrow> Lines_Fault
      | Lines ln_res t \<Rightarrow>
          if ln_res = 0xff then
            (case cmdln_try_remove (cmdln t) of
               None \<Rightarrow> Lines (True, 0) t
             | Some (ch, r) \<Rightarrow>
                 let ch = ch OR 0x20 in Lines (True, if ch = ch_y \<or> ch = ch_n then ucast ch else 0) (t\<lparr>cmdln := r\<rparr>))
          else Lines (False, v) t)"

subsection \<open>Numbers\<close>

text \<open>What a line does once it is entered: the call returns, or the question is asked again.\<close>

datatype verdict = Answer bool prompt_result u32 | Ask_again u32

definition judge :: "ui_prompt \<Rightarrow> u32 \<Rightarrow> ln_cmdreader \<Rightarrow> verdict \<times> ln_cmdreader" where
  "judge menu v r =
     (case ui_parse_get_uint32 r v of (_, result, v, r) \<Rightarrow>
        (if um_allow_exit menu \<and> pr_exit result then Answer False result v
         else if um_allow_defval menu \<and> pr_no_value result then Answer True (result\<lparr>pr_default_value := True\<rparr>) (um_defval menu)
         else if pr_success result \<and> um_menu_validate menu (ui_menu.truncate menu) v then Answer True result v
         else Ask_again v, r))"

definition print_question :: "ui_prompt \<Rightarrow> ui_lines \<Rightarrow> bool \<times> ui_lines" where
  "print_question menu t =
     (case um_menu_print menu (ui_menu.truncate menu) of (ok, es) \<Rightarrow>
        let t = show_events ([TColor Col_info, TMsg (um_description menu), TColor Col_reset, TText crlf] @ es) t in
        if \<not> ok then (False, t)
        else (True, show_events
          ((if um_allow_exit menu then [TText '' x. '', TColor Col_info, TMsg ''T_EXIT'', TColor Col_reset, TText crlf] else []) @
           snd (um_menu_prompt menu (ui_menu.truncate menu))) t))"

text \<open>The loop; its rounds are numbered as the turns of a prompt are.\<close>

partial_function (option) uint32_loop ::
  "ln_callbacks \<Rightarrow> (nat \<Rightarrow> nat \<Rightarrow> bool) \<Rightarrow> nat \<Rightarrow> ui_prompt \<Rightarrow> nat \<Rightarrow> u32 \<Rightarrow> ui_lines \<Rightarrow> (bool \<times> prompt_result \<times> u32) lines_result option" where
  "uint32_loop cb error columns menu n v t =
     (case print_question menu t of (ok, t1) \<Rightarrow>
        if \<not> ok then Some (Lines (False, empty_result\<lparr>pr_error := True\<rparr>, v) t1)
        else Option.bind (ui_prompt_user_input cb (error n) columns t1) (\<lambda>r.
          case r of
            Lines_Wait \<Rightarrow> Some Lines_Wait
          | Lines_Fault \<Rightarrow> Some Lines_Fault
          | Lines ok t2 \<Rightarrow>
              if \<not> ok then Some (Lines (False, empty_result\<lparr>pr_exit := True\<rparr>, v) t2)
              else (case judge menu v (cmdln t2) of
                  (Answer b result v', r) \<Rightarrow> Some (Lines (b, result, v') (t2\<lparr>cmdln := r\<rparr>))
                | (Ask_again v', r) \<Rightarrow>
                    uint32_loop cb error columns menu (Suc n) v' (ui_prompt_invalid_option (t2\<lparr>cmdln := r\<rparr>)))))"

definition ui_prompt_uint32 ::
  "ln_callbacks \<Rightarrow> (nat \<Rightarrow> nat \<Rightarrow> bool) \<Rightarrow> nat \<Rightarrow> ui_prompt \<Rightarrow> u32 \<Rightarrow> ui_lines \<Rightarrow> (bool \<times> prompt_result \<times> u32) lines_result option" where
  "ui_prompt_uint32 cb error columns menu v t = uint32_loop cb error columns menu 0 v (show_events [TText crlf] t)"

subsection \<open>Any key\<close>

text \<open>The function that refreshes the screen is an argument; so is the error flag, for each turn. The wait of \<open>delay\<close> ms is left out.\<close>

partial_function (option) any_key_loop :: "(ui_lines \<Rightarrow> ui_lines) \<Rightarrow> (nat \<Rightarrow> bool) \<Rightarrow> nat \<Rightarrow> ui_lines \<Rightarrow> ui_lines option" where
  "any_key_loop refresh error n t =
     (let t = refresh t in
      case rx_bytes t of
        c # cs \<Rightarrow> Some (t\<lparr>rx_bytes := cs\<rparr>)
      | [] \<Rightarrow> if error n then Some t else any_key_loop refresh error (Suc n) t)"

text \<open>\<open>hide\<close> and \<open>unhide\<close> are what \<open>ui_term_cursor_hide\<close> and \<open>ui_term_cursor_show\<close> return.\<close>

definition ui_prompt_any_key_continue ::
  "string \<Rightarrow> string \<Rightarrow> (ui_lines \<Rightarrow> ui_lines) \<Rightarrow> (nat \<Rightarrow> bool) \<Rightarrow> ui_lines \<Rightarrow> (prompt_result \<times> ui_lines) option" where
  "ui_prompt_any_key_continue hide unhide refresh error t =
     map_option (\<lambda>t. (empty_result\<lparr>pr_success := True\<rparr>, show_events [TStr unhide] t))
       (any_key_loop refresh error 0
         (show_events [TColor Col_notice, TMsg ''T_PRESS_ANY_KEY_TO_EXIT'', TColor Col_reset, TText crlf, TStr hide] t))"

subsection \<open>The question and its answer\<close>

lemma prompts_frame [simp]:
  "prompts_idle (show_events es t) ss = prompts_idle t ss" "rx_bytes (show_events es t) = rx_bytes t"
  "prompts_idle (t\<lparr>cmdln := r\<rparr>) ss = prompts_idle t ss" "prompts_idle (ui_prompt_invalid_option t) ss = prompts_idle t ss"
  "rx_bytes (ui_prompt_invalid_option t) = rx_bytes t"
  by (simp_all add: prompts_idle_def show_events_def ui_prompt_invalid_option_def)

abbreviation typed_line_reader :: "cstr \<Rightarrow> ln_cmdreader" where
  "typed_line_reader line \<equiv> ui_parse_consume_whitespace (ln_cmdln_init line (length line))"

lemma user_input_typed:
  assumes "prompts_idle t ss" "list_all2 prompt_key_input ks inps" "rx_bytes t = concat inps @ 13 # rest"
    and "\<forall>m \<le> length ks. \<not> error m" "line = fold prompt_edit ks []"
  shows "\<exists>t' old. ui_prompt_user_input cb error columns t = Some (Lines True t') \<and> cmdln t' = typed_line_reader line \<and>
    rx_bytes t' = rest \<and> prompts_idle t' old"
proof -
  obtain t' old where "ui_prompt_linenoise_input cb error columns (Some []) t = Some (Lines True t')"
    "cmdln t' = ln_cmdln_init line (length line)" "rx_bytes t' = rest" "prompts_idle t' old"
    using prompt_input_steps [OF assms] by blast
  then show ?thesis
    by (auto simp: ui_prompt_user_input_def)
qed

text \<open>What the lines typed one after another come to, when only the last one is an answer.\<close>

fun judged :: "ui_prompt \<Rightarrow> u32 \<Rightarrow> cstr list \<Rightarrow> (bool \<times> prompt_result \<times> u32) option" where
  "judged menu v [] = None"
| "judged menu v (line # lines) =
     (case fst (judge menu v (typed_line_reader line)) of
        Answer b result v' \<Rightarrow> if lines = [] then Some (b, result, v') else None
      | Ask_again v' \<Rightarrow> judged menu v' lines)"

definition typed_try :: "prompt_key list \<Rightarrow> u8 list \<Rightarrow> bool" where
  "typed_try ks inp \<longleftrightarrow> (\<exists>inps. list_all2 prompt_key_input ks inps \<and> inp = concat inps @ [13])"

lemma question_printed:
  assumes "fst (um_menu_print menu (ui_menu.truncate menu))"
  shows "\<exists>es. print_question menu t = (True, show_events es t)"
proof -
  obtain es where "um_menu_print menu (ui_menu.truncate menu) = (True, es)"
    using assms by (metis eq_fst_iff)
  moreover have "\<exists>es3. show_events es2 (show_events es1 t) = show_events es3 t" for es1 es2
    by (intro exI [of _ "es1 @ es2"]) (simp add: show_events_def)
  ultimately show ?thesis
    by (simp add: print_question_def Let_def)
qed

lemma uint32_loop_asks:
  assumes "list_all2 typed_try tries inputs" "prompts_idle t ss" "rx_bytes t = concat inputs @ rest"
    and "judged menu v (map (\<lambda>ks. fold prompt_edit ks []) tries) = Some ans"
    and "\<forall>i < length tries. \<forall>m \<le> length (tries ! i). \<not> error (n + i) m" "fst (um_menu_print menu (ui_menu.truncate menu))"
  shows "\<exists>t' old. uint32_loop cb error columns menu n v t = Some (Lines ans t') \<and> rx_bytes t' = rest \<and> prompts_idle t' old"
  using assms(1-5)
proof (induction tries inputs arbitrary: t ss v n rule: list_all2_induct)
  case (Cons ks tries inp inputs)
  obtain inps where inps: "list_all2 prompt_key_input ks inps" "inp = concat inps @ [13]"
    using Cons.hyps(1) by (auto simp: typed_try_def)
  let ?line = "fold prompt_edit ks []"
  obtain t1 where t1: "print_question menu t = (True, t1)" "prompts_idle t1 ss" "rx_bytes t1 = rx_bytes t"
    using question_printed [OF assms(6), of t] Cons.prems(1) by auto
  have "\<forall>m \<le> length ks. \<not> error n m"
    using Cons.prems(4) by force
  then obtain t2 old where t2: "ui_prompt_user_input cb (error n) columns t1 = Some (Lines True t2)" "cmdln t2 = typed_line_reader ?line"
    "rx_bytes t2 = concat inputs @ rest" "prompts_idle t2 old"
    using user_input_typed [OF t1(2) inps(1), of "concat inputs @ rest" "error n" ?line cb columns] t1(3) Cons.prems(2) inps(2) by auto
  obtain j r where j: "judge menu v (typed_line_reader ?line) = (j, r)"
    by (cases "judge menu v (typed_line_reader ?line)")
  show ?case
  proof (cases j)
    case (Answer b result v')
    then have "tries = []" "ans = (b, result, v')"
      using Cons.prems(3) j by (auto split: if_splits)
    then show ?thesis
      using t1(1) t2 j Answer Cons.hyps(2) by (subst uint32_loop.simps) auto
  next
    case (Ask_again v')
    let ?t = "ui_prompt_invalid_option (t2\<lparr>cmdln := r\<rparr>)"
    have "\<forall>i < length tries. \<forall>m \<le> length (tries ! i). \<not> error (Suc n + i) m"
      using Cons.prems(4) by (metis Suc_less_eq add_Suc add_Suc_right length_Cons nth_Cons_Suc)
    then have "\<exists>t' old. uint32_loop cb error columns menu (Suc n) v' ?t = Some (Lines ans t') \<and> rx_bytes t' = rest \<and> prompts_idle t' old"
      using Cons.IH [of ?t old v' "Suc n"] t2(3,4) Cons.prems(3) j Ask_again by simp
    then show ?thesis
      using t1(1) t2(1,2) j Ask_again by (subst uint32_loop.simps) simp
  qed
qed simp

text \<open>An answer is the default or has been checked.\<close>

lemma judged_answer:
  assumes "judged menu v lines = Some (True, result, v')"
  shows "um_menu_validate menu (ui_menu.truncate menu) v' \<or> um_allow_defval menu \<and> pr_default_value result \<and> v' = um_defval menu"
  using assms
proof (induction menu v lines rule: judged.induct)
  case (2 menu v line lines)
  then show ?case
    by (auto simp: judge_def split: prod.splits if_splits verdict.splits)
qed simp

lemma judge_number:
  assumes "k < 2 ^ 32" "um_menu_validate menu (ui_menu.truncate menu) (of_nat k)"
  shows "fst (judge menu v (typed_line_reader (dec_string k))) = Answer True (empty_result\<lparr>pr_success := True\<rparr>) (of_nat k)"
proof -
  obtain d es where d: "dec_string k = dec_char d # es" "d < 10"
    by (rule dec_string_first)
  have "typed_line_reader (dec_string k) = ln_at [] (dec_string k @ [])"
    using skip_space_comma_run [of "[]" "dec_string k" "[]"] d dec_char_not_special [OF d(2)] ln_at_advance [of "[]" "[]" "dec_string k"]
    by (simp add: ui_parse_consume_whitespace_def ln_cmdln_init_def)
  then show ?thesis
    using ui_parse_get_uint32_dec [OF assms(1), of "[]" "[]" v] assms(2) by (simp add: judge_def empty_result_def bp_num_is_dec_def)
qed

subsection \<open>Properties\<close>

text \<open>C18: A menu asks until it has an answer: whatever lines are typed at it, corrections included, the call reads exactly the
  lines up to the first one that is a good number, asks for the default or leaves the menu, and returns that; when it returns true
  the value has been checked by the menu's function or is its default. The prompts are ready for the next question.
\<close>

theorem menu_asks_until_answered:
  assumes "prompts_idle t ss" "list_all2 typed_try tries inputs" "rx_bytes t = concat inputs @ rest"
    and "judged menu v (map (\<lambda>ks. fold prompt_edit ks []) tries) = Some (b, result, v')"
    and "\<forall>i < length tries. \<forall>m \<le> length (tries ! i). \<not> error i m" "fst (um_menu_print menu (ui_menu.truncate menu))"
  shows "\<exists>t' old. ui_prompt_uint32 cb error columns menu v t = Some (Lines (b, result, v') t') \<and> rx_bytes t' = rest \<and> prompts_idle t' old \<and>
    (b \<longrightarrow> um_menu_validate menu (ui_menu.truncate menu) v' \<or> um_allow_defval menu \<and> pr_default_value result \<and> v' = um_defval menu)"
proof -
  have "prompts_idle (show_events [TText crlf] t) ss" "rx_bytes (show_events [TText crlf] t) = concat inputs @ rest"
    using assms(1,3) by simp_all
  from uint32_loop_asks [OF assms(2) this assms(4) _ assms(6), where n = 0 and error = error and cb = cb and columns = columns] assms(5)
  show ?thesis
    using judged_answer [of menu v "map (\<lambda>ks. fold prompt_edit ks []) tries" result v'] assms(4)
    by (auto simp: ui_prompt_uint32_def)
qed

text \<open>A number from 1 to 10: 0 is refused, 7 accepted.\<close>

definition demo_menu :: ui_prompt where
  "demo_menu = \<lparr>um_description = ''T_DEMO'', um_menu_items = [], um_prompt_text = ''T_DEMO'', um_minval = 1, um_maxval = 10, um_defval = 1,
     um_allow_prompt_text = False, um_allow_prompt_defval = False, um_allow_defval = False, um_allow_exit = True,
     um_menu_print = ui_prompt_menu_ordered_list, um_menu_prompt = ui_prompt_prompt_ordered_list, um_menu_validate = ui_prompt_validate_int\<rparr>"

theorem menu_asks_until_answered_witness:
  "\<exists>t'. ui_prompt_uint32 no_callbacks (\<lambda>n m. False) 80 demo_menu 0 (demo_lines [0x30, 13, 0x37, 13]) =
     Some (Lines (True, empty_result\<lparr>pr_success := True\<rparr>, 7) t')"
proof -
  let ?tries = "[[Put [0x30]], [Put [0x37]]]" and ?inputs = "[[0x30, 13], [0x37, 13]] :: u8 list list"
  have one: "utf8ByteLen 0x30 = 1" "utf8ByteLen 0x37 = 1"
    by code_simp+
  have "typed_try [Put [0x30]] [0x30, 13]" "typed_try [Put [0x37]] [0x37, 13]"
    unfolding typed_try_def using one
    by (auto simp: control_keys_def list_all2_Cons1)
  then have tries: "list_all2 typed_try ?tries ?inputs"
    by simp
  have "judged demo_menu 0 (map (\<lambda>ks. fold prompt_edit ks []) ?tries) = Some (True, empty_result\<lparr>pr_success := True\<rparr>, 7)"
    by code_simp
  from menu_asks_until_answered [OF demo_lines_idle(2) tries _ this, of "[0x30, 13, 0x37, 13]" "[]" "\<lambda>n m. False" no_callbacks 80]
  show ?thesis
    by (auto simp: demo_lines_idle(3) demo_menu_def ui_prompt_menu_ordered_list_def)
qed

end
