(* ===== verification/Ui_Cmdln.thy ===== *)
theory Ui_Cmdln
  imports Bp_Cmd
begin

text \<open>
  Splitting the line into commands (\<open>src/src/ui/ui_cmdln.c\<close>): \<open>cmdln_find_next_command\<close> walks to
  the next \<open>;\<close>, \<open>||\<close> or \<open>&&\<close>, \<open>cmdln_args_string_by_position\<close> copies a word of the
  command found. The caller keeps a \<open>_command_info_t\<close>; the start and end of the current command
  are also kept in the global \<open>command_info\<close>.

  The positions are 32 bits wide. The loops run over the line, which is shorter than the address
  space, so inside of them a position is a natural number.
\<close>

record command_info =
  ci_startptr :: u32
  ci_endptr :: u32
  ci_nextptr :: u32
  ci_delimiter :: u8
  ci_command :: "u8 list"

abbreviation (input) ch_pipe :: u8 where "ch_pipe \<equiv> 124"

definition within :: "command_info \<Rightarrow> ln_cmdreader \<Rightarrow> nat \<Rightarrow> u8 option" where
  "within g r rptr =
     (if unat (ci_startptr g) + rptr \<le> unat (ci_endptr g)
      then ln_cmdln_try_peek r (unat (ci_startptr g) + rptr) else None)"

lemma within_less: "within g r rptr = Some c \<Longrightarrow> unat (ci_startptr g) + rptr < ln_len r"
  by (auto simp: within_def dest!: ln_peek_less split: if_splits)

function cmdln_consume_white_space :: "command_info \<Rightarrow> ln_cmdreader \<Rightarrow> nat \<Rightarrow> bool \<Rightarrow> bool \<times> nat" where
  "cmdln_consume_white_space g r rptr non_white_space =
     (case within g r rptr of
        None \<Rightarrow> (False, rptr)
      | Some c \<Rightarrow> (if (\<not> non_white_space \<and> c = ch_space) \<or> (non_white_space \<and> c \<noteq> ch_space)
                  then cmdln_consume_white_space g r (rptr + 1) non_white_space
                  else (True, rptr)))"
  by pat_completeness auto

termination
  by (relation "measure (\<lambda>(g, r, p, n). ln_len r - (unat (ci_startptr g) + p))") (auto dest: within_less)

text \<open>\<open>n\<close> is the room left in the string, the terminator included.\<close>

fun args_get_string_loop :: "command_info \<Rightarrow> ln_cmdreader \<Rightarrow> nat \<Rightarrow> nat \<Rightarrow> cstr" where
  "args_get_string_loop g r 0 rptr = []"
| "args_get_string_loop g r (Suc n) rptr =
     (case within g r rptr of
        None \<Rightarrow> []
      | Some c \<Rightarrow> (if c = ch_space \<or> n = 0 then [] else c # args_get_string_loop g r n (rptr + 1)))"

definition cmdln_args_get_string :: "command_info \<Rightarrow> ln_cmdreader \<Rightarrow> nat \<Rightarrow> nat \<Rightarrow> bool \<times> cstr" where
  "cmdln_args_get_string g r rptr max_len =
     (let s = args_get_string_loop g r max_len rptr in (s \<noteq> [], s))"

text \<open>The words before position \<open>pos\<close> are skipped; a word that starts with a dash is rejected.\<close>

fun args_by_position_loop :: "command_info \<Rightarrow> ln_cmdreader \<Rightarrow> nat \<Rightarrow> nat \<Rightarrow> nat \<Rightarrow> bool \<times> cstr" where
  "args_by_position_loop g r max_len 0 rptr =
     (case cmdln_consume_white_space g r rptr False of
        (False, _) \<Rightarrow> (False, [])
      | (True, p) \<Rightarrow> (if ln_cmdln_try_peek r (unat (ci_startptr g) + p) = Some ch_minus then (False, [])
                     else cmdln_args_get_string g r p max_len))"
| "args_by_position_loop g r max_len (Suc pos) rptr =
     (case cmdln_consume_white_space g r rptr False of
        (False, _) \<Rightarrow> (False, [])
      | (True, p) \<Rightarrow> (case cmdln_consume_white_space g r p True of
            (False, _) \<Rightarrow> (False, [])
          | (True, q) \<Rightarrow> args_by_position_loop g r max_len pos q))"

definition cmdln_args_string_by_position ::
  "command_info \<Rightarrow> ln_cmdreader \<Rightarrow> nat \<Rightarrow> nat \<Rightarrow> bool \<times> cstr" where
  "cmdln_args_string_by_position g r pos max_len = args_by_position_loop g r max_len pos 0"

text \<open>
  The walk to the end of the command: its end, the start of the next, the delimiter and the first
  eight characters of the command without spaces. (The test for a space behind the copy of a
  character cannot succeed: spaces have been skipped before.)
\<close>

function find_next_loop :: "ln_cmdreader \<Rightarrow> nat \<Rightarrow> nat \<Rightarrow> u8 list \<Rightarrow> nat \<times> nat \<times> u8 \<times> u8 list" where
  "find_next_loop r p i cmd =
     (case ln_cmdln_try_peek r p of
        None \<Rightarrow> (p, p, 0, cmd)
      | Some c \<Rightarrow>
          (if c = ch_space then find_next_loop r (p + 1) i cmd
           else if c = ch_semicolon then (p, p + 1, c, cmd)
           else if (c = ch_pipe \<and> ln_cmdln_try_peek r (p + 1) = Some ch_pipe) \<or>
                   (c = ch_amp \<and> ln_cmdln_try_peek r (p + 1) = Some ch_amp)
           then (p, p + 2, c, cmd)
           else if i < 8 then find_next_loop r (p + 1) (i + 1) (cmd[i := c])
           else find_next_loop r (p + 1) i cmd))"
  by pat_completeness auto

termination
  by (relation "measure (\<lambda>(r, p, i, cmd). ln_len r - p)") (auto dest: ln_peek_less)

declare cmdln_consume_white_space.simps [simp del] find_next_loop.simps [simp del]

text \<open>The caller's structure and the global one are returned.\<close>

definition cmdln_find_next_command ::
  "ln_cmdreader \<Rightarrow> command_info \<Rightarrow> command_info \<Rightarrow> bool \<times> command_info \<times> command_info" where
  "cmdln_find_next_command r cp g =
     (let start = ci_nextptr cp; cp1 = cp\<lparr>ci_startptr := start, ci_endptr := start\<rparr>
      in case ln_cmdln_try_peek r (unat start) of
           None \<Rightarrow> (False, cp1\<lparr>ci_delimiter := 0\<rparr>, g)
         | Some _ \<Rightarrow>
             (case find_next_loop r (unat start) 0 (replicate 9 0) of
                (e, nx, d, cmd) \<Rightarrow>
                  let cp2 = cp1\<lparr>ci_endptr := of_nat e - 1, ci_nextptr := of_nat nx, ci_delimiter := d,
                                ci_command := cmd\<rparr>
                  in (True, cp2, g\<lparr>ci_startptr := start, ci_endptr := ci_endptr cp2\<rparr>)))"

end
