(* ===== verification/Ui_Process.thy ===== *)
theory Ui_Process
  imports Ui_Cmdln Syntax_Post
begin

text \<open>
  What happens to a line once it is entered (\<open>src/src/ui/ui_process.c\<close>): the dispatch of its
  commands to the global table, the table of the active mode, the display and the mode, and of
  bus syntax to the syntax engine.

  The state is the world, the line reader, the result printer's static variable and the global
  \<open>command_info\<close>. The tables hold function pointers, so the functions behind them are
  arguments: a command may change the state in any way, the active mode and the line included
  (macros inject a line). So are the hooks of the follow-along logic analyser and the messages
  that stop and restart the other core's display updates.
\<close>

record shell =
  sh_world :: world
  sh_reader :: ln_cmdreader
  sh_info :: output_info
  sh_command_info :: command_info

record command_result =
  cr_number_format :: u8
  cr_success :: bool
  cr_exit :: bool
  cr_no_value :: bool
  cr_default_value :: bool
  cr_error :: bool
  cr_help_flag :: bool

definition result_blank :: command_result where
  "result_blank = \<lparr>cr_number_format = 0, cr_success = False, cr_exit = False, cr_no_value = False,
     cr_default_value = False, cr_error = False, cr_help_flag = False\<rparr>"

type_synonym command_func = "command_result \<Rightarrow> shell \<Rightarrow> command_result \<times> shell"

record global_command =
  gc_command :: cstr
  gc_func :: command_func
  gc_allow_hiz :: bool

record mode_command =
  mc_func :: command_func
  mc_name :: "cstr option"            \<comment> \<open>the name in the definition, if there is one\<close>
  mc_supress_fala_capture :: bool

record mode_entry =
  me_ops :: mode_ops
  me_is_hiz :: bool
  me_preflight :: "(shell \<Rightarrow> shell) option"
  me_wait_done :: "(shell \<Rightarrow> shell) option"
  me_commands :: "mode_command list"
  me_protocol_command :: "(command_result \<Rightarrow> shell \<Rightarrow> bool \<times> command_result \<times> shell) option"

record process_env =
  pe_commands :: "global_command list"
  pe_mode :: "shell \<Rightarrow> mode_entry"
  pe_display_command :: "shell \<Rightarrow> (command_result \<Rightarrow> shell \<Rightarrow> bool \<times> command_result \<times> shell) option"
  pe_fala_start_hook :: "shell \<Rightarrow> shell"
  pe_fala_stop_hook :: "shell \<Rightarrow> shell"
  pe_fala_notify_hook :: "shell \<Rightarrow> shell"
  pe_lcd_updates :: "bool \<Rightarrow> shell \<Rightarrow> shell"

definition sh_print :: "term_event list \<Rightarrow> shell \<Rightarrow> shell" where
  "sh_print es s = s\<lparr>sh_world := term_out es (sh_world s)\<rparr>"

definition call_opt :: "(shell \<Rightarrow> shell) option \<Rightarrow> shell \<Rightarrow> shell" where
  "call_opt f s = (case f of None \<Rightarrow> s | Some g \<Rightarrow> g s)"

subsection \<open>Bus syntax\<close>

definition process_post :: "syntax_io \<Rightarrow> shell \<Rightarrow> syntax_status \<times> shell" where
  "process_post io s =
     (case syntax_post (w_config (sh_world s)) io (sh_info s) of
        (status, es, _, info) \<Rightarrow>
          (status, sh_print (es @ (if status \<noteq> SSTATUS_OK then [TText ''Syntax post process error'', TText crlf] else []))
                     (s\<lparr>sh_info := info\<rparr>)))"

definition process_run :: "process_env \<Rightarrow> syntax_io \<Rightarrow> shell \<Rightarrow> (syntax_status \<times> shell) option" where
  "process_run env io s =
     (let s1 = pe_fala_start_hook env (pe_lcd_updates env False s)
      in case syntax_run (me_ops (pe_mode env s1)) io (sh_world s1) of
           Run_Fault \<Rightarrow> None
         | Ran status io' w \<Rightarrow>
             (let s2 = s1\<lparr>sh_world := w\<rparr>;
                  s3 = call_opt (me_wait_done (pe_mode env s2)) s2;
                  s4 = pe_lcd_updates env True (pe_fala_stop_hook env s3);
                  (status', s5) =
                    (if status \<noteq> SSTATUS_OK
                     then (status, sh_print [TText ''Syntax execution error'', TText crlf] s4)
                     else process_post io' s4)
              in Some (status', pe_fala_notify_hook env s5)))"

definition ui_process_syntax :: "process_env \<Rightarrow> shell \<Rightarrow> (syntax_status \<times> shell) option" where
  "ui_process_syntax env s =
     (let s1 = call_opt (me_preflight (pe_mode env s)) s
      in case syntax_compile (w_config (sh_world s1)) (sh_reader s1) of
           Compile_Fault \<Rightarrow> None
         | Compile_Error io r msg \<Rightarrow>
             Some (SSTATUS_ERROR, sh_print (msg @ [TText ''Syntax compile error'', TText crlf]) (s1\<lparr>sh_reader := r\<rparr>))
         | Compiled io r \<Rightarrow> process_run env io (s1\<lparr>sh_reader := r\<rparr>))"

subsection \<open>Commands\<close>

text \<open>What a turn of the loop does: return from the function, go on with the next command, or an
  access out of bounds in the syntax engine.\<close>

datatype turn = Return bool shell | Next command_info shell | Turn_Fault

text \<open>Behind \<open>cmd_ok\<close>: the delimiter decides how to go on.\<close>

definition command_ok :: "command_info \<Rightarrow> command_result \<Rightarrow> shell \<Rightarrow> turn" where
  "command_ok cp result s =
     (let s1 = sh_print [TColor Col_reset, TText crlf] s; d = ci_delimiter cp
      in if d = 0 then Return False s1
         else if d = ch_pipe then (if \<not> cr_error result then Return False s1 else Next cp s1)
         else if d = ch_amp then (if cr_error result then Return False s1 else Next cp s1)
         else Next cp s1)"

definition process_global :: "process_env \<Rightarrow> command_info \<Rightarrow> global_command \<Rightarrow> shell \<Rightarrow> turn" where
  "process_global env cp gc s =
     (let help = bp_cmd_has_help_flag (sh_reader s)
      in if me_is_hiz (pe_mode env s) \<and> \<not> gc_allow_hiz gc \<and> \<not> help
         then Return True (sh_print [TMsg ''T_MODE_ERROR_NO_EFFECT_HIZ'', TText crlf] s)
         else (case gc_func gc (result_blank\<lparr>cr_help_flag := help\<rparr>) s of
                 (result, s1) \<Rightarrow> command_ok cp result s1))"

text \<open>A mode command leaves its own table entry as it is: the entry read before and after is the same.\<close>

definition process_mode_command :: "process_env \<Rightarrow> command_info \<Rightarrow> mode_command \<Rightarrow> shell \<Rightarrow> turn" where
  "process_mode_command env cp mc s =
     (let help = bp_cmd_has_help_flag (sh_reader s);
          s1 = (if \<not> mc_supress_fala_capture mc then pe_fala_start_hook env s else s);
          s2 = (if \<not> help then call_opt (me_preflight (pe_mode env s1)) s1 else s1);
          (result, s3) = mc_func mc (result_blank\<lparr>cr_help_flag := help\<rparr>) s2;
          s4 = (if \<not> mc_supress_fala_capture mc
                then pe_fala_notify_hook env (pe_fala_stop_hook env s3) else s3)
      in command_ok cp result s4)"

definition process_other :: "process_env \<Rightarrow> command_info \<Rightarrow> cstr \<Rightarrow> shell \<Rightarrow> turn" where
  "process_other env cp name s =
     (let invalid = (\<lambda>s. Return True (sh_print [TColor Col_notice, TMsg ''T_CMDLN_INVALID_COMMAND'',
                           TStr (map (\<lambda>c. char_of (unat c)) name), TColor Col_reset, TText crlf] s));
          protocol = (\<lambda>result s. case me_protocol_command (pe_mode env s) of
                          None \<Rightarrow> invalid s
                        | Some f \<Rightarrow> (case f result s of (ok, result', s') \<Rightarrow>
                            if ok then command_ok cp result' s' else invalid s'))
      in case pe_display_command env s of
           None \<Rightarrow> protocol result_blank s
         | Some f \<Rightarrow> (case f result_blank s of (ok, result, s') \<Rightarrow>
             if ok then command_ok cp result s' else protocol result s'))"

definition process_named :: "process_env \<Rightarrow> command_info \<Rightarrow> cstr \<Rightarrow> shell \<Rightarrow> turn" where
  "process_named env cp name s =
     (case find (\<lambda>gc. gc_command gc = name) (pe_commands env) of
        Some gc \<Rightarrow> process_global env cp gc s
      | None \<Rightarrow> (case find (\<lambda>mc. mc_name mc = Some name) (me_commands (pe_mode env s)) of
            Some mc \<Rightarrow> process_mode_command env cp mc s
          | None \<Rightarrow> process_other env cp name s))"

definition is_bus_syntax :: "u8 \<Rightarrow> bool" where
  "is_bus_syntax c \<longleftrightarrow> c \<in> {ch_lbracket, ch_gt, ch_lbrace, ch_rbracket, ch_rbrace}"

definition MAX_COMMAND_LENGTH :: nat where
  "MAX_COMMAND_LENGTH = 10"

definition process_turn :: "process_env \<Rightarrow> command_info \<Rightarrow> shell \<Rightarrow> turn" where
  "process_turn env cp s =
     (case cmdln_find_next_command (sh_reader s) cp (sh_command_info s) of
        (found, cp', g) \<Rightarrow>
          (if \<not> found then Return False s
           else let s1 = s\<lparr>sh_command_info := g\<rparr>
                in if is_bus_syntax (ci_command cp' ! 0)
                   then (case ui_process_syntax env s1 of
                           None \<Rightarrow> Turn_Fault
                         | Some (status, s2) \<Rightarrow> Return (status = SSTATUS_ERROR) s2)
                   else (case cmdln_args_string_by_position g (sh_reader s1) 0 MAX_COMMAND_LENGTH of
                           (ok, name) \<Rightarrow> (if ok then process_named env cp' name s1 else Next cp' s1))))"

text \<open>The loop over the commands of the line. \<open>None\<close> is a loop that never ends.\<close>

datatype processed = Processed bool shell | Process_Fault

partial_function (option) process_loop ::
  "process_env \<Rightarrow> command_info \<Rightarrow> shell \<Rightarrow> processed option" where
  "process_loop env cp s =
     (case process_turn env cp s of
        Return err s' \<Rightarrow> Some (Processed err s')
      | Turn_Fault \<Rightarrow> Some Process_Fault
      | Next cp' s' \<Rightarrow> process_loop env cp' s')"

definition ui_process_commands :: "process_env \<Rightarrow> shell \<Rightarrow> processed option" where
  "ui_process_commands env s =
     process_loop env \<lparr>ci_startptr = 0, ci_endptr = 0, ci_nextptr = 0, ci_delimiter = 0, ci_command = []\<rparr>
       (sh_print [TText crlf] s)"

end
