(* ===== verification/Ui_Chain.thy ===== *)
theory Ui_Chain
  imports Ui_Process Modes
begin

text \<open>
  What the command processor makes of a well-written line: a chain of commands is run from left
  to right with the short-circuit rules of its delimiters; a line of bus syntax drives the bus
  as written.
\<close>

subsection \<open>Lines and segments\<close>

datatype chain_op = Then_Do | Or_Else | And_Then

fun op_text :: "chain_op \<Rightarrow> cstr" where
  "op_text Then_Do = [ch_semicolon]"
| "op_text Or_Else = [ch_pipe, ch_pipe]"
| "op_text And_Then = [ch_amp, ch_amp]"

fun op_delimiter :: "chain_op \<Rightarrow> u8" where
  "op_delimiter Then_Do = ch_semicolon"
| "op_delimiter Or_Else = ch_pipe"
| "op_delimiter And_Then = ch_amp"

fun chain_text :: "cstr \<Rightarrow> (chain_op \<times> cstr) list \<Rightarrow> cstr" where
  "chain_text seg [] = seg"
| "chain_text seg ((d, seg') # rest) = seg @ op_text d @ chain_text seg' rest"

definition segment_ok :: "cstr \<Rightarrow> bool" where
  "segment_ok seg \<longleftrightarrow> seg \<noteq> [] \<and> set seg \<inter> {0, ch_semicolon, ch_pipe, ch_amp} = {}"

definition line_reader :: "cstr \<Rightarrow> ln_cmdreader" where
  "line_reader s = ln_cmdln_init s (length s)"

lemma peek_line: "ln_cmdln_try_peek (line_reader s) p = (if at s p = 0 then None else Some (at s p))"
  by (simp add: ln_cmdln_try_peek_def line_reader_def ln_cmdln_init_def)

lemma len_line [simp]: "ln_len (line_reader s) = length s"
  by (simp add: line_reader_def ln_cmdln_init_def)

text \<open>The first eight characters that are not spaces.\<close>

fun squeeze :: "nat \<Rightarrow> u8 list \<Rightarrow> cstr \<Rightarrow> u8 list" where
  "squeeze i cmd [] = cmd"
| "squeeze i cmd (c # cs) =
     (if c = ch_space then squeeze i cmd cs
      else if i < 8 then squeeze (i + 1) (cmd[i := c]) cs
      else squeeze i cmd cs)"

lemma squeeze_first: "0 < i \<Longrightarrow> squeeze i cmd cs ! 0 = cmd ! 0"
  by (induction i cmd cs rule: squeeze.induct) auto

lemma squeeze_spaces:
  "cmd \<noteq> [] \<Longrightarrow> c \<noteq> ch_space \<Longrightarrow> squeeze 0 cmd (replicate k ch_space @ c # cs) ! 0 = c"
  by (induction k) (auto simp: squeeze_first)

definition chain_tail :: "(chain_op \<times> cstr) list \<Rightarrow> cstr" where
  "chain_tail rest = (case rest of [] \<Rightarrow> [] | (d, seg) # rest' \<Rightarrow> op_text d @ chain_text seg rest')"

lemma chain_text_tail: "chain_text seg rest = seg @ chain_tail rest"
  by (cases "(seg, rest)" rule: chain_text.cases) (auto simp: chain_tail_def)

definition tail_delimiter :: "(chain_op \<times> cstr) list \<Rightarrow> u8" where
  "tail_delimiter rest = (case rest of [] \<Rightarrow> 0 | (d, _) # _ \<Rightarrow> op_delimiter d)"

definition tail_skip :: "(chain_op \<times> cstr) list \<Rightarrow> nat" where
  "tail_skip rest = (case rest of [] \<Rightarrow> 0 | (d, _) # _ \<Rightarrow> length (op_text d))"

lemma at_mid: "at (pre @ c # post) (length pre) = c"
  by simp

lemma at_mid_Suc: "at (pre @ c # post) (Suc (length pre)) = at post 0"
  using at_append_right [of pre "c # post" 1] by simp

lemma find_next_end:
  "find_next_loop (line_reader (pre @ chain_tail rest)) (length pre) i cmd =
     (length pre, length pre + tail_skip rest, tail_delimiter rest, cmd)"
proof (cases rest)
  case Nil
  then show ?thesis
    by (simp add: find_next_loop.simps peek_line chain_tail_def tail_skip_def tail_delimiter_def)
next
  case (Cons x rest')
  obtain d seg where x: "x = (d, seg)"
    by fastforce
  show ?thesis
    by (cases d) (simp_all add: Cons x find_next_loop.simps peek_line chain_tail_def tail_skip_def
        tail_delimiter_def at_mid_Suc)
qed

lemma find_next_segment:
  assumes "set seg \<inter> {0, ch_semicolon, ch_pipe, ch_amp} = {}"
  shows "find_next_loop (line_reader (pre @ seg @ chain_tail rest)) (length pre) i cmd =
    (length pre + length seg, length pre + length seg + tail_skip rest, tail_delimiter rest, squeeze i cmd seg)"
  using assms
proof (induction seg arbitrary: pre i cmd)
  case Nil
  then show ?case
    using find_next_end [of pre rest] by simp
next
  case (Cons c seg)
  have c: "c \<noteq> 0" "c \<noteq> ch_semicolon" "c \<noteq> ch_pipe" "c \<noteq> ch_amp" "c \<noteq> 59"
    using Cons.prems by auto
  have IH: "find_next_loop (line_reader (pre @ c # seg @ chain_tail rest)) (Suc (length pre)) j cmd' =
      (length pre + length (c # seg), length pre + length (c # seg) + tail_skip rest, tail_delimiter rest,
       squeeze j cmd' seg)" for j cmd'
    using Cons.IH [of "pre @ [c]" j cmd'] Cons.prems by simp
  show ?case
    using c IH [of i cmd] IH [of "i + 1" "cmd[i := c]"]
    by (subst find_next_loop.simps) (cases "c = ch_space"; simp add: peek_line)
qed
subsection \<open>Finding a command\<close>

text \<open>A command starts with its name, behind spaces; a space or the end follows.\<close>

definition name_ok :: "cstr \<Rightarrow> bool" where
  "name_ok name \<longleftrightarrow> name \<noteq> [] \<and> length name < MAX_COMMAND_LENGTH \<and> ch_space \<notin> set name \<and>
     hd name \<noteq> ch_minus \<and> \<not> is_bus_syntax (hd name)"

definition segment :: "nat \<Rightarrow> cstr \<Rightarrow> cstr \<Rightarrow> cstr" where
  "segment k name args = replicate k ch_space @ name @ args"

definition args_of_ok :: "cstr \<Rightarrow> bool" where
  "args_of_ok args \<longleftrightarrow> args = [] \<or> hd args = ch_space"

lemma consume_spaces:
  assumes "unat (ci_startptr g) = length pre" "j + k \<le> unat (ci_endptr g) - length pre"
    "length pre \<le> unat (ci_endptr g)" "c \<noteq> ch_space" "c \<noteq> 0"
  shows "cmdln_consume_white_space g (line_reader (pre @ replicate j ch_space @ replicate k ch_space @ c # post)) j False =
    (True, j + k)"
  using assms
proof (induction k arbitrary: j)
  case 0
  then show ?case
    using at_append_right [of "pre @ replicate j ch_space" "c # post" 0]
    by (subst cmdln_consume_white_space.simps) (simp add: within_def peek_line)
next
  case (Suc k)
  let ?s = "pre @ replicate j ch_space @ replicate (Suc k) ch_space @ c # post"
  have eq: "?s = pre @ replicate (Suc j) ch_space @ replicate k ch_space @ c # post"
    by (simp add: replicate_app_Cons_same)
  have IH: "cmdln_consume_white_space g (line_reader ?s) (Suc j) False = (True, Suc j + k)"
    unfolding eq using Suc.prems by (intro Suc.IH) auto
  have "at ?s (length pre + j) = ch_space"
    using at_append_right [of "pre @ replicate j ch_space" "replicate (Suc k) ch_space @ c # post" 0] by simp
  then have "within g (line_reader ?s) j = Some ch_space"
    using Suc.prems by (simp add: within_def peek_line)
  then show ?case
    using IH by (subst cmdln_consume_white_space.simps) simp
qed

lemma get_string_name:
  assumes "unat (ci_startptr g) + rptr = length pre" "length pre + length name \<le> unat (ci_endptr g) + 1"
    "length name < n" "set name \<inter> {0, ch_space} = {}"
    "post = [] \<or> hd post \<in> {0, ch_space} \<or> unat (ci_endptr g) + 1 = length pre + length name"
  shows "args_get_string_loop g (line_reader (pre @ name @ post)) n rptr = name"
  using assms
proof (induction name arbitrary: pre rptr n)
  case Nil
  then obtain m where n: "n = Suc m"
    by (cases n) auto
  have "at (pre @ post) (length pre) = at post 0"
    by simp
  then show ?case
    using Nil by (cases post) (auto simp: n within_def peek_line)
next
  case (Cons c name)
  then obtain m where n: "n = Suc m" "m \<noteq> 0"
    by (cases n) auto
  have "args_get_string_loop g (line_reader (pre @ c # name @ post)) m (Suc rptr) = name"
    using Cons.IH [of "Suc rptr" "pre @ [c]" m] Cons.prems n by auto
  then show ?case
    using Cons.prems n by (simp add: within_def peek_line)
qed

definition bounds :: "command_info \<Rightarrow> nat \<Rightarrow> nat \<Rightarrow> command_info" where
  "bounds g start len = g\<lparr>ci_startptr := of_nat start, ci_endptr := of_nat (start + len) - 1\<rparr>"

definition found :: "nat \<Rightarrow> cstr \<Rightarrow> (chain_op \<times> cstr) list \<Rightarrow> command_info" where
  "found start seg rest = \<lparr>ci_startptr = of_nat start, ci_endptr = of_nat (start + length seg) - 1,
     ci_nextptr = of_nat (start + length seg + tail_skip rest), ci_delimiter = tail_delimiter rest,
     ci_command = squeeze 0 (replicate 9 0) seg\<rparr>"

lemma find_command:
  assumes "segment_ok seg" "length pre < 2 ^ 32" "ci_nextptr cp = of_nat (length pre)"
  shows "cmdln_find_next_command (line_reader (pre @ chain_text seg rest)) cp g =
    (True, found (length pre) seg rest, bounds g (length pre) (length seg))"
proof -
  have pre: "unat (of_nat (length pre) :: u32) = length pre"
    using assms(2) by (intro unat_of_nat_small) simp
  obtain c seg' where seg: "seg = c # seg'" "c \<noteq> 0"
    using assms(1) by (cases seg) (auto simp: segment_ok_def)
  have "ln_cmdln_try_peek (line_reader (pre @ chain_text seg rest)) (length pre) = Some c"
    by (simp add: peek_line chain_text_tail seg)
  moreover have "set seg \<inter> {0, ch_semicolon, ch_pipe, ch_amp} = {}"
    using assms(1) by (simp add: segment_ok_def)
  note find_next_segment [OF this, of pre rest 0 "replicate 9 0"]
  ultimately show ?thesis
    using assms(3)
    by (cases cp) (simp add: cmdln_find_next_command_def Let_def pre chain_text_tail found_def bounds_def)
qed

lemma find_no_command:
  assumes "length pre < 2 ^ 32" "ci_nextptr cp = of_nat (length pre)"
  shows "fst (cmdln_find_next_command (line_reader pre) cp g) = False"
proof -
  have "unat (of_nat (length pre) :: u32) = length pre"
    using assms(1) by (intro unat_of_nat_small) simp
  then show ?thesis
    using assms(2) by (simp add: cmdln_find_next_command_def Let_def peek_line)
qed

lemma unat_pred:
  assumes "0 < n" "n < 2 ^ 32"
  shows "unat (of_nat n - 1 :: u32) = n - 1"
proof -
  have "(of_nat n - 1 :: u32) = of_nat (n - 1)"
    using assms(1) by (simp add: of_nat_diff Suc_leI)
  then show ?thesis
    using assms(2) unat_of_nat_small [of "n - 1", where 'a = 32] by simp
qed

lemma find_name:
  assumes "name_ok name" "args_of_ok args" "0 \<notin> set name"
    "length (pre @ segment k name args @ post) < 2 ^ 32"
  shows "cmdln_args_string_by_position (bounds g (length pre) (length (segment k name args)))
    (line_reader (pre @ segment k name args @ post)) 0 MAX_COMMAND_LENGTH = (True, name)"
proof -
  let ?seg = "segment k name args" and ?g = "bounds g (length pre) (length (segment k name args))"
  let ?r = "line_reader (pre @ ?seg @ post)"
  obtain c name' where name: "name = c # name'"
    using assms(1) by (cases name) (auto simp: name_ok_def)
  have c: "c \<noteq> ch_space" "c \<noteq> 0" "c \<noteq> ch_minus"
    using assms(1,3) by (auto simp: name name_ok_def)
  have start: "unat (ci_startptr ?g) = length pre"
    using assms(4) unat_of_nat_small [of "length pre", where 'a = 32] by (simp add: bounds_def)
  have "unat (of_nat (length pre + length ?seg) - 1 :: u32) = length pre + length ?seg - 1"
    using assms(4) by (intro unat_pred) (simp_all add: segment_def name)
  then have stop: "unat (ci_endptr ?g) = length pre + length ?seg - 1"
    by (simp add: bounds_def)
  have "pre @ ?seg @ post = pre @ replicate 0 ch_space @ replicate k ch_space @ c # (name' @ args @ post)"
    by (simp add: segment_def name)
  moreover have "cmdln_consume_white_space ?g
      (line_reader (pre @ replicate 0 ch_space @ replicate k ch_space @ c # (name' @ args @ post))) 0 False = (True, 0 + k)"
    using start stop c by (intro consume_spaces) (auto simp: segment_def name)
  ultimately have spaces: "cmdln_consume_white_space ?g ?r 0 False = (True, k)"
    by simp
  have peek: "ln_cmdln_try_peek ?r (length pre + k) = Some c"
    using at_append_right [of "pre @ replicate k ch_space" "c # name' @ args @ post" 0] c
    by (simp add: peek_line segment_def name)
  have "args_get_string_loop ?g (line_reader ((pre @ replicate k ch_space) @ name @ (args @ post))) MAX_COMMAND_LENGTH k = name"
  proof (rule get_string_name)
    show "unat (ci_startptr ?g) + k = length (pre @ replicate k ch_space)"
      by (simp add: start)
    show "length (pre @ replicate k ch_space) + length name \<le> unat (ci_endptr ?g) + 1"
      unfolding stop by (simp add: segment_def name)
    show "length name < MAX_COMMAND_LENGTH" "set name \<inter> {0, ch_space} = {}"
      using assms(1,3) by (auto simp: name_ok_def)
    show "args @ post = [] \<or> hd (args @ post) \<in> {0, ch_space} \<or>
        unat (ci_endptr ?g) + 1 = length (pre @ replicate k ch_space) + length name"
      unfolding stop using assms(2) by (cases args) (auto simp: args_of_ok_def segment_def name)
  qed
  then have "args_get_string_loop ?g ?r MAX_COMMAND_LENGTH k = name"
    by (simp add: segment_def)
  moreover have "name \<noteq> []"
    by (simp add: name)
  ultimately show ?thesis
    using c by (simp add: cmdln_args_string_by_position_def spaces start peek cmdln_args_get_string_def)
qed

subsection \<open>Chains of commands\<close>

type_synonym chain_cmd = "nat \<times> cstr \<times> cstr"

fun cmd_text :: "chain_cmd \<Rightarrow> cstr" where
  "cmd_text (k, name, args) = segment k name args"

fun cmd_ok :: "process_env \<Rightarrow> chain_cmd \<Rightarrow> bool" where
  "cmd_ok env (k, name, args) \<longleftrightarrow> name_ok name \<and> args_of_ok args \<and> segment_ok (segment k name args) \<and>
     name \<in> gc_command ` set (pe_commands env)"

definition chain_line :: "chain_cmd \<Rightarrow> (chain_op \<times> chain_cmd) list \<Rightarrow> cstr" where
  "chain_line c rest = chain_text (cmd_text c) (map (apsnd cmd_text) rest)"

text \<open>One command of the chain: its bounds are published and its function is called.\<close>

definition run_command :: "process_env \<Rightarrow> nat \<Rightarrow> chain_cmd \<Rightarrow> shell \<Rightarrow> command_result \<times> shell" where
  "run_command env start c s =
     gc_func (the (find (\<lambda>gc. gc_command gc = fst (snd c)) (pe_commands env)))
       (result_blank\<lparr>cr_help_flag := bp_cmd_has_help_flag (sh_reader s)\<rparr>)
       (s\<lparr>sh_command_info := bounds (sh_command_info s) start (length (cmd_text c))\<rparr>)"

definition prompt_again :: "shell \<Rightarrow> shell" where
  "prompt_again s = sh_print [TColor Col_reset, TText crlf] s"

fun run_chain :: "process_env \<Rightarrow> nat \<Rightarrow> chain_cmd \<Rightarrow> (chain_op \<times> chain_cmd) list \<Rightarrow> shell \<Rightarrow> shell" where
  "run_chain env start c [] s = prompt_again (snd (run_command env start c s))"
| "run_chain env start c ((d, c') # rest) s =
     (let (result, s1) = run_command env start c s
      in if (d = Or_Else \<and> \<not> cr_error result) \<or> (d = And_Then \<and> cr_error result) then prompt_again s1
         else run_chain env (start + length (cmd_text c) + length (op_text d)) c' rest (prompt_again s1))"

definition keeps_line :: "process_env \<Rightarrow> bool" where
  "keeps_line env \<longleftrightarrow>
     (\<forall>gc \<in> set (pe_commands env). (gc_allow_hiz gc \<or> (\<forall>s. \<not> me_is_hiz (pe_mode env s))) \<and>
        (\<forall>result s. sh_reader (snd (gc_func gc result s)) = sh_reader s))"

lemma find_global:
  assumes "cmd_ok env c"
  obtains gc where "find (\<lambda>gc. gc_command gc = fst (snd c)) (pe_commands env) = Some gc"
    "gc \<in> set (pe_commands env)"
proof -
  have "\<exists>gc \<in> set (pe_commands env). gc_command gc = fst (snd c)"
    using assms by (cases c) auto
  then obtain gc where "find (\<lambda>gc. gc_command gc = fst (snd c)) (pe_commands env) = Some gc"
    by (metis (mono_tags, lifting) find_None_iff option.exhaust)
  then show ?thesis
    using that by (metis (mono_tags, lifting) find_Some_iff nth_mem)
qed

lemma run_command_reader:
  assumes "keeps_line env" "cmd_ok env c" "run_command env start c s = (result, s1)"
  shows "sh_reader s1 = sh_reader s"
proof -
  obtain gc where "find (\<lambda>gc. gc_command gc = fst (snd c)) (pe_commands env) = Some gc"
      "gc \<in> set (pe_commands env)"
    using find_global [OF assms(2)] .
  then have gc: "run_command env start c s = gc_func gc (result_blank\<lparr>cr_help_flag := bp_cmd_has_help_flag (sh_reader s)\<rparr>)
      (s\<lparr>sh_command_info := bounds (sh_command_info s) start (length (cmd_text c))\<rparr>)"
    and keep: "\<And>r t. sh_reader (snd (gc_func gc r t)) = sh_reader t"
    using assms(1) by (simp_all add: run_command_def keeps_line_def)
  have "s1 = snd (run_command env start c s)"
    using assms(3) by simp
  then show ?thesis
    by (simp add: gc keep)
qed

lemma process_turn_chain:
  fixes pre :: cstr
  assumes "keeps_line env" "cmd_ok env c" "ci_nextptr cp = of_nat (length pre)"
    and "sh_reader s = line_reader (pre @ chain_line c rest)" "length (pre @ chain_line c rest) < 2 ^ 32"
    and "run_command env (length pre) c s = (result, s1)"
  shows "process_turn env cp s =
    command_ok (found (length pre) (cmd_text c) (map (apsnd cmd_text) rest)) result s1"
proof -
  obtain k name args where c: "c = (k, name, args)"
    by (cases c)
  have ok: "name_ok name" "args_of_ok args" "segment_ok (segment k name args)"
    using assms(2) by (simp_all add: c)
  let ?rest = "map (apsnd cmd_text) rest"
  obtain gc where gc: "find (\<lambda>gc. gc_command gc = name) (pe_commands env) = Some gc"
      "gc \<in> set (pe_commands env)"
    using find_global [OF assms(2)] by (auto simp: c)
  have line: "pre @ chain_line c rest = pre @ segment k name args @ chain_tail ?rest"
    by (simp add: chain_line_def chain_text_tail c)
  let ?g = "bounds (sh_command_info s) (length pre) (length (segment k name args))"
  have find: "cmdln_find_next_command (sh_reader s) cp (sh_command_info s) =
      (True, found (length pre) (segment k name args) ?rest, ?g)"
    unfolding assms(4) chain_line_def c cmd_text.simps
    by (rule find_command [OF ok(3) _ assms(3)]) (use assms(5) in simp)
  have "0 \<notin> set name"
    using ok(3) by (auto simp: segment_ok_def segment_def)
  then have args: "cmdln_args_string_by_position ?g (sh_reader s) 0 MAX_COMMAND_LENGTH = (True, name)"
    unfolding assms(4) line using assms(5) line by (intro find_name ok) simp_all
  obtain x xs where name: "name = x # xs" "x \<noteq> ch_space" "\<not> is_bus_syntax x"
    using ok(1) by (cases name) (auto simp: name_ok_def)
  have "squeeze 0 (replicate 9 0) (segment k name args) ! 0 = x"
    using squeeze_spaces [of "replicate 9 0" x k "xs @ args"] name by (simp add: segment_def)
  then have first: "\<not> is_bus_syntax (ci_command (found (length pre) (segment k name args) ?rest) ! 0)"
    using name(3) by (simp add: found_def)
  have hiz: "(me_is_hiz (pe_mode env t) \<and> \<not> gc_allow_hiz gc \<and> b) = False" for t b
    using assms(1) gc(2) by (auto simp: keeps_line_def)
  have "gc_func gc (result_blank\<lparr>cr_help_flag := bp_cmd_has_help_flag (sh_reader s)\<rparr>)
      (s\<lparr>sh_command_info := ?g\<rparr>) = (result, s1)"
    using assms(6) by (simp add: run_command_def c gc(1))
  then show ?thesis
    by (simp add: hiz process_turn_def find first args process_named_def gc(1) process_global_def c Let_def)
qed

lemma process_loop_chain:
  fixes pre :: cstr
  assumes "keeps_line env" "cmd_ok env c" "\<forall>(d, c') \<in> set rest. cmd_ok env c'"
    and "ci_nextptr cp = of_nat (length pre)" "sh_reader s = line_reader (pre @ chain_line c rest)"
    and "length (pre @ chain_line c rest) < 2 ^ 32"
  shows "process_loop env cp s = Some (Processed False (run_chain env (length pre) c rest s))"
  using assms(2-)
proof (induction rest arbitrary: pre c cp s)
  case Nil
  obtain result s1 where run: "run_command env (length pre) c s = (result, s1)"
    by fastforce
  show ?case
    using process_turn_chain [OF assms(1) Nil.prems(1,3,4,5) run]
    by (simp add: process_loop.simps [of env cp s] command_ok_def found_def tail_delimiter_def run prompt_again_def Let_def)
next
  case (Cons x rest)
  obtain d c' where x: "x = (d, c')"
    by (rule prod.exhaust)
  obtain result s1 where run: "run_command env (length pre) c s = (result, s1)"
    by fastforce
  let ?cp = "found (length pre) (cmd_text c) (map (apsnd cmd_text) (x # rest))"
  have turn: "process_turn env cp s = command_ok ?cp result s1"
    by (rule process_turn_chain [OF assms(1) Cons.prems(1,3,4,5) run])
  let ?pre = "pre @ cmd_text c @ op_text d"
  have line: "pre @ chain_line c (x # rest) = ?pre @ chain_line c' rest"
    by (simp add: x chain_line_def)
  have reader: "sh_reader (prompt_again s1) = line_reader (?pre @ chain_line c' rest)"
    using run_command_reader [OF assms(1) Cons.prems(1) run] Cons.prems(4) line
    by (simp add: prompt_again_def sh_print_def)
  have loop: "process_loop env ?cp (prompt_again s1) =
      Some (Processed False (run_chain env (length ?pre) c' rest (prompt_again s1)))"
  proof (rule Cons.IH)
    show "cmd_ok env c'" "\<forall>(d, c') \<in> set rest. cmd_ok env c'"
      using Cons.prems(2) by (auto simp: x)
    show "ci_nextptr ?cp = of_nat (length ?pre)"
      by (simp add: found_def tail_skip_def x)
  qed (use reader line Cons.prems(5) in auto)
  show ?case
    using loop
    by (cases d) (auto simp: process_loop.simps [of env cp s] turn command_ok_def Let_def found_def
        tail_delimiter_def x run prompt_again_def [symmetric] add.assoc)
qed

definition no_command :: command_info where
  "no_command = \<lparr>ci_startptr = 0, ci_endptr = 0, ci_nextptr = 0, ci_delimiter = 0, ci_command = []\<rparr>"

text \<open>C29: A line of global commands joined by \<open>;\<close>, \<open>||\<close> and \<open>&&\<close> is run from left to right: the next
  command runs always behind \<open>;\<close>, only if the one before failed behind \<open>||\<close>, only if it
  succeeded behind \<open>&&\<close>, and otherwise the whole rest of the line is dropped. The call ends, and
  its answer is always that there was no error, whatever the commands reported.\<close>

theorem command_chain:
  assumes "keeps_line env" and "cmd_ok env c" and "\<forall>(d, c') \<in> set rest. cmd_ok env c'"
    and "sh_reader s = line_reader (chain_line c rest)" and "length (chain_line c rest) < 2 ^ 32"
  shows "ui_process_commands env s =
    Some (Processed False (run_chain env 0 c rest (sh_print [TText crlf] s)))"
  using process_loop_chain [OF assms(1-3), of no_command "[]" "sh_print [TText crlf] s"] assms(4,5)
  by (simp add: ui_process_commands_def no_command_def sh_print_def)

subsection \<open>Bus syntax\<close>

text \<open>The part of the hardware trace that is on the SPI bus, and the delays.\<close>

fun on_spi_bus :: "hw_event \<Rightarrow> bool" where
  "on_spi_bus (GpioPut p v) \<longleftrightarrow> p = 13"
| "on_spi_bus (SpiTransfer b) \<longleftrightarrow> True"
| "on_spi_bus (BusyWaitUs n) \<longleftrightarrow> True"
| "on_spi_bus (BusyWaitMs n) \<longleftrightarrow> True"
| "on_spi_bus _ \<longleftrightarrow> False"

definition spi_part :: "shell \<Rightarrow> hw_event list" where
  "spi_part s = filter on_spi_bus (w_hw (sh_world s))"

text \<open>A hook may measure and print, but leaves the bus, its configuration and the line alone.\<close>

definition quiet_hook :: "(shell \<Rightarrow> shell) \<Rightarrow> bool" where
  "quiet_hook f \<longleftrightarrow> (\<forall>s. spi_part (f s) = spi_part s \<and> w_config (sh_world (f s)) = w_config (sh_world s) \<and>
     w_spi (sh_world (f s)) = w_spi (sh_world s) \<and> sh_reader (f s) = sh_reader s)"

definition spi_session :: "process_env \<Rightarrow> bool" where
  "spi_session env \<longleftrightarrow>
     quiet_hook (pe_fala_start_hook env) \<and> quiet_hook (pe_fala_stop_hook env) \<and>
     quiet_hook (pe_fala_notify_hook env) \<and> (\<forall>b. quiet_hook (pe_lcd_updates env b)) \<and>
     (\<forall>s. me_ops (pe_mode env s) = spi_ops \<and> quiet_hook (call_opt (me_preflight (pe_mode env s))) \<and>
        quiet_hook (call_opt (me_wait_done (pe_mode env s))))"

lemma bus_events_on_bus: "filter on_spi_bus (bus_events (spi_bus lsb idle) prog) = bus_events (spi_bus lsb idle) prog"
proof -
  have "\<forall>e \<in> set (bus_events (spi_bus lsb idle) prog). on_spi_bus e"
    by (induction prog) (auto simp: spi_bus_def split: if_splits)
  then show ?thesis
    by simp
qed

lemma find_next_keeps:
  "0 < i \<Longrightarrow> find_next_loop r p i cmd = (e, nx, d, cmd') \<Longrightarrow> cmd' ! 0 = cmd ! 0"
proof (induction r p i cmd rule: find_next_loop.induct)
  case (1 r p i cmd)
  show ?case
  proof (cases "ln_cmdln_try_peek r p")
    case None
    then show ?thesis
      using 1(5) by (simp add: find_next_loop.simps [of r p i cmd])
  next
    case (Some c)
    then show ?thesis
      using 1(5) 1(1-3) [OF Some] 1(4) by (simp add: find_next_loop.simps [of r p i cmd] split: if_splits)
  qed
qed

lemma find_next_first:
  assumes "at text 0 = c" "c \<notin> {0, ch_space, ch_semicolon, ch_pipe, ch_amp}"
  shows "\<exists>cp' g'. cmdln_find_next_command (line_reader text) no_command g = (True, cp', g') \<and> ci_command cp' ! 0 = c"
proof -
  obtain e nx d cmd where res: "find_next_loop (line_reader text) 0 0 (replicate 9 0) = (e, nx, d, cmd)"
    by (metis prod_cases4)
  then have "find_next_loop (line_reader text) 1 1 ((replicate 9 0)[0 := c]) = (e, nx, d, cmd)"
    using assms by (subst (asm) find_next_loop.simps) (simp add: peek_line)
  from find_next_keeps [OF _ this] have "cmd ! 0 = c"
    by simp
  then show ?thesis
    using res assms by (auto simp: cmdln_find_next_command_def no_command_def Let_def peek_line)
qed

lemma quiet_hookD:
  assumes "quiet_hook f"
  shows "spi_part (f s) = spi_part s" "w_config (sh_world (f s)) = w_config (sh_world s)"
    "w_spi (sh_world (f s)) = w_spi (sh_world s)" "sh_reader (f s) = sh_reader s"
  using assms by (simp_all add: quiet_hook_def)

lemma spi_part_print [simp]: "spi_part (sh_print es s) = spi_part s"
  by (simp add: spi_part_def sh_print_def)

lemma process_run_spi:
  assumes env: "spi_session env" and prog: "bus_program io" and ready: "spi_ready lsb idle (sh_world s)"
  shows "\<exists>s'. process_run env io s = Some (SSTATUS_OK, s') \<and>
    spi_part s' = spi_part s @ bus_events (spi_bus lsb idle) (io_program io)"
proof -
  have quiet: "quiet_hook (pe_fala_start_hook env)" "quiet_hook (pe_fala_stop_hook env)"
      "quiet_hook (pe_fala_notify_hook env)" "quiet_hook (pe_lcd_updates env b)"
      "quiet_hook (call_opt (me_wait_done (pe_mode env t)))" for b t
    using env by (simp_all add: spi_session_def)
  define s1 where "s1 = pe_fala_start_hook env (pe_lcd_updates env False s)"
  have s1: "spi_part s1 = spi_part s" "spi_ready lsb idle (sh_world s1)"
    using ready quiet_hookD [OF quiet(1)] quiet_hookD [OF quiet(4)]
    by (simp_all add: s1_def spi_ready_def)
  obtain io' w where run: "syntax_run spi_ops io (sh_world s1) = Ran SSTATUS_OK io' w"
      "list_all2 same_instruction (results io') (expansion (io_program io))"
      "w_hw w = w_hw (sh_world s1) @ bus_events (spi_bus lsb idle) (io_program io)"
    using spi_run_trace_engine [OF prog s1(2)] by blast
  define s2 where "s2 = s1\<lparr>sh_world := w\<rparr>"
  have s2: "spi_part s2 = spi_part s @ bus_events (spi_bus lsb idle) (io_program io)"
    using run(3) s1(1) by (simp add: s2_def spi_part_def bus_events_on_bus)
  define s4 where "s4 = pe_lcd_updates env True (pe_fala_stop_hook env
    (call_opt (me_wait_done (pe_mode env s2)) s2))"
  have s4: "spi_part s4 = spi_part s2"
    by (simp add: s4_def quiet_hookD(1) quiet)
  have "expansion (io_program io) \<noteq> []"
    using prog length_expansion_ge [of "io_program io"]
    by (auto simp: bus_program_def runnable_def io_program_def io_ok_def)
  then have "results io' \<noteq> []"
    using run(2) by auto
  then have "so_in_cnt io' \<noteq> 0"
    by (auto simp: results_def)
  then obtain es io'' info where post: "syntax_post (w_config (sh_world s4)) io' (sh_info s4) = (SSTATUS_OK, es, io'', info)"
    by (fastforce simp: syntax_post_def split: prod.splits)
  have ops: "me_ops (pe_mode env s1) = spi_ops"
    using env by (simp add: spi_session_def)
  have "process_run env io s = Some (SSTATUS_OK,
      pe_fala_notify_hook env (sh_print es (s4\<lparr>sh_info := info\<rparr>)))"
    by (simp add: process_run_def s1_def [symmetric] ops run(1) Let_def s2_def [symmetric] s4_def [symmetric]
        process_post_def post)
  moreover have "spi_part (pe_fala_notify_hook env (sh_print es (s4\<lparr>sh_info := info\<rparr>))) = spi_part s2"
    using s4 by (simp add: quiet_hookD(1) quiet(3)) (simp add: spi_part_def)
  ultimately show ?thesis
    using s2 by auto
qed

lemma program_code_no_error: "b \<in> set (program_code cfg items) \<Longrightarrow> bc_error b = 0"
proof -
  have "\<forall>b \<in> set (item_code cfg i). bc_error b = 0" for i
    by (cases i) (auto simp: with_attrs_def base_number_def string_code_def bytecode_empty_def)
  then show "b \<in> set (program_code cfg items) \<Longrightarrow> bc_error b = 0"
    by (auto simp: program_code_def)
qed

lemma program_on_bus:
  assumes "spi_session env" and "sh_reader s = line_reader (program_text items)"
    and "spi_ready lsb idle (sh_world s)" and "w_config (sh_world s) = cfg"
    and "is_bus_syntax (at (program_text items) 0)"
    and "\<forall>i \<in> set items. item_ok cfg i" and "program_slots items < 1024"
    and "program_code cfg items \<noteq> []"
    and "\<forall>b \<in> set (program_code cfg items). bc_command b \<le> SYN_DELAY_MS"
    and "length (expansion (program_code cfg items)) + unat (bc_repeat (program_code cfg items ! 0)) < SYN_MAX_LENGTH"
  shows "\<exists>s'. ui_process_commands env s = Some (Processed False s') \<and>
    spi_part s' = spi_part s @ bus_events (spi_bus lsb idle) (program_code cfg items)"
proof -
  let ?text = "program_text items" and ?prog = "program_code cfg items"
  define s0 where "s0 = sh_print [TText crlf] s"
  have s0: "spi_part s0 = spi_part s" "sh_reader s0 = line_reader ?text" "w_config (sh_world s0) = cfg"
      "w_spi (sh_world s0) = w_spi (sh_world s)"
    using assms(2,4) by (simp_all add: s0_def sh_print_def spi_part_def)
  have plain: "at ?text 0 \<notin> {0, ch_space, ch_semicolon, ch_pipe, ch_amp}"
    using assms(5) by (auto simp: is_bus_syntax_def)
  obtain cp g where found: "cmdln_find_next_command (line_reader ?text) no_command (sh_command_info s0) = (True, cp, g)"
      "ci_command cp ! 0 = at ?text 0"
    using find_next_first [OF refl plain] by blast
  define s1 where "s1 = s0\<lparr>sh_command_info := g\<rparr>"
  define s2 where "s2 = call_opt (me_preflight (pe_mode env s1)) s1"
  have "quiet_hook (call_opt (me_preflight (pe_mode env s1)))"
    using assms(1) by (simp add: spi_session_def)
  note quiet = quiet_hookD [OF this, of s1, folded s2_def]
  have "spi_part s1 = spi_part s0" "sh_reader s1 = sh_reader s0" "sh_world s1 = sh_world s0"
    by (simp_all add: s1_def spi_part_def)
  with quiet s0 have s2: "spi_part s2 = spi_part s" "sh_reader s2 = line_reader ?text" "w_config (sh_world s2) = cfg"
      "w_spi (sh_world s2) = w_spi (sh_world s)"
    by simp_all
  have "length ?prog < SYN_MAX_LENGTH"
    using assms(10) length_expansion_ge [of ?prog] by simp
  from syntax_compile_program [OF assms(6) this assms(7)]
  have compile: "syntax_compile cfg (line_reader ?text) = Compiled (io_of ?prog) (ln_at ?text [])"
    by (simp add: line_reader_def ln_cmdln_init_def)
  define s3 where "s3 = s2\<lparr>sh_reader := ln_at ?text []\<rparr>"
  have "spi_ready lsb idle (sh_world s3)"
    using assms(3,4) s2 by (simp add: s3_def spi_ready_def)
  moreover have "bus_program (io_of ?prog)"
    using assms(8-10) by (intro bus_program_io_of) (simp_all add: program_code_no_error)
  ultimately obtain s' where run: "process_run env (io_of ?prog) s3 = Some (SSTATUS_OK, s')"
      "spi_part s' = spi_part s3 @ bus_events (spi_bus lsb idle) ?prog"
    using process_run_spi [OF assms(1)] by force
  have "ui_process_syntax env s1 = Some (SSTATUS_OK, s')"
    using run(1) by (simp add: ui_process_syntax_def s2_def [symmetric] Let_def s2(2,3) compile s3_def)
  then have "process_turn env no_command s0 = Return False s'"
    using assms(5) by (simp add: process_turn_def s0(2) found s1_def [symmetric] Let_def)
  then have "ui_process_commands env s = Some (Processed False s')"
    by (simp add: ui_process_commands_def no_command_def [symmetric] s0_def [symmetric] process_loop.simps)
  then show ?thesis
    using run(2) s2(1) by (simp add: s3_def spi_part_def)
qed

text \<open>From the keyboard to the bus: in SPI mode, typing a program of bus symbols, numbers,
  strings and delays that begins with a start or stop symbol makes the bus do exactly what was
  typed: chip select at each start and stop, each byte once per repetition in the configured bit
  order, 0xFF for each read, the delays, in order, and nothing else on the bus; no error is
  reported.\<close>

theorem typed_program_on_bus:
  assumes "spi_session env" and "sh_reader s = line_reader (program_text items)"
    and "spi_ready lsb idle (sh_world s)" and "w_config (sh_world s) = cfg"
    and "is_bus_syntax (at (program_text items) 0)"
    and "\<forall>i \<in> set items. item_ok cfg i" and "program_slots items < 1024"
    and "program_code cfg items \<noteq> []"
    and "\<forall>b \<in> set (program_code cfg items). bc_command b \<le> SYN_DELAY_MS"
    and "length (expansion (program_code cfg items)) + unat (bc_repeat (program_code cfg items ! 0)) < SYN_MAX_LENGTH"
  shows "\<exists>s'. ui_process_commands env s = Some (Processed False s') \<and>
    spi_part s' = spi_part s @ bus_events (spi_bus lsb idle) (program_code cfg items)"
  by (rule program_on_bus [OF assms])

subsection \<open>Refused commands\<close>

text \<open>C30: A command that nobody knows, and in HiZ mode one that is not allowed there (unless it is
  asked for help), is not run: \<open>ui_process_commands\<close> returns true, which is an error by its comment in
  \<^verbatim>\<open>ui_process.c\<close> and for the main loop, which stores it in \<open>system_config.error\<close> (\<^verbatim>\<open>ui_process.h\<close> says that true
  is success), and neither the hardware nor the configuration changes.\<close>

theorem refused_commands:
  assumes "name_ok name" and "args_of_ok args" and "segment_ok (segment k name args)"
    and "length (segment k name args) < 2 ^ 32" and "sh_reader s = line_reader (segment k name args)"
    and "case find (\<lambda>gc. gc_command gc = name) (pe_commands env) of
        Some gc \<Rightarrow> (\<forall>t. me_is_hiz (pe_mode env t)) \<and> \<not> gc_allow_hiz gc \<and> \<not> bp_cmd_has_help_flag (sh_reader s)
      | None \<Rightarrow> (\<forall>t. pe_display_command env t = None \<and> me_protocol_command (pe_mode env t) = None \<and>
          (\<forall>mc \<in> set (me_commands (pe_mode env t)). mc_name mc \<noteq> Some name))"
  shows "\<exists>s'. ui_process_commands env s = Some (Processed True s') \<and>
    w_hw (sh_world s') = w_hw (sh_world s) \<and> w_config (sh_world s') = w_config (sh_world s)"
proof -
  define s0 where "s0 = sh_print [TText crlf] s"
  have reader: "sh_reader s0 = line_reader (segment k name args)"
    using assms(5) by (simp add: s0_def sh_print_def)
  have same: "sh_reader s = sh_reader s0"
    using assms(5) reader by simp
  let ?g = "bounds (sh_command_info s0) 0 (length (segment k name args))"
  have find: "cmdln_find_next_command (sh_reader s0) no_command (sh_command_info s0) =
      (True, found 0 (segment k name args) [], ?g)"
    using find_command [OF assms(3), of "[]" no_command "[]"] by (simp add: reader no_command_def)
  have "0 \<notin> set name"
    using assms(3) by (auto simp: segment_ok_def segment_def)
  then have args: "cmdln_args_string_by_position ?g (sh_reader s0) 0 MAX_COMMAND_LENGTH = (True, name)"
    using find_name [OF assms(1,2), of "[]" k "[]"] assms(4) by (simp add: reader)
  obtain x xs where name: "name = x # xs" "x \<noteq> ch_space" "\<not> is_bus_syntax x"
    using assms(1) by (cases name) (auto simp: name_ok_def)
  have "squeeze 0 (replicate 9 0) (segment k name args) ! 0 = x"
    using squeeze_spaces [of "replicate 9 0" x k "xs @ args"] name by (simp add: segment_def)
  then have first: "\<not> is_bus_syntax (ci_command (found 0 (segment k name args) []) ! 0)"
    using name(3) by (simp add: found_def)
  have none: "find (\<lambda>mc. mc_name mc = Some name) (me_commands (pe_mode env t)) = None"
    if "find (\<lambda>gc. gc_command gc = name) (pe_commands env) = None" for t
    using assms(6) that by (auto simp: find_None_iff)
  have "\<exists>es. process_turn env no_command s0 = Return True (sh_print es (s0\<lparr>sh_command_info := ?g\<rparr>))"
  proof (cases "find (\<lambda>gc. gc_command gc = name) (pe_commands env)")
    case None
    then show ?thesis
      using assms(6) none [OF None]
      by (auto simp: process_turn_def find first args process_named_def process_other_def Let_def)
  next
    case (Some gc)
    then show ?thesis
      using assms(6) same
      by (auto simp: process_turn_def find first args process_named_def process_global_def Let_def)
  qed
  then show ?thesis
    by (auto simp: ui_process_commands_def no_command_def [symmetric] s0_def [symmetric] process_loop.simps)
      (simp_all add: s0_def sh_print_def)
qed

subsection \<open>A session\<close>

definition demo_mode :: mode_entry where
  "demo_mode = \<lparr>me_ops = spi_ops, me_is_hiz = False, me_preflight = None, me_wait_done = None,
     me_commands = [], me_protocol_command = None\<rparr>"

text \<open>A command that fails and one that turns on IO0.\<close>

definition demo_env :: process_env where
  "demo_env = \<lparr>pe_commands =
      [\<lparr>gc_command = bytes ''fail'', gc_func = (\<lambda>r s. (r\<lparr>cr_error := True\<rparr>, s)), gc_allow_hiz = True\<rparr>,
       \<lparr>gc_command = bytes ''on'', gc_func = (\<lambda>r s. (r, s\<lparr>sh_world := bio_put 0 True (sh_world s)\<rparr>)),
         gc_allow_hiz = False\<rparr>],
     pe_mode = (\<lambda>_. demo_mode), pe_display_command = (\<lambda>_. None), pe_fala_start_hook = id,
     pe_fala_stop_hook = id, pe_fala_notify_hook = id, pe_lcd_updates = (\<lambda>_. id)\<rparr>"

definition demo_shell :: "cstr \<Rightarrow> shell" where
  "demo_shell line = \<lparr>sh_world = world_reset, sh_reader = line_reader line,
     sh_info = \<lparr>oi_previous_command = 0, oi_previous_number_format = 0, oi_row_length = 0, oi_row_counter = 0\<rparr>,
     sh_command_info = no_command\<rparr>"

lemma demo_keeps: "keeps_line demo_env"
  by (simp add: keeps_line_def demo_env_def demo_mode_def)

lemma demo_cmds: "cmd_ok demo_env (0, bytes ''fail'', bytes '' -x'')" "cmd_ok demo_env (1, bytes ''on'', [])"
  by (simp_all add: demo_env_def bytes_def name_ok_def args_of_ok_def segment_ok_def segment_def
      MAX_COMMAND_LENGTH_def is_bus_syntax_def)

theorem command_chain_witness:
  "\<exists>s'. ui_process_commands demo_env (demo_shell (bytes ''fail -x|| on'')) = Some (Processed False s') \<and>
     w_hw (sh_world s') = [GpioPut 8 True]"
proof -
  have line: "chain_line (0, bytes ''fail'', bytes '' -x'') [(Or_Else, 1, bytes ''on'', [])] = bytes ''fail -x|| on''"
    by (simp add: chain_line_def bytes_def segment_def)
  show ?thesis
    using command_chain [OF demo_keeps demo_cmds(1), of "[(Or_Else, 1, bytes ''on'', [])]" "demo_shell (bytes ''fail -x|| on'')"]
      demo_cmds(2)
    unfolding line
    by (simp add: demo_shell_def run_command_def demo_env_def bytes_def prompt_again_def sh_print_def
        world_reset_def bio_put_def bio2bufiopin_def)
qed

theorem refused_commands_witness:
  "\<exists>s'. ui_process_commands demo_env (demo_shell (bytes ''what'')) = Some (Processed True s')"
  using refused_commands [of "bytes ''what''" "[]" 0 "demo_shell (bytes ''what'')" demo_env]
  by (auto simp: bytes_def name_ok_def args_of_ok_def segment_ok_def segment_def MAX_COMMAND_LENGTH_def
      is_bus_syntax_def demo_shell_def demo_env_def demo_mode_def)

theorem typed_program_on_bus_witness:
  "\<exists>s'. ui_process_commands demo_env (demo_shell (program_text transaction)) = Some (Processed False s') \<and>
     spi_part s' = bus_events (spi_bus False 1) (program_code system_init transaction)"
proof -
  have session: "spi_session demo_env"
    by (simp add: spi_session_def demo_env_def demo_mode_def quiet_hook_def call_opt_def)
  have "bus_program transaction_io"
    by (rule bus_program_transaction)
  then have prog: "program_code system_init transaction \<noteq> []"
    "\<forall>b \<in> set (program_code system_init transaction). bc_command b \<le> SYN_DELAY_MS"
    "length (expansion (program_code system_init transaction)) +
      unat (bc_repeat (program_code system_init transaction ! 0)) < SYN_MAX_LENGTH"
    by (auto simp: bus_program_def transaction_io_def) (simp add: transaction_def program_code_def)
  have items: "\<forall>i \<in> set transaction. item_ok system_init i" "program_slots transaction < 1024"
    by (simp_all add: transaction_def program_slots_def syntax_compile_commands_def attr_ok_def pin_ok_def word_le_nat_alt)
  have ready: "spi_ready False 1 (sh_world (demo_shell (program_text transaction)))"
      "w_config (sh_world (demo_shell (program_text transaction))) = system_init"
      "sh_reader (demo_shell (program_text transaction)) = line_reader (program_text transaction)"
      "spi_part (demo_shell (program_text transaction)) = []"
    by (simp_all add: demo_shell_def spi_ready_def world_reset_def system_init_def spi_part_def)
  have "is_bus_syntax (at (program_text transaction) 0)"
    by (simp add: transaction_def program_text_def is_bus_syntax_def)
  from typed_program_on_bus [OF session ready(3,1,2) this items prog]
  show ?thesis
    by (simp add: ready(4))
qed

end
