(* ===== verification/Main_Loop.thy ===== *)
theory Main_Loop
  imports Ui_Prompt Ui_Chain
begin

text \<open>
  The loop of core 0, \<open>core0_infinite_loop\<close> of \<^verbatim>\<open>src/pirate.c\<close>: the state machine that asks for the display mode, shows
  the prompt, reads a line, has it processed, and shows the prompt again. What it calls besides the line editor, the
  prompts and the command processor are services: functions of the state, arguments here. The reader of the line is one
  global of the code: it is handed over to the command processor and taken back from it. Turning the interrupt of the
  button on and off is left out.
\<close>

subsection \<open>The state\<close>

datatype bp_statemachine =
    BP_SM_DISPLAY_MODE | BP_SM_DISPLAY_MODE_WAIT | BP_SM_GET_INPUT | BP_SM_PROCESS_COMMAND | BP_SM_COMMAND_PROMPT | BP_SM_TOOLBAR_FOCUS

datatype ui_term_color = UI_TERM_NO_COLOR | UI_TERM_FULL_COLOR | UI_TERM_256

record core0 =
  bp_state :: bp_statemachine
  has_been_connected :: bool
  c0_value :: u32                     \<comment> \<open>the answer to the question for the display mode\<close>
  c0_lines :: ui_lines
  c0_shell :: shell
  terminal_ansi_color :: ui_term_color
  terminal_ansi_statusbar :: bool
  terminal_ansi_columns :: nat
  binmode_lock_terminal :: bool
  subprotocol_name :: "cstr option"

type_synonym service = "core0 \<Rightarrow> core0"

record core0_env =
  ce_process :: process_env
  ce_callbacks :: ln_callbacks
  ce_protocol_name :: "core0 \<Rightarrow> cstr"
  ce_color_prompt :: "core0 \<Rightarrow> cstr"
  ce_color_reset :: "core0 \<Rightarrow> cstr"
  ce_connected :: "core0 \<Rightarrow> bool"
  ce_button_check :: "core0 \<Rightarrow> nat \<times> core0"
  ce_button_exec :: "nat \<Rightarrow> service"
  ce_binmode_service :: service
  ce_new_connection :: service        \<comment> \<open>\<open>prepare_usbmsdrive_readonly\<close>, \<open>storage_mount\<close>, \<open>insert_usbmsdrive\<close>\<close>
  ce_make_writable :: service
  ce_screensaver_reset :: service
  ce_display_periodic :: service
  ce_protocol_periodic :: service
  ce_term_detect :: "core0 \<Rightarrow> bool \<times> core0"
  ce_term_init :: service
  ce_statusbar :: service             \<comment> \<open>\<open>ui_statusbar_init\<close>, \<open>toolbar_update_blocking\<close>\<close>
  ce_focus_enter :: "core0 \<Rightarrow> bool \<times> core0"
  ce_focus_key :: "int \<Rightarrow> core0 \<Rightarrow> bool \<times> core0"     \<comment> \<open>true: \<open>TB_FOCUS_EXIT\<close>\<close>
  ce_show_clear_error :: service

abbreviation "BP_BUTT_NO_PRESS \<equiv> 0 :: nat"

text \<open>A turn of the loop: it can also wait inside of a call for ever, or touch what is outside of an array.\<close>

datatype turn_result = Turned core0 | Turn_waits | Turn_fault

definition c0_print :: "term_event list \<Rightarrow> service" where
  "c0_print es c = c\<lparr>c0_lines := show_events es (c0_lines c)\<rparr>"

definition goto_state :: "bp_statemachine \<Rightarrow> service" where
  "goto_state s c = c\<lparr>bp_state := s\<rparr>"

definition system_error :: "core0 \<Rightarrow> bool" where
  "system_error c \<longleftrightarrow> sc_error (w_config (sh_world (c0_shell c))) \<noteq> 0"

definition set_system_error :: "u8 \<Rightarrow> service" where
  "set_system_error e c = c\<lparr>c0_shell := (c0_shell c)\<lparr>sh_world := (sh_world (c0_shell c))
     \<lparr>w_config := (w_config (sh_world (c0_shell c)))\<lparr>sc_error := e\<rparr>\<rparr>\<rparr>\<rparr>"

subsection \<open>The services before the state machine\<close>

definition poll_services :: "core0_env \<Rightarrow> service" where
  "poll_services env c =
     (let c = ce_binmode_service env c;
          c = (if \<not> ce_connected env c \<or> bp_state c \<in> {BP_SM_DISPLAY_MODE, BP_SM_DISPLAY_MODE_WAIT}
               then let (press, c) = ce_button_check env c in if press \<noteq> BP_BUTT_NO_PRESS then ce_button_exec env press c else c
               else c)
      in if ce_connected env c
         then (if \<not> has_been_connected c then ce_new_connection env (c\<lparr>has_been_connected := True\<rparr>) else c)
         else ce_make_writable env (c\<lparr>has_been_connected := False\<rparr>))"

subsection \<open>The display mode\<close>

definition vt100_question :: cstr where
  "vt100_question = map (\<lambda>c. of_nat (of_char c)) ([CHR 0x0D, CHR 0x0A, CHR 0x0D, CHR 0x0A] @ ''VT100 compatible color mode? (Y/n)> '')"

definition turn_lines :: "ui_lines option \<Rightarrow> (core0 \<Rightarrow> core0) \<Rightarrow> core0 \<Rightarrow> turn_result" where
  "turn_lines r k c = (case r of None \<Rightarrow> Turn_fault | Some t \<Rightarrow> Turned (k (c\<lparr>c0_lines := t\<rparr>)))"

definition state_display_mode :: "core0 \<Rightarrow> turn_result" where
  "state_display_mode c =
     turn_lines (ui_prompt_vt100_mode_start (terminal_ansi_columns c) [] (c0_lines c)) (goto_state BP_SM_DISPLAY_MODE_WAIT) c"

text \<open>The label \<open>display_mode_done_saved\<close>.\<close>

definition display_mode_done_saved :: "core0_env \<Rightarrow> service" where
  "display_mode_done_saved env c =
     (case ce_term_detect env c of (ok, c) \<Rightarrow>
        if \<not> ok then goto_state BP_SM_COMMAND_PROMPT (c\<lparr>terminal_ansi_color := UI_TERM_NO_COLOR, terminal_ansi_statusbar := False\<rparr>)
        else let c = ce_term_init env c; c = (if terminal_ansi_statusbar c then ce_statusbar env c else c)
             in goto_state BP_SM_COMMAND_PROMPT c)"

definition state_display_mode_wait :: "core0_env \<Rightarrow> core0 \<Rightarrow> turn_result" where
  "state_display_mode_wait env c =
     (case ui_prompt_vt100_mode_feed (ce_callbacks env) (c0_value c) (c0_lines c) of
        Lines_Wait \<Rightarrow> Turn_waits
      | Lines_Fault \<Rightarrow> Turn_fault
      | Lines (answered, v) t \<Rightarrow>
          let c = c\<lparr>c0_lines := t, c0_value := v\<rparr> in
          if \<not> answered then Turned c
          else let c = ce_screensaver_reset env c in
            if terminal_ansi_color c \<noteq> UI_TERM_NO_COLOR then Turned (display_mode_done_saved env c)
            else if v = ucast ch_n then
              Turned (goto_state BP_SM_COMMAND_PROMPT (c0_print [TText crlf]
                (c\<lparr>terminal_ansi_color := UI_TERM_NO_COLOR, terminal_ansi_statusbar := False\<rparr>)))
            else if v = ucast ch_y then
              Turned (display_mode_done_saved env (c\<lparr>terminal_ansi_color := UI_TERM_FULL_COLOR, terminal_ansi_statusbar := True\<rparr>))
            else turn_lines (ui_prompt_vt100_mode_start (terminal_ansi_columns c) vt100_question (c0_lines c)) id c)"

subsection \<open>The command line\<close>

definition state_get_input :: "core0_env \<Rightarrow> core0 \<Rightarrow> turn_result" where
  "state_get_input env c =
     (let c = ce_protocol_periodic env (ce_display_periodic env c) in
      if binmode_lock_terminal c then Turned c
      else case ui_term_linenoise_feed (ce_callbacks env) (c0_lines c) of
        Lines_Wait \<Rightarrow> Turn_waits
      | Lines_Fault \<Rightarrow> Turn_fault
      | Lines ln_result t \<Rightarrow>
          let c = c\<lparr>c0_lines := t\<rparr>; c = (if ln_result \<noteq> 0 then ce_screensaver_reset env c else c) in
          if ln_result = 0xff then Turned (goto_state BP_SM_PROCESS_COMMAND c)
          else if ln_result = 0xfe then Turned (goto_state BP_SM_COMMAND_PROMPT (c0_print [TText ''^C'', TText crlf] c))
          else if ln_result = 0xfb then
            Turned (case ce_focus_enter env c of (ok, c) \<Rightarrow> if ok then goto_state BP_SM_TOOLBAR_FOCUS c else c)
          else Turned (case ce_button_check env c of (press, c) \<Rightarrow>
            if press \<noteq> BP_BUTT_NO_PRESS then goto_state BP_SM_COMMAND_PROMPT (ce_button_exec env press c) else c))"

definition state_process_command :: "core0_env \<Rightarrow> core0 \<Rightarrow> turn_result" where
  "state_process_command env c =
     (case ui_process_commands (ce_process env) ((c0_shell c)\<lparr>sh_reader := cmdln (c0_lines c)\<rparr>) of
        None \<Rightarrow> Turn_waits
      | Some Process_Fault \<Rightarrow> Turn_fault
      | Some (Processed err s) \<Rightarrow>
          Turned (goto_state BP_SM_COMMAND_PROMPT (set_system_error (of_bool err)
            (c\<lparr>c0_shell := s, c0_lines := (c0_lines c)\<lparr>cmdln := sh_reader s\<rparr>\<rparr>))))"

text \<open>\<open>snprintf\<close> into 128 bytes.\<close>

definition prompt_buf :: "core0_env \<Rightarrow> core0 \<Rightarrow> cstr" where
  "prompt_buf env c = take 127
     (ce_color_prompt env c @ ce_protocol_name env c @
      (case subprotocol_name c of None \<Rightarrow> [] | Some s \<Rightarrow> [ch_minus, ch_lparen] @ s @ [ch_rparen]) @ [ch_gt] @ ce_color_reset env c @ [ch_space])"

definition state_command_prompt :: "core0_env \<Rightarrow> core0 \<Rightarrow> turn_result" where
  "state_command_prompt env c =
     turn_lines (ui_term_linenoise_start (prompt_buf env c) (c0_lines c))
       (\<lambda>c. goto_state BP_SM_GET_INPUT (c0_print [TText [CHR 0x03]] c)) c"

definition state_toolbar_focus :: "core0_env \<Rightarrow> core0 \<Rightarrow> turn_result" where
  "state_toolbar_focus env c =
     (let c = ce_protocol_periodic env (ce_display_periodic env c) in
      case rx_bytes (c0_lines c) of
        [] \<Rightarrow> Turned c
      | peek # rest \<Rightarrow>
          let c = ce_screensaver_reset env (c\<lparr>c0_lines := (c0_lines c)\<lparr>rx_bytes := rest\<rparr>\<rparr>);
              (key, rest) = vt100_key_read_rx_fifo peek (rx_bytes (c0_lines c));
              c = c\<lparr>c0_lines := (c0_lines c)\<lparr>rx_bytes := rest\<rparr>\<rparr>
          in Turned (case ce_focus_key env key c of (left, c) \<Rightarrow> if left then goto_state BP_SM_GET_INPUT c else c))"

subsection \<open>A turn\<close>

definition state_step :: "core0_env \<Rightarrow> core0 \<Rightarrow> turn_result" where
  "state_step env c =
     (case bp_state c of
        BP_SM_DISPLAY_MODE \<Rightarrow> state_display_mode c
      | BP_SM_DISPLAY_MODE_WAIT \<Rightarrow> state_display_mode_wait env c
      | BP_SM_GET_INPUT \<Rightarrow> state_get_input env c
      | BP_SM_PROCESS_COMMAND \<Rightarrow> state_process_command env c
      | BP_SM_COMMAND_PROMPT \<Rightarrow> state_command_prompt env c
      | BP_SM_TOOLBAR_FOCUS \<Rightarrow> state_toolbar_focus env c)"

definition clear_error :: "core0_env \<Rightarrow> service" where
  "clear_error env c =
     (if system_error c
      then goto_state BP_SM_COMMAND_PROMPT (set_system_error 0 (ce_show_clear_error env (c0_print [TChar 7] c)))
      else c)"

definition core0_turn :: "core0_env \<Rightarrow> core0 \<Rightarrow> turn_result" where
  "core0_turn env c =
     (case state_step env (poll_services env c) of
        Turned c \<Rightarrow> Turned (clear_error env c)
      | r \<Rightarrow> r)"

fun core0_turns :: "nat \<Rightarrow> core0_env \<Rightarrow> core0 \<Rightarrow> turn_result" where
  "core0_turns 0 env c = Turned c"
| "core0_turns (Suc n) env c = (case core0_turn env c of Turned c \<Rightarrow> core0_turns n env c | r \<Rightarrow> r)"

subsection \<open>Quiet services\<close>

text \<open>A service that leaves the terminal, the state machine and the bus alone, whatever else it does.\<close>

definition same_session :: "core0 \<Rightarrow> core0 \<Rightarrow> bool" where
  "same_session c c' \<longleftrightarrow> c0_lines c' = c0_lines c \<and> bp_state c' = bp_state c \<and> binmode_lock_terminal c' = binmode_lock_terminal c \<and>
     subprotocol_name c' = subprotocol_name c \<and> spi_part (c0_shell c') = spi_part (c0_shell c) \<and>
     w_config (sh_world (c0_shell c')) = w_config (sh_world (c0_shell c)) \<and> w_spi (sh_world (c0_shell c')) = w_spi (sh_world (c0_shell c))"

definition quiet_service :: "service \<Rightarrow> bool" where
  "quiet_service f \<longleftrightarrow> (\<forall>c. same_session c (f c))"

definition quiet_env :: "core0_env \<Rightarrow> bool" where
  "quiet_env env \<longleftrightarrow> (\<forall>f \<in> {ce_binmode_service env, ce_new_connection env, ce_make_writable env, ce_screensaver_reset env,
       ce_display_periodic env, ce_protocol_periodic env, snd \<circ> ce_button_check env}. quiet_service f) \<and>
     (\<forall>c. fst (ce_button_check env c) = BP_BUTT_NO_PRESS)"

lemma same_refl [simp]: "same_session c c"
  by (simp add: same_session_def)

lemma same_trans [trans]: "same_session a b \<Longrightarrow> same_session b c \<Longrightarrow> same_session a c"
  by (simp add: same_session_def)

lemma same_connected [simp]: "same_session c (c\<lparr>has_been_connected := b\<rparr>)"
  by (simp add: same_session_def)

lemma quietD:
  assumes "quiet_env env"
  shows "same_session c (ce_binmode_service env c)" "same_session c (ce_new_connection env c)" "same_session c (ce_make_writable env c)"
    "same_session c (ce_screensaver_reset env c)" "same_session c (ce_display_periodic env c)" "same_session c (ce_protocol_periodic env c)"
    "same_session c (snd (ce_button_check env c))" "fst (ce_button_check env c) = BP_BUTT_NO_PRESS"
  using assms by (auto simp: quiet_env_def quiet_service_def)

lemma poll_quiet:
  assumes "quiet_env env"
  shows "same_session c (poll_services env c)"
proof -
  define c1 where "c1 = ce_binmode_service env c"
  define c2 where "c2 = (if \<not> ce_connected env c1 \<or> bp_state c1 \<in> {BP_SM_DISPLAY_MODE, BP_SM_DISPLAY_MODE_WAIT}
    then snd (ce_button_check env c1) else c1)"
  have "same_session c c1" "same_session c1 c2"
    using quietD [OF assms] by (simp_all add: c1_def c2_def)
  then have c2: "same_session c c2"
    by (rule same_trans)
  have poll: "poll_services env c = (if ce_connected env c2
      then (if \<not> has_been_connected c2 then ce_new_connection env (c2\<lparr>has_been_connected := True\<rparr>) else c2)
      else ce_make_writable env (c2\<lparr>has_been_connected := False\<rparr>))"
    unfolding c2_def c1_def by (simp add: poll_services_def Let_def case_prod_beta quietD(8) [OF assms])
  have "same_session c (ce_new_connection env (c2\<lparr>has_been_connected := b\<rparr>))" "same_session c (ce_make_writable env (c2\<lparr>has_been_connected := b\<rparr>))" for b
    using same_trans [OF c2 same_trans [OF same_connected [of c2 b] quietD(2) [OF assms]]]
      same_trans [OF c2 same_trans [OF same_connected [of c2 b] quietD(3) [OF assms]]] by blast+
  then show ?thesis
    using c2 by (simp add: poll)
qed

subsection \<open>From the keyboard to the bus\<close>

text \<open>The session: no error is pending, the terminal is not locked, the mode and its configuration.\<close>

definition bus_session :: "core0_env \<Rightarrow> cstr option \<Rightarrow> system_config \<Rightarrow> bool \<Rightarrow> u32 \<Rightarrow> hw_event list \<Rightarrow> core0 \<Rightarrow> bool" where
  "bus_session env sub cfg lsb idle es c \<longleftrightarrow>
     quiet_env env \<and> spi_session (ce_process env) \<and> hints_plain (cb_hints (ce_callbacks env)) \<and> sc_error cfg = 0 \<and>
     w_config (sh_world (c0_shell c)) = cfg \<and> spi_ready lsb idle (sh_world (c0_shell c)) \<and> \<not> binmode_lock_terminal c \<and>
     subprotocol_name c = sub \<and> spi_part (c0_shell c) = es"

lemma session_same: "bus_session env sub cfg lsb idle es c \<Longrightarrow> same_session c c' \<Longrightarrow> bus_session env sub cfg lsb idle es c'"
  by (auto simp: bus_session_def same_session_def spi_ready_def)

lemma session_frame [simp]:
  "bus_session env sub cfg lsb idle es (c\<lparr>c0_lines := t\<rparr>) = bus_session env sub cfg lsb idle es c"
  "bus_session env sub cfg lsb idle es (goto_state st c) = bus_session env sub cfg lsb idle es c"
  "bus_session env sub cfg lsb idle es (c0_print out c) = bus_session env sub cfg lsb idle es c"
  by (simp_all add: bus_session_def goto_state_def c0_print_def)

lemma session_no_error: "bus_session env sub cfg lsb idle es c \<Longrightarrow> clear_error env c = c"
  by (simp add: bus_session_def clear_error_def system_error_def)

lemma goto_simps [simp]:
  "bp_state (goto_state st c) = st" "c0_lines (goto_state st c) = c0_lines c" "c0_shell (goto_state st c) = c0_shell c"
  "c0_lines (c0_print es c) = show_events es (c0_lines c)" "bp_state (c0_print es c) = bp_state c"
  by (simp_all add: goto_state_def c0_print_def)

lemma shown_frame [simp]:
  "main_editor (show_events es t) = main_editor t" "main_line (show_events es t) = main_line t" "cmdln (show_events es t) = cmdln t"
  "line_history (show_events es t) = line_history t" "ln_initialized (show_events es t) = ln_initialized t"
  by (simp_all add: show_events_def main_editor_def editor_of_def)

lemma turn_quiet:
  assumes "bus_session env sub cfg lsb idle es c"
  obtains c1 where "core0_turn env c = (case state_step env c1 of Turned c \<Rightarrow> Turned (clear_error env c) | r \<Rightarrow> r)"
    "bus_session env sub cfg lsb idle es c1" "c0_lines c1 = c0_lines c" "bp_state c1 = bp_state c"
proof -
  have "same_session c (poll_services env c)"
    using assms by (intro poll_quiet) (simp add: bus_session_def)
  then show ?thesis
    using that [of "poll_services env c"] session_same [OF assms] by (simp add: core0_turn_def same_session_def)
qed

definition prompts_fit :: "core0_env \<Rightarrow> cstr option \<Rightarrow> nat \<Rightarrow> bool" where
  "prompts_fit env sub columns \<longleftrightarrow> (\<forall>c. subprotocol_name c = sub \<longrightarrow> prompt_fits (prompt_buf env c) columns)"

lemma turn_prompt:
  assumes "bus_session env sub cfg lsb idle es c" "bp_state c = BP_SM_COMMAND_PROMPT" "lines_idle (c0_lines c) ss"
    and "prompts_fit env sub (cols (main_line (c0_lines c)))"
  shows "\<exists>c' old. core0_turn env c = Turned c' \<and> bus_session env sub cfg lsb idle es c' \<and> bp_state c' = BP_SM_GET_INPUT \<and>
    editing (ce_callbacks env) (main_editor (c0_lines c')) ([], []) (rx_bytes (c0_lines c)) \<and>
    history_holds (line_history (c0_lines c')) (old @ [[]]) \<and> ln_initialized (c0_lines c')"
proof -
  obtain c1 where c1: "core0_turn env c = (case state_step env c1 of Turned c \<Rightarrow> Turned (clear_error env c) | r \<Rightarrow> r)"
    "bus_session env sub cfg lsb idle es c1" "c0_lines c1 = c0_lines c" "bp_state c1 = bp_state c"
    by (rule turn_quiet [OF assms(1)])
  have "prompt_fits (prompt_buf env c1) (cols (main_line (c0_lines c)))" "hints_plain (cb_hints (ce_callbacks env))"
    using assms(4) c1(2) by (auto simp: prompts_fit_def bus_session_def)
  from main_starts [OF assms(3) this] obtain t' old where t': "ui_term_linenoise_start (prompt_buf env c1) (c0_lines c) = Some t'"
    "editing (ce_callbacks env) (main_editor t') ([], []) (rx_bytes (c0_lines c))" "history_holds (line_history t') (old @ [[]])"
    "ln_initialized t'"
    by blast
  let ?c = "goto_state BP_SM_GET_INPUT (c0_print [TText [CHR 0x03]] (c1\<lparr>c0_lines := t'\<rparr>))"
  have "state_step env c1 = Turned ?c"
    using c1(3,4) assms(2) t'(1) by (simp add: state_step_def state_command_prompt_def turn_lines_def)
  moreover have "bus_session env sub cfg lsb idle es ?c"
    using c1(2) by simp
  ultimately have "core0_turn env c = Turned ?c"
    using c1(1) session_no_error by simp
  then show ?thesis
    using \<open>bus_session env sub cfg lsb idle es ?c\<close> t' by (intro exI [of _ ?c] exI [of _ old]) simp
qed

lemma turn_input:
  assumes "bus_session env sub cfg lsb idle es c" "bp_state c = BP_SM_GET_INPUT"
    and "ui_term_linenoise_feed (ce_callbacks env) (c0_lines c) = Lines r t'" "r = 0 \<or> r = 0xff"
  shows "\<exists>c'. core0_turn env c = Turned c' \<and> bus_session env sub cfg lsb idle es c' \<and> c0_lines c' = t' \<and>
    bp_state c' = (if r = 0 then BP_SM_GET_INPUT else BP_SM_PROCESS_COMMAND)"
proof -
  obtain c1 where c1: "core0_turn env c = (case state_step env c1 of Turned c \<Rightarrow> Turned (clear_error env c) | r \<Rightarrow> r)"
    "bus_session env sub cfg lsb idle es c1" "c0_lines c1 = c0_lines c" "bp_state c1 = bp_state c"
    by (rule turn_quiet [OF assms(1)])
  have env: "quiet_env env"
    using assms(1) by (simp add: bus_session_def)
  define c2 where "c2 = ce_protocol_periodic env (ce_display_periodic env c1)"
  have c2: "same_session c1 c2"
    unfolding c2_def using same_trans [OF quietD(5) [OF env] quietD(6) [OF env]] .
  then have s2: "bus_session env sub cfg lsb idle es c2" "c0_lines c2 = c0_lines c" "bp_state c2 = BP_SM_GET_INPUT"
    using session_same [OF c1(2)] c1(3,4) assms(2) by (simp_all add: same_session_def)
  define c3 where "c3 = c2\<lparr>c0_lines := t'\<rparr>"
  have s3: "bus_session env sub cfg lsb idle es c3" "c0_lines c3 = t'" "bp_state c3 = BP_SM_GET_INPUT"
    using s2 by (simp_all add: c3_def)
  define c4 where "c4 = (if r = 0 then snd (ce_button_check env c3) else goto_state BP_SM_PROCESS_COMMAND (ce_screensaver_reset env c3))"
  have "state_step env c1 = Turned c4"
    using c1(4) assms s2(1,2) quietD(8) [OF env]
    by (auto simp: state_step_def state_get_input_def Let_def c2_def [symmetric] c3_def [symmetric] c4_def bus_session_def case_prod_beta)
  moreover have "same_session c3 (snd (ce_button_check env c3))" "same_session c3 (ce_screensaver_reset env c3)"
    using quietD [OF env] by blast+
  then have "bus_session env sub cfg lsb idle es c4" "c0_lines c4 = t'" "bp_state c4 = (if r = 0 then BP_SM_GET_INPUT else BP_SM_PROCESS_COMMAND)"
    using s3 session_same [OF s3(1)] by (auto simp: c4_def same_session_def)
  ultimately show ?thesis
    using c1(1) session_no_error by auto
qed

lemma turns_add: "core0_turns m env c = Turned c' \<Longrightarrow> core0_turns (m + n) env c = core0_turns n env c'"
  by (induction m arbitrary: c) (auto split: turn_result.splits)

lemma turns_keys:
  assumes "list_all2 key_input ks inps" "bus_session env sub cfg lsb idle es c" "bp_state c = BP_SM_GET_INPUT"
    and "editing (ce_callbacks env) (main_editor (c0_lines c)) tb (concat inps @ rest)"
  shows "\<exists>c'. core0_turns (length ks) env c = Turned c' \<and> bus_session env sub cfg lsb idle es c' \<and> bp_state c' = BP_SM_GET_INPUT \<and>
    editing (ce_callbacks env) (main_editor (c0_lines c')) (fold edit_text ks tb) rest \<and>
    line_history (c0_lines c') = line_history (c0_lines c) \<and> ln_initialized (c0_lines c') = ln_initialized (c0_lines c)"
  using assms
proof (induction ks inps arbitrary: c tb rule: list_all2_induct)
  case (Cons k ks inp inps)
  obtain t1 where t1: "ui_term_linenoise_feed (ce_callbacks env) (c0_lines c) = Lines 0 t1"
    "editing (ce_callbacks env) (main_editor t1) (edit_text k tb) (concat inps @ rest)"
    "line_history t1 = line_history (c0_lines c)" "ln_initialized t1 = ln_initialized (c0_lines c)"
    using main_key_step [OF _ Cons.hyps(1), of "ce_callbacks env" "c0_lines c" tb "concat inps @ rest"] Cons.prems(3) by auto
  obtain c1 where c1: "core0_turn env c = Turned c1" "bus_session env sub cfg lsb idle es c1" "c0_lines c1 = t1" "bp_state c1 = BP_SM_GET_INPUT"
    using turn_input [OF Cons.prems(1,2) t1(1)] by auto
  show ?case
    using Cons.IH [OF c1(2,4)] t1(2-4) c1(1,3) by auto
qed simp

text \<open>The line is a program for the bus.\<close>

definition bus_line :: "system_config \<Rightarrow> syn_item list \<Rightarrow> bool" where
  "bus_line cfg items \<longleftrightarrow> is_bus_syntax (at (program_text items) 0) \<and> (\<forall>i \<in> set items. item_ok cfg i) \<and> program_slots items < 1024 \<and>
     program_code cfg items \<noteq> [] \<and> (\<forall>b \<in> set (program_code cfg items). bc_command b \<le> SYN_DELAY_MS) \<and>
     length (expansion (program_code cfg items)) + unat (bc_repeat (program_code cfg items ! 0)) < SYN_MAX_LENGTH"

lemma turn_process:
  assumes "bus_session env sub cfg lsb idle es c" "bp_state c = BP_SM_PROCESS_COMMAND" "bus_line cfg items"
    and "cmdln (c0_lines c) = ln_cmdln_init (program_text items) (length (program_text items))"
  shows "\<exists>c'. core0_turn env c = Turned c' \<and> bp_state c' = BP_SM_COMMAND_PROMPT \<and>
    spi_part (c0_shell c') = es @ bus_events (spi_bus lsb idle) (program_code cfg items) \<and>
    (\<exists>r. c0_lines c' = (c0_lines c)\<lparr>cmdln := r\<rparr>)"
proof -
  obtain c1 where c1: "core0_turn env c = (case state_step env c1 of Turned c \<Rightarrow> Turned (clear_error env c) | r \<Rightarrow> r)"
    "bus_session env sub cfg lsb idle es c1" "c0_lines c1 = c0_lines c" "bp_state c1 = bp_state c"
    by (rule turn_quiet [OF assms(1)])
  let ?s = "(c0_shell c1)\<lparr>sh_reader := cmdln (c0_lines c1)\<rparr>"
  have "spi_session (ce_process env)" "sh_reader ?s = line_reader (program_text items)" "spi_ready lsb idle (sh_world ?s)"
    "w_config (sh_world ?s) = cfg" "spi_part ?s = es"
    using c1(2,3) assms(4) by (simp_all add: bus_session_def line_reader_def spi_part_def)
  moreover from this assms(3) obtain s' where s': "ui_process_commands (ce_process env) ?s = Some (Processed False s')"
    "spi_part s' = spi_part ?s @ bus_events (spi_bus lsb idle) (program_code cfg items)"
    using program_on_bus [of "ce_process env" ?s items lsb idle cfg] by (auto simp: bus_line_def)
  let ?c = "goto_state BP_SM_COMMAND_PROMPT (set_system_error 0 (c1\<lparr>c0_shell := s', c0_lines := (c0_lines c1)\<lparr>cmdln := sh_reader s'\<rparr>\<rparr>))"
  have "state_step env c1 = Turned ?c"
    using c1(4) assms(2) s'(1) by (simp add: state_step_def state_process_command_def)
  moreover have "clear_error env ?c = ?c"
    by (simp add: clear_error_def system_error_def set_system_error_def)
  ultimately have "core0_turn env c = Turned ?c"
    using c1(1) by simp
  then show ?thesis
    using s'(2) \<open>spi_part ?s = es\<close> c1(3) by (intro exI [of _ ?c]) (auto simp: set_system_error_def spi_part_def)
qed

subsection \<open>Properties\<close>

text \<open>C2: From the keyboard to the bus: core 0 shows the prompt, the user types and corrects a line whose text is a program for the bus,
  and presses Enter. While the other services leave the terminal and the bus alone, as many turns of the loop as there are
  keys, and three more, do exactly what was typed on the SPI bus and bring the prompt back: the loop stands where it started, with
  the bytes after Enter still to be read.
\<close>

theorem keys_to_bus:
  assumes "bus_session env sub cfg lsb idle es c" "bp_state c = BP_SM_COMMAND_PROMPT" "lines_idle (c0_lines c) ss"
    and "prompts_fit env sub (cols (main_line (c0_lines c)))" "bus_line cfg items"
    and "list_all2 key_input ks inps" "rx_bytes (c0_lines c) = concat inps @ 13 # rest"
    and "text_bytes (fold edit_text ks ([], [])) = program_text items"
  shows "\<exists>c' ss'. core0_turns (length ks + 3) env c = Turned c' \<and> bp_state c' = BP_SM_COMMAND_PROMPT \<and>
    spi_part (c0_shell c') = es @ bus_events (spi_bus lsb idle) (program_code cfg items) \<and>
    rx_bytes (c0_lines c') = rest \<and> lines_idle (c0_lines c') ss'"
proof -
  obtain c1 old where c1: "core0_turn env c = Turned c1" "bus_session env sub cfg lsb idle es c1" "bp_state c1 = BP_SM_GET_INPUT"
    "editing (ce_callbacks env) (main_editor (c0_lines c1)) ([], []) (concat inps @ 13 # rest)"
    "history_holds (line_history (c0_lines c1)) (old @ [[]])" "ln_initialized (c0_lines c1)"
    using turn_prompt [OF assms(1-4)] assms(7) by auto
  obtain c2 where c2: "core0_turns (length ks) env c1 = Turned c2" "bus_session env sub cfg lsb idle es c2" "bp_state c2 = BP_SM_GET_INPUT"
    "editing (ce_callbacks env) (main_editor (c0_lines c2)) (fold edit_text ks ([], [])) (13 # rest)"
    "history_holds (line_history (c0_lines c2)) (old @ [[]])" "ln_initialized (c0_lines c2)"
    using turns_keys [OF assms(6) c1(2-4)] c1(5,6) by auto
  obtain t3 ss' where t3: "ui_term_linenoise_feed (ce_callbacks env) (c0_lines c2) = Lines 0xff t3"
    "cmdln t3 = ln_cmdln_init (program_text items) (length (program_text items))" "rx_bytes t3 = rest" "lines_idle t3 ss'"
    using main_line_entered [OF c2(4-6)] assms(8) by auto
  obtain c3 where c3: "core0_turn env c2 = Turned c3" "bus_session env sub cfg lsb idle es c3" "c0_lines c3 = t3" "bp_state c3 = BP_SM_PROCESS_COMMAND"
    using turn_input [OF c2(2,3) t3(1)] by auto
  obtain c' r where c': "core0_turn env c3 = Turned c'" "bp_state c' = BP_SM_COMMAND_PROMPT"
    "spi_part (c0_shell c') = es @ bus_events (spi_bus lsb idle) (program_code cfg items)" "c0_lines c' = t3\<lparr>cmdln := r\<rparr>"
    using turn_process [OF c3(2,4) assms(5)] c3(3) t3(2) by auto
  have "core0_turns (length ks + 2) env c1 = Turned c'"
    using turns_add [OF c2(1), of 2] c3(1) c'(1) by (simp add: numeral_2_eq_2)
  then have "core0_turns (length ks + 3) env c = Turned c'"
    using c1(1) by (simp add: numeral_3_eq_3 numeral_2_eq_2)
  moreover have "rx_bytes (c0_lines c') = rest" "lines_idle (c0_lines c') ss'"
    using c'(4) t3(3,4) by (simp_all add: lines_idle_def)
  ultimately show ?thesis
    using c'(2,3) by blast
qed

definition demo_core0_env :: core0_env where
  "demo_core0_env = \<lparr>ce_process = demo_env, ce_callbacks = no_callbacks, ce_protocol_name = \<lambda>_. [83, 80, 73], ce_color_prompt = \<lambda>_. [],
     ce_color_reset = \<lambda>_. [], ce_connected = \<lambda>_. True, ce_button_check = \<lambda>c. (BP_BUTT_NO_PRESS, c), ce_button_exec = \<lambda>_. id, ce_binmode_service = id,
     ce_new_connection = id, ce_make_writable = id, ce_screensaver_reset = id, ce_display_periodic = id, ce_protocol_periodic = id,
     ce_term_detect = \<lambda>c. (False, c), ce_term_init = id, ce_statusbar = id, ce_focus_enter = \<lambda>c. (False, c), ce_focus_key = \<lambda>_ c. (True, c),
     ce_show_clear_error = id\<rparr>"

definition demo_core0 :: "u8 list \<Rightarrow> core0" where
  "demo_core0 inp = \<lparr>bp_state = BP_SM_COMMAND_PROMPT, has_been_connected = False, c0_value = 0, c0_lines = demo_lines inp, c0_shell = demo_shell [],
     terminal_ansi_color = UI_TERM_NO_COLOR, terminal_ansi_statusbar = False, terminal_ansi_columns = 80, binmode_lock_terminal = False,
     subprotocol_name = None\<rparr>"

lemma demo_session: "bus_session demo_core0_env None system_init False 1 [] (demo_core0 inp)"
proof -
  have "spi_session demo_env"
    by (simp add: spi_session_def demo_env_def demo_mode_def quiet_hook_def call_opt_def)
  moreover have "quiet_env demo_core0_env"
    by (simp add: quiet_env_def quiet_service_def demo_core0_env_def)
  ultimately show ?thesis
    by (simp add: bus_session_def demo_core0_env_def demo_core0_def hints_plain_def demo_shell_def spi_ready_def world_reset_def
        system_init_def spi_part_def)
qed

lemma demo_prompts: "prompts_fit demo_core0_env None 80"
proof -
  have "utf8StrWidth ([83, 80, 73, 62, 32] @ [0]) 0 (length [83, 80, 73, 62, 32 :: u8]) = Some 5"
    by code_simp
  then have "prompt_fits [83, 80, 73, 62, 32] 80"
    unfolding prompt_fits_def by (intro exI [of _ 5] conjI) simp_all
  then show ?thesis
    by (simp add: prompts_fit_def prompt_buf_def demo_core0_env_def)
qed

lemma demo_bus_line: "bus_line system_init transaction"
proof -
  have "bus_program transaction_io"
    by (rule bus_program_transaction)
  then have "program_code system_init transaction \<noteq> []"
    "\<forall>b \<in> set (program_code system_init transaction). bc_command b \<le> SYN_DELAY_MS"
    "length (expansion (program_code system_init transaction)) +
      unat (bc_repeat (program_code system_init transaction ! 0)) < SYN_MAX_LENGTH"
    by (auto simp: bus_program_def transaction_io_def) (simp add: transaction_def program_code_def)
  moreover have "\<forall>i \<in> set transaction. item_ok system_init i" "program_slots transaction < 1024"
    by (simp_all add: transaction_def program_slots_def syntax_compile_commands_def attr_ok_def pin_ok_def word_le_nat_alt)
  moreover have "is_bus_syntax (at (program_text transaction) 0)"
    by (simp add: transaction_def program_text_def is_bus_syntax_def)
  ultimately show ?thesis
    by (simp add: bus_line_def)
qed

text \<open>The line \<open>[ 159 r:3 ]\<close> as it is typed.\<close>

lemma typed_chars:
  assumes "\<forall>c \<in> set s. plain_char [c] \<and> c \<notin> control_keys"
  shows "list_all2 key_input (map (\<lambda>c. Typed [c]) s) (map (\<lambda>c. [c]) s)" "concat (map (\<lambda>c. [c]) s) = s"
  using assms by (induction s) auto

lemma typed_chars_text:
  assumes "length (concat bs) + length s \<le> 256"
  shows "fold edit_text (map (\<lambda>c. Typed [c]) s) (bs, []) = (bs @ map (\<lambda>c. [c]) s, [])"
  using assms
proof (induction s arbitrary: bs)
  case (Cons c s)
  then show ?case
    using Cons.IH [of "bs @ [[c]]"] by (simp add: text_bytes_def)
qed simp

theorem keys_to_bus_witness:
  "\<exists>c'. core0_turns (length (program_text transaction) + 3) demo_core0_env (demo_core0 (program_text transaction @ [13])) = Turned c' \<and>
     bp_state c' = BP_SM_COMMAND_PROMPT \<and> spi_part (c0_shell c') = bus_events (spi_bus False 1) (program_code system_init transaction)"
proof -
  let ?text = "program_text transaction"
  let ?ks = "map (\<lambda>c. Typed [c]) ?text" and ?inps = "map (\<lambda>c. [c]) ?text"
  have "list_all (\<lambda>c. plain_char [c] \<and> c \<notin> control_keys) ?text"
    by code_simp
  then have plain: "\<forall>c \<in> set ?text. plain_char [c] \<and> c \<notin> control_keys"
    by (simp add: list_all_iff)
  have len: "length ?text \<le> 256"
    by code_simp
  have built: "text_bytes (fold edit_text ?ks ([], [])) = ?text"
    using typed_chars_text [of "[]" ?text] len typed_chars(2) [OF plain] by (simp add: text_bytes_def)
  have c: "bp_state (demo_core0 inp) = BP_SM_COMMAND_PROMPT" "c0_lines (demo_core0 inp) = demo_lines inp"
    "cols (main_line (demo_lines inp)) = 80" for inp
    by (simp_all add: demo_core0_def demo_lines_def ui_term_linenoise_init_def linenoiseSetCallbacks_def)
  have inp: "rx_bytes (c0_lines (demo_core0 (?text @ [13]))) = concat ?inps @ 13 # []"
    using typed_chars(2) [OF plain] by (simp add: c(2) demo_lines_idle(3))
  have idle: "lines_idle (c0_lines (demo_core0 (?text @ [13]))) []" "prompts_fit demo_core0_env None (cols (main_line (c0_lines (demo_core0 (?text @ [13])))))"
    using demo_lines_idle(1) demo_prompts c by simp_all
  from keys_to_bus [OF demo_session c(1) idle demo_bus_line typed_chars(1) [OF plain] inp built]
  show ?thesis
    by (simp only: length_map append_Nil) blast
qed

end
