(* ===== verification/Bp_Expr.thy ===== *)
theory Bp_Expr
  imports Bp_Number
begin

text \<open>
  The expression evaluator, \<^verbatim>\<open>src/lib/bp_expr/bp_expr.c\<close>: recursive descent over six levels of
  binary operators, which the source writes out as six functions of the same shape
  (\<open>parse_expr_or\<close>, \<open>parse_xor\<close>, \<open>parse_and\<close>, \<open>parse_shift\<close>, \<open>parse_add\<close>, \<open>parse_mul\<close>), and
  \<open>parse_primary\<close>. They are one function here, told apart by the call; the loop behind the
  first operand is a call of its own. The context is the position; an error ends all calls at
  once, so it is the result.

  Calls nest as deep as the text does; that the evaluator always returns is a theorem.
\<close>

datatype bp_expr_err =
    BP_EXPR_OK | BP_EXPR_ERR_SYNTAX | BP_EXPR_ERR_PAREN | BP_EXPR_ERR_OVERFLOW
  | BP_EXPR_ERR_DIV_ZERO | BP_EXPR_ERR_EMPTY

datatype expr_level = L_or | L_xor | L_and | L_shift | L_add | L_mul

datatype expr_op = Op_or | Op_xor | Op_and | Op_shl | Op_shr | Op_add | Op_sub | Op_mul | Op_div | Op_mod

function expr_skip_ws :: "cstr \<Rightarrow> nat \<Rightarrow> nat \<Rightarrow> nat" where
  "expr_skip_ws s e p =
     (if p < e \<and> (at s p = ch_space \<or> at s p = ch_tab) then expr_skip_ws s e (p + 1) else p)"
  by pat_completeness auto

termination
  by (relation "measure (\<lambda>(s, e, p). e - p)") auto

declare expr_skip_ws.simps [simp del]

definition expr_peek :: "cstr \<Rightarrow> nat \<Rightarrow> nat \<Rightarrow> u8" where
  "expr_peek s e p = (let q = expr_skip_ws s e p in if q < e then at s q else 0)"

text \<open>\<open>match\<close> and \<open>match2\<close>: whether the next characters are these, and the new position.\<close>

definition expr_match :: "cstr \<Rightarrow> nat \<Rightarrow> nat \<Rightarrow> u8 \<Rightarrow> bool \<times> nat" where
  "expr_match s e p c =
     (let q = expr_skip_ws s e p in if expr_peek s e p = c then (True, q + 1) else (False, q))"

definition expr_match2 :: "cstr \<Rightarrow> nat \<Rightarrow> nat \<Rightarrow> u8 \<Rightarrow> u8 \<Rightarrow> bool \<times> nat" where
  "expr_match2 s e p c1 c2 =
     (let q = expr_skip_ws s e p
      in if q + 1 < e \<and> at s q = c1 \<and> at s (q + 1) = c2 then (True, q + 2) else (False, q))"

text \<open>A single \<open>&\<close> or \<open>|\<close>, not the first of two.\<close>

definition expr_match_single :: "cstr \<Rightarrow> nat \<Rightarrow> nat \<Rightarrow> u8 \<Rightarrow> bool \<times> nat" where
  "expr_match_single s e p c =
     (let q = expr_skip_ws s e p
      in if q < e \<and> at s q = c \<and> (e \<le> q + 1 \<or> at s (q + 1) \<noteq> c) then (True, q + 1) else (False, q))"

text \<open>The tests at the head of the loop of each level, in the order of the source.\<close>

fun try_ops :: "(nat \<Rightarrow> bool \<times> nat) list \<Rightarrow> expr_op list \<Rightarrow> nat \<Rightarrow> expr_op option \<times> nat" where
  "try_ops (f # fs) (d # ds) p = (case f p of (True, q) \<Rightarrow> (Some d, q) | (False, q) \<Rightarrow> try_ops fs ds q)"
| "try_ops _ _ p = (None, p)"

fun level_matchers :: "expr_level \<Rightarrow> cstr \<Rightarrow> nat \<Rightarrow> (nat \<Rightarrow> bool \<times> nat) list" where
  "level_matchers L_or s e = [\<lambda>p. expr_match_single s e p ch_bar]"
| "level_matchers L_xor s e = [\<lambda>p. expr_match s e p ch_caret]"
| "level_matchers L_and s e = [\<lambda>p. expr_match_single s e p ch_amp]"
| "level_matchers L_shift s e = [\<lambda>p. expr_match2 s e p ch_lt ch_lt, \<lambda>p. expr_match2 s e p ch_gt ch_gt]"
| "level_matchers L_add s e = [\<lambda>p. expr_match s e p ch_plus, \<lambda>p. expr_match s e p ch_minus]"
| "level_matchers L_mul s e =
     [\<lambda>p. expr_match s e p ch_star, \<lambda>p. expr_match s e p ch_slash, \<lambda>p. expr_match s e p ch_percent]"

fun level_ops :: "expr_level \<Rightarrow> expr_op list" where
  "level_ops L_or = [Op_or]"
| "level_ops L_xor = [Op_xor]"
| "level_ops L_and = [Op_and]"
| "level_ops L_shift = [Op_shl, Op_shr]"
| "level_ops L_add = [Op_add, Op_sub]"
| "level_ops L_mul = [Op_mul, Op_div, Op_mod]"

definition match_level :: "expr_level \<Rightarrow> cstr \<Rightarrow> nat \<Rightarrow> nat \<Rightarrow> expr_op option \<times> nat" where
  "match_level l s e p = try_ops (level_matchers l s e) (level_ops l) p"

fun apply_op :: "expr_op \<Rightarrow> u32 \<Rightarrow> u32 \<Rightarrow> bp_expr_err + u32" where
  "apply_op Op_or x y = Inr (x OR y)"
| "apply_op Op_xor x y = Inr (x XOR y)"
| "apply_op Op_and x y = Inr (x AND y)"
| "apply_op Op_shl x y = Inr (push_bit (unat (y AND 31)) x)"
| "apply_op Op_shr x y = Inr (drop_bit (unat (y AND 31)) x)"
| "apply_op Op_add x y = Inr (x + y)"
| "apply_op Op_sub x y = Inr (x - y)"
| "apply_op Op_mul x y = Inr (x * y)"
| "apply_op Op_div x y = (if y = 0 then Inl BP_EXPR_ERR_DIV_ZERO else Inr (x div y))"
| "apply_op Op_mod x y = (if y = 0 then Inl BP_EXPR_ERR_DIV_ZERO else Inr (x mod y))"

datatype expr_call = Primary nat | Level expr_level nat | Level_Loop expr_level u32 nat

fun operand_call :: "expr_level \<Rightarrow> nat \<Rightarrow> expr_call" where
  "operand_call L_or p = Level L_xor p"
| "operand_call L_xor p = Level L_and p"
| "operand_call L_and p = Level L_shift p"
| "operand_call L_shift p = Level L_add p"
| "operand_call L_add p = Level L_mul p"
| "operand_call L_mul p = Primary p"

type_synonym expr_result = "bp_expr_err + (u32 \<times> nat)"

text \<open>How \<open>parse_primary\<close> begins: a unary operator, a parenthesis, or what must be a number.\<close>

datatype primary_head = Negate nat | Complement nat | Open nat | Literal nat

definition expr_head :: "cstr \<Rightarrow> nat \<Rightarrow> nat \<Rightarrow> primary_head" where
  "expr_head s e p0 =
     (case expr_match s e p0 ch_minus of (True, p) \<Rightarrow> Negate p
      | (False, p1) \<Rightarrow> (case expr_match s e p1 ch_tilde of (True, p) \<Rightarrow> Complement p
      | (False, p2) \<Rightarrow> (case expr_match s e p2 ch_lparen of (True, p) \<Rightarrow> Open p
      | (False, p3) \<Rightarrow> Literal (expr_skip_ws s e p3))))"

definition parse_number :: "cstr \<Rightarrow> nat \<Rightarrow> expr_result" where
  "parse_number s p =
     (case bp_num_u32 s p of Some (v, _, q) \<Rightarrow> Inr (v, q) | None \<Rightarrow> Inl BP_EXPR_ERR_SYNTAX)"

definition close_paren :: "cstr \<Rightarrow> nat \<Rightarrow> u32 \<Rightarrow> nat \<Rightarrow> expr_result" where
  "close_paren s e v p =
     (case expr_match s e p ch_rparen of (True, q) \<Rightarrow> Inr (v, q) | (False, _) \<Rightarrow> Inl BP_EXPR_ERR_PAREN)"

partial_function (option) expr_parse :: "cstr \<Rightarrow> nat \<Rightarrow> expr_call \<Rightarrow> expr_result option" where
  "expr_parse s e c =
     (case c of
        Primary p0 \<Rightarrow>
          (case expr_head s e p0 of
             Negate p \<Rightarrow> Option.bind (expr_parse s e (Primary p)) (\<lambda>r. case r of
               Inl err \<Rightarrow> Some (Inl err) | Inr (v, q) \<Rightarrow> Some (Inr (- v, q)))
           | Complement p \<Rightarrow> Option.bind (expr_parse s e (Primary p)) (\<lambda>r. case r of
               Inl err \<Rightarrow> Some (Inl err) | Inr (v, q) \<Rightarrow> Some (Inr (NOT v, q)))
           | Open p \<Rightarrow> Option.bind (expr_parse s e (Level L_or p)) (\<lambda>r. case r of
               Inl err \<Rightarrow> Some (Inl err) | Inr (v, q) \<Rightarrow> Some (close_paren s e v q))
           | Literal p \<Rightarrow> Some (parse_number s p))
      | Level l p \<Rightarrow>
          Option.bind (expr_parse s e (operand_call l p)) (\<lambda>r. case r of
              Inl err \<Rightarrow> Some (Inl err) | Inr (v, q) \<Rightarrow> expr_parse s e (Level_Loop l v q))
      | Level_Loop l v p \<Rightarrow>
          (case match_level l s e p of
             (None, q) \<Rightarrow> Some (Inr (v, q))
           | (Some d, q) \<Rightarrow> Option.bind (expr_parse s e (operand_call l q)) (\<lambda>r. case r of
                Inl err \<Rightarrow> Some (Inl err)
              | Inr (rhs, q') \<Rightarrow> (case apply_op d v rhs of
                  Inl err \<Rightarrow> Some (Inl err)
                | Inr v' \<Rightarrow> expr_parse s e (Level_Loop l v' q')))))"

definition bp_expr_eval_n :: "cstr \<Rightarrow> nat \<Rightarrow> (bp_expr_err + u32) option" where
  "bp_expr_eval_n s len =
     (if len = 0 then Some (Inl BP_EXPR_ERR_EMPTY)
      else Option.bind (expr_parse s len (Level L_or 0)) (\<lambda>r.
        case r of
          Inl err \<Rightarrow> Some (Inl err)
        | Inr (v, p) \<Rightarrow>
            (let q = expr_skip_ws s len p
             in if q < len \<and> at s q \<noteq> 0 then Some (Inl BP_EXPR_ERR_SYNTAX) else Some (Inr v))))"

text \<open>The length is that of the string up to its NUL.\<close>

definition bp_expr_eval :: "cstr \<Rightarrow> (bp_expr_err + u32) option" where
  "bp_expr_eval s = bp_expr_eval_n s (length (takeWhile (\<lambda>c. c \<noteq> 0) s))"

fun bp_expr_strerror :: "bp_expr_err \<Rightarrow> string" where
  "bp_expr_strerror BP_EXPR_OK = ''OK''"
| "bp_expr_strerror BP_EXPR_ERR_SYNTAX = ''Syntax error''"
| "bp_expr_strerror BP_EXPR_ERR_PAREN = ''Mismatched parentheses''"
| "bp_expr_strerror BP_EXPR_ERR_OVERFLOW = ''Expression too complex''"
| "bp_expr_strerror BP_EXPR_ERR_DIV_ZERO = ''Division by zero''"
| "bp_expr_strerror BP_EXPR_ERR_EMPTY = ''Empty expression''"

subsection \<open>The evaluator always returns\<close>

lemma expr_skip_ws_bounds:
  "p \<le> expr_skip_ws s e p \<and> (p \<le> e \<longrightarrow> expr_skip_ws s e p \<le> e) \<and> expr_skip_ws s e p \<le> max e p"
proof (induction s e p rule: expr_skip_ws.induct)
  case (1 s e p)
  then show ?case
    by (subst (1 2 3) expr_skip_ws.simps) auto
qed

lemma expr_match_bounds:
  "expr_match s e p c = (True, q) \<Longrightarrow> c \<noteq> 0 \<Longrightarrow> p < q \<and> q \<le> e"
  "expr_match s e p c = (False, q) \<Longrightarrow> p \<le> q \<and> q \<le> max e p"
  "expr_match2 s e p c d = (True, q) \<Longrightarrow> p < q \<and> q \<le> e"
  "expr_match2 s e p c d = (False, q) \<Longrightarrow> p \<le> q \<and> q \<le> max e p"
  "expr_match_single s e p c = (True, q) \<Longrightarrow> p < q \<and> q \<le> e"
  "expr_match_single s e p c = (False, q) \<Longrightarrow> p \<le> q \<and> q \<le> max e p"
  using expr_skip_ws_bounds [of p s e]
  by (auto simp: expr_match_def expr_match2_def expr_match_single_def expr_peek_def Let_def split: if_splits)

lemma try_ops_bounds:
  assumes "\<forall>f \<in> set fs. \<forall>p. case f p of (True, q) \<Rightarrow> p < q \<and> q \<le> e | (False, q) \<Rightarrow> p \<le> q \<and> q \<le> max e p"
    and "try_ops fs ds p = (d, q)"
  shows "p \<le> q \<and> q \<le> max e p \<and> (d \<noteq> None \<longrightarrow> p < q \<and> q \<le> e)"
  using assms
proof (induction fs ds p rule: try_ops.induct)
  case (1 f fs d' ds p)
  obtain b p1 where f: "f p = (b, p1)"
    by fastforce
  have "case f p of (True, q) \<Rightarrow> p < q \<and> q \<le> e | (False, q) \<Rightarrow> p \<le> q \<and> q \<le> max e p"
    using 1(2) by auto
  then show ?case
    using 1(1) [OF f [symmetric]] 1(2,3) f by (cases b) auto
qed auto

lemma match_level_bounds:
  "match_level l s e p = (d, q) \<Longrightarrow> p \<le> q \<and> q \<le> max e p \<and> (d \<noteq> None \<longrightarrow> p < q \<and> q \<le> e)"
proof -
  have step: "case expr_match s e p c of (True, q) \<Rightarrow> p < q \<and> q \<le> e | (False, q) \<Rightarrow> p \<le> q \<and> q \<le> max e p"
    if "c \<noteq> 0" for c p
    using expr_match_bounds(1,2) [of s e p c] that by (cases "expr_match s e p c"; cases "fst (expr_match s e p c)") auto
  have step2: "case expr_match2 s e p c d of (True, q) \<Rightarrow> p < q \<and> q \<le> e | (False, q) \<Rightarrow> p \<le> q \<and> q \<le> max e p"
    for c d p
    using expr_match_bounds(3,4) [of s e p c d] by (cases "expr_match2 s e p c d"; cases "fst (expr_match2 s e p c d)") auto
  have step1: "case expr_match_single s e p c of (True, q) \<Rightarrow> p < q \<and> q \<le> e | (False, q) \<Rightarrow> p \<le> q \<and> q \<le> max e p"
    for c p
    using expr_match_bounds(5,6) [of s e p c] by (cases "expr_match_single s e p c"; cases "fst (expr_match_single s e p c)") auto
  have "\<forall>f \<in> set (level_matchers l s e). \<forall>p. case f p of
      (True, q) \<Rightarrow> p < q \<and> q \<le> e | (False, q) \<Rightarrow> p \<le> q \<and> q \<le> max e p"
    by (cases l) (simp_all add: step step1 step2)
  from try_ops_bounds [OF this]
  show "match_level l s e p = (d, q) \<Longrightarrow> p \<le> q \<and> q \<le> max e p \<and> (d \<noteq> None \<longrightarrow> p < q \<and> q \<le> e)"
    by (simp add: match_level_def)
qed

lemma expr_head_bounds:
  "case expr_head s e p of
     Negate q \<Rightarrow> p < q \<and> q \<le> e | Complement q \<Rightarrow> p < q \<and> q \<le> e | Open q \<Rightarrow> p < q \<and> q \<le> e | Literal q \<Rightarrow> p \<le> q"
proof -
  obtain b1 p1 where 1: "expr_match s e p ch_minus = (b1, p1)"
    by fastforce
  obtain b2 p2 where 2: "expr_match s e p1 ch_tilde = (b2, p2)"
    by fastforce
  obtain b3 p3 where 3: "expr_match s e p2 ch_lparen = (b3, p3)"
    by fastforce
  show ?thesis
    using expr_match_bounds(1,2) [of s e p ch_minus p1] expr_match_bounds(1,2) [of s e p1 ch_tilde p2]
      expr_match_bounds(1,2) [of s e p2 ch_lparen p3] expr_skip_ws_bounds [of p3 s e] 1 2 3
    by (cases b1; cases b2; cases b3) (simp_all add: expr_head_def)
qed

lemma parse_number_bounds:
  assumes "parse_number s p = Inr (v, q)"
  shows "p < q \<and> q \<le> length s"
proof -
  obtain f where num: "bp_num_u32 s p = Some (v, f, q)"
    using assms by (auto simp: parse_number_def split: option.splits)
  have "at s p \<noteq> 0"
  proof
    assume "at s p = 0"
    then have "bp_num_u32 s p = None"
      by (simp add: bp_num_u32_def)
    then show False
      using num by simp
  qed
  then show ?thesis
    using bp_num_u32_advance [OF num] at_nonzero_less [of s p] by simp
qed

lemma close_paren_bounds: "close_paren s e v p = Inr (w, q) \<Longrightarrow> p < q \<and> q \<le> e"
  by (auto simp: close_paren_def split: prod.splits bool.splits dest: expr_match_bounds)

fun call_pos :: "expr_call \<Rightarrow> nat" where
  "call_pos (Primary p) = p"
| "call_pos (Level l p) = p"
| "call_pos (Level_Loop l v p) = p"

fun level_rank :: "expr_level \<Rightarrow> nat" where
  "level_rank L_mul = 1"
| "level_rank L_add = 2"
| "level_rank L_shift = 3"
| "level_rank L_and = 4"
| "level_rank L_xor = 5"
| "level_rank L_or = 6"

fun call_rank :: "expr_call \<Rightarrow> nat" where
  "call_rank (Level l p) = level_rank l"
| "call_rank _ = 0"

lemma call_rank_le: "call_rank c \<le> 6"
proof -
  have "level_rank l \<le> 6" for l
    by (cases l) simp_all
  then show ?thesis
    by (cases c) simp_all
qed

text \<open>A call moves forward and stays inside of the text; a loop may stay where it is.\<close>

definition expr_error :: "bp_expr_err \<Rightarrow> bool" where
  "expr_error err \<longleftrightarrow> err \<in> {BP_EXPR_ERR_SYNTAX, BP_EXPR_ERR_PAREN, BP_EXPR_ERR_DIV_ZERO}"

fun call_result :: "cstr \<Rightarrow> nat \<Rightarrow> expr_call \<Rightarrow> expr_result \<Rightarrow> bool" where
  "call_result s e c (Inl err) \<longleftrightarrow> expr_error err"
| "call_result s e (Level_Loop l v p) (Inr (w, q)) \<longleftrightarrow> p \<le> q \<and> (p \<le> max e (length s) \<longrightarrow> q \<le> max e (length s))"
| "call_result s e c (Inr (w, q)) \<longleftrightarrow> call_pos c < q \<and> q \<le> max e (length s)"

lemma operand_call_simps [simp]:
  "call_pos (operand_call l p) = p" "call_rank (operand_call l p) < level_rank l"
  "call_result s e (operand_call l p) (Inr (w, q)) \<longleftrightarrow> p < q \<and> q \<le> max e (length s)"
  by (cases l; simp)+

lemma expr_errors:
  "parse_number s p = Inl err \<Longrightarrow> expr_error err"
  "close_paren s e v p = Inl err \<Longrightarrow> expr_error err"
  "apply_op d v w = Inl err \<Longrightarrow> expr_error err"
  by (auto simp: parse_number_def close_paren_def expr_error_def split: option.splits prod.splits bool.splits)
    (cases d; auto split: if_splits)

lemma expr_parse_returns:
  "\<exists>r. expr_parse s e c = Some r \<and> call_result s e c r"
proof (induction "(max e (length s) - call_pos c) * 7 + call_rank c" arbitrary: c rule: less_induct)
  case less
  let ?B = "max e (length s)"
  have sub: "\<exists>r. expr_parse s e c' = Some r \<and> call_result s e c' r"
    if "call_pos c < call_pos c' \<and> call_pos c' \<le> ?B \<or> call_pos c' = call_pos c \<and> call_rank c' < call_rank c" for c'
  proof (rule less)
    have "call_rank c' \<le> 6"
      by (rule call_rank_le)
    then show "(?B - call_pos c') * 7 + call_rank c' < (?B - call_pos c) * 7 + call_rank c"
      using that by auto
  qed
  have loop: "\<exists>r. expr_parse s e (Level_Loop l v q) = Some r \<and> call_result s e (Level_Loop l v q) r"
    if "call_pos c < q" "q \<le> ?B" for l v q
    using sub [of "Level_Loop l v q"] that by simp
  show ?case
  proof (cases c)
    case (Primary p)
    show ?thesis
    proof (cases "expr_head s e p")
      case (Negate q)
      then have q: "p < q" "q \<le> e"
        using expr_head_bounds [of p e s] by simp_all
      then obtain r where r: "expr_parse s e (Primary q) = Some r" "call_result s e (Primary q) r"
        using sub [of "Primary q"] by (auto simp: Primary le_max_iff_disj)
      then show ?thesis
        using q by (cases r) (auto simp: expr_parse.simps [of s e "Primary p"] Primary Negate)
    next
      case (Complement q)
      then have q: "p < q" "q \<le> e"
        using expr_head_bounds [of p e s] by simp_all
      then obtain r where r: "expr_parse s e (Primary q) = Some r" "call_result s e (Primary q) r"
        using sub [of "Primary q"] by (auto simp: Primary le_max_iff_disj)
      then show ?thesis
        using q by (cases r) (auto simp: expr_parse.simps [of s e "Primary p"] Primary Complement)
    next
      case (Open q)
      then have q: "p < q" "q \<le> e"
        using expr_head_bounds [of p e s] by simp_all
      then obtain r where r: "expr_parse s e (Level L_or q) = Some r" "call_result s e (Level L_or q) r"
        using sub [of "Level L_or q"] by (auto simp: Primary le_max_iff_disj)
      show ?thesis
      proof (cases r)
        case (Inl err)
        then show ?thesis
          using r by (simp add: expr_parse.simps [of s e "Primary p"] Primary Open)
      next
        case (Inr vq)
        obtain v q1 where vq: "vq = (v, q1)"
          by fastforce
        have "call_result s e (Primary p) (close_paren s e v q1)"
          using close_paren_bounds [of s e v q1] expr_errors(2) [of s e v q1] r(2) q Inr vq by (cases "close_paren s e v q1") auto
        then show ?thesis
          using r by (simp add: expr_parse.simps [of s e "Primary p"] Primary Open Inr vq)
      qed
    next
      case (Literal q)
      then have "p \<le> q"
        using expr_head_bounds [of p e s] by simp
      then have "call_result s e (Primary p) (parse_number s q)"
        using parse_number_bounds [of s q] expr_errors(1) [of s q] by (cases "parse_number s q") auto
      then show ?thesis
        by (simp add: expr_parse.simps [of s e "Primary p"] Primary Literal)
    qed
  next
    case (Level l p)
    obtain r where r: "expr_parse s e (operand_call l p) = Some r" "call_result s e (operand_call l p) r"
      using sub [of "operand_call l p"] by (auto simp: Level)
    show ?thesis
    proof (cases r)
      case (Inl err)
      then show ?thesis
        using r by (simp add: expr_parse.simps [of s e "Level l p"] Level)
    next
      case (Inr vq)
      obtain v q where vq: "vq = (v, q)"
        by fastforce
      have q: "p < q" "q \<le> ?B"
        using r(2) by (simp_all add: Inr vq)
      then obtain r' where "expr_parse s e (Level_Loop l v q) = Some r'" "call_result s e (Level_Loop l v q) r'"
        using loop [of q l v] by (auto simp: Level)
      then show ?thesis
        using r q by (cases r') (auto simp: expr_parse.simps [of s e "Level l p"] Level Inr vq)
    qed
  next
    case (Level_Loop l v p)
    obtain d q where m: "match_level l s e p = (d, q)"
      by fastforce
    show ?thesis
    proof (cases d)
      case None
      then show ?thesis
        using match_level_bounds [OF m] by (auto simp: expr_parse.simps [of s e "Level_Loop l v p"] Level_Loop m)
    next
      case (Some o1)
      then have q: "p < q" "q \<le> e"
        using match_level_bounds [OF m] by simp_all
      then obtain r where r: "expr_parse s e (operand_call l q) = Some r" "call_result s e (operand_call l q) r"
        using sub [of "operand_call l q"] by (auto simp: Level_Loop le_max_iff_disj)
      show ?thesis
      proof (cases r)
        case (Inl err)
        then show ?thesis
          using r by (simp add: expr_parse.simps [of s e "Level_Loop l v p"] Level_Loop m Some)
      next
        case (Inr vq)
        obtain rhs q1 where vq: "vq = (rhs, q1)"
          by fastforce
        have q1: "q < q1" "q1 \<le> ?B"
          using r(2) by (simp_all add: Inr vq)
        show ?thesis
        proof (cases "apply_op o1 v rhs")
          case err: (Inl err)
          then show ?thesis
            using r expr_errors(3) [OF err] by (simp add: expr_parse.simps [of s e "Level_Loop l v p"] Level_Loop m Some Inr vq)
        next
          case val: (Inr w)
          obtain r' where "expr_parse s e (Level_Loop l w q1) = Some r'" "call_result s e (Level_Loop l w q1) r'"
            using loop [of q1 l w] q q1 by (auto simp: Level_Loop le_max_iff_disj)
          then show ?thesis
            using r q q1 val by (cases r') (auto simp: expr_parse.simps [of s e "Level_Loop l v p"] Level_Loop m Some Inr vq)
        qed
      qed
    qed
  qed
qed

end
