(* ===== verification/Bp_Expr_Text.thy ===== *)
theory Bp_Expr_Text
  imports Bp_Expr
begin

text \<open>
  What the evaluator computes: the abstract syntax of expressions, their value, their text with
  as few parentheses as the precedences allow, and the theorem that evaluating the text gives
  the value.
\<close>

datatype expr = Lit nat | Neg expr | Com expr | Bin expr_op expr expr

fun op_level :: "expr_op \<Rightarrow> expr_level" where
  "op_level Op_or = L_or"
| "op_level Op_xor = L_xor"
| "op_level Op_and = L_and"
| "op_level Op_shl = L_shift"
| "op_level Op_shr = L_shift"
| "op_level Op_add = L_add"
| "op_level Op_sub = L_add"
| "op_level Op_mul = L_mul"
| "op_level Op_div = L_mul"
| "op_level Op_mod = L_mul"

abbreviation op_rank :: "expr_op \<Rightarrow> nat" where
  "op_rank d \<equiv> level_rank (op_level d)"

fun op_symbol :: "expr_op \<Rightarrow> cstr" where
  "op_symbol Op_or = [ch_bar]"
| "op_symbol Op_xor = [ch_caret]"
| "op_symbol Op_and = [ch_amp]"
| "op_symbol Op_shl = [ch_lt, ch_lt]"
| "op_symbol Op_shr = [ch_gt, ch_gt]"
| "op_symbol Op_add = [ch_plus]"
| "op_symbol Op_sub = [ch_minus]"
| "op_symbol Op_mul = [ch_star]"
| "op_symbol Op_div = [ch_slash]"
| "op_symbol Op_mod = [ch_percent]"

fun expr_ok :: "expr \<Rightarrow> bool" where
  "expr_ok (Lit n) \<longleftrightarrow> n < 2 ^ 32"
| "expr_ok (Neg x) \<longleftrightarrow> expr_ok x"
| "expr_ok (Com x) \<longleftrightarrow> expr_ok x"
| "expr_ok (Bin d x y) \<longleftrightarrow> expr_ok x \<and> expr_ok y"

fun expr_value :: "expr \<Rightarrow> bp_expr_err + u32" where
  "expr_value (Lit n) = Inr (of_nat n)"
| "expr_value (Neg x) = map_sum id uminus (expr_value x)"
| "expr_value (Com x) = map_sum id not (expr_value x)"
| "expr_value (Bin d x y) =
     (case expr_value x of Inl err \<Rightarrow> Inl err
      | Inr v \<Rightarrow> (case expr_value y of Inl err \<Rightarrow> Inl err | Inr w \<Rightarrow> apply_op d v w))"

text \<open>\<open>expr_text k e\<close>: the text where operators up to rank \<open>k\<close> need no parentheses.\<close>

fun expr_text :: "nat \<Rightarrow> expr \<Rightarrow> cstr" where
  "expr_text k (Lit n) = dec_string n"
| "expr_text k (Neg x) = ch_minus # expr_text 0 x"
| "expr_text k (Com x) = ch_tilde # expr_text 0 x"
| "expr_text k (Bin d x y) =
     (let body = expr_text (op_rank d) x @ ch_space # op_symbol d @ ch_space # expr_text (op_rank d - 1) y
      in if op_rank d \<le> k then body else ch_lparen # body @ [ch_rparen])"

subsection \<open>Spaces do not matter\<close>

lemma skip_ws_idem [simp]: "expr_skip_ws s e (expr_skip_ws s e p) = expr_skip_ws s e p"
proof (induction s e p rule: expr_skip_ws.induct)
  case (1 s e p)
  show ?case
  proof (cases "p < e \<and> (at s p = ch_space \<or> at s p = ch_tab)")
    case True
    then have "expr_skip_ws s e p = expr_skip_ws s e (p + 1)"
      by (subst expr_skip_ws.simps) simp
    then show ?thesis
      using 1 [OF True] by simp
  next
    case False
    then have "expr_skip_ws s e p = p"
      by (subst expr_skip_ws.simps) auto
    then show ?thesis
      by simp
  qed
qed

lemma match_skip [simp]:
  "expr_match s e (expr_skip_ws s e p) c = expr_match s e p c"
  "expr_match2 s e (expr_skip_ws s e p) c d = expr_match2 s e p c d"
  "expr_match_single s e (expr_skip_ws s e p) c = expr_match_single s e p c"
  by (simp_all add: expr_match_def expr_match2_def expr_match_single_def expr_peek_def)

lemma match_level_skip [simp]: "match_level l s e (expr_skip_ws s e p) = match_level l s e p"
  by (cases l) (simp_all add: match_level_def)

lemma expr_head_skip [simp]: "expr_head s e (expr_skip_ws s e p) = expr_head s e p"
  by (simp add: expr_head_def)

fun level_of :: "nat \<Rightarrow> expr_level" where
  "level_of (Suc 0) = L_mul"
| "level_of (Suc (Suc 0)) = L_add"
| "level_of (Suc (Suc (Suc 0))) = L_shift"
| "level_of (Suc (Suc (Suc (Suc 0)))) = L_and"
| "level_of (Suc (Suc (Suc (Suc (Suc 0))))) = L_xor"
| "level_of _ = L_or"

lemma level_of_rank [simp]: "level_of (level_rank l) = l"
  by (cases l) (simp_all add: numeral_eq_Suc)

fun rank_call :: "nat \<Rightarrow> nat \<Rightarrow> expr_call" where
  "rank_call 0 p = Primary p"
| "rank_call (Suc k) p = Level (level_of (Suc k)) p"

lemma operand_rank: "k < 6 \<Longrightarrow> operand_call (level_of (Suc k)) p = rank_call k p"
  by (cases "(Suc k, p)" rule: rank_call.cases; cases "Suc k" rule: level_of.cases) (auto simp: less_Suc_eq numeral_eq_Suc)

lemma loop_skip: "expr_parse s e (Level_Loop l v (expr_skip_ws s e p)) = expr_parse s e (Level_Loop l v p)"
  by (simp add: expr_parse.simps [of s e "Level_Loop l v p"]
      expr_parse.simps [of s e "Level_Loop l v (expr_skip_ws s e p)"])

lemma rank_call_skip: "k \<le> 6 \<Longrightarrow> expr_parse s e (rank_call k (expr_skip_ws s e p)) = expr_parse s e (rank_call k p)"
proof (induction k)
  case 0
  then show ?case
    by (simp add: expr_parse.simps [of s e "Primary p"] expr_parse.simps [of s e "Primary (expr_skip_ws s e p)"])
next
  case (Suc k)
  then show ?case
    by (simp add: expr_parse.simps [of s e "Level l p" for l p] operand_rank)
qed
subsection \<open>What may follow an operand\<close>

text \<open>Behind an operand of rank \<open>k\<close>: the end, a closing parenthesis, or an operator of at least
  that rank.\<close>

definition follows :: "nat \<Rightarrow> cstr \<Rightarrow> bool" where
  "follows k rest \<longleftrightarrow> rest = [] \<or> (\<exists>t. rest = ch_rparen # t) \<or>
     (\<exists>d t. rest = ch_space # op_symbol d @ ch_space # t \<and> k \<le> op_rank d)"

lemma follows_le: "follows k rest \<Longrightarrow> j \<le> k \<Longrightarrow> follows j rest"
  unfolding follows_def using le_trans by blast

lemma follows_decimal: "follows k rest \<Longrightarrow> ends_decimal rest"
  by (auto simp: follows_def ends_decimal_def bp_num_is_dec_def)

lemma skip_at: "p < e \<Longrightarrow> at s p \<noteq> ch_space \<Longrightarrow> at s p \<noteq> ch_tab \<Longrightarrow> expr_skip_ws s e p = p"
  by (subst expr_skip_ws.simps) auto

lemma skip_end: "e \<le> p \<Longrightarrow> expr_skip_ws s e p = p"
  by (subst expr_skip_ws.simps) auto

lemma skip_space: "p < e \<Longrightarrow> at s p = ch_space \<Longrightarrow> expr_skip_ws s e p = expr_skip_ws s e (p + 1)"
  by (subst expr_skip_ws.simps) auto

text \<open>The symbol of an operator behind a space, as the matchers of a level see it.\<close>

definition first_two :: "cstr \<Rightarrow> nat \<Rightarrow> u8 \<Rightarrow> u8 \<Rightarrow> bool" where
  "first_two s p a b \<longleftrightarrow> p + 1 < length s \<and> at s p = a \<and> at s (p + 1) = b"

lemma match_first_two:
  assumes "first_two s q a b" "a \<noteq> ch_space" "a \<noteq> ch_tab" "expr_skip_ws s (length s) p = q"
  shows "expr_match s (length s) p c = (if a = c then (True, q + 1) else (False, q))"
    and "expr_match2 s (length s) p c d = (if a = c \<and> b = d then (True, q + 2) else (False, q))"
    and "expr_match_single s (length s) p c = (if a = c \<and> b \<noteq> c then (True, q + 1) else (False, q))"
  using assms
  by (auto simp: expr_match_def expr_match2_def expr_match_single_def expr_peek_def first_two_def Let_def)

definition symbol_first :: "expr_op \<Rightarrow> u8" where
  "symbol_first d = hd (op_symbol d)"

definition symbol_second :: "expr_op \<Rightarrow> u8" where
  "symbol_second d = hd (tl (op_symbol d @ [ch_space]))"

lemma symbol_not_space: "symbol_first d \<noteq> ch_space" "symbol_first d \<noteq> ch_tab"
  by (cases d; simp add: symbol_first_def)+

lemma first_two_symbol:
  "first_two (pre @ op_symbol d @ ch_space # t) (length pre) (symbol_first d) (symbol_second d)"
  using at_append_right [of pre "op_symbol d @ ch_space # t" 1]
  by (cases d) (simp_all add: first_two_def symbol_first_def symbol_second_def)

lemma match_level_symbol:
  assumes "first_two s q (symbol_first d) (symbol_second d)" "expr_skip_ws s (length s) p = q"
  shows "match_level l s (length s) p =
    (if op_level d = l then (Some d, q + length (op_symbol d)) else (None, q))"
proof -
  have q: "expr_skip_ws s (length s) q = q"
    using assms(2) by auto
  note m = match_first_two [OF assms(1) symbol_not_space [of d] assms(2)]
    match_first_two [OF assms(1) symbol_not_space [of d] q]
  show ?thesis
    by (cases l; cases d) (simp_all add: match_level_def m symbol_first_def symbol_second_def)
qed

lemma at_follows:
  assumes "\<forall>d t. rest \<noteq> ch_space # op_symbol d @ ch_space # t" "follows k rest"
  shows "at (pre @ rest) (length pre) \<in> {0, ch_rparen}"
    and "expr_skip_ws (pre @ rest) (length (pre @ rest)) (length pre) = length pre"
  using assms by (auto simp: follows_def skip_at skip_end)

lemma match_level_follows:
  assumes "follows k rest" "level_rank l < k"
  shows "match_level l (pre @ rest) (length (pre @ rest)) (length pre) =
    (None, expr_skip_ws (pre @ rest) (length (pre @ rest)) (length pre))"
proof (cases "\<exists>d t. rest = ch_space # op_symbol d @ ch_space # t \<and> k \<le> op_rank d")
  case True
  then obtain d t where rest: "rest = ch_space # op_symbol d @ ch_space # t" "k \<le> op_rank d"
    by blast
  let ?s = "pre @ rest" and ?q = "length (pre @ [ch_space])"
  have two: "first_two ?s ?q (symbol_first d) (symbol_second d)"
    using first_two_symbol [of "pre @ [ch_space]" d t] by (simp add: rest(1))
  have "expr_skip_ws ?s (length ?s) (length pre) = expr_skip_ws ?s (length ?s) ?q"
    using skip_space [of "length pre" "length ?s" ?s] by (simp add: rest(1))
  also have "\<dots> = ?q"
    using two symbol_not_space [of d] by (intro skip_at) (auto simp: first_two_def)
  finally have skip: "expr_skip_ws ?s (length ?s) (length pre) = ?q" .
  have "op_level d \<noteq> l"
    using rest(2) assms(2) by auto
  then show ?thesis
    using match_level_symbol [OF two skip, of l] skip by simp
next
  case False
  then have rest: "rest = [] \<or> (\<exists>t. rest = ch_rparen # t)"
    using assms(1) by (auto simp: follows_def)
  let ?s = "pre @ rest"
  have skip: "expr_skip_ws ?s (length ?s) (length pre) = length pre"
    using rest by (auto simp: skip_at skip_end)
  then show ?thesis
    using rest
    by (cases l) (auto simp: match_level_def expr_match_def expr_match2_def expr_match_single_def expr_peek_def Let_def)
qed

lemma loop_stops:
  assumes "follows k rest" "level_rank l < k"
  shows "expr_parse (pre @ rest) (length (pre @ rest)) (Level_Loop l v (length pre)) =
    Some (Inr (v, expr_skip_ws (pre @ rest) (length (pre @ rest)) (length pre)))"
  using match_level_follows [OF assms, of pre] by (simp add: expr_parse.simps [of _ _ "Level_Loop l v p" for l v p])

subsection \<open>Parsing a text\<close>

definition after_loop :: "nat \<Rightarrow> cstr \<Rightarrow> bp_expr_err + u32 \<Rightarrow> nat \<Rightarrow> expr_result option" where
  "after_loop k s r p =
     (case r of
        Inl err \<Rightarrow> Some (Inl err)
      | Inr v \<Rightarrow> (if k = 0 then Some (Inr (v, p)) else expr_parse s (length s) (Level_Loop (level_of k) v p)))"

text \<open>Parsing the text \<open>x\<close> with the value \<open>r\<close> at rank \<open>k\<close>.\<close>

definition parses :: "nat \<Rightarrow> cstr \<Rightarrow> bp_expr_err + u32 \<Rightarrow> bool" where
  "parses k x r \<longleftrightarrow> (\<forall>pre rest. follows k rest \<longrightarrow>
     expr_parse (pre @ x @ rest) (length (pre @ x @ rest)) (rank_call k (length pre)) =
       after_loop k (pre @ x @ rest) r (length (pre @ x)))"

lemma parsesD:
  "parses k x r \<Longrightarrow> follows k rest \<Longrightarrow> s = pre @ x @ rest \<Longrightarrow>
    expr_parse s (length s) (rank_call k (length pre)) = after_loop k s r (length (pre @ x))"
  by (simp add: parses_def)

lemma level_rank_of: "0 < k \<Longrightarrow> k \<le> 6 \<Longrightarrow> level_rank (level_of k) = k"
  by (cases k rule: level_of.cases) (auto simp: numeral_eq_Suc)

text \<open>What parses at one rank parses at the next, where the loop finds nothing more.\<close>

lemma after_loop_returns:
  assumes "follows (Suc k) rest" "k < 6"
  shows "\<exists>q. expr_skip_ws (pre @ rest) (length (pre @ rest)) q = expr_skip_ws (pre @ rest) (length (pre @ rest)) (length pre) \<and>
    after_loop k (pre @ rest) (Inr v) (length pre) = Some (Inr (v, q))"
proof (cases "k = 0")
  case True
  then show ?thesis
    by (auto simp: after_loop_def)
next
  case False
  then have "after_loop k (pre @ rest) (Inr v) (length pre) =
      Some (Inr (v, expr_skip_ws (pre @ rest) (length (pre @ rest)) (length pre)))"
    using loop_stops [OF assms(1), of "level_of k" pre v] assms(2) level_rank_of [of k]
    by (simp add: after_loop_def)
  then show ?thesis
    by (intro exI [of _ "expr_skip_ws (pre @ rest) (length (pre @ rest)) (length pre)"]) simp
qed

lemma parse_Level:
  "expr_parse s e (Level l p) = Option.bind (expr_parse s e (operand_call l p)) (\<lambda>r. case r of
     Inl err \<Rightarrow> Some (Inl err) | Inr (v, q) \<Rightarrow> expr_parse s e (Level_Loop l v q))"
  by (subst expr_parse.simps) simp

lemma parses_Suc:
  assumes "parses k x r" "k < 6"
  shows "parses (Suc k) x r"
  unfolding parses_def
proof (intro allI impI)
  fix pre rest
  assume rest: "follows (Suc k) rest"
  let ?s = "pre @ x @ rest"
  have sub: "expr_parse ?s (length ?s) (rank_call k (length pre)) = after_loop k ?s r (length (pre @ x))"
    using assms(1) follows_le [OF rest, of k] by (intro parsesD) simp_all
  have step: "expr_parse ?s (length ?s) (rank_call (Suc k) (length pre)) =
      Option.bind (after_loop k ?s r (length (pre @ x))) (\<lambda>r. case r of
        Inl err \<Rightarrow> Some (Inl err) | Inr (v, q) \<Rightarrow> expr_parse ?s (length ?s) (Level_Loop (level_of (Suc k)) v q))"
    unfolding rank_call.simps parse_Level operand_rank [OF assms(2)] sub by (rule refl)
  show "expr_parse ?s (length ?s) (rank_call (Suc k) (length pre)) = after_loop (Suc k) ?s r (length (pre @ x))"
  proof (cases r)
    case (Inl err)
    then show ?thesis
      using step by (simp add: after_loop_def)
  next
    case (Inr v)
    obtain q where q: "expr_skip_ws ?s (length ?s) q = expr_skip_ws ?s (length ?s) (length (pre @ x))"
        "after_loop k ?s (Inr v) (length (pre @ x)) = Some (Inr (v, q))"
      using after_loop_returns [OF rest assms(2), of "pre @ x" v] by auto
    show ?thesis
      using step q(2) loop_skip [of ?s "length ?s" "level_of (Suc k)" v q]
        loop_skip [of ?s "length ?s" "level_of (Suc k)" v "length (pre @ x)"] q(1)
      by (simp add: Inr after_loop_def [of "Suc k"])
  qed
qed

lemma parses_le: "parses j x r \<Longrightarrow> j \<le> k \<Longrightarrow> k \<le> 6 \<Longrightarrow> parses k x r"
proof (induction k)
  case (Suc k)
  then show ?case
    using parses_Suc [of k x r] by (cases "j = Suc k") auto
qed simp

subsection \<open>The forms of a text\<close>

lemma parse_Primary:
  "expr_head s e p = Literal q \<Longrightarrow> expr_parse s e (Primary p) = Some (parse_number s q)"
  "expr_head s e p = Negate q \<Longrightarrow> expr_parse s e (Primary p) = Option.bind (expr_parse s e (Primary q))
     (\<lambda>r. case r of Inl err \<Rightarrow> Some (Inl err) | Inr (v, q) \<Rightarrow> Some (Inr (- v, q)))"
  "expr_head s e p = Complement q \<Longrightarrow> expr_parse s e (Primary p) = Option.bind (expr_parse s e (Primary q))
     (\<lambda>r. case r of Inl err \<Rightarrow> Some (Inl err) | Inr (v, q) \<Rightarrow> Some (Inr (NOT v, q)))"
  "expr_head s e p = Open q \<Longrightarrow> expr_parse s e (Primary p) = Option.bind (expr_parse s e (Level L_or q))
     (\<lambda>r. case r of Inl err \<Rightarrow> Some (Inl err) | Inr (v, q) \<Rightarrow> Some (close_paren s e v q))"
  by (subst expr_parse.simps, simp)+

lemma match_here:
  assumes "at s p \<noteq> ch_space" "at s p \<noteq> ch_tab" "p < e"
  shows "expr_match s e p c = (if at s p = c then (True, p + 1) else (False, p))"
  using assms by (simp add: expr_match_def expr_peek_def skip_at)

lemma head_here:
  assumes "p < e"
  shows "at s p = ch_minus \<Longrightarrow> expr_head s e p = Negate (p + 1)"
    and "at s p = ch_tilde \<Longrightarrow> expr_head s e p = Complement (p + 1)"
    and "at s p = ch_lparen \<Longrightarrow> expr_head s e p = Open (p + 1)"
    and "at s p \<notin> {ch_minus, ch_tilde, ch_lparen, ch_space, ch_tab} \<Longrightarrow> expr_head s e p = Literal p"
  using assms by (simp_all add: expr_head_def match_here skip_at)

lemma parses_Lit:
  assumes "n < 2 ^ 32"
  shows "parses 0 (dec_string n) (Inr (of_nat n))"
  unfolding parses_def
proof (intro allI impI)
  fix pre rest
  assume rest: "follows 0 rest"
  let ?s = "pre @ dec_string n @ rest"
  obtain d es where d: "dec_string n = dec_char d # es" "d < 10"
    using dec_string_first .
  have "expr_head ?s (length ?s) (length pre) = Literal (length pre)"
    using d by (intro head_here) (simp_all add: dec_char_not_special)
  then show "expr_parse ?s (length ?s) (rank_call 0 (length pre)) =
      after_loop 0 ?s (Inr (of_nat n)) (length (pre @ dec_string n))"
    using bp_num_u32_dec_string [OF assms follows_decimal [OF rest], of pre]
    by (simp add: parse_Primary(1) parse_number_def after_loop_def)
qed

lemma parses_unary:
  assumes "parses 0 x r"
  shows "parses 0 (ch_minus # x) (map_sum id uminus r)"
    and "parses 0 (ch_tilde # x) (map_sum id not r)"
proof -
  have sub: "expr_parse (pre @ c # x @ rest) (length (pre @ c # x @ rest)) (Primary (length pre + 1)) =
      after_loop 0 (pre @ c # x @ rest) r (length (pre @ c # x))" if "follows 0 rest" for pre c rest
    using parsesD [OF assms that, of "pre @ c # x @ rest" "pre @ [c]"] by simp
  have h: "at (pre @ c # x @ rest) (length pre) = c" "length pre < length (pre @ c # x @ rest)" for pre c rest
    by simp_all
  show "parses 0 (ch_minus # x) (map_sum id uminus r)"
    unfolding parses_def
  proof (intro allI impI)
    fix pre rest assume "follows 0 rest"
    with sub [of rest pre ch_minus] head_here(1) [OF h(2) [of pre ch_minus rest] h(1)]
    show "expr_parse (pre @ (ch_minus # x) @ rest) (length (pre @ (ch_minus # x) @ rest)) (rank_call 0 (length pre)) =
      after_loop 0 (pre @ (ch_minus # x) @ rest) (map_sum id uminus r) (length (pre @ ch_minus # x))"
      by (cases r) (simp_all add: parse_Primary(2) after_loop_def)
  qed
  show "parses 0 (ch_tilde # x) (map_sum id not r)"
    unfolding parses_def
  proof (intro allI impI)
    fix pre rest assume "follows 0 rest"
    with sub [of rest pre ch_tilde] head_here(2) [OF h(2) [of pre ch_tilde rest] h(1)]
    show "expr_parse (pre @ (ch_tilde # x) @ rest) (length (pre @ (ch_tilde # x) @ rest)) (rank_call 0 (length pre)) =
      after_loop 0 (pre @ (ch_tilde # x) @ rest) (map_sum id not r) (length (pre @ ch_tilde # x))"
      by (cases r) (simp_all add: parse_Primary(3) after_loop_def)
  qed
qed

lemma follows_paren [simp]: "follows k (ch_rparen # t)"
  by (auto simp: follows_def)

lemma parses_paren:
  assumes "parses 6 x r"
  shows "parses 0 (ch_lparen # x @ [ch_rparen]) r"
  unfolding parses_def
proof (intro allI impI)
  fix pre rest
  let ?s = "pre @ (ch_lparen # x @ [ch_rparen]) @ rest" and ?in = "pre @ ch_lparen # x"
  have h: "expr_head ?s (length ?s) (length pre) = Open (length pre + 1)"
    by (intro head_here) simp_all
  have sub: "expr_parse ?s (length ?s) (Level L_or (length pre + 1)) = after_loop 6 ?s r (length ?in)"
    using parsesD [OF assms, of "ch_rparen # rest" ?s "pre @ [ch_lparen]"] by (simp add: numeral_eq_Suc)
  have s: "?s = ?in @ ch_rparen # rest"
    by simp
  have a: "at ?s (length ?in) = ch_rparen"
    unfolding s by (simp only: at_append_right0) simp
  have skip: "expr_skip_ws ?s (length ?s) (length ?in) = length ?in"
    using a by (intro skip_at) simp_all
  have loop: "expr_parse ?s (length ?s) (Level_Loop L_or v (length ?in)) = Some (Inr (v, length ?in))" for v
    using loop_stops [of 7 "ch_rparen # rest" L_or ?in v] skip unfolding s by simp
  have close: "close_paren ?s (length ?s) v (length ?in) = Inr (v, length ?in + 1)" for v
    unfolding close_paren_def using a by (subst match_here) simp_all
  show "expr_parse ?s (length ?s) (rank_call 0 (length pre)) =
      after_loop 0 ?s r (length (pre @ ch_lparen # x @ [ch_rparen]))"
    unfolding rank_call.simps parse_Primary(4) [OF h] sub after_loop_def
    using loop close by (cases r) (simp_all add: numeral_eq_Suc)
qed

lemma apply_op_loop:
  "match_level l s e p = (Some d, q) \<Longrightarrow> expr_parse s e (Level_Loop l v p) =
     Option.bind (expr_parse s e (operand_call l q)) (\<lambda>r. case r of
       Inl err \<Rightarrow> Some (Inl err)
     | Inr (rhs, q') \<Rightarrow> (case apply_op d v rhs of
         Inl err \<Rightarrow> Some (Inl err)
       | Inr v' \<Rightarrow> expr_parse s e (Level_Loop l v' q')))"
  by (subst expr_parse.simps) simp

lemma op_rank_range: "0 < op_rank d" "op_rank d \<le> 6"
  by (cases d; simp)+

lemma operand_op: "operand_call (op_level d) p = rank_call (op_rank d - 1) p"
  using operand_rank [of "op_rank d - 1" p] op_rank_range [of d] by simp

definition binary_text :: "cstr \<Rightarrow> expr_op \<Rightarrow> cstr \<Rightarrow> cstr" where
  "binary_text x d y = x @ ch_space # op_symbol d @ ch_space # y"

definition apply_results :: "expr_op \<Rightarrow> bp_expr_err + u32 \<Rightarrow> bp_expr_err + u32 \<Rightarrow> bp_expr_err + u32" where
  "apply_results d rx ry =
     (case rx of Inl err \<Rightarrow> Inl err | Inr v \<Rightarrow> (case ry of Inl err \<Rightarrow> Inl err | Inr w \<Rightarrow> apply_op d v w))"

text \<open>The operator behind its left operand, as the loop of its level finds it.\<close>

lemma match_level_operator:
  assumes "s = pre @ ch_space # op_symbol d @ ch_space # t"
  shows "match_level (op_level d) s (length s) (length pre) = (Some d, length (pre @ ch_space # op_symbol d))"
proof -
  have two: "first_two s (length (pre @ [ch_space])) (symbol_first d) (symbol_second d)"
    using first_two_symbol [of "pre @ [ch_space]" d t] by (simp add: assms)
  have "expr_skip_ws s (length s) (length pre) = expr_skip_ws s (length s) (length (pre @ [ch_space]))"
    using skip_space [of "length pre" "length s" s] by (simp add: assms)
  also have "\<dots> = length (pre @ [ch_space])"
    using two symbol_not_space [of d] by (intro skip_at) (auto simp: first_two_def)
  finally show ?thesis
    using match_level_symbol [OF two, of "length pre" "op_level d"] by simp
qed

lemma right_operand:
  assumes "parses k y r" "k < 6" "follows (Suc k) rest" "s = pre @ ch_space # y @ rest"
  shows "\<exists>q. expr_parse s (length s) (rank_call k (length pre)) =
      (case r of Inl err \<Rightarrow> Some (Inl err) | Inr w \<Rightarrow> Some (Inr (w, q))) \<and>
    expr_skip_ws s (length s) q = expr_skip_ws s (length s) (length (pre @ ch_space # y))"
proof -
  let ?pre = "pre @ [ch_space]"
  have skip: "expr_skip_ws s (length s) (length pre) = expr_skip_ws s (length s) (length ?pre)"
    using skip_space [of "length pre" "length s" s] by (simp add: assms(4))
  have "expr_parse s (length s) (rank_call k (length ?pre)) = after_loop k s r (length (?pre @ y))"
    using assms(4) follows_le [OF assms(3)] by (intro parsesD [OF assms(1), of rest]) simp_all
  then have sub: "expr_parse s (length s) (rank_call k (length pre)) = after_loop k s r (length (?pre @ y))"
    using rank_call_skip [of k s "length s" "length pre"] rank_call_skip [of k s "length s" "length ?pre"] assms(2) skip
    by simp
  have s: "s = (?pre @ y) @ rest"
    by (simp add: assms(4))
  show ?thesis
  proof (cases r)
    case (Inl err)
    then show ?thesis
      using sub by (auto simp: after_loop_def)
  next
    case (Inr w)
    then show ?thesis
      using sub after_loop_returns [OF assms(3,2), of "?pre @ y" w, folded s] by auto
  qed
qed

lemma parses_binary:
  assumes "parses (op_rank d) x rx" "parses (op_rank d - 1) y ry"
  shows "parses (op_rank d) (binary_text x d y) (apply_results d rx ry)"
  unfolding parses_def
proof (intro allI impI)
  fix pre rest
  assume rest: "follows (op_rank d) rest"
  define s where "s = pre @ binary_text x d y @ rest"
  let ?e = "length s" and ?left = "pre @ x" and ?op = "pre @ x @ ch_space # op_symbol d"
  let ?stop = "length (pre @ binary_text x d y)"
  have call: "expr_parse s ?e (rank_call (op_rank d) (length pre)) = after_loop (op_rank d) s rx (length ?left)"
    by (intro parsesD [OF assms(1), of "ch_space # op_symbol d @ ch_space # y @ rest"])
      (auto simp: s_def binary_text_def follows_def)
  have m: "match_level (op_level d) s ?e (length ?left) = (Some d, length ?op)"
    using match_level_operator [of s ?left d "y @ rest"] by (simp add: s_def binary_text_def)
  obtain q where q: "expr_parse s ?e (rank_call (op_rank d - 1) (length ?op)) =
      (case ry of Inl err \<Rightarrow> Some (Inl err) | Inr w \<Rightarrow> Some (Inr (w, q)))"
      "expr_skip_ws s ?e q = expr_skip_ws s ?e ?stop"
  proof -
    have "op_rank d - 1 < 6" "follows (Suc (op_rank d - 1)) rest"
      using op_rank_range [of d] rest by simp_all
    moreover have "s = ?op @ ch_space # y @ rest" "?op @ ch_space # y = pre @ binary_text x d y"
      by (simp_all add: s_def binary_text_def)
    ultimately show thesis
      using right_operand [OF assms(2), of rest s ?op] that by metis
  qed
  have loop: "expr_parse s ?e (Level_Loop l v q) = expr_parse s ?e (Level_Loop l v ?stop)" for l v
    using loop_skip [of s ?e l v q] loop_skip [of s ?e l v ?stop] q(2) by simp
  have "expr_parse s ?e (Level_Loop (op_level d) v (length ?left)) =
      after_loop (op_rank d) s (apply_results d (Inr v) ry) ?stop" for v
    unfolding apply_op_loop [OF m] operand_op q(1) after_loop_def apply_results_def level_of_rank
    using op_rank_range [of d] loop by (simp split: sum.split)
  then have "after_loop (op_rank d) s rx (length ?left) = after_loop (op_rank d) s (apply_results d rx ry) ?stop"
    using op_rank_range [of d] after_loop_def [of "op_rank d" s rx "length ?left"]
    by (cases rx) (simp_all add: apply_results_def [of _ "Inl err" for err] after_loop_def [of _ _ "Inl err" for err])
  with call show "expr_parse (pre @ binary_text x d y @ rest) (length (pre @ binary_text x d y @ rest))
      (rank_call (op_rank d) (length pre)) =
    after_loop (op_rank d) (pre @ binary_text x d y @ rest) (apply_results d rx ry) ?stop"
    by (simp add: s_def)
qed

lemma parses_text: "expr_ok x \<Longrightarrow> k \<le> 6 \<Longrightarrow> parses k (expr_text k x) (expr_value x)"
proof (induction x arbitrary: k)
  case (Lit n)
  then show ?case
    using parses_le [OF parses_Lit, of n k] by simp
next
  case (Neg x)
  then show ?case
    using parses_le [OF parses_unary(1), of "expr_text 0 x" "expr_value x" k] by simp
next
  case (Com x)
  then show ?case
    using parses_le [OF parses_unary(2), of "expr_text 0 x" "expr_value x" k] by simp
next
  case (Bin d x y)
  let ?body = "binary_text (expr_text (op_rank d) x) d (expr_text (op_rank d - 1) y)"
  have "parses (op_rank d) ?body (apply_results d (expr_value x) (expr_value y))"
    using Bin op_rank_range [of d] by (intro parses_binary) auto
  then have "parses j ?body (expr_value (Bin d x y))" if "op_rank d \<le> j" "j \<le> 6" for j
    using parses_le [of "op_rank d" ?body _ j] that by (simp add: apply_results_def)
  then show ?case
    using parses_le [OF parses_paren [of ?body "expr_value (Bin d x y)"], of k] Bin(4) op_rank_range [of d]
    by (simp add: binary_text_def Let_def)
qed

lemma text_no_nul: "0 \<notin> set (expr_text k x)"
proof (induction x arbitrary: k)
  case (Lit n)
  then show ?case
    using digits_of_less [of 10 n] by (auto simp: dec_string_def dec_char_not_special)
next
  case (Bin d x y)
  moreover have "0 \<notin> set (op_symbol d)"
    by (cases d) simp_all
  ultimately show ?case
    by (auto simp: Let_def)
qed auto

lemma text_nonempty: "expr_text k x \<noteq> []"
  by (cases x) (simp_all add: Let_def dec_string_def digits_of_nonempty)

text \<open>C32: the evaluator computes what the expression means. For every expression over the ten
  binary operators, negation, complement and decimal literals below 2^32, written with
  parentheses only where the precedences of the source (\<open>|\<close> lowest, then \<open>^\<close>, \<open>&\<close>, shifts,
  sums, products) and association to the left need them, \<open>bp_expr_eval\<close> returns its 32-bit
  value, or the division by zero that the evaluation from left to right reaches.\<close>

theorem bp_expr_eval_text:
  assumes "expr_ok x"
  shows "bp_expr_eval (expr_text 6 x) = Some (expr_value x)"
proof -
  define s where "s = expr_text 6 x"
  have s: "s \<noteq> []" "takeWhile (\<lambda>c. c \<noteq> 0) s = s"
  proof -
    have "\<forall>c \<in> set s. c \<noteq> 0"
      using text_no_nul [of 6 x] by (metis s_def)
    then show "takeWhile (\<lambda>c. c \<noteq> 0) s = s"
      by (simp add: takeWhile_eq_all_conv [THEN iffD2])
  qed (simp add: s_def text_nonempty)
  have level: "level_of 6 = L_or"
    by (simp add: numeral_eq_Suc)
  have "expr_parse s (length s) (rank_call 6 0) = after_loop 6 s (expr_value x) (length s)"
    using parsesD [OF parses_text [OF assms, of 6], of "[]" s "[]"] by (simp add: follows_def s_def)
  then have parse: "expr_parse s (length s) (Level L_or 0) = after_loop 6 s (expr_value x) (length s)"
    by (simp add: numeral_eq_Suc)
  have loop: "expr_parse s (length s) (Level_Loop L_or v (length s)) = Some (Inr (v, length s))" for v
    using loop_stops [of 7 "[]" L_or s v] by (simp add: follows_def skip_end)
  have "bp_expr_eval s = Some (expr_value x)"
    using s(1) by (cases "expr_value x")
      (simp_all add: bp_expr_eval_def bp_expr_eval_n_def s(2) parse after_loop_def level loop skip_end)
  then show ?thesis
    by (simp add: s_def)
qed

text \<open>\<open>1 + 2 * (3 - 5) << 5 | ~7\<close>.\<close>

theorem bp_expr_eval_text_witness:
  "bp_expr_eval (expr_text 6
     (Bin Op_or (Bin Op_shl (Bin Op_add (Lit 1) (Bin Op_mul (Lit 2) (Bin Op_sub (Lit 3) (Lit 5)))) (Lit 5))
       (Com (Lit 7)))) = Some (Inr 0xFFFFFFF8)"
    (is "bp_expr_eval (expr_text 6 ?x) = _")
proof -
  have ok: "expr_ok ?x"
    by simp
  have "expr_value ?x = Inr 0xFFFFFFF8"
    by code_simp
  then show ?thesis
    using bp_expr_eval_text [OF ok] by simp
qed

text \<open>C33: the evaluator always returns, whatever the text and the length are: with a value, or
  with one of four error codes. \<open>BP_EXPR_ERR_EMPTY\<close> is the answer exactly for the length 0, and
  the code for an expression that is too complex is never given.\<close>

theorem bp_expr_eval_n_returns:
  "\<exists>r. bp_expr_eval_n s len = Some r \<and> (r = Inl BP_EXPR_ERR_EMPTY \<longleftrightarrow> len = 0) \<and>
     r \<notin> {Inl BP_EXPR_OK, Inl BP_EXPR_ERR_OVERFLOW}"
proof (cases "len = 0")
  case False
  obtain r where r: "expr_parse s len (Level L_or 0) = Some r" "call_result s len (Level L_or 0) r"
    using expr_parse_returns by blast
  then show ?thesis
    using False by (cases r) (auto simp: bp_expr_eval_n_def expr_error_def Let_def)
qed (simp add: bp_expr_eval_n_def)

end
