(* ===== verification/Amux.thy ===== *)
theory Amux
  imports World
begin

text \<open>
  The analog multiplexer, the rest of \<^verbatim>\<open>src/pirate/amux.c\<close>: reading all channels into the global
  arrays, with the rolling averages. The macros \<open>hw_adc_to_volts_x2\<close> and \<open>_x1\<close> multiply in
  32-bit integers; a raw reading has 16 bits, so nothing overflows.
\<close>

definition amux_select_bio :: "nat \<Rightarrow> world \<Rightarrow> bool \<times> world" where
  "amux_select_bio bio w = (if w_scope_running w then (False, w) else (True, snd (amux_select_input (7 - bio) w)))"

definition amux_read_present_channel :: "world \<Rightarrow> u32 \<times> world" where
  "amux_read_present_channel w =
     (if w_scope_running w then (0, w)
      else let w1 = hw_do [AdcLock] w in (w_adc_in w1 (w_hw w1), hw_do [AdcUnlock] w1))"

definition amux_read_current :: "world \<Rightarrow> u32 \<times> world" where
  "amux_read_current w =
     (if w_scope_running w then (0, w)
      else let w1 = hw_do [AdcLock, AdcSelect 3] w in (w_adc_in w1 (w_hw w1), hw_do [AdcUnlock] w1))"

definition get_adc_average :: "u32 \<Rightarrow> u32" where
  "get_adc_average avgsum = (avgsum + 32) div 64"

definition hw_adc_to_volts_x2 :: "u16 \<Rightarrow> u32" where
  "hw_adc_to_volts_x2 raw = (6600 * ucast raw) div 4096"

definition hw_adc_to_volts_x1 :: "u16 \<Rightarrow> u32" where
  "hw_adc_to_volts_x1 raw = (3300 * ucast raw) div 4096"

definition with_adc :: "(adc_state \<Rightarrow> adc_state) \<Rightarrow> world \<Rightarrow> world" where
  "with_adc f w = w\<lparr>w_adc := f (w_adc w)\<rparr>"

text \<open>One turn of the first loop of \<open>amux_sweep\<close>: ground the input, select the channel, read it.\<close>

definition sweep_channel :: "nat \<Rightarrow> world \<Rightarrow> world" where
  "sweep_channel i w =
     (let w1 = hw_do [BusyWaitUs 10] (snd (amux_select_input 15 w));
          w2 = hw_do [BusyWaitUs 60] (snd (amux_select_input i w1))
      in with_adc (\<lambda>a. a\<lparr>hw_adc_raw := (hw_adc_raw a)[i := ucast (w_adc_in w2 (w_hw w2))]\<rparr>) w2)"

definition sweep_voltage :: "nat \<Rightarrow> adc_state \<Rightarrow> adc_state" where
  "sweep_voltage i a =
     (let v = hw_adc_to_volts_x2 (hw_adc_raw a ! i); sum = hw_adc_avgsum_voltage a ! i
      in a\<lparr>hw_adc_voltage := (hw_adc_voltage a)[i := v],
           hw_adc_avgsum_voltage := (hw_adc_avgsum_voltage a)
             [i := if reset_adc_average a then v * 64 else sum - get_adc_average sum + v]\<rparr>)"

definition amux_sweep :: "world \<Rightarrow> world" where
  "amux_sweep w =
     (if w_scope_running w then w
      else let w1 = fold sweep_channel [0..<12] (hw_do [AdcLock, AdcSelect 2] w);
               w2 = hw_do [AdcSelect 3, BusyWaitUs 60] (snd (amux_select_input 15 w1));
               sense = ucast ((ucast (ucast (w_adc_in w2 (w_hw w2)) :: u16) + ucast (hw_adc_raw (w_adc w2) ! 12) :: u32) div 2);
               w3 = hw_do [AdcUnlock] (with_adc (\<lambda>a. a\<lparr>hw_adc_raw := (hw_adc_raw a)[12 := sense]\<rparr>) w2)
           in with_adc (\<lambda>a. let a1 = (fold sweep_voltage [0..<12] a)\<lparr>reset_adc_average := False\<rparr>
                            in a1\<lparr>hw_adc_voltage := (hw_adc_voltage a1)[12 := hw_adc_to_volts_x1 (hw_adc_raw a1 ! 12)]\<rparr>) w3)"

text \<open>What the sweep does to the hardware.\<close>

definition select_event :: "nat \<Rightarrow> hw_event" where
  "select_event channel = ShiftClearSet (push_bit 1 0xF) (push_bit 1 (of_nat channel) AND 0x1E)"

definition sweep_events :: "hw_event list" where
  "sweep_events = [AdcLock, AdcSelect 2] @
     concat (map (\<lambda>i. [select_event 15, BusyWaitUs 10, select_event i, BusyWaitUs 60]) [0..<12]) @
     [select_event 15, AdcSelect 3, BusyWaitUs 60, AdcUnlock]"

lemma with_adc_simps [simp]:
  "w_hw (with_adc f w) = w_hw w" "w_config (with_adc f w) = w_config w" "w_term (with_adc f w) = w_term w"
  "w_i2c (with_adc f w) = w_i2c w" "w_pio_in (with_adc f w) = w_pio_in w" "w_pio_idle (with_adc f w) = w_pio_idle w"
  "w_pio_rx_ready (with_adc f w) = w_pio_rx_ready w" "w_scope_running (with_adc f w) = w_scope_running w"
  "w_adc (with_adc f w) = f (w_adc w)" "w_adc_in (with_adc f w) = w_adc_in w"
  by (simp_all add: with_adc_def)

text \<open>Everything but the events and the arrays stays.\<close>

definition sweep_frame :: "world \<Rightarrow> world \<Rightarrow> hw_event list \<Rightarrow> bool" where
  "sweep_frame w w' es \<longleftrightarrow> (\<exists>f. w' = with_adc f (hw_do es w))"

lemma with_adc_compose: "with_adc f (with_adc g w) = with_adc (f \<circ> g) w"
  by (simp add: with_adc_def)

lemma hw_do_with_adc: "hw_do es (with_adc f w) = with_adc f (hw_do es w)"
  by (simp add: hw_do_def with_adc_def)

lemma sweep_frame_start: "sweep_frame w (hw_do es w) es"
  by (auto simp: sweep_frame_def with_adc_def intro!: exI [of _ id])

lemma sweep_frame_do: "sweep_frame w w' es \<Longrightarrow> sweep_frame w (hw_do ds w') (es @ ds)"
  by (auto simp: sweep_frame_def hw_do_with_adc hw_do_append)

lemma sweep_frame_adc: "sweep_frame w w' es \<Longrightarrow> sweep_frame w (with_adc f w') es"
  by (auto simp: sweep_frame_def with_adc_compose)

lemma sweep_frame_scope: "sweep_frame w w' es \<Longrightarrow> w_scope_running w' = w_scope_running w"
  by (auto simp: sweep_frame_def hw_do_def)

lemma amux_select_event: "\<not> w_scope_running w \<Longrightarrow> snd (amux_select_input c w) = hw_do [select_event c] w"
  by (simp add: amux_select_input_def select_event_def)

lemma sweep_channel_frame:
  assumes "sweep_frame w w' es" "\<not> w_scope_running w"
  shows "sweep_frame w (sweep_channel i w') (es @ [select_event 15, BusyWaitUs 10, select_event i, BusyWaitUs 60])"
proof -
  have run: "\<not> w_scope_running (hw_do ds w')" for ds
    using sweep_frame_scope [OF assms(1)] assms(2) by (simp add: hw_do_def)
  have "\<exists>f. sweep_channel i w' = with_adc f (hw_do [select_event 15, BusyWaitUs 10, select_event i, BusyWaitUs 60] w')"
    using run run [of "[]"] by (auto simp: sweep_channel_def Let_def amux_select_event hw_do_append hw_do_def)
  then show ?thesis
    using sweep_frame_adc [OF sweep_frame_do [OF assms(1)]] by metis
qed

lemma sweep_channels_frame:
  assumes "sweep_frame w w' es" "\<not> w_scope_running w"
  shows "sweep_frame w (fold sweep_channel is w')
    (es @ concat (map (\<lambda>i. [select_event 15, BusyWaitUs 10, select_event i, BusyWaitUs 60]) is))"
  using assms(1)
proof (induction "is" arbitrary: w' es)
  case (Cons i "is")
  show ?case
    using Cons.IH [OF sweep_channel_frame [OF Cons.prems assms(2)]] by simp
qed simp

lemma amux_sweep_frame:
  assumes "\<not> w_scope_running w"
  shows "sweep_frame w (amux_sweep w) sweep_events"
proof -
  define w1 where "w1 = fold sweep_channel [0..<12] (hw_do [AdcLock, AdcSelect 2] w)"
  have w1: "sweep_frame w w1 ([AdcLock, AdcSelect 2] @
      concat (map (\<lambda>i. [select_event 15, BusyWaitUs 10, select_event i, BusyWaitUs 60]) [0..<12]))"
    unfolding w1_def by (rule sweep_channels_frame [OF sweep_frame_start assms])
  have "\<not> w_scope_running w1"
    using sweep_frame_scope [OF w1] assms by simp
  then have "\<exists>f g. amux_sweep w = with_adc g (hw_do [AdcUnlock] (with_adc f (hw_do [select_event 15, AdcSelect 3, BusyWaitUs 60] w1)))"
    using assms unfolding amux_sweep_def by (auto simp: w1_def Let_def amux_select_event hw_do_append)
  then show ?thesis
    using sweep_frame_adc [OF sweep_frame_do [OF sweep_frame_adc [OF sweep_frame_do [OF w1]]]]
    unfolding sweep_events_def by (metis append.assoc append_Cons append_Nil)
qed

subsection \<open>The rolling average\<close>

definition sum_in :: "u32 \<Rightarrow> u32 \<Rightarrow> u32 \<Rightarrow> bool" where
  "sum_in lo hi acc \<longleftrightarrow> 64 * unat lo \<le> unat acc \<and> unat acc \<le> 64 * unat hi"

lemma unat_div_64:
  assumes "unat acc < 2 ^ 31"
  shows "unat (get_adc_average acc) = (unat acc + 32) div 64"
proof -
  have "unat (acc + 32) = unat acc + 32"
    using assms by (simp add: unat_word_ariths)
  then show ?thesis
    by (simp add: get_adc_average_def unat_div_distrib)
qed

lemma average_nat:
  fixes s q v lo hi :: nat
  assumes "64 * lo \<le> s" "s \<le> 64 * hi" "q = (s + 32) div 64"
  shows "q \<le> s" "lo \<le> q" "q \<le> hi" "lo \<le> v \<Longrightarrow> v \<le> hi \<Longrightarrow> 64 * lo \<le> s - q + v \<and> s - q + v \<le> 64 * hi"
proof -
  have q: "64 * q \<le> s + 32" "s + 32 < 64 * q + 64"
    using assms(3) by linarith+
  show le: "q \<le> s" "lo \<le> q" "q \<le> hi"
    using q assms(1,2) by linarith+
  assume "lo \<le> v" "v \<le> hi"
  then show "64 * lo \<le> s - q + v \<and> s - q + v \<le> 64 * hi"
    using q le assms(1,2) by linarith
qed

lemma sum_in_step:
  assumes "sum_in lo hi acc" "lo \<le> v" "v \<le> hi" "unat hi < 2 ^ 24"
  shows "sum_in lo hi (acc - get_adc_average acc + v)"
proof -
  have small: "unat acc < 2 ^ 31"
    using assms(1,4) by (simp add: sum_in_def)
  note avg = unat_div_64 [OF small]
  have bounds: "64 * unat lo \<le> unat acc" "unat acc \<le> 64 * unat hi"
    using assms(1) by (simp_all add: sum_in_def)
  have v: "unat lo \<le> unat v" "unat v \<le> unat hi"
    using assms(2,3) by (simp_all add: word_le_nat_alt)
  note nat = average_nat [OF bounds avg]
  have "unat (acc - get_adc_average acc) = unat acc - unat (get_adc_average acc)"
    using nat(1) by (intro unat_sub) (simp add: word_le_nat_alt)
  moreover have "unat acc - unat (get_adc_average acc) + unat v < 2 ^ 32"
    using small v assms(4) by simp
  ultimately have "unat (acc - get_adc_average acc + v) = unat acc - unat (get_adc_average acc) + unat v"
    by (simp add: unat_word_ariths)
  then show ?thesis
    using nat(4) [OF v] by (simp add: sum_in_def)
qed

lemma sum_in_reset: "lo \<le> v \<Longrightarrow> v \<le> hi \<Longrightarrow> unat hi < 2 ^ 24 \<Longrightarrow> sum_in lo hi (v * 64)"
  by (auto simp: sum_in_def word_le_nat_alt unat_word_ariths)

lemma sum_in_average:
  assumes "sum_in lo hi acc" "unat hi < 2 ^ 24"
  shows "lo \<le> get_adc_average acc \<and> get_adc_average acc \<le> hi"
proof -
  have bounds: "64 * unat lo \<le> unat acc" "unat acc \<le> 64 * unat hi"
    using assms(1) by (simp_all add: sum_in_def)
  then have "unat (get_adc_average acc) = (unat acc + 32) div 64"
    using assms(2) by (intro unat_div_64) simp
  then show ?thesis
    using average_nat [OF bounds] by (simp add: word_le_nat_alt)
qed

text \<open>What the two loops leave in the arrays.\<close>

definition raw_in :: "u32 \<Rightarrow> u32 \<Rightarrow> u16 \<Rightarrow> bool" where
  "raw_in lo hi raw \<longleftrightarrow> lo \<le> hw_adc_to_volts_x2 raw \<and> hw_adc_to_volts_x2 raw \<le> hi"

lemma sweep_channels_raw:
  assumes "\<forall>h. raw_in lo hi (ucast (w_adc_in w h))" "length (hw_adc_raw (w_adc w)) = 13"
    and "\<forall>j < k. raw_in lo hi (hw_adc_raw (w_adc w) ! j)" "k + n \<le> 13"
  shows "length (hw_adc_raw (w_adc (fold sweep_channel [k..<k + n] w))) = 13 \<and>
    (\<forall>j < k + n. raw_in lo hi (hw_adc_raw (w_adc (fold sweep_channel [k..<k + n] w)) ! j)) \<and>
    (\<exists>raw. w_adc (fold sweep_channel [k..<k + n] w) = (w_adc w)\<lparr>hw_adc_raw := raw\<rparr>) \<and>
    w_adc_in (fold sweep_channel [k..<k + n] w) = w_adc_in w"
  using assms
proof (induction n arbitrary: k w)
  case 0
  then show ?case by (auto intro!: exI [of _ "hw_adc_raw (w_adc w)"])
next
  case (Suc n)
  let ?w = "sweep_channel k w"
  have step: "\<exists>x. w_adc ?w = (w_adc w)\<lparr>hw_adc_raw := (hw_adc_raw (w_adc w))[k := x]\<rparr> \<and> raw_in lo hi x"
      "w_adc_in ?w = w_adc_in w"
    using Suc.prems(1) by (auto simp: sweep_channel_def Let_def amux_select_input_def hw_do_def)
  then obtain x where x: "w_adc ?w = (w_adc w)\<lparr>hw_adc_raw := (hw_adc_raw (w_adc w))[k := x]\<rparr>" "raw_in lo hi x"
    by blast
  have up: "[k..<k + Suc n] = k # [Suc k..<Suc k + n]"
    by (simp add: upt_conv_Cons)
  have "\<forall>j < Suc k. raw_in lo hi (hw_adc_raw (w_adc ?w) ! j)"
    using x Suc.prems by (auto simp: nth_list_update less_Suc_eq)
  then show ?case
    using Suc.IH [of ?w "Suc k"] Suc.prems x step(2) unfolding up by (auto simp del: upt_Suc)
qed

lemma sweep_voltages:
  assumes "length (hw_adc_avgsum_voltage a) = 13" "length (hw_adc_raw a) = 13" "k + n \<le> 13" "unat hi < 2 ^ 24"
    and "\<forall>j < 12. raw_in lo hi (hw_adc_raw a ! j)" "k + n \<le> 12"
    and "\<forall>j < k. sum_in lo hi (hw_adc_avgsum_voltage a ! j)"
    and "reset_adc_average a \<or> (\<forall>j < 12. sum_in lo hi (hw_adc_avgsum_voltage a ! j))"
  shows "length (hw_adc_avgsum_voltage (fold sweep_voltage [k..<k + n] a)) = 13 \<and>
    hw_adc_raw (fold sweep_voltage [k..<k + n] a) = hw_adc_raw a \<and>
    (\<forall>j < k + n. sum_in lo hi (hw_adc_avgsum_voltage (fold sweep_voltage [k..<k + n] a) ! j))"
  using assms
proof (induction n arbitrary: k a)
  case (Suc n)
  let ?a = "sweep_voltage k a" and ?v = "hw_adc_to_volts_x2 (hw_adc_raw a ! k)"
  have v: "lo \<le> ?v" "?v \<le> hi"
    using Suc.prems(5,6) by (auto simp: raw_in_def)
  have "sum_in lo hi (hw_adc_avgsum_voltage ?a ! k)"
    using sum_in_reset [OF v Suc.prems(4)] sum_in_step [OF _ v Suc.prems(4)] Suc.prems(1,6,8)
    by (auto simp: sweep_voltage_def Let_def)
  then have "\<forall>j < Suc k. sum_in lo hi (hw_adc_avgsum_voltage ?a ! j)"
    using Suc.prems(7) by (auto simp: sweep_voltage_def Let_def less_Suc_eq)
  moreover have "reset_adc_average ?a \<or> (\<forall>j < 12. sum_in lo hi (hw_adc_avgsum_voltage ?a ! j))"
    using Suc.prems(8) \<open>sum_in lo hi (hw_adc_avgsum_voltage ?a ! k)\<close>
    by (auto simp: sweep_voltage_def Let_def) (metis nth_list_update_neq)
  ultimately show ?case
    using Suc.IH [of ?a "Suc k"] Suc.prems by (auto simp: upt_conv_Cons sweep_voltage_def Let_def simp del: upt_Suc)
qed simp

definition adc_wf :: "adc_state \<Rightarrow> bool" where
  "adc_wf a \<longleftrightarrow> length (hw_adc_raw a) = 13 \<and> length (hw_adc_voltage a) = 13 \<and> length (hw_adc_avgsum_voltage a) = 13"

definition averages_in :: "u32 \<Rightarrow> u32 \<Rightarrow> world \<Rightarrow> bool" where
  "averages_in lo hi w \<longleftrightarrow> length (hw_adc_raw (w_adc w)) = 13 \<and> length (hw_adc_avgsum_voltage (w_adc w)) = 13 \<and>
     (reset_adc_average (w_adc w) \<or> (\<forall>j < 12. sum_in lo hi (hw_adc_avgsum_voltage (w_adc w) ! j)))"

lemma amux_sweep_averages:
  assumes "\<forall>h. raw_in lo hi (ucast (w_adc_in w h))" "unat hi < 2 ^ 24" "averages_in lo hi w" "\<not> w_scope_running w"
  shows "averages_in lo hi (amux_sweep w) \<and> w_adc_in (amux_sweep w) = w_adc_in w \<and>
    (\<forall>j < 12. sum_in lo hi (hw_adc_avgsum_voltage (w_adc (amux_sweep w)) ! j))"
proof -
  define w0 where "w0 = hw_do [AdcLock, AdcSelect 2] w"
  define w1 where "w1 = fold sweep_channel [0..<12] w0"
  have w0: "w_adc w0 = w_adc w" "w_adc_in w0 = w_adc_in w"
    by (simp_all add: w0_def hw_do_def)
  have w1: "length (hw_adc_raw (w_adc w1)) = 13" "\<forall>j < 12. raw_in lo hi (hw_adc_raw (w_adc w1) ! j)"
      "\<exists>raw. w_adc w1 = (w_adc w)\<lparr>hw_adc_raw := raw\<rparr>" "w_adc_in w1 = w_adc_in w"
    using sweep_channels_raw [of lo hi w0 0 12] assms(1,3) w0 by (simp_all add: w1_def averages_in_def del: upt_Suc upt_rec_numeral)
  have scope: "\<not> w_scope_running w1"
    using sweep_frame_scope [OF sweep_channels_frame [OF sweep_frame_start assms(4)]] assms(4)
    by (simp add: w1_def w0_def del: upt_Suc upt_rec_numeral)
  obtain sense where "amux_sweep w = with_adc (\<lambda>a. let a1 = (fold sweep_voltage [0..<12] a)\<lparr>reset_adc_average := False\<rparr>
      in a1\<lparr>hw_adc_voltage := (hw_adc_voltage a1)[12 := hw_adc_to_volts_x1 (hw_adc_raw a1 ! 12)]\<rparr>)
      (hw_do [AdcUnlock] (with_adc (\<lambda>a. a\<lparr>hw_adc_raw := (hw_adc_raw a)[12 := sense]\<rparr>)
        (hw_do [select_event 15, AdcSelect 3, BusyWaitUs 60] w1)))"
    using assms(4) scope unfolding amux_sweep_def w1_def w0_def
    by (simp add: Let_def amux_select_event hw_do_append del: upt_Suc upt_rec_numeral)
  moreover define a where "a = (w_adc w1)\<lparr>hw_adc_raw := (hw_adc_raw (w_adc w1))[12 := sense]\<rparr>"
  moreover have "w_adc_in (hw_do es w') = w_adc_in w'" for es w'
    by (simp add: hw_do_def)
  ultimately have sweep: "w_adc_in (amux_sweep w) = w_adc_in w"
      "hw_adc_avgsum_voltage (w_adc (amux_sweep w)) = hw_adc_avgsum_voltage (fold sweep_voltage [0..<12] a)"
      "hw_adc_raw (w_adc (amux_sweep w)) = hw_adc_raw (fold sweep_voltage [0..<12] a)"
      "\<not> reset_adc_average (w_adc (amux_sweep w))"
    using w1(4) by (simp_all add: Let_def del: upt_Suc upt_rec_numeral)
  have "length (hw_adc_avgsum_voltage a) = 13" "length (hw_adc_raw a) = 13"
      "\<forall>j < 12. raw_in lo hi (hw_adc_raw a ! j)"
      "reset_adc_average a \<or> (\<forall>j < 12. sum_in lo hi (hw_adc_avgsum_voltage a ! j))"
    using w1 assms(3) by (auto simp: a_def averages_in_def)
  then show ?thesis
    using sweep_voltages [of a 0 12 hi lo] assms(2) sweep
    by (simp add: averages_in_def del: upt_Suc upt_rec_numeral)
qed

lemma averages_in_scope: "w_scope_running w \<Longrightarrow> amux_sweep w = w"
  by (simp add: amux_sweep_def)

text \<open>C34: the displayed voltages never leave the range of the measurements. As long as every reading
  of the converter stands for a voltage between \<open>lo\<close> and \<open>hi\<close> (in millivolts), each of the twelve
  rolling averages lies between \<open>lo\<close> and \<open>hi\<close> after any number of sweeps that start with the
  reset of the averages: the integer arithmetic of the average neither drifts nor overflows.\<close>

theorem amux_averages_bounded:
  assumes "adc_wf (w_adc w)" and "reset_adc_average (w_adc w)" and "\<not> w_scope_running w"
    and "\<forall>h. lo \<le> hw_adc_to_volts_x2 (ucast (w_adc_in w h)) \<and> hw_adc_to_volts_x2 (ucast (w_adc_in w h)) \<le> hi"
    and "hi < 0x1000000" and "i < 12"
  shows "let avg = get_adc_average (hw_adc_avgsum_voltage (w_adc ((amux_sweep ^^ Suc n) w)) ! i)
    in lo \<le> avg \<and> avg \<le> hi"
proof -
  have hi: "unat hi < 2 ^ 24"
    using assms(5) by (simp add: word_less_nat_alt)
  have step: "averages_in lo hi ((amux_sweep ^^ n) w) \<and> w_adc_in ((amux_sweep ^^ n) w) = w_adc_in w \<and>
      \<not> w_scope_running ((amux_sweep ^^ n) w)" for n
  proof (induction n)
    case 0
    then show ?case using assms(1-3) by (simp add: averages_in_def adc_wf_def)
  next
    case (Suc n)
    then show ?case
      using amux_sweep_averages [of lo hi "(amux_sweep ^^ n) w"] sweep_frame_scope [OF amux_sweep_frame] hi assms(4)
      by (simp add: raw_in_def)
  qed
  have "sum_in lo hi (hw_adc_avgsum_voltage (w_adc ((amux_sweep ^^ Suc n) w)) ! i)"
    using amux_sweep_averages [of lo hi "(amux_sweep ^^ n) w"] step [of n] hi assms(4,6) by (simp add: raw_in_def)
  then show ?thesis
    using sum_in_average hi by (simp add: Let_def)
qed

theorem amux_averages_bounded_witness:
  "let avg = get_adc_average (hw_adc_avgsum_voltage (w_adc ((amux_sweep ^^ Suc 9)
      (world_reset\<lparr>w_adc_in := \<lambda>h. if even (length h) then 2048 else 2050\<rparr>))) ! 11)
   in 3300 \<le> avg \<and> avg \<le> 3303"
proof (rule amux_averages_bounded)
  show "\<forall>h. 3300 \<le> hw_adc_to_volts_x2 (ucast (w_adc_in (world_reset\<lparr>w_adc_in := \<lambda>h. if even (length h) then 2048 else 2050\<rparr>) h)) \<and>
      hw_adc_to_volts_x2 (ucast (w_adc_in (world_reset\<lparr>w_adc_in := \<lambda>h. if even (length h) then 2048 else 2050\<rparr>) h)) \<le> 3303"
    by (simp add: hw_adc_to_volts_x2_def)
qed (simp_all add: world_reset_def adc_wf_def)

end
