(* ===== verification/Ui_Help.thy ===== *)
theory Ui_Help
  imports Amux Bytecode
begin

text \<open>
  Messages of \<^verbatim>\<open>src/ui/ui_help.c\<close> and the check of supply voltage and pull-ups. The help pages
  are not modelled. The local \<open>temp\<close> of \<open>ui_help_sanity_check\<close> is not initialised in the source:
  its value is what the stack holds.
\<close>

definition ui_help_error :: "string \<Rightarrow> world \<Rightarrow> world" where
  "ui_help_error error = term_out [TChar 7, TText crlf, TColor Col_error, TText ''Error:'', TColor Col_reset,
     TText '' '', TMsg error, TText crlf]"

definition ui_help_hint :: "string \<Rightarrow> world \<Rightarrow> world" where
  "ui_help_hint hint = term_out [TColor Col_info, TMsg hint, TColor Col_reset, TText crlf]"

definition ui_help_setting_int :: "string \<Rightarrow> u32 \<Rightarrow> string \<Rightarrow> world \<Rightarrow> world" where
  "ui_help_setting_int label value units = term_out [TText '' '', TColor Col_info, TMsg label, TColor Col_reset,
     TText '': '', TInt (sint value), TText '' '', TMsg units, TText crlf]"

definition ui_help_setting_string :: "string \<Rightarrow> string \<Rightarrow> string \<Rightarrow> world \<Rightarrow> world" where
  "ui_help_setting_string label str units = term_out [TText '' '', TColor Col_info, TMsg label, TColor Col_reset,
     TText '': '', TMsg str, TText '' '', TMsg units, TText crlf]"

definition ui_help_check_vout_vref :: "world \<Rightarrow> bool \<times> world" where
  "ui_help_check_vout_vref w =
     (if w_scope_running w then (True, w)
      else let w1 = amux_sweep w in (790 \<le> hw_adc_voltage (w_adc w1) ! 11, w1))"

definition pullup_bits :: "u8 \<Rightarrow> u8 \<Rightarrow> world \<Rightarrow> u8" where
  "pullup_bits pm temp w =
     fold (\<lambda>i t. if pm AND push_bit i 1 \<noteq> 0 then t OR push_bit i (of_bool (bio_get w i)) else t) [0..<8] temp"

definition ui_help_sanity_check :: "bool \<Rightarrow> u8 \<Rightarrow> world \<Rightarrow> bool \<times> world" where
  "ui_help_sanity_check vout pullup_mask w =
     (let (ok1, w1) =
            (if vout
             then (case ui_help_check_vout_vref w of
                     (True, w') \<Rightarrow> (True, w')
                   | (False, w') \<Rightarrow> (False, ui_help_hint ''T_MODE_NO_VOUT_VREF_HINT''
                                              (ui_help_error ''T_MODE_NO_VOUT_VREF_ERROR'' w')))
             else (True, w))
      in if pullup_mask \<noteq> 0 \<and> pullup_bits pullup_mask (ucast (w_stack w1 (w_hw w1))) w1 = 0
         then (False, ui_help_hint ''T_MODE_NO_PULLUP_HINT'' (ui_help_error ''T_MODE_NO_PULLUP_ERROR'' w1))
         else (ok1, w1))"

text \<open>The check only reads: the multiplexer is swept, nothing else happens to the hardware.\<close>

definition quiet_step :: "world \<Rightarrow> world \<Rightarrow> hw_event list \<Rightarrow> bool" where
  "quiet_step w w' es \<longleftrightarrow> (\<exists>f ts. w' = with_adc f (term_out ts (hw_do es w)))"

lemma quiet_step_frame: "sweep_frame w w' es \<Longrightarrow> quiet_step w w' es"
proof -
  assume "sweep_frame w w' es"
  then obtain f where "w' = with_adc f (hw_do es w)"
    by (auto simp: sweep_frame_def)
  then have "w' = with_adc f (term_out [] (hw_do es w))"
    by (simp add: term_out_def with_adc_def)
  then show ?thesis
    by (auto simp: quiet_step_def)
qed

lemma quiet_step_print: "quiet_step w w' es \<Longrightarrow> quiet_step w (term_out ts w') es"
proof -
  assume "quiet_step w w' es"
  then obtain f ts' where "w' = with_adc f (term_out ts' (hw_do es w))"
    by (auto simp: quiet_step_def)
  then have "term_out ts w' = with_adc f (term_out (ts' @ ts) (hw_do es w))"
    by (simp add: term_out_def with_adc_def)
  then show ?thesis
    by (auto simp: quiet_step_def)
qed

lemma quiet_step_refl: "quiet_step w w []"
  using quiet_step_frame [OF sweep_frame_start [of w "[]"]] by (simp add: hw_do_def)

definition sanity_events :: "bool \<Rightarrow> hw_event list" where
  "sanity_events scope = (if scope then [] else sweep_events)"

lemma sanity_check_quiet:
  "quiet_step w (snd (ui_help_sanity_check True pm w)) (sanity_events (w_scope_running w))"
proof -
  have "quiet_step w (snd (ui_help_check_vout_vref w)) (sanity_events (w_scope_running w))"
    using quiet_step_frame [OF amux_sweep_frame, of w] quiet_step_refl [of w]
    by (auto simp: ui_help_check_vout_vref_def sanity_events_def Let_def)
  then show ?thesis
    by (auto simp: ui_help_sanity_check_def ui_help_error_def ui_help_hint_def Let_def quiet_step_print
        split: prod.split bool.split)
qed

end
