(* ===== verification/I2c_Pio.thy ===== *)
theory I2c_Pio
  imports Modes Ui_Help
begin

text \<open>
  The I2C driver, \<^verbatim>\<open>src/pirate/hwi2c_pio.c\<close> and \<^verbatim>\<open>src/pio_config.h\<close>: words for the PIO state
  machine, waiting with a timeout, transactions. A buffer with its length is the list of its
  bytes. \<open>set_scl_sda_program_instructions\<close>, assembled from \<^verbatim>\<open>src/pirate/hwi2c.pio\<close>, has the
  instructions of the 2WIRE table.
\<close>

datatype hwi2c_status = HWI2C_OK | HWI2C_NACK | HWI2C_TIMEOUT

text \<open>The waiting loops: at most \<open>timeout\<close> polls, 2^32 if it is 0.\<close>

function wait_loop :: "(nat \<Rightarrow> bool) \<Rightarrow> nat \<Rightarrow> u32 \<Rightarrow> bool" where
  "wait_loop f k timeout = (if f k then True else if timeout - 1 = 0 then False else wait_loop f (k + 1) (timeout - 1))"
  by pat_completeness auto

termination
proof (relation "measure (\<lambda>(f, k, timeout). unat (timeout - 1))")
  fix timeout :: u32
  have dec: "x \<noteq> 0 \<Longrightarrow> unat (x - 1) < unat x" for x :: u32
    by (simp add: unat_minus_one unat_gt_0)
  assume "timeout - 1 \<noteq> 0"
  from dec [OF this] show "((f, k + 1, timeout - 1), f, k, timeout) \<in> measure (\<lambda>(f, k, timeout). unat (timeout - 1))" for f k
    by simp
qed simp

declare wait_loop.simps [simp del]

lemma wait_loop_True: "f k \<Longrightarrow> wait_loop f k timeout"
  by (subst wait_loop.simps) simp

definition pio_sm_wait_idle :: "u32 \<Rightarrow> world \<Rightarrow> bool" where
  "pio_sm_wait_idle timeout w = wait_loop (w_pio_idle w (w_hw w)) 0 timeout"

definition pio_i2c_wait_idle_timeout :: "u32 \<Rightarrow> world \<Rightarrow> hwi2c_status" where
  "pio_i2c_wait_idle_timeout timeout w = (if \<not> pio_sm_wait_idle timeout w then HWI2C_TIMEOUT else HWI2C_OK)"

definition pio_i2c_init :: "nat \<Rightarrow> nat \<Rightarrow> nat \<Rightarrow> nat \<Rightarrow> u32 \<Rightarrow> bool \<Rightarrow> world \<Rightarrow> world" where
  "pio_i2c_init sda scl dir_sda dir_scl baudrate clock_stretch =
     hw_do [PioInit (if clock_stretch then ''i2c_clock_stretch'' else ''i2c'') [sda, scl, dir_sda, dir_scl] baudrate]"

definition pio_i2c_cleanup :: "world \<Rightarrow> world" where
  "pio_i2c_cleanup = hw_do [PioRemoveProgram]"

definition pio_i2c_resume_after_error :: "world \<Rightarrow> world" where
  "pio_i2c_resume_after_error = hw_do [PioDrainTx, PioDrainRx, PioExecRestart]"

definition pio_i2c_put_blocking_timeout :: "u16 \<Rightarrow> u32 \<Rightarrow> world \<Rightarrow> hwi2c_status \<times> world" where
  "pio_i2c_put_blocking_timeout data timeout w =
     (if pio_i2c_wait_idle_timeout timeout w \<noteq> HWI2C_OK then (HWI2C_TIMEOUT, w)
      else let w1 = hw_do [PioTx (ucast data)] w
           in if \<not> pio_sm_wait_idle timeout w1 then (HWI2C_TIMEOUT, w1) else (HWI2C_OK, w1))"

fun pio_i2c_put_instructions_timeout :: "u16 list \<Rightarrow> u32 \<Rightarrow> world \<Rightarrow> hwi2c_status \<times> world" where
  "pio_i2c_put_instructions_timeout [] timeout w = (HWI2C_OK, w)"
| "pio_i2c_put_instructions_timeout (i # inst) timeout w =
     (case pio_i2c_put_blocking_timeout i timeout w of
        (st, w1) \<Rightarrow> if st \<noteq> HWI2C_OK then (HWI2C_TIMEOUT, w1) else pio_i2c_put_instructions_timeout inst timeout w1)"

definition i2c_start_words :: "u16 list" where
  "i2c_start_words = [icount 1, SC1_SD0, SC0_SD0]"

definition i2c_stop_words :: "u16 list" where
  "i2c_stop_words = [icount 2, SC0_SD0, SC1_SD0, SC1_SD1]"

definition i2c_restart_words :: "u16 list" where
  "i2c_restart_words = [icount 3, SC0_SD1, SC1_SD1, SC1_SD0, SC0_SD0]"

definition pio_i2c_start_timeout :: "u32 \<Rightarrow> world \<Rightarrow> hwi2c_status \<times> world" where
  "pio_i2c_start_timeout = pio_i2c_put_instructions_timeout i2c_start_words"

definition pio_i2c_stop_timeout :: "u32 \<Rightarrow> world \<Rightarrow> hwi2c_status \<times> world" where
  "pio_i2c_stop_timeout = pio_i2c_put_instructions_timeout i2c_stop_words"

definition pio_i2c_restart_timeout :: "u32 \<Rightarrow> world \<Rightarrow> hwi2c_status \<times> world" where
  "pio_i2c_restart_timeout = pio_i2c_put_instructions_timeout i2c_restart_words"

text \<open>One byte in each direction; \<open>in_data\<close> of the caller keeps its uninitialised value if the
  transaction times out before it is read.\<close>

definition pio_i2c_transaction_timeout :: "u32 \<Rightarrow> u32 \<Rightarrow> world \<Rightarrow> hwi2c_status \<times> u32 \<times> world" where
  "pio_i2c_transaction_timeout out_data timeout w =
     (let uninit = w_stack w (w_hw w) in
      if \<not> pio_sm_wait_idle timeout w then (HWI2C_TIMEOUT, uninit, w)
      else (case pio_i2c_put_blocking_timeout (ucast out_data) timeout (hw_do [PioDrainRx] w) of
        (st, w1) \<Rightarrow>
          if st \<noteq> HWI2C_OK then (HWI2C_TIMEOUT, uninit, w1)
          else if \<not> wait_loop (w_pio_rx_ready w1 (w_hw w1)) 0 timeout then (HWI2C_TIMEOUT, uninit, w1)
          else let in_data = w_pio_in w1 (w_hw w1); w2 = hw_do [PioRx] w1
               in if \<not> pio_sm_wait_idle timeout w2 then (HWI2C_TIMEOUT, in_data, w2) else (HWI2C_OK, in_data, w2)))"

definition pio_i2c_write_timeout :: "u8 \<Rightarrow> u32 \<Rightarrow> world \<Rightarrow> hwi2c_status \<times> world" where
  "pio_i2c_write_timeout out_data timeout w =
     (case pio_i2c_transaction_timeout (push_bit 1 (ucast out_data) OR 1) timeout w of
        (st, in_data, w1) \<Rightarrow>
          if st = HWI2C_TIMEOUT then (HWI2C_TIMEOUT, w1)
          else (if in_data AND 1 \<noteq> 0 then HWI2C_NACK else HWI2C_OK, w1))"

definition pio_i2c_read_timeout :: "bool \<Rightarrow> u32 \<Rightarrow> world \<Rightarrow> hwi2c_status \<times> u8 \<times> world" where
  "pio_i2c_read_timeout ack timeout w =
     (case pio_i2c_transaction_timeout (push_bit 1 0xFF OR (if ack then 0 else 1)) timeout w of
        (st, in_data, w1) \<Rightarrow> (st, ucast (drop_bit 1 in_data), w1))"

text \<open>The loops over a buffer: bytes are written until one fails; reads go on whatever happens.\<close>

fun i2c_write_bytes :: "u8 list \<Rightarrow> u32 \<Rightarrow> world \<Rightarrow> hwi2c_status \<times> world" where
  "i2c_write_bytes [] timeout w = (HWI2C_OK, w)"
| "i2c_write_bytes (b # bs) timeout w =
     (case pio_i2c_write_timeout b timeout w of
        (st, w1) \<Rightarrow> if st \<noteq> HWI2C_OK then (st, w1) else i2c_write_bytes bs timeout w1)"

fun i2c_read_bytes :: "nat \<Rightarrow> u32 \<Rightarrow> world \<Rightarrow> u8 list \<times> world" where
  "i2c_read_bytes 0 timeout w = ([], w)"
| "i2c_read_bytes (Suc n) timeout w =
     (case pio_i2c_read_timeout (n \<noteq> 0) timeout w of
        (_, b, w1) \<Rightarrow> (case i2c_read_bytes n timeout w1 of (bs, w2) \<Rightarrow> (b # bs, w2)))"

definition i2c_stop_and_wait :: "u32 \<Rightarrow> world \<Rightarrow> hwi2c_status \<times> world" where
  "i2c_stop_and_wait timeout w =
     (case pio_i2c_stop_timeout timeout w of
        (st, w1) \<Rightarrow> if st \<noteq> HWI2C_OK then (HWI2C_TIMEOUT, w1)
                    else if pio_i2c_wait_idle_timeout timeout w1 \<noteq> HWI2C_OK then (HWI2C_TIMEOUT, w1)
                    else (HWI2C_OK, w1))"

definition pio_i2c_write_array_timeout :: "u8 \<Rightarrow> u8 list \<Rightarrow> u32 \<Rightarrow> world \<Rightarrow> hwi2c_status \<times> world" where
  "pio_i2c_write_array_timeout addr txbuf timeout w =
     (case pio_i2c_start_timeout timeout w of
        (st, w1) \<Rightarrow> if st \<noteq> HWI2C_OK then (HWI2C_TIMEOUT, w1)
        else (case pio_i2c_write_timeout addr timeout w1 of
          (st, w2) \<Rightarrow> if st \<noteq> HWI2C_OK then (st, snd (pio_i2c_stop_timeout timeout w2))
          else (case i2c_write_bytes txbuf timeout w2 of
            (st, w3) \<Rightarrow> if st \<noteq> HWI2C_OK then (st, w3) else i2c_stop_and_wait timeout w3)))"

definition pio_i2c_read_array_timeout :: "u8 \<Rightarrow> nat \<Rightarrow> u32 \<Rightarrow> world \<Rightarrow> hwi2c_status \<times> u8 list \<times> world" where
  "pio_i2c_read_array_timeout addr len timeout w =
     (case pio_i2c_start_timeout timeout w of
        (st, w1) \<Rightarrow> if st \<noteq> HWI2C_OK then (HWI2C_TIMEOUT, [], w1)
        else (case pio_i2c_write_timeout addr timeout w1 of
          (st, w2) \<Rightarrow> if st \<noteq> HWI2C_OK then (st, [], w2)
          else (case i2c_read_bytes len timeout w2 of
            (bs, w3) \<Rightarrow> (case i2c_stop_and_wait timeout w3 of (st, w4) \<Rightarrow> (st, bs, w4)))))"

definition pio_i2c_transaction_array_timeout ::
  "u8 \<Rightarrow> u8 list \<Rightarrow> nat \<Rightarrow> u32 \<Rightarrow> world \<Rightarrow> hwi2c_status \<times> u8 list \<times> world" where
  "pio_i2c_transaction_array_timeout addr txbuf rxlen timeout w =
     (case pio_i2c_write_array_timeout addr txbuf timeout w of
        (st, w1) \<Rightarrow> if st \<noteq> HWI2C_OK then (st, [], w1)
        else if 0 < rxlen then pio_i2c_read_array_timeout (addr OR 1) rxlen timeout w1
        else (HWI2C_OK, [], w1))"

definition pio_i2c_transaction_array_repeat_start ::
  "u8 \<Rightarrow> u8 list \<Rightarrow> nat \<Rightarrow> u32 \<Rightarrow> world \<Rightarrow> hwi2c_status \<times> u8 list \<times> world" where
  "pio_i2c_transaction_array_repeat_start addr txbuf rxlen timeout w =
     (case pio_i2c_start_timeout timeout w of
        (st, w1) \<Rightarrow> if st \<noteq> HWI2C_OK then (HWI2C_TIMEOUT, [], w1)
        else (case i2c_write_bytes (addr # txbuf) timeout w1 of
          (st, w2) \<Rightarrow> if st \<noteq> HWI2C_OK then (st, [], w2)
          else (case pio_i2c_restart_timeout timeout w2 of
            (st, w3) \<Rightarrow> if st \<noteq> HWI2C_OK then (HWI2C_TIMEOUT, [], w3)
            else (case pio_i2c_write_timeout (addr OR 1) timeout w3 of
              (st, w4) \<Rightarrow> if st \<noteq> HWI2C_OK then (st, [], w4)
              else (case i2c_read_bytes rxlen timeout w4 of
                (bs, w5) \<Rightarrow> (case i2c_stop_and_wait timeout w5 of (st, w6) \<Rightarrow> (st, bs, w6)))))))"

text \<open>The functions below return \<open>True\<close> for an error.\<close>

definition i2c_write_reg :: "u8 \<Rightarrow> u8 list \<Rightarrow> u8 list \<Rightarrow> world \<Rightarrow> bool \<times> world" where
  "i2c_write_reg addr reg data w =
     (let timeout = 0xFFFFF in
      case pio_i2c_start_timeout timeout w of
        (st, w1) \<Rightarrow> if st \<noteq> HWI2C_OK then (True, w1)
        else (case i2c_write_bytes (addr # reg @ data) timeout w1 of
          (st, w2) \<Rightarrow> if st \<noteq> HWI2C_OK then (True, w2)
          else (case i2c_stop_and_wait timeout w2 of (st, w3) \<Rightarrow> (st \<noteq> HWI2C_OK, w3))))"

definition i2c_read_reg :: "u8 \<Rightarrow> u8 list \<Rightarrow> nat \<Rightarrow> world \<Rightarrow> bool \<times> u8 list \<times> world" where
  "i2c_read_reg addr reg len w =
     (let timeout = 0xFFFFF in
      case pio_i2c_start_timeout timeout w of
        (st, w1) \<Rightarrow> if st \<noteq> HWI2C_OK then (True, [], w1)
        else (case i2c_write_bytes (addr # reg) timeout w1 of
          (st, w2) \<Rightarrow> if st \<noteq> HWI2C_OK then (True, [], w2)
          else (case pio_i2c_stop_timeout timeout w2 of
            (st, w3) \<Rightarrow> if st \<noteq> HWI2C_OK then (True, [], w3)
            else (case pio_i2c_start_timeout timeout (hw_do [BusyWaitMs 2] w3) of
              (st, w4) \<Rightarrow> if st \<noteq> HWI2C_OK then (True, [], w4)
              else (case pio_i2c_write_timeout (addr OR 1) timeout w4 of
                (st, w5) \<Rightarrow> if st \<noteq> HWI2C_OK then (True, [], w5)
                else (case i2c_read_bytes len timeout w5 of
                  (bs, w6) \<Rightarrow> (case i2c_stop_and_wait timeout w6 of (st, w7) \<Rightarrow> (st \<noteq> HWI2C_OK, bs, w7))))))))"

definition i2c_transaction :: "u8 \<Rightarrow> u8 list \<Rightarrow> nat \<Rightarrow> world \<Rightarrow> bool \<times> u8 list \<times> world" where
  "i2c_transaction addr write_data read_len w =
     (case pio_i2c_transaction_array_repeat_start addr write_data read_len 0xFFFF w of
        (st, bs, w1) \<Rightarrow>
          if st \<noteq> HWI2C_OK then (True, bs, term_out [TText crlf, TText ''Device not detected (no ACK)'', TText crlf] w1)
          else (False, bs, w1))"

definition i2c_error_text :: "hwi2c_status \<Rightarrow> world \<Rightarrow> world" where
  "i2c_error_text st = (if st = HWI2C_TIMEOUT then term_out [TText crlf, TText ''I2C Timeout'', TText crlf]
     else term_out [TText crlf, TText ''Device not detected (no ACK)'', TText crlf])"

definition i2c_write :: "u8 \<Rightarrow> u8 list \<Rightarrow> world \<Rightarrow> bool \<times> world" where
  "i2c_write addr data w =
     (case pio_i2c_write_array_timeout addr data 0xFFFFF w of
        (st, w1) \<Rightarrow> if st \<noteq> HWI2C_OK then (True, i2c_error_text st w1) else (False, w1))"

definition i2c_read :: "u8 \<Rightarrow> nat \<Rightarrow> world \<Rightarrow> bool \<times> u8 list \<times> world" where
  "i2c_read addr len w =
     (case pio_i2c_read_array_timeout (addr OR 1) len 0xFFFFF w of
        (st, bs, w1) \<Rightarrow> if st \<noteq> HWI2C_OK then (True, bs, i2c_error_text st w1) else (False, bs, w1))"

subsection \<open>The driver on responsive hardware\<close>

text \<open>
  What the driver sends, as the items of the I2C bus. A transfer is nine bits: a byte and the
  acknowledge bit; the side that receives leaves the line at 1.
\<close>

datatype i2c_item = I_start | I_restart | I_stop | I_xfer u32

definition byte_out :: "u8 \<Rightarrow> i2c_item" where
  "byte_out b = I_xfer (push_bit 1 (ucast b) OR 1)"

definition byte_in :: "bool \<Rightarrow> i2c_item" where
  "byte_in ack = I_xfer (if ack then 0x1FE else 0x1FF)"

fun item_events :: "i2c_item \<Rightarrow> hw_event list" where
  "item_events I_start = map (\<lambda>i. PioTx (ucast i)) i2c_start_words"
| "item_events I_restart = map (\<lambda>i. PioTx (ucast i)) i2c_restart_words"
| "item_events I_stop = map (\<lambda>i. PioTx (ucast i)) i2c_stop_words"
| "item_events (I_xfer v) = [PioDrainRx, PioTx v, PioRx]"

definition items_events :: "i2c_item list \<Rightarrow> hw_event list" where
  "items_events is = concat (map item_events is)"

lemma items_events_simps [simp]:
  "items_events [] = []" "items_events (i # is) = item_events i @ items_events is"
  "items_events (is @ js) = items_events is @ items_events js"
  by (simp_all add: items_events_def)

text \<open>The state machine is idle and its answer is there whenever the driver looks.\<close>

definition pio_responsive :: "world \<Rightarrow> bool" where
  "pio_responsive w \<longleftrightarrow> (\<forall>h. w_pio_idle w h 0 \<and> w_pio_rx_ready w h 0)"

definition i2c_answer :: "world \<Rightarrow> hw_event list \<Rightarrow> i2c_item \<Rightarrow> u32" where
  "i2c_answer w h i = w_pio_in w (h @ butlast (item_events i))"

definition acked :: "world \<Rightarrow> hw_event list \<Rightarrow> u8 \<Rightarrow> bool" where
  "acked w h b \<longleftrightarrow> i2c_answer w h (byte_out b) AND 1 = 0"

definition byte_read :: "world \<Rightarrow> hw_event list \<Rightarrow> bool \<Rightarrow> u8" where
  "byte_read w h ack = ucast (drop_bit 1 (i2c_answer w h (byte_in ack)))"

lemma responsive_do [simp]:
  "pio_responsive (hw_do es w) = pio_responsive w" "pio_responsive (term_out ts w) = pio_responsive w"
  "pio_responsive (with_adc f w) = pio_responsive w" "pio_responsive (with_config g w) = pio_responsive w"
  by (simp_all add: pio_responsive_def)

lemma answer_do [simp]:
  "i2c_answer (hw_do es w) = i2c_answer w" "acked (hw_do es w) = acked w" "byte_read (hw_do es w) = byte_read w"
  by (simp_all add: fun_eq_iff i2c_answer_def acked_def byte_read_def)

lemma hw_do_nil [simp]: "hw_do [] w = w"
  by (simp add: hw_do_def)

lemma responsive_wait [simp]:
  assumes "pio_responsive w"
  shows "pio_sm_wait_idle t w" "pio_i2c_wait_idle_timeout t w = HWI2C_OK"
    "wait_loop (w_pio_rx_ready w h) 0 t"
  using assms by (simp_all add: pio_responsive_def pio_sm_wait_idle_def pio_i2c_wait_idle_timeout_def wait_loop_True)

lemma put_instructions_responsive [simp]:
  "pio_responsive w \<Longrightarrow> pio_i2c_put_instructions_timeout is t w = (HWI2C_OK, hw_do (map (\<lambda>i. PioTx (ucast i)) is) w)"
proof (induction "is" arbitrary: w)
  case (Cons i "is")
  then show ?case
    by (simp add: pio_i2c_put_blocking_timeout_def hw_do_append)
qed simp

lemma start_stop_responsive [simp]:
  assumes "pio_responsive w"
  shows "pio_i2c_start_timeout t w = (HWI2C_OK, hw_do (item_events I_start) w)"
    and "pio_i2c_stop_timeout t w = (HWI2C_OK, hw_do (item_events I_stop) w)"
    and "pio_i2c_restart_timeout t w = (HWI2C_OK, hw_do (item_events I_restart) w)"
    and "i2c_stop_and_wait t w = (HWI2C_OK, hw_do (item_events I_stop) w)"
  using assms
  by (simp_all add: pio_i2c_start_timeout_def pio_i2c_stop_timeout_def pio_i2c_restart_timeout_def i2c_stop_and_wait_def)

lemma ucast_small:
  assumes "unat (v :: u32) < 2 ^ 16"
  shows "(ucast (ucast v :: u16) :: u32) = v"
proof -
  have "unat (ucast (ucast v :: u16) :: u32) = unat v"
    using assms by (simp add: unsigned_ucast_eq take_bit_nat_eq_self unsigned_take_bit_eq)
  then show ?thesis
    by (simp add: word_unat_eq_iff)
qed

text \<open>The word of a byte: nine bits.\<close>

lemma byte_word:
  "unat (push_bit 1 (ucast (b :: u8)) OR 1 :: u32) = 2 * unat b + 1"
proof -
  have "(push_bit 1 (ucast b) OR 1 :: u32) = push_bit 1 (ucast b) + 1"
    using push_or_digit [of 1 1 "ucast b :: u32"] by (simp add: push_bit_eq_mult)
  moreover have "unat (ucast b :: u32) = unat b" "unat b < 2 ^ 8"
    using unsigned_less [of b, where ?'a = nat] by (simp_all add: unsigned_ucast_eq take_bit_nat_eq_self)
  ultimately show ?thesis
    by (simp add: push_bit_eq_mult unat_word_ariths)
qed

lemma xfer_responsive:
  assumes "pio_responsive w" "unat v < 2 ^ 16"
  shows "pio_i2c_transaction_timeout v t w = (HWI2C_OK, i2c_answer w (w_hw w) (I_xfer v), hw_do (item_events (I_xfer v)) w)"
  using assms
  by (simp add: pio_i2c_transaction_timeout_def pio_i2c_put_blocking_timeout_def Let_def hw_do_append ucast_small
      i2c_answer_def)

lemma write_responsive [simp]:
  assumes "pio_responsive w"
  shows "pio_i2c_write_timeout b t w =
    (if acked w (w_hw w) b then HWI2C_OK else HWI2C_NACK, hw_do (item_events (byte_out b)) w)"
proof -
  have "unat (push_bit 1 (ucast b) OR 1 :: u32) < 2 ^ 16"
    unfolding byte_word using unsigned_less [of b, where ?'a = nat] by simp
  from xfer_responsive [OF assms this] show ?thesis
    by (simp add: pio_i2c_write_timeout_def acked_def byte_out_def)
qed

lemma read_responsive [simp]:
  assumes "pio_responsive w"
  shows "pio_i2c_read_timeout ack t w =
    (HWI2C_OK, byte_read w (w_hw w) ack, hw_do (item_events (byte_in ack)) w)"
proof -
  have "(push_bit 1 0xFF OR (if ack then 0 else 1) :: u32) = (if ack then 0x1FE else 0x1FF)"
    by simp
  then show ?thesis
    using xfer_responsive [OF assms, of "if ack then 0x1FE else 0x1FF" t]
    by (cases ack) (simp_all add: pio_i2c_read_timeout_def byte_read_def byte_in_def)
qed

text \<open>A row of bytes written while each is acknowledged, and a row read, the last with a NACK.\<close>

fun all_acked :: "world \<Rightarrow> hw_event list \<Rightarrow> u8 list \<Rightarrow> bool" where
  "all_acked w h [] \<longleftrightarrow> True"
| "all_acked w h (b # bs) \<longleftrightarrow> acked w h b \<and> all_acked w (h @ item_events (byte_out b)) bs"

fun read_items :: "nat \<Rightarrow> i2c_item list" where
  "read_items 0 = []"
| "read_items (Suc n) = byte_in (n \<noteq> 0) # read_items n"

fun bytes_read :: "world \<Rightarrow> hw_event list \<Rightarrow> nat \<Rightarrow> u8 list" where
  "bytes_read w h 0 = []"
| "bytes_read w h (Suc n) = byte_read w h (n \<noteq> 0) # bytes_read w (h @ item_events (byte_in (n \<noteq> 0))) n"

lemma all_acked_do [simp]: "all_acked (hw_do es w) h bs = all_acked w h bs"
  by (induction bs arbitrary: h) simp_all

lemma bytes_read_do [simp]: "bytes_read (hw_do es w) h n = bytes_read w h n"
  by (induction n arbitrary: h) simp_all

lemma write_bytes_responsive:
  assumes "pio_responsive w" "all_acked w (w_hw w) bs"
  shows "i2c_write_bytes bs t w = (HWI2C_OK, hw_do (items_events (map byte_out bs)) w)"
  using assms
proof (induction bs arbitrary: w)
  case (Cons b bs)
  then show ?case
    by (simp add: hw_do_append)
qed simp

lemma read_bytes_responsive:
  assumes "pio_responsive w"
  shows "i2c_read_bytes n t w = (bytes_read w (w_hw w) n, hw_do (items_events (read_items n)) w)"
  using assms
proof (induction n arbitrary: w)
  case (Suc n)
  then show ?case
    by (simp add: hw_do_append)
qed simp

end
