(* ===== verification/I2c_Mode.thy ===== *)
theory I2c_Mode
  imports I2c_Pio
begin

text \<open>
  The I2C mode, \<^verbatim>\<open>src/mode/hwi2c.c\<close>: the handlers the syntax engine calls, setup and cleanup, the
  address scan of \<^verbatim>\<open>src/commands/i2c/scan.c\<close>; and what a program of the engine does to the bus.
  A start inside of a transaction is a repeated start, and a read is acknowledged unless a start
  or stop follows, so the events of an instruction depend on the mode's state and on the next
  instruction.
\<close>

definition with_i2c :: "(i2c_mode_config \<Rightarrow> i2c_mode_config) \<Rightarrow> world \<Rightarrow> world" where
  "with_i2c f w = w\<lparr>w_i2c := f (w_i2c w)\<rparr>"

abbreviation (input) M_I2C_SDA :: nat where "M_I2C_SDA \<equiv> 0"
abbreviation (input) M_I2C_SCL :: nat where "M_I2C_SCL \<equiv> 1"

definition hwi2c_error :: "hwi2c_status \<Rightarrow> bytecode \<Rightarrow> world \<Rightarrow> bool \<times> bytecode \<times> world" where
  "hwi2c_error error result w =
     (if error = HWI2C_TIMEOUT
      then (True, result\<lparr>bc_error_message := Some ''T_HWI2C_TIMEOUT'', bc_error := SERR_ERROR\<rparr>,
            pio_i2c_resume_after_error w)
      else (False, result, w))"

definition hwi2c_start :: handler where
  "hwi2c_start result nxt w =
     (let (msg, st, w1) =
            (if \<not> i2c_start_sent (w_i2c w)
             then (''T_HWI2C_START'', pio_i2c_start_timeout 0xFFFFF
                     (snd (ui_help_sanity_check True (push_bit M_I2C_SDA 1 OR push_bit M_I2C_SCL 1) w)))
             else (''T_HWI2C_REPEATED_START'', pio_i2c_restart_timeout 0xFFFFF w));
          (err, result', w2) = hwi2c_error st (result\<lparr>bc_data_message := Some msg\<rparr>) w1
      in (result', if \<not> err then with_i2c (\<lambda>c. c\<lparr>i2c_start_sent := True\<rparr>) w2 else w2))"

definition hwi2c_stop :: handler where
  "hwi2c_stop result nxt w =
     (let (st, w1) = pio_i2c_stop_timeout 0xFFFF w;
          (_, result', w2) = hwi2c_error st (result\<lparr>bc_data_message := Some ''T_HWI2C_STOP''\<rparr>) w1
      in (result', with_i2c (\<lambda>c. c\<lparr>i2c_start_sent := False\<rparr>) w2))"

definition hwi2c_write :: handler where
  "hwi2c_write result nxt w =
     (let (st, w1) = pio_i2c_write_timeout (ucast (bc_out_data result)) 0xFFFF w;
          (_, result', w2) = hwi2c_error st result w1
      in (result'\<lparr>bc_data_message := Some (if st \<noteq> HWI2C_OK then ''T_HWI2C_NACK'' else ''T_HWI2C_ACK'')\<rparr>, w2))"

definition read_acks :: "bytecode option \<Rightarrow> bool" where
  "read_acks nxt =
     (case nxt of None \<Rightarrow> True
      | Some b \<Rightarrow> bc_command b \<notin> {SYN_START_ALT, SYN_STOP_ALT, SYN_START, SYN_STOP})"

text \<open>The driver writes the low byte of \<open>in_data\<close>.\<close>

definition hwi2c_read :: handler where
  "hwi2c_read result nxt w =
     (let ack = read_acks nxt;
          (st, b, w1) = pio_i2c_read_timeout ack 0xFFFF w;
          (_, result', w2) = hwi2c_error st (result\<lparr>bc_in_data := (bc_in_data result AND 0xFFFFFF00) OR ucast b\<rparr>) w1
      in (result'\<lparr>bc_data_message := Some (if ack then ''T_HWI2C_ACK'' else ''T_HWI2C_NACK'')\<rparr>, w2))"

definition hwi2c_ops :: mode_ops where
  "hwi2c_ops = hiz_ops\<lparr>protocol_start := hwi2c_start, protocol_start_alt := hwi2c_start,
     protocol_stop := hwi2c_stop, protocol_stop_alt := hwi2c_stop,
     protocol_write := hwi2c_write, protocol_read := hwi2c_read\<rparr>"

definition hwi2c_setup_exc :: "world \<Rightarrow> world" where
  "hwi2c_setup_exc w =
     with_i2c (\<lambda>c. c\<lparr>i2c_start_sent := False\<rparr>)
       (with_config (system_bio_update_purpose_and_label True M_I2C_SCL BP_PIN_MODE (Some ''SCL''))
         (with_config (system_bio_update_purpose_and_label True M_I2C_SDA BP_PIN_MODE (Some ''SDA''))
           (pio_i2c_init (bio2bufiopin ! M_I2C_SDA) (bio2bufiopin ! M_I2C_SCL) (bio2bufdirpin ! M_I2C_SDA)
              (bio2bufdirpin ! M_I2C_SCL) (i2c_baudrate (w_i2c w)) (i2c_clock_stretch (w_i2c w)) w)))"

definition hwi2c_cleanup :: "world \<Rightarrow> world" where
  "hwi2c_cleanup w =
     with_config (system_bio_update_purpose_and_label False M_I2C_SCL BP_PIN_MODE None)
       (with_config (system_bio_update_purpose_and_label False M_I2C_SDA BP_PIN_MODE None)
         (bio_init (pio_i2c_cleanup w)))"

definition hwi2c_macro :: "u32 \<Rightarrow> world \<Rightarrow> world" where
  "hwi2c_macro macro w =
     (if macro = 0 then term_out [TText '' 0. Macro menu'', TText crlf] w
      else with_config (\<lambda>c. c\<lparr>sc_error := 1\<rparr>) (term_out [TMsg ''T_MODE_ERROR_MACRO_NOT_DEFINED'', TText crlf] w))"

definition hwi2c_settings :: "world \<Rightarrow> world" where
  "hwi2c_settings w =
     ui_help_setting_string ''T_HWI2C_CLOCK_STRETCH_MENU'' (if i2c_clock_stretch (w_i2c w) then ''T_ON'' else ''T_OFF'') ''''
       (ui_help_setting_int ''T_HWI2C_SPEED_MENU'' (i2c_baudrate (w_i2c w)) ''T_KHZ'' w)"

definition hwi2c_get_speed :: "world \<Rightarrow> u32" where
  "hwi2c_get_speed w = i2c_baudrate (w_i2c w) * 1000"

definition hwi2c_set_speed :: "u32 \<Rightarrow> world \<Rightarrow> world" where
  "hwi2c_set_speed speed_hz = with_i2c (\<lambda>c. c\<lparr>i2c_baudrate := speed_hz div 1000\<rparr>)"

definition hwi2c_set_databits :: "u32 \<Rightarrow> world \<Rightarrow> world" where
  "hwi2c_set_databits bits = with_i2c (\<lambda>c. c\<lparr>i2c_data_bits := bits\<rparr>)"

definition bpio_hwi2c_configure :: "bool \<Rightarrow> u32 \<Rightarrow> world \<Rightarrow> world" where
  "bpio_hwi2c_configure debug speed w =
     with_i2c (\<lambda>c. c\<lparr>i2c_baudrate := speed div 1000, i2c_clock_stretch := False\<rparr>)
       (if debug then term_out [TText ''[I2C] Speed '', TInt (sint speed), TText '' Hz'', TText crlf] w else w)"

subsection \<open>The address scan\<close>

definition i2c_resume_if_timeout :: "hwi2c_status \<Rightarrow> world \<Rightarrow> world" where
  "i2c_resume_if_timeout st w = (if st = HWI2C_TIMEOUT then pio_i2c_resume_after_error w else w)"

definition i2c_search_check_addr :: "u8 \<Rightarrow> world \<Rightarrow> bool \<times> world" where
  "i2c_search_check_addr address w =
     (let (st, w1) = pio_i2c_start_timeout 0xFFF w;
          (st2, w2) = pio_i2c_write_timeout address 0xFFF (i2c_resume_if_timeout st w1);
          ack = (st2 = HWI2C_OK);
          w3 = i2c_resume_if_timeout st2 w2;
          w4 = (if ack \<and> address AND 1 \<noteq> 0
                then (case pio_i2c_read_timeout False 0xFFF w3 of (st3, _, w') \<Rightarrow> i2c_resume_if_timeout st3 w')
                else w3);
          (st4, w5) = pio_i2c_stop_timeout 0xFFF w4
      in (ack, i2c_resume_if_timeout st4 w5))"

text \<open>The loop of \<open>i2c_search_addr\<close>: the addresses found, as pairs of the write and the read address,
  with the two counters. What is printed for a device is its line without the colours and the
  table of device names.\<close>

record scan_state =
  scan_found :: "(u16 \<times> bool \<times> bool) list"
  device_count :: u16
  device_pairs :: u16

definition i2c_scan_step :: "u16 \<Rightarrow> scan_state \<times> world \<Rightarrow> scan_state \<times> world" where
  "i2c_scan_step i = (\<lambda>(s, w).
     (let (i2c_w, w1) = i2c_search_check_addr (ucast i) w;
          (i2c_r, w2) = i2c_search_check_addr (ucast (i + 1)) w1
      in if i2c_w \<or> i2c_r
         then (s\<lparr>scan_found := scan_found s @ [(i, i2c_w, i2c_r)],
                 device_count := device_count s + (of_bool i2c_w + of_bool i2c_r),
                 device_pairs := (if i2c_w \<and> i2c_r then device_pairs s + 1 else device_pairs s)\<rparr>, w2)
         else (s, w2)))"

definition i2c_search_loop :: "world \<Rightarrow> scan_state \<times> world" where
  "i2c_search_loop w =
     fold i2c_scan_step (map (\<lambda>k. of_nat (2 * k)) [0..<128])
       (\<lparr>scan_found = [], device_count = 0, device_pairs = 0\<rparr>, w)"

subsection \<open>The mode meets the engine's contract\<close>

lemma hwi2c_handlers_ok: "handler_ok hwi2c_start" "handler_ok hwi2c_stop" "handler_ok hwi2c_write" "handler_ok hwi2c_read"
  by (simp_all add: handler_ok_def hwi2c_start_def hwi2c_stop_def hwi2c_write_def hwi2c_read_def hwi2c_error_def
      Let_def split: prod.split)

definition i2c_ready :: "bool \<Rightarrow> world \<Rightarrow> bool" where
  "i2c_ready scope w \<longleftrightarrow> pio_responsive w \<and> w_scope_running w = scope"

abbreviation (input) started :: "world \<Rightarrow> bool" where
  "started w \<equiv> i2c_start_sent (w_i2c w)"

definition i2c_emit :: "bool \<Rightarrow> bool \<Rightarrow> bytecode \<Rightarrow> bytecode option \<Rightarrow> hw_event list" where
  "i2c_emit scope st b nxt =
     (if bc_command b \<in> {SYN_START, SYN_START_ALT}
      then (if st then item_events I_restart else sanity_events scope @ item_events I_start)
      else if bc_command b \<in> {SYN_STOP, SYN_STOP_ALT} then item_events I_stop
      else if bc_command b = SYN_WRITE then item_events (byte_out (ucast (bc_out_data b)))
      else if bc_command b = SYN_READ then item_events (byte_in (read_acks nxt))
      else [])"

definition i2c_after :: "bool \<Rightarrow> bytecode \<Rightarrow> bool" where
  "i2c_after st b =
     (if bc_command b \<in> {SYN_START, SYN_START_ALT} then True
      else if bc_command b \<in> {SYN_STOP, SYN_STOP_ALT} then False else st)"

lemma with_i2c_simps [simp]:
  "w_hw (with_i2c f w) = w_hw w" "w_i2c (with_i2c f w) = f (w_i2c w)" "i2c_ready s (with_i2c f w) = i2c_ready s w"
  by (simp_all add: with_i2c_def i2c_ready_def pio_responsive_def)

lemma i2c_ready_simps [simp]:
  "i2c_ready s (hw_do es w) = i2c_ready s w" "i2c_ready s (term_out ts w) = i2c_ready s w"
  "i2c_ready s (with_adc g w) = i2c_ready s w" "i2c_ready s (with_config c w) = i2c_ready s w"
  by (simp_all add: i2c_ready_def) (simp_all add: hw_do_def term_out_def with_adc_def with_config_def)

lemma sanity_check_i2c:
  assumes "i2c_ready scope w"
  shows "i2c_ready scope (snd (ui_help_sanity_check True pm w))"
    and "w_hw (snd (ui_help_sanity_check True pm w)) = w_hw w @ sanity_events scope"
    and "w_i2c (snd (ui_help_sanity_check True pm w)) = w_i2c w"
proof -
  obtain f ts where "snd (ui_help_sanity_check True pm w) = with_adc f (term_out ts (hw_do (sanity_events scope) w))"
    using sanity_check_quiet [of w pm] assms by (auto simp: quiet_step_def i2c_ready_def)
  then show "i2c_ready scope (snd (ui_help_sanity_check True pm w))"
    and "w_hw (snd (ui_help_sanity_check True pm w)) = w_hw w @ sanity_events scope"
    and "w_i2c (snd (ui_help_sanity_check True pm w)) = w_i2c w"
    using assms by simp_all
qed

lemma i2c_responsive: "i2c_ready scope w \<Longrightarrow> pio_responsive w"
  by (simp add: i2c_ready_def)

lemma hwi2c_handler_trace:
  assumes "i2c_ready scope w" "mode_handler hwi2c_ops (bc_command b) b nxt w = (b', w')"
  shows "i2c_ready scope w' \<and> w_hw w' = w_hw w @ i2c_emit scope (started w) b nxt \<and>
    started w' = i2c_after (started w) b \<and> bc_error b' = bc_error b"
proof -
  note defs = mode_handler_def hwi2c_ops_def i2c_emit_def i2c_after_def hwi2c_error_def Let_def
  note resp = i2c_responsive [OF assms(1)]
  note chk = sanity_check_i2c [OF assms(1)] i2c_responsive [OF sanity_check_i2c(1) [OF assms(1)]]
  consider "bc_command b \<in> {SYN_START, SYN_START_ALT}" | "bc_command b \<in> {SYN_STOP, SYN_STOP_ALT}"
    | "bc_command b = SYN_WRITE" | "bc_command b = SYN_READ"
    | "bc_command b \<notin> {SYN_START, SYN_START_ALT, SYN_STOP, SYN_STOP_ALT, SYN_WRITE, SYN_READ}"
    by blast
  then show ?thesis
  proof cases
    case 1
    then have "hwi2c_start b nxt w = (b', w')"
      using assms(2) by (auto simp: mode_handler_def hwi2c_ops_def)
    then show ?thesis
      using 1 assms(1) resp chk
      by (cases "started w") (auto simp: hwi2c_start_def defs simp del: item_events.simps)
  next
    case 2
    then have "hwi2c_stop b nxt w = (b', w')"
      using assms(2) by (auto simp: mode_handler_def hwi2c_ops_def)
    then show ?thesis
      using 2 assms(1) resp by (auto simp: hwi2c_stop_def defs simp del: item_events.simps)
  next
    case 3
    then have "hwi2c_write b nxt w = (b', w')"
      using assms(2) by (simp add: mode_handler_def hwi2c_ops_def)
    then show ?thesis
      using 3 assms(1) resp by (auto simp: hwi2c_write_def defs split: if_splits)
  next
    case 4
    then have "hwi2c_read b nxt w = (b', w')"
      using assms(2) by (simp add: mode_handler_def hwi2c_ops_def)
    then show ?thesis
      using 4 assms(1) resp by (auto simp: hwi2c_read_def defs)
  next
    case 5
    then have "nullfunc1_temp b nxt w = (b', w')"
      using assms(2) by (auto simp: mode_handler_def hwi2c_ops_def split: if_splits)
    then show ?thesis
      using 5 assms(1) by (auto simp: nullfunc1_temp_def i2c_emit_def i2c_after_def)
  qed
qed

interpretation i2c: traced_machine hwi2c_ops "i2c_ready scope" started "i2c_emit scope" i2c_after for scope
proof unfold_locales
  fix a b :: bytecode and nxt s
  assume "same_instruction a b" "bc_command b = SYN_TICK_CLOCK \<or> bc_command b = SYN_READ_DAT"
  then show "i2c_emit scope s a nxt = i2c_emit scope s b nxt \<and> i2c_after s a = i2c_after s b"
    by (auto simp: same_instruction_def i2c_emit_def i2c_after_def)
next
  fix b b' :: bytecode and nxt w w'
  assume "i2c_ready scope w" "mode_handler hwi2c_ops (bc_command b) b nxt w = (b', w')"
  then show "i2c_ready scope w' \<and> w_hw w' = w_hw w @ i2c_emit scope (started w) b nxt \<and>
      started w' = i2c_after (started w) b \<and> bc_error b' = bc_error b"
    by (rule hwi2c_handler_trace)
qed (simp_all add: hwi2c_ops_def nullfunc1_temp_ok hwi2c_handlers_ok)

subsection \<open>Properties\<close>

lemma modes_of_engine: "mo \<in> {hiz_ops, dio_ops, spi_ops, hw2wire_ops, hw3wire_ops, hwi2c_ops} \<Longrightarrow> protocol_mode mo"
  using hiz.protocol_mode_axioms dio.protocol_mode_axioms spi.protocol_mode_axioms
    hw2wire.protocol_mode_axioms hw3wire.protocol_mode_axioms i2c.protocol_mode_axioms
  by blast

text \<open>C4: in each of the six modelled modes (HiZ, DIO, SPI, 2WIRE, 3WIRE, I2C) and whatever the hardware
  answers, a program that fits the result array runs without an access outside of the arrays and
  returns normally; the results belong, one by one and in order, to the instructions of the
  program, each repeated as often as its repeat count says, and they are complete unless the last
  one reports an error.\<close>

theorem syntax_run_results:
  assumes "mo \<in> {hiz_ops, dio_ops, spi_ops, hw2wire_ops, hw3wire_ops, hwi2c_ops}" and "runnable io"
    and "\<forall>b \<in> set (io_program io). bc_command b < 18"
  shows "\<exists>io' w'. syntax_run mo io w = Ran SSTATUS_OK io' w' \<and>
    so_in_cnt io' \<le> length (expansion (io_program io)) \<and>
    list_all2 same_instruction (results io') (take (so_in_cnt io') (expansion (io_program io))) \<and>
    (so_in_cnt io' = length (expansion (io_program io)) \<or>
     SERR_ERROR \<le> bc_error (so_in io' ! (so_in_cnt io' - 1)))"
  using protocol_mode.run_program_done [OF modes_of_engine [OF assms(1)], of io w] assms(2,3)
  by (auto simp: runnable_def run_done_def)

text \<open>What a program is to do: the items on the bus in program order; only the last read before a start
  or stop is refused (NACK).\<close>

fun i2c_bus_events :: "bool \<Rightarrow> bool \<Rightarrow> bytecode list \<Rightarrow> hw_event list" where
  "i2c_bus_events scope st [] = []"
| "i2c_bus_events scope st (b # prog) =
     (let n = unat (bc_repeat b);
          last = (prog \<noteq> [] \<and> bc_command (hd prog) \<in> {SYN_START, SYN_STOP, SYN_START_ALT, SYN_STOP_ALT}) in
      if bc_command b = SYN_DELAY_US then BusyWaitUs (bc_repeat b) # i2c_bus_events scope st prog
      else if bc_command b = SYN_DELAY_MS then BusyWaitMs (bc_repeat b) # i2c_bus_events scope st prog
      else if bc_command b \<in> {SYN_START, SYN_START_ALT}
      then (if st then item_events I_restart else sanity_events scope @ item_events I_start) @ i2c_bus_events scope True prog
      else if bc_command b \<in> {SYN_STOP, SYN_STOP_ALT} then item_events I_stop @ i2c_bus_events scope False prog
      else if bc_command b = SYN_WRITE
      then items_events (replicate n (byte_out (ucast (bc_out_data b)))) @ i2c_bus_events scope st prog
      else if bc_command b = SYN_READ
      then items_events (if n = 0 then [] else replicate (n - 1) (byte_in True) @ [byte_in (\<not> last)]) @
           i2c_bus_events scope st prog
      else i2c_bus_events scope st prog)"

lemma i2c_emits_same:
  assumes "i2c_after st b = st"
  shows "i2c.emits scope st b ns = concat (map (i2c_emit scope st b) ns) \<and> i2c.afters st b n = st"
proof -
  have "i2c.emits scope st b ns = concat (map (i2c_emit scope st b) ns)"
    by (induction ns) (simp_all add: assms)
  moreover have "i2c.afters st b n = st"
    by (induction n) (simp_all add: assms)
  ultimately show ?thesis by simp
qed

lemma read_acks_none: "read_acks None"
  by (simp add: read_acks_def)

lemma read_acks_next:
  "read_acks (if prog = [] then None else Some (hd prog)) \<longleftrightarrow>
    \<not> (prog \<noteq> [] \<and> bc_command (hd prog) \<in> {SYN_START, SYN_STOP, SYN_START_ALT, SYN_STOP_ALT})"
  by (auto simp: read_acks_def)

lemma i2c_prog_events: "i2c.prog_events scope st prog = i2c_bus_events scope st prog"
proof (induction prog arbitrary: st)
  case (Cons b prog)
  let ?nxt = "if prog = [] then None else Some (hd prog)"
  note defs = i2c.instr_events_def i2c.instr_after_def i2c.instr_calls_def i2c_emit_def [of scope st b]
    i2c_after_def [of st b] Let_def
  consider "bc_command b \<in> {SYN_START, SYN_START_ALT, SYN_STOP, SYN_STOP_ALT, SYN_DELAY_US, SYN_DELAY_MS}"
    | "bc_command b \<notin> {SYN_START, SYN_START_ALT, SYN_STOP, SYN_STOP_ALT, SYN_DELAY_US, SYN_DELAY_MS}"
    by blast
  then show ?case
  proof cases
    case 1
    then show ?thesis
      using Cons.IH by (elim insertE emptyE) (simp_all add: defs del: item_events.simps)
  next
    case 2
    then have "i2c_after st b = st"
      by (auto simp: i2c_after_def)
    note same = i2c_emits_same [OF this]
    have ev: "i2c.instr_events scope st b ?nxt = concat (map (i2c_emit scope st b) (i2c.instr_calls b ?nxt))"
        "i2c.instr_after st b = st"
      using 2 same by (simp_all add: i2c.instr_events_def i2c.instr_after_def)
    consider "bc_command b = SYN_WRITE" | "bc_command b = SYN_READ"
      | "bc_command b \<notin> {SYN_WRITE, SYN_READ}" by blast
    then show ?thesis
    proof cases
      case 1
      then show ?thesis
        using ev Cons.IH by (simp add: i2c.instr_calls_def i2c_emit_def [of scope st b] Let_def items_events_def del: item_events.simps)
    next
      case 2
      then show ?thesis
        using ev Cons.IH
        by (simp add: i2c.instr_calls_def i2c_emit_def [of scope st b] Let_def items_events_def i2c.read_calls_def read_acks_none read_acks_next del: item_events.simps)
    next
      case 3
      then have "i2c_emit scope st b = (\<lambda>_. [])"
        using 2 by (auto simp: fun_eq_iff i2c_emit_def)
      then have "concat (map (i2c_emit scope st b) ns) = []" for ns :: "bytecode option list"
        by (induction ns) simp_all
      then show ?thesis
        using 2 3 ev Cons.IH by (simp add: Let_def)
    qed
  qed
qed simp

text \<open>C35: in I2C mode, on hardware that answers, a program of bus instructions and delays drives the bus
  as written: a start in an idle bus is a start condition (after the analog inputs are read once,
  to warn of a missing supply) and inside of a transaction a repeated start; every byte is written as often as its repeat count says; every read is acknowledged but
  the last one before a start or stop, and nothing else goes to the state machine.\<close>

theorem i2c_run_trace:
  assumes "bus_program io" and "pio_responsive w"
  shows "\<exists>io' w'. syntax_run hwi2c_ops io w = Ran SSTATUS_OK io' w' \<and>
    list_all2 same_instruction (results io') (expansion (io_program io)) \<and>
    w_hw w' = w_hw w @ i2c_bus_events (w_scope_running w) (i2c_start_sent (w_i2c w)) (io_program io)"
  using i2c.run_program_trace [of io "w_scope_running w" w] assms
  unfolding i2c_prog_events by (auto simp: bus_program_def runnable_def i2c_ready_def)

text \<open>\<open>[ 160 0 [ 161 r:2 ]\<close>, the random read of a serial EEPROM.\<close>

definition i2c_transaction_program :: "syn_item list" where
  "i2c_transaction_program = [Sym ch_lbracket None None, Num 160 None None, Num 0 None None, Sym ch_lbracket None None,
     Num 161 None None, Sym ch_r None (Some 2), Sym ch_rbracket None None]"

definition i2c_transaction_io :: syntax_io where
  "i2c_transaction_io = io_of (program_code system_init i2c_transaction_program)"

lemma bus_program_i2c_transaction: "bus_program i2c_transaction_io"
  unfolding i2c_transaction_io_def
  by (rule bus_program_io_of)
    (simp_all add: i2c_transaction_program_def program_code_def syntax_compile_commands_def with_attrs_def bytecode_empty_def
      base_number_def expansion_def expand_def system_init_def word_le_nat_alt)

lemma i2c_transaction_code:
  "map (\<lambda>b. (bc_command b, bc_repeat b, bc_out_data b)) (io_program i2c_transaction_io) =
    [(SYN_START, 1, 0), (SYN_WRITE, 1, 160), (SYN_WRITE, 1, 0), (SYN_START, 1, 0), (SYN_WRITE, 1, 161),
     (SYN_READ, 2, 0), (SYN_STOP, 1, 0)]"
  by (simp add: i2c_transaction_io_def i2c_transaction_program_def program_code_def syntax_compile_commands_def
      with_attrs_def bytecode_empty_def base_number_def)

theorem i2c_run_trace_witness:
  "\<exists>io' w'. syntax_run hwi2c_ops i2c_transaction_io (world_reset\<lparr>w_scope_running := True\<rparr>) = Ran SSTATUS_OK io' w' \<and>
    w_hw w' = items_events [I_start, byte_out 160, byte_out 0, I_restart, byte_out 161, byte_in True, byte_in False, I_stop]"
proof -
  obtain b1 b2 b3 b4 b5 b6 b7 where prog: "io_program i2c_transaction_io = [b1, b2, b3, b4, b5, b6, b7]"
    and b: "bc_command b1 = SYN_START" "bc_command b2 = SYN_WRITE" "bc_command b3 = SYN_WRITE" "bc_command b4 = SYN_START"
      "bc_command b5 = SYN_WRITE" "bc_command b6 = SYN_READ" "bc_command b7 = SYN_STOP"
      "bc_repeat b2 = 1" "bc_repeat b3 = 1" "bc_repeat b5 = 1" "bc_repeat b6 = 2"
      "bc_out_data b2 = 160" "bc_out_data b3 = 0" "bc_out_data b5 = 161"
    using i2c_transaction_code by (auto simp: map_eq_Cons_conv)
  have "i2c_bus_events True False (io_program i2c_transaction_io) =
      items_events [I_start, byte_out 160, byte_out 0, I_restart, byte_out 161, byte_in True, byte_in False, I_stop]"
    by (simp add: prog b sanity_events_def Let_def del: item_events.simps)
  then show ?thesis
    using i2c_run_trace [OF bus_program_i2c_transaction, of "world_reset\<lparr>w_scope_running := True\<rparr>"]
    by (auto simp: world_reset_def pio_responsive_def)
qed

theorem syntax_run_results_witness:
  "(\<exists>io' w'. syntax_run spi_ops transaction_io world_reset = Ran SSTATUS_OK io' w' \<and>
    list_all2 same_instruction (results io') (take (so_in_cnt io') (expansion (io_program transaction_io)))) \<and>
   (\<exists>io' w'. syntax_run hwi2c_ops i2c_transaction_io world_reset = Ran SSTATUS_OK io' w' \<and>
    list_all2 same_instruction (results io') (take (so_in_cnt io') (expansion (io_program i2c_transaction_io))))"
proof -
  have cmds: "\<forall>b \<in> set (io_program io). bc_command b < 18" if "bus_program io" for io
    using that by (auto simp: bus_program_def word_le_nat_alt word_less_nat_alt)
  show ?thesis
    using syntax_run_results [of spi_ops transaction_io world_reset]
      syntax_run_results [of hwi2c_ops i2c_transaction_io world_reset]
      bus_program_transaction bus_program_i2c_transaction cmds
    by (auto simp: bus_program_def)
qed

subsection \<open>The scan\<close>

definition probe_items :: "(u8 \<Rightarrow> bool) \<Rightarrow> u8 \<Rightarrow> i2c_item list" where
  "probe_items ack b = [I_start, byte_out b] @ (if ack b \<and> b AND 1 \<noteq> 0 then [byte_in False] else []) @ [I_stop]"

lemma check_addr_responsive:
  assumes "pio_responsive w" "\<forall>h b. acked w h b = ack b"
  shows "i2c_search_check_addr b w = (ack b, hw_do (items_events (probe_items ack b)) w)"
  using assms
  by (simp add: i2c_search_check_addr_def i2c_resume_if_timeout_def Let_def hw_do_append probe_items_def
      del: item_events.simps)

definition scan_entry :: "(u8 \<Rightarrow> bool) \<Rightarrow> nat \<Rightarrow> (u16 \<times> bool \<times> bool) list" where
  "scan_entry ack k =
     (let a = ack (of_nat (2 * k)); b = ack (of_nat (2 * k + 1)) in if a \<or> b then [(of_nat (2 * k), a, b)] else [])"

definition hits :: "(u8 \<Rightarrow> bool) \<Rightarrow> nat \<Rightarrow> nat" where
  "hits ack k = of_bool (ack (of_nat (2 * k))) + of_bool (ack (of_nat (2 * k + 1)))"

lemma scan_step_responsive:
  assumes "pio_responsive w" "\<forall>h b. acked w h b = ack b" "k < 128"
  shows "i2c_scan_step (of_nat (2 * k)) (s, w) =
    (\<lparr>scan_found = scan_found s @ scan_entry ack k, device_count = device_count s + of_nat (hits ack k),
      device_pairs = device_pairs s + of_bool (hits ack k = 2)\<rparr>,
     hw_do (items_events (probe_items ack (of_nat (2 * k)) @ probe_items ack (of_nat (2 * k + 1)))) w)"
proof -
  have "ucast (of_nat (2 * k) :: u16) = (of_nat (2 * k) :: u8)"
    "ucast (of_nat (2 * k) + 1 :: u16) = (of_nat (2 * k + 1) :: u8)"
    using assms(3) by (simp_all add: unsigned_of_nat unsigned_word_eqI word_unat_eq_iff unat_word_ariths
        unsigned_ucast_eq take_bit_eq_mod)
  then show ?thesis
    using check_addr_responsive [OF assms(1,2)] check_addr_responsive [of "hw_do es w" ack for es] assms(1,2)
    by (simp add: i2c_scan_step_def Let_def scan_entry_def hits_def hw_do_append)
qed

definition probe_pair :: "(u8 \<Rightarrow> bool) \<Rightarrow> nat \<Rightarrow> i2c_item list" where
  "probe_pair ack k = probe_items ack (of_nat (2 * k)) @ probe_items ack (of_nat (2 * k + 1))"

lemma scan_loop_responsive:
  assumes "pio_responsive w" "\<forall>h b. acked w h b = ack b" "\<forall>k \<in> set ks. k < 128"
  shows "fold i2c_scan_step (map (\<lambda>k. of_nat (2 * k)) ks) (s, w) =
    (\<lparr>scan_found = scan_found s @ concat (map (scan_entry ack) ks),
      device_count = device_count s + of_nat (sum_list (map (hits ack) ks)),
      device_pairs = device_pairs s + of_nat (length (filter (\<lambda>k. hits ack k = 2) ks))\<rparr>,
     hw_do (items_events (concat (map (probe_pair ack) ks))) w)"
  using assms
proof (induction ks arbitrary: s w)
  case (Cons k ks)
  define s1 where "s1 = \<lparr>scan_found = scan_found s @ scan_entry ack k, device_count = device_count s + of_nat (hits ack k),
      device_pairs = device_pairs s + of_bool (hits ack k = 2)\<rparr>"
  have step: "i2c_scan_step (of_nat (2 * k)) (s, w) = (s1, hw_do (items_events (probe_pair ack k)) w)"
    using scan_step_responsive [of w ack k s] Cons.prems by (simp add: s1_def probe_pair_def)
  have "fold i2c_scan_step (map (\<lambda>k. of_nat (2 * k)) (k # ks)) (s, w) =
      fold i2c_scan_step (map (\<lambda>k. of_nat (2 * k)) ks) (s1, hw_do (items_events (probe_pair ack k)) w)"
    using step by simp
  also have "\<dots> = (\<lparr>scan_found = scan_found s1 @ concat (map (scan_entry ack) ks),
      device_count = device_count s1 + of_nat (sum_list (map (hits ack) ks)),
      device_pairs = device_pairs s1 + of_nat (length (filter (\<lambda>k. hits ack k = 2) ks))\<rparr>,
     hw_do (items_events (concat (map (probe_pair ack) ks))) (hw_do (items_events (probe_pair ack k)) w))"
    using Cons.prems by (intro Cons.IH) simp_all
  finally show ?case
    by (simp add: s1_def hw_do_append)
qed simp

lemma sum_hits: "sum_list (map (hits ack) [0..<n]) = card {m. m < 2 * n \<and> ack (of_nat m)}"
proof (induction n)
  case (Suc n)
  have "{m. m < 2 * Suc n \<and> ack (of_nat m)} = {m. m < 2 * n \<and> ack (of_nat m)} \<union>
      {m. (m = 2 * n \<or> m = 2 * n + 1) \<and> ack (of_nat m)}"
    by auto
  moreover have "{m. (m = 2 * n \<or> m = 2 * n + 1) \<and> ack (of_nat m :: u8)} =
      (if ack (of_nat (2 * n)) then {2 * n} else {}) \<union> (if ack (of_nat (2 * n + 1)) then {2 * n + 1} else {})"
    by auto
  then have "card {m. (m = 2 * n \<or> m = 2 * n + 1) \<and> ack (of_nat m :: u8)} = hits ack n"
    by (simp add: hits_def)
  moreover have "{m. m < 2 * n \<and> ack (of_nat m)} \<inter> {m. (m = 2 * n \<or> m = 2 * n + 1) \<and> ack (of_nat m)} = {}"
    by auto
  ultimately show ?case
    using Suc by (simp add: card_Un_disjoint)
qed simp

lemma card_bytes: "card {m. m < 256 \<and> ack (of_nat m :: u8)} = card {b. ack b}"
proof -
  have "bij_betw (of_nat :: nat \<Rightarrow> u8) {m. m < 256 \<and> ack (of_nat m :: u8)} {b. ack b}"
  proof (rule bij_betw_byWitness [of _ unat])
    show "\<forall>m \<in> {m. m < 256 \<and> ack (of_nat m :: u8)}. unat (of_nat m :: u8) = m"
      by (simp add: unat_of_nat_small)
    show "unat ` {b. ack b} \<subseteq> {m. m < 256 \<and> ack (of_nat m :: u8)}"
      using unsigned_less [of "b :: u8" for b, where ?'a = nat] by auto
  qed auto
  then show ?thesis
    by (rule bij_betw_same_card)
qed

text \<open>C36: the address scan is exact. On a bus where exactly the address bytes of a set are acknowledged,
  the loop finds the devices of that set in ascending order, with the directions they answer to;
  the count is the number of acknowledged addresses and the pair count that of the devices that
  answer to both; every probe is a complete transaction with a stop, and a read address
  that answers is read once and refused, so that the device lets go of the bus.\<close>

theorem i2c_scan_exact:
  assumes "pio_responsive w" and "\<forall>h b. acked w h b = ack b"
  shows "\<exists>s. i2c_search_loop w = (s, hw_do (items_events (concat (map (probe_items ack) (map of_nat [0..<256])))) w) \<and>
    scan_found s = concat (map (scan_entry ack) [0..<128]) \<and>
    unat (device_count s) = card {b. ack b} \<and>
    unat (device_pairs s) = length (filter (\<lambda>k. ack (of_nat (2 * k)) \<and> ack (of_nat (2 * k + 1))) [0..<128])"
proof -
  have probes: "concat (map (probe_pair ack) [0..<n]) = concat (map (probe_items ack) (map of_nat [0..<2 * n]))" for n
    by (induction n) (simp_all add: probe_pair_def)
  have count: "sum_list (map (hits ack) [0..<128]) = card {b. ack b}"
    using sum_hits [of ack 128] card_bytes [of ack] by simp
  have "card {b. ack b} \<le> card (UNIV :: u8 set)"
    by (rule card_mono) simp_all
  then have small: "card {b. ack b} < 2 ^ 16"
    by (simp add: card_word)
  have both: "(\<lambda>k. hits ack k = 2) = (\<lambda>k. ack (of_nat (2 * k)) \<and> ack (of_nat (2 * k + 1)))"
    by (auto simp: fun_eq_iff hits_def)
  have "length (filter (\<lambda>k. hits ack k = 2) [0..<128]) \<le> 128"
    using length_filter_le [of "\<lambda>k. hits ack k = 2" "[0..<128]"] by (simp del: upt_rec_numeral)
  then show ?thesis
    using scan_loop_responsive [OF assms, of "[0..<128]" "\<lparr>scan_found = [], device_count = 0, device_pairs = 0\<rparr>"]
      probes [of 128] count small both
    by (simp add: i2c_search_loop_def unat_of_nat_small del: upt_rec_numeral concat_map_singleton)
qed

text \<open>An EEPROM at the address bytes 160 and 161.\<close>

theorem i2c_scan_exact_witness:
  "\<exists>s w'. i2c_search_loop (world_reset\<lparr>w_pio_in := \<lambda>h. if last h \<in> {PioTx 321, PioTx 323} then 0 else 1\<rparr>) = (s, w') \<and>
    scan_found s = concat (map (scan_entry (\<lambda>b. b \<in> {160, 161})) [0..<128]) \<and> unat (device_count s) = 2"
proof -
  let ?w = "world_reset\<lparr>w_pio_in := \<lambda>h. if last h \<in> {PioTx 321, PioTx 323} then 0 else 1\<rparr>"
  have "(push_bit 1 (ucast b) OR 1 :: u32) \<in> {321, 323} \<longleftrightarrow> b \<in> {160, 161}" for b :: u8
  proof -
    have "unat (push_bit 1 (ucast b) OR 1 :: u32) \<in> {321, 323} \<longleftrightarrow> unat b \<in> {160, 161}"
      unfolding byte_word by auto
    then show ?thesis
      by (simp add: word_unat_eq_iff)
  qed
  then have "\<forall>h b. acked ?w h b = (b \<in> {160, 161})"
    by (auto simp: acked_def i2c_answer_def byte_out_def)
  then obtain s where s: "i2c_search_loop ?w = (s, hw_do (items_events (concat (map (probe_items (\<lambda>b. b \<in> {160, 161}))
        (map of_nat [0..<256])))) ?w)" "scan_found s = concat (map (scan_entry (\<lambda>b. b \<in> {160, 161})) [0..<128])"
      "unat (device_count s) = card {b :: u8. b \<in> {160, 161}}"
    using i2c_scan_exact [of ?w "\<lambda>b. b \<in> {160, 161}"] by (auto simp: world_reset_def pio_responsive_def)
  moreover have "card {b :: u8. b \<in> {160, 161}} = 2"
    by (simp only: Collect_mem_eq) simp
  ultimately show ?thesis
    by metis
qed

end
