(* ===== verification/Eeprom_Base.thy ===== *)
theory Eeprom_Base
  imports Ui_Format
begin

text \<open>
  The EEPROM commands that are the same for every bus, \<^verbatim>\<open>src/commands/eeprom/eeprom_base.c\<close>, on the
  file helpers of \<^verbatim>\<open>src/pirate/file.c\<close>. A device's hardware functions are the record \<open>hal\<close>;
  FatFs is the record \<open>fatfs\<close> of its operations on a state \<open>'f\<close>. Every function returns \<open>True\<close>
  for an error, as in the source. The output goes to the terminal, as with the callbacks of the
  command line; the progress bar is its two numbers.

  \<open>write_page\<close> gets the page of the buffer it points to and returns what it leaves there; \<open>read\<close>
  returns the bytes it has put at the start of the buffer.
\<close>

type_synonym bytes = "u8 list"

record eeprom_device =
  dv_name :: string
  dv_size_bytes :: u32
  dv_address_bytes :: u8
  dv_block_select_bits :: u8
  dv_block_select_offset :: u8
  dv_page_bytes :: u16
  dv_max_speed_khz :: u32

record eeprom_info =
  ei_device :: eeprom_device
  ei_device_address :: u8
  ei_action :: u32
  ei_protect_bits :: u32
  ei_protect_wpen_bit :: u32
  ei_file_name :: string
  ei_verify_flag :: bool
  ei_protect_blocks_flag :: bool
  ei_protect_test_flag :: bool
  ei_protect_wpen_flag :: bool

record eeprom_hal =
  hal_read :: "eeprom_info \<Rightarrow> u32 \<Rightarrow> nat \<Rightarrow> world \<Rightarrow> bool \<times> bytes \<times> world"
  hal_write_page :: "eeprom_info \<Rightarrow> u32 \<Rightarrow> bytes \<Rightarrow> nat \<Rightarrow> world \<Rightarrow> bool \<times> bytes \<times> world"
  hal_is_write_protected :: "(eeprom_info \<Rightarrow> world \<Rightarrow> bool \<times> world) option"
  hal_probe_protect :: "(eeprom_info \<Rightarrow> world \<Rightarrow> bool \<times> world) option"

datatype eeprom_read_action = EEPROM_READ_TO_FILE | EEPROM_VERIFY_FILE | EEPROM_VERIFY_BUFFER

text \<open>FatFs: whether the call succeeded (\<open>FR_OK\<close>), its result, the new state.\<close>

record 'f fatfs =
  f_open :: "string \<Rightarrow> bool \<Rightarrow> 'f \<Rightarrow> bool \<times> 'f"           \<comment> \<open>\<open>True\<close> is \<open>FA_CREATE_ALWAYS | FA_WRITE\<close>\<close>
  f_close :: "'f \<Rightarrow> bool \<times> 'f"
  f_size :: "'f \<Rightarrow> u32"
  f_read :: "nat \<Rightarrow> 'f \<Rightarrow> bool \<times> bytes \<times> 'f"
  f_write :: "bytes \<Rightarrow> 'f \<Rightarrow> bool \<times> nat \<times> 'f"

record 'f eep =
  eep_world :: world
  eep_fs :: 'f

definition eep_do :: "(world \<Rightarrow> world) \<Rightarrow> 'f eep \<Rightarrow> 'f eep" where
  "eep_do f s = s\<lparr>eep_world := f (eep_world s)\<rparr>"

definition eep_print :: "term_event list \<Rightarrow> 'f eep \<Rightarrow> 'f eep" where
  "eep_print es = eep_do (term_out es)"

definition text_line :: "string \<Rightarrow> term_event list" where
  "text_line t = [TText t, TText crlf]"

definition TNat :: "u32 \<Rightarrow> term_event" where
  "TNat n = TInt (sint n)"

text \<open>Messages made by \<open>snprintf\<close> in a buffer of \<open>EEPROM_MSG_BUF_SIZE\<close> bytes.\<close>

fun nat_text :: "nat \<Rightarrow> string" where
  "nat_text n = (if n < 10 then [char_of (48 + n)] else nat_text (n div 10) @ [char_of (48 + n mod 10)])"

declare nat_text.simps [simp del]

definition dec_text :: "u32 \<Rightarrow> string" where
  "dec_text v = (if sint v < 0 then ''-'' @ nat_text (nat (- sint v)) else nat_text (unat v))"

fun hex_text :: "nat \<Rightarrow> nat \<Rightarrow> string" where
  "hex_text 0 n = ''''"
| "hex_text (Suc k) n = hex_text k (n div 16) @ [char_of (unat (ascii_hex ! (n mod 16)))]"

definition eeprom_msg :: "string \<Rightarrow> 'f eep \<Rightarrow> 'f eep" where
  "eeprom_msg t = eep_print [TText (take 79 t)]"

subsection \<open>Files\<close>

definition file_close :: "'f fatfs \<Rightarrow> 'f eep \<Rightarrow> bool \<times> 'f eep" where
  "file_close fs s =
     (case f_close fs (eep_fs s) of (ok, f) \<Rightarrow>
        if \<not> ok then (True, eep_print (TText crlf # text_line ''Error closing file'') (s\<lparr>eep_fs := f\<rparr>))
        else (False, s\<lparr>eep_fs := f\<rparr>))"

definition file_open :: "'f fatfs \<Rightarrow> string \<Rightarrow> bool \<Rightarrow> 'f eep \<Rightarrow> bool \<times> 'f eep" where
  "file_open fs name create s =
     (case f_open fs name create (eep_fs s) of (ok, f) \<Rightarrow>
        if \<not> ok
        then (True, snd (file_close fs (eep_print [TText crlf, TText ''Error opening file '', TStr name, TText crlf]
                                          (s\<lparr>eep_fs := f\<rparr>))))
        else (False, s\<lparr>eep_fs := f\<rparr>))"

definition file_size :: "'f fatfs \<Rightarrow> 'f eep \<Rightarrow> u32" where
  "file_size fs s = f_size fs (eep_fs s)"

definition file_size_check :: "'f fatfs \<Rightarrow> u32 \<Rightarrow> 'f eep \<Rightarrow> bool \<times> 'f eep" where
  "file_size_check fs expected_size s =
     (if f_size fs (eep_fs s) \<noteq> expected_size
      then (True, snd (file_close fs (eep_print [TText crlf, TText ''Error: File must be exactly '', TNat expected_size,
                                         TText '' bytes long'', TText crlf] s)))
      else (False, s))"

definition file_read :: "'f fatfs \<Rightarrow> nat \<Rightarrow> 'f eep \<Rightarrow> bool \<times> bytes \<times> 'f eep" where
  "file_read fs n s =
     (case f_read fs n (eep_fs s) of (ok, bs, f) \<Rightarrow>
        if \<not> ok then (True, bs, snd (file_close fs (eep_print (TText crlf # text_line ''Error reading file'') (s\<lparr>eep_fs := f\<rparr>))))
        else (False, bs, s\<lparr>eep_fs := f\<rparr>))"

definition file_write :: "'f fatfs \<Rightarrow> bytes \<Rightarrow> 'f eep \<Rightarrow> bool \<times> 'f eep" where
  "file_write fs bs s =
     (case f_write fs bs (eep_fs s) of (ok, n, f) \<Rightarrow>
        if \<not> ok \<or> n \<noteq> length bs
        then (True, snd (file_close fs (eep_print (TText crlf # text_line ''Error writing to file'') (s\<lparr>eep_fs := f\<rparr>))))
        else (False, s\<lparr>eep_fs := f\<rparr>))"

subsection \<open>Addresses\<close>

definition eeprom_display_devices :: "eeprom_device list \<Rightarrow> world \<Rightarrow> world" where
  "eeprom_display_devices devices w =
     term_out (TText crlf # text_line ''Available EEPROM devices:'' @ text_line ''Device|Bytes|Page|Addr|Blk Sel|kHz max'' @
       concat (map (\<lambda>d. [TStr (dv_name d), TText (if 7 < length (dv_name d) then '''' else ''|''), TInt (sint (dv_size_bytes d)),
           TText ''|'', TInt (uint (dv_page_bytes d)), TText ''B|'', TInt (uint (dv_address_bytes d)), TText ''B|'',
           TInt (uint (dv_block_select_bits d)), TText ''b|'', TInt (sint (dv_max_speed_khz d)), TText crlf]) devices) @
       [TText crlf]) w"

definition eeprom_get_address_blocks_total :: "eeprom_info \<Rightarrow> u32" where
  "eeprom_get_address_blocks_total e =
     (let addr_range_256b = dv_size_bytes (ei_device e) div 256 in if addr_range_256b = 0 then 1 else addr_range_256b)"

definition eeprom_get_address_block_size :: "eeprom_info \<Rightarrow> u32" where
  "eeprom_get_address_block_size e =
     (if dv_size_bytes (ei_device e) < 256 then dv_size_bytes (ei_device e) else 256)"

text \<open>\<open>None\<close> is an error; otherwise the block select bits and the bytes of \<open>address_array\<close>.\<close>

definition eeprom_get_address :: "eeprom_info \<Rightarrow> u32 \<Rightarrow> world \<Rightarrow> (u8 \<times> bytes) option \<times> world" where
  "eeprom_get_address e address w =
     (let d = ei_device e; n = dv_address_bytes d;
          block = push_bit (unat (dv_block_select_offset d)) (ucast (drop_bit (8 * unat n) address) :: u8)
      in if dv_size_bytes d \<le> address then (None, term_out (text_line ''Error: Address out of range'') w)
         else if n = 1 then (Some (block, [ucast address]), w)
         else if n = 2 then (Some (block, [ucast (drop_bit 8 address), ucast address]), w)
         else if n = 3 then (Some (block, [ucast (drop_bit 16 address), ucast (drop_bit 8 address), ucast address]), w)
         else (None, term_out (text_line ''Error: Invalid address bytes'') w))"

definition eeprom_ui_progress :: "u32 \<Rightarrow> u32 \<Rightarrow> 'f eep \<Rightarrow> 'f eep" where
  "eeprom_ui_progress cur n = eep_print [TText ''Progress: '', TNat cur, TText '' of '', TNat n]"

subsection \<open>Writing\<close>

text \<open>
  The loops count with natural numbers; an address is \<open>of_nat\<close> of its expression, the 32-bit value.
  A loop goes on, or jumps to the clean-up label, or the function returns an error. A function
  that gets a buffer returns what it leaves in it.
\<close>

datatype 'a flow = Go_on 'a | Cleanup 'a | Failed 'a

definition splice :: "bytes \<Rightarrow> nat \<Rightarrow> bytes \<Rightarrow> bytes" where
  "splice buf off xs = take off buf @ xs @ drop (off + length xs) buf"

abbreviation page_bytes :: "eeprom_info \<Rightarrow> nat" where
  "page_bytes e \<equiv> unat (dv_page_bytes (ei_device e))"

definition write_pages :: "eeprom_info \<Rightarrow> nat" where
  "write_pages e = unat (eeprom_get_address_block_size e) div page_bytes e"

fun eeprom_write_pages ::
  "'f fatfs \<Rightarrow> eeprom_hal \<Rightarrow> eeprom_info \<Rightarrow> bool \<Rightarrow> nat \<Rightarrow> nat \<Rightarrow> nat \<Rightarrow> nat \<Rightarrow> nat \<Rightarrow> bytes \<Rightarrow> 'f eep \<Rightarrow>
    (bytes \<times> 'f eep) flow" where
  "eeprom_write_pages fs hal e from_buf i j 0 page_write_size got buf s = Go_on (buf, s)"
| "eeprom_write_pages fs hal e from_buf i j (Suc n) page_write_size got buf s =
     (let pg = page_bytes e in
      if \<not> from_buf \<and> got = 0 then Cleanup (buf, s)
      else let end_of_file = (\<not> from_buf \<and> got < pg); page_write_size = (if end_of_file then got else page_write_size)
        in case hal_write_page hal e (of_nat (i * 256 + j * pg)) (take pg (drop (j * pg) buf)) page_write_size (eep_world s) of
          (err, page, w) \<Rightarrow>
            let buf = splice buf (j * pg) page; s = s\<lparr>eep_world := w\<rparr>
            in if err
               then let s = eeprom_msg (''Error writing EEPROM at '' @ dec_text (of_nat (i * 256 + j)) @ crlf) s
                    in Failed (buf, if from_buf then s else snd (file_close fs s))
               else if end_of_file then Cleanup (buf, s)
               else eeprom_write_pages fs hal e from_buf i (j + 1) n page_write_size
                      (if from_buf then got else got - page_write_size) buf s)"

fun eeprom_write_blocks ::
  "'f fatfs \<Rightarrow> eeprom_hal \<Rightarrow> eeprom_info \<Rightarrow> bool \<Rightarrow> nat \<Rightarrow> nat \<Rightarrow> bytes \<Rightarrow> 'f eep \<Rightarrow> (bytes \<times> 'f eep) flow" where
  "eeprom_write_blocks fs hal e from_buf i 0 buf s = Go_on (buf, s)"
| "eeprom_write_blocks fs hal e from_buf i (Suc n) buf s =
     (let write_size = unat (eeprom_get_address_block_size e) in
      case (if from_buf then (False, write_size, buf, s)
            else (case file_read fs write_size s of (err, bs, s) \<Rightarrow> (err, length bs, splice buf 0 bs, s))) of
        (err, got, buf, s) \<Rightarrow>
          if err then Failed (buf, s)
          else if \<not> from_buf \<and> got = 0 then Cleanup (buf, s)
          else (case eeprom_write_pages fs hal e from_buf i 0 (write_pages e) (page_bytes e) got buf
                       (eeprom_ui_progress (of_nat i) (eeprom_get_address_blocks_total e) s) of
            Go_on (buf, s) \<Rightarrow> eeprom_write_blocks fs hal e from_buf (i + 1) n buf s
          | r \<Rightarrow> r))"

definition file_size_warning :: "string \<Rightarrow> u32 \<Rightarrow> u32 \<Rightarrow> 'f eep \<Rightarrow> 'f eep" where
  "file_size_warning verb file_size_bytes size_bytes s =
     (if file_size_bytes < size_bytes
      then eeprom_msg (''Warning: File smaller than EEPROM: '' @ verb @ '' the first '' @ dec_text file_size_bytes @ '' bytes'' @ crlf) s
      else if size_bytes < file_size_bytes
      then eeprom_msg (''Warning: EEPROM is smaller than file: '' @ verb @ '' the first '' @ dec_text size_bytes @ '' bytes'' @ crlf) s
      else s)"

definition eeprom_write_cleanup :: "'f fatfs \<Rightarrow> eeprom_info \<Rightarrow> bool \<Rightarrow> bytes \<times> 'f eep \<Rightarrow> bool \<times> bytes \<times> 'f eep" where
  "eeprom_write_cleanup fs e from_buf r =
     (case r of (buf, s) \<Rightarrow>
        let n = eeprom_get_address_blocks_total e; s = eeprom_ui_progress n n s
        in if from_buf then (False, buf, s) else (case file_close fs s of (err, s) \<Rightarrow> (err, buf, s)))"

definition eeprom_write :: "'f fatfs \<Rightarrow> eeprom_hal \<Rightarrow> eeprom_info \<Rightarrow> bytes \<Rightarrow> bool \<Rightarrow> 'f eep \<Rightarrow> bool \<times> bytes \<times> 'f eep" where
  "eeprom_write fs hal e buf from_buf s =
     (case (if from_buf then (False, s)
            else (case file_open fs (ei_file_name e) False s of (err, s) \<Rightarrow>
              if err then (True, s)
              else (False, file_size_warning ''writing'' (file_size fs s) (dv_size_bytes (ei_device e)) s))) of
        (err, s) \<Rightarrow>
          if err then (True, buf, s)
          else let blocks = eeprom_get_address_blocks_total e;
                   s = eeprom_msg (''Writing '' @ dec_text blocks @ '' blocks of '' @ dec_text (eeprom_get_address_block_size e) @
                         '' bytes each, '' @ dec_text (of_nat (write_pages e)) @ '' pages per block'' @ crlf) s
               in (case eeprom_write_blocks fs hal e from_buf 0 (unat blocks) buf s of
                     Failed (buf, s) \<Rightarrow> (True, buf, s)
                   | Cleanup r \<Rightarrow> eeprom_write_cleanup fs e from_buf r
                   | Go_on r \<Rightarrow> eeprom_write_cleanup fs e from_buf r))"

subsection \<open>Reading and verifying\<close>

definition first_mismatch :: "nat \<Rightarrow> bytes \<Rightarrow> bytes \<Rightarrow> nat option" where
  "first_mismatch n xs ys = List.find (\<lambda>j. xs ! j \<noteq> ys ! j) [0..<n]"

fun eeprom_read_blocks ::
  "'f fatfs \<Rightarrow> eeprom_hal \<Rightarrow> eeprom_info \<Rightarrow> eeprom_read_action \<Rightarrow> nat \<Rightarrow> nat \<Rightarrow> nat \<Rightarrow> bytes \<Rightarrow> bytes \<Rightarrow> 'f eep \<Rightarrow>
    (bytes \<times> bytes \<times> 'f eep) flow" where
  "eeprom_read_blocks fs hal e action i 0 read_size buf vbuf s = Go_on (buf, vbuf, s)"
| "eeprom_read_blocks fs hal e action i (Suc n) read_size buf vbuf s =
     (let s = eeprom_ui_progress (of_nat i) (eeprom_get_address_blocks_total e) s in
      case hal_read hal e (of_nat (i * 256)) read_size (eep_world s) of
        (err, bs, w) \<Rightarrow>
          let buf = splice buf 0 bs; s = s\<lparr>eep_world := w\<rparr> in
          if err
          then let s = eeprom_msg (''Error reading EEPROM at '' @ dec_text (of_nat (i * 256)) @ crlf) s
               in Failed (buf, vbuf, if action = EEPROM_VERIFY_BUFFER then s else snd (file_close fs s))
          else if action = EEPROM_READ_TO_FILE
          then (case file_write fs (take read_size buf) s of
                  (err, s) \<Rightarrow> if err then Failed (buf, vbuf, s)
                              else eeprom_read_blocks fs hal e action (i + 1) n read_size buf vbuf s)
          else (case (if action = EEPROM_VERIFY_FILE
                      then (case file_read fs read_size s of (err, bs, s) \<Rightarrow> (err, length bs, splice vbuf 0 bs, s))
                      else (False, read_size, vbuf, s)) of
            (err, got, vbuf, s) \<Rightarrow>
              if err then Failed (buf, vbuf, s)
              else if action = EEPROM_VERIFY_FILE \<and> got = 0 then Cleanup (buf, vbuf, s)
              else let read_size = (if got < read_size then got else read_size)
                in (case first_mismatch read_size buf vbuf of
                  Some j \<Rightarrow>
                    let s = eeprom_msg (crlf @ ''Error at 0x'' @ hex_text 8 (i * 256 + j) @ '': expected 0x'' @ hex_text 2 (unat (vbuf ! j)) @
                              '', read 0x'' @ hex_text 2 (unat (buf ! j)) @ crlf) s
                    in Failed (buf, vbuf, if action = EEPROM_VERIFY_FILE then snd (file_close fs s) else s)
                | None \<Rightarrow>
                    if read_size < page_bytes e then Cleanup (buf, vbuf, s)
                    else eeprom_read_blocks fs hal e action (i + 1) n read_size buf vbuf s)))"

definition eeprom_read_cleanup ::
  "'f fatfs \<Rightarrow> eeprom_info \<Rightarrow> eeprom_read_action \<Rightarrow> bytes \<times> bytes \<times> 'f eep \<Rightarrow> bool \<times> bytes \<times> bytes \<times> 'f eep" where
  "eeprom_read_cleanup fs e action r =
     (case r of (buf, vbuf, s) \<Rightarrow>
        let n = eeprom_get_address_blocks_total e; s = eeprom_ui_progress n n s
        in if action = EEPROM_VERIFY_BUFFER then (False, buf, vbuf, s)
           else (case file_close fs s of (err, s) \<Rightarrow> (err, buf, vbuf, s)))"

definition eeprom_read ::
  "'f fatfs \<Rightarrow> eeprom_hal \<Rightarrow> eeprom_info \<Rightarrow> bytes \<Rightarrow> bytes \<Rightarrow> eeprom_read_action \<Rightarrow> 'f eep \<Rightarrow> bool \<times> bytes \<times> bytes \<times> 'f eep" where
  "eeprom_read fs hal e buf vbuf action s =
     (case (case action of
              EEPROM_READ_TO_FILE \<Rightarrow> file_open fs (ei_file_name e) True s
            | EEPROM_VERIFY_FILE \<Rightarrow>
                (case file_open fs (ei_file_name e) False s of (err, s) \<Rightarrow>
                   if err then (True, s)
                   else (False, file_size_warning ''verifying'' (file_size fs s) (dv_size_bytes (ei_device e)) s))
            | EEPROM_VERIFY_BUFFER \<Rightarrow>
                if length buf < 256
                then (True, eeprom_msg (''Buffer size must be at least 256 bytes for EEPROM read operation'' @ crlf) s)
                else (False, s)) of
        (err, s) \<Rightarrow>
          if err then (True, buf, vbuf, s)
          else (case eeprom_read_blocks fs hal e action 0 (unat (eeprom_get_address_blocks_total e))
                       (unat (eeprom_get_address_block_size e)) buf vbuf s of
                  Failed (buf, vbuf, s) \<Rightarrow> (True, buf, vbuf, s)
                | Cleanup r \<Rightarrow> eeprom_read_cleanup fs e action r
                | Go_on r \<Rightarrow> eeprom_read_cleanup fs e action r))"

subsection \<open>The actions of the command\<close>

definition eeprom_action_erase ::
  "'f fatfs \<Rightarrow> eeprom_hal \<Rightarrow> eeprom_info \<Rightarrow> bytes \<Rightarrow> bytes \<Rightarrow> bool \<Rightarrow> 'f eep \<Rightarrow> bool \<times> bytes \<times> bytes \<times> 'f eep" where
  "eeprom_action_erase fs hal e buf vbuf verify s =
     (let s = eeprom_msg (''Erase: Writing 0xFF to all bytes...'' @ crlf) s; buf = replicate (length buf) 0xFF in
      case eeprom_write fs hal e buf True s of
        (err, buf, s) \<Rightarrow>
          if err then (True, buf, vbuf, s)
          else let s = eeprom_msg (crlf @ ''Erase complete'' @ crlf) s
            in if verify
               then (let s = eeprom_msg (''Erase verify...'' @ crlf) s; vbuf = replicate (length vbuf) 0xFF in
                     case eeprom_read fs hal e buf vbuf EEPROM_VERIFY_BUFFER s of
                       (err, buf, vbuf, s) \<Rightarrow>
                         if err then (True, buf, vbuf, s)
                         else (False, buf, vbuf, eeprom_msg (crlf @ ''Erase verify complete'' @ crlf) s))
               else (False, buf, vbuf, s))"

definition test_pattern :: "nat \<Rightarrow> u8 \<Rightarrow> u8 \<Rightarrow> bytes" where
  "test_pattern n x y = map (\<lambda>i. if i mod 2 = 0 then x else y) [0..<n]"

text \<open>Writes \<open>vbuf\<close> and reads it back; the half of the test that the source writes out twice.\<close>

definition eeprom_write_verify ::
  "'f fatfs \<Rightarrow> eeprom_hal \<Rightarrow> eeprom_info \<Rightarrow> bytes \<Rightarrow> bytes \<Rightarrow> 'f eep \<Rightarrow> bool \<times> bytes \<times> bytes \<times> 'f eep" where
  "eeprom_write_verify fs hal e buf vbuf s =
     (case eeprom_write fs hal e vbuf True s of
        (err, vbuf, s) \<Rightarrow>
          if err then (True, buf, vbuf, s)
          else eeprom_read fs hal e buf vbuf EEPROM_VERIFY_BUFFER
                 (eeprom_msg (crlf @ ''Write complete'' @ crlf @ ''Write verify...'' @ crlf) s))"

definition eeprom_action_test ::
  "'f fatfs \<Rightarrow> eeprom_hal \<Rightarrow> eeprom_info \<Rightarrow> bytes \<Rightarrow> bytes \<Rightarrow> 'f eep \<Rightarrow> bool \<times> bytes \<times> bytes \<times> 'f eep" where
  "eeprom_action_test fs hal e buf vbuf s =
     (let s = eeprom_msg (''Writing 0xAA 0x55...'' @ crlf)
                (eeprom_msg (crlf @ ''Test: Writing alternating patterns'' @ crlf) s) in
      case eeprom_write_verify fs hal e buf (test_pattern (length vbuf) 0xAA 0x55) s of
        (err, buf, vbuf, s) \<Rightarrow>
          if err then (True, buf, vbuf, s)
          else (let s = eeprom_msg (crlf @ ''Write verify complete'' @ crlf @ ''Writing 0x55 0xAA...'' @ crlf) s in
            case eeprom_write_verify fs hal e buf (test_pattern (length vbuf) 0x55 0xAA) s of
              (err, buf, vbuf, s) \<Rightarrow>
                if err then (True, buf, vbuf, s)
                else (False, buf, vbuf, eeprom_msg (crlf @ ''Write verify complete'' @ crlf) s)))"

definition eeprom_action_write ::
  "'f fatfs \<Rightarrow> eeprom_hal \<Rightarrow> eeprom_info \<Rightarrow> bytes \<Rightarrow> bytes \<Rightarrow> bool \<Rightarrow> 'f eep \<Rightarrow> bool \<times> bytes \<times> bytes \<times> 'f eep" where
  "eeprom_action_write fs hal e buf vbuf verify s =
     (case eeprom_write fs hal e buf False
             (eeprom_msg (''Write: Writing EEPROM from file '' @ ei_file_name e @ ''...'' @ crlf) s) of
        (err, buf, s) \<Rightarrow>
          if err then (True, buf, vbuf, s)
          else let s = eeprom_msg (crlf @ ''Write complete'' @ crlf) s
            in if verify
               then (case eeprom_read fs hal e buf vbuf EEPROM_VERIFY_FILE (eeprom_msg (''Write verify...'' @ crlf) s) of
                       (err, buf, vbuf, s) \<Rightarrow>
                         if err then (True, buf, vbuf, s)
                         else (False, buf, vbuf, eeprom_msg (crlf @ ''Write verify complete'' @ crlf) s))
               else (False, buf, vbuf, s))"

definition eeprom_action_read ::
  "'f fatfs \<Rightarrow> eeprom_hal \<Rightarrow> eeprom_info \<Rightarrow> bytes \<Rightarrow> bytes \<Rightarrow> bool \<Rightarrow> 'f eep \<Rightarrow> bool \<times> bytes \<times> bytes \<times> 'f eep" where
  "eeprom_action_read fs hal e buf vbuf verify s =
     (case eeprom_read fs hal e buf vbuf EEPROM_READ_TO_FILE
             (eeprom_msg (''Read: Reading EEPROM to file '' @ ei_file_name e @ ''...'' @ crlf) s) of
        (err, buf, vbuf, s) \<Rightarrow>
          if err then (True, buf, vbuf, s)
          else let s = eeprom_msg (crlf @ ''Read complete'' @ crlf) s
            in if verify
               then (case eeprom_read fs hal e buf vbuf EEPROM_VERIFY_FILE (eeprom_msg (''Read verify...'' @ crlf) s) of
                       (err, buf, vbuf, s) \<Rightarrow>
                         if err then (True, buf, vbuf, s)
                         else (False, buf, vbuf, eeprom_msg (crlf @ ''Read verify complete'' @ crlf) s))
               else (False, buf, vbuf, s))"

text \<open>The source returns no value when all is well: \<open>None\<close>.\<close>

definition eeprom_action_verify ::
  "'f fatfs \<Rightarrow> eeprom_hal \<Rightarrow> eeprom_info \<Rightarrow> bytes \<Rightarrow> bytes \<Rightarrow> 'f eep \<Rightarrow> bool option \<times> bytes \<times> bytes \<times> 'f eep" where
  "eeprom_action_verify fs hal e buf vbuf s =
     (case eeprom_read fs hal e buf vbuf EEPROM_VERIFY_FILE
             (eeprom_msg (''Verify: Verifying EEPROM contents against file '' @ ei_file_name e @ ''...'' @ crlf) s) of
        (err, buf, vbuf, s) \<Rightarrow>
          if err then (Some True, buf, vbuf, s)
          else (None, buf, vbuf, eeprom_msg (crlf @ ''Verify complete'' @ crlf) s))"

subsection \<open>Large buffers\<close>

fun from_buffer_pages ::
  "eeprom_hal \<Rightarrow> eeprom_info \<Rightarrow> nat \<Rightarrow> nat \<Rightarrow> nat \<Rightarrow> nat \<Rightarrow> bytes \<Rightarrow> 'f eep \<Rightarrow> bool \<times> bytes \<times> 'f eep" where
  "from_buffer_pages hal e i j 0 block_bytes work s = (False, work, s)"
| "from_buffer_pages hal e i j (Suc n) block_bytes work s =
     (let pg = page_bytes e; page_off = j * pg in
      if block_bytes \<le> page_off then (False, work, s)
      else let page_remaining = block_bytes - page_off;
               page_write_size = (if page_remaining < pg then page_remaining else pg)
        in case hal_write_page hal e (of_nat (i * 256 + page_off)) (take pg (drop page_off work)) page_write_size (eep_world s) of
          (err, page, w) \<Rightarrow>
            let work = splice work page_off page; s = s\<lparr>eep_world := w\<rparr>
            in if err
               then (True, work, eeprom_msg (''Error writing EEPROM at 0x'' @ hex_text 8 (i * 256 + page_off) @ crlf) s)
               else from_buffer_pages hal e i (j + 1) n block_bytes work s)"

fun from_buffer_blocks ::
  "eeprom_hal \<Rightarrow> eeprom_info \<Rightarrow> bytes \<Rightarrow> nat \<Rightarrow> nat \<Rightarrow> nat \<Rightarrow> nat \<Rightarrow> bytes \<Rightarrow> 'f eep \<Rightarrow> bool \<times> bytes \<times> 'f eep" where
  "from_buffer_blocks hal e src total_bytes i 0 src_offset work s = (False, work, s)"
| "from_buffer_blocks hal e src total_bytes i (Suc n) src_offset work s =
     (if total_bytes \<le> src_offset then (False, work, s)
      else let s = eeprom_ui_progress (of_nat i) (eeprom_get_address_blocks_total e) s;
               write_size = unat (eeprom_get_address_block_size e); block_remaining = total_bytes - src_offset;
               block_bytes = (if block_remaining < write_size then block_remaining else write_size);
               work = splice work 0 (take block_bytes (drop src_offset src))
        in case from_buffer_pages hal e i 0 (write_pages e) block_bytes work s of
          (err, work, s) \<Rightarrow>
            if err then (True, work, s)
            else from_buffer_blocks hal e src total_bytes (i + 1) n (src_offset + block_bytes) work s)"

definition eeprom_write_from_buffer ::
  "eeprom_hal \<Rightarrow> eeprom_info \<Rightarrow> bytes \<Rightarrow> bytes \<Rightarrow> 'f eep \<Rightarrow> bool \<times> bytes \<times> 'f eep" where
  "eeprom_write_from_buffer hal e src work s =
     (let eep_size = unat (dv_size_bytes (ei_device e)); blocks = eeprom_get_address_blocks_total e;
          total_bytes = (if length src < eep_size then length src else eep_size);
          s = (if length src < eep_size
               then eeprom_msg (''Warning: Buffer smaller than EEPROM: writing '' @ nat_text (length src) @ '' bytes'' @ crlf) s
               else if eep_size < length src
               then eeprom_msg (''Warning: Buffer larger than EEPROM: writing '' @ nat_text eep_size @ '' bytes'' @ crlf) s
               else s);
          s = eeprom_msg (''Writing '' @ nat_text total_bytes @ '' bytes from buffer...'' @ crlf) s
      in case from_buffer_blocks hal e src total_bytes 0 (unat blocks) 0 work s of
        (err, work, s) \<Rightarrow>
          if err then (True, work, s)
          else (False, work, eeprom_msg (crlf @ ''Write complete'' @ crlf) (eeprom_ui_progress blocks blocks s)))"

fun against_buffer_blocks ::
  "eeprom_hal \<Rightarrow> eeprom_info \<Rightarrow> bytes \<Rightarrow> nat \<Rightarrow> nat \<Rightarrow> nat \<Rightarrow> nat \<Rightarrow> bytes \<Rightarrow> 'f eep \<Rightarrow> bool \<times> bytes \<times> 'f eep" where
  "against_buffer_blocks hal e ref total_bytes i 0 ref_offset work s = (False, work, s)"
| "against_buffer_blocks hal e ref total_bytes i (Suc n) ref_offset work s =
     (if total_bytes \<le> ref_offset then (False, work, s)
      else let s = eeprom_ui_progress (of_nat i) (eeprom_get_address_blocks_total e) s;
               read_size = unat (eeprom_get_address_block_size e); block_remaining = total_bytes - ref_offset;
               block_bytes = (if block_remaining < read_size then block_remaining else read_size)
        in case hal_read hal e (of_nat (i * 256)) block_bytes (eep_world s) of
          (err, bs, w) \<Rightarrow>
            let work = splice work 0 bs; s = s\<lparr>eep_world := w\<rparr> in
            if err then (True, work, eeprom_msg (''Error reading EEPROM at 0x'' @ hex_text 8 (i * 256) @ crlf) s)
            else (case first_mismatch block_bytes work (drop ref_offset ref) of
              Some j \<Rightarrow>
                (True, work, eeprom_msg (crlf @ ''Mismatch at 0x'' @ hex_text 8 (ref_offset + j) @ '': expected 0x'' @
                   hex_text 2 (unat (ref ! (ref_offset + j))) @ '', read 0x'' @ hex_text 2 (unat (work ! j)) @ crlf) s)
            | None \<Rightarrow> against_buffer_blocks hal e ref total_bytes (i + 1) n (ref_offset + block_bytes) work s))"

definition eeprom_verify_against_buffer ::
  "eeprom_hal \<Rightarrow> eeprom_info \<Rightarrow> bytes \<Rightarrow> bytes \<Rightarrow> 'f eep \<Rightarrow> bool \<times> bytes \<times> 'f eep" where
  "eeprom_verify_against_buffer hal e ref work s =
     (let eep_size = unat (dv_size_bytes (ei_device e)); blocks = eeprom_get_address_blocks_total e;
          total_bytes = (if length ref < eep_size then length ref else eep_size);
          s = eeprom_msg (''Verifying '' @ nat_text total_bytes @ '' bytes against buffer...'' @ crlf) s
      in case against_buffer_blocks hal e ref total_bytes 0 (unat blocks) 0 work s of
        (err, work, s) \<Rightarrow>
          if err then (True, work, s)
          else (False, work, eeprom_msg (crlf @ ''Verify complete'' @ crlf) (eeprom_ui_progress blocks blocks s)))"

end
