(* ===== verification/Eeprom_Memory.thy ===== *)
theory Eeprom_Memory
  imports Eeprom_Base
begin

text \<open>
  What the EEPROM actions rely on and what they do then. The locale \<open>eeprom_memory\<close> is the contract
  of a device's \<open>read\<close> and \<open>write_page\<close> with the memory it holds; in it the loops of
  \<^verbatim>\<open>src/commands/eeprom/eeprom_base.c\<close> write, compare and save exactly the bytes they are meant to.
  \<open>fatfs_contract\<close> is what is documented of the FatFs calls.
\<close>

subsection \<open>Bytes replaced in a list\<close>

lemma splice_nil [simp]: "splice m a [] = m"
  by (simp add: splice_def)

lemma length_splice [simp]: "a + length xs \<le> length m \<Longrightarrow> length (splice m a xs) = length m"
  by (simp add: splice_def)

lemma splice_splice: "a + length xs \<le> length m \<Longrightarrow> splice (splice m a xs) (a + length xs) ys = splice m a (xs @ ys)"
  by (simp add: splice_def ac_simps)

lemma drop_splice: "a + length xs \<le> k \<Longrightarrow> a \<le> length m \<Longrightarrow> drop k (splice m a xs) = drop k m"
  by (simp add: splice_def)

lemma take_splice [simp]: "a \<le> length m \<Longrightarrow> take a (splice m a xs) = take a m"
  by (simp add: splice_def)

lemma splice_slice: "splice m a (take n (drop a m)) = m"
proof -
  have "m = take a m @ take n (drop a m) @ drop n (drop a m)"
    unfolding append_take_drop_id ..
  moreover have "drop n (drop a m) = drop (a + length (take n (drop a m))) m"
    by (cases "n \<le> length (drop a m)") (auto simp: min_def add.commute)
  ultimately show ?thesis
    by (simp add: splice_def)
qed

lemma take_splice_slice: "a + length xs = k \<Longrightarrow> k \<le> length m \<Longrightarrow> take (length xs) (drop a (splice m a xs)) = xs"
  by (simp add: splice_def)

lemma first_mismatch_None:
  assumes "n \<le> length xs" "n \<le> length ys"
  shows "first_mismatch n xs ys = None \<longleftrightarrow> take n xs = take n ys"
  using assms by (auto simp: first_mismatch_def find_None_iff list_eq_iff_nth_eq)

subsection \<open>The sizes of a device\<close>

abbreviation size_bytes :: "eeprom_info \<Rightarrow> nat" where
  "size_bytes e \<equiv> unat (dv_size_bytes (ei_device e))"

abbreviation block_bytes :: "eeprom_info \<Rightarrow> nat" where
  "block_bytes e \<equiv> unat (eeprom_get_address_block_size e)"

abbreviation blocks_total :: "eeprom_info \<Rightarrow> nat" where
  "blocks_total e \<equiv> unat (eeprom_get_address_blocks_total e)"

text \<open>Whole blocks, and whole pages in a block.\<close>

definition device_wf :: "eeprom_device \<Rightarrow> bool" where
  "device_wf d \<longleftrightarrow> (let z = unat (dv_size_bytes d); pg = unat (dv_page_bytes d) in
     0 < pg \<and> 0 < z \<and> (if z < 256 then z mod pg = 0 else 256 mod pg = 0 \<and> z mod 256 = 0))"

lemma block_bytes_eq: "block_bytes e = (if size_bytes e < 256 then size_bytes e else 256)"
  by (simp add: eeprom_get_address_block_size_def word_less_nat_alt)

lemma blocks_total_eq: "blocks_total e = (if size_bytes e < 256 then 1 else size_bytes e div 256)"
proof -
  have eq: "unat (dv_size_bytes (ei_device e) div 256) = size_bytes e div 256"
    by (simp add: unat_div)
  have "dv_size_bytes (ei_device e) div 256 = 0 \<longleftrightarrow> size_bytes e < 256"
    unfolding unat_eq_0 [symmetric] eq by (simp add: div_eq_0_iff)
  then show ?thesis
    using eq by (simp add: eeprom_get_address_blocks_total_def Let_def)
qed

lemma block_le: "block_bytes e \<le> 256"
  by (simp add: block_bytes_eq)

lemma blocks_times_bytes: "device_wf (ei_device e) \<Longrightarrow> blocks_total e * block_bytes e = size_bytes e"
  by (auto simp: blocks_total_eq block_bytes_eq device_wf_def Let_def)

lemma pages_times_bytes: "device_wf (ei_device e) \<Longrightarrow> write_pages e * page_bytes e = block_bytes e"
  by (auto simp: write_pages_def block_bytes_eq device_wf_def Let_def split: if_splits)

lemma block_start: "i < blocks_total e \<Longrightarrow> i * 256 = i * block_bytes e"
  by (auto simp: blocks_total_eq block_bytes_eq split: if_splits)

lemma block_fits:
  assumes "device_wf (ei_device e)" "i < blocks_total e"
  shows "i * 256 + block_bytes e \<le> size_bytes e"
proof -
  have "(i + 1) * block_bytes e \<le> blocks_total e * block_bytes e"
    using assms(2) by (intro mult_le_mono1) simp
  then show ?thesis
    unfolding blocks_times_bytes [OF assms(1)] block_start [OF assms(2)] by simp
qed

lemma page_fits:
  assumes "device_wf (ei_device e)" "i < blocks_total e" "j < write_pages e"
  shows "j * page_bytes e + page_bytes e \<le> block_bytes e" "i * 256 + j * page_bytes e + page_bytes e \<le> size_bytes e"
proof -
  have "(j + 1) * page_bytes e \<le> write_pages e * page_bytes e"
    using assms(3) by (intro mult_le_mono1) simp
  then show "j * page_bytes e + page_bytes e \<le> block_bytes e"
    unfolding pages_times_bytes [OF assms(1)] by simp
  then show "i * 256 + j * page_bytes e + page_bytes e \<le> size_bytes e"
    using block_fits [OF assms(1,2)] by simp
qed

lemma page_dvd:
  assumes "device_wf (ei_device e)" "i < blocks_total e"
  shows "page_bytes e dvd i * 256 + j * page_bytes e"
proof -
  have "page_bytes e dvd block_bytes e"
    unfolding pages_times_bytes [OF assms(1), symmetric] by simp
  then show ?thesis
    unfolding block_start [OF assms(2)] by simp
qed

lemma unat_address: "k \<le> size_bytes e \<Longrightarrow> unat (of_nat k :: u32) = k"
  using unsigned_less [of "dv_size_bytes (ei_device e)", where ?'a = nat] by (intro unat_of_nat_small) simp

subsection \<open>Addresses\<close>

abbreviation address_bytes :: "eeprom_info \<Rightarrow> nat" where
  "address_bytes e \<equiv> unat (dv_address_bytes (ei_device e))"

text \<open>The address a chip puts together from its bytes.\<close>

definition address_of :: "nat \<Rightarrow> u8 list \<Rightarrow> nat" where
  "address_of = foldl (\<lambda>p b. p * 256 + unat b)"

lemma unat_drop: "unat (drop_bit k (a :: u32)) = unat a div 2 ^ k"
  using unsigned_less [of a, where ?'a = nat]
  by (simp only: unsigned_drop_bit_eq) (simp add: drop_bit_eq_div take_bit_nat_eq_self)

lemma unat_block:
  assumes "unat a div 256 ^ n < 256"
  shows "unat (ucast (drop_bit (8 * n) (a :: u32)) :: u8) = unat a div 256 ^ n"
proof -
  have "unat (drop_bit (8 * n) a) = unat a div 2 ^ (8 * n)"
    by (rule unat_drop)
  then have "unat (drop_bit (8 * n) a) = unat a div 256 ^ n"
    by (simp only: power_mult) simp
  then show ?thesis
    using assms by (simp add: unsigned_ucast_eq take_bit_nat_eq_self)
qed

lemma get_address_bytes:
  assumes "unat a < size_bytes e" "address_bytes e = 1 \<or> address_bytes e = 2 \<or> address_bytes e = 3"
  shows "\<exists>arr. eeprom_get_address e a w = (Some (push_bit (unat (dv_block_select_offset (ei_device e)))
      (ucast (drop_bit (8 * address_bytes e) a)), arr), w) \<and> length arr = address_bytes e \<and>
    address_of (unat a div 256 ^ address_bytes e) arr = unat a"
proof -
  have le: "\<not> dv_size_bytes (ei_device e) \<le> a"
    using assms(1) by (simp add: word_le_nat_alt)
  have byte: "unat (ucast x :: u8) = unat (x :: u32) mod 256" for x
    by (simp add: unsigned_ucast_eq take_bit_eq_mod)
  have mid: "unat (drop_bit 8 a) = unat a div 256" and hi: "unat (drop_bit 16 a) = unat a div 256 div 256"
    using unat_drop [of 8 a] unat_drop [of 16 a] by (simp_all add: div_mult2_eq [symmetric])
  have id: "dv_address_bytes (ei_device e) = of_nat (address_bytes e)"
    by simp
  from assms(2) show ?thesis
  proof (elim disjE)
    assume n: "address_bytes e = 1"
    then show ?thesis
      using le id by (simp add: eeprom_get_address_def Let_def address_of_def byte)
  next
    assume n: "address_bytes e = 2"
    have "unat a div 65536 = unat a div 256 div 256"
      by (simp add: div_mult2_eq [symmetric])
    then have "(unat a div 65536 * 256 + unat a div 256 mod 256) * 256 + unat a mod 256 = unat a"
      by simp
    then show ?thesis
      using le id n by (simp add: eeprom_get_address_def Let_def address_of_def byte mid power2_eq_square)
  next
    assume n: "address_bytes e = 3"
    have "unat a div 16777216 = unat a div 256 div 256 div 256"
      by (simp add: div_mult2_eq [symmetric])
    then have "((unat a div 16777216 * 256 + unat a div 256 div 256 mod 256) * 256 + unat a div 256 mod 256) * 256 +
        unat a mod 256 = unat a"
      by simp
    then show ?thesis
      using le id n by (simp add: eeprom_get_address_def Let_def address_of_def byte mid hi power3_eq_cube)
  qed
qed

subsection \<open>Pages\<close>

text \<open>What a chip does with the bytes of its page latch: those beyond the end of the page wrap around.\<close>

fun page_program :: "nat \<Rightarrow> nat \<Rightarrow> u8 list \<Rightarrow> u8 list \<Rightarrow> u8 list" where
  "page_program pg ptr [] mem = mem"
| "page_program pg ptr (b # bs) mem =
     page_program pg (ptr div pg * pg + (ptr + 1) mod pg) bs (mem[ptr := b])"

lemma list_update_splice: "ptr < length m \<Longrightarrow> m[ptr := b] = splice m ptr [b]"
  by (simp add: splice_def upd_conv_take_nth_drop)

lemma page_program_inside:
  assumes "ptr mod pg + length bs \<le> pg" "ptr + length bs \<le> length m"
  shows "page_program pg ptr bs m = splice m ptr bs"
  using assms
proof (induction bs arbitrary: ptr m)
  case (Cons b bs)
  have upd: "m[ptr := b] = splice m ptr [b]"
    using Cons.prems(2) by (intro list_update_splice) simp
  show ?case
  proof (cases "bs = []")
    case True
    then show ?thesis
      by (simp add: upd)
  next
    case False
    then have "ptr mod pg + 1 < pg"
      using Cons.prems(1) by (cases bs) simp_all
    then have m: "(ptr + 1) mod pg = ptr mod pg + 1"
      by (metis mod_less mod_add_left_eq)
    then have "ptr div pg * pg + (ptr + 1) mod pg = ptr + 1"
      by simp
    then have "page_program pg ptr (b # bs) m = page_program pg (ptr + 1) bs (splice m ptr [b])"
      by (simp add: upd)
    also have "\<dots> = splice (splice m ptr [b]) (ptr + length [b]) bs"
      using Cons.IH [of "ptr + 1" "splice m ptr [b]"] Cons.prems m by simp
    also have "\<dots> = splice m ptr ([b] @ bs)"
      using Cons.prems(2) by (intro splice_splice) simp
    finally show ?thesis
      by simp
  qed
qed simp

lemma splice_refresh:
  assumes "length xs \<le> pg" "a + pg \<le> length m"
  shows "splice m a (splice (take pg (drop a m)) 0 xs) = splice m a xs"
proof -
  have d: "drop (length xs) (drop a m) = drop (a + length xs) m"
    by (simp add: add.commute)
  have e: "drop (a + pg) m = drop (pg - length xs) (drop (a + length xs) m)"
    using assms(1) by (simp add: add.commute)
  have "drop (length xs) (take pg (drop a m)) @ drop (a + pg) m = drop (a + length xs) m"
    unfolding drop_take d e by (rule append_take_drop_id)
  then show ?thesis
    using assms by (simp add: splice_def)
qed

subsection \<open>Files\<close>

text \<open>
  What is documented of FatFs, on a view of its state: the contents of the files, and the name and
  position of the open one. Writes succeed up to a capacity.
\<close>

type_synonym 'f fat_view = "'f \<Rightarrow> (string \<rightharpoonup> bytes) \<times> (string \<times> nat) option"

definition fat_opens :: "'f fatfs \<Rightarrow> 'f fat_view \<Rightarrow> bool" where
  "fat_opens fs view \<longleftrightarrow> (\<forall>f files h name c. view f = (files, h) \<longrightarrow> files name = Some c \<longrightarrow>
     (\<exists>f'. f_open fs name False f = (True, f') \<and> view f' = (files, Some (name, 0))))"

definition fat_creates :: "'f fatfs \<Rightarrow> 'f fat_view \<Rightarrow> bool" where
  "fat_creates fs view \<longleftrightarrow> (\<forall>f files h name. view f = (files, h) \<longrightarrow>
     (\<exists>f'. f_open fs name True f = (True, f') \<and> view f' = (files(name \<mapsto> []), Some (name, 0))))"

definition fat_reads :: "'f fatfs \<Rightarrow> 'f fat_view \<Rightarrow> bool" where
  "fat_reads fs view \<longleftrightarrow> (\<forall>f files name p c n. view f = (files, Some (name, p)) \<longrightarrow> files name = Some c \<longrightarrow> p \<le> length c \<longrightarrow>
     f_size fs f = of_nat (length c) \<and>
     (\<exists>f'. f_read fs n f = (True, take n (drop p c), f') \<and> view f' = (files, Some (name, min (p + n) (length c)))))"

definition fat_writes :: "'f fatfs \<Rightarrow> 'f fat_view \<Rightarrow> nat \<Rightarrow> bool" where
  "fat_writes fs view cap \<longleftrightarrow> (\<forall>f files name c bs. view f = (files, Some (name, length c)) \<longrightarrow> files name = Some c \<longrightarrow>
     length c + length bs \<le> cap \<longrightarrow>
     (\<exists>f'. f_write fs bs f = (True, length bs, f') \<and> view f' = (files(name \<mapsto> c @ bs), Some (name, length c + length bs))))"

definition fat_closes :: "'f fatfs \<Rightarrow> 'f fat_view \<Rightarrow> bool" where
  "fat_closes fs view \<longleftrightarrow> (\<forall>f files h. view f = (files, Some h) \<longrightarrow>
     (\<exists>f'. f_close fs f = (True, f') \<and> view f' = (files, None)))"

definition fatfs_contract :: "'f fatfs \<Rightarrow> 'f fat_view \<Rightarrow> nat \<Rightarrow> bool" where
  "fatfs_contract fs view cap \<longleftrightarrow>
     fat_opens fs view \<and> fat_creates fs view \<and> fat_reads fs view \<and> fat_writes fs view cap \<and> fat_closes fs view"

lemma file_opened:
  assumes "fatfs_contract fs view cap" "view (eep_fs s) = (files, h)" "files name = Some c"
  shows "\<exists>f'. file_open fs name False s = (False, s\<lparr>eep_fs := f'\<rparr>) \<and> view f' = (files, Some (name, 0))"
proof -
  obtain f' where "f_open fs name False (eep_fs s) = (True, f')" "view f' = (files, Some (name, 0))"
    using assms unfolding fatfs_contract_def fat_opens_def by blast
  then show ?thesis
    by (intro exI [of _ f']) (simp add: file_open_def)
qed

lemma file_created:
  assumes "fatfs_contract fs view cap" "view (eep_fs s) = (files, h)"
  shows "\<exists>f'. file_open fs name True s = (False, s\<lparr>eep_fs := f'\<rparr>) \<and> view f' = (files(name \<mapsto> []), Some (name, 0))"
proof -
  obtain f' where "f_open fs name True (eep_fs s) = (True, f')" "view f' = (files(name \<mapsto> []), Some (name, 0))"
    using assms unfolding fatfs_contract_def fat_creates_def by blast
  then show ?thesis
    by (intro exI [of _ f']) (simp add: file_open_def)
qed

lemma file_has_read:
  assumes "fatfs_contract fs view cap" "view (eep_fs s) = (files, Some (name, p))" "files name = Some c" "p \<le> length c"
  shows "\<exists>f'. file_read fs n s = (False, take n (drop p c), s\<lparr>eep_fs := f'\<rparr>) \<and> view f' = (files, Some (name, min (p + n) (length c)))"
proof -
  obtain f' where "f_read fs n (eep_fs s) = (True, take n (drop p c), f')" "view f' = (files, Some (name, min (p + n) (length c)))"
    using assms unfolding fatfs_contract_def fat_reads_def by blast
  then show ?thesis
    by (intro exI [of _ f']) (simp add: file_read_def)
qed

lemma file_written:
  assumes "fatfs_contract fs view cap" "view (eep_fs s) = (files, Some (name, length c))" "files name = Some c"
    and "length c + length bs \<le> cap"
  shows "\<exists>f'. file_write fs bs s = (False, s\<lparr>eep_fs := f'\<rparr>) \<and> view f' = (files(name \<mapsto> c @ bs), Some (name, length c + length bs))"
proof -
  obtain f' where "f_write fs bs (eep_fs s) = (True, length bs, f')" "view f' = (files(name \<mapsto> c @ bs), Some (name, length c + length bs))"
    using assms unfolding fatfs_contract_def fat_writes_def by blast
  then show ?thesis
    by (intro exI [of _ f']) (simp add: file_write_def)
qed

lemma file_closed:
  assumes "fatfs_contract fs view cap" "view (eep_fs s) = (files, Some h)"
  shows "\<exists>f'. file_close fs s = (False, s\<lparr>eep_fs := f'\<rparr>) \<and> view f' = (files, None)"
proof -
  obtain f' where "f_close fs (eep_fs s) = (True, f')" "view f' = (files, None)"
    using assms unfolding fatfs_contract_def fat_closes_def by blast
  then show ?thesis
    by (intro exI [of _ f']) (simp add: file_close_def)
qed

subsection \<open>The contract of the hardware functions\<close>

locale eeprom_memory =
  fixes hal :: eeprom_hal and e :: eeprom_info and holds :: "bytes \<Rightarrow> world \<Rightarrow> bool"
  assumes holds_wf: "holds m w \<Longrightarrow> device_wf (ei_device e)"
    and holds_length: "holds m w \<Longrightarrow> length m = size_bytes e"
    and holds_print: "holds m w \<Longrightarrow> holds m (term_out ts w)"
    and read_law: "holds m w \<Longrightarrow> 0 < n \<Longrightarrow> unat a mod 256 + n \<le> 256 \<Longrightarrow> unat a + n \<le> length m \<Longrightarrow>
      \<exists>w'. hal_read hal e a n w = (False, take n (drop (unat a) m), w') \<and> holds m w'"
    and write_law: "holds m w \<Longrightarrow> page_bytes e dvd unat a \<Longrightarrow> unat a + page_bytes e \<le> length m \<Longrightarrow>
      length page = page_bytes e \<Longrightarrow> 0 < n \<Longrightarrow> n \<le> page_bytes e \<Longrightarrow>
      \<exists>w'. hal_write_page hal e a page n w = (False, splice (take (page_bytes e) (drop (unat a) m)) 0 (take n page), w') \<and>
        holds (splice m (unat a) (take n page)) w'"
begin

definition holding :: "bytes \<Rightarrow> 'f eep \<Rightarrow> bool" where
  "holding m s \<longleftrightarrow> holds m (eep_world s)"

lemma geometry: "holding m s \<Longrightarrow> device_wf (ei_device e)"
  by (simp add: holding_def holds_wf)

lemma holding_length: "holding m s \<Longrightarrow> length m = size_bytes e"
  by (simp add: holding_def holds_length)

lemma holding_print [simp]:
  assumes "holding m s"
  shows "holding m (eep_print ts s)" "holding m (eeprom_msg t s)" "holding m (eeprom_ui_progress x y s)"
    "holding m (file_size_warning t x y s)"
  using assms
  by (simp_all add: holding_def eep_print_def eep_do_def eeprom_msg_def eeprom_ui_progress_def file_size_warning_def holds_print)

lemma holding_fs [simp]: "holding m (s\<lparr>eep_fs := f\<rparr>) = holding m s"
  by (simp add: holding_def)

text \<open>One page, at a page of a block.\<close>

lemma page_written:
  fixes s :: "'f eep"
  assumes "holding m s" "i < blocks_total e" "j < write_pages e" "block_bytes e \<le> length buf"
    and n: "0 < n" "n \<le> page_bytes e"
  defines "a \<equiv> i * 256 + j * page_bytes e" and "off \<equiv> j * page_bytes e"
  obtains page w' where "hal_write_page hal e (of_nat a) (take (page_bytes e) (drop off buf)) n (eep_world s) = (False, page, w')"
    and "length (splice buf off page) = length buf"
    and "drop (off + page_bytes e) (splice buf off page) = drop (off + page_bytes e) buf"
    and "n = page_bytes e \<Longrightarrow> splice buf off page = buf"
    and "holding (splice m a (take n (drop off buf))) (s\<lparr>eep_world := w'\<rparr>)"
proof -
  note fits = page_fits [OF geometry [OF assms(1)] assms(2,3)]
  have len: "length m = size_bytes e"
    using holding_length [OF assms(1)] .
  have ua: "unat (of_nat a :: u32) = a"
    using fits(2) by (intro unat_address [of _ e]) (simp add: a_def)
  have lp: "length (take (page_bytes e) (drop off buf)) = page_bytes e"
    using fits(1) assms(4) by (simp add: off_def)
  have tk: "take n (take (page_bytes e) (drop off buf)) = take n (drop off buf)"
    using n by (simp add: min_def)
  obtain w' where w': "hal_write_page hal e (of_nat a) (take (page_bytes e) (drop off buf)) n (eep_world s) =
      (False, splice (take (page_bytes e) (drop a m)) 0 (take n (drop off buf)), w')"
    "holds (splice m a (take n (drop off buf))) w'"
    using write_law [of m "eep_world s" "of_nat a", OF _ _ _ lp n] assms(1) fits(2) page_dvd [OF geometry [OF assms(1)] assms(2)] len
    unfolding ua tk by (auto simp: holding_def a_def)
  let ?page = "splice (take (page_bytes e) (drop a m)) 0 (take n (drop off buf))"
  have pl: "length ?page = page_bytes e"
    using n lp fits(2) len by (subst length_splice) (auto simp: a_def off_def)
  show thesis
  proof (rule that [OF w'(1)])
    show "length (splice buf off ?page) = length buf"
      using pl fits(1) assms(4) by (intro length_splice) (simp add: off_def)
    show "drop (off + page_bytes e) (splice buf off ?page) = drop (off + page_bytes e) buf"
      using pl fits(1) assms(4) by (intro drop_splice) (simp_all add: off_def)
    show "splice buf off ?page = buf" if "n = page_bytes e"
      using that pl splice_slice [of buf off n] lp fits(2) len by (simp add: splice_def [of "take _ _" 0] a_def)
    show "holding (splice m a (take n (drop off buf))) (s\<lparr>eep_world := w'\<rparr>)"
      using w'(2) by (simp add: holding_def)
  qed
qed


text \<open>The bytes from \<open>off\<close> on, in two steps: a page, then the rest.\<close>

lemma two_steps:
  assumes "a + pg + k \<le> length m" "off + pg + k \<le> length buf" "drop (off + pg) buf' = drop (off + pg) buf"
  shows "splice (splice m a (take pg (drop off buf))) (a + pg) (take k (drop (off + pg) buf')) =
    splice m a (take (pg + k) (drop off buf))"
proof -
  have l: "length (take pg (drop off buf)) = pg"
    using assms(2) by simp
  have "splice (splice m a (take pg (drop off buf))) (a + length (take pg (drop off buf))) (take k (drop (off + pg) buf)) =
      splice m a (take pg (drop off buf) @ take k (drop (off + pg) buf))"
    using assms(1) by (intro splice_splice) (simp add: l)
  moreover have "take pg (drop off buf) @ take k (drop (off + pg) buf) = take (pg + k) (drop off buf)"
    by (simp add: take_add add.commute [of off pg])
  ultimately show ?thesis
    unfolding l assms(3) by (rule trans [OF _ arg_cong [of _ _ "splice m a"]])
qed

text \<open>Writing pages from a buffer: the bytes of the block that are there.\<close>

lemma from_buffer_pages_ok:
  fixes s :: "'f eep"
  assumes "holding m s" "i < blocks_total e" "j + n = write_pages e" "block_bytes e \<le> length work" "bb \<le> block_bytes e"
  shows "\<exists>work' s'. from_buffer_pages hal e i j n bb work s = (False, work', s') \<and> length work' = length work \<and>
    holding (splice m (i * 256 + j * page_bytes e) (take (bb - j * page_bytes e) (drop (j * page_bytes e) work))) s'"
  using assms(1,3,4)
proof (induction n arbitrary: j m work s)
  case 0
  then have "bb - j * page_bytes e = 0"
    using assms(5) pages_times_bytes [OF geometry [OF assms(1)]] by simp
  then show ?case
    using 0 by simp
next
  case (Suc n)
  let ?pg = "page_bytes e" and ?off = "j * page_bytes e" and ?a = "i * 256 + j * page_bytes e"
  show ?case
  proof (cases "bb \<le> ?off")
    case True
    then show ?thesis
      using Suc.prems by simp
  next
    case False
    define k where "k = (if bb - ?off < ?pg then bb - ?off else ?pg)"
    have j: "j < write_pages e"
      using Suc.prems by simp
    have pos: "0 < ?pg"
      using geometry [OF assms(1)] by (simp add: device_wf_def Let_def)
    have k: "0 < k" "k \<le> ?pg"
      using False pos by (auto simp: k_def)
    obtain page w' where w: "hal_write_page hal e (of_nat ?a) (take ?pg (drop ?off work)) k (eep_world s) = (False, page, w')"
      and len: "length (splice work ?off page) = length work"
      and rest: "drop (?off + ?pg) (splice work ?off page) = drop (?off + ?pg) work"
      and h: "holding (splice m ?a (take k (drop ?off work))) (s\<lparr>eep_world := w'\<rparr>)"
      using page_written [OF Suc.prems(1) assms(2) j Suc.prems(3) k] .
    note fits = page_fits [OF geometry [OF assms(1)] assms(2) j]
    have lm: "length m = size_bytes e"
      using holding_length [OF Suc.prems(1)] .
    obtain work' s' where ih: "from_buffer_pages hal e i (Suc j) n bb (splice work ?off page) (s\<lparr>eep_world := w'\<rparr>) = (False, work', s')"
      "length work' = length work"
      "holding (splice (splice m ?a (take k (drop ?off work))) (i * 256 + Suc j * ?pg)
        (take (bb - Suc j * ?pg) (drop (Suc j * ?pg) (splice work ?off page)))) s'"
      using Suc.IH [OF h, of "Suc j" "splice work ?off page"] Suc.prems(2,3) len by auto
    have "from_buffer_pages hal e i j (Suc n) bb work s = (False, work', s')"
      using False w ih(1) by (simp add: Let_def k_def [symmetric])
    moreover have "splice (splice m ?a (take k (drop ?off work))) (i * 256 + Suc j * ?pg)
        (take (bb - Suc j * ?pg) (drop (Suc j * ?pg) (splice work ?off page))) =
      splice m ?a (take (bb - ?off) (drop ?off work))"
    proof (cases "bb - ?off < ?pg")
      case True
      then show ?thesis
        by (simp add: k_def)
    next
      case False
      have fit: "i * 256 + block_bytes e \<le> length m"
        using block_fits [OF geometry [OF assms(1)] assms(2)] lm by simp
      have "splice (splice m ?a (take ?pg (drop ?off work))) (?a + ?pg)
            (take (bb - Suc j * ?pg) (drop (?off + ?pg) (splice work ?off page))) =
          splice m ?a (take (?pg + (bb - Suc j * ?pg)) (drop ?off work))"
        using fit False assms(5) Suc.prems(3) fits by (intro two_steps rest) auto
      moreover have "?pg + (bb - Suc j * ?pg) = bb - ?off" "Suc j * ?pg = ?off + ?pg" "k = ?pg"
        using False by (simp_all add: k_def)
      ultimately show ?thesis
        by (simp only: add.assoc)
    qed
    ultimately show ?thesis
      using ih(2,3) by auto
  qed
qed

lemma block_small: "holding m s \<Longrightarrow> len \<le> size_bytes e \<Longrightarrow> off < len \<Longrightarrow> i < blocks_total e \<Longrightarrow> off = i * block_bytes e \<Longrightarrow>
    off = i * 256 \<and> off + block_bytes e \<le> size_bytes e"
  using block_start [of i e] block_fits [OF geometry, of m s i] by (metis)

lemma from_buffer_blocks_ok:
  fixes s :: "'f eep"
  assumes "holding m s" "i + n = blocks_total e" "block_bytes e \<le> length work"
    and "len \<le> length src" "len \<le> size_bytes e" "off \<le> len" "off = i * block_bytes e \<or> off = len"
  shows "\<exists>work' s'. from_buffer_blocks hal e src len i n off work s = (False, work', s') \<and> length work' = length work \<and>
    holding (splice m off (take (len - off) (drop off src))) s'"
  using assms(1,2,3,6,7)
proof (induction n arbitrary: i off m work s)
  case 0
  then have "off = len"
    using assms(5) blocks_times_bytes [OF geometry [OF assms(1)]] by auto
  then show ?case
    using 0 by simp
next
  case (Suc n)
  let ?bs = "block_bytes e"
  show ?case
  proof (cases "len \<le> off")
    case True
    then show ?thesis
      using Suc.prems by simp
  next
    case False
    define bb where "bb = (if len - off < ?bs then len - off else ?bs)"
    define work1 where "work1 = splice work 0 (take bb (drop off src))"
    have i: "i < blocks_total e" and off: "off = i * 256" "off + ?bs \<le> size_bytes e" "off = i * ?bs"
      using False Suc.prems block_small [OF assms(1,5), of off i] by auto
    have bb: "bb \<le> ?bs" "bb \<le> len - off"
      by (auto simp: bb_def)
    have next_off: "off + bb \<le> len" "off + bb = (i + 1) * ?bs \<or> off + bb = len"
      using False off(3) by (auto simp: bb_def)
    have l1: "length work1 = length work" and t1: "take bb work1 = take bb (drop off src)"
      using bb Suc.prems(3) assms(4) by (auto simp: work1_def splice_def)
    have lm: "length m = size_bytes e"
      using holding_length [OF Suc.prems(1)] .
    obtain work2 s2 where pages: "from_buffer_pages hal e i 0 (write_pages e) bb work1
        (eeprom_ui_progress (of_nat i) (eeprom_get_address_blocks_total e) s) = (False, work2, s2)"
      "length work2 = length work" "holding (splice m off (take bb (drop off src))) s2"
      using from_buffer_pages_ok [OF holding_print(3) [OF Suc.prems(1)] i, of 0 "write_pages e" work1 bb "of_nat i"
          "eeprom_get_address_blocks_total e"] Suc.prems(3) bb off(1) l1 t1 by auto
    obtain work3 s3 where ih: "from_buffer_blocks hal e src len (i + 1) n (off + bb) work2 s2 = (False, work3, s3)"
      "length work3 = length work"
      "holding (splice (splice m off (take bb (drop off src))) (off + bb) (take (len - (off + bb)) (drop (off + bb) src))) s3"
      using Suc.IH [OF pages(3), of "i + 1" work2 "off + bb"] Suc.prems(2,3) pages(2) next_off by auto
    have "splice (splice m off (take bb (drop off src))) (off + bb) (take (len - (off + bb)) (drop (off + bb) src)) =
        splice m off (take (bb + (len - (off + bb))) (drop off src))"
      using lm assms(4,5) bb False by (intro two_steps) auto
    moreover have "bb + (len - (off + bb)) = len - off"
      using bb by simp
    moreover have "from_buffer_blocks hal e src len i (Suc n) off work s = (False, work3, s3)"
      using False pages(1) ih(1) by (simp add: Let_def bb_def [symmetric] work1_def [symmetric])
    ultimately show ?thesis
      using ih(2,3) by auto
  qed
qed

lemma write_from_buffer_ok:
  fixes s :: "'f eep"
  assumes "holding m s" "block_bytes e \<le> length work"
  shows "\<exists>work' s'. eeprom_write_from_buffer hal e src work s = (False, work', s') \<and> length work' = length work \<and>
    holding (take (size_bytes e) src @ drop (length src) m) s'"
proof -
  define len where "len = (if length src < size_bytes e then length src else size_bytes e)"
  define s1 where "s1 = eeprom_msg (''Writing '' @ nat_text len @ '' bytes from buffer...'' @ crlf)
    (if length src < size_bytes e
     then eeprom_msg (''Warning: Buffer smaller than EEPROM: writing '' @ nat_text (length src) @ '' bytes'' @ crlf) s
     else if size_bytes e < length src
     then eeprom_msg (''Warning: Buffer larger than EEPROM: writing '' @ nat_text (size_bytes e) @ '' bytes'' @ crlf) s
     else s)"
  have le: "len \<le> length src" "len \<le> size_bytes e"
    by (auto simp: len_def)
  have s1: "holding m s1"
    using assms(1) by (simp add: s1_def)
  obtain work' s' where b: "from_buffer_blocks hal e src len 0 (blocks_total e) 0 work s1 = (False, work', s')"
    "length work' = length work" "holding (splice m 0 (take len src)) s'"
    using from_buffer_blocks_ok [OF s1, of 0 "blocks_total e" work len src 0] assms(2) le by auto
  have "splice m 0 (take len src) = take (size_bytes e) src @ drop (length src) m"
    using holding_length [OF assms(1)] by (auto simp: splice_def len_def min_def)
  moreover have "eeprom_write_from_buffer hal e src work s = (case from_buffer_blocks hal e src len 0 (blocks_total e) 0 work s1 of
      (err, work, s) \<Rightarrow> if err then (True, work, s) else (False, work, eeprom_msg (crlf @ ''Write complete'' @ crlf)
        (eeprom_ui_progress (eeprom_get_address_blocks_total e) (eeprom_get_address_blocks_total e) s)))"
    unfolding eeprom_write_from_buffer_def Let_def s1_def len_def ..
  ultimately show ?thesis
    using b by simp
qed

text \<open>Reading a block puts its bytes at the start of the buffer.\<close>

lemma block_read:
  fixes s :: "'f eep"
  assumes "holding m s" "i < blocks_total e" "0 < n" "n \<le> block_bytes e" "n \<le> length buf"
  obtains bs w' where "hal_read hal e (of_nat (i * 256)) n (eep_world s) = (False, bs, w')"
    and "length (splice buf 0 bs) = length buf" "take n (splice buf 0 bs) = take n (drop (i * 256) m)"
    and "holding m (s\<lparr>eep_world := w'\<rparr>)"
proof -
  have ua: "unat (of_nat (i * 256) :: u32) = i * 256"
    using block_fits [OF geometry [OF assms(1)] assms(2)] by (intro unat_address [of _ e]) simp
  have fit: "i * 256 + n \<le> length m"
    using block_fits [OF geometry [OF assms(1)] assms(2)] holding_length [OF assms(1)] assms(4) by simp
  obtain w' where w': "hal_read hal e (of_nat (i * 256)) n (eep_world s) = (False, take n (drop (i * 256) m), w')" "holds m w'"
    using read_law [of m "eep_world s" n "of_nat (i * 256)"] assms fit block_le [of e] unfolding ua by (auto simp: holding_def)
  show thesis
    using assms(5) fit w' by (intro that [OF w'(1)]) (auto simp: holding_def splice_def)
qed

lemma slice_split:
  assumes "i + k \<le> n"
  shows "take (n - i) (drop i xs) = take k (drop i xs) @ take (n - (i + k)) (drop (i + k) xs)"
proof -
  have "n - i = k + (n - (i + k))"
    using assms by simp
  then show ?thesis
    by (metis take_add drop_drop add.commute)
qed

lemma against_buffer_blocks_ok:
  fixes s :: "'f eep"
  assumes "holding m s" "i + n = blocks_total e" "block_bytes e \<le> length work"
    and "len \<le> length ref" "len \<le> size_bytes e" "off \<le> len" "off = i * block_bytes e \<or> off = len"
  shows "\<exists>work' s'. against_buffer_blocks hal e ref len i n off work s =
      (take (len - off) (drop off m) \<noteq> take (len - off) (drop off ref), work', s') \<and>
    length work' = length work \<and> holding m s'"
  using assms(1,2,3,6,7)
proof (induction n arbitrary: i off work s)
  case 0
  then have "off = len"
    using assms(5) blocks_times_bytes [OF geometry [OF assms(1)]] by auto
  then show ?case
    using 0 by simp
next
  case (Suc n)
  let ?bs = "block_bytes e"
  show ?case
  proof (cases "len \<le> off")
    case True
    then show ?thesis
      using Suc.prems by simp
  next
    case False
    define bb where "bb = (if len - off < ?bs then len - off else ?bs)"
    have i: "i < blocks_total e" and off: "off = i * 256" "off + ?bs \<le> size_bytes e" "off = i * ?bs"
      using False Suc.prems block_small [OF assms(1,5), of off i] by auto
    have pos: "0 < ?bs"
      using geometry [OF assms(1)] by (auto simp: device_wf_def Let_def block_bytes_eq)
    have bb: "bb \<le> ?bs" "0 < bb" "bb \<le> length work"
      using pos False Suc.prems(3) by (auto simp: bb_def)
    have next_off: "off + bb \<le> len" "off + bb = (i + 1) * ?bs \<or> off + bb = len"
      using False off(3) by (auto simp: bb_def)
    define s0 where "s0 = eeprom_ui_progress (of_nat i) (eeprom_get_address_blocks_total e) s"
    have s0: "holding m s0"
      using Suc.prems(1) by (simp add: s0_def)
    obtain bs w' where r: "hal_read hal e (of_nat (i * 256)) bb (eep_world s0) = (False, bs, w')"
      "length (splice work 0 bs) = length work" "take bb (splice work 0 bs) = take bb (drop off m)"
      "holding m (s0\<lparr>eep_world := w'\<rparr>)"
      using block_read [OF s0 i bb(2,1,3)] unfolding off(1) by metis
    have lm: "length m = size_bytes e"
      using holding_length [OF Suc.prems(1)] .
    have mis: "first_mismatch bb (splice work 0 bs) (drop off ref) = None \<longleftrightarrow> take bb (drop off m) = take bb (drop off ref)"
      using r(2) bb(3) next_off(1) assms(4) by (simp add: first_mismatch_None r(3))
    note split = slice_split [OF next_off(1)]
    have lens: "length (take bb (drop off m)) = bb" "length (take bb (drop off ref)) = bb"
      using next_off(1) assms(4,5) lm by auto
    show ?thesis
    proof (cases "first_mismatch bb (splice work 0 bs) (drop off ref)")
      case None
      obtain work' s' where ih: "against_buffer_blocks hal e ref len (i + 1) n (off + bb) (splice work 0 bs) (s0\<lparr>eep_world := w'\<rparr>) =
          (take (len - (off + bb)) (drop (off + bb) m) \<noteq> take (len - (off + bb)) (drop (off + bb) ref), work', s')"
        "length work' = length work" "holding m s'"
        using Suc.IH [OF r(4), of "i + 1" "splice work 0 bs" "off + bb"] Suc.prems(2,3) r(2) next_off by auto
      show ?thesis
        using ih r(1) None False mis lens
        by (simp add: Let_def bb_def [symmetric] s0_def [symmetric] split)
    next
      case (Some j)
      then have "take bb (drop off m) \<noteq> take bb (drop off ref)"
        using mis by simp
      then show ?thesis
        using r Some False lens
        by (simp add: Let_def bb_def [symmetric] s0_def [symmetric] split)
    qed
  qed
qed

lemma verify_against_buffer_exact:
  fixes s :: "'f eep"
  assumes "holding m s" "block_bytes e \<le> length work"
  shows "\<exists>work' s'. eeprom_verify_against_buffer hal e ref work s =
      (take (length ref) m \<noteq> take (size_bytes e) ref, work', s') \<and> length work' = length work \<and> holding m s'"
proof -
  define len where "len = (if length ref < size_bytes e then length ref else size_bytes e)"
  have le: "len \<le> length ref" "len \<le> size_bytes e"
    by (auto simp: len_def)
  have "holding m (eeprom_msg (''Verifying '' @ nat_text len @ '' bytes against buffer...'' @ crlf) s)"
    using assms(1) by simp
  from against_buffer_blocks_ok [OF this, of 0 "blocks_total e" work len ref 0]
  obtain work' s' where b: "against_buffer_blocks hal e ref len 0 (blocks_total e) 0 work
        (eeprom_msg (''Verifying '' @ nat_text len @ '' bytes against buffer...'' @ crlf) s) = (take len m \<noteq> take len ref, work', s')"
    "length work' = length work" "holding m s'"
    using assms(2) le by auto
  have "take len m = take (length ref) m" "take len ref = take (size_bytes e) ref"
    using holding_length [OF assms(1)] by (auto simp: len_def)
  moreover have "eeprom_verify_against_buffer hal e ref work s = (case against_buffer_blocks hal e ref len 0 (blocks_total e) 0 work
        (eeprom_msg (''Verifying '' @ nat_text len @ '' bytes against buffer...'' @ crlf) s) of
      (err, work, s) \<Rightarrow> if err then (True, work, s) else (False, work, eeprom_msg (crlf @ ''Verify complete'' @ crlf)
        (eeprom_ui_progress (eeprom_get_address_blocks_total e) (eeprom_get_address_blocks_total e) s)))"
    unfolding eeprom_verify_against_buffer_def Let_def len_def ..
  ultimately show ?thesis
    unfolding b(1) using b by simp
qed

text \<open>The loops of \<open>eeprom_write\<close>: every block from the buffer, or the file's bytes.\<close>

lemma eeprom_write_pages_ok:
  fixes s :: "'f eep"
  assumes "holding m s" "i < blocks_total e" "j + n = write_pages e" "block_bytes e \<le> length buf" "got \<le> n * page_bytes e"
  shows "\<exists>buf' s'. eeprom_write_pages fs hal e from_buf i j n (page_bytes e) got buf s =
      (if from_buf \<or> got = n * page_bytes e then Go_on (buf', s') else Cleanup (buf', s')) \<and>
    length buf' = length buf \<and> (from_buf \<longrightarrow> buf' = buf) \<and> eep_fs s' = eep_fs s \<and>
    holding (splice m (i * 256 + j * page_bytes e)
      (take (if from_buf then n * page_bytes e else got) (drop (j * page_bytes e) buf))) s'"
  using assms(1,3,5)
proof (induction n arbitrary: j m got s)
  case 0
  then show ?case
    by simp
next
  case (Suc n)
  let ?pg = "page_bytes e" and ?off = "j * page_bytes e" and ?a = "i * 256 + j * page_bytes e"
  have j: "j < write_pages e"
    using Suc.prems by simp
  have pos: "0 < ?pg"
    using geometry [OF assms(1)] by (simp add: device_wf_def Let_def)
  note fits = page_fits [OF geometry [OF assms(1)] assms(2) j]
  have lm: "length m = size_bytes e"
    using holding_length [OF Suc.prems(1)] .
  consider "\<not> from_buf" "got = 0" | "\<not> from_buf" "0 < got" "got < ?pg" | "from_buf \<or> ?pg \<le> got"
    by linarith
  then show ?case
  proof cases
    case 1
    then show ?thesis
      using Suc.prems pos by simp
  next
    case 2
    obtain page w' where w: "hal_write_page hal e (of_nat ?a) (take ?pg (drop ?off buf)) got (eep_world s) = (False, page, w')"
      and len: "length (splice buf ?off page) = length buf"
      and h: "holding (splice m ?a (take got (drop ?off buf))) (s\<lparr>eep_world := w'\<rparr>)"
      using page_written [OF Suc.prems(1) assms(2) j assms(4) 2(2) less_imp_le [OF 2(3)]] .
    show ?thesis
      using 2 w len h by (simp add: Let_def)
  next
    case 3
    obtain page w' where w: "hal_write_page hal e (of_nat ?a) (take ?pg (drop ?off buf)) ?pg (eep_world s) = (False, page, w')"
      and same: "splice buf ?off page = buf"
      and h: "holding (splice m ?a (take ?pg (drop ?off buf))) (s\<lparr>eep_world := w'\<rparr>)"
      using page_written [OF Suc.prems(1) assms(2) j assms(4) pos order_refl] by metis
    define got' where "got' = (if from_buf then n * ?pg else got - ?pg)"
    have got': "got' \<le> n * ?pg" "from_buf \<or> got = Suc n * ?pg \<longleftrightarrow> from_buf \<or> got' = n * ?pg"
        "(if from_buf then Suc n * ?pg else got) = ?pg + got'"
        "(if from_buf then n * ?pg else got') = got'"
      using 3 Suc.prems(3) by (auto simp: got'_def)
    have step: "eeprom_write_pages fs hal e from_buf i j (Suc n) ?pg got buf s =
        eeprom_write_pages fs hal e from_buf i (j + 1) n ?pg (if from_buf then got else got - ?pg) buf (s\<lparr>eep_world := w'\<rparr>)"
      using 3 w same pos by (auto simp: Let_def)
    have got_irrelevant: "eeprom_write_pages fs hal e True i k n ?pg x buf t = eeprom_write_pages fs hal e True i k n ?pg y buf t" for x y k t
    proof (induction n arbitrary: k t buf)
      case (Suc n)
      show ?case
        by (auto simp: Let_def Suc.IH split: prod.split)
    qed simp
    have again: "eeprom_write_pages fs hal e from_buf i (j + 1) n ?pg (if from_buf then got else got - ?pg) buf (s\<lparr>eep_world := w'\<rparr>) =
        eeprom_write_pages fs hal e from_buf i (j + 1) n ?pg got' buf (s\<lparr>eep_world := w'\<rparr>)"
      by (cases from_buf) (simp_all add: got'_def got_irrelevant [of _ got _ "n * ?pg"])
    obtain buf' s' where ih: "eeprom_write_pages fs hal e from_buf i (j + 1) n ?pg got' buf (s\<lparr>eep_world := w'\<rparr>) =
        (if from_buf \<or> got' = n * ?pg then Go_on (buf', s') else Cleanup (buf', s'))"
      "length buf' = length buf" "from_buf \<longrightarrow> buf' = buf" "eep_fs s' = eep_fs s"
      "holding (splice (splice m ?a (take ?pg (drop ?off buf))) (i * 256 + (j + 1) * ?pg)
        (take (if from_buf then n * ?pg else got') (drop ((j + 1) * ?pg) buf))) s'"
      using Suc.IH [OF h _ got'(1), of "j + 1"] Suc.prems(2) by auto
    have "Suc n * ?pg + ?off = block_bytes e"
      using pages_times_bytes [OF geometry [OF assms(1)]] Suc.prems(2) by (metis add.commute add_mult_distrib)
    then have bound: "?off + ?pg + got' \<le> block_bytes e"
      using got'(1) by simp
    have "splice (splice m ?a (take ?pg (drop ?off buf))) (?a + ?pg) (take got' (drop (?off + ?pg) buf)) =
        splice m ?a (take (?pg + got') (drop ?off buf))"
      using block_fits [OF geometry [OF assms(1)] assms(2)] lm bound assms(4) by (intro two_steps) auto
    moreover have "i * 256 + (j + 1) * ?pg = ?a + ?pg" "(j + 1) * ?pg = ?off + ?pg"
      by simp_all
    ultimately have "holding (splice m ?a (take (?pg + got') (drop ?off buf))) s'"
      using ih(5) unfolding got'(4) by metis
    then show ?thesis
      unfolding step again ih(1) got'(2,3) using ih(2,3,4) by auto
  qed
qed

lemma geometry_pos:
  assumes "holding m s"
  shows "0 < page_bytes e" "0 < block_bytes e" "page_bytes e \<le> block_bytes e"
proof -
  show "0 < page_bytes e" "0 < block_bytes e"
    using geometry [OF assms] by (auto simp: device_wf_def Let_def block_bytes_eq)
  then show "page_bytes e \<le> block_bytes e"
    using pages_times_bytes [OF geometry [OF assms]] by (metis dvd_imp_le dvd_triv_right)
qed

definition image :: "bytes \<Rightarrow> bytes" where
  "image buf = concat (replicate (blocks_total e) (take (block_bytes e) buf))"

lemma length_blocks: "block_bytes e \<le> length buf \<Longrightarrow> length (concat (replicate n (take (block_bytes e) buf))) = n * block_bytes e"
  by (induction n) simp_all

lemma write_blocks_from_buf:
  fixes s :: "'f eep"
  assumes "holding m s" "i + n = blocks_total e" "block_bytes e \<le> length buf"
  shows "\<exists>s'. eeprom_write_blocks fs hal e True i n buf s = Go_on (buf, s') \<and> eep_fs s' = eep_fs s \<and>
    holding (splice m (i * block_bytes e) (concat (replicate n (take (block_bytes e) buf)))) s'"
  using assms(1,2)
proof (induction n arbitrary: i m s)
  case 0
  then show ?case
    by simp
next
  case (Suc n)
  let ?bs = "block_bytes e"
  have i: "i < blocks_total e"
    using Suc.prems by simp
  define s0 where "s0 = eeprom_ui_progress (of_nat i) (eeprom_get_address_blocks_total e) s"
  have s0: "holding m s0" "eep_fs s0 = eep_fs s"
    using Suc.prems(1) by (simp_all add: s0_def) (simp add: eeprom_ui_progress_def eep_print_def eep_do_def)
  obtain s1 where p: "eeprom_write_pages fs hal e True i 0 (write_pages e) (page_bytes e) ?bs buf s0 = Go_on (buf, s1)"
    "eep_fs s1 = eep_fs s" "holding (splice m (i * ?bs) (take ?bs buf)) s1"
    using eeprom_write_pages_ok [OF s0(1) i, of 0 "write_pages e" buf ?bs fs True] assms(3) s0(2)
    unfolding pages_times_bytes [OF geometry [OF assms(1)]] block_start [OF i] by auto
  obtain s2 where ih: "eeprom_write_blocks fs hal e True (i + 1) n buf s1 = Go_on (buf, s2)" "eep_fs s2 = eep_fs s"
    "holding (splice (splice m (i * ?bs) (take ?bs buf)) ((i + 1) * ?bs) (concat (replicate n (take ?bs buf)))) s2"
    using Suc.IH [OF p(3), of "i + 1"] Suc.prems(2) p(2) by auto
  have "i * ?bs + length (take ?bs buf) \<le> length m"
    using block_fits [OF geometry [OF assms(1)] i] block_start [OF i] holding_length [OF Suc.prems(1)] assms(3) by simp
  from splice_splice [OF this, of "concat (replicate n (take ?bs buf))"]
  have "holding (splice m (i * ?bs) (concat (replicate (Suc n) (take ?bs buf)))) s2"
    using ih(3) assms(3) by (simp add: add.commute)
  then show ?case
    using ih(1,2) p(1) by (simp add: s0_def [symmetric])
qed

lemma eep_fs_print [simp]:
  "eep_fs (eep_print ts s) = eep_fs s" "eep_fs (eeprom_msg t s) = eep_fs s" "eep_fs (eeprom_ui_progress x y s) = eep_fs s"
  "eep_fs (file_size_warning t x y s) = eep_fs s"
  by (simp_all add: eep_print_def eep_do_def eeprom_msg_def eeprom_ui_progress_def file_size_warning_def)

lemma write_from_buf_ok:
  fixes s :: "'f eep"
  assumes "holding m s" "block_bytes e \<le> length buf"
  shows "\<exists>s'. eeprom_write fs hal e buf True s = (False, buf, s') \<and> eep_fs s' = eep_fs s \<and> holding (image buf) s'"
proof -
  have full: "splice m 0 (image buf) = image buf"
    using length_blocks [OF assms(2), of "blocks_total e"] blocks_times_bytes [OF geometry [OF assms(1)]] holding_length [OF assms(1)]
    by (simp add: splice_def image_def)
  define t where "t = eeprom_msg (''Writing '' @ dec_text (eeprom_get_address_blocks_total e) @ '' blocks of '' @
    dec_text (eeprom_get_address_block_size e) @ '' bytes each, '' @ dec_text (of_nat (write_pages e)) @ '' pages per block'' @ crlf) s"
  have t: "holding m t" "eep_fs t = eep_fs s"
    using assms(1) unfolding t_def by (simp_all only: holding_print eep_fs_print)
  obtain s' where s': "eeprom_write_blocks fs hal e True 0 (blocks_total e) buf t = Go_on (buf, s')" "eep_fs s' = eep_fs t"
    "holding (image buf) s'"
    using write_blocks_from_buf [OF t(1), of 0 "blocks_total e" buf fs] assms(2) full by (auto simp: image_def)
  have "eeprom_write fs hal e buf True s = (case eeprom_write_blocks fs hal e True 0 (blocks_total e) buf t of
      Failed (buf, s) \<Rightarrow> (True, buf, s) | Cleanup r \<Rightarrow> eeprom_write_cleanup fs e True r | Go_on r \<Rightarrow> eeprom_write_cleanup fs e True r)"
    unfolding eeprom_write_def t_def Let_def if_True prod.case if_False by simp
  then show ?thesis
    using s' t(2) by (simp add: eeprom_write_cleanup_def Let_def)
qed

lemma read_blocks_against_buf:
  fixes s :: "'f eep"
  assumes "holding m s" "i + n = blocks_total e" "block_bytes e \<le> length buf" "block_bytes e \<le> length vbuf"
  shows "\<exists>buf' s'. eeprom_read_blocks fs hal e EEPROM_VERIFY_BUFFER i n (block_bytes e) buf vbuf s =
      (if drop (i * block_bytes e) m = concat (replicate n (take (block_bytes e) vbuf)) then Go_on (buf', vbuf, s')
       else Failed (buf', vbuf, s')) \<and> length buf' = length buf \<and> holding m s'"
  using assms(1,2,3)
proof (induction n arbitrary: i buf s)
  case 0
  then show ?case
    using blocks_times_bytes [OF geometry [OF assms(1)]] holding_length [of m s] by simp
next
  case (Suc n)
  let ?bs = "block_bytes e"
  have i: "i < blocks_total e"
    using Suc.prems by simp
  define s0 where "s0 = eeprom_ui_progress (of_nat i) (eeprom_get_address_blocks_total e) s"
  have s0: "holding m s0"
    using Suc.prems(1) by (simp add: s0_def)
  obtain bs w' where r: "hal_read hal e (of_nat (i * 256)) ?bs (eep_world s0) = (False, bs, w')"
    "length (splice buf 0 bs) = length buf" "take ?bs (splice buf 0 bs) = take ?bs (drop (i * ?bs) m)"
    "holding m (s0\<lparr>eep_world := w'\<rparr>)"
    using block_read [OF s0 i geometry_pos(2) [OF assms(1)] order_refl Suc.prems(3)] unfolding block_start [OF i] by metis
  have mis: "first_mismatch ?bs (splice buf 0 bs) vbuf = None \<longleftrightarrow> take ?bs (drop (i * ?bs) m) = take ?bs vbuf"
    using r(2) Suc.prems(3) assms(4) by (simp add: first_mismatch_None r(3))
  have l: "length (take ?bs (drop (i * ?bs) m)) = ?bs" "length (take ?bs vbuf) = ?bs"
    using block_fits [OF geometry [OF assms(1)] i] block_start [OF i] holding_length [OF Suc.prems(1)] assms(4) by auto
  have "drop (i * ?bs) m = take ?bs (drop (i * ?bs) m) @ drop (i * ?bs + ?bs) m"
    by (metis append_take_drop_id drop_drop add.commute)
  with l have split: "drop (i * ?bs) m = concat (replicate (Suc n) (take ?bs vbuf)) \<longleftrightarrow>
      take ?bs (drop (i * ?bs) m) = take ?bs vbuf \<and> drop ((i + 1) * ?bs) m = concat (replicate n (take ?bs vbuf))"
    by (metis (no_types, lifting) append_eq_append_conv concat.simps(2) replicate_Suc add_mult_distrib mult_1)
  show ?case
  proof (cases "first_mismatch ?bs (splice buf 0 bs) vbuf")
    case None
    obtain buf' s' where ih: "eeprom_read_blocks fs hal e EEPROM_VERIFY_BUFFER (i + 1) n ?bs (splice buf 0 bs) vbuf (s0\<lparr>eep_world := w'\<rparr>) =
        (if drop ((i + 1) * ?bs) m = concat (replicate n (take ?bs vbuf)) then Go_on (buf', vbuf, s') else Failed (buf', vbuf, s'))"
      "length buf' = length buf" "holding m s'"
      using Suc.IH [OF r(4), of "i + 1" "splice buf 0 bs"] Suc.prems(2,3) r(2) by auto
    have "eeprom_read_blocks fs hal e EEPROM_VERIFY_BUFFER i (Suc n) ?bs buf vbuf s =
        eeprom_read_blocks fs hal e EEPROM_VERIFY_BUFFER (i + 1) n ?bs (splice buf 0 bs) vbuf (s0\<lparr>eep_world := w'\<rparr>)"
      using r(1) None geometry_pos(3) [OF assms(1)] by (simp add: s0_def [symmetric] Let_def)
    then show ?thesis
      unfolding split using None mis ih by auto
  next
    case (Some j)
    then have "drop (i * ?bs) m \<noteq> concat (replicate (Suc n) (take ?bs vbuf))"
      unfolding split using mis by simp
    then show ?thesis
      using r Some by (simp add: s0_def [symmetric] Let_def)
  qed
qed

lemma verify_buffer_exact:
  fixes s :: "'f eep"
  assumes "holding m s" "256 \<le> length buf" "block_bytes e \<le> length vbuf"
  shows "\<exists>buf' s'. eeprom_read fs hal e buf vbuf EEPROM_VERIFY_BUFFER s = (m \<noteq> image vbuf, buf', vbuf, s') \<and>
    length buf' = length buf \<and> holding m s'"
proof -
  obtain buf' s' where b: "eeprom_read_blocks fs hal e EEPROM_VERIFY_BUFFER 0 (blocks_total e) (block_bytes e) buf vbuf s =
      (if m = image vbuf then Go_on (buf', vbuf, s') else Failed (buf', vbuf, s'))" "length buf' = length buf" "holding m s'"
    using read_blocks_against_buf [OF assms(1), of 0 "blocks_total e" buf vbuf fs] assms(2,3) block_le [of e] by (auto simp: image_def)
  then show ?thesis
    using assms(2) by (cases "m = image vbuf") (simp_all add: eeprom_read_def eeprom_read_cleanup_def Let_def)
qed

text \<open>The actions.\<close>

lemma image_replicate:
  assumes "holding m s" "block_bytes e \<le> n"
  shows "image (replicate n x) = replicate (size_bytes e) x"
proof -
  have "concat (replicate k (replicate b x)) = replicate (k * b) x" for k b
    by (induction k) (simp_all add: replicate_add)
  then show ?thesis
    using assms blocks_times_bytes [OF geometry [OF assms(1)]] by (simp add: image_def min_def)
qed

lemma action_erase_ok:
  fixes s :: "'f eep"
  assumes "holding m s" "256 \<le> length buf" "block_bytes e \<le> length vbuf"
  shows "\<exists>buf' vbuf' s'. eeprom_action_erase fs hal e buf vbuf verify s = (False, buf', vbuf', s') \<and>
    length buf' = length buf \<and> length vbuf' = length vbuf \<and> holding (replicate (size_bytes e) 0xFF) s'"
proof -
  let ?ff = "replicate (length buf) 0xFF :: bytes" and ?vff = "replicate (length vbuf) 0xFF :: bytes"
    and ?m = "replicate (size_bytes e) 0xFF :: bytes"
  have im: "image ?ff = ?m" "image ?vff = ?m"
    using assms(2,3) block_le [of e] by (simp_all add: image_replicate [OF assms(1)])
  define s0 where "s0 = eeprom_msg (''Erase: Writing 0xFF to all bytes...'' @ crlf) s"
  have s0: "holding m s0"
    using assms(1) unfolding s0_def by (simp only: holding_print)
  obtain s1 where w: "eeprom_write fs hal e ?ff True s0 = (False, ?ff, s1)" "holding ?m s1"
    using write_from_buf_ok [OF s0, of ?ff fs] assms(2) block_le [of e] im(1) by auto
  define s2 where "s2 = eeprom_msg (''Erase verify...'' @ crlf) (eeprom_msg (crlf @ ''Erase complete'' @ crlf) s1)"
  have s2: "holding ?m s2"
    using w(2) unfolding s2_def by (simp only: holding_print)
  obtain buf' s3 where v: "eeprom_read fs hal e ?ff ?vff EEPROM_VERIFY_BUFFER s2 = (False, buf', ?vff, s3)"
    "length buf' = length buf" "holding ?m s3"
    using verify_buffer_exact [OF s2, of ?ff ?vff fs] assms(2,3) im(2) by auto
  have "eeprom_action_erase fs hal e buf vbuf verify s =
    (if verify then (False, buf', ?vff, eeprom_msg (crlf @ ''Erase verify complete'' @ crlf) s3)
     else (False, ?ff, vbuf, eeprom_msg (crlf @ ''Erase complete'' @ crlf) s1))"
    unfolding eeprom_action_erase_def Let_def s0_def [symmetric] w(1) prod.case if_False s2_def [symmetric] v(1) ..
  then show ?thesis
    using w(2) v(2,3) by (cases verify) (simp_all del: append_Cons append_Nil)
qed

lemma write_verify_ok:
  fixes s :: "'f eep"
  assumes "holding m s" "256 \<le> length buf" "block_bytes e \<le> length vbuf"
  shows "\<exists>buf' s'. eeprom_write_verify fs hal e buf vbuf s = (False, buf', vbuf, s') \<and>
    length buf' = length buf \<and> holding (image vbuf) s'"
proof -
  obtain s1 where w: "eeprom_write fs hal e vbuf True s = (False, vbuf, s1)" "holding (image vbuf) s1"
    using write_from_buf_ok [OF assms(1,3), of fs] by auto
  define s2 where "s2 = eeprom_msg (crlf @ ''Write complete'' @ crlf @ ''Write verify...'' @ crlf) s1"
  have s2: "holding (image vbuf) s2"
    using w(2) unfolding s2_def by (simp only: holding_print)
  obtain buf' s3 where "eeprom_read fs hal e buf vbuf EEPROM_VERIFY_BUFFER s2 = (False, buf', vbuf, s3)"
    "length buf' = length buf" "holding (image vbuf) s3"
    using verify_buffer_exact [OF s2 assms(2,3), of fs] by auto
  then show ?thesis
    unfolding eeprom_write_verify_def w(1) prod.case if_False s2_def [symmetric] by simp
qed

lemma action_test_ok:
  fixes s :: "'f eep"
  assumes "holding m s" "256 \<le> length buf" "block_bytes e \<le> length vbuf"
  shows "\<exists>buf' s'. eeprom_action_test fs hal e buf vbuf s = (False, buf', test_pattern (length vbuf) 0x55 0xAA, s') \<and>
    length buf' = length buf \<and> holding (image (test_pattern (length vbuf) 0x55 0xAA)) s'"
proof -
  define s0 where "s0 = eeprom_msg (''Writing 0xAA 0x55...'' @ crlf) (eeprom_msg (crlf @ ''Test: Writing alternating patterns'' @ crlf) s)"
  have s0: "holding m s0"
    using assms(1) unfolding s0_def by (simp only: holding_print)
  have l: "length (test_pattern n x y) = n" for n x y
    by (simp add: test_pattern_def)
  obtain buf1 s1 where a: "eeprom_write_verify fs hal e buf (test_pattern (length vbuf) 0xAA 0x55) s0 =
      (False, buf1, test_pattern (length vbuf) 0xAA 0x55, s1)" "length buf1 = length buf"
    "holding (image (test_pattern (length vbuf) 0xAA 0x55)) s1"
    using write_verify_ok [OF s0 assms(2), of "test_pattern (length vbuf) 0xAA 0x55" fs] assms(3) by (auto simp: l)
  define s2 where "s2 = eeprom_msg (crlf @ ''Write verify complete'' @ crlf @ ''Writing 0x55 0xAA...'' @ crlf) s1"
  have s2: "holding (image (test_pattern (length vbuf) 0xAA 0x55)) s2"
    using a(3) unfolding s2_def by (simp only: holding_print)
  obtain buf2 s3 where b: "eeprom_write_verify fs hal e buf1 (test_pattern (length vbuf) 0x55 0xAA) s2 =
      (False, buf2, test_pattern (length vbuf) 0x55 0xAA, s3)" "length buf2 = length buf1"
    "holding (image (test_pattern (length vbuf) 0x55 0xAA)) s3"
    using write_verify_ok [OF s2, of buf1 "test_pattern (length vbuf) 0x55 0xAA" fs] assms(2,3) a(2) by (auto simp: l)
  have "eeprom_action_test fs hal e buf vbuf s =
      (False, buf2, test_pattern (length vbuf) 0x55 0xAA, eeprom_msg (crlf @ ''Write verify complete'' @ crlf) s3)"
    unfolding eeprom_action_test_def Let_def s0_def [symmetric] a(1) prod.case if_False l s2_def [symmetric] b(1) ..
  then show ?thesis
    using a(2) b(2,3) by (simp del: append_Cons append_Nil)
qed

text \<open>The same with files.\<close>

lemma write_blocks_from_file:
  fixes s :: "'f eep"
  assumes "fatfs_contract fs view cap" "files name = Some c"
    and "holding m s" "i + n = blocks_total e" "block_bytes e \<le> length buf"
    and "view (eep_fs s) = (files, Some (name, i * block_bytes e))" "i * block_bytes e \<le> length c"
  shows "\<exists>buf' s' p. (eeprom_write_blocks fs hal e False i n buf s = Go_on (buf', s') \<or>
      eeprom_write_blocks fs hal e False i n buf s = Cleanup (buf', s')) \<and> length buf' = length buf \<and>
    view (eep_fs s') = (files, Some (name, p)) \<and>
    holding (splice m (i * block_bytes e) (take (n * block_bytes e) (drop (i * block_bytes e) c))) s'"
  using assms(3-)
proof (induction n arbitrary: i m buf s)
  case 0
  then show ?case
    by auto
next
  case (Suc n)
  let ?bs = "block_bytes e"
  have i: "i < blocks_total e"
    using Suc.prems(2) by simp
  obtain f1 where f1: "file_read fs ?bs s = (False, take ?bs (drop (i * ?bs) c), s\<lparr>eep_fs := f1\<rparr>)"
    "view f1 = (files, Some (name, min (i * ?bs + ?bs) (length c)))"
    using file_has_read [OF assms(1) Suc.prems(4) assms(2) Suc.prems(5)] by blast
  define bs where "bs = take ?bs (drop (i * ?bs) c)"
  define buf1 where "buf1 = splice buf 0 bs"
  define s1 where "s1 = eeprom_ui_progress (of_nat i) (eeprom_get_address_blocks_total e) (s\<lparr>eep_fs := f1\<rparr>)"
  have s1: "holding m s1" "eep_fs s1 = f1"
    using Suc.prems(1) by (simp_all add: s1_def)
  have l: "length bs \<le> ?bs" "length buf1 = length buf" "take (length bs) buf1 = bs"
    using Suc.prems(3) by (auto simp: bs_def buf1_def splice_def min_def)
  show ?case
  proof (cases "length bs = 0")
    case True
    then have none: "drop (i * ?bs) c = []"
      using geometry_pos(2) [OF assms(3)] by (simp add: bs_def)
    have "holding m (s\<lparr>eep_fs := f1\<rparr>)"
      using Suc.prems(1) by simp
    then show ?thesis
      using f1 none Suc.prems(3) by (auto simp: splice_def [of buf])
  next
    case False
    obtain buf2 s2 where p: "eeprom_write_pages fs hal e False i 0 (write_pages e) (page_bytes e) (length bs) buf1 s1 =
        (if length bs = ?bs then Go_on (buf2, s2) else Cleanup (buf2, s2))"
      "length buf2 = length buf" "eep_fs s2 = f1" "holding (splice m (i * ?bs) bs) s2"
      using eeprom_write_pages_ok [OF s1(1) i, of 0 "write_pages e" buf1 "length bs" fs False] Suc.prems(3) s1(2) l
      unfolding pages_times_bytes [OF geometry [OF assms(3)]] block_start [OF i] by auto
    have step: "eeprom_write_blocks fs hal e False i (Suc n) buf s =
        (if length bs = ?bs then eeprom_write_blocks fs hal e False (i + 1) n buf2 s2 else Cleanup (buf2, s2))"
      using f1(1) False p(1) by (simp add: bs_def [symmetric] buf1_def [symmetric] s1_def [symmetric])
    show ?thesis
    proof (cases "length bs = ?bs")
      case True
      then have le: "(i + 1) * ?bs \<le> length c"
        using geometry_pos(2) [OF assms(3)] by (simp add: bs_def)
      then have f2: "view (eep_fs s2) = (files, Some (name, (i + 1) * ?bs))"
        using f1(2) p(3) by (simp add: min_def add.commute)
      obtain buf3 s3 q where ih: "eeprom_write_blocks fs hal e False (i + 1) n buf2 s2 = Go_on (buf3, s3) \<or>
          eeprom_write_blocks fs hal e False (i + 1) n buf2 s2 = Cleanup (buf3, s3)" "length buf3 = length buf"
        "view (eep_fs s3) = (files, Some (name, q))"
        "holding (splice (splice m (i * ?bs) bs) ((i + 1) * ?bs) (take (n * ?bs) (drop ((i + 1) * ?bs) c))) s3"
        using Suc.IH [OF p(4), of "i + 1" buf2] Suc.prems(2,3) p(2) f2 le by auto
      have "i * ?bs + length bs \<le> length m"
        using block_fits [OF geometry [OF assms(3)] i] block_start [OF i] holding_length [OF Suc.prems(1)] l(1) by simp
      from splice_splice [OF this, of "take (n * ?bs) (drop ((i + 1) * ?bs) c)"]
      have "splice (splice m (i * ?bs) bs) ((i + 1) * ?bs) (take (n * ?bs) (drop ((i + 1) * ?bs) c)) =
          splice m (i * ?bs) (bs @ take (n * ?bs) (drop ((i + 1) * ?bs) c))"
        using True by (simp add: add.commute)
      also have "bs @ take (n * ?bs) (drop ((i + 1) * ?bs) c) = take (Suc n * ?bs) (drop (i * ?bs) c)"
        by (simp add: bs_def take_add add.commute)
      finally show ?thesis
        unfolding step using True ih by auto
    next
      case False
      then have "take (Suc n * ?bs) (drop (i * ?bs) c) = bs"
        using l(1) by (auto simp: bs_def min_def split: if_splits)
      then show ?thesis
        unfolding step using False p(2,3,4) f1(2) by auto
    qed
  qed
qed

lemma write_from_file_ok:
  fixes s :: "'f eep"
  assumes "fatfs_contract fs view cap" "files (ei_file_name e) = Some c"
    and "holding m s" "block_bytes e \<le> length buf" "view (eep_fs s) = (files, h)"
  shows "\<exists>buf' s'. eeprom_write fs hal e buf False s = (False, buf', s') \<and> length buf' = length buf \<and>
    view (eep_fs s') = (files, None) \<and> holding (take (size_bytes e) c @ drop (length c) m) s'"
proof -
  obtain f1 where f1: "file_open fs (ei_file_name e) False s = (False, s\<lparr>eep_fs := f1\<rparr>)"
    "view f1 = (files, Some (ei_file_name e, 0))"
    using file_opened [OF assms(1,5,2)] by blast
  define t where "t = eeprom_msg (''Writing '' @ dec_text (eeprom_get_address_blocks_total e) @ '' blocks of '' @
      dec_text (eeprom_get_address_block_size e) @ '' bytes each, '' @ dec_text (of_nat (write_pages e)) @ '' pages per block'' @ crlf)
    (file_size_warning ''writing'' (file_size fs (s\<lparr>eep_fs := f1\<rparr>)) (dv_size_bytes (ei_device e)) (s\<lparr>eep_fs := f1\<rparr>))"
  have t: "holding m t" "view (eep_fs t) = (files, Some (ei_file_name e, 0 * block_bytes e))"
    using assms(3) f1(2) unfolding t_def by (simp_all only: holding_print eep_fs_print holding_fs) simp
  obtain buf' s' p where b: "eeprom_write_blocks fs hal e False 0 (blocks_total e) buf t = Go_on (buf', s') \<or>
      eeprom_write_blocks fs hal e False 0 (blocks_total e) buf t = Cleanup (buf', s')" "length buf' = length buf"
    "view (eep_fs s') = (files, Some (ei_file_name e, p))" "holding (splice m 0 (take (size_bytes e) c)) s'"
    using write_blocks_from_file [OF assms(1,2) t(1) _ assms(4) t(2)] blocks_times_bytes [OF geometry [OF assms(3)]] by auto
  have m: "splice m 0 (take (size_bytes e) c) = take (size_bytes e) c @ drop (length c) m"
    using holding_length [OF assms(3)] by (auto simp: splice_def min_def)
  define u where "u = eeprom_ui_progress (eeprom_get_address_blocks_total e) (eeprom_get_address_blocks_total e) s'"
  have "view (eep_fs u) = (files, Some (ei_file_name e, p))"
    using b(3) by (simp add: u_def)
  from file_closed [OF assms(1) this] obtain f2 where f2: "file_close fs u = (False, u\<lparr>eep_fs := f2\<rparr>)" "view f2 = (files, None)"
    by blast
  have eq: "eeprom_write fs hal e buf False s = (case eeprom_write_blocks fs hal e False 0 (blocks_total e) buf t of
      Failed (buf, s) \<Rightarrow> (True, buf, s) | Cleanup r \<Rightarrow> eeprom_write_cleanup fs e False r | Go_on r \<Rightarrow> eeprom_write_cleanup fs e False r)"
    unfolding eeprom_write_def t_def Let_def if_False prod.case f1(1) ..
  have "eeprom_write fs hal e buf False s = (False, buf', u\<lparr>eep_fs := f2\<rparr>)"
    unfolding eq using b(1) f2(1) by (auto simp: eeprom_write_cleanup_def Let_def u_def [symmetric])
  then show ?thesis
    using b(2,4) f2(2) m by (auto simp: u_def)
qed

lemma read_blocks_to_file:
  fixes s :: "'f eep"
  assumes "fatfs_contract fs view cap" "size_bytes e \<le> cap"
    and "holding m s" "i + n = blocks_total e" "block_bytes e \<le> length buf"
    and "view (eep_fs s) = (files(name \<mapsto> take (i * block_bytes e) m), Some (name, i * block_bytes e))"
  shows "\<exists>buf' s'. eeprom_read_blocks fs hal e EEPROM_READ_TO_FILE i n (block_bytes e) buf vbuf s = Go_on (buf', vbuf, s') \<and>
    length buf' = length buf \<and> view (eep_fs s') = (files(name \<mapsto> m), Some (name, size_bytes e)) \<and> holding m s'"
  using assms(3-)
proof (induction n arbitrary: i buf s)
  case 0
  then show ?case
    using blocks_times_bytes [OF geometry [OF assms(3)]] holding_length [of m s] by simp
next
  case (Suc n)
  let ?bs = "block_bytes e"
  have i: "i < blocks_total e"
    using Suc.prems by simp
  define s0 where "s0 = eeprom_ui_progress (of_nat i) (eeprom_get_address_blocks_total e) s"
  have s0: "holding m s0"
    using Suc.prems(1) by (simp add: s0_def)
  obtain bs w' where r: "hal_read hal e (of_nat (i * 256)) ?bs (eep_world s0) = (False, bs, w')"
    "length (splice buf 0 bs) = length buf" "take ?bs (splice buf 0 bs) = take ?bs (drop (i * ?bs) m)"
    "holding m (s0\<lparr>eep_world := w'\<rparr>)"
    using block_read [OF s0 i geometry_pos(2) [OF assms(3)] order_refl Suc.prems(3)] unfolding block_start [OF i] by metis
  define x where "x = take ?bs (drop (i * ?bs) m)"
  have fit: "i * ?bs + ?bs \<le> length m"
    using block_fits [OF geometry [OF assms(3)] i] block_start [OF i] holding_length [OF Suc.prems(1)] by simp
  then have lx: "length x = ?bs" "length (take (i * ?bs) m) = i * ?bs"
    by (simp_all add: x_def)
  have "view (eep_fs (s0\<lparr>eep_world := w'\<rparr>)) = (files(name \<mapsto> take (i * ?bs) m), Some (name, length (take (i * ?bs) m)))"
    unfolding lx(2) Suc.prems(4) [symmetric] by (simp add: s0_def)
  from file_written [OF assms(1) this fun_upd_same, of x] fit lx assms(2) holding_length [OF Suc.prems(1)]
  obtain f' where f': "file_write fs x (s0\<lparr>eep_world := w'\<rparr>) = (False, s0\<lparr>eep_world := w', eep_fs := f'\<rparr>)"
    "view f' = (files(name \<mapsto> take (i * ?bs) m @ x), Some (name, i * ?bs + ?bs))"
    by (auto simp del: fun_upd_apply)
  have "take (i * ?bs) m @ x = take ((i + 1) * ?bs) m"
    by (simp add: x_def take_add [symmetric] add.commute)
  then have v: "view (eep_fs (s0\<lparr>eep_world := w', eep_fs := f'\<rparr>)) = (files(name \<mapsto> take ((i + 1) * ?bs) m), Some (name, (i + 1) * ?bs))"
    using f'(2) by (simp add: add.commute)
  have "holding m (s0\<lparr>eep_world := w', eep_fs := f'\<rparr>)"
    using r(4) by simp
  from Suc.IH [OF this, of "i + 1" "splice buf 0 bs", OF _ _ v]
  obtain buf' s' where ih: "eeprom_read_blocks fs hal e EEPROM_READ_TO_FILE (i + 1) n ?bs (splice buf 0 bs) vbuf
      (s0\<lparr>eep_world := w', eep_fs := f'\<rparr>) = Go_on (buf', vbuf, s')"
    "length buf' = length buf" "view (eep_fs s') = (files(name \<mapsto> m), Some (name, size_bytes e))" "holding m s'"
    using Suc.prems(2,3) r(2) by (auto simp del: fun_upd_apply)
  then show ?case
    using r(1,3) f'(1) by (simp add: s0_def [symmetric] x_def [symmetric] del: fun_upd_apply)
qed

text \<open>A read at the end of the file ends the comparison.\<close>

lemma read_blocks_at_end:
  fixes s :: "'f eep"
  assumes "fatfs_contract fs view cap" "files name = Some c" "view (eep_fs s) = (files, Some (name, length c))"
    and "holding m s" "i + n = blocks_total e" "block_bytes e \<le> length buf" "0 < rs" "rs \<le> block_bytes e"
  shows "\<exists>buf' s' p. (eeprom_read_blocks fs hal e EEPROM_VERIFY_FILE i n rs buf vbuf s = Go_on (buf', vbuf, s') \<or>
      eeprom_read_blocks fs hal e EEPROM_VERIFY_FILE i n rs buf vbuf s = Cleanup (buf', vbuf, s')) \<and>
    length buf' = length buf \<and> view (eep_fs s') = (files, Some (name, p)) \<and> holding m s'"
proof (cases n)
  case 0
  then show ?thesis
    using assms by auto
next
  case (Suc k)
  define s0 where "s0 = eeprom_ui_progress (of_nat i) (eeprom_get_address_blocks_total e) s"
  have s0: "holding m s0" and i: "i < blocks_total e"
    using assms Suc by (simp_all add: s0_def)
  obtain bs w' where r: "hal_read hal e (of_nat (i * 256)) rs (eep_world s0) = (False, bs, w')"
    "length (splice buf 0 bs) = length buf" "holding m (s0\<lparr>eep_world := w'\<rparr>)"
    using block_read [OF s0 i assms(7,8), of buf] assms(6,8) by (metis order_trans)
  have "view (eep_fs (s0\<lparr>eep_world := w'\<rparr>)) = (files, Some (name, length c))"
    using assms(3) by (simp add: s0_def)
  from file_has_read [OF assms(1) this assms(2)]
  obtain f' where f': "file_read fs rs (s0\<lparr>eep_world := w'\<rparr>) = (False, [], s0\<lparr>eep_world := w', eep_fs := f'\<rparr>)"
    "view f' = (files, Some (name, length c))"
    by auto
  have "holding m (s0\<lparr>eep_world := w', eep_fs := f'\<rparr>)"
    using r(3) by simp
  then show ?thesis
    using Suc r(1,2) f' by (simp add: s0_def [symmetric])
qed

lemma verify_slice:
  assumes "length x = length y"
  shows "x @ xs = y @ ys \<longleftrightarrow> x = y \<and> xs = ys"
  using assms by simp

lemma read_blocks_against_file:
  fixes s :: "'f eep"
  assumes "fatfs_contract fs view cap" "files name = Some c"
    and "holding m s" "i + n = blocks_total e" "block_bytes e \<le> length buf" "block_bytes e \<le> length vbuf"
    and "view (eep_fs s) = (files, Some (name, i * block_bytes e))" "i * block_bytes e \<le> length c"
  shows "\<exists>buf' vbuf' s' p. length buf' = length buf \<and> length vbuf' = length vbuf \<and> holding m s' \<and>
    (if take (length c - i * block_bytes e) (drop (i * block_bytes e) m) = take (n * block_bytes e) (drop (i * block_bytes e) c)
     then (eeprom_read_blocks fs hal e EEPROM_VERIFY_FILE i n (block_bytes e) buf vbuf s = Go_on (buf', vbuf', s') \<or>
       eeprom_read_blocks fs hal e EEPROM_VERIFY_FILE i n (block_bytes e) buf vbuf s = Cleanup (buf', vbuf', s')) \<and>
       view (eep_fs s') = (files, Some (name, p))
     else eeprom_read_blocks fs hal e EEPROM_VERIFY_FILE i n (block_bytes e) buf vbuf s = Failed (buf', vbuf', s') \<and>
       view (eep_fs s') = (files, None))"
  using assms(3-)
proof (induction n arbitrary: i buf vbuf s)
  case 0
  then show ?case
    using blocks_times_bytes [OF geometry [OF assms(3)]] holding_length [of m s] by auto
next
  case (Suc n)
  let ?bs = "block_bytes e" and ?x = "take (length c - i * block_bytes e) (drop (i * block_bytes e) m)"
  have i: "i < blocks_total e"
    using Suc.prems by simp
  define s0 where "s0 = eeprom_ui_progress (of_nat i) (eeprom_get_address_blocks_total e) s"
  have s0: "holding m s0"
    using Suc.prems(1) by (simp add: s0_def)
  obtain bs w' where r: "hal_read hal e (of_nat (i * 256)) ?bs (eep_world s0) = (False, bs, w')"
    "length (splice buf 0 bs) = length buf" "take ?bs (splice buf 0 bs) = take ?bs (drop (i * ?bs) m)"
    "holding m (s0\<lparr>eep_world := w'\<rparr>)"
    using block_read [OF s0 i geometry_pos(2) [OF assms(3)] order_refl Suc.prems(3)] unfolding block_start [OF i] by metis
  define y where "y = take ?bs (drop (i * ?bs) c)"
  have "view (eep_fs (s0\<lparr>eep_world := w'\<rparr>)) = (files, Some (name, i * ?bs))"
    using Suc.prems(5) by (simp add: s0_def)
  from file_has_read [OF assms(1) this assms(2) Suc.prems(6)]
  obtain f' where f': "file_read fs ?bs (s0\<lparr>eep_world := w'\<rparr>) = (False, y, s0\<lparr>eep_world := w', eep_fs := f'\<rparr>)"
    "view f' = (files, Some (name, min (i * ?bs + ?bs) (length c)))"
    unfolding y_def by blast
  define s1 where "s1 = s0\<lparr>eep_world := w', eep_fs := f'\<rparr>"
  have s1: "holding m s1" "view (eep_fs s1) = (files, Some (name, min (i * ?bs + ?bs) (length c)))"
    using r(4) f'(2) by (simp_all add: s1_def)
  define buf1 where "buf1 = splice buf 0 bs"
  define vbuf1 where "vbuf1 = splice vbuf 0 y"
  define rs where "rs = length y"
  have rs: "rs \<le> ?bs" "rs \<le> length c - i * ?bs"
    by (auto simp: rs_def y_def)
  have l: "length buf1 = length buf" "length vbuf1 = length vbuf" "take rs vbuf1 = y"
    using r(2) Suc.prems(4) rs(1) by (auto simp: buf1_def vbuf1_def splice_def rs_def)
  have tb: "take rs buf1 = take rs (drop (i * ?bs) m)"
    using arg_cong [OF r(3), of "take rs"] rs(1) by (simp add: buf1_def min_def)
  have shrink: "(if rs < ?bs then rs else ?bs) = rs"
    using rs(1) by simp
  have step: "eeprom_read_blocks fs hal e EEPROM_VERIFY_FILE i (Suc n) ?bs buf vbuf s =
      (if rs = 0 then Cleanup (buf1, vbuf1, s1)
       else (case first_mismatch rs buf1 vbuf1 of
         Some j \<Rightarrow> Failed (buf1, vbuf1, snd (file_close fs (eeprom_msg (crlf @ ''Error at 0x'' @ hex_text 8 (i * 256 + j) @
           '': expected 0x'' @ hex_text 2 (unat (vbuf1 ! j)) @ '', read 0x'' @ hex_text 2 (unat (buf1 ! j)) @ crlf) s1)))
       | None \<Rightarrow> if rs < page_bytes e then Cleanup (buf1, vbuf1, s1)
                 else eeprom_read_blocks fs hal e EEPROM_VERIFY_FILE (i + 1) n rs buf1 vbuf1 s1))"
    by (simp only: eeprom_read_blocks.simps Let_def s0_def [symmetric] r(1) prod.case if_False if_True f'(1) shrink
        eeprom_read_action.distinct simp_thms s1_def [symmetric] buf1_def [symmetric] vbuf1_def [symmetric] rs_def [symmetric])
  show ?case
  proof (cases "rs = 0")
    case True
    then have "drop (i * ?bs) c = []"
      using geometry_pos(2) [OF assms(3)] by (simp add: rs_def y_def)
    then show ?thesis
      unfolding step using True l s1 by auto
  next
    case False
    have len_m: "i * ?bs + ?bs \<le> length m"
      using block_fits [OF geometry [OF assms(3)] i] block_start [OF i] holding_length [OF Suc.prems(1)] by simp
    have mis: "first_mismatch rs buf1 vbuf1 = None \<longleftrightarrow> take rs (drop (i * ?bs) m) = y"
      using l rs(1) Suc.prems(3,4) by (simp add: first_mismatch_None tb)
    have xs: "?x = take rs (drop (i * ?bs) m) @ take (length c - (i * ?bs + rs)) (drop (i * ?bs + rs) m)"
      using rs(2) Suc.prems(6) by (intro slice_split) simp
    have ys: "take (Suc n * ?bs) (drop (i * ?bs) c) = y @ take (n * ?bs) (drop ((i + 1) * ?bs) c)"
      by (simp add: y_def take_add add.commute)
    have ly: "length (take rs (drop (i * ?bs) m)) = length y"
      using len_m rs(1) by (simp add: rs_def)
    show ?thesis
    proof (cases "first_mismatch rs buf1 vbuf1")
      case (Some j)
      then have ne: "?x \<noteq> take (Suc n * ?bs) (drop (i * ?bs) c)"
        unfolding xs ys verify_slice [OF ly] using mis by simp
      define s2 where "s2 = eeprom_msg (crlf @ ''Error at 0x'' @ hex_text 8 (i * 256 + j) @
           '': expected 0x'' @ hex_text 2 (unat (vbuf1 ! j)) @ '', read 0x'' @ hex_text 2 (unat (buf1 ! j)) @ crlf) s1"
      have s2: "holding m s2" "view (eep_fs s2) = (files, Some (name, min (i * ?bs + ?bs) (length c)))"
        using s1 unfolding s2_def by (simp_all only: holding_print eep_fs_print)
      obtain f2 where f2: "file_close fs s2 = (False, s2\<lparr>eep_fs := f2\<rparr>)" "view f2 = (files, None)"
        using file_closed [OF assms(1) s2(2)] by blast
      have "eeprom_read_blocks fs hal e EEPROM_VERIFY_FILE i (Suc n) ?bs buf vbuf s = Failed (buf1, vbuf1, s2\<lparr>eep_fs := f2\<rparr>)"
        unfolding step Some s2_def [symmetric] option.case f2(1) using False by simp
      then show ?thesis
        using ne l s2(1) f2(2) by auto
    next
      case None
      then have eq: "?x = take (Suc n * ?bs) (drop (i * ?bs) c) \<longleftrightarrow>
          take (length c - (i * ?bs + rs)) (drop (i * ?bs + rs) m) = take (n * ?bs) (drop ((i + 1) * ?bs) c)"
        unfolding xs ys verify_slice [OF ly] using mis by simp
      show ?thesis
      proof (cases "rs = ?bs")
        case True
        then have le: "(i + 1) * ?bs \<le> length c"
          using rs(2) geometry_pos(2) [OF assms(3)] by simp
        then have v: "view (eep_fs s1) = (files, Some (name, (i + 1) * ?bs))"
          using s1(2) by (simp add: min_def add.commute)
        have next_step: "eeprom_read_blocks fs hal e EEPROM_VERIFY_FILE i (Suc n) ?bs buf vbuf s =
            eeprom_read_blocks fs hal e EEPROM_VERIFY_FILE (i + 1) n ?bs buf1 vbuf1 s1"
          unfolding step None option.case using True geometry_pos [OF assms(3)] by simp
        have idx: "i * ?bs + rs = (i + 1) * ?bs"
          using True by simp
        show ?thesis
          unfolding next_step eq idx
          using Suc.IH [OF s1(1) _ _ _ v le, of buf1 vbuf1] Suc.prems(2,3,4) unfolding l(1,2) by auto
      next
        case False
        then have short: "length c = i * ?bs + rs"
          using rs Suc.prems(6) by (auto simp: rs_def y_def min_def split: if_splits)
        then have ok: "?x = take (Suc n * ?bs) (drop (i * ?bs) c)"
          unfolding eq using False rs(1) by simp
        have v: "view (eep_fs s1) = (files, Some (name, length c))"
          using s1(2) short rs(1) by (simp add: min_def)
        obtain buf2 s2 p where e2: "eeprom_read_blocks fs hal e EEPROM_VERIFY_FILE (i + 1) n rs buf1 vbuf1 s1 = Go_on (buf2, vbuf1, s2) \<or>
            eeprom_read_blocks fs hal e EEPROM_VERIFY_FILE (i + 1) n rs buf1 vbuf1 s1 = Cleanup (buf2, vbuf1, s2)"
          "length buf2 = length buf" "view (eep_fs s2) = (files, Some (name, p))" "holding m s2"
          using read_blocks_at_end [OF assms(1,2) v s1(1), of "i + 1" n buf1 rs vbuf1] Suc.prems(2,3) l(1) \<open>rs \<noteq> 0\<close> rs(1) by auto
        show ?thesis
          unfolding step None option.case using ok e2 \<open>rs \<noteq> 0\<close> l s1(1) v by auto
      qed
    qed
  qed
qed

lemma read_to_file_ok:
  fixes s :: "'f eep"
  assumes "fatfs_contract fs view cap" "size_bytes e \<le> cap" "holding m s" "block_bytes e \<le> length buf"
    and "view (eep_fs s) = (files, h)"
  shows "\<exists>buf' s'. eeprom_read fs hal e buf vbuf EEPROM_READ_TO_FILE s = (False, buf', vbuf, s') \<and>
    length buf' = length buf \<and> view (eep_fs s') = (files(ei_file_name e \<mapsto> m), None) \<and> holding m s'"
proof -
  obtain f1 where f1: "file_open fs (ei_file_name e) True s = (False, s\<lparr>eep_fs := f1\<rparr>)"
    "view f1 = (files(ei_file_name e \<mapsto> []), Some (ei_file_name e, 0))"
    using file_created [OF assms(1,5)] by blast
  have "holding m (s\<lparr>eep_fs := f1\<rparr>)"
    "view (eep_fs (s\<lparr>eep_fs := f1\<rparr>)) = (files(ei_file_name e \<mapsto> take (0 * block_bytes e) m), Some (ei_file_name e, 0 * block_bytes e))"
    using assms(3) f1(2) by simp_all
  from read_blocks_to_file [OF assms(1,2) this(1) _ assms(4) this(2), of "blocks_total e" vbuf]
  obtain buf' s' where b: "eeprom_read_blocks fs hal e EEPROM_READ_TO_FILE 0 (blocks_total e) (block_bytes e) buf vbuf (s\<lparr>eep_fs := f1\<rparr>) =
      Go_on (buf', vbuf, s')" "length buf' = length buf"
    "view (eep_fs s') = (files(ei_file_name e \<mapsto> m), Some (ei_file_name e, size_bytes e))" "holding m s'"
    by (auto simp del: fun_upd_apply)
  define u where "u = eeprom_ui_progress (eeprom_get_address_blocks_total e) (eeprom_get_address_blocks_total e) s'"
  have u: "view (eep_fs u) = (files(ei_file_name e \<mapsto> m), Some (ei_file_name e, size_bytes e))" "holding m u"
    unfolding b(3) [symmetric] using b(4) by (simp_all add: u_def)
  obtain f2 where f2: "file_close fs u = (False, u\<lparr>eep_fs := f2\<rparr>)" "view f2 = (files(ei_file_name e \<mapsto> m), None)"
    using file_closed [OF assms(1) u(1)] by blast
  have "eeprom_read fs hal e buf vbuf EEPROM_READ_TO_FILE s = (False, buf', vbuf, u\<lparr>eep_fs := f2\<rparr>)"
    using f1(1) b(1) f2(1) by (simp add: eeprom_read_def eeprom_read_cleanup_def Let_def u_def [symmetric])
  then show ?thesis
    using b(2) f2(2) u(2) by (auto simp del: fun_upd_apply)
qed

lemma verify_file_exact:
  fixes s :: "'f eep"
  assumes "fatfs_contract fs view cap" "files (ei_file_name e) = Some c"
    and "holding m s" "block_bytes e \<le> length buf" "block_bytes e \<le> length vbuf" "view (eep_fs s) = (files, h)"
  shows "\<exists>buf' vbuf' s'. eeprom_read fs hal e buf vbuf EEPROM_VERIFY_FILE s =
      (take (length c) m \<noteq> take (size_bytes e) c, buf', vbuf', s') \<and>
    length buf' = length buf \<and> length vbuf' = length vbuf \<and> view (eep_fs s') = (files, None) \<and> holding m s'"
proof -
  obtain f1 where f1: "file_open fs (ei_file_name e) False s = (False, s\<lparr>eep_fs := f1\<rparr>)"
    "view f1 = (files, Some (ei_file_name e, 0))"
    using file_opened [OF assms(1,6,2)] by blast
  define t where "t = file_size_warning ''verifying'' (file_size fs (s\<lparr>eep_fs := f1\<rparr>)) (dv_size_bytes (ei_device e)) (s\<lparr>eep_fs := f1\<rparr>)"
  have t: "holding m t" "view (eep_fs t) = (files, Some (ei_file_name e, 0 * block_bytes e))"
    using assms(3) f1(2) unfolding t_def by (simp_all only: holding_print eep_fs_print holding_fs) simp
  let ?r = "eeprom_read_blocks fs hal e EEPROM_VERIFY_FILE 0 (blocks_total e) (block_bytes e) buf vbuf t"
  obtain buf' vbuf' s' p where b: "length buf' = length buf" "length vbuf' = length vbuf" "holding m s'"
    "if take (length c) m = take (size_bytes e) c
     then (?r = Go_on (buf', vbuf', s') \<or> ?r = Cleanup (buf', vbuf', s')) \<and> view (eep_fs s') = (files, Some (ei_file_name e, p))
     else ?r = Failed (buf', vbuf', s') \<and> view (eep_fs s') = (files, None)"
    using read_blocks_against_file [OF assms(1,2) t(1) _ assms(4,5) t(2), of "blocks_total e"] blocks_times_bytes [OF geometry [OF assms(3)]]
    by auto
  have eq: "eeprom_read fs hal e buf vbuf EEPROM_VERIFY_FILE s = (case ?r of Failed (buf, vbuf, s) \<Rightarrow> (True, buf, vbuf, s)
      | Cleanup r \<Rightarrow> eeprom_read_cleanup fs e EEPROM_VERIFY_FILE r | Go_on r \<Rightarrow> eeprom_read_cleanup fs e EEPROM_VERIFY_FILE r)"
    by (simp add: eeprom_read_def f1(1) t_def)
  show ?thesis
  proof (cases "take (length c) m = take (size_bytes e) c")
    case False
    then show ?thesis
      unfolding eq using b by auto
  next
    case True
    define u where "u = eeprom_ui_progress (eeprom_get_address_blocks_total e) (eeprom_get_address_blocks_total e) s'"
    have u: "view (eep_fs u) = (files, Some (ei_file_name e, p))" "holding m u"
      using b(3,4) True by (simp_all add: u_def)
    obtain f2 where f2: "file_close fs u = (False, u\<lparr>eep_fs := f2\<rparr>)" "view f2 = (files, None)"
      using file_closed [OF assms(1) u(1)] by blast
    have "eeprom_read fs hal e buf vbuf EEPROM_VERIFY_FILE s = (False, buf', vbuf', u\<lparr>eep_fs := f2\<rparr>)"
      unfolding eq using b(4) True f2(1) by (auto simp: eeprom_read_cleanup_def Let_def u_def [symmetric])
    then show ?thesis
      using b(1,2) f2(2) u(2) True by auto
  qed
qed

text \<open>A file written and verified, and the memory read to a file and verified.\<close>

lemma action_write_ok:
  fixes s :: "'f eep"
  assumes "fatfs_contract fs view cap" "files (ei_file_name e) = Some c"
    and "holding m s" "block_bytes e \<le> length buf" "block_bytes e \<le> length vbuf" "view (eep_fs s) = (files, h)"
  shows "\<exists>buf' vbuf' s'. eeprom_action_write fs hal e buf vbuf verify s = (False, buf', vbuf', s') \<and>
    length buf' = length buf \<and> length vbuf' = length vbuf \<and> view (eep_fs s') = (files, None) \<and>
    holding (take (size_bytes e) c @ drop (length c) m) s'"
proof -
  let ?m = "take (size_bytes e) c @ drop (length c) m"
  define s0 where "s0 = eeprom_msg (''Write: Writing EEPROM from file '' @ ei_file_name e @ ''...'' @ crlf) s"
  have s0: "holding m s0" "view (eep_fs s0) = (files, h)"
    using assms(3,6) unfolding s0_def by (simp_all only: holding_print eep_fs_print)
  obtain buf1 s1 where w: "eeprom_write fs hal e buf False s0 = (False, buf1, s1)" "length buf1 = length buf"
    "view (eep_fs s1) = (files, None)" "holding ?m s1"
    using write_from_file_ok [OF assms(1,2) s0(1) assms(4) s0(2)] by auto
  define s2 where "s2 = eeprom_msg (''Write verify...'' @ crlf) (eeprom_msg (crlf @ ''Write complete'' @ crlf) s1)"
  have s2: "holding ?m s2" "view (eep_fs s2) = (files, None)"
    using w(3,4) unfolding s2_def by (simp_all only: holding_print eep_fs_print)
  have "take (length c) ?m = take (size_bytes e) c"
    using holding_length [OF assms(3)] by (cases "length c \<le> size_bytes e") simp_all
  with verify_file_exact [OF assms(1,2) s2(1) _ assms(5) s2(2), of buf1] w(2) assms(4)
  obtain buf2 vbuf2 s3 where v: "eeprom_read fs hal e buf1 vbuf EEPROM_VERIFY_FILE s2 = (False, buf2, vbuf2, s3)"
    "length buf2 = length buf" "length vbuf2 = length vbuf" "view (eep_fs s3) = (files, None)" "holding ?m s3"
    by auto
  have "eeprom_action_write fs hal e buf vbuf verify s =
    (if verify then (False, buf2, vbuf2, eeprom_msg (crlf @ ''Write verify complete'' @ crlf) s3)
     else (False, buf1, vbuf, eeprom_msg (crlf @ ''Write complete'' @ crlf) s1))"
    unfolding eeprom_action_write_def Let_def s0_def [symmetric] w(1) prod.case if_False s2_def [symmetric] v(1) ..
  then show ?thesis
    using w v by (cases verify) (simp_all del: append_Cons append_Nil)
qed

lemma action_read_ok:
  fixes s :: "'f eep"
  assumes "fatfs_contract fs view cap" "size_bytes e \<le> cap"
    and "holding m s" "block_bytes e \<le> length buf" "block_bytes e \<le> length vbuf" "view (eep_fs s) = (files, h)"
  shows "\<exists>buf' vbuf' s'. eeprom_action_read fs hal e buf vbuf verify s = (False, buf', vbuf', s') \<and>
    length buf' = length buf \<and> length vbuf' = length vbuf \<and> view (eep_fs s') = (files(ei_file_name e \<mapsto> m), None) \<and> holding m s'"
proof -
  define s0 where "s0 = eeprom_msg (''Read: Reading EEPROM to file '' @ ei_file_name e @ ''...'' @ crlf) s"
  have s0: "holding m s0" "view (eep_fs s0) = (files, h)"
    using assms(3,6) unfolding s0_def by (simp_all only: holding_print eep_fs_print)
  obtain buf1 s1 where r: "eeprom_read fs hal e buf vbuf EEPROM_READ_TO_FILE s0 = (False, buf1, vbuf, s1)" "length buf1 = length buf"
    "view (eep_fs s1) = (files(ei_file_name e \<mapsto> m), None)" "holding m s1"
    using read_to_file_ok [OF assms(1,2) s0(1) assms(4) s0(2), of vbuf] by blast
  define s2 where "s2 = eeprom_msg (''Read verify...'' @ crlf) (eeprom_msg (crlf @ ''Read complete'' @ crlf) s1)"
  have s2: "holding m s2" "view (eep_fs s2) = (files(ei_file_name e \<mapsto> m), None)"
    using r(3,4) unfolding s2_def by (simp_all only: holding_print eep_fs_print)
  have "take (length m) m = take (size_bytes e) m"
    using holding_length [OF assms(3)] by simp
  with verify_file_exact [OF assms(1) fun_upd_same s2(1) _ assms(5) s2(2), of buf1] r(2) assms(4)
  obtain buf2 vbuf2 s3 where v: "eeprom_read fs hal e buf1 vbuf EEPROM_VERIFY_FILE s2 = (False, buf2, vbuf2, s3)"
    "length buf2 = length buf" "length vbuf2 = length vbuf" "view (eep_fs s3) = (files(ei_file_name e \<mapsto> m), None)" "holding m s3"
    by (auto simp del: fun_upd_apply)
  have "eeprom_action_read fs hal e buf vbuf verify s =
    (if verify then (False, buf2, vbuf2, eeprom_msg (crlf @ ''Read verify complete'' @ crlf) s3)
     else (False, buf1, vbuf, eeprom_msg (crlf @ ''Read complete'' @ crlf) s1))"
    unfolding eeprom_action_read_def Let_def s0_def [symmetric] r(1) prod.case if_False s2_def [symmetric] v(1) ..
  then show ?thesis
    using r v by (cases verify) (simp_all del: append_Cons append_Nil fun_upd_apply)
qed

lemma action_verify_exact:
  fixes s :: "'f eep"
  assumes "fatfs_contract fs view cap" "files (ei_file_name e) = Some c"
    and "holding m s" "block_bytes e \<le> length buf" "block_bytes e \<le> length vbuf" "view (eep_fs s) = (files, h)"
  shows "\<exists>buf' vbuf' s'. eeprom_action_verify fs hal e buf vbuf s =
      (if take (length c) m = take (size_bytes e) c then None else Some True, buf', vbuf', s') \<and>
    (take (length c) m = take (size_bytes e) c \<longrightarrow> (\<exists>s1. s' = eeprom_msg (crlf @ ''Verify complete'' @ crlf) s1)) \<and>
    view (eep_fs s') = (files, None) \<and> holding m s'"
proof -
  define s0 where "s0 = eeprom_msg (''Verify: Verifying EEPROM contents against file '' @ ei_file_name e @ ''...'' @ crlf) s"
  have s0: "holding m s0" "view (eep_fs s0) = (files, h)"
    using assms(3,6) unfolding s0_def by (simp_all only: holding_print eep_fs_print)
  obtain buf1 vbuf1 s1 where r: "eeprom_read fs hal e buf vbuf EEPROM_VERIFY_FILE s0 =
      (take (length c) m \<noteq> take (size_bytes e) c, buf1, vbuf1, s1)" "view (eep_fs s1) = (files, None)" "holding m s1"
    using verify_file_exact [OF assms(1,2) s0(1) assms(4,5) s0(2)] by blast
  have "eeprom_action_verify fs hal e buf vbuf s =
      (if take (length c) m \<noteq> take (size_bytes e) c then (Some True, buf1, vbuf1, s1)
       else (None, buf1, vbuf1, eeprom_msg (crlf @ ''Verify complete'' @ crlf) s1))"
    unfolding eeprom_action_verify_def s0_def [symmetric] r(1) prod.case ..
  then show ?thesis
    using r(2,3) by (cases "take (length c) m = take (size_bytes e) c") (auto simp del: append_Cons append_Nil)
qed

end

end
