(* ===== verification/Eeprom_I2c.thy ===== *)
theory Eeprom_I2c
  imports Eeprom_Memory I2c_Mode
begin

text \<open>
  The 24X EEPROMs of \<^verbatim>\<open>src/commands/eeprom/eeprom_i2c.c\<close>: the functions that read, write a page and
  poll, the device table, and the documented chip as an automaton on the items of the bus. With
  that chip on the bus the functions satisfy the contract of \<open>eeprom_memory\<close>.
\<close>

subsection \<open>The functions of the driver\<close>

fun i2c_eeprom_poll :: "nat \<Rightarrow> eeprom_info \<Rightarrow> world \<Rightarrow> bool \<times> world" where
  "i2c_eeprom_poll 0 e w = (True, w)"
| "i2c_eeprom_poll (Suc n) e w =
     (case pio_i2c_write_array_timeout (push_bit 1 (ei_device_address e)) [] 0xFFFFF w of
        (st, w1) \<Rightarrow> if st = HWI2C_OK then (False, w1) else i2c_eeprom_poll n e w1)"

definition i2c_eeprom_poll_busy :: "eeprom_info \<Rightarrow> world \<Rightarrow> bool \<times> world" where
  "i2c_eeprom_poll_busy e w = i2c_eeprom_poll 0xFFFFF e w"

definition i2c_eeprom_read :: "eeprom_info \<Rightarrow> u32 \<Rightarrow> nat \<Rightarrow> world \<Rightarrow> bool \<times> bytes \<times> world" where
  "i2c_eeprom_read e address read_bytes w =
     (case eeprom_get_address e address w of
        (None, w1) \<Rightarrow> (True, [], w1)
      | (Some (block_select_bits, address_array), w1) \<Rightarrow>
          i2c_transaction (push_bit 1 (ei_device_address e OR block_select_bits)) address_array read_bytes w1)"

definition i2c_eeprom_write_page :: "eeprom_info \<Rightarrow> u32 \<Rightarrow> bytes \<Rightarrow> nat \<Rightarrow> world \<Rightarrow> bool \<times> bytes \<times> world" where
  "i2c_eeprom_write_page e address buf page_write_size w =
     (case eeprom_get_address e address w of
        (None, w1) \<Rightarrow> (True, buf, w1)
      | (Some (block_select_bits, address_array), w1) \<Rightarrow>
          (case (if page_write_size < page_bytes e
                 then (case i2c_eeprom_read e address (page_bytes e) w1 of
                         (err, existing_page, w2) \<Rightarrow>
                           if err then (True, buf, w2)
                           else (False, splice buf page_write_size (drop page_write_size existing_page), w2))
                 else (False, buf, w1)) of
            (err, buf, w2) \<Rightarrow>
              if err then (True, buf, w2)
              else (case pio_i2c_start_timeout 0xFFFFF w2 of
                (st, w3) \<Rightarrow> if st \<noteq> HWI2C_OK then (True, buf, w3)
                else (case i2c_write_bytes (push_bit 1 (ei_device_address e OR block_select_bits) # address_array @
                            take (page_bytes e) buf) 0xFFFFF w3 of
                  (st, w4) \<Rightarrow> if st \<noteq> HWI2C_OK then (True, buf, w4)
                  else (case i2c_stop_and_wait 0xFFFFF w4 of
                    (st, w5) \<Rightarrow> if st \<noteq> HWI2C_OK then (True, buf, w5)
                    else (case i2c_eeprom_poll_busy e w5 of (busy, w6) \<Rightarrow> (busy, buf, w6)))))))"

definition i2c_eeprom_hal :: eeprom_hal where
  "i2c_eeprom_hal = \<lparr>hal_read = i2c_eeprom_read, hal_write_page = i2c_eeprom_write_page,
     hal_is_write_protected = None, hal_probe_protect = None\<rparr>"

definition i2c_device :: "string \<Rightarrow> nat \<Rightarrow> nat \<Rightarrow> nat \<Rightarrow> nat \<Rightarrow> nat \<Rightarrow> eeprom_device" where
  "i2c_device name z n bits off pg = \<lparr>dv_name = name, dv_size_bytes = of_nat z, dv_address_bytes = of_nat n,
     dv_block_select_bits = of_nat bits, dv_block_select_offset = of_nat off, dv_page_bytes = of_nat pg, dv_max_speed_khz = 400\<rparr>"

definition i2c_eeprom_devices :: "eeprom_device list" where
  "i2c_eeprom_devices =
     [i2c_device ''24X01'' 128 1 0 0 8,
      i2c_device ''24X02'' 256 1 0 0 8,
      i2c_device ''24X04'' 512 1 1 0 16,
      i2c_device ''24X08'' 1024 1 2 0 16,
      i2c_device ''24X16'' 2048 1 3 0 16,
      i2c_device ''24X32'' 4096 2 0 0 32,
      i2c_device ''24X64'' 8192 2 0 0 32,
      i2c_device ''24X128'' 16384 2 0 0 64,
      i2c_device ''24X256'' 32768 2 0 0 64,
      i2c_device ''24X512'' 65536 2 0 0 128,
      i2c_device ''24X1025'' 131072 2 1 3 128,
      i2c_device ''24X1026'' 131072 2 1 0 128,
      i2c_device ''24XM01'' 131072 2 1 0 256,
      i2c_device ''24XM02'' 262144 2 2 0 256]"

subsection \<open>The chip\<close>

text \<open>
  The documented behaviour of a 24X EEPROM. After a start the chip compares the control byte with its
  address; the low bits of the address select a block. A control byte to write is followed by the
  address and the data of a page, which the stop programs; while it programs, the chip
  acknowledges no control byte. Bytes beyond the end of a page wrap around in it. A control byte to read sends the
  bytes from the address on, until the master does not acknowledge one. \<open>cyc\<close> is the number
  of control bytes a write cycle misses.
\<close>

datatype chip_phase = Ph_idle | Ph_control | Ph_address nat | Ph_data | Ph_read

record chip =
  ch_mem :: "u8 list"
  ch_ptr :: nat
  ch_phase :: chip_phase
  ch_latch :: "u8 list"
  ch_busy :: nat

definition chip_blocks :: "eeprom_info \<Rightarrow> nat" where
  "chip_blocks e = (let k = size_bytes e div 256 ^ unat (dv_address_bytes (ei_device e)) in if k = 0 then 1 else k)"

definition chip_selects :: "eeprom_info \<Rightarrow> u8 \<Rightarrow> nat option" where
  "chip_selects e b =
     (let a = unat b div 2; base = unat (ei_device_address e)
      in if base \<le> a \<and> a < base + chip_blocks e then Some (a - base) else None)"

definition chip_byte :: "eeprom_info \<Rightarrow> chip \<Rightarrow> u32 \<Rightarrow> chip" where
  "chip_byte e c v =
     (let b = ucast (drop_bit 1 v) :: u8 in
      case ch_phase c of
        Ph_idle \<Rightarrow> c
      | Ph_control \<Rightarrow>
          if 0 < ch_busy c then c\<lparr>ch_busy := ch_busy c - 1, ch_phase := Ph_idle\<rparr>
          else (case chip_selects e b of
                  None \<Rightarrow> c\<lparr>ch_phase := Ph_idle\<rparr>
                | Some k \<Rightarrow> if odd (unat b) then c\<lparr>ch_phase := Ph_read\<rparr> else c\<lparr>ch_phase := Ph_address 0, ch_ptr := k\<rparr>)
      | Ph_address j \<Rightarrow>
          c\<lparr>ch_ptr := ch_ptr c * 256 + unat b,
            ch_phase := (if j + 1 = unat (dv_address_bytes (ei_device e)) then Ph_data else Ph_address (j + 1))\<rparr>
      | Ph_data \<Rightarrow> c\<lparr>ch_latch := ch_latch c @ [b]\<rparr>
      | Ph_read \<Rightarrow> c\<lparr>ch_ptr := (ch_ptr c + 1) mod length (ch_mem c), ch_phase := (if v AND 1 = 0 then Ph_read else Ph_idle)\<rparr>)"

definition chip_stop :: "eeprom_info \<Rightarrow> nat \<Rightarrow> chip \<Rightarrow> chip" where
  "chip_stop e cyc c =
     (if ch_phase c = Ph_data \<and> ch_latch c \<noteq> []
      then c\<lparr>ch_mem := page_program (page_bytes e) (ch_ptr c) (ch_latch c) (ch_mem c), ch_busy := cyc, ch_phase := Ph_idle, ch_latch := []\<rparr>
      else c\<lparr>ch_phase := Ph_idle, ch_latch := []\<rparr>)"

fun chip_step :: "eeprom_info \<Rightarrow> nat \<Rightarrow> chip \<Rightarrow> i2c_item \<Rightarrow> chip" where
  "chip_step e cyc c I_start = c\<lparr>ch_phase := Ph_control, ch_latch := []\<rparr>"
| "chip_step e cyc c I_restart = c\<lparr>ch_phase := Ph_control, ch_latch := []\<rparr>"
| "chip_step e cyc c I_stop = chip_stop e cyc c"
| "chip_step e cyc c (I_xfer v) = chip_byte e c v"

text \<open>What the bus shows at the end of a transfer: the lines are open drain, 1 unless pulled low.\<close>

definition chip_acks :: "eeprom_info \<Rightarrow> chip \<Rightarrow> u8 \<Rightarrow> bool" where
  "chip_acks e c b \<longleftrightarrow> (case ch_phase c of
     Ph_control \<Rightarrow> ch_busy c = 0 \<and> chip_selects e b \<noteq> None
   | Ph_address j \<Rightarrow> True
   | Ph_data \<Rightarrow> True
   | _ \<Rightarrow> False)"

definition chip_answer :: "eeprom_info \<Rightarrow> chip \<Rightarrow> u32 \<Rightarrow> u32" where
  "chip_answer e c v =
     (if ch_phase c = Ph_read then push_bit 1 (ucast (ch_mem c ! ch_ptr c)) OR (v AND 1)
      else if chip_acks e c (ucast (drop_bit 1 v)) then v AND NOT 1 else v)"

text \<open>The chip is the only device on the bus of the world.\<close>

definition chip_on :: "eeprom_info \<Rightarrow> nat \<Rightarrow> chip \<Rightarrow> world \<Rightarrow> bool" where
  "chip_on e cyc c w \<longleftrightarrow> pio_responsive w \<and>
     (\<forall>is v. i2c_answer w (w_hw w @ items_events is) (I_xfer v) = chip_answer e (foldl (chip_step e cyc) c is) v)"

lemma chip_on_responsive: "chip_on e cyc c w \<Longrightarrow> pio_responsive w"
  by (simp add: chip_on_def)

lemma chip_on_print [simp]: "chip_on e cyc c w \<Longrightarrow> chip_on e cyc c (term_out ts w)"
  by (simp add: chip_on_def i2c_answer_def)

lemma chip_on_items: "chip_on e cyc c w \<Longrightarrow> chip_on e cyc (foldl (chip_step e cyc) c is) (hw_do (items_events is) w)"
  unfolding chip_on_def by (auto simp: foldl_append [symmetric] items_events_simps(3) [symmetric] simp del: foldl_append items_events_simps)

lemma chip_on_item: "chip_on e cyc c w \<Longrightarrow> chip_on e cyc (chip_step e cyc c i) (hw_do (item_events i) w)"
  using chip_on_items [of e cyc c w "[i]"] by simp

lemma chip_on_answer: "chip_on e cyc c w \<Longrightarrow> i2c_answer w (w_hw w) (I_xfer v) = chip_answer e c v"
  using spec [of "\<lambda>is. \<forall>v. i2c_answer w (w_hw w @ items_events is) (I_xfer v) = chip_answer e (foldl (chip_step e cyc) c is) v" "[]"]
  by (simp add: chip_on_def)

subsection \<open>Transfers with the chip\<close>

lemma double_push: "(x :: u32) * 2 = push_bit (Suc 0) x"
  by (simp add: push_bit_eq_mult)

lemma byte_of_word [simp]:
  "ucast (drop_bit (Suc 0) (ucast (b :: u8) * 2 :: u32)) = b"
  "ucast (drop_bit (Suc 0) (ucast (b :: u8) * 2 OR v AND 1 :: u32)) = b"
  by (rule bit_word_eqI; simp only: double_push,
    auto simp: bit_simps simp del: push_bit_Suc push_bit_of_Suc_0)+

lemma ack_of_word [simp]:
  "((x :: u32) * 2 OR v AND 1) AND 1 = v AND 1" "((x :: u32) * 2 OR 1) AND 1 = 1"
  by (rule bit_word_eqI; simp only: double_push,
    auto simp: bit_simps simp del: push_bit_Suc push_bit_of_Suc_0)+

lemma pulled_low [simp]: "(v AND - 2) AND 1 = (0 :: u32)"
  by (simp add: and.assoc)

lemma acked_chip: "chip_on e cyc c w \<Longrightarrow> acked w (w_hw w) b \<longleftrightarrow> chip_acks e c b"
  using chip_on_answer [of e cyc c w "push_bit 1 (ucast b) OR 1"]
  by (auto simp: acked_def byte_out_def chip_answer_def chip_acks_def)

text \<open>A control byte.\<close>

lemma chip_control:
  assumes "ch_phase c = Ph_control"
  shows "chip_step e cyc c (byte_out b) =
      (if 0 < ch_busy c then c\<lparr>ch_busy := ch_busy c - 1, ch_phase := Ph_idle\<rparr>
       else (case chip_selects e b of
               None \<Rightarrow> c\<lparr>ch_phase := Ph_idle\<rparr>
             | Some k \<Rightarrow> if odd (unat b) then c\<lparr>ch_phase := Ph_read\<rparr> else c\<lparr>ch_phase := Ph_address 0, ch_ptr := k\<rparr>))"
    and "chip_acks e c b \<longleftrightarrow> ch_busy c = 0 \<and> chip_selects e b \<noteq> None"
  using assms by (simp_all add: byte_out_def chip_byte_def chip_acks_def Let_def)

lemma chip_addressed:
  assumes "ch_phase c = Ph_address j"
  shows "chip_step e cyc c (byte_out b) = c\<lparr>ch_ptr := ch_ptr c * 256 + unat b,
      ch_phase := (if j + 1 = unat (dv_address_bytes (ei_device e)) then Ph_data else Ph_address (j + 1))\<rparr>"
    and "chip_acks e c b"
  using assms by (simp_all add: byte_out_def chip_byte_def chip_acks_def Let_def)

lemma chip_latches:
  assumes "ch_phase c = Ph_data"
  shows "chip_step e cyc c (byte_out b) = c\<lparr>ch_latch := ch_latch c @ [b]\<rparr>" and "chip_acks e c b"
  using assms by (simp_all add: byte_out_def chip_byte_def chip_acks_def Let_def)

text \<open>The bytes of a page go to the latch.\<close>

lemma chip_takes_data:
  assumes "chip_on e cyc c w" "ch_phase c = Ph_data"
  shows "all_acked w (w_hw w) bs"
    and "foldl (chip_step e cyc) c (map byte_out bs) = c\<lparr>ch_latch := ch_latch c @ bs\<rparr>"
proof -
  show "all_acked w (w_hw w) bs"
    using assms
  proof (induction bs arbitrary: c w)
    case (Cons b bs)
    have "chip_on e cyc (chip_step e cyc c (byte_out b)) (hw_do (item_events (byte_out b)) w)"
      by (rule chip_on_item [OF Cons.prems(1)])
    from Cons.IH [OF this] show ?case
      using acked_chip [OF Cons.prems(1), of b] chip_latches [OF Cons.prems(2)] Cons.prems(2) by simp
  qed simp
  show "foldl (chip_step e cyc) c (map byte_out bs) = c\<lparr>ch_latch := ch_latch c @ bs\<rparr>"
    using assms(2)
  proof (induction bs arbitrary: c)
    case (Cons b bs)
    then show ?case
      by (simp add: chip_latches)
  qed simp
qed

text \<open>A row of reads gives the memory from the address on.\<close>

lemma byte_read_chip:
  assumes "chip_on e cyc c w" "ch_phase c = Ph_read"
  shows "byte_read w (w_hw w) ack = ch_mem c ! ch_ptr c"
    and "chip_step e cyc c (byte_in ack) = c\<lparr>ch_ptr := (ch_ptr c + 1) mod length (ch_mem c), ch_phase := (if ack then Ph_read else Ph_idle)\<rparr>"
proof -
  show "byte_read w (w_hw w) ack = ch_mem c ! ch_ptr c"
    using chip_on_answer [OF assms(1)] assms(2) by (simp add: byte_read_def byte_in_def chip_answer_def)
  show "chip_step e cyc c (byte_in ack) = c\<lparr>ch_ptr := (ch_ptr c + 1) mod length (ch_mem c), ch_phase := (if ack then Ph_read else Ph_idle)\<rparr>"
    using assms(2) by (simp add: byte_in_def chip_byte_def)
qed

lemma chip_gives_data:
  assumes "chip_on e cyc c w" "ch_phase c = Ph_read" "0 < n" "ch_ptr c + n \<le> length (ch_mem c)"
  shows "bytes_read w (w_hw w) n = take n (drop (ch_ptr c) (ch_mem c))"
    and "foldl (chip_step e cyc) c (read_items n) = c\<lparr>ch_ptr := (ch_ptr c + n) mod length (ch_mem c), ch_phase := Ph_idle\<rparr>"
proof -
  have "bytes_read w (w_hw w) n = take n (drop (ch_ptr c) (ch_mem c)) \<and>
    foldl (chip_step e cyc) c (read_items n) = c\<lparr>ch_ptr := (ch_ptr c + n) mod length (ch_mem c), ch_phase := Ph_idle\<rparr>"
    using assms
  proof (induction n arbitrary: c w)
    case (Suc n)
    note step = byte_read_chip [OF Suc.prems(1,2)]
    have lt: "ch_ptr c < length (ch_mem c)"
      using Suc.prems(4) by simp
    have hd: "take (Suc n) (drop (ch_ptr c) (ch_mem c)) = ch_mem c ! ch_ptr c # take n (drop (ch_ptr c + 1) (ch_mem c))"
      using lt by (simp add: Cons_nth_drop_Suc [symmetric])
    show ?case
    proof (cases "n = 0")
      case True
      then show ?thesis
        using step lt hd by simp
    next
      case False
      have small: "(ch_ptr c + 1) mod length (ch_mem c) = ch_ptr c + 1"
        using False Suc.prems(4) by simp
      let ?c = "c\<lparr>ch_ptr := ch_ptr c + 1, ch_phase := Ph_read\<rparr>"
      have "chip_on e cyc ?c (hw_do (item_events (byte_in True)) w)"
        using chip_on_item [OF Suc.prems(1), of "byte_in True"] unfolding step(2) small by simp
      from Suc.IH [OF this] False Suc.prems(4)
      have "bytes_read w (w_hw w @ item_events (byte_in True)) n = take n (drop (ch_ptr c + 1) (ch_mem c))"
        "foldl (chip_step e cyc) ?c (read_items n) = c\<lparr>ch_ptr := (ch_ptr c + Suc n) mod length (ch_mem c), ch_phase := Ph_idle\<rparr>"
        by simp_all
      then show ?thesis
        using False step small hd by simp
    qed
  qed simp
  then show "bytes_read w (w_hw w) n = take n (drop (ch_ptr c) (ch_mem c))"
    "foldl (chip_step e cyc) c (read_items n) = c\<lparr>ch_ptr := (ch_ptr c + n) mod length (ch_mem c), ch_phase := Ph_idle\<rparr>"
    by simp_all
qed

subsection \<open>Addressing\<close>

text \<open>A chip of the table at a usable address; 24X1025 is the one device with another place for the block bit.\<close>

definition chip_ok :: "eeprom_info \<Rightarrow> bool" where
  "chip_ok e \<longleftrightarrow> ei_device e \<in> set i2c_eeprom_devices \<and> dv_block_select_offset (ei_device e) = 0 \<and>
     unat (ei_device_address e) < 128 \<and> unat (ei_device_address e) mod chip_blocks e = 0"

lemma device_facts:
  assumes "chip_ok e"
  shows "device_wf (ei_device e)" "address_bytes e = 1 \<or> address_bytes e = 2"
    "chip_blocks e \<in> {1, 2, 4, 8}" "size_bytes e \<le> 256 ^ address_bytes e * chip_blocks e" "page_bytes e \<le> 256"
  using assms
  by (auto simp: chip_ok_def i2c_eeprom_devices_def i2c_device_def device_wf_def chip_blocks_def Let_def)

lemma or_block:
  assumes "unat base < 128" "unat base mod k = 0" "unat blk < k" "k \<in> {1, 2, 4, 8}"
  shows "unat (base OR blk :: u8) = unat base + unat blk"
proof -
  obtain j where j: "k = 2 ^ j" "j \<le> 3"
  proof -
    have "k = 2 ^ 0 \<or> k = 2 ^ 1 \<or> k = 2 ^ 2 \<or> k = 2 ^ 3"
      using assms(4) by auto
    then show thesis
      using that [of 0] that [of 1] that [of 2] that [of 3] by auto
  qed
  have "take_bit j base = 0"
    using assms(2) j(1) by (simp only: unat_eq_0 [symmetric] unsigned_take_bit_eq) (simp add: take_bit_eq_mod)
  then have base: "base = push_bit j (drop_bit j base)"
    using bits_ident [of j base] by simp
  have blk: "blk = of_nat (unat blk)"
    by simp
  have "base OR blk = drop_bit j base * 2 ^ j + of_nat (unat blk)"
    using push_or_digit [of "unat blk" j "drop_bit j base"] assms(3) j(1) base by simp
  also have "drop_bit j base * 2 ^ j = base"
    using base by (simp add: push_bit_eq_mult)
  finally have "base OR blk = base + blk"
    by simp
  moreover have "unat base + unat blk < 256"
    using assms(1,3,4) by auto
  ultimately show ?thesis
    by (simp add: unat_word_ariths)
qed

lemma control_byte:
  assumes "chip_ok e" "unat blk < chip_blocks e"
  defines "ctl \<equiv> push_bit 1 (ei_device_address e OR blk)"
  shows "unat ctl = 2 * (unat (ei_device_address e) + unat blk)" "unat (ctl OR 1) = 2 * (unat (ei_device_address e) + unat blk) + 1"
    "chip_selects e ctl = Some (unat blk)" "chip_selects e (ctl OR 1) = Some (unat blk)"
proof -
  let ?x = "ei_device_address e OR blk"
  have sum: "unat ?x = unat (ei_device_address e) + unat blk"
    using assms(1,2) device_facts(3) [OF assms(1)] by (intro or_block [of _ "chip_blocks e"]) (auto simp: chip_ok_def)
  have lt: "unat (ei_device_address e) + unat blk < 128"
  proof -
    have "128 mod chip_blocks e = 0"
      using device_facts(3) [OF assms(1)] by auto
    moreover have "unat (ei_device_address e) mod chip_blocks e = 0" "unat (ei_device_address e) < 128"
      using assms(1) by (simp_all add: chip_ok_def)
    ultimately obtain p q where "128 = chip_blocks e * p" "unat (ei_device_address e) = chip_blocks e * q"
      by (auto simp: mod_eq_0_iff_dvd dvd_def)
    moreover have "q < p"
      using calculation \<open>unat (ei_device_address e) < 128\<close> by (metis mult_less_cancel1)
    then have "chip_blocks e * (q + 1) \<le> chip_blocks e * p"
      by (intro mult_le_mono2) simp
    ultimately show ?thesis
      using assms(2) by simp
  qed
  show c: "unat ctl = 2 * (unat (ei_device_address e) + unat blk)"
    using lt sum by (simp add: ctl_def push_bit_eq_mult unat_word_ariths)
  have "ctl OR 1 = ctl + 1"
    using push_or_digit [of 1 1 ?x] by (simp add: ctl_def push_bit_eq_mult)
  then show r: "unat (ctl OR 1) = 2 * (unat (ei_device_address e) + unat blk) + 1"
    using lt c by (simp add: unat_word_ariths)
  show "chip_selects e ctl = Some (unat blk)"
    using assms(2) by (simp add: chip_selects_def c Let_def)
  show "chip_selects e (ctl OR 1) = Some (unat blk)"
    using assms(2) by (simp add: chip_selects_def r Let_def)
qed

lemma get_address:
  assumes "chip_ok e" "unat a < size_bytes e"
  shows "\<exists>blk arr. eeprom_get_address e a w = (Some (blk, arr), w) \<and> unat blk < chip_blocks e \<and>
    length arr = address_bytes e \<and> address_of (unat blk) arr = unat a"
proof -
  let ?n = "address_bytes e"
  have "unat a < 256 ^ ?n * chip_blocks e"
    using assms(2) device_facts(4) [OF assms(1)] by simp
  then have blk: "unat a div 256 ^ ?n < chip_blocks e"
    by (simp add: less_mult_imp_div_less mult.commute)
  moreover have "unat a div 256 ^ ?n < 256"
    using blk device_facts(3) [OF assms(1)] by auto
  moreover have "dv_block_select_offset (ei_device e) = 0"
    using assms(1) by (simp add: chip_ok_def)
  moreover obtain arr where "eeprom_get_address e a w = (Some (push_bit (unat (dv_block_select_offset (ei_device e)))
      (ucast (drop_bit (8 * ?n) a)), arr), w)" "length arr = ?n" "address_of (unat a div 256 ^ ?n) arr = unat a"
    using get_address_bytes [OF assms(2), of w] device_facts(2) [OF assms(1)] by blast
  ultimately show ?thesis
    by (intro exI [of _ "ucast (drop_bit (8 * ?n) a)"] exI [of _ arr]) (simp only: unat_block, simp)
qed

subsection \<open>Transactions with the chip\<close>

lemma chip_takes_address:
  assumes "chip_on e cyc c w" "ch_phase c = Ph_address j" "j + length bs = address_bytes e" "bs \<noteq> []"
  shows "all_acked w (w_hw w) bs"
    and "foldl (chip_step e cyc) c (map byte_out bs) = c\<lparr>ch_ptr := address_of (ch_ptr c) bs, ch_phase := Ph_data\<rparr>"
proof -
  have "all_acked w (w_hw w) bs \<and>
    foldl (chip_step e cyc) c (map byte_out bs) = c\<lparr>ch_ptr := address_of (ch_ptr c) bs, ch_phase := Ph_data\<rparr>"
    using assms
  proof (induction bs arbitrary: c w j)
    case (Cons b bs)
    note step = chip_addressed [OF Cons.prems(2), of e]
    have on: "chip_on e cyc (chip_step e cyc c (byte_out b)) (hw_do (item_events (byte_out b)) w)"
      by (rule chip_on_item [OF Cons.prems(1)])
    show ?case
    proof (cases "bs = []")
      case True
      then show ?thesis
        using Cons.prems acked_chip [OF Cons.prems(1)] step by (simp add: address_of_def)
    next
      case False
      then have "j + 1 \<noteq> address_bytes e"
        using Cons.prems(3) by (cases bs) simp_all
      then have s: "chip_step e cyc c (byte_out b) = c\<lparr>ch_ptr := ch_ptr c * 256 + unat b, ch_phase := Ph_address (j + 1)\<rparr>"
        using step(1) by simp
      have "all_acked (hw_do (item_events (byte_out b)) w) (w_hw (hw_do (item_events (byte_out b)) w)) bs \<and>
        foldl (chip_step e cyc) (chip_step e cyc c (byte_out b)) (map byte_out bs) =
          (chip_step e cyc c (byte_out b))\<lparr>ch_ptr := address_of (ch_ptr (chip_step e cyc c (byte_out b))) bs, ch_phase := Ph_data\<rparr>"
        by (rule Cons.IH [OF on, of "j + 1"]) (use s Cons.prems(3) False in simp_all)
      then show ?thesis
        using acked_chip [OF Cons.prems(1)] step(2) by (simp add: s address_of_def)
    qed
  qed simp
  then show "all_acked w (w_hw w) bs"
    "foldl (chip_step e cyc) c (map byte_out bs) = c\<lparr>ch_ptr := address_of (ch_ptr c) bs, ch_phase := Ph_data\<rparr>"
    by simp_all
qed

text \<open>The control byte to write and the address.\<close>

lemma chip_opened:
  assumes on: "chip_on e cyc c w" and ok: "chip_ok e"
    and "ch_phase c = Ph_control" "ch_busy c = 0" "unat blk < chip_blocks e" "length arr = address_bytes e"
  defines "bs \<equiv> push_bit 1 (ei_device_address e OR blk) # arr"
  shows "all_acked w (w_hw w) bs"
    and "foldl (chip_step e cyc) c (map byte_out bs) = c\<lparr>ch_ptr := address_of (unat blk) arr, ch_phase := Ph_data\<rparr>"
proof -
  let ?ctl = "push_bit 1 (ei_device_address e OR blk)" and ?c = "c\<lparr>ch_phase := Ph_address 0, ch_ptr := unat blk\<rparr>"
  note ctl = control_byte [OF ok assms(5)]
  have step: "chip_step e cyc c (byte_out ?ctl) = ?c" and ack: "acked w (w_hw w) ?ctl"
    using chip_control [OF assms(3)] assms(4) ctl(1,3) acked_chip [OF on] by auto
  have on1: "chip_on e cyc ?c (hw_do (item_events (byte_out ?ctl)) w)"
    using chip_on_item [OF on, of "byte_out ?ctl"] unfolding step .
  have arr: "0 + length arr = address_bytes e" "arr \<noteq> []"
    using assms(6) device_facts(2) [OF ok] by auto
  have "ch_phase ?c = Ph_address 0"
    by simp
  note address = chip_takes_address [OF on1 this arr]
  show "all_acked w (w_hw w) bs"
    using ack address(1) by (simp add: bs_def)
  show "foldl (chip_step e cyc) c (map byte_out bs) = c\<lparr>ch_ptr := address_of (unat blk) arr, ch_phase := Ph_data\<rparr>"
    unfolding bs_def list.map foldl_Cons step address(2) by simp
qed

lemma chip_read:
  assumes on: "chip_on e cyc c w" and ok: "chip_ok e"
    and "ch_busy c = 0" "length (ch_mem c) = size_bytes e" "0 < n" "unat a + n \<le> size_bytes e"
  shows "\<exists>w' c'. i2c_eeprom_read e a n w = (False, take n (drop (unat a) (ch_mem c)), w') \<and>
    chip_on e cyc c' w' \<and> ch_mem c' = ch_mem c \<and> ch_busy c' = 0"
proof -
  obtain blk arr where addr: "eeprom_get_address e a w = (Some (blk, arr), w)" "unat blk < chip_blocks e"
    "length arr = address_bytes e" "address_of (unat blk) arr = unat a"
    using get_address [OF ok, of a w] assms(5,6) by auto
  obtain ctl where ctl_def: "push_bit 1 (ei_device_address e OR blk) = ctl"
    by simp
  let ?bs = "ctl # arr"
  note ctl = control_byte [OF ok addr(2), unfolded ctl_def]
  define w1 where "w1 = hw_do (item_events I_start) w"
  have on1: "chip_on e cyc (c\<lparr>ch_phase := Ph_control, ch_latch := []\<rparr>) w1"
    using chip_on_item [OF on, of I_start] by (simp add: w1_def)
  note opened = chip_opened [OF on1 ok _ _ addr(2,3), unfolded ctl_def]
  have acked1: "all_acked w1 (w_hw w1) ?bs"
    using opened(1) assms(3) by simp
  have fold: "foldl (chip_step e cyc) (c\<lparr>ch_phase := Ph_control, ch_latch := []\<rparr>) (map byte_out ?bs) =
      c\<lparr>ch_ptr := unat a, ch_phase := Ph_data, ch_latch := []\<rparr>"
    using opened(2) assms(3) addr(4) by simp
  define w2 where "w2 = hw_do (items_events (map byte_out ?bs)) w1"
  have on2: "chip_on e cyc (c\<lparr>ch_ptr := unat a, ch_phase := Ph_data, ch_latch := []\<rparr>) w2"
    using chip_on_items [OF on1, of "map byte_out ?bs"] unfolding fold w2_def .
  define w3 where "w3 = hw_do (item_events I_restart) w2"
  let ?c3 = "c\<lparr>ch_ptr := unat a, ch_phase := Ph_control, ch_latch := []\<rparr>"
  have on3: "chip_on e cyc ?c3 w3"
    using chip_on_item [OF on2, of I_restart] by (simp add: w3_def)
  define w4 where "w4 = hw_do (item_events (byte_out (ctl OR 1))) w3"
  let ?c4 = "c\<lparr>ch_ptr := unat a, ch_phase := Ph_read, ch_latch := []\<rparr>"
  have "ch_phase ?c3 = Ph_control"
    by simp
  note control = chip_control [OF this]
  have c4: "chip_step e cyc ?c3 (byte_out (ctl OR 1)) = ?c4" and ack3: "acked w3 (w_hw w3) (ctl OR 1)"
    using control ctl(2,4) assms(3) acked_chip [OF on3] by auto
  have on4: "chip_on e cyc ?c4 w4"
    using chip_on_item [OF on3, of "byte_out (ctl OR 1)"] unfolding c4 w4_def .
  define w5 where "w5 = hw_do (items_events (read_items n)) w4"
  have "ch_phase ?c4 = Ph_read" "ch_ptr ?c4 + n \<le> length (ch_mem ?c4)"
    using assms(4,6) by simp_all
  note data = chip_gives_data [OF on4 this(1) assms(5) this(2)]
  let ?c5 = "foldl (chip_step e cyc) ?c4 (read_items n)"
  have on5: "chip_on e cyc ?c5 w5"
    using chip_on_items [OF on4, of "read_items n"] unfolding w5_def .
  define w6 where "w6 = hw_do (item_events I_stop) w5"
  have on6: "chip_on e cyc (chip_step e cyc ?c5 I_stop) w6"
    using chip_on_item [OF on5, of I_stop] unfolding w6_def .
  note resp = on [THEN chip_on_responsive] on1 [THEN chip_on_responsive] on2 [THEN chip_on_responsive]
    on3 [THEN chip_on_responsive] on4 [THEN chip_on_responsive] on5 [THEN chip_on_responsive]
  have "i2c_eeprom_read e a n w = (False, take n (drop (unat a) (ch_mem c)), w6)"
    unfolding i2c_eeprom_read_def addr(1) prod.case option.case ctl_def i2c_transaction_def pio_i2c_transaction_array_repeat_start_def
    using data(1) ack3
    by (simp add: start_stop_responsive [OF resp(1)] w1_def [symmetric] write_bytes_responsive [OF resp(2) acked1] w2_def [symmetric]
        start_stop_responsive [OF resp(3)] w3_def [symmetric] write_responsive [OF resp(4)] w4_def [symmetric]
        read_bytes_responsive [OF resp(5)] w5_def [symmetric] start_stop_responsive [OF resp(6)] w6_def [symmetric]
        del: i2c_write_bytes.simps list.map items_events_simps item_events.simps)
  then show ?thesis
    using on6 assms(3) unfolding data(2) by (intro exI [of _ w6] exI) (auto simp: chip_stop_def)
qed

text \<open>Polling: a write cycle shorter than the number of polls ends.\<close>

lemma chip_poll:
  assumes "chip_ok e" "chip_on e cyc c w" "ch_busy c < n"
  shows "\<exists>w' c'. i2c_eeprom_poll n e w = (False, w') \<and> chip_on e cyc c' w' \<and> ch_mem c' = ch_mem c \<and> ch_busy c' = 0"
  using assms(2,3)
proof (induction n arbitrary: c w)
  case (Suc n)
  obtain ctl where ctl_def: "push_bit 1 (ei_device_address e) = ctl"
    by simp
  have blocks: "unat (0 :: u8) < chip_blocks e"
    using device_facts(3) [OF assms(1)] by auto
  note ctl = control_byte [OF assms(1) blocks, unfolded or.right_neutral ctl_def]
  define w1 where "w1 = hw_do (item_events I_start) w"
  let ?c1 = "c\<lparr>ch_phase := Ph_control, ch_latch := []\<rparr>"
  have on1: "chip_on e cyc ?c1 w1"
    using chip_on_item [OF Suc.prems(1), of I_start] by (simp add: w1_def)
  have "ch_phase ?c1 = Ph_control"
    by simp
  note control = chip_control [OF this]
  define w2 where "w2 = hw_do (item_events (byte_out ctl)) w1"
  let ?c2 = "chip_step e cyc ?c1 (byte_out ctl)"
  have on2: "chip_on e cyc ?c2 w2"
    using chip_on_item [OF on1, of "byte_out ctl"] unfolding w2_def .
  define w3 where "w3 = hw_do (item_events I_stop) w2"
  let ?c3 = "chip_step e cyc ?c2 I_stop"
  have on3: "chip_on e cyc ?c3 w3"
    using chip_on_item [OF on2, of I_stop] unfolding w3_def .
  have c3: "ch_mem ?c3 = ch_mem c" "ch_busy ?c3 = ch_busy c - 1"
    using ctl(1,3) by (auto simp: control(1) chip_stop_def)
  have acked: "acked w1 (w_hw w1) ctl \<longleftrightarrow> ch_busy c = 0"
    using acked_chip [OF on1, of ctl] control(2) ctl(3) by simp
  note resp = Suc.prems(1) [THEN chip_on_responsive] on1 [THEN chip_on_responsive] on2 [THEN chip_on_responsive]
  have array: "pio_i2c_write_array_timeout ctl [] 0xFFFFF w = (if ch_busy c = 0 then HWI2C_OK else HWI2C_NACK, w3)"
    by (simp add: pio_i2c_write_array_timeout_def start_stop_responsive [OF resp(1)] w1_def [symmetric]
        write_responsive [OF resp(2)] acked w2_def [symmetric] start_stop_responsive [OF resp(3)] w3_def [symmetric]
        del: item_events.simps)
  have step: "i2c_eeprom_poll (Suc n) e w = (if ch_busy c = 0 then (False, w3) else i2c_eeprom_poll n e w3)"
    unfolding i2c_eeprom_poll.simps ctl_def array by simp
  show ?case
  proof (cases "ch_busy c = 0")
    case True
    then show ?thesis
      unfolding step using on3 c3 by (intro exI [of _ w3] exI [of _ ?c3]) simp
  next
    case False
    then have "ch_busy ?c3 < n"
      using Suc.prems(2) c3(2) by simp
    from Suc.IH [OF on3 this] show ?thesis
      unfolding step using False c3(1) by (simp del: chip_step.simps)
  qed
qed simp

text \<open>A page written: the rest of a partial page is read first and written back.\<close>

lemma chip_write_page:
  assumes on: "chip_on e cyc c w" and ok: "chip_ok e" and "cyc < 0xFFFFF"
    and "ch_busy c = 0" "length (ch_mem c) = size_bytes e"
    and "page_bytes e dvd unat a" "unat a + page_bytes e \<le> size_bytes e" "length page = page_bytes e" "0 < n" "n \<le> page_bytes e"
  shows "\<exists>w' c'. i2c_eeprom_write_page e a page n w =
      (False, splice (take (page_bytes e) (drop (unat a) (ch_mem c))) 0 (take n page), w') \<and>
    chip_on e cyc c' w' \<and> ch_mem c' = splice (ch_mem c) (unat a) (take n page) \<and> ch_busy c' = 0"
proof -
  let ?pg = "page_bytes e"
  have pos: "0 < ?pg"
    using device_facts(1) [OF ok] by (simp add: device_wf_def Let_def)
  obtain blk arr where addr: "\<And>w. eeprom_get_address e a w = (Some (blk, arr), w)" "unat blk < chip_blocks e"
    "length arr = address_bytes e" "address_of (unat blk) arr = unat a"
  proof -
    obtain blk arr where b: "eeprom_get_address e a w = (Some (blk, arr), w)" "unat blk < chip_blocks e"
      "length arr = address_bytes e" "address_of (unat blk) arr = unat a"
      using get_address [OF ok, of a w] assms(7) pos by auto
    have "eeprom_get_address e a w' = (Some (blk, arr), w')" for w'
      using b(1) by (auto simp: eeprom_get_address_def Let_def split: if_splits)
    then show thesis
      using that b by blast
  qed
  obtain ctl where ctl_def: "push_bit 1 (ei_device_address e OR blk) = ctl"
    by simp
  define old where "old = take ?pg (drop (unat a) (ch_mem c))"
  define page' where "page' = splice old 0 (take n page)"
  have old: "length old = ?pg"
    using assms(5,7) by (simp add: old_def)
  have p': "length page' = ?pg"
    using old assms(8,10) by (simp add: page'_def)
  obtain w0 c0 where first: "(if n < ?pg
       then (case i2c_eeprom_read e a ?pg w of (err, existing_page, w2) \<Rightarrow>
               if err then (True, page, w2) else (False, splice page n (drop n existing_page), w2))
       else (False, page, w)) = (False, page', w0)"
    and on0: "chip_on e cyc c0 w0" and c0: "ch_mem c0 = ch_mem c" "ch_busy c0 = 0"
  proof (cases "n < ?pg")
    case True
    obtain w' c' where r: "i2c_eeprom_read e a ?pg w = (False, old, w')" "chip_on e cyc c' w'" "ch_mem c' = ch_mem c" "ch_busy c' = 0"
      using chip_read [OF on ok assms(4,5) pos assms(7)] unfolding old_def by blast
    have "splice page n (drop n old) = page'"
      using True old assms(8) by (simp add: splice_def page'_def)
    then show thesis
      using True r by (intro that [of w' c']) simp_all
  next
    case False
    then have "page = page'"
      using assms(8,10) old by (simp add: page'_def splice_def)
    then show thesis
      using False on assms(4) by (intro that [of w c]) simp_all
  qed
  define w1 where "w1 = hw_do (item_events I_start) w0"
  have on1: "chip_on e cyc (c0\<lparr>ch_phase := Ph_control, ch_latch := []\<rparr>) w1"
    using chip_on_item [OF on0, of I_start] by (simp add: w1_def)
  note opened = chip_opened [OF on1 ok _ _ addr(2,3), unfolded ctl_def]
  let ?bs = "ctl # arr"
  have fold: "foldl (chip_step e cyc) (c0\<lparr>ch_phase := Ph_control, ch_latch := []\<rparr>) (map byte_out ?bs) =
      c0\<lparr>ch_ptr := unat a, ch_phase := Ph_data, ch_latch := []\<rparr>"
    using opened(2) c0(2) addr(4) by simp
  define w2 where "w2 = hw_do (items_events (map byte_out ?bs)) w1"
  let ?c2 = "c0\<lparr>ch_ptr := unat a, ch_phase := Ph_data, ch_latch := []\<rparr>"
  have on2: "chip_on e cyc ?c2 w2"
    using chip_on_items [OF on1, of "map byte_out ?bs"] unfolding fold w2_def .
  have "ch_phase ?c2 = Ph_data"
    by simp
  note data = chip_takes_data [OF on2 this, of page']
  define w3 where "w3 = hw_do (items_events (map byte_out page')) w2"
  let ?c3 = "?c2\<lparr>ch_latch := page'\<rparr>"
  have on3: "chip_on e cyc ?c3 w3"
    using chip_on_items [OF on2, of "map byte_out page'"] unfolding data(2) w3_def by simp
  define w4 where "w4 = hw_do (item_events I_stop) w3"
  let ?c4 = "chip_step e cyc ?c3 I_stop"
  have on4: "chip_on e cyc ?c4 w4"
    using chip_on_item [OF on3, of I_stop] unfolding w4_def .
  have "unat a mod ?pg = 0"
    using assms(6) by simp
  then have prog: "page_program ?pg (unat a) page' (ch_mem c) = splice (ch_mem c) (unat a) page'"
    using p' assms(5,7) by (intro page_program_inside) simp_all
  have "splice (ch_mem c) (unat a) page' = splice (ch_mem c) (unat a) (take n page)"
    unfolding page'_def old_def using assms(5,7,10) by (intro splice_refresh) simp_all
  then have c4: "ch_mem ?c4 = splice (ch_mem c) (unat a) (take n page)" "ch_busy ?c4 = cyc"
    using prog p' pos c0(1) by (auto simp: chip_stop_def)
  obtain w5 c5 where poll: "i2c_eeprom_poll_busy e w4 = (False, w5)" "chip_on e cyc c5 w5" "ch_mem c5 = ch_mem ?c4" "ch_busy c5 = 0"
    using chip_poll [OF ok on4, where n = "0xFFFFF"] c4(2) assms(3) unfolding i2c_eeprom_poll_busy_def by auto
  note resp = on0 [THEN chip_on_responsive] on1 [THEN chip_on_responsive] on3 [THEN chip_on_responsive]
  have acks: "all_acked w1 (w_hw w1) (?bs @ page')"
  proof -
    have app: "all_acked v h (xs @ ys) \<longleftrightarrow> all_acked v h xs \<and> all_acked v (h @ items_events (map byte_out xs)) ys" for v h xs ys
      by (induction xs arbitrary: h) auto
    have "all_acked w1 (w_hw w1) ?bs"
      using opened(1) c0(2) by simp
    moreover have "all_acked w1 (w_hw w1 @ items_events (map byte_out ?bs)) page'"
      using data(1) by (simp add: w2_def del: list.map items_events_simps)
    ultimately show ?thesis
      unfolding app by simp
  qed
  have w3: "hw_do (items_events (map byte_out (?bs @ page'))) w1 = w3"
    by (simp add: w3_def w2_def hw_do_append)
  have bytes: "ctl # arr @ take ?pg page' = ?bs @ page'"
    using p' by simp
  have "i2c_eeprom_write_page e a page n w = (False, page', w5)"
    unfolding i2c_eeprom_write_page_def addr(1) prod.case option.case first if_False ctl_def bytes
    by (simp add: start_stop_responsive [OF resp(1)] w1_def [symmetric] write_bytes_responsive [OF resp(2) acks] w3 [unfolded map_append]
        start_stop_responsive [OF resp(3)] w4_def [symmetric] poll(1)
        del: i2c_write_bytes.simps append_Cons list.map items_events_simps item_events.simps)
  then show ?thesis
    using poll(2,3,4) c4(1) by (auto simp: page'_def old_def)
qed

subsection \<open>The contract holds for the 24X chips\<close>

text \<open>A chip of the table with contents \<open>m\<close>, not in a write cycle; write cycles are shorter than the polling.\<close>

definition chip_holds :: "eeprom_info \<Rightarrow> nat \<Rightarrow> bytes \<Rightarrow> world \<Rightarrow> bool" where
  "chip_holds e cyc m w \<longleftrightarrow> chip_ok e \<and> cyc < 0xFFFFF \<and> length m = size_bytes e \<and>
     (\<exists>c. chip_on e cyc c w \<and> ch_mem c = m \<and> ch_busy c = 0)"

lemma chip_read_law:
  assumes "chip_holds e cyc m w" "0 < n" "unat a + n \<le> length m"
  shows "\<exists>w'. i2c_eeprom_read e a n w = (False, take n (drop (unat a) m), w') \<and> chip_holds e cyc m w'"
proof -
  obtain c where c: "chip_on e cyc c w" "ch_mem c = m" "ch_busy c = 0"
    and ok: "chip_ok e" "cyc < 0xFFFFF" "length m = size_bytes e"
    using assms(1) by (auto simp: chip_holds_def)
  then show ?thesis
    using chip_read [OF c(1) ok(1) c(3), of n a] assms(2,3) by (auto simp: chip_holds_def)
qed

lemma chip_write_law:
  assumes "chip_holds e cyc m w" "page_bytes e dvd unat a" "unat a + page_bytes e \<le> length m"
    and "length page = page_bytes e" "0 < n" "n \<le> page_bytes e"
  shows "\<exists>w'. i2c_eeprom_write_page e a page n w = (False, splice (take (page_bytes e) (drop (unat a) m)) 0 (take n page), w') \<and>
    chip_holds e cyc (splice m (unat a) (take n page)) w'"
proof -
  obtain c where c: "chip_on e cyc c w" "ch_mem c = m" "ch_busy c = 0"
    and ok: "chip_ok e" "cyc < 0xFFFFF" "length m = size_bytes e"
    using assms(1) by (auto simp: chip_holds_def)
  have "unat a + length (take n page) \<le> length m"
    using assms(3,4,6) by simp
  then show ?thesis
    using chip_write_page [OF c(1) ok(1,2) c(3), of a page n] assms(2-) ok c(2) by (auto simp: chip_holds_def)
qed

text \<open>The name of the file does not matter to the chip.\<close>

lemma chip_holds_name [simp]: "chip_holds (e\<lparr>ei_file_name := n\<rparr>) cyc = chip_holds e cyc"
proof -
  let ?e = "e\<lparr>ei_file_name := n\<rparr>"
  have "chip_selects ?e = chip_selects e"
    by (simp add: fun_eq_iff chip_selects_def chip_blocks_def)
  then have "chip_step ?e cyc = chip_step e cyc" "chip_answer ?e = chip_answer e"
  proof -
    assume sel: "chip_selects ?e = chip_selects e"
    have "chip_step ?e cyc c i = chip_step e cyc c i" for c i
      by (cases i) (simp_all add: chip_byte_def chip_stop_def sel Let_def cong: chip_phase.case_cong)
    then show "chip_step ?e cyc = chip_step e cyc"
      by (simp add: fun_eq_iff)
    have "chip_acks ?e c b = chip_acks e c b" for c b
      by (cases "ch_phase c") (simp_all add: chip_acks_def sel)
    then show "chip_answer ?e = chip_answer e"
      by (simp add: fun_eq_iff chip_answer_def)
  qed
  then have "chip_on ?e cyc c w = chip_on e cyc c w" for c w
    unfolding chip_on_def by simp
  then show ?thesis
    by (simp add: fun_eq_iff chip_holds_def chip_ok_def chip_blocks_def)
qed

interpretation x24: eeprom_memory i2c_eeprom_hal e "chip_holds e cyc" for e cyc
proof unfold_locales
  show "chip_holds e cyc m w \<Longrightarrow> device_wf (ei_device e)" for m w
    by (auto simp: chip_holds_def device_facts)
  show "chip_holds e cyc m w \<Longrightarrow> length m = size_bytes e" for m w
    by (simp add: chip_holds_def)
  show "chip_holds e cyc m w \<Longrightarrow> chip_holds e cyc m (term_out ts w)" for m w ts
    unfolding chip_holds_def by (blast intro: chip_on_print)
  show "chip_holds e cyc m w \<Longrightarrow> 0 < n \<Longrightarrow> unat a + n \<le> length m \<Longrightarrow>
      \<exists>w'. hal_read i2c_eeprom_hal e a n w = (False, take n (drop (unat a) m), w') \<and> chip_holds e cyc m w'" for m w n a
    by (simp add: i2c_eeprom_hal_def chip_read_law)
  show "chip_holds e cyc m w \<Longrightarrow> page_bytes e dvd unat a \<Longrightarrow> unat a + page_bytes e \<le> length m \<Longrightarrow>
      length page = page_bytes e \<Longrightarrow> 0 < n \<Longrightarrow> n \<le> page_bytes e \<Longrightarrow>
      \<exists>w'. hal_write_page i2c_eeprom_hal e a page n w = (False, splice (take (page_bytes e) (drop (unat a) m)) 0 (take n page), w') \<and>
        chip_holds e cyc (splice m (unat a) (take n page)) w'" for m w a page n
    by (simp add: i2c_eeprom_hal_def chip_write_law)
qed

subsection \<open>Properties\<close>

text \<open>C37: Writing a buffer of any length to a 24X chip succeeds and leaves its bytes in the memory, the
  rest of the memory as it was; verifying against a buffer then succeeds exactly when the memory and
  the buffer agree on the bytes they share. Every write cycle is waited for.
\<close>

theorem i2c_buffer_written:
  assumes "chip_holds e cyc m (eep_world s)" "256 \<le> length work"
  shows "\<exists>work1 s1. eeprom_write_from_buffer i2c_eeprom_hal e src work s = (False, work1, s1) \<and>
    chip_holds e cyc (take (size_bytes e) src @ drop (length src) m) (eep_world s1) \<and>
    (\<forall>ref. \<exists>work2 s2. eeprom_verify_against_buffer i2c_eeprom_hal e ref work1 s1 =
        (take (length ref) (take (size_bytes e) src @ drop (length src) m) \<noteq> take (size_bytes e) ref, work2, s2) \<and>
      chip_holds e cyc (take (size_bytes e) src @ drop (length src) m) (eep_world s2))"
proof -
  let ?m = "take (size_bytes e) src @ drop (length src) m"
  have le: "block_bytes e \<le> length work"
    using block_le [of e] assms(2) by simp
  have "x24.holding e cyc m s"
    using assms(1) by (simp add: x24.holding_def)
  from x24.write_from_buffer_ok [OF this le, of src] obtain work1 s1 where
    w: "eeprom_write_from_buffer i2c_eeprom_hal e src work s = (False, work1, s1)" "length work1 = length work"
      "x24.holding e cyc ?m s1"
    by blast
  have "\<exists>work2 s2. eeprom_verify_against_buffer i2c_eeprom_hal e ref work1 s1 =
      (take (length ref) ?m \<noteq> take (size_bytes e) ref, work2, s2) \<and> chip_holds e cyc ?m (eep_world s2)" for ref
    using x24.verify_against_buffer_exact [OF w(3), of work1 ref] w(2) le by (auto simp: x24.holding_def)
  then show ?thesis
    using w by (auto simp: x24.holding_def)
qed

text \<open>C38: The erase action leaves 0xFF in every byte of a 24X chip, also when it verifies them afterwards; the test action
  leaves its second pattern. Both return false, which is what the code (\<open>return false; // success\<close>) and its callers take for
  no error, while \<^verbatim>\<open>eeprom_base.h\<close> documents true.
\<close>

theorem i2c_erase_and_test:
  assumes "chip_holds e cyc m (eep_world s)" "256 \<le> length buf" "256 \<le> length vbuf"
  shows "(\<exists>buf1 vbuf1 s1. eeprom_action_erase fs i2c_eeprom_hal e buf vbuf verify s = (False, buf1, vbuf1, s1) \<and>
      chip_holds e cyc (replicate (size_bytes e) 0xFF) (eep_world s1)) \<and>
    (\<exists>buf1 vbuf1 s1. eeprom_action_test fs i2c_eeprom_hal e buf vbuf s = (False, buf1, vbuf1, s1) \<and>
      chip_holds e cyc (map (\<lambda>i. if even i then 0x55 else 0xAA) [0..<size_bytes e]) (eep_world s1))"
proof (intro conjI)
  have le: "block_bytes e \<le> length vbuf"
    using block_le [of e] assms(3) by simp
  have h: "x24.holding e cyc m s"
    using assms(1) by (simp add: x24.holding_def)
  from x24.action_erase_ok [OF h assms(2) le, of fs verify]
  show "\<exists>buf1 vbuf1 s1. eeprom_action_erase fs i2c_eeprom_hal e buf vbuf verify s = (False, buf1, vbuf1, s1) \<and>
      chip_holds e cyc (replicate (size_bytes e) 0xFF) (eep_world s1)"
    by (auto simp: x24.holding_def)
  have ev: "even (block_bytes e)"
    using assms(1) by (auto simp: chip_holds_def chip_ok_def i2c_eeprom_devices_def i2c_device_def block_bytes_eq)
  have "concat (replicate k (take (block_bytes e) (test_pattern (length vbuf) 0x55 0xAA))) =
      map (\<lambda>i. if even i then 0x55 else 0xAA) [0..<k * block_bytes e]" for k
  proof (induction k)
    case (Suc k)
    have p: "take (block_bytes e) (test_pattern (length vbuf) 0x55 0xAA) = map (\<lambda>i. if even i then 0x55 else 0xAA) [0..<block_bytes e]"
      using le by (simp add: test_pattern_def take_map even_iff_mod_2_eq_zero)
    have "concat (replicate (Suc k) (take (block_bytes e) (test_pattern (length vbuf) 0x55 0xAA))) =
        concat (replicate k (take (block_bytes e) (test_pattern (length vbuf) 0x55 0xAA))) @
        take (block_bytes e) (test_pattern (length vbuf) 0x55 0xAA)"
      using replicate_append_same [of k "take (block_bytes e) (test_pattern (length vbuf) 0x55 0xAA)"]
      by (metis concat.simps concat_append replicate_Suc self_append_conv)
    also have "\<dots> = map (\<lambda>i. if even i then 0x55 else 0xAA) ([0..<k * block_bytes e] @ map (\<lambda>i. i + k * block_bytes e) [0..<block_bytes e])"
      unfolding Suc.IH unfolding p using ev by simp
    also have "[0..<k * block_bytes e] @ map (\<lambda>i. i + k * block_bytes e) [0..<block_bytes e] = [0..<Suc k * block_bytes e]"
      using upt_add_eq_append [of 0 "k * block_bytes e" "block_bytes e"] by (simp add: map_add_upt add.commute)
    finally show ?case .
  qed simp
  from this [of "blocks_total e"]
  have im: "x24.image e (test_pattern (length vbuf) 0x55 0xAA) = map (\<lambda>i. if even i then 0x55 else 0xAA) [0..<size_bytes e]"
    using blocks_times_bytes [OF x24.geometry [OF h]] by (simp add: x24.image_def)
  from x24.action_test_ok [OF h assms(2) le, of fs]
  show "\<exists>buf1 vbuf1 s1. eeprom_action_test fs i2c_eeprom_hal e buf vbuf s = (False, buf1, vbuf1, s1) \<and>
      chip_holds e cyc (map (\<lambda>i. if even i then 0x55 else 0xAA) [0..<size_bytes e]) (eep_world s1)"
    unfolding im by (auto simp: x24.holding_def)
qed

text \<open>C39: Writing a file to a 24X chip and reading the chip to a second file, each with the verification pass, return false,
  which is what the code and its callers take for no error (\<^verbatim>\<open>eeprom_base.h\<close> says the opposite): the memory and then the
  second file hold the bytes of the first, as far as the memory reaches, and the rest of the memory stays; no other file changes and
  no file is left open. Verifying against a file returns true, an error, exactly when file and memory differ in the bytes
  they share. When they agree \<open>Verify complete\<close> is printed last and the call ends without a return statement, so that its
  value is undefined (\<open>None\<close>).
\<close>

theorem i2c_file_round_trip:
  assumes "chip_holds e cyc m (eep_world s)" "256 \<le> length buf" "256 \<le> length vbuf"
    and "fatfs_contract fs view cap" "size_bytes e \<le> cap" "view (eep_fs s) = (files, None)" "files (ei_file_name e) = Some c"
  defines "m1 \<equiv> take (size_bytes e) c @ drop (length c) m"
  shows "\<exists>buf1 vbuf1 s1. eeprom_action_write fs i2c_eeprom_hal e buf vbuf True s = (False, buf1, vbuf1, s1) \<and>
    view (eep_fs s1) = (files, None) \<and> chip_holds e cyc m1 (eep_world s1) \<and>
    (\<exists>buf2 vbuf2 s2. eeprom_action_read fs i2c_eeprom_hal (e\<lparr>ei_file_name := name\<rparr>) buf1 vbuf1 True s1 = (False, buf2, vbuf2, s2) \<and>
      view (eep_fs s2) = (files(name \<mapsto> m1), None) \<and> chip_holds e cyc m1 (eep_world s2)) \<and>
    (\<forall>d. files name = Some d \<longrightarrow>
      (\<exists>buf2 vbuf2 s2. eeprom_action_verify fs i2c_eeprom_hal (e\<lparr>ei_file_name := name\<rparr>) buf1 vbuf1 s1 =
        (if take (length d) m1 = take (size_bytes e) d then None else Some True, buf2, vbuf2, s2) \<and>
        (take (length d) m1 = take (size_bytes e) d \<longrightarrow> (\<exists>s3. s2 = eeprom_msg (crlf @ ''Verify complete'' @ crlf) s3)) \<and>
        view (eep_fs s2) = (files, None) \<and> chip_holds e cyc m1 (eep_world s2)))"
proof -
  let ?e = "e\<lparr>ei_file_name := name\<rparr>"
  have le: "block_bytes e \<le> length buf" "block_bytes e \<le> length vbuf"
    using block_le [of e] assms(2,3) by simp_all
  have h: "x24.holding e cyc m s"
    using assms(1) by (simp add: x24.holding_def)
  obtain buf1 vbuf1 s1 where w: "eeprom_action_write fs i2c_eeprom_hal e buf vbuf True s = (False, buf1, vbuf1, s1)"
    "length buf1 = length buf" "length vbuf1 = length vbuf" "view (eep_fs s1) = (files, None)" "chip_holds e cyc m1 (eep_world s1)"
    using x24.action_write_ok [OF assms(4,7) h le assms(6), of True] by (auto simp: x24.holding_def m1_def)
  have h1: "x24.holding ?e cyc m1 s1"
    using w(5) by (simp add: x24.holding_def)
  have le1: "block_bytes ?e \<le> length buf1" "block_bytes ?e \<le> length vbuf1" and cap: "size_bytes ?e \<le> cap"
    using block_le [of ?e] w(2,3) assms(2,3,5) by simp_all
  obtain buf2 vbuf2 s2 where r: "eeprom_action_read fs i2c_eeprom_hal ?e buf1 vbuf1 True s1 = (False, buf2, vbuf2, s2)"
    "view (eep_fs s2) = (files(name \<mapsto> m1), None)" "chip_holds e cyc m1 (eep_world s2)"
    using x24.action_read_ok [OF assms(4) cap h1 le1 w(4), of True] by (auto simp: x24.holding_def simp del: fun_upd_apply)
  have "\<exists>buf2 vbuf2 s2. eeprom_action_verify fs i2c_eeprom_hal ?e buf1 vbuf1 s1 =
      (if take (length d) m1 = take (size_bytes e) d then None else Some True, buf2, vbuf2, s2) \<and>
      (take (length d) m1 = take (size_bytes e) d \<longrightarrow> (\<exists>s3. s2 = eeprom_msg (crlf @ ''Verify complete'' @ crlf) s3)) \<and>
      view (eep_fs s2) = (files, None) \<and> chip_holds e cyc m1 (eep_world s2)" if "files name = Some d" for d
    using x24.action_verify_exact [OF assms(4) _ h1 le1 w(4), of d] that by (simp add: x24.holding_def)
  then show ?thesis
    using w(1,4,5) r by blast
qed

text \<open>
  The one device left out. A 24X1025 takes the upper half of its memory at the address 1010 1xx, its
  block bit is bit 2 of the address; the table shifts the block to bit 3, so the driver calls 0x58, which
  is not an address of the chip.
\<close>

lemma i2c_1025_upper_half:
  assumes "ei_device e = i2c_device ''24X1025'' 131072 2 1 3 128" "65536 \<le> unat a" "unat a < 131072"
  shows "\<exists>arr. eeprom_get_address e a w = (Some (8, arr), w)"
proof -
  have "unat (drop_bit 16 a) = 1"
    using assms(2,3) unfolding unat_drop by (simp add: div_nat_eqI)
  then have d: "drop_bit 16 a = 1"
    by (simp only: word_unat_eq_iff) simp
  have "\<not> 131072 \<le> a"
    using assms(3) by (simp add: word_le_nat_alt)
  then show ?thesis
    by (simp add: eeprom_get_address_def Let_def assms(1) i2c_device_def d del: push_bit_Suc)
qed

subsection \<open>A concrete chip\<close>

text \<open>The items of a list of events, and the world in which the chip answers to them.\<close>

definition tx_word :: "hw_event \<Rightarrow> u32" where
  "tx_word ev = (case ev of PioTx v \<Rightarrow> v | _ \<Rightarrow> 0)"

fun decode :: "hw_event list \<Rightarrow> i2c_item list" where
  "decode [] = []"
| "decode (ev # h) =
     (if ev = PioDrainRx then (if length h < 2 then [] else I_xfer (tx_word (hd h)) # decode (drop 2 h))
      else if tx_word ev = ucast (hd i2c_start_words) then I_start # decode (drop 2 h)
      else if tx_word ev = ucast (hd i2c_stop_words) then I_stop # decode (drop 3 h)
      else I_restart # decode (drop 4 h))"

lemma decode_items: "decode (items_events is @ [PioDrainRx, PioTx v]) = is"
proof (induction "is")
  case (Cons i "is")
  then show ?case
    by (cases i) (simp_all add: i2c_start_words_def i2c_stop_words_def i2c_restart_words_def icount_def tx_word_def)
qed simp

definition chip_world :: "eeprom_info \<Rightarrow> nat \<Rightarrow> chip \<Rightarrow> world" where
  "chip_world e cyc c = world_reset\<lparr>w_pio_in := (\<lambda>h. chip_answer e (foldl (chip_step e cyc) c (decode h)) (tx_word (last h)))\<rparr>"

lemma chip_on_world: "chip_on e cyc c (chip_world e cyc c)"
  by (simp add: chip_on_def chip_world_def world_reset_def pio_responsive_def i2c_answer_def decode_items tx_word_def)

definition demo_chip :: eeprom_info where
  "demo_chip = \<lparr>ei_device = i2c_device ''24X01'' 128 1 0 0 8, ei_device_address = 0x50, ei_action = 2,
     ei_protect_bits = 0, ei_protect_wpen_bit = 0, ei_file_name = ''in.bin'', ei_verify_flag = True,
     ei_protect_blocks_flag = False, ei_protect_test_flag = False, ei_protect_wpen_flag = False\<rparr>"

definition demo_world :: world where
  "demo_world = chip_world demo_chip 3 \<lparr>ch_mem = replicate 128 0, ch_ptr = 0, ch_phase = Ph_idle, ch_latch = [], ch_busy = 0\<rparr>"

lemma demo_holds: "chip_holds demo_chip 3 (replicate 128 0) demo_world" "size_bytes demo_chip = 128"
proof -
  show z: "size_bytes demo_chip = 128"
    by (simp add: demo_chip_def i2c_device_def)
  have "chip_ok demo_chip"
    by (simp add: chip_ok_def demo_chip_def i2c_eeprom_devices_def chip_blocks_def i2c_device_def)
  then show "chip_holds demo_chip 3 (replicate 128 0) demo_world"
    using chip_on_world [of demo_chip 3 "\<lparr>ch_mem = replicate 128 0, ch_ptr = 0, ch_phase = Ph_idle, ch_latch = [], ch_busy = 0\<rparr>"] z
    by (auto simp: chip_holds_def demo_world_def)
qed

definition demo_state :: "(string \<rightharpoonup> bytes) \<times> (string \<times> nat) option \<Rightarrow>
    ((string \<rightharpoonup> bytes) \<times> (string \<times> nat) option) eep" where
  "demo_state f = \<lparr>eep_world = demo_world, eep_fs = f\<rparr>"

text \<open>A file system: the view itself.\<close>

definition demo_fatfs :: "((string \<rightharpoonup> bytes) \<times> (string \<times> nat) option) fatfs" where
  "demo_fatfs = \<lparr>
     f_open = (\<lambda>name create (files, h).
       if create then (True, (files(name \<mapsto> []), Some (name, 0)))
       else if files name = None then (False, (files, None)) else (True, (files, Some (name, 0)))),
     f_close = (\<lambda>(files, h). (h \<noteq> None, (files, None))),
     f_size = (\<lambda>(files, h). case h of Some (name, p) \<Rightarrow> of_nat (length (the (files name))) | None \<Rightarrow> 0),
     f_read = (\<lambda>n (files, h). case h of
         Some (name, p) \<Rightarrow> (True, take n (drop p (the (files name))), (files, Some (name, min (p + n) (length (the (files name))))))
       | None \<Rightarrow> (False, [], (files, h))),
     f_write = (\<lambda>bs (files, h). case h of
         Some (name, p) \<Rightarrow> (True, length bs, (files(name \<mapsto> take p (the (files name)) @ bs), Some (name, p + length bs)))
       | None \<Rightarrow> (False, 0, (files, h)))\<rparr>"

lemma demo_fatfs_contract: "fatfs_contract demo_fatfs id cap"
  by (simp add: fatfs_contract_def fat_opens_def fat_creates_def fat_reads_def fat_writes_def fat_closes_def demo_fatfs_def)

theorem i2c_buffer_written_witness:
  "\<exists>work1 s1. eeprom_write_from_buffer i2c_eeprom_hal demo_chip [1, 2, 3] (replicate 256 0) (demo_state (Map.empty, None)) = (False, work1, s1) \<and>
    chip_holds demo_chip 3 ([1, 2, 3] @ replicate 125 0) (eep_world s1)"
proof -
  have h: "chip_holds demo_chip 3 (replicate 128 0) (eep_world (demo_state (Map.empty, None)))"
    using demo_holds by (simp add: demo_state_def)
  have "256 \<le> length (replicate 256 (0 :: u8))"
    by simp
  from i2c_buffer_written [OF h this, of "[1, 2, 3]"] show ?thesis
    unfolding demo_holds(2) drop_replicate by auto
qed

theorem i2c_erase_and_test_witness:
  "\<exists>buf1 vbuf1 s1. eeprom_action_erase demo_fatfs i2c_eeprom_hal demo_chip (replicate 256 0) (replicate 256 0) True
      (demo_state (Map.empty, None)) = (False, buf1, vbuf1, s1) \<and>
    chip_holds demo_chip 3 (replicate 128 0xFF) (eep_world s1)"
proof -
  have h: "chip_holds demo_chip 3 (replicate 128 0) (eep_world (demo_state (Map.empty, None)))"
    using demo_holds by (simp add: demo_state_def)
  have "256 \<le> length (replicate 256 (0 :: u8))"
    by simp
  from i2c_erase_and_test [OF h this this, of demo_fatfs True] show ?thesis
    unfolding demo_holds(2) by blast
qed

theorem i2c_file_round_trip_witness:
  "\<exists>buf1 vbuf1 s1 buf2 vbuf2 s2.
    eeprom_action_write demo_fatfs i2c_eeprom_hal demo_chip (replicate 256 0) (replicate 256 0) True
      (demo_state ([''in.bin'' \<mapsto> [1, 2, 3]], None)) = (False, buf1, vbuf1, s1) \<and>
    eeprom_action_read demo_fatfs i2c_eeprom_hal (demo_chip\<lparr>ei_file_name := ''out.bin''\<rparr>) buf1 vbuf1 True s1 = (False, buf2, vbuf2, s2) \<and>
    eep_fs s2 = ([''in.bin'' \<mapsto> [1, 2, 3], ''out.bin'' \<mapsto> [1, 2, 3] @ replicate 125 0], None)"
proof -
  let ?files = "[''in.bin'' \<mapsto> [1, 2, 3 :: u8]]"
  have h: "chip_holds demo_chip 3 (replicate 128 0) (eep_world (demo_state (?files, None)))"
    and v: "id (eep_fs (demo_state (?files, None))) = (?files, None)"
    using demo_holds by (simp_all add: demo_state_def)
  have l: "256 \<le> length (replicate 256 (0 :: u8))" and f: "?files (ei_file_name demo_chip) = Some [1, 2, 3]"
    by (simp_all add: demo_chip_def)
  have m: "take (size_bytes demo_chip) [1, 2, 3] @ drop (length [1, 2, 3 :: u8]) (replicate 128 0) = [1, 2, 3 :: u8] @ replicate 125 0"
    unfolding demo_holds(2) drop_replicate by simp
  from i2c_file_round_trip [OF h l l demo_fatfs_contract order_refl v f, where name = "''out.bin''"]
  show ?thesis
    unfolding m id_apply by blast
qed

end
