(* ===== verification/Eeprom_Spi.thy ===== *)
theory Eeprom_Spi
  imports Eeprom_Memory Modes
begin

text \<open>
  The 25X EEPROMs of \<^verbatim>\<open>src/commands/eeprom/eeprom_spi.c\<close>: reading, writing a page, the status register
  and its protection bits; the documented chip as an automaton on the events of the SPI bus, which
  meets the contract of \<open>eeprom_memory\<close> while it is not protected. The 93X chips of the same file are
  not modelled.
\<close>

subsection \<open>The functions of the driver\<close>

abbreviation (input) SPI_EEPROM_WRSR_CMD :: u8 where "SPI_EEPROM_WRSR_CMD \<equiv> 0x01"
abbreviation (input) SPI_EEPROM_WRITE_CMD :: u8 where "SPI_EEPROM_WRITE_CMD \<equiv> 0x02"
abbreviation (input) SPI_EEPROM_READ_CMD :: u8 where "SPI_EEPROM_READ_CMD \<equiv> 0x03"
abbreviation (input) SPI_EEPROM_RDSR_CMD :: u8 where "SPI_EEPROM_RDSR_CMD \<equiv> 0x05"
abbreviation (input) SPI_EEPROM_WREN_CMD :: u8 where "SPI_EEPROM_WREN_CMD \<equiv> 0x06"

definition eeprom_25x_read_status_register :: "world \<Rightarrow> u8 \<times> world" where
  "eeprom_25x_read_status_register w =
     (case hwspi_write_read_cs [SPI_EEPROM_RDSR_CMD] 1 w of (ds, w1) \<Rightarrow> (hd ds, w1))"

fun eeprom_25x_poll :: "nat \<Rightarrow> world \<Rightarrow> bool \<times> world" where
  "eeprom_25x_poll 0 w = (True, w)"
| "eeprom_25x_poll (Suc n) w =
     (case eeprom_25x_read_status_register w of
        (reg, w1) \<Rightarrow> if reg AND 0x01 = 0 then (False, w1) else eeprom_25x_poll n w1)"

definition eeprom_25x_poll_busy :: "world \<Rightarrow> bool \<times> world" where
  "eeprom_25x_poll_busy w = eeprom_25x_poll 0xFFFFF w"

definition eeprom_25x_read :: "eeprom_info \<Rightarrow> u32 \<Rightarrow> nat \<Rightarrow> world \<Rightarrow> bool \<times> bytes \<times> world" where
  "eeprom_25x_read e address read_bytes w =
     (case eeprom_get_address e address w of
        (None, w1) \<Rightarrow> (True, [], w1)
      | (Some (block_select_bits, address_array), w1) \<Rightarrow>
          (case hwspi_read_n read_bytes (hwspi_write_n address_array
                  (hwspi_write (ucast (SPI_EEPROM_READ_CMD OR block_select_bits)) (hwspi_select w1))) of
             (bs, w2) \<Rightarrow> (False, bs, hwspi_deselect w2)))"

definition eeprom_25x_write_page :: "eeprom_info \<Rightarrow> u32 \<Rightarrow> bytes \<Rightarrow> nat \<Rightarrow> world \<Rightarrow> bool \<times> bytes \<times> world" where
  "eeprom_25x_write_page e address buf page_write_size w =
     (case eeprom_get_address e address w of
        (None, w1) \<Rightarrow> (True, buf, w1)
      | (Some (block_select_bits, address_array), w1) \<Rightarrow>
          (case (if page_write_size < page_bytes e
                 then (case eeprom_25x_read e address (page_bytes e) w1 of
                         (err, existing_page, w2) \<Rightarrow>
                           if err then (True, buf, w2)
                           else (False, splice buf page_write_size (drop page_write_size existing_page), w2))
                 else (False, buf, w1)) of
            (err, buf, w2) \<Rightarrow>
              if err then (True, buf, w2)
              else let w3 = snd (hwspi_write_read_cs [SPI_EEPROM_WREN_CMD] 0 w2);
                       w4 = hwspi_deselect (hwspi_write_n (take (page_bytes e) buf) (hwspi_write_n address_array
                              (hwspi_write (ucast (SPI_EEPROM_WRITE_CMD OR block_select_bits)) (hwspi_select w3))))
                in (case eeprom_25x_poll_busy w4 of (busy, w5) \<Rightarrow> (busy, buf, w5))))"

definition eeprom_25x_status_reg_print :: "u8 \<Rightarrow> world \<Rightarrow> world" where
  "eeprom_25x_status_reg_print reg =
     term_out (text_line (''Status Register: 0x'' @ hex_text 2 (unat reg)) @
       text_line (''Write Pin ENable (WPEN): '' @ (if reg AND 0x80 \<noteq> 0 then ''Enabled'' else ''Disabled'')) @
       [TText ''Block Protect Bits (BP1, BP0): '', TInt (uint (drop_bit 3 reg AND 1)), TText '', '',
        TInt (uint (drop_bit 2 reg AND 1)), TText crlf, TText ''Protection range: ''] @
       text_line (if reg AND 0xC = 0 then ''None'' else if reg AND 0xC = 4 then ''Upper 1/4''
                  else if reg AND 0xC = 8 then ''Upper 1/2'' else ''All''))"

definition eeprom_25x_write_status_register :: "u8 \<Rightarrow> world \<Rightarrow> bool \<times> world" where
  "eeprom_25x_write_status_register val w =
     (let w1 = snd (hwspi_write_read_cs [SPI_EEPROM_WREN_CMD] 0 w);
          w2 = snd (hwspi_write_read_cs [SPI_EEPROM_WRSR_CMD, val] 0 w1)
      in eeprom_25x_poll_busy w2)"

definition eeprom_25x_is_write_protect :: "eeprom_info \<Rightarrow> world \<Rightarrow> bool \<times> world" where
  "eeprom_25x_is_write_protect e w =
     (case eeprom_25x_read_status_register w of (status_reg, w1) \<Rightarrow>
        if status_reg AND 0xC \<noteq> 0
        then (True, term_out [TText crlf, TText ''Disable block write protection first: eeprom protect -d '', TStr (dv_name (ei_device e)),
                              TText '' -p 0b00'', TText crlf]
                      (eeprom_25x_status_reg_print status_reg
                        (term_out (text_line ''Error: block write protection enabled, write will fail!'' @ [TText crlf]) w1)))
        else (False, w1))"

text \<open>The two halves of \<open>eeprom_25x_probe_block_protect\<close>: the test of the bits, and their update.\<close>

definition probe_test_bits :: "world \<Rightarrow> bool \<times> world" where
  "probe_test_bits w =
     (case eeprom_25x_write_status_register 0x8C (term_out [TText crlf, TText ''Testing for BP0, BP1, WPEN...''] w) of (err, w) \<Rightarrow>
        if err then (True, w)
        else (case eeprom_25x_read_status_register w of (reg, w) \<Rightarrow>
          (False, term_out (text_line (''wrote: 0x8C, read: 0x'' @ hex_text 2 (unat reg)) @
             text_line (''BP0: '' @ (if reg AND 4 \<noteq> 0 then ''Present'' else ''Not detected'')) @
             text_line (''BP1: '' @ (if reg AND 8 \<noteq> 0 then ''Present'' else ''Not detected'')) @
             text_line (''WPEN: '' @ (if reg AND 0x80 \<noteq> 0 then ''Present'' else ''Not detected''))) w)))"

definition probe_test :: "u8 \<Rightarrow> world \<Rightarrow> bool \<times> world" where
  "probe_test reg_old w =
     (let w = term_out (TText crlf # text_line ''Testing support for Write Protect blocks (BP0, BP1) and Write Pin ENable (WPEN)'' @
                [TText crlf, TText ''Disabling write protect: '']) w in
      case eeprom_25x_write_status_register 0 w of (err, w) \<Rightarrow>
        if err then (True, w)
        else (case eeprom_25x_read_status_register w of (reg, w) \<Rightarrow>
          (case (if reg \<noteq> 0 then (False, term_out (text_line (''0x'' @ hex_text 2 (unat reg) @ '', FAILED!'')) w)
                 else probe_test_bits (term_out (text_line (''0x'' @ hex_text 2 (unat reg) @ '', OK'')) w)) of (err, w) \<Rightarrow>
            if err then (True, w)
            else (case eeprom_25x_write_status_register reg_old (term_out [TText crlf,
                         TText (''Restoring original status register: 0x'' @ hex_text 2 (unat reg_old) @ ''...'')] w) of (err, w) \<Rightarrow>
              if err then (True, w)
              else (case eeprom_25x_read_status_register w of (reg, w) \<Rightarrow>
                (False, eeprom_25x_status_reg_print reg
                  (if reg \<noteq> reg_old
                   then term_out (TText crlf # text_line (''Error: Failed to restore status register, wrote: 0x'' @ hex_text 2 (unat reg_old) @
                          '', read: 0x'' @ hex_text 2 (unat reg))) w
                   else term_out (text_line ''Done :)'') w)))))))"

definition bit_equal :: "u8 \<Rightarrow> u8 \<Rightarrow> nat \<Rightarrow> bool" where
  "bit_equal a b bitpos \<longleftrightarrow> bit a bitpos = bit b bitpos"

definition probe_bits :: "eeprom_info \<Rightarrow> u8" where
  "probe_bits e = ucast (push_bit 2 (ei_protect_bits e AND 3))"

definition probe_wpen :: "eeprom_info \<Rightarrow> u8" where
  "probe_wpen e = ucast (push_bit 7 (ei_protect_wpen_bit e AND 1))"

definition probe_value :: "eeprom_info \<Rightarrow> u8 \<Rightarrow> u8" where
  "probe_value e reg =
     (let reg = (if ei_protect_blocks_flag e then (reg AND NOT 0xC) OR probe_bits e else reg)
      in if ei_protect_wpen_flag e then (reg AND NOT 0x80) OR probe_wpen e else reg)"

definition probe_update :: "eeprom_info \<Rightarrow> world \<Rightarrow> bool \<times> world" where
  "probe_update e w =
     (case eeprom_25x_read_status_register (term_out [TText crlf] w) of (reg, w) \<Rightarrow>
        let blocks = (if ei_protect_blocks_flag e then (reg AND NOT 0xC) OR probe_bits e else reg);
            val = probe_value e reg;
            w = term_out ((if ei_protect_blocks_flag e
                           then [TText ''New Block protect bits (BP1, BP0): '', TInt (if blocks AND 8 \<noteq> 0 then 1 else 0), TText '', '',
                                 TInt (if blocks AND 4 \<noteq> 0 then 1 else 0), TText crlf] else []) @
                          (if ei_protect_wpen_flag e
                           then [TText ''New Write Pin ENable bit (WPEN): '', TInt (if val AND 0x80 \<noteq> 0 then 1 else 0), TText crlf] else []) @
                          [TText (''Updating status register (0x'' @ hex_text 2 (unat val) @ ''): '')]) w
        in case eeprom_25x_write_status_register val w of (err, w) \<Rightarrow>
          if err then (True, term_out (text_line ''Error: Failed to write status register'') w)
          else (case eeprom_25x_read_status_register w of (reg_updated, w) \<Rightarrow>
            let bp0 = (ei_protect_blocks_flag e \<longrightarrow> bit_equal reg_updated (probe_bits e) 2);
                bp1 = (ei_protect_blocks_flag e \<longrightarrow> bit_equal reg_updated (probe_bits e) 3);
                wpen = (ei_protect_wpen_flag e \<longrightarrow> bit_equal reg_updated (probe_wpen e) 7)
            in (False, eeprom_25x_status_reg_print reg_updated
                 (if \<not> bp0 \<or> \<not> bp1 \<or> \<not> wpen
                  then term_out (TText crlf # text_line (''Error updating (0x'' @ hex_text 2 (unat reg_updated) @ ''):'' @
                           (if bp1 then '''' else '' BP1'') @ (if bp0 then '''' else '' BP0'') @ (if wpen then '''' else '' WPEN'')) @
                         text_line ''Does this chip support all the protection bits?'' @
                         [TText ''To test protection bit support try: eeprom protect -d '', TStr (dv_name (ei_device e)), TText '' -t'',
                          TText crlf, TText crlf]) w
                  else term_out (text_line ''Done :)'' @ [TText crlf]) w))))"

definition eeprom_25x_probe_block_protect :: "eeprom_info \<Rightarrow> world \<Rightarrow> bool \<times> world" where
  "eeprom_25x_probe_block_protect e w =
     (case eeprom_25x_read_status_register w of (reg_old, w) \<Rightarrow>
        let w = eeprom_25x_status_reg_print reg_old w in
        case (if ei_protect_test_flag e then probe_test reg_old w else (False, w)) of (err, w) \<Rightarrow>
          if err then (True, w)
          else if ei_protect_blocks_flag e \<or> ei_protect_wpen_flag e then probe_update e w
          else (False, w))"

definition eeprom_25x_hal :: eeprom_hal where
  "eeprom_25x_hal = \<lparr>hal_read = eeprom_25x_read, hal_write_page = eeprom_25x_write_page,
     hal_is_write_protected = Some eeprom_25x_is_write_protect, hal_probe_protect = Some eeprom_25x_probe_block_protect\<rparr>"

definition spi_device :: "string \<Rightarrow> nat \<Rightarrow> nat \<Rightarrow> nat \<Rightarrow> nat \<Rightarrow> nat \<Rightarrow> nat \<Rightarrow> eeprom_device" where
  "spi_device name z n bits off pg khz = \<lparr>dv_name = name, dv_size_bytes = of_nat z, dv_address_bytes = of_nat n,
     dv_block_select_bits = of_nat bits, dv_block_select_offset = of_nat off, dv_page_bytes = of_nat pg, dv_max_speed_khz = of_nat khz\<rparr>"

text \<open>The 25X part of \<open>eeprom_devices\<close>.\<close>

definition eeprom_25x_devices :: "eeprom_device list" where
  "eeprom_25x_devices =
     [spi_device ''25X010'' 128 1 0 0 8 10000,
      spi_device ''25X020'' 256 1 0 0 8 10000,
      spi_device ''25X040'' 512 1 1 3 8 10000,
      spi_device ''25X080'' 1024 2 0 0 16 10000,
      spi_device ''25X160'' 2048 2 0 0 16 10000,
      spi_device ''25X320'' 4096 2 0 0 32 10000,
      spi_device ''25X640'' 8192 2 0 0 32 10000,
      spi_device ''25X128'' 16384 2 0 0 64 10000,
      spi_device ''25X256'' 32768 2 0 0 64 10000,
      spi_device ''25X512'' 65536 2 0 0 128 10000,
      spi_device ''25X1024'' 131072 3 0 0 256 10000,
      spi_device ''25XM01'' 131072 3 0 0 256 10000,
      spi_device ''25XM02'' 262144 3 0 0 256 5000,
      spi_device ''25XM04'' 524288 3 0 0 256 8000]"

subsection \<open>The chip\<close>

text \<open>
  The documented behaviour of a 25X EEPROM. Chip select low starts a command, chip select high ends it.
  WREN sets the write enable latch; WRITE and WRSR need it and start a write cycle, in which the chip answers
  the status only; data for a protected address is not stored. In the 512-byte chip bit 3 of the commands is the highest
  address bit. The status is \<open>WPEN 0 0 0 BP1 BP0 WEL WIP\<close>; \<open>cyc\<close> is the number of status bytes
  a write cycle outlasts. The write protect pin is not asserted.
\<close>

datatype c25_phase =
    S_off | S_cmd | S_addr bool nat | S_read | S_data | S_status | S_wren | S_wrsr "u8 option" | S_ignore

record chip25 =
  cs_mem :: "u8 list"
  cs_ptr :: nat
  cs_phase :: c25_phase
  cs_latch :: "u8 list"
  cs_busy :: nat
  cs_wel :: bool
  cs_bits :: u8

definition c25_status :: "chip25 \<Rightarrow> u8" where
  "c25_status c = cs_bits c OR (if cs_wel c then 2 else 0) OR (if 0 < cs_busy c then 1 else 0)"

definition c25_protected :: "chip25 \<Rightarrow> bool" where
  "c25_protected c \<longleftrightarrow> (let z = length (cs_mem c); bp = cs_bits c AND 0xC in
     bp = 0xC \<or> bp = 8 \<and> z div 2 \<le> cs_ptr c \<or> bp = 4 \<and> z - z div 4 \<le> cs_ptr c)"

definition c25_command :: "eeprom_info \<Rightarrow> chip25 \<Rightarrow> u8 \<Rightarrow> chip25" where
  "c25_command e c b =
     (let upper = (dv_block_select_bits (ei_device e) = 1 \<and> bit b 3); op = (if upper then b AND NOT 8 else b);
          block = (if upper then 1 else 0)
      in if b = 5 then c\<lparr>cs_phase := S_status\<rparr>
         else if 0 < cs_busy c then c\<lparr>cs_phase := S_ignore\<rparr>
         else if b = 6 then c\<lparr>cs_phase := S_wren\<rparr>
         else if b = 1 then c\<lparr>cs_phase := S_wrsr None\<rparr>
         else if op = 3 then c\<lparr>cs_phase := S_addr True 0, cs_ptr := block\<rparr>
         else if op = 2 \<and> cs_wel c then c\<lparr>cs_phase := S_addr False 0, cs_ptr := block\<rparr>
         else c\<lparr>cs_phase := S_ignore\<rparr>)"

definition c25_byte :: "eeprom_info \<Rightarrow> chip25 \<Rightarrow> u8 \<Rightarrow> chip25" where
  "c25_byte e c b =
     (case cs_phase c of
        S_cmd \<Rightarrow> c25_command e c b
      | S_addr rd j \<Rightarrow>
          c\<lparr>cs_ptr := cs_ptr c * 256 + unat b,
            cs_phase := (if j + 1 = address_bytes e then (if rd then S_read else S_data) else S_addr rd (j + 1))\<rparr>
      | S_read \<Rightarrow> c\<lparr>cs_ptr := (cs_ptr c + 1) mod length (cs_mem c)\<rparr>
      | S_data \<Rightarrow> c\<lparr>cs_latch := cs_latch c @ [b]\<rparr>
      | S_status \<Rightarrow> c\<lparr>cs_busy := cs_busy c - 1\<rparr>
      | S_wrsr None \<Rightarrow> c\<lparr>cs_phase := S_wrsr (Some b)\<rparr>
      | _ \<Rightarrow> c)"

definition c25_end :: "eeprom_info \<Rightarrow> nat \<Rightarrow> chip25 \<Rightarrow> chip25" where
  "c25_end e cyc c =
     (case cs_phase c of
        S_wren \<Rightarrow> c\<lparr>cs_wel := True, cs_phase := S_off\<rparr>
      | S_wrsr (Some b) \<Rightarrow>
          if cs_wel c then c\<lparr>cs_bits := b AND 0x8C, cs_wel := False, cs_busy := cyc, cs_phase := S_off\<rparr>
          else c\<lparr>cs_phase := S_off\<rparr>
      | S_data \<Rightarrow>
          if cs_latch c = [] then c\<lparr>cs_phase := S_off\<rparr>
          else c\<lparr>cs_mem := (if c25_protected c then cs_mem c else page_program (page_bytes e) (cs_ptr c) (cs_latch c) (cs_mem c)),
                 cs_latch := [], cs_wel := False, cs_busy := cyc, cs_phase := S_off\<rparr>
      | _ \<Rightarrow> c\<lparr>cs_phase := S_off\<rparr>)"

fun c25_step :: "eeprom_info \<Rightarrow> nat \<Rightarrow> chip25 \<Rightarrow> hw_event \<Rightarrow> chip25" where
  "c25_step e cyc c (GpioPut pin lvl) =
     (if pin \<noteq> bio2bufiopin ! M_SPI_CS then c
      else if lvl then c25_end e cyc c
      else if cs_phase c = S_off then c\<lparr>cs_phase := S_cmd, cs_latch := []\<rparr> else c)"
| "c25_step e cyc c (SpiTransfer b) = c25_byte e c b"
| "c25_step e cyc c _ = c"

definition c25_answer :: "chip25 \<Rightarrow> u8" where
  "c25_answer c = (case cs_phase c of S_read \<Rightarrow> cs_mem c ! cs_ptr c | S_status \<Rightarrow> c25_status c | _ \<Rightarrow> 0xFF)"

text \<open>The chip is on the SPI bus of the world.\<close>

definition c25_on :: "eeprom_info \<Rightarrow> nat \<Rightarrow> chip25 \<Rightarrow> world \<Rightarrow> bool" where
  "c25_on e cyc c w \<longleftrightarrow> (\<forall>es b. w_bus_in w (w_hw w @ es @ [SpiTransfer b]) = c25_answer (foldl (c25_step e cyc) c es))"

subsection \<open>Transfers with the chip\<close>

abbreviation (input) cs_event :: "bool \<Rightarrow> hw_event" where
  "cs_event lvl \<equiv> GpioPut (bio2bufiopin ! M_SPI_CS) lvl"

lemma ucast_byte [simp]: "ucast (ucast (b :: u8) :: u32) = b"
  by (rule bit_word_eqI) (auto simp: bit_simps)

lemma spi_events:
  "hwspi_select w = hw_do [cs_event False] w" "hwspi_deselect w = hw_do [cs_event True] w"
  "hwspi_write v w = hw_do [SpiTransfer (ucast v)] w" "hwspi_write_n bs w = hw_do (map SpiTransfer bs) w"
proof -
  show "hwspi_write_n bs w = hw_do (map SpiTransfer bs) w"
    unfolding hwspi_write_n_def
    by (induction bs arbitrary: w) (simp_all add: hwspi_write_def hw_do_append, simp add: hw_do_def)
qed (simp_all add: hwspi_select_def hwspi_deselect_def hwspi_write_def bio_put_def)

lemma c25_on_do:
  assumes "c25_on e cyc c w"
  shows "c25_on e cyc (foldl (c25_step e cyc) c es) (hw_do es w)"
proof -
  have "w_bus_in w (w_hw w @ (es @ es') @ [SpiTransfer b]) = c25_answer (foldl (c25_step e cyc) c (es @ es'))" for es' b
    using assms unfolding c25_on_def by blast
  then show ?thesis
    by (simp add: c25_on_def)
qed

lemma c25_on_print [simp]: "c25_on e cyc c w \<Longrightarrow> c25_on e cyc c (term_out ts w)"
  by (simp add: c25_on_def)

lemma c25_on_answer: "c25_on e cyc c w \<Longrightarrow> w_bus_in w (w_hw w @ [SpiTransfer b]) = c25_answer c"
  using spec [of "\<lambda>es. \<forall>b. w_bus_in w (w_hw w @ es @ [SpiTransfer b]) = c25_answer (foldl (c25_step e cyc) c es)" "[]"]
  by (simp add: c25_on_def)

lemma read_byte:
  assumes "c25_on e cyc c w"
  shows "hwspi_write_read 0xFF w = (ucast (c25_answer c), hw_do [SpiTransfer 0xFF] w)"
  using c25_on_answer [OF assms] by (simp add: hwspi_write_read_def Let_def)

lemma c25_gives_data:
  assumes "c25_on e cyc c w" "cs_phase c = S_read" "cs_ptr c + n \<le> length (cs_mem c)"
  shows "hwspi_read_n n w = (take n (drop (cs_ptr c) (cs_mem c)), hw_do (replicate n (SpiTransfer 0xFF)) w)"
    and "\<exists>p. foldl (c25_step e cyc) c (replicate n (SpiTransfer 0xFF)) = c\<lparr>cs_ptr := p\<rparr>"
proof -
  show "hwspi_read_n n w = (take n (drop (cs_ptr c) (cs_mem c)), hw_do (replicate n (SpiTransfer 0xFF)) w)"
    using assms
  proof (induction n arbitrary: c w)
    case 0
    then show ?case
      by (simp add: hw_do_def)
  next
    case (Suc n)
    have lt: "cs_ptr c < length (cs_mem c)"
      using Suc.prems(3) by simp
    have hd: "take (Suc n) (drop (cs_ptr c) (cs_mem c)) = cs_mem c ! cs_ptr c # take n (drop (cs_ptr c + 1) (cs_mem c))"
      using lt by (simp add: Cons_nth_drop_Suc [symmetric])
    let ?c = "c\<lparr>cs_ptr := (cs_ptr c + 1) mod length (cs_mem c)\<rparr>"
    have on: "c25_on e cyc ?c (hw_do [SpiTransfer 0xFF] w)"
      using c25_on_do [OF Suc.prems(1), of "[SpiTransfer 0xFF]"] Suc.prems(2) by (simp add: c25_byte_def)
    have byte: "hwspi_write_read 0xFF w = (ucast (cs_mem c ! cs_ptr c), hw_do [SpiTransfer 0xFF] w)"
      using read_byte [OF Suc.prems(1)] Suc.prems(2) by (simp add: c25_answer_def)
    show ?case
    proof (cases "n = 0")
      case True
      then show ?thesis
        using byte hd lt by simp
    next
      case False
      then have small: "(cs_ptr c + 1) mod length (cs_mem c) = cs_ptr c + 1"
        using Suc.prems(3) by simp
      have "hwspi_read_n n (hw_do [SpiTransfer 0xFF] w) =
          (take n (drop (cs_ptr ?c) (cs_mem ?c)), hw_do (replicate n (SpiTransfer 0xFF)) (hw_do [SpiTransfer 0xFF] w))"
        by (rule Suc.IH [OF on]) (use small False Suc.prems in simp_all)
      then show ?thesis
        using byte hd small by (simp add: hw_do_append)
    qed
  qed
  show "\<exists>p. foldl (c25_step e cyc) c (replicate n (SpiTransfer 0xFF)) = c\<lparr>cs_ptr := p\<rparr>"
    using assms(2)
  proof (induction n arbitrary: c)
    case 0
    have "c = c\<lparr>cs_ptr := cs_ptr c\<rparr>"
      by simp
    then show ?case
      by (metis foldl_Nil replicate_0)
  next
    case (Suc n)
    from Suc.IH [of "c\<lparr>cs_ptr := (cs_ptr c + 1) mod length (cs_mem c)\<rparr>"] Suc.prems show ?case
      by (auto simp: c25_byte_def)
  qed
qed

lemma c25_takes_address:
  assumes "cs_phase c = S_addr rd j" "j + length bs = address_bytes e" "bs \<noteq> []"
  shows "foldl (c25_step e cyc) c (map SpiTransfer bs) =
    c\<lparr>cs_ptr := address_of (cs_ptr c) bs, cs_phase := (if rd then S_read else S_data)\<rparr>"
  using assms
proof (induction bs arbitrary: c j)
  case (Cons b bs)
  show ?case
  proof (cases "bs = []")
    case True
    then show ?thesis
      using Cons.prems by (simp add: c25_byte_def address_of_def)
  next
    case False
    then have "j + 1 \<noteq> address_bytes e"
      using Cons.prems(2) by (cases bs) simp_all
    then show ?thesis
      using Cons.IH [of "c\<lparr>cs_ptr := cs_ptr c * 256 + unat b, cs_phase := S_addr rd (j + 1)\<rparr>" "j + 1"] Cons.prems False
      by (simp add: c25_byte_def address_of_def)
  qed
qed simp

lemma c25_takes_data: "cs_phase c = S_data \<Longrightarrow>
    foldl (c25_step e cyc) c (map SpiTransfer bs) = c\<lparr>cs_latch := cs_latch c @ bs\<rparr>"
  by (induction bs arbitrary: c) (simp_all add: c25_byte_def)

subsection \<open>Transactions with the chip\<close>

lemma device25_facts:
  assumes "ei_device e \<in> set eeprom_25x_devices"
  shows "device_wf (ei_device e)" "address_bytes e = 1 \<or> address_bytes e = 2 \<or> address_bytes e = 3"
    "if dv_block_select_bits (ei_device e) = 1
     then dv_block_select_offset (ei_device e) = 3 \<and> size_bytes e \<le> 256 ^ address_bytes e * 2
     else dv_block_select_offset (ei_device e) = 0 \<and> size_bytes e \<le> 256 ^ address_bytes e"
  using assms by (auto simp: eeprom_25x_devices_def spi_device_def device_wf_def Let_def)

text \<open>The address of a command: its block bit and its bytes.\<close>

lemma c25_addressed:
  assumes dev: "ei_device e \<in> set eeprom_25x_devices" and a: "unat a < size_bytes e"
  shows "\<exists>blk arr. (\<forall>w. eeprom_get_address e a w = (Some (blk, arr), w)) \<and>
    (\<forall>c. cs_phase c = S_cmd \<longrightarrow> cs_busy c = 0 \<longrightarrow>
      foldl (c25_step e cyc) c (SpiTransfer (SPI_EEPROM_READ_CMD OR blk) # map SpiTransfer arr) =
        c\<lparr>cs_ptr := unat a, cs_phase := S_read\<rparr>) \<and>
    (\<forall>c. cs_phase c = S_cmd \<longrightarrow> cs_busy c = 0 \<longrightarrow> cs_wel c \<longrightarrow>
      foldl (c25_step e cyc) c (SpiTransfer (SPI_EEPROM_WRITE_CMD OR blk) # map SpiTransfer arr) =
        c\<lparr>cs_ptr := unat a, cs_phase := S_data\<rparr>)"
proof -
  let ?n = "address_bytes e"
  define k where "k = unat a div 256 ^ ?n"
  define blk where "blk = push_bit (unat (dv_block_select_offset (ei_device e))) (ucast (drop_bit (8 * ?n) a) :: u8)"
  have n: "?n = 1 \<or> ?n = 2 \<or> ?n = 3" and off: "if dv_block_select_bits (ei_device e) = 1
     then dv_block_select_offset (ei_device e) = 3 \<and> size_bytes e \<le> 256 ^ ?n * 2
     else dv_block_select_offset (ei_device e) = 0 \<and> size_bytes e \<le> 256 ^ ?n"
    using device25_facts [OF dev] by simp_all
  obtain arr where arr: "\<And>w. eeprom_get_address e a w = (Some (blk, arr), w)" "length arr = ?n" "address_of k arr = unat a"
  proof -
    obtain arr where b: "eeprom_get_address e a undefined = (Some (blk, arr), undefined)" "length arr = ?n" "address_of k arr = unat a"
      using get_address_bytes [OF a n, of undefined] unfolding k_def blk_def by blast
    have "eeprom_get_address e a w' = (Some (blk, arr), w')" for w'
      using b(1) by (auto simp: eeprom_get_address_def Let_def split: if_splits)
    then show thesis
      using that b(2,3) by blast
  qed
  have k2: "k < (if dv_block_select_bits (ei_device e) = 1 then 2 else 1)"
    using a off unfolding k_def by (auto simp: less_mult_imp_div_less mult.commute split: if_splits)
  then have "unat (ucast (drop_bit (8 * ?n) a) :: u8) = k"
    unfolding k_def by (intro unat_block) (auto split: if_splits)
  from arg_cong [OF this, of "of_nat :: nat \<Rightarrow> u8"]
  have low: "(ucast (drop_bit (8 * ?n) a) :: u8) = of_nat k"
    by simp
  have cmd: "c25_command e c (3 OR blk) = c\<lparr>cs_phase := S_addr True 0, cs_ptr := k\<rparr>"
    "cs_wel c \<Longrightarrow> c25_command e c (2 OR blk) = c\<lparr>cs_phase := S_addr False 0, cs_ptr := k\<rparr>" if "cs_busy c = 0" for c
  proof -
    consider "dv_block_select_bits (ei_device e) \<noteq> 1" "k = 0" | "dv_block_select_bits (ei_device e) = 1" "k = 0"
      | "dv_block_select_bits (ei_device e) = 1" "k = 1"
      using k2 by (cases "k = 0"; cases "k = 1") (auto split: if_splits)
    then have "c25_command e c (3 OR blk) = c\<lparr>cs_phase := S_addr True 0, cs_ptr := k\<rparr> \<and>
      (cs_wel c \<longrightarrow> c25_command e c (2 OR blk) = c\<lparr>cs_phase := S_addr False 0, cs_ptr := k\<rparr>)"
      using that off low by cases (simp_all add: c25_command_def blk_def Let_def)
    then show "c25_command e c (3 OR blk) = c\<lparr>cs_phase := S_addr True 0, cs_ptr := k\<rparr>"
      "cs_wel c \<Longrightarrow> c25_command e c (2 OR blk) = c\<lparr>cs_phase := S_addr False 0, cs_ptr := k\<rparr>"
      by simp_all
  qed
  have ne: "arr \<noteq> []"
    using n arr(2) by auto
  have addr: "foldl (c25_step e cyc) (c\<lparr>cs_phase := S_addr rd 0, cs_ptr := k\<rparr>) (map SpiTransfer arr) =
      c\<lparr>cs_ptr := unat a, cs_phase := (if rd then S_read else S_data)\<rparr>" for c rd
    using c25_takes_address [of "c\<lparr>cs_phase := S_addr rd 0, cs_ptr := k\<rparr>" rd 0 arr e cyc] arr(2,3) ne by simp
  show ?thesis
    using arr(1) cmd addr [where rd = True] addr [where rd = False]
    by (intro exI [of _ blk] exI [of _ arr]) (simp add: c25_byte_def)
qed

lemma c25_selected:
  assumes "cs_phase c = S_off"
  shows "c25_step e cyc c (cs_event False) = c\<lparr>cs_phase := S_cmd, cs_latch := []\<rparr>"
  using assms by simp

lemma c25_deselected:
  assumes "cs_phase c = S_read \<or> cs_phase c = S_status"
  shows "c25_step e cyc c (cs_event True) = c\<lparr>cs_phase := S_off\<rparr>"
  using assms by (auto simp: c25_end_def)

lemma c25_chip_read:
  assumes on: "c25_on e cyc c w" and dev: "ei_device e \<in> set eeprom_25x_devices"
    and "cs_phase c = S_off" "cs_busy c = 0" "length (cs_mem c) = size_bytes e" "0 < n" "unat a + n \<le> size_bytes e"
  shows "\<exists>w' c'. eeprom_25x_read e a n w = (False, take n (drop (unat a) (cs_mem c)), w') \<and>
    c25_on e cyc c' w' \<and> cs_mem c' = cs_mem c \<and> cs_busy c' = 0 \<and> cs_phase c' = S_off \<and> cs_bits c' = cs_bits c"
proof -
  obtain blk arr where addr: "\<And>w. eeprom_get_address e a w = (Some (blk, arr), w)"
    and cmd: "\<And>c. cs_phase c = S_cmd \<Longrightarrow> cs_busy c = 0 \<Longrightarrow>
      foldl (c25_step e cyc) c (SpiTransfer (3 OR blk) # map SpiTransfer arr) = c\<lparr>cs_ptr := unat a, cs_phase := S_read\<rparr>"
    using c25_addressed [OF dev, of a cyc] assms(6,7) by auto
  define w1 where "w1 = hw_do (cs_event False # SpiTransfer (3 OR blk) # map SpiTransfer arr) w"
  let ?c1 = "c\<lparr>cs_ptr := unat a, cs_phase := S_read, cs_latch := []\<rparr>"
  have "foldl (c25_step e cyc) c (cs_event False # SpiTransfer (3 OR blk) # map SpiTransfer arr) = ?c1"
    using c25_selected [OF assms(3), of e cyc] cmd [of "c\<lparr>cs_phase := S_cmd, cs_latch := []\<rparr>"] assms(4) by simp
  then have on1: "c25_on e cyc ?c1 w1"
    using c25_on_do [OF on, of "cs_event False # SpiTransfer (3 OR blk) # map SpiTransfer arr"] unfolding w1_def by simp
  have "cs_phase ?c1 = S_read" "cs_ptr ?c1 + n \<le> length (cs_mem ?c1)"
    using assms(5,7) by simp_all
  note data = c25_gives_data [OF on1 this]
  obtain p where p: "foldl (c25_step e cyc) ?c1 (replicate n (SpiTransfer 0xFF)) = ?c1\<lparr>cs_ptr := p\<rparr>"
    using data(2) by blast
  define w2 where "w2 = hw_do (replicate n (SpiTransfer 0xFF)) w1"
  have on2: "c25_on e cyc (?c1\<lparr>cs_ptr := p\<rparr>) w2"
    using c25_on_do [OF on1, of "replicate n (SpiTransfer 0xFF)"] unfolding p w2_def .
  have on3: "c25_on e cyc (?c1\<lparr>cs_ptr := p, cs_phase := S_off\<rparr>) (hw_do [cs_event True] w2)"
    using c25_on_do [OF on2, of "[cs_event True]"] c25_deselected [of "?c1\<lparr>cs_ptr := p\<rparr>" e cyc] by simp
  have "eeprom_25x_read e a n w = (False, take n (drop (unat a) (cs_mem c)), hw_do [cs_event True] w2)"
    using data(1) by (simp add: eeprom_25x_read_def addr spi_events hw_do_append w1_def w2_def)
  then show ?thesis
    using on3 assms(4) by (intro exI conjI) (assumption, assumption, simp_all)
qed

text \<open>The status register, at any time; polling it until the end of a write cycle.\<close>

lemma c25_status_read:
  assumes on: "c25_on e cyc c w" and "cs_phase c = S_off"
  shows "\<exists>w'. eeprom_25x_read_status_register w = (c25_status c, w') \<and>
    c25_on e cyc (c\<lparr>cs_busy := cs_busy c - 1, cs_latch := []\<rparr>) w'"
proof -
  let ?c1 = "c\<lparr>cs_phase := S_status, cs_latch := []\<rparr>" and ?c2 = "c\<lparr>cs_busy := cs_busy c - 1, cs_phase := S_status, cs_latch := []\<rparr>"
  define w1 where "w1 = hw_do [cs_event False, SpiTransfer 5] w"
  have "foldl (c25_step e cyc) c [cs_event False, SpiTransfer 5] = ?c1"
    using assms(2) by (cases c) (simp add: c25_byte_def c25_command_def Let_def)
  then have on1: "c25_on e cyc ?c1 w1"
    using c25_on_do [OF on, of "[cs_event False, SpiTransfer 5]"] unfolding w1_def by simp
  have "c25_step e cyc ?c1 (SpiTransfer 0xFF) = ?c2" "c25_step e cyc ?c2 (cs_event True) = c\<lparr>cs_busy := cs_busy c - 1, cs_latch := []\<rparr>"
    using assms(2) by (cases c; simp add: c25_byte_def c25_end_def)+
  then have "c25_on e cyc (c\<lparr>cs_busy := cs_busy c - 1, cs_latch := []\<rparr>) (hw_do [cs_event True] (hw_do [SpiTransfer 0xFF] w1))"
    using c25_on_do [OF c25_on_do [OF on1, of "[SpiTransfer 0xFF]"], of "[cs_event True]"] by simp
  moreover have "eeprom_25x_read_status_register w = (c25_status c, hw_do [cs_event True] (hw_do [SpiTransfer 0xFF] w1))"
  proof -
    have "hwspi_write_read 0xFF w1 = (ucast (c25_status c), hw_do [SpiTransfer 0xFF] w1)"
      using read_byte [OF on1] by (simp add: c25_answer_def c25_status_def)
    then show ?thesis
      by (simp add: eeprom_25x_read_status_register_def hwspi_write_read_cs_def spi_events hw_do_append w1_def [symmetric] Let_def)
  qed
  ultimately show ?thesis
    by auto
qed

lemma status_bits:
  assumes "cs_bits c AND 0x73 = 0"
  shows "c25_status c AND 1 = 0 \<longleftrightarrow> cs_busy c = 0" "c25_status c AND 0xC = cs_bits c AND 0xC"
proof -
  have "cs_bits c AND 1 = 0"
    using arg_cong [OF assms, of "\<lambda>x. x AND 1"] by (simp add: and.assoc)
  then show "c25_status c AND 1 = 0 \<longleftrightarrow> cs_busy c = 0"
    by (simp add: c25_status_def bit.conj_disj_distrib2)
  show "c25_status c AND 0xC = cs_bits c AND 0xC"
    by (simp add: c25_status_def bit.conj_disj_distrib2)
qed

lemma c25_poll:
  assumes "c25_on e cyc c w" "cs_phase c = S_off" "cs_bits c AND 0x73 = 0" "cs_busy c < n"
  shows "\<exists>w'. eeprom_25x_poll n w = (False, w') \<and> c25_on e cyc (c\<lparr>cs_busy := 0, cs_latch := []\<rparr>) w'"
  using assms
proof (induction n arbitrary: c w)
  case (Suc n)
  obtain w1 where r: "eeprom_25x_read_status_register w = (c25_status c, w1)"
    "c25_on e cyc (c\<lparr>cs_busy := cs_busy c - 1, cs_latch := []\<rparr>) w1"
    using c25_status_read [OF Suc.prems(1,2)] by blast
  show ?case
  proof (cases "cs_busy c = 0")
    case True
    then show ?thesis
      using r status_bits(1) [OF Suc.prems(3)] by simp
  next
    case False
    then show ?thesis
      using r status_bits(1) [OF Suc.prems(3)] Suc.IH [OF r(2)] Suc.prems(2-4) by simp
  qed
qed simp

text \<open>WREN, alone in its frame.\<close>

lemma c25_write_enable:
  assumes "c25_on e cyc c w" "cs_phase c = S_off" "cs_busy c = 0"
  shows "c25_on e cyc (c\<lparr>cs_wel := True, cs_latch := []\<rparr>) (snd (hwspi_write_read_cs [SPI_EEPROM_WREN_CMD] 0 w))"
proof -
  have "foldl (c25_step e cyc) c [cs_event False, SpiTransfer 6, cs_event True] = c\<lparr>cs_wel := True, cs_latch := []\<rparr>"
    using assms(2,3) by (cases c) (simp add: c25_byte_def c25_command_def c25_end_def Let_def)
  moreover have "snd (hwspi_write_read_cs [SPI_EEPROM_WREN_CMD] 0 w) = hw_do [cs_event False, SpiTransfer 6, cs_event True] w"
    by (simp add: hwspi_write_read_cs_def spi_events hw_do_append Let_def)
  ultimately show ?thesis
    using c25_on_do [OF assms(1), of "[cs_event False, SpiTransfer 6, cs_event True]"] by simp
qed

text \<open>A status register written: the bits the chip has, after a whole write cycle.\<close>

lemma c25_write_status:
  assumes on: "c25_on e cyc c w" and "cs_phase c = S_off" "cs_busy c = 0" "cyc < 0xFFFFF"
  shows "\<exists>w'. eeprom_25x_write_status_register v w = (False, w') \<and>
    c25_on e cyc (c\<lparr>cs_bits := v AND 0x8C, cs_wel := False, cs_latch := []\<rparr>) w'"
proof -
  let ?c1 = "c\<lparr>cs_wel := True, cs_latch := []\<rparr>" and ?c2 = "c\<lparr>cs_bits := v AND 0x8C, cs_busy := cyc, cs_wel := False, cs_latch := []\<rparr>"
  define w1 where "w1 = snd (hwspi_write_read_cs [SPI_EEPROM_WREN_CMD] 0 w)"
  have on1: "c25_on e cyc ?c1 w1"
    unfolding w1_def by (rule c25_write_enable [OF on assms(2,3)])
  have "foldl (c25_step e cyc) ?c1 [cs_event False, SpiTransfer 1, SpiTransfer v, cs_event True] = ?c2"
    using assms(2,3) by (cases c) (simp add: c25_byte_def c25_command_def c25_end_def Let_def)
  moreover have w2: "snd (hwspi_write_read_cs [SPI_EEPROM_WRSR_CMD, v] 0 w1) =
      hw_do [cs_event False, SpiTransfer 1, SpiTransfer v, cs_event True] w1"
    by (simp add: hwspi_write_read_cs_def spi_events hw_do_append Let_def)
  ultimately have on2: "c25_on e cyc ?c2 (snd (hwspi_write_read_cs [SPI_EEPROM_WRSR_CMD, v] 0 w1))"
    using c25_on_do [OF on1, of "[cs_event False, SpiTransfer 1, SpiTransfer v, cs_event True]"] by simp
  have "(v AND 0x8C) AND 0x73 = 0"
    by (simp add: and.assoc)
  then obtain w3 where p: "eeprom_25x_poll 0xFFFFF (snd (hwspi_write_read_cs [SPI_EEPROM_WRSR_CMD, v] 0 w1)) = (False, w3)"
    "c25_on e cyc (?c2\<lparr>cs_busy := 0, cs_latch := []\<rparr>) w3"
    using c25_poll [OF on2, of "0xFFFFF"] assms(2,4) by auto
  have "?c2\<lparr>cs_busy := 0, cs_latch := []\<rparr> = c\<lparr>cs_bits := v AND 0x8C, cs_wel := False, cs_latch := []\<rparr>"
    using assms(3) by (cases c) simp
  then show ?thesis
    using p by (simp add: eeprom_25x_write_status_register_def eeprom_25x_poll_busy_def Let_def w1_def)
qed

lemma c25_chip_write:
  assumes on: "c25_on e cyc c w" and dev: "ei_device e \<in> set eeprom_25x_devices" and "cyc < 0xFFFFF"
    and "cs_phase c = S_off" "cs_busy c = 0" "cs_bits c AND 0x73 = 0" "cs_bits c AND 0xC = 0"
    and "length (cs_mem c) = size_bytes e"
    and "page_bytes e dvd unat a" "unat a + page_bytes e \<le> size_bytes e" "length page = page_bytes e" "0 < n" "n \<le> page_bytes e"
  shows "\<exists>w' c'. eeprom_25x_write_page e a page n w =
      (False, splice (take (page_bytes e) (drop (unat a) (cs_mem c))) 0 (take n page), w') \<and>
    c25_on e cyc c' w' \<and> cs_mem c' = splice (cs_mem c) (unat a) (take n page) \<and>
    cs_busy c' = 0 \<and> cs_phase c' = S_off \<and> cs_bits c' = cs_bits c"
proof -
  let ?pg = "page_bytes e"
  have pos: "0 < ?pg"
    using device25_facts(1) [OF dev] by (simp add: device_wf_def Let_def)
  obtain blk arr where addr: "\<And>w. eeprom_get_address e a w = (Some (blk, arr), w)"
    and cmd: "\<And>c. cs_phase c = S_cmd \<Longrightarrow> cs_busy c = 0 \<Longrightarrow> cs_wel c \<Longrightarrow>
      foldl (c25_step e cyc) c (SpiTransfer (2 OR blk) # map SpiTransfer arr) = c\<lparr>cs_ptr := unat a, cs_phase := S_data\<rparr>"
    using c25_addressed [OF dev, of a cyc] assms(10) pos by auto
  define old where "old = take ?pg (drop (unat a) (cs_mem c))"
  define page' where "page' = splice old 0 (take n page)"
  have old: "length old = ?pg"
    using assms(8,10) by (simp add: old_def)
  have p': "length page' = ?pg"
    using old assms(11,13) by (simp add: page'_def)
  obtain w0 c0 where first: "(if n < ?pg
       then (case eeprom_25x_read e a ?pg w of (err, existing_page, w2) \<Rightarrow>
               if err then (True, page, w2) else (False, splice page n (drop n existing_page), w2))
       else (False, page, w)) = (False, page', w0)"
    and on0: "c25_on e cyc c0 w0"
    and c0: "cs_mem c0 = cs_mem c" "cs_busy c0 = 0" "cs_phase c0 = S_off" "cs_bits c0 = cs_bits c"
  proof (cases "n < ?pg")
    case True
    obtain w' c' where r: "eeprom_25x_read e a ?pg w = (False, old, w')" "c25_on e cyc c' w'" "cs_mem c' = cs_mem c"
      "cs_busy c' = 0" "cs_phase c' = S_off" "cs_bits c' = cs_bits c"
      using c25_chip_read [OF on dev assms(4,5,8) pos assms(10)] unfolding old_def by blast
    have "splice page n (drop n old) = page'"
      using True old assms(11) by (simp add: splice_def page'_def)
    then show thesis
      using True r by (intro that [of w' c']) simp_all
  next
    case False
    then have "page = page'"
      using assms(11,13) old by (simp add: page'_def splice_def)
    then show thesis
      using False on assms(4,5) by (intro that [of w c]) simp_all
  qed
  define w1 where "w1 = snd (hwspi_write_read_cs [SPI_EEPROM_WREN_CMD] 0 w0)"
  let ?c1 = "c0\<lparr>cs_wel := True, cs_latch := []\<rparr>"
  have on1: "c25_on e cyc ?c1 w1"
    unfolding w1_def by (rule c25_write_enable [OF on0 c0(3,2)])
  let ?es = "cs_event False # (SpiTransfer (2 OR blk) # map SpiTransfer arr) @ map SpiTransfer page' @ [cs_event True]"
  let ?c2 = "c0\<lparr>cs_wel := True, cs_ptr := unat a, cs_phase := S_data, cs_latch := page'\<rparr>"
  have data: "foldl (c25_step e cyc) ?c1 (cs_event False # (SpiTransfer (2 OR blk) # map SpiTransfer arr) @ map SpiTransfer page') = ?c2"
  proof -
    let ?s = "?c1\<lparr>cs_phase := S_cmd, cs_latch := []\<rparr>"
    have "foldl (c25_step e cyc) ?s (SpiTransfer (2 OR blk) # map SpiTransfer arr) = ?s\<lparr>cs_ptr := unat a, cs_phase := S_data\<rparr>"
      using cmd [of ?s] c0(2) by simp
    moreover have "c25_step e cyc ?c1 (cs_event False) = ?s"
      using c25_selected [of ?c1 e cyc] c0(3) by simp
    ultimately show ?thesis
      using c25_takes_data [of "?s\<lparr>cs_ptr := unat a, cs_phase := S_data\<rparr>" e cyc page']
      by (cases c0) (simp del: c25_step.simps)
  qed
  define c3 where "c3 = c25_end e cyc ?c2"
  have on3: "c25_on e cyc c3 (hw_do ?es w1)"
    using c25_on_do [OF on1, of ?es] data by (simp add: c3_def)
  have "unat a mod ?pg = 0"
    using assms(9) by simp
  then have prog: "page_program ?pg (unat a) page' (cs_mem c) = splice (cs_mem c) (unat a) page'"
    using p' assms(8,10) by (intro page_program_inside) simp_all
  have "splice (cs_mem c) (unat a) page' = splice (cs_mem c) (unat a) (take n page)"
    unfolding page'_def old_def using assms(8,10,13) by (intro splice_refresh) simp_all
  moreover have "\<not> c25_protected ?c2"
    using assms(7) c0(4) by (simp add: c25_protected_def Let_def)
  moreover have "page' \<noteq> []"
    using p' pos by auto
  ultimately have c3: "cs_mem c3 = splice (cs_mem c) (unat a) (take n page)" "cs_busy c3 = cyc" "cs_phase c3 = S_off" "cs_bits c3 = cs_bits c"
    using prog c0(1,4) by (simp_all add: c3_def c25_end_def)
  obtain w4 where p: "eeprom_25x_poll 0xFFFFF (hw_do ?es w1) = (False, w4)" "c25_on e cyc (c3\<lparr>cs_busy := 0, cs_latch := []\<rparr>) w4"
    using c25_poll [OF on3 c3(3), of "0xFFFFF"] c3(2,4) assms(3,6) by auto
  have "eeprom_25x_write_page e a page n w = (False, page', w4)"
    unfolding eeprom_25x_write_page_def addr prod.case option.case first if_False
    using p' p(1) by (simp add: spi_events hw_do_append w1_def eeprom_25x_poll_busy_def)
  then show ?thesis
    using p(2) c3 by (intro exI [of _ w4] exI [of _ "c3\<lparr>cs_busy := 0, cs_latch := []\<rparr>"]) (simp add: page'_def old_def)
qed

subsection \<open>The contract holds for the 25X chips\<close>

text \<open>A chip of the table with contents \<open>m\<close>, idle, its blocks not protected.\<close>

definition c25_holds :: "eeprom_info \<Rightarrow> nat \<Rightarrow> bytes \<Rightarrow> world \<Rightarrow> bool" where
  "c25_holds e cyc m w \<longleftrightarrow> ei_device e \<in> set eeprom_25x_devices \<and> cyc < 0xFFFFF \<and> length m = size_bytes e \<and>
     (\<exists>c. c25_on e cyc c w \<and> cs_mem c = m \<and> cs_busy c = 0 \<and> cs_phase c = S_off \<and>
       cs_bits c AND 0x73 = 0 \<and> cs_bits c AND 0xC = 0)"

interpretation x25: eeprom_memory eeprom_25x_hal e "c25_holds e cyc" for e cyc
proof unfold_locales
  show "c25_holds e cyc m w \<Longrightarrow> device_wf (ei_device e)" for m w
    by (auto simp: c25_holds_def device25_facts)
  show "c25_holds e cyc m w \<Longrightarrow> length m = size_bytes e" for m w
    by (simp add: c25_holds_def)
  show "c25_holds e cyc m w \<Longrightarrow> c25_holds e cyc m (term_out ts w)" for m w ts
    unfolding c25_holds_def by (blast intro: c25_on_print)
  show "\<exists>w'. hal_read eeprom_25x_hal e a n w = (False, take n (drop (unat a) m), w') \<and> c25_holds e cyc m w'"
    if h: "c25_holds e cyc m w" and n: "0 < n" "unat a + n \<le> length m" for m w n a
  proof -
    obtain c where c: "c25_on e cyc c w" "ei_device e \<in> set eeprom_25x_devices" "cs_phase c = S_off" "cs_busy c = 0"
      "length (cs_mem c) = size_bytes e" "cs_mem c = m" "cyc < 0xFFFFF" "cs_bits c AND 0x73 = 0" "cs_bits c AND 0xC = 0"
      using h by (auto simp: c25_holds_def)
    have "unat a + n \<le> size_bytes e"
      using n(2) c(5,6) by simp
    from c25_chip_read [OF c(1-5) n(1) this] obtain w' c' where r:
      "eeprom_25x_read e a n w = (False, take n (drop (unat a) (cs_mem c)), w')" "c25_on e cyc c' w'"
      "cs_mem c' = cs_mem c" "cs_busy c' = 0" "cs_phase c' = S_off" "cs_bits c' = cs_bits c"
      by blast
    then have "c25_holds e cyc m w'"
      using c unfolding c25_holds_def by (intro conjI exI [of _ c']) simp_all
    then show ?thesis
      using r(1) c(6) by (simp add: eeprom_25x_hal_def)
  qed
  show "\<exists>w'. hal_write_page eeprom_25x_hal e a page n w = (False, splice (take (page_bytes e) (drop (unat a) m)) 0 (take n page), w') \<and>
        c25_holds e cyc (splice m (unat a) (take n page)) w'"
    if h: "c25_holds e cyc m w" and p: "page_bytes e dvd unat a" "unat a + page_bytes e \<le> length m"
      "length page = page_bytes e" "0 < n" "n \<le> page_bytes e" for m w a page n
  proof -
    obtain c where c: "c25_on e cyc c w" "ei_device e \<in> set eeprom_25x_devices" "cyc < 0xFFFFF" "cs_phase c = S_off" "cs_busy c = 0"
      "cs_bits c AND 0x73 = 0" "cs_bits c AND 0xC = 0" "length (cs_mem c) = size_bytes e" "cs_mem c = m"
      using h by (auto simp: c25_holds_def)
    have fit: "unat a + page_bytes e \<le> size_bytes e" and lm: "unat a + length (take n page) \<le> length m"
      using p(2,3,5) c(8,9) by simp_all
    from c25_chip_write [OF c(1-8) p(1) fit p(3-5)] obtain w' c' where r:
      "eeprom_25x_write_page e a page n w = (False, splice (take (page_bytes e) (drop (unat a) (cs_mem c))) 0 (take n page), w')"
      "c25_on e cyc c' w'" "cs_mem c' = splice (cs_mem c) (unat a) (take n page)" "cs_busy c' = 0" "cs_phase c' = S_off"
      "cs_bits c' = cs_bits c"
      by blast
    then have "c25_holds e cyc (splice m (unat a) (take n page)) w'"
      using c lm unfolding c25_holds_def by (intro conjI exI [of _ c']) simp_all
    then show ?thesis
      using r(1) c(9) by (simp add: eeprom_25x_hal_def)
  qed
qed

subsection \<open>Protection\<close>

definition c25_idle :: "chip25 \<Rightarrow> bool" where
  "c25_idle c \<longleftrightarrow> cs_phase c = S_off \<and> cs_busy c = 0 \<and> cs_bits c AND 0x73 = 0"

lemma holds_idle:
  assumes "c25_on e cyc c w" "c25_idle c" "cs_bits c AND 0xC = 0" "ei_device e \<in> set eeprom_25x_devices" "cyc < 0xFFFFF"
    and "length (cs_mem c) = size_bytes e"
  shows "c25_holds e cyc (cs_mem c) w"
  using assms unfolding c25_holds_def c25_idle_def by (intro conjI exI [of _ c]) simp_all

lemma status_idle:
  assumes "c25_on e cyc c w" "c25_idle c"
  shows "\<exists>w'. eeprom_25x_read_status_register w = (cs_bits c OR (if cs_wel c then 2 else 0), w') \<and> c25_on e cyc (c\<lparr>cs_latch := []\<rparr>) w'"
proof -
  have "c\<lparr>cs_busy := cs_busy c - 1, cs_latch := []\<rparr> = c\<lparr>cs_latch := []\<rparr>"
    using assms(2) by (cases c) (simp add: c25_idle_def)
  then show ?thesis
    using c25_status_read [OF assms(1)] assms(2) by (auto simp: c25_idle_def c25_status_def)
qed

lemma write_status_idle:
  assumes "c25_on e cyc c w" "c25_idle c" "cyc < 0xFFFFF"
  shows "\<exists>w'. eeprom_25x_write_status_register v w = (False, w') \<and>
    c25_on e cyc (c\<lparr>cs_bits := v AND 0x8C, cs_wel := False, cs_latch := []\<rparr>) w'"
  using c25_write_status [OF assms(1) _ _ assms(3)] assms(2) by (simp add: c25_idle_def)

lemma idle_written: "c25_idle c \<Longrightarrow> c25_idle (c\<lparr>cs_bits := v AND 0x8C, cs_wel := False, cs_latch := []\<rparr>)"
  by (simp add: c25_idle_def and.assoc)

lemma idle_latch [simp]: "c25_idle (c\<lparr>cs_latch := []\<rparr>) = c25_idle c"
  by (simp add: c25_idle_def)

text \<open>The test of the bits puts the old value back.\<close>

lemma probe_test_restores:
  assumes on: "c25_on e cyc c w" and idle: "c25_idle c" and cyc: "cyc < 0xFFFFF"
  shows "\<exists>w'. probe_test old w = (False, w') \<and> c25_on e cyc (c\<lparr>cs_bits := old AND 0x8C, cs_wel := False, cs_latch := []\<rparr>) w'"
proof -
  define t1 where "t1 = term_out (TText crlf # text_line ''Testing support for Write Protect blocks (BP0, BP1) and Write Pin ENable (WPEN)'' @
    [TText crlf, TText ''Disabling write protect: '']) w"
  have on1: "c25_on e cyc c t1"
    using on unfolding t1_def by (rule c25_on_print)
  let ?c1 = "c\<lparr>cs_bits := 0 AND 0x8C, cs_wel := False, cs_latch := []\<rparr>"
  obtain w1 where w1: "eeprom_25x_write_status_register 0 t1 = (False, w1)" "c25_on e cyc ?c1 w1"
    using write_status_idle [OF on1 idle cyc] by blast
  obtain w2 where w2: "eeprom_25x_read_status_register w1 = (0, w2)" "c25_on e cyc (?c1\<lparr>cs_latch := []\<rparr>) w2"
    using status_idle [OF w1(2) idle_written [OF idle]] by auto
  have idle1: "c25_idle (?c1\<lparr>cs_latch := []\<rparr>)"
    using idle_written [OF idle, of 0] by simp
  define t2 where "t2 = term_out (text_line (''0x'' @ hex_text 2 0 @ '', OK'')) w2"
  have on2: "c25_on e cyc (?c1\<lparr>cs_latch := []\<rparr>) (term_out [TText crlf, TText ''Testing for BP0, BP1, WPEN...''] t2)"
    using w2(2) unfolding t2_def by (intro c25_on_print)
  let ?c3 = "?c1\<lparr>cs_bits := 0x8C AND 0x8C, cs_wel := False, cs_latch := []\<rparr>"
  obtain w3 where w3: "eeprom_25x_write_status_register 0x8C (term_out [TText crlf, TText ''Testing for BP0, BP1, WPEN...''] t2) = (False, w3)"
    "c25_on e cyc ?c3 w3"
    using write_status_idle [OF on2 idle1 cyc, of "0x8C"] by auto
  have idle3: "c25_idle ?c3"
    using idle_written [OF idle1, of "0x8C"] by simp
  obtain r w4 where w4: "eeprom_25x_read_status_register w3 = (r, w4)" "c25_on e cyc ?c3 w4"
    using status_idle [OF w3(2) idle3] by auto
  obtain t3 where t3: "probe_test_bits t2 = (False, t3)" "c25_on e cyc ?c3 t3"
  proof -
    let ?ts = "text_line (''wrote: 0x8C, read: 0x'' @ hex_text 2 (unat r)) @
             text_line (''BP0: '' @ (if r AND 4 \<noteq> 0 then ''Present'' else ''Not detected'')) @
             text_line (''BP1: '' @ (if r AND 8 \<noteq> 0 then ''Present'' else ''Not detected'')) @
             text_line (''WPEN: '' @ (if r AND 0x80 \<noteq> 0 then ''Present'' else ''Not detected''))"
    have "probe_test_bits t2 = (False, term_out ?ts w4)"
      unfolding probe_test_bits_def w3(1) prod.case if_False w4(1) ..
    then show thesis
      using that c25_on_print [OF w4(2), of ?ts] by blast
  qed
  define t4 where "t4 = term_out [TText crlf, TText (''Restoring original status register: 0x'' @ hex_text 2 (unat old) @ ''...'')] t3"
  have on4: "c25_on e cyc ?c3 t4"
    using t3(2) unfolding t4_def by (rule c25_on_print)
  let ?c5 = "c\<lparr>cs_bits := old AND 0x8C, cs_wel := False, cs_latch := []\<rparr>"
  have c5: "?c3\<lparr>cs_bits := old AND 0x8C, cs_wel := False, cs_latch := []\<rparr> = ?c5"
    by (cases c) simp
  obtain w5 where w5: "eeprom_25x_write_status_register old t4 = (False, w5)" "c25_on e cyc ?c5 w5"
    using write_status_idle [OF on4 idle3 cyc, of old] unfolding c5 by blast
  obtain r' w6 where w6: "eeprom_25x_read_status_register w5 = (r', w6)" "c25_on e cyc ?c5 w6"
    using status_idle [OF w5(2) idle_written [OF idle]] by auto
  have "\<exists>ts. probe_test old w = (False, eeprom_25x_status_reg_print r' (term_out ts w6))"
    unfolding probe_test_def Let_def t1_def [symmetric] w1(1) prod.case if_False w2(1)
    using t3(1) w5(1) w6(1) by (auto simp: t2_def [symmetric] t4_def [symmetric] simp del: append_Cons append_Nil)
  then show ?thesis
    using w6(2) by (auto simp: eeprom_25x_status_reg_print_def)
qed

text \<open>The update stores the chosen bits.\<close>

lemma probe_value_status: "x AND 0x73 = 0 \<Longrightarrow> probe_value e (x OR (if b then 2 else 0)) AND 0x8C = probe_value e x AND 0x8C" for x :: u8
  by (rule bit_word_eqI) (auto simp: probe_value_def Let_def bit_simps dest: status_bits)

lemma printed_either: "\<exists>us. (False, f (if b then term_out xs w else term_out ys w)) = (False, f (term_out us w))"
  by (cases b) auto

lemma probe_update_stores:
  assumes on: "c25_on e cyc c w" and idle: "c25_idle c" and cyc: "cyc < 0xFFFFF"
  shows "\<exists>w'. probe_update e w = (False, w') \<and>
    c25_on e cyc (c\<lparr>cs_bits := probe_value e (cs_bits c) AND 0x8C, cs_wel := False, cs_latch := []\<rparr>) w'"
proof -
  define t0 where "t0 = term_out [TText crlf] w"
  have on0: "c25_on e cyc c t0"
    using on unfolding t0_def by (rule c25_on_print)
  let ?r = "cs_bits c OR (if cs_wel c then 2 else 0)"
  obtain w1 where w1: "eeprom_25x_read_status_register t0 = (?r, w1)" "c25_on e cyc (c\<lparr>cs_latch := []\<rparr>) w1"
    using status_idle [OF on0 idle] by blast
  let ?c = "c\<lparr>cs_bits := probe_value e (cs_bits c) AND 0x8C, cs_wel := False, cs_latch := []\<rparr>"
  have written: "\<exists>w'. eeprom_25x_write_status_register (probe_value e ?r) (term_out ts w1) = (False, w') \<and> c25_on e cyc ?c w'" for ts
  proof -
    have "probe_value e ?r AND 0x8C = probe_value e (cs_bits c) AND 0x8C"
      using idle by (intro probe_value_status) (simp add: c25_idle_def)
    moreover have "c\<lparr>cs_latch := [], cs_bits := v, cs_wel := False\<rparr> = c\<lparr>cs_bits := v, cs_wel := False, cs_latch := []\<rparr>" for v
      by (cases c) simp
    ultimately show ?thesis
      using write_status_idle [OF c25_on_print [OF w1(2)] _ cyc, of "probe_value e ?r" ts] idle by (simp del: c25_on_print)
  qed
  show ?thesis
  proof -
    let ?reg = "if ei_protect_blocks_flag e then (?r AND NOT 0xC) OR probe_bits e else ?r"
    define ts where "ts = ((if ei_protect_blocks_flag e
                           then [TText ''New Block protect bits (BP1, BP0): '', TInt (if ?reg AND 8 \<noteq> 0 then 1 else 0), TText '', '',
                                 TInt (if ?reg AND 4 \<noteq> 0 then 1 else 0), TText crlf] else []) @
                          (if ei_protect_wpen_flag e
                           then [TText ''New Write Pin ENable bit (WPEN): '', TInt (if probe_value e ?r AND 0x80 \<noteq> 0 then 1 else 0), TText crlf] else []) @
                          [TText (''Updating status register (0x'' @ hex_text 2 (unat (probe_value e ?r)) @ ''): '')])"
    obtain w2 where w2: "eeprom_25x_write_status_register (probe_value e ?r) (term_out ts w1) = (False, w2)" "c25_on e cyc ?c w2"
      using written [of ts] by blast
    obtain r w3 where w3: "eeprom_25x_read_status_register w2 = (r, w3)" "c25_on e cyc ?c w3"
      using status_idle [OF w2(2) idle_written [OF idle]] by auto
    have "\<exists>us. probe_update e w = (False, eeprom_25x_status_reg_print r (term_out us w3))"
      unfolding probe_update_def t0_def [symmetric] w1(1) prod.case Let_def ts_def [symmetric] w2(1) if_False w3(1)
      by (rule printed_either)
    then show ?thesis
      using w3(2) by (auto simp: eeprom_25x_status_reg_print_def)
  qed
qed

lemma bit_index: "n < 8 \<Longrightarrow> n = 0 \<or> n = 1 \<or> n = 2 \<or> n = 3 \<or> n = 4 \<or> n = 5 \<or> n = 6 \<or> n = 7" for n :: nat
  by auto

lemma bits_kept:
  fixes x :: u8
  assumes "x AND 0x73 = 0"
  shows "x AND 0x8C = x"
proof -
  have "(0x73 OR 0x8C :: u8) = - 1"
    by simp
  then have "x AND (0x73 OR 0x8C) = x"
    by (simp only: bit.conj_one_right)
  then show ?thesis
    using assms by (simp only: bit.conj_disj_distrib) simp
qed

lemma probe_value_bits:
  assumes "x AND 0x73 = 0"
  shows "probe_value e x AND 0x73 = 0"
    and "bit (probe_value e x) 2 = (if ei_protect_blocks_flag e then bit (ei_protect_bits e) 0 else bit x 2)"
    and "bit (probe_value e x) 3 = (if ei_protect_blocks_flag e then bit (ei_protect_bits e) 1 else bit x 3)"
    and "bit (probe_value e x) 7 = (if ei_protect_wpen_flag e then bit (ei_protect_wpen_bit e) 0 else bit x 7)"
proof -
  show "bit (probe_value e x) 2 = (if ei_protect_blocks_flag e then bit (ei_protect_bits e) 0 else bit x 2)"
    by (simp add: probe_value_def probe_bits_def probe_wpen_def Let_def bit_simps)
  show "bit (probe_value e x) 3 = (if ei_protect_blocks_flag e then bit (ei_protect_bits e) 1 else bit x 3)"
    by (simp add: probe_value_def probe_bits_def probe_wpen_def Let_def bit_simps)
  show "bit (probe_value e x) 7 = (if ei_protect_wpen_flag e then bit (ei_protect_wpen_bit e) 0 else bit x 7)"
    by (simp add: probe_value_def probe_bits_def probe_wpen_def Let_def bit_simps)
  have clear: "(y AND m OR b) AND 0x73 = 0" if "y AND 0x73 = 0" "b AND 0x73 = 0" for y m b :: u8
  proof -
    have "(y AND m) AND 0x73 = (y AND 0x73) AND m"
      by (simp only: and.assoc and.commute [of m])
    then show ?thesis
      using that by (simp only: bit.conj_disj_distrib2) simp
  qed
  have "probe_bits e AND 0x73 = 0"
    by (rule bit_word_eqI) (auto simp: probe_bits_def bit_simps dest!: bit_index)
  moreover have "probe_wpen e AND 0x73 = 0"
    by (rule bit_word_eqI) (auto simp: probe_wpen_def bit_simps dest!: bit_index)
  ultimately show "probe_value e x AND 0x73 = 0"
    using assms unfolding probe_value_def Let_def by (auto intro!: clear)
qed

lemma write_protect_check:
  assumes "c25_on e cyc c w" "c25_idle c"
  shows "fst (eeprom_25x_is_write_protect e w) \<longleftrightarrow> bit (cs_bits c) 2 \<or> bit (cs_bits c) 3"
proof -
  obtain w' where r: "eeprom_25x_read_status_register w = (cs_bits c OR (if cs_wel c then 2 else 0), w')"
    using status_idle [OF assms] by blast
  have "x AND 0xC = 0 \<longleftrightarrow> \<not> bit x 2 \<and> \<not> bit x 3" for x :: u8
  proof -
    have "x AND 0xC = (if bit x 2 then 4 else 0) OR (if bit x 3 then 8 else 0)"
      by (rule bit_word_eqI) (auto simp: bit_simps dest!: bit_index)
    then show ?thesis
      by (auto split: if_splits)
  qed
  then show ?thesis
    using r by (simp add: eeprom_25x_is_write_protect_def bit_simps)
qed

lemma probe_protect_stores:
  assumes on: "c25_on e cyc c w" and idle: "c25_idle c" and cyc: "cyc < 0xFFFFF"
  shows "\<exists>w' c'. eeprom_25x_probe_block_protect e w = (False, w') \<and> c25_on e cyc c' w' \<and> c25_idle c' \<and>
    cs_mem c' = cs_mem c \<and> cs_bits c' = probe_value e (cs_bits c)"
proof -
  obtain r w1 where w1: "eeprom_25x_read_status_register w = (r, w1)" "c25_on e cyc (c\<lparr>cs_latch := []\<rparr>) w1"
    and r: "r = cs_bits c OR (if cs_wel c then 2 else 0)"
    using status_idle [OF on idle] by blast
  define t1 where "t1 = eeprom_25x_status_reg_print r w1"
  have on1: "c25_on e cyc (c\<lparr>cs_latch := []\<rparr>) t1"
    using w1(2) by (simp add: t1_def eeprom_25x_status_reg_print_def)
  have bits: "cs_bits c AND 0x73 = 0" and kept: "cs_bits c AND 0x8C = cs_bits c"
    using idle by (simp_all add: c25_idle_def bits_kept)
  obtain w2 c2 where w2: "(if ei_protect_test_flag e then probe_test r t1 else (False, t1)) = (False, w2)"
    and c2: "c25_on e cyc c2 w2" "c25_idle c2" "cs_mem c2 = cs_mem c" "cs_bits c2 = cs_bits c"
  proof (cases "ei_protect_test_flag e")
    case True
    have "r AND 0x8C = cs_bits c"
      using kept by (simp add: r bit.conj_disj_distrib2)
    let ?c = "c\<lparr>cs_latch := []\<rparr>\<lparr>cs_bits := r AND 0x8C, cs_wel := False, cs_latch := []\<rparr>"
    have "c25_idle (c\<lparr>cs_latch := []\<rparr>)"
      using idle by simp
    from probe_test_restores [OF on1 this cyc] obtain w2 where "probe_test r t1 = (False, w2)" "c25_on e cyc ?c w2"
      by blast
    then show thesis
      using True idle \<open>r AND 0x8C = cs_bits c\<close> by (intro that [of w2 ?c]) (simp_all add: c25_idle_def)
  next
    case False
    then show thesis
      using on1 idle by (intro that [of t1 "c\<lparr>cs_latch := []\<rparr>"]) simp_all
  qed
  have stored: "probe_value e (cs_bits c) AND 0x8C = probe_value e (cs_bits c)"
    by (rule bits_kept [OF probe_value_bits(1) [OF bits]])
  show ?thesis
  proof (cases "ei_protect_blocks_flag e \<or> ei_protect_wpen_flag e")
    case True
    obtain w3 where w3: "probe_update e w2 = (False, w3)"
      "c25_on e cyc (c2\<lparr>cs_bits := probe_value e (cs_bits c), cs_wel := False, cs_latch := []\<rparr>) w3"
      using probe_update_stores [OF c2(1,2) cyc] c2(4) stored by auto
    have "eeprom_25x_probe_block_protect e w = (False, w3)"
      unfolding eeprom_25x_probe_block_protect_def w1(1) prod.case Let_def t1_def [symmetric] w2 if_False
      using True w3(1) by simp
    then show ?thesis
      using w3(2) c2(2,3) probe_value_bits(1) [OF bits]
      by (intro exI [of _ w3] exI [of _ "c2\<lparr>cs_bits := probe_value e (cs_bits c), cs_wel := False, cs_latch := []\<rparr>"])
        (simp add: c25_idle_def)
  next
    case False
    have "eeprom_25x_probe_block_protect e w = (False, w2)"
      unfolding eeprom_25x_probe_block_protect_def w1(1) prod.case Let_def t1_def [symmetric] w2 if_False
      using False by simp
    moreover have "probe_value e (cs_bits c) = cs_bits c"
      using False by (simp add: probe_value_def)
    ultimately show ?thesis
      using c2 by auto
  qed
qed

subsection \<open>Properties\<close>

text \<open>C40: \<open>eeprom protect\<close> on an idle 25X chip always succeeds, leaves the memory as it was, and gives the block protect bits
  BP0, BP1 and the bit WPEN the values asked for; a bit that is not asked for keeps its value, the test of the bits included.
  The check made before every write then reports an error exactly when a block is protected, and when none is,
  a buffer of any length is written and stored.
\<close>

theorem spi_protect_bits:
  assumes "c25_on e cyc c w" "c25_idle c" "cyc < 0xFFFFF" "ei_device e \<in> set eeprom_25x_devices" "length (cs_mem c) = size_bytes e"
    and "256 \<le> length work"
  shows "\<exists>w' c'. eeprom_25x_probe_block_protect e w = (False, w') \<and> c25_on e cyc c' w' \<and> c25_idle c' \<and> cs_mem c' = cs_mem c \<and>
    bit (cs_bits c') 2 = (if ei_protect_blocks_flag e then bit (ei_protect_bits e) 0 else bit (cs_bits c) 2) \<and>
    bit (cs_bits c') 3 = (if ei_protect_blocks_flag e then bit (ei_protect_bits e) 1 else bit (cs_bits c) 3) \<and>
    bit (cs_bits c') 7 = (if ei_protect_wpen_flag e then bit (ei_protect_wpen_bit e) 0 else bit (cs_bits c) 7) \<and>
    (if bit (cs_bits c') 2 \<or> bit (cs_bits c') 3 then fst (eeprom_25x_is_write_protect e w')
     else \<not> fst (eeprom_25x_is_write_protect e w') \<and>
       (\<exists>work1 s1. eeprom_write_from_buffer eeprom_25x_hal e src work \<lparr>eep_world = w', eep_fs = f\<rparr> = (False, work1, s1) \<and>
          c25_holds e cyc (take (size_bytes e) src @ drop (length src) (cs_mem c)) (eep_world s1)))"
proof -
  obtain w' c' where p: "eeprom_25x_probe_block_protect e w = (False, w')" "c25_on e cyc c' w'" "c25_idle c'"
    "cs_mem c' = cs_mem c" "cs_bits c' = probe_value e (cs_bits c)"
    using probe_protect_stores [OF assms(1-3)] by blast
  have "cs_bits c AND 0x73 = 0"
    using assms(2) by (simp add: c25_idle_def)
  note bits = probe_value_bits(2-) [OF this, of e, folded p(5)]
  have writes: "\<exists>work1 s1. eeprom_write_from_buffer eeprom_25x_hal e src work \<lparr>eep_world = w', eep_fs = f\<rparr> = (False, work1, s1) \<and>
      c25_holds e cyc (take (size_bytes e) src @ drop (length src) (cs_mem c)) (eep_world s1)"
    if "\<not> bit (cs_bits c') 2" "\<not> bit (cs_bits c') 3"
  proof -
    have "cs_bits c' AND 0xC = 0"
      using that by (intro bit_word_eqI) (auto simp: bit_simps dest!: bit_index)
    then have "x25.holding e cyc (cs_mem c) \<lparr>eep_world = w', eep_fs = f\<rparr>"
      using holds_idle [OF p(2,3) _ assms(4,3)] p(4) assms(5) by (simp add: x25.holding_def)
    moreover have "block_bytes e \<le> length work"
      using block_le [of e] assms(6) by simp
    ultimately show ?thesis
      using x25.write_from_buffer_ok [where src = src] by (fastforce simp: x25.holding_def)
  qed
  show ?thesis
    using p(1-4) bits write_protect_check [OF p(2,3)] writes by (intro exI [of _ w'] exI [of _ c'] conjI) auto
qed

subsection \<open>A concrete chip\<close>

definition demo_25x :: eeprom_info where
  "demo_25x = \<lparr>ei_device = spi_device ''25X010'' 128 1 0 0 8 10000, ei_device_address = 0, ei_action = 0,
     ei_protect_bits = 0, ei_protect_wpen_bit = 1, ei_file_name = ''in.bin'', ei_verify_flag = True,
     ei_protect_blocks_flag = True, ei_protect_test_flag = True, ei_protect_wpen_flag = True\<rparr>"

definition demo_25x_chip :: chip25 where
  "demo_25x_chip = \<lparr>cs_mem = replicate 128 0, cs_ptr = 0, cs_phase = S_off, cs_latch = [], cs_busy = 0, cs_wel = False, cs_bits = 0xC\<rparr>"

definition demo_25x_world :: world where
  "demo_25x_world = world_reset\<lparr>w_bus_in := (\<lambda>h. c25_answer (foldl (c25_step demo_25x 3) demo_25x_chip (butlast h)))\<rparr>"

lemma demo_25x_on: "c25_on demo_25x 3 demo_25x_chip demo_25x_world"
  by (simp add: c25_on_def demo_25x_world_def world_reset_def butlast_append)

text \<open>All of the memory is protected; \<open>protect -t -p 0b00 -w 1\<close> frees it and three bytes are written.\<close>

theorem spi_protect_bits_witness:
  "\<exists>w' c' work1 s1. eeprom_25x_probe_block_protect demo_25x demo_25x_world = (False, w') \<and> c25_on demo_25x 3 c' w' \<and>
     \<not> bit (cs_bits c') 2 \<and> \<not> bit (cs_bits c') 3 \<and> bit (cs_bits c') 7 \<and>
     eeprom_write_from_buffer eeprom_25x_hal demo_25x [1, 2, 3] (replicate 256 0) \<lparr>eep_world = w', eep_fs = ()\<rparr> = (False, work1, s1) \<and>
     c25_holds demo_25x 3 ([1, 2, 3] @ replicate 125 0) (eep_world s1)"
proof -
  have z: "size_bytes demo_25x = 128"
    by (simp add: demo_25x_def spi_device_def)
  have c: "c25_idle demo_25x_chip" "length (cs_mem demo_25x_chip) = size_bytes demo_25x"
    unfolding z by (simp_all add: demo_25x_chip_def c25_idle_def)
  have "ei_device demo_25x \<in> set eeprom_25x_devices" "(3 :: nat) < 0xFFFFF" "256 \<le> length (replicate 256 (0 :: u8))"
    by (simp_all add: demo_25x_def eeprom_25x_devices_def)
  note spi_protect_bits [OF demo_25x_on c(1) this(2,1) c(2) this(3), of "[1, 2, 3]" "()"]
  moreover have "ei_protect_blocks_flag demo_25x" "ei_protect_wpen_flag demo_25x" "ei_protect_bits demo_25x = 0" "ei_protect_wpen_bit demo_25x = 1"
    by (simp_all add: demo_25x_def)
  moreover have "take (size_bytes demo_25x) [1, 2, 3] @ drop (length [1, 2, 3 :: u8]) (cs_mem demo_25x_chip) = [1, 2, 3] @ replicate 125 0"
    unfolding z demo_25x_chip_def by (simp add: drop_replicate)
  ultimately show ?thesis
    by auto
qed

end
