(* ===== verification/Spec2Isabelle.thy ===== *)
theory Spec2Isabelle
  imports Bio_Safety Syntax_Post Bp_Cmd_Query Spsc_Cores Usb_Stream Main_Loop Bp_Expr_Text I2c_Mode Eeprom_I2c Eeprom_Spi
begin

text \<open>
  The Bus Pirate 5 firmware: from the bytes a user types to the levels on the pins.

  \<^bold>\<open>The program.\<close> Core 1 moves bytes between USB, the UART, RTT and four queues; core 0 reads a
  line from the receive queue, and either runs a command of the active mode or hands the line
  to the syntax engine. The engine compiles the line to an array of bytecode, runs it through
  the handlers of the active protocol mode, which drive the pins, and prints the results.

  \<^bold>\<open>Theories.\<close>
  \<^item> \<open>Prelude\<close>: character codes, strings in memory, word lemmas. A \<open>char\<close> is an unsigned byte,
    a string in memory a list ended by its NUL, a pointer into it an index.
  \<^item> \<open>Bp_Number\<close> (\<open>src/src/lib/bp_number\<close>), \<open>Cmdreader\<close> (\<open>lib/bp_linenoise/ln_cmdreader.c\<close>),
    \<open>Ui_Parse\<close> (\<open>ui/ui_parse.c\<close>): reading numbers, the line reader, and the parsers on it.
  \<^item> \<open>World\<close> (\<open>system_config.c\<close>, \<open>pirate/bio.c\<close>, \<open>pirate/amux.c\<close>): the configuration record, pin
    labels, buffered pins. The hardware is a trace of register-level events; what it answers
    is a function of the trace, so that no assumption on it is made.
  \<^item> \<open>Bytecode\<close> (\<open>bytecode.h\<close>, \<open>modes.h\<close>): an instruction and the handler table of a mode.
  \<^item> \<open>Ui_Format\<close> (\<open>ui/ui_format.c\<close>, \<open>pirate/lsb.c\<close>): bit order and printing of numbers.
  \<^item> \<open>Syntax_Compile\<close>, \<open>Syntax_Run\<close>, \<open>Syntax_Post\<close> (\<open>syntax_compile.c\<close>, \<open>syntax_run.c\<close>,
    \<open>syntax_post.c\<close>): the engine; the last with the whole text of a run of results. \<open>Syntax_Text\<close> is the abstract syntax of a line, with its
    printer, which the compiler inverts.
  \<^item> \<open>Modes\<close> (\<open>modes.c\<close>, \<open>mode/dio.c\<close>, \<open>mode/hwspi.c\<close>, \<open>mode/hw2wire.c\<close>, \<open>mode/hw3wire.c\<close> and
    their drivers under \<open>pirate/\<close>): the handlers; \<open>Mode_Trace\<close> is the interface
    between the executor and a mode, interpreted for every modelled mode.
  \<^item> \<open>Amux\<close> (\<open>pirate/amux.c\<close>), \<open>Ui_Help\<close> (\<open>ui/ui_help.c\<close>): the sweep over the analog inputs with
    its rolling averages, the check of supply and pull-ups.
  \<^item> \<open>I2c_Pio\<close> (\<open>pirate/hwi2c_pio.c\<close>, \<open>pio_config.h\<close>), \<open>I2c_Mode\<close> (\<open>mode/hwi2c.c\<close>,
    \<open>commands/i2c/scan.c\<close>): the I2C driver with its timeouts, the handlers of the mode, the scan. Here all six
    modes are together, and the result of a run is stated for each of them.
  \<^item> \<open>Eeprom_Base\<close>, \<open>Eeprom_Memory\<close>, \<open>Eeprom_I2c\<close>, \<open>Eeprom_Spi\<close> (\<open>commands/eeprom/eeprom_base.c\<close>,
    \<open>eeprom_i2c.c\<close>, \<open>eeprom_spi.c\<close> there, \<open>pirate/file.c\<close>): the actions on an EEPROM, the contract of a device's
    functions with the memory behind them (locale \<open>eeprom_memory\<close>), the 24X driver on the I2C bus and the 25X
    driver with its block protection on the SPI bus, each with the documented chip.
  \<^item> \<open>Bio_Safety\<close>: the state of the pads and their buffers under any sequence of calls of the pin functions of
    \<open>bio.c\<close>, and the calls that may turn a buffer against its pin. A pin handed to a peripheral or to the PIO
    is driven by that and not by the GPIO registers, which are what is looked at.
  \<^item> \<open>Bp_Cmd\<close>, \<open>Bp_Cmd_Value\<close>, \<open>Bp_Cmd_Text\<close>, \<open>Bp_Cmd_Query\<close> (\<open>lib/bp_args/bp_cmd.c\<close>): scanning a command line
    for flags, positionals and verbs; typed values and their constraints; a
    well-written command line as an abstract list of arguments, and what the queries with a constraint answer on
    it: status, value and message.
  \<^item> \<open>Spsc_Queue\<close>, \<open>Spsc_Cores\<close> (\<open>spsc_queue.h\<close>): the queue between the cores, as calls and as
    interleaved accesses to shared memory. \<open>Usb_Queues\<close>, \<open>Usb_Stream\<close> (\<open>usb_rx.c\<close>, \<open>usb_tx.c\<close>):
    the receivers, the transmit service and its toolbar state machine.
  \<^item> \<open>Ui_Cmdln\<close> (\<open>ui/ui_cmdln.c\<close>), \<open>Ui_Process\<close> (\<open>ui/ui_process.c\<close>): splitting a line at
    \<open>;\<close>, \<open>||\<close> and \<open>&&\<close>, and the dispatch of its parts to the command tables or to the syntax
    engine; the functions of the tables and the hooks of a mode are arguments.
    \<open>Ui_Chain\<close> composes them with the line reader, the engine and the SPI handlers.
  \<^item> \<open>Ln_Utf8\<close>, \<open>Ln_History\<close>, \<open>Ln_Refresh\<close>, \<open>Ln_Edit\<close> (\<open>lib/bp_linenoise/linenoise.c\<close>): the line editor as it is
    built for the firmware: characters and their widths, the history in a ring over a packed buffer (locale \<open>line_history\<close>),
    drawing, editing, completion, and the handler of one key. \<open>Vt100_Keys\<close> (\<open>lib/vt100_keys/vt100_keys.c\<close>): escape
    sequences. \<open>Ln_Text\<close>, \<open>Ln_Keys\<close>: the editor as a text buffer, key by key. \<open>Ui_Line\<close>
    (\<open>ui/ui_term_linenoise.c\<close>), \<open>Ui_Prompt\<close> (\<open>ui/ui_prompt.c\<close>): the command line and the prompts of menus.
    \<open>Main_Loop\<close> (\<open>pirate.c\<close>): the state machine of core 0, which ties all of it together.
  \<^item> \<open>Bp_Expr\<close>, \<open>Bp_Expr_Text\<close> (\<open>lib/bp_expr/bp_expr.c\<close>): the expression evaluator, one function
    for the six levels; the abstract syntax of expressions, their value and text.

  \<^bold>\<open>State.\<close> Static variables and the objects behind pointers are fields of records with the names
  of the source; a function returns the changed record. Out-of-bounds accesses, failed
  assertions and endless waiting are values (\<open>None\<close>, or constructors of \<open>outcome\<close>), so the
  theorems say when they cannot happen. A returned \<open>bool\<close> is what the code returns: the EEPROM actions, the functions of
  \<open>file.c\<close> and \<open>ui_process_commands\<close> return false for success and true for an error, where their headers document the
  opposite; \<open>eeprom_action_verify\<close> has no return statement at its end, which is \<open>None\<close>. Printed text is a list of events, one for each
  conversion of a format string.

  \<^bold>\<open>Lemmas.\<close> Parsers: they never move backwards, they consume exactly the text they recognise
  (round trips with printers), numbers saturate or are rejected at their bounds. Compiler: a
  compiled program is well formed and is the one written; no access out of bounds. Executor:
  stated once for every mode that meets the interface, then for the modes. Queue: calls
  refine a bounded list (locale \<open>byte_queue\<close>), interleaved accesses keep the same list;
  progress of each core. Terminal: the stream of bytes as blocks, with a log of the service calls that says which bytes
  were discarded and that no host was there. Commands: a line of
  commands runs left to right with the short circuits of the code; a typed program reaches the
  pins. Expressions: every call returns and moves forward; the text of an expression
  evaluates to its value. EEPROM: under the contract the loops write, compare and save exactly the bytes of
  the memory; the drivers on the I2C bus and on the SPI bus meet the contract for the chips of their tables.

  Line editor: each key does to the bytes of the line what its operation does to a text of characters; the history is a
  list of lines; a drawing is the exact bytes of the window and the cut hint, and fits the terminal; a typed program goes through the loop of core 0 to the bus.

  \<^bold>\<open>Bounds and fuel.\<close> Loops over a string recurse on the distance to its end, loops over slots on
  the number of instructions, repeat counts on their value; no definition uses fuel. The
  blocking queue operations, the prompts and the expression evaluator are partial functions; \<open>None\<close> is
  running for ever, and theorems say when it does not occur. The polling of an EEPROM counts 0xFFFFF polls, as the code does.

  \<^bold>\<open>Assumptions.\<close> Each core sees the memory accesses of the other in program order, which the
  barriers of \<open>spsc_queue.h\<close> ensure. A command line is shorter than 2^32 bytes. TinyUSB accepts as many bytes as it reports room for.
  Drivers of the SDK do what the events name. The EEPROM chips and FatFs behave as documented
  (\<open>chip_on\<close>, \<open>c25_on\<close>, \<open>fatfs_contract\<close>). The line editor finds the bytes that came from the terminal as a list; the
  refinement to a text buffer is for characters that stand alone, on a terminal wider than the prompt.

  \<^bold>\<open>Not modelled.\<close> Floating-point values, settings pages and the prompts inside of modes and commands, the other modes of the line editor,
  the protocol modes other than HiZ, DIO, SPI, I2C, 2WIRE and 3WIRE, power supply, storage, LEDs,
  displays, binary modes and device commands: mostly peripheral input and output. Third-party
  code in the repository (FatFs, FlatBuffers, dhara, printf, TinyUSB and others) is left alone.
\<close>

end
